(* ===== verification/Prelude.thy ===== *)
theory Prelude
  imports Main "HOL-Library.AList" "HOL-Library.Sublist" "HOL-Library.List_Lexorder"
    "HOL-Library.Char_ord" "HOL-Library.Word"
begin

text \<open>
  What every component of the model shares.

  \<^item> Go's \<open>time.Time\<close> is an integer number of nanoseconds since Go's zero time, so that
    \<open>t.IsZero()\<close> is \<open>t = 0\<close>; \<open>time.Duration\<close> is an integer that the code keeps in an
    \<open>int64\<close>. \<open>t.Sub(u)\<close> saturates, as the standard library documents.
  \<^item> A Go map is an association list with distinct keys (\<open>gomap_ok\<close>): a lookup is \<open>map_of\<close>,
    a store is \<open>AList.update\<close> and \<open>delete(m, k)\<close> is \<open>AList.delete\<close>. A \<open>range\<close> loop visits the
    bindings in the order of the list; theorems are stated for every list, hence for
    every iteration order the runtime may choose.
  \<^item> Strings are lists of bytes, as in Go.
\<close>

section \<open>Lemma collections\<close>

named_theorems gomap_simps \<open>equations for maps kept as association lists\<close>
named_theorems go_text_simps \<open>equations for string helpers\<close>

section \<open>Time\<close>

type_synonym time = int
type_synonym duration = int

definition max_duration :: duration where
  "max_duration = 2 ^ 63 - 1"

definition min_duration :: duration where
  "min_duration = - (2 ^ 63)"

text \<open>\<open>t.Sub(u)\<close>: the difference, clamped to the range of a Duration.\<close>

definition time_sub :: "time \<Rightarrow> time \<Rightarrow> duration" where
  "time_sub t u = max min_duration (min max_duration (t - u))"

abbreviation (input) is_zero_time :: "time \<Rightarrow> bool" where
  "is_zero_time t \<equiv> t = 0"

abbreviation (input) after_time :: "time \<Rightarrow> time \<Rightarrow> bool" where
  "after_time t u \<equiv> u < t"

abbreviation (input) before_time :: "time \<Rightarrow> time \<Rightarrow> bool" where
  "before_time t u \<equiv> t < u"

definition second :: duration where "second = 1000000000"
definition minute :: duration where "minute = 60 * second"
definition hour :: duration where "hour = 60 * minute"

lemmas time_units = second_def minute_def hour_def

lemma time_sub_mono: "t \<le> t' \<Longrightarrow> time_sub t u \<le> time_sub t' u"
  by (auto simp: time_sub_def)

lemma time_sub_antimono: "u \<le> u' \<Longrightarrow> time_sub t u' \<le> time_sub t u"
  by (auto simp: time_sub_def)

lemma time_sub_le_iff:
  "0 \<le> d \<Longrightarrow> d < max_duration \<Longrightarrow> time_sub t u \<le> d \<longleftrightarrow> t - u \<le> d"
  by (auto simp: time_sub_def max_duration_def min_duration_def)

lemma time_sub_gt_iff:
  "0 \<le> d \<Longrightarrow> d < max_duration \<Longrightarrow> d < time_sub t u \<longleftrightarrow> d < t - u"
  by (auto simp: time_sub_def max_duration_def min_duration_def)

text \<open>Two's complement wrap-around of \<open>int64\<close> arithmetic.\<close>

definition i64 :: "int \<Rightarrow> int" where
  "i64 x = (x + 2 ^ 63) mod 2 ^ 64 - 2 ^ 63"

lemma i64_id: "- (2 ^ 63) \<le> x \<Longrightarrow> x < 2 ^ 63 \<Longrightarrow> i64 x = x"
  by (simp add: i64_def)

section \<open>Go maps\<close>

type_synonym ('k, 'v) gomap = "('k \<times> 'v) list"

definition gomap_ok :: "('k, 'v) gomap \<Rightarrow> bool" where
  "gomap_ok m \<longleftrightarrow> distinct (map fst m)"

abbreviation (input) mget :: "('k, 'v) gomap \<Rightarrow> 'k \<Rightarrow> 'v option" where
  "mget \<equiv> map_of"

abbreviation (input) mput :: "'k \<Rightarrow> 'v \<Rightarrow> ('k, 'v) gomap \<Rightarrow> ('k, 'v) gomap" where
  "mput \<equiv> AList.update"

abbreviation (input) mdel :: "'k \<Rightarrow> ('k, 'v) gomap \<Rightarrow> ('k, 'v) gomap" where
  "mdel \<equiv> AList.delete"

lemma gomap_ok_Nil [simp, intro]: "gomap_ok []"
  by (simp add: gomap_ok_def)

lemma gomap_ok_Cons [gomap_simps]:
  "gomap_ok ((k, v) # m) \<longleftrightarrow> k \<notin> fst ` set m \<and> gomap_ok m"
  by (simp add: gomap_ok_def)

lemma mget_mput [simp, gomap_simps]:
  "mget (mput k v m) k' = (if k = k' then Some v else mget m k')"
  by (simp add: update_conv')

lemma mget_mdel [simp, gomap_simps]:
  "mget (mdel k m) k' = (if k = k' then None else mget m k')"
  by (simp add: delete_conv')

lemma gomap_ok_mput [simp, intro]: "gomap_ok m \<Longrightarrow> gomap_ok (mput k v m)"
  by (simp add: gomap_ok_def distinct_update)

lemma gomap_ok_mdel [simp, intro]: "gomap_ok m \<Longrightarrow> gomap_ok (mdel k m)"
  by (simp add: gomap_ok_def distinct_delete)

lemma gomap_ok_filter [simp, intro]: "gomap_ok m \<Longrightarrow> gomap_ok (filter P m)"
  by (simp add: gomap_ok_def distinct_map_filter)

lemma mem_gomap_iff: "gomap_ok m \<Longrightarrow> (k, v) \<in> set m \<longleftrightarrow> mget m k = Some v"
  by (simp add: gomap_ok_def)

lemma mget_SomeD: "mget m k = Some v \<Longrightarrow> (k, v) \<in> set m"
  by (rule map_of_SomeD)

lemma mget_fst_iff: "k \<in> fst ` set m \<longleftrightarrow> (\<exists>v. mget m k = Some v)"
  by (metis map_of_eq_None_iff not_None_eq)

lemma set_mput:
  "gomap_ok m \<Longrightarrow> set (mput k v m) = insert (k, v) {b \<in> set m. fst b \<noteq> k}"
  by (auto simp: mem_gomap_iff split: if_splits)

lemma set_mdel: "set (mdel k m) = {b \<in> set m. fst b \<noteq> k}"
  by (auto simp: AList.delete_eq)

lemma mget_filter:
  assumes "gomap_ok m"
  shows "mget (filter P m) k =
    (case mget m k of None \<Rightarrow> None | Some v \<Rightarrow> if P (k, v) then Some v else None)"
proof -
  have ok: "gomap_ok (filter P m)" using assms by simp
  show ?thesis
  proof (cases "mget (filter P m) k")
    case None
    then have "(k, v) \<notin> set (filter P m)" for v
      using mem_gomap_iff [OF ok, of k v] by simp
    with None show ?thesis by (auto split: option.splits dest: mget_SomeD)
  next
    case (Some v)
    then have "(k, v) \<in> set m" and "P (k, v)"
      using mem_gomap_iff [OF ok, of k v] by auto
    with Some assms show ?thesis by (simp add: mem_gomap_iff)
  qed
qed

text \<open>The values of a map, and how many bindings satisfy a predicate (a counting \<open>range\<close> loop).\<close>

definition count_vals :: "('v \<Rightarrow> bool) \<Rightarrow> ('k, 'v) gomap \<Rightarrow> nat" where
  "count_vals P m = length (filter (P \<circ> snd) m)"

lemma count_vals_Nil [simp]: "count_vals P [] = 0"
  by (simp add: count_vals_def)

lemma count_vals_Cons [simp]:
  "count_vals P ((k, v) # m) = (if P v then 1 else 0) + count_vals P m"
  by (simp add: count_vals_def)

lemma count_vals_mput_new:
  "mget m k = None \<Longrightarrow> count_vals P (mput k v m) = count_vals P m + (if P v then 1 else 0)"
  by (induction m) (auto split: if_splits)

lemma count_vals_mput_old:
  "gomap_ok m \<Longrightarrow> mget m k = Some w \<Longrightarrow>
   count_vals P (mput k v m) + (if P w then 1 else 0) = count_vals P m + (if P v then 1 else 0)"
  by (induction m) (auto simp: gomap_simps split: if_splits)

lemma count_vals_mput_le:
  assumes "gomap_ok m" and "mget m k = Some w" and "P v \<Longrightarrow> P w"
  shows "count_vals P (mput k v m) \<le> count_vals P m"
  using count_vals_mput_old [OF assms(1,2), of P v] assms(3) by (auto split: if_splits)

lemma count_vals_mdel_le: "count_vals P (mdel k m) \<le> count_vals P m"
  by (induction m) auto

lemma count_vals_filter_le: "count_vals P (filter Q m) \<le> count_vals P m"
  by (induction m) auto

lemma length_filter_mono: "(\<And>x. x \<in> set xs \<Longrightarrow> P x \<Longrightarrow> Q x) \<Longrightarrow>
    length (filter P xs) \<le> length (filter Q xs)"
  by (induction xs) auto

section \<open>Strings\<close>

lemma append_sep_inj [go_text_simps]:
  "c \<notin> set xs \<Longrightarrow> c \<notin> set ys \<Longrightarrow> xs @ c # a = ys @ c # b \<longleftrightarrow> xs = ys \<and> a = b"
proof (induction xs arbitrary: ys)
  case Nil
  then show ?case by (cases ys) auto
next
  case (Cons x xs)
  then show ?case by (cases ys) auto
qed

text \<open>Go compares strings bytewise; \<open>sort.Strings\<close> is \<open>sort\<close> under this order.\<close>

definition is_digit :: "char \<Rightarrow> bool" where
  "is_digit c \<longleftrightarrow> CHR ''0'' \<le> c \<and> c \<le> CHR ''9''"

definition is_lower :: "char \<Rightarrow> bool" where
  "is_lower c \<longleftrightarrow> CHR ''a'' \<le> c \<and> c \<le> CHR ''z''"

definition is_upper :: "char \<Rightarrow> bool" where
  "is_upper c \<longleftrightarrow> CHR ''A'' \<le> c \<and> c \<le> CHR ''Z''"

text \<open>\<open>strconv.Itoa\<close> and \<open>%d\<close>.\<close>

definition digit_char :: "nat \<Rightarrow> char" where
  "digit_char d = char_of (48 + d)"

fun show_nat :: "nat \<Rightarrow> string" where
  "show_nat n = (if n < 10 then [digit_char n] else show_nat (n div 10) @ [digit_char (n mod 10)])"

declare show_nat.simps [simp del]

definition show_int :: "int \<Rightarrow> string" where
  "show_int i = (if i < 0 then CHR ''-'' # show_nat (nat (- i)) else show_nat (nat i))"

lemma show_nat_nonempty [simp]: "show_nat n \<noteq> []"
  by (subst show_nat.simps) simp

lemma digit_char_digit: "d < 10 \<Longrightarrow> is_digit (digit_char d)"
  by (auto simp: is_digit_def digit_char_def less_eq_char_def of_char_of)

lemma show_nat_digits: "list_all is_digit (show_nat n)"
proof (induction n rule: show_nat.induct)
  case (1 n)
  then show ?case
    by (subst show_nat.simps) (auto simp: digit_char_digit)
qed

text \<open>\<open>strings.ReplaceAll\<close> for a non-empty needle: leftmost, non-overlapping.\<close>

function replace_all :: "string \<Rightarrow> string \<Rightarrow> string \<Rightarrow> string" where
  "replace_all old new s =
     (if s = [] \<or> old = [] then s
      else if prefix old s then new @ replace_all old new (drop (length old) s)
      else hd s # replace_all old new (tl s))"
  by pat_completeness auto
termination
  by (relation "measure (\<lambda>(old, new, s). length s)") (auto simp: length_greater_0_conv)

declare replace_all.simps [simp del]

text \<open>\<open>strings.TrimRight(s, c)\<close> for one byte.\<close>

definition trim_right :: "char \<Rightarrow> string \<Rightarrow> string" where
  "trim_right c s = rev (dropWhile (\<lambda>x. x = c) (rev s))"

end
