(* ===== verification/OpTypes.thy ===== *)
theory OpTypes
  imports Prelude
begin

text \<open>
  The data of \<open>internal/operation/types.go\<close>: operation kinds, statuses, requests, actors,
  servers, operation records and their receipts. A Go string type with declared
  constants is a datatype with one constructor per constant and one for any other
  string (a record written by another version still loads). \<open>Sequence\<close> is kept at its
  width, \<open>uint64\<close>; the text of \<open>Operation.Error\<close> is a datatype with one constructor per
  message the code writes.
\<close>

section \<open>Kinds and statuses\<close>

datatype kind =
  KindDeploy | KindRollback | KindRemove | KindTemplateInstall | KindAppLifecycle
| KindMaintenance | KindRedeploy | KindBackupCreate | KindBackupRestore | KindServerAudit
| KindRouteRemove | KindReleasesPrune | KindServerPrune | OtherKind string

fun supportedKind :: "kind \<Rightarrow> bool" where
  "supportedKind (OtherKind _) = False"
| "supportedKind _ = True"

datatype status =
  StatusQueued | StatusRunning | StatusCancelRequested | StatusStopping
| StatusSucceeded | StatusFailed | StatusCanceled | StatusAlreadyCommitted
| StatusInterrupted | OtherStatus string

definition terminal :: "status \<Rightarrow> bool" where
  "terminal s \<longleftrightarrow>
     (case s of
        StatusSucceeded \<Rightarrow> True | StatusFailed \<Rightarrow> True | StatusCanceled \<Rightarrow> True
      | StatusAlreadyCommitted \<Rightarrow> True | StatusInterrupted \<Rightarrow> True
      | _ \<Rightarrow> False)"

lemma terminal_simps [simp]:
  "\<not> terminal StatusQueued" "\<not> terminal StatusRunning" "\<not> terminal StatusCancelRequested"
  "\<not> terminal StatusStopping" "terminal StatusSucceeded" "terminal StatusFailed"
  "terminal StatusCanceled" "terminal StatusAlreadyCommitted" "terminal StatusInterrupted"
  "\<not> terminal (OtherStatus s)"
  by (simp_all add: terminal_def)

lemma terminal_iff:
  "terminal s \<longleftrightarrow> s \<in> {StatusSucceeded, StatusFailed, StatusCanceled, StatusAlreadyCommitted,
      StatusInterrupted}"
  by (cases s) auto

text \<open>The text of a status, as the JSON records and the status events carry it.\<close>

fun status_text :: "status \<Rightarrow> string" where
  "status_text StatusQueued = ''queued''"
| "status_text StatusRunning = ''running''"
| "status_text StatusCancelRequested = ''cancel_requested''"
| "status_text StatusStopping = ''stopping''"
| "status_text StatusSucceeded = ''succeeded''"
| "status_text StatusFailed = ''failed''"
| "status_text StatusCanceled = ''canceled''"
| "status_text StatusAlreadyCommitted = ''already_committed''"
| "status_text StatusInterrupted = ''interrupted''"
| "status_text (OtherStatus s) = s"

section \<open>Events\<close>

datatype event_type = EventStatus | EventStdout | EventStderr | EventGap

record event =
  ev_seq :: "64 word"
  ev_op :: string
  ev_type :: event_type
  ev_data :: string
  ev_at :: time

section \<open>Requests, actors and servers\<close>

record request =
  rq_kind :: kind
  rq_server :: string
  rq_app :: string
  rq_mode :: string
  rq_image :: string
  rq_domain :: string
  rq_port :: int
  rq_template :: string
  rq_home :: string
  rq_template_version :: string
  rq_vars :: "(string, string) gomap"
  rq_action :: string
  rq_purge :: bool
  rq_redirect :: string
  rq_to :: string
  rq_accessory :: string
  rq_backup_id :: string
  rq_database :: string
  rq_no_backup :: bool
  rq_keep :: int

record actor =
  ac_kind :: string
  ac_subject :: string
  ac_label :: string
  ac_capabilities :: "string list"
  ac_role :: string
  ac_cap_basis :: string

record server =
  sv_name :: string
  sv_id :: string
  sv_host :: string
  sv_user :: string

record command =
  cmd_args :: "string list"
  cmd_timeout :: duration
  cmd_secrets :: "string list"
  cmd_stdin :: string

datatype stream = StreamStdout | StreamStderr

definition NoAuthScope :: string where
  "NoAuthScope = ''local:no-auth''"

fun IdempotencyScope :: "actor option \<Rightarrow> string" where
  "IdempotencyScope None = NoAuthScope"
| "IdempotencyScope (Some a) = ac_kind a @ '':'' @ ac_subject a"

section \<open>Reconciliation and receipts\<close>

datatype reconcile_state =
  ReconcileStateReconciling | ReconcileStateApplied | ReconcileStateNotApplied | ReconcileStateManual

fun reconcile_text :: "reconcile_state \<Rightarrow> string" where
  "reconcile_text ReconcileStateReconciling = ''reconciling''"
| "reconcile_text ReconcileStateApplied = ''reconciled-applied''"
| "reconcile_text ReconcileStateNotApplied = ''reconciled-not-applied''"
| "reconcile_text ReconcileStateManual = ''needs-manual-check''"

record reconciliation =
  rec_state :: reconcile_state
  rec_reason :: string
  rec_evidence :: string
  rec_checked_at :: time

record receipt =
  rc_applied :: bool
  rc_evidence :: string

section \<open>Operation records\<close>

text \<open>
  Why a target no longer matches its admitted snapshot (\<open>checkTarget\<close>), and the texts
  \<open>Operation.Error\<close> takes. \<open>CancelReason shutdown\<close> is the text of \<open>cancelReason\<close>.
\<close>

datatype mismatch =
  RenamedAndRepointed | IdVanished | NameVanished | IdDropped | IdChanged | Repointed

datatype message =
  NoMessage
| OperationFailed
| ExecutorError string
| TargetMismatch mismatch
| PersistRunningFailed
| OperationCanceled
| CancelReason bool
| CancelUnverified bool string
| CancelTooLate bool
| CancelConfirmed bool
| InterruptedUnknown
| CanceledBeforeRestart

record operation =
  op_id :: string
  op_request :: request
  op_mode :: string
  op_target :: string
  op_status :: status
  op_idem_key :: string
  op_idem_principal :: string
  op_retry_of :: string
  op_attempt :: int
  op_exit_code :: "int option"
  op_error :: message
  op_created_at :: time
  op_started_at :: "time option"
  op_finished_at :: "time option"
  op_has_secrets :: bool
  op_admitted_server :: "server option"
  op_admission_seq :: "64 word"
  op_actor :: "actor option"
  op_reconciliation :: "reconciliation option"
  op_request_hash :: string

definition is_reconciling :: "operation \<Rightarrow> bool" where
  "is_reconciling op \<longleftrightarrow>
     op_status op = StatusInterrupted \<and>
     (case op_reconciliation op of None \<Rightarrow> False | Some r \<Rightarrow> rec_state r = ReconcileStateReconciling)"

abbreviation op_live :: "operation \<Rightarrow> bool" where
  "op_live op \<equiv> \<not> terminal (op_status op)"

text \<open>Two operations of one principal are namespaced by the principal, never by the text of the key.\<close>

lemma scope_prefix_inj:
  assumes "CHR '':'' \<notin> set (ac_kind a)" and "CHR '':'' \<notin> set (ac_kind b)"
    and "IdempotencyScope (Some a) = IdempotencyScope (Some b)"
  shows "ac_kind a = ac_kind b \<and> ac_subject a = ac_subject b"
  using assms by (simp add: go_text_simps)

end
