(* ===== verification/OpBuild.thy ===== *)
theory OpBuild
  imports OpTypes
begin

text \<open>
  \<open>internal/operation/build.go\<close>: from an admitted request to the argument vector of the CLI.
  Each builder validates its request, resolves the server and renders the command; every
  refusal of the code is a constructor of \<open>build_error\<close>. The resolver is the caller's
  (the server package's) function; \<open>None\<close> is Go's nil function. What the server package
  injects at startup (\<open>varStdinSupport\<close>, \<open>legacySecretArgVAllowed\<close>) is the record
  \<open>build_env\<close>; the bytes of \<open>json.Marshal\<close> on the variables are its \<open>env_json\<close>.
\<close>

section \<open>Validation\<close>

definition ident_char :: "char \<Rightarrow> bool" where
  "ident_char c \<longleftrightarrow> is_upper c \<or> is_lower c \<or> is_digit c \<or> c = CHR ''.'' \<or> c = CHR ''_'' \<or> c = CHR ''-''"

definition identifierPattern :: "string \<Rightarrow> bool" where
  "identifierPattern s \<longleftrightarrow> s \<noteq> [] \<and> list_all ident_char s"

definition validIdentifier :: "string \<Rightarrow> bool" where
  "validIdentifier v \<longleftrightarrow> v \<noteq> ''.'' \<and> v \<noteq> ''..'' \<and> \<not> prefix ''-'' v \<and> identifierPattern v"

definition varNamePattern :: "string \<Rightarrow> bool" where
  "varNamePattern s \<longleftrightarrow>
     (case s of [] \<Rightarrow> False
      | c # cs \<Rightarrow> (is_upper c \<or> is_lower c \<or> c = CHR ''_'') \<and>
          list_all (\<lambda>d. is_upper d \<or> is_lower d \<or> is_digit d \<or> d = CHR ''_'') cs)"

definition is_hex :: "char \<Rightarrow> bool" where
  "is_hex c \<longleftrightarrow> is_digit c \<or> (CHR ''a'' \<le> c \<and> c \<le> CHR ''f'')"

text \<open>\<open>[0-9]{8}-[0-9]{6}(-[0-9a-f]{1,16})?\<close>, anchored at both ends.\<close>

definition backupIDPattern :: "string \<Rightarrow> bool" where
  "backupIDPattern s \<longleftrightarrow>
     15 \<le> length s \<and> list_all is_digit (take 8 s) \<and> s ! 8 = CHR ''-'' \<and>
     list_all is_digit (take 6 (drop 9 s)) \<and>
     (case drop 15 s of [] \<Rightarrow> True
      | c # hs \<Rightarrow> c = CHR ''-'' \<and> 1 \<le> length hs \<and> length hs \<le> 16 \<and> list_all is_hex hs)"

section \<open>Errors, resolver and environment\<close>

datatype build_error =
  UnsupportedKind kind | DeployModeInvalid | InvalidServer | InvalidApp | NoResolver
| ResolveFailed string | PortOutOfRange | HomeInvalid | InvalidRollbackTarget
| NoBackupNeedsPurge | InvalidTemplate | DomainRequired | InvalidVariable string
| LegacySecretArgV | VarStdinProbeFailed string | UnsupportedAction string
| MaintenanceActionInvalid | InvalidBackupID | InvalidAccessory | DatabaseNeedsAccessory
| DatabaseOnlyCLI string | KeepOutOfRange

type_synonym resolver = "(string \<Rightarrow> string + server) option"
type_synonym built = "build_error + command \<times> server \<times> string"

record build_env =
  env_var_stdin :: "string + bool"
  env_legacy_argv :: bool
  env_json :: "(string, string) gomap \<Rightarrow> string"

definition resolveRequest :: "request \<Rightarrow> resolver \<Rightarrow> bool \<Rightarrow> build_error + server" where
  "resolveRequest req resolve appRequired =
     (if \<not> validIdentifier (rq_server req) then Inl InvalidServer
      else if appRequired \<and> \<not> validIdentifier (rq_app req) then Inl InvalidApp
      else case resolve of None \<Rightarrow> Inl NoResolver
      | Some f \<Rightarrow>
        (case f (rq_server req) of Inl e \<Rightarrow> Inl (ResolveFailed e)
         | Inr srv0 \<Rightarrow>
           (let srv1 = (if sv_name srv0 = [] then srv0\<lparr>sv_name := rq_server req\<rparr> else srv0);
                srv2 = (if sv_host srv1 = [] then srv1\<lparr>sv_host := sv_name srv1\<rparr> else srv1)
            in Inr srv2)))"

definition addUser :: "string list \<Rightarrow> string \<Rightarrow> string list" where
  "addUser args user = (if user \<noteq> [] \<and> user \<noteq> ''root'' then args @ [''--user'', user] else args)"

definition appTarget :: "request \<Rightarrow> string" where
  "appTarget req = ''server:'' @ rq_server req @ ''/app:'' @ rq_app req"

section \<open>Time limits\<close>

definition cliBackupDeadline :: duration where "cliBackupDeadline = 6 * hour"
definition cliDeadlineMargin :: duration where "cliDeadlineMargin = 15 * minute"
definition cliAuditDeadline :: duration where "cliAuditDeadline = 5 * minute"

fun KindTimeout :: "kind \<Rightarrow> duration" where
  "KindTimeout KindDeploy = 30 * minute"
| "KindTimeout KindRedeploy = 30 * minute"
| "KindTimeout KindTemplateInstall = 30 * minute"
| "KindTimeout KindBackupCreate = 30 * minute"
| "KindTimeout KindRollback = 10 * minute"
| "KindTimeout KindRemove = 10 * minute"
| "KindTimeout KindAppLifecycle = 5 * minute"
| "KindTimeout KindMaintenance = 5 * minute"
| "KindTimeout KindBackupRestore = 60 * minute"
| "KindTimeout KindServerPrune = 15 * minute"
| "KindTimeout KindReleasesPrune = 10 * minute"
| "KindTimeout KindRouteRemove = 5 * minute"
| "KindTimeout _ = 30 * minute"

definition ExecutionTimeout :: "request \<Rightarrow> duration" where
  "ExecutionTimeout req =
     (case rq_kind req of
        KindBackupCreate \<Rightarrow> cliBackupDeadline + cliDeadlineMargin
      | KindBackupRestore \<Rightarrow>
          (if rq_no_backup req then cliBackupDeadline + cliDeadlineMargin
           else 2 * cliBackupDeadline + cliDeadlineMargin)
      | KindRemove \<Rightarrow>
          (if rq_purge req \<and> \<not> rq_no_backup req then cliBackupDeadline + cliDeadlineMargin
           else KindTimeout (rq_kind req))
      | KindServerAudit \<Rightarrow> cliAuditDeadline + cliDeadlineMargin
      | _ \<Rightarrow> KindTimeout (rq_kind req))"

definition HoldCeiling :: "request \<Rightarrow> duration" where
  "HoldCeiling req =
     (if rq_kind req = KindRemove \<and> rq_purge req then 60 * minute else KindTimeout (rq_kind req))"

section \<open>The builders\<close>

definition plain_command :: "string list \<Rightarrow> duration \<Rightarrow> command" where
  "plain_command args t = \<lparr>cmd_args = args, cmd_timeout = t, cmd_secrets = [], cmd_stdin = []\<rparr>"

definition BuildDeploy :: "request \<Rightarrow> resolver \<Rightarrow> built" where
  "BuildDeploy req resolve =
     (if rq_mode req \<noteq> [] \<and> rq_mode req \<noteq> ''ad-hoc'' then Inl DeployModeInvalid
      else case resolveRequest req resolve True of Inl e \<Rightarrow> Inl e
      | Inr srv \<Rightarrow>
        if rq_port req < 0 \<or> rq_port req > 65535 then Inl PortOutOfRange
        else
          let args0 = [''deploy'', sv_name srv, ''--app'', rq_app req];
              args1 = addUser args0 (sv_user srv);
              args2 = args1 @ (if rq_image req \<noteq> [] then [''--image'', rq_image req] else []);
              args3 = args2 @ (if rq_domain req \<noteq> [] then [''--domain'', rq_domain req] else []);
              args4 = args3 @ (if rq_port req > 0 then [''--port'', show_int (rq_port req)] else [])
          in if rq_home req = [] then
               Inr (plain_command args4 (KindTimeout KindDeploy), srv, appTarget req)
             else if rq_home req = ''teploy'' then
               Inr (plain_command (args4 @ [''--home'', ''teploy'']) (KindTimeout KindDeploy), srv,
                 appTarget req)
             else Inl HomeInvalid)"

definition BuildRollback :: "request \<Rightarrow> resolver \<Rightarrow> built" where
  "BuildRollback req resolve =
     (case resolveRequest req resolve True of Inl e \<Rightarrow> Inl e
      | Inr srv \<Rightarrow>
        if rq_to req \<noteq> [] \<and> (128 < length (rq_to req) \<or> \<not> validIdentifier (rq_to req))
        then Inl InvalidRollbackTarget
        else
          let args = [''rollback'', ''--host'', sv_host srv, ''--app'', rq_app req] @
                (if rq_to req \<noteq> [] then [''--to'', rq_to req] else [])
          in Inr (plain_command (addUser args (sv_user srv)) (KindTimeout KindRollback), srv,
               appTarget req))"

definition BuildRemove :: "request \<Rightarrow> resolver \<Rightarrow> built" where
  "BuildRemove req resolve =
     (case resolveRequest req resolve True of Inl e \<Rightarrow> Inl e
      | Inr srv \<Rightarrow>
        if rq_no_backup req \<and> \<not> rq_purge req then Inl NoBackupNeedsPurge
        else
          let args = [''remove'', ''--yes'', ''--json'', ''--host'', sv_host srv, ''--app'', rq_app req] @
                (if rq_purge req then [''--purge''] else []) @
                (if rq_no_backup req then [''--no-backup''] else []) @
                (if rq_redirect req \<noteq> [] then [''--redirect'', rq_redirect req] else [])
          in Inr (plain_command (addUser args (sv_user srv)) (ExecutionTimeout req), srv,
               appTarget req))"

text \<open>A missing key reads as Go's zero value.\<close>

definition mget_text :: "(string, string) gomap \<Rightarrow> string \<Rightarrow> string" where
  "mget_text m k = (case mget m k of None \<Rightarrow> [] | Some v \<Rightarrow> v)"

definition BuildTemplateInstall :: "build_env \<Rightarrow> request \<Rightarrow> resolver \<Rightarrow> bool \<Rightarrow> built" where
  "BuildTemplateInstall env req resolve varStdin =
     (case resolveRequest req resolve False of Inl e \<Rightarrow> Inl e
      | Inr srv \<Rightarrow>
        if \<not> validIdentifier (rq_template req) then Inl InvalidTemplate
        else if rq_domain req = [] then Inl DomainRequired
        else
          let args0 = [''template'', ''install'', rq_template req, ''--domain'', rq_domain req,
                ''--server'', sv_name srv]
          in if rq_home req \<noteq> [] \<and> rq_home req \<noteq> ''teploy'' then Inl HomeInvalid
          else
            let args1 = args0 @ (if rq_home req = [] then [] else [''--home'', ''teploy'']);
                vars = rq_vars req
            in case filter (\<lambda>k. \<not> varNamePattern k) (map fst vars) of
               bad # _ \<Rightarrow> Inl (InvalidVariable bad)
             | [] \<Rightarrow>
               let keys = sort (map fst vars);
                   secrets = filter (\<lambda>v. v \<noteq> []) (map (mget_text vars) keys);
                   target = ''server:'' @ rq_server req @ ''/template:'' @ rq_template req
               in if varStdin \<and> keys \<noteq> [] then
                    Inr (\<lparr>cmd_args = args1 @ [''--var-stdin''],
                          cmd_timeout = KindTimeout KindTemplateInstall,
                          cmd_secrets = secrets,
                          cmd_stdin = env_json env (map (\<lambda>k. (k, mget_text vars k)) keys)\<rparr>, srv, target)
                  else if \<not> env_legacy_argv env \<and> (\<exists>k\<in>set keys. mget_text vars k \<noteq> [])
                    then Inl LegacySecretArgV
                  else
                    Inr (\<lparr>cmd_args = args1 @ concat (map (\<lambda>k. [''--var'', k @ ''='' @ mget_text vars k]) keys),
                          cmd_timeout = KindTimeout KindTemplateInstall,
                          cmd_secrets = secrets,
                          cmd_stdin = []\<rparr>, srv, target))"

definition lifecycle_actions :: "string list" where
  "lifecycle_actions = [''start'', ''stop'', ''restart'', ''lock'', ''unlock'']"

definition BuildAppLifecycle :: "request \<Rightarrow> resolver \<Rightarrow> built" where
  "BuildAppLifecycle req resolve =
     (case resolveRequest req resolve True of Inl e \<Rightarrow> Inl e
      | Inr srv \<Rightarrow>
        if rq_action req \<notin> set lifecycle_actions then Inl (UnsupportedAction (rq_action req))
        else
          let args = [rq_action req, ''--host'', sv_host srv, ''--app'', rq_app req]
          in Inr (plain_command (addUser args (sv_user srv)) (KindTimeout KindAppLifecycle), srv,
               appTarget req))"

definition BuildMaintenance :: "request \<Rightarrow> resolver \<Rightarrow> built" where
  "BuildMaintenance req resolve =
     (case resolveRequest req resolve True of Inl e \<Rightarrow> Inl e
      | Inr srv \<Rightarrow>
        if rq_action req \<noteq> ''on'' \<and> rq_action req \<noteq> ''off'' then Inl MaintenanceActionInvalid
        else
          let args = [''maintenance'', rq_action req, ''--host'', sv_host srv, ''--app'', rq_app req]
          in Inr (plain_command (addUser args (sv_user srv)) (KindTimeout KindMaintenance), srv,
               appTarget req))"

definition BuildRedeploy :: "request \<Rightarrow> resolver \<Rightarrow> built" where
  "BuildRedeploy req resolve =
     (case resolveRequest req resolve True of Inl e \<Rightarrow> Inl e
      | Inr srv \<Rightarrow>
        let args = [''redeploy'', ''--json'', ''--host'', sv_host srv, ''--app'', rq_app req]
        in Inr (plain_command (addUser args (sv_user srv)) (KindTimeout KindRedeploy), srv,
             appTarget req))"

definition BuildBackupCreate :: "request \<Rightarrow> resolver \<Rightarrow> built" where
  "BuildBackupCreate req resolve =
     (case resolveRequest req resolve True of Inl e \<Rightarrow> Inl e
      | Inr srv \<Rightarrow>
        if rq_accessory req \<noteq> [] \<and> \<not> validIdentifier (rq_accessory req) then Inl InvalidAccessory
        else
          let args = [''backup'', ''create'', ''--json'', ''--host'', sv_host srv, ''--app'', rq_app req] @
                (if rq_accessory req \<noteq> [] then [''--accessory'', rq_accessory req] else [])
          in Inr (plain_command (addUser args (sv_user srv)) (ExecutionTimeout req), srv,
               appTarget req))"

definition BuildBackupRestore :: "request \<Rightarrow> resolver \<Rightarrow> built" where
  "BuildBackupRestore req resolve =
     (case resolveRequest req resolve True of Inl e \<Rightarrow> Inl e
      | Inr srv \<Rightarrow>
        if \<not> backupIDPattern (rq_backup_id req) then Inl InvalidBackupID
        else if rq_accessory req \<noteq> [] \<and> \<not> validIdentifier (rq_accessory req) then Inl InvalidAccessory
        else if rq_database req \<noteq> [] \<and> rq_accessory req = [] then Inl DatabaseNeedsAccessory
        else if rq_database req \<noteq> [] \<and> \<not> validIdentifier (rq_database req)
          then Inl (DatabaseOnlyCLI (rq_database req))
        else
          let args = [''backup'', ''restore'', rq_backup_id req, ''--yes'', ''--json'', ''--host'',
                sv_host srv, ''--app'', rq_app req] @
                (if rq_accessory req \<noteq> [] then [''--accessory'', rq_accessory req] else []) @
                (if rq_database req \<noteq> [] then [''--database'', rq_database req] else []) @
                (if rq_no_backup req then [''--no-backup''] else [])
          in Inr (plain_command (addUser args (sv_user srv)) (ExecutionTimeout req), srv,
               appTarget req))"

definition BuildServerAudit :: "request \<Rightarrow> resolver \<Rightarrow> built" where
  "BuildServerAudit req resolve =
     (case resolveRequest req resolve False of Inl e \<Rightarrow> Inl e
      | Inr srv \<Rightarrow>
        Inr (plain_command [''server'', ''audit'', sv_name srv, ''--json''] (ExecutionTimeout req), srv,
          ''server:'' @ rq_server req))"

definition BuildRouteRemove :: "request \<Rightarrow> resolver \<Rightarrow> built" where
  "BuildRouteRemove req resolve =
     (case resolveRequest req resolve True of Inl e \<Rightarrow> Inl e
      | Inr srv \<Rightarrow>
        let args = [''route'', ''remove'', ''--json'', ''--host'', sv_host srv, ''--app'', rq_app req]
        in Inr (plain_command (addUser args (sv_user srv)) (KindTimeout KindRouteRemove), srv,
             appTarget req))"

definition BuildReleasesPrune :: "request \<Rightarrow> resolver \<Rightarrow> built" where
  "BuildReleasesPrune req resolve =
     (case resolveRequest req resolve True of Inl e \<Rightarrow> Inl e
      | Inr srv \<Rightarrow>
        if rq_keep req < 0 \<or> rq_keep req > 1000 then Inl KeepOutOfRange
        else
          let args = [''releases'', ''prune'', ''--json'', ''--host'', sv_host srv, ''--app'', rq_app req,
                ''--keep'', show_int (rq_keep req)]
          in Inr (plain_command (addUser args (sv_user srv)) (KindTimeout KindReleasesPrune), srv,
               appTarget req))"

definition BuildServerPrune :: "request \<Rightarrow> resolver \<Rightarrow> built" where
  "BuildServerPrune req resolve =
     (case resolveRequest req resolve False of Inl e \<Rightarrow> Inl e
      | Inr srv \<Rightarrow>
        let args = [''server'', ''prune'', ''--json'', ''--host'', sv_host srv, ''--build-cache'',
              ''--dangling'']
        in Inr (plain_command (addUser args (sv_user srv)) (KindTimeout KindServerPrune), srv,
             ''server:'' @ rq_server req))"

definition Build :: "build_env \<Rightarrow> request \<Rightarrow> resolver \<Rightarrow> built" where
  "Build env req resolve =
     (case rq_kind req of
        KindDeploy \<Rightarrow> BuildDeploy req resolve
      | KindRollback \<Rightarrow> BuildRollback req resolve
      | KindRemove \<Rightarrow> BuildRemove req resolve
      | KindTemplateInstall \<Rightarrow>
          (if rq_vars req = [] then BuildTemplateInstall env req resolve False
           else case env_var_stdin env of
                  Inl e \<Rightarrow> Inl (VarStdinProbeFailed e)
                | Inr supported \<Rightarrow> BuildTemplateInstall env req resolve supported)
      | KindAppLifecycle \<Rightarrow> BuildAppLifecycle req resolve
      | KindMaintenance \<Rightarrow> BuildMaintenance req resolve
      | KindRedeploy \<Rightarrow> BuildRedeploy req resolve
      | KindBackupCreate \<Rightarrow> BuildBackupCreate req resolve
      | KindBackupRestore \<Rightarrow> BuildBackupRestore req resolve
      | KindServerAudit \<Rightarrow> BuildServerAudit req resolve
      | KindRouteRemove \<Rightarrow> BuildRouteRemove req resolve
      | KindReleasesPrune \<Rightarrow> BuildReleasesPrune req resolve
      | KindServerPrune \<Rightarrow> BuildServerPrune req resolve
      | OtherKind s \<Rightarrow> Inl (UnsupportedKind (OtherKind s)))"

text \<open>\<open>redactedRequest\<close>: what of the request is persisted.\<close>

definition redactedRequest :: "request \<Rightarrow> request" where
  "redactedRequest req =
     (if rq_vars req = [] then req
      else req\<lparr>rq_vars := map (\<lambda>(k, v). (k, if v = [] then [] else ''[REDACTED]'')) (rq_vars req)\<rparr>)"

lemmas builder_defs =
  BuildDeploy_def BuildRollback_def BuildRemove_def BuildTemplateInstall_def BuildAppLifecycle_def
  BuildMaintenance_def BuildRedeploy_def BuildBackupCreate_def BuildBackupRestore_def
  BuildServerAudit_def BuildRouteRemove_def BuildReleasesPrune_def BuildServerPrune_def

lemmas app_builder_defs =
  BuildRollback_def BuildRemove_def BuildAppLifecycle_def BuildMaintenance_def BuildRedeploy_def
  BuildBackupCreate_def BuildBackupRestore_def BuildRouteRemove_def BuildReleasesPrune_def

end
