(* ===== verification/OpRedact.thy ===== *)
theory OpRedact
  imports OpBuild
begin

text \<open>
  Redaction of secret values from the output of a command (\<open>Redact\<close> and
  \<open>redactionTerms\<close> of \<open>internal/operation/build.go\<close>). \<open>sort.Slice\<close> leaves the order of
  terms of equal length open; the model sorts stably, and the lemmas about a list of
  replacements (\<open>redact_with\<close>) hold for every order.
\<close>

definition placeholder :: string where
  "placeholder = ''[REDACTED]''"

text \<open>\<open>strings.FieldsFunc\<close> with the CR/LF separator.\<close>

fun split_crlf :: "string \<Rightarrow> string list" where
  "split_crlf [] = [[]]"
| "split_crlf (c # cs) =
     (if c = CHR 0x0A \<or> c = CHR 0x0D then [] # split_crlf cs
      else case split_crlf cs of [] \<Rightarrow> [[c]] | f # fs \<Rightarrow> (c # f) # fs)"

definition fields_crlf :: "string \<Rightarrow> string list" where
  "fields_crlf s = filter (\<lambda>f. f \<noteq> []) (split_crlf s)"

definition add_term :: "string \<Rightarrow> string list \<Rightarrow> string list" where
  "add_term t ts = (if t = [] \<or> t \<in> set ts then ts else ts @ [t])"

definition redactionTerms :: "string list \<Rightarrow> string list" where
  "redactionTerms secrets =
     sort_key (\<lambda>t. - int (length t))
       (fold (\<lambda>s ts. fold add_term (fields_crlf s) (add_term s ts)) secrets [])"

definition redact_with :: "string list \<Rightarrow> string \<Rightarrow> string" where
  "redact_with terms v =
     fold (\<lambda>t s. if t \<noteq> [] then replace_all t placeholder s else s) terms v"

definition Redact :: "string \<Rightarrow> string list \<Rightarrow> string" where
  "Redact v secrets = redact_with (redactionTerms secrets) v"

section \<open>The terms\<close>

lemma set_add_term: "set (add_term t ts) = set ts \<union> (if t = [] then {} else {t})"
  by (auto simp: add_term_def)

lemma set_fold_add_term: "set (fold add_term xs ts) = set ts \<union> (set xs - {[]})"
  by (induction xs arbitrary: ts) (auto simp: set_add_term split: if_splits)

lemma set_redactionTerms:
  "set (redactionTerms secrets) =
     (\<Union>s\<in>set secrets. set (fields_crlf s) \<union> {s}) - {[]}"
proof -
  have "set (fold (\<lambda>s ts. fold add_term (fields_crlf s) (add_term s ts)) secrets acc) =
      set acc \<union> ((\<Union>s\<in>set secrets. set (fields_crlf s) \<union> {s}) - {[]})" for acc
    by (induction secrets arbitrary: acc)
      (auto simp: set_add_term set_fold_add_term split: if_splits)
  then show ?thesis by (simp add: redactionTerms_def)
qed

lemma redactionTerms_longest_first:
  "sorted (map (\<lambda>t. - int (length t)) (redactionTerms secrets))"
  by (simp add: redactionTerms_def)

lemma distinct_add_term: "distinct ts \<Longrightarrow> distinct (add_term t ts)"
  by (simp add: add_term_def)

lemma distinct_redactionTerms: "distinct (redactionTerms secrets)"
proof -
  have f: "distinct ts \<Longrightarrow> distinct (fold add_term xs ts)" for xs ts
    by (induction xs arbitrary: ts) (simp_all add: distinct_add_term)
  have "distinct acc \<Longrightarrow>
      distinct (fold (\<lambda>s ts. fold add_term (fields_crlf s) (add_term s ts)) secrets acc)" for acc
    by (induction secrets arbitrary: acc) (simp_all add: f distinct_add_term)
  then show ?thesis by (simp add: redactionTerms_def)
qed

section \<open>Replacing never creates a term\<close>

text \<open>
  A term that holds no bracket and is no part of the placeholder can only occur in the
  output where it occurred in the input: an occurrence cannot start, end or lie in a
  placeholder.
\<close>

definition clean_term :: "string \<Rightarrow> bool" where
  "clean_term t \<longleftrightarrow> t \<noteq> [] \<and> CHR ''['' \<notin> set t \<and> CHR '']'' \<notin> set t \<and> \<not> sublist t placeholder"

lemma prefix_replace_all:
  "CHR ''['' \<notin> set p \<Longrightarrow> prefix p (replace_all old placeholder s) \<Longrightarrow> prefix p s"
proof (induction old "placeholder" s arbitrary: p rule: replace_all.induct)
  case (1 old s)
  show ?case
  proof (cases "s = [] \<or> old = []")
    case True
    with "1.prems" show ?thesis by (simp add: replace_all.simps [of old placeholder s])
  next
    case ne: False
    show ?thesis
    proof (cases "prefix old s")
      case True
      with ne "1.prems" have "prefix p (placeholder @ replace_all old placeholder (drop (length old) s))"
        by (simp add: replace_all.simps [of old placeholder s])
      with "1.prems"(1) have "p = []"
        by (cases p) (auto simp: placeholder_def)
      then show ?thesis by simp
    next
      case False
      with ne "1.prems" have p: "prefix p (hd s # replace_all old placeholder (tl s))"
        by (simp add: replace_all.simps [of old placeholder s])
      show ?thesis
      proof (cases p)
        case Nil
        then show ?thesis by simp
      next
        case (Cons c q)
        with p have "prefix q (replace_all old placeholder (tl s))" and c: "c = hd s"
          by auto
        with "1.hyps"(2) [OF ne False, of q] "1.prems"(1) Cons have "prefix q (tl s)"
          by simp
        with c Cons ne show ?thesis by (cases s) auto
      qed
    qed
  qed
qed

lemma clean_in_placeholder_append:
  assumes "clean_term t" and "sublist t (placeholder @ x)"
  shows "sublist t x"
proof -
  consider "sublist t placeholder" | "sublist t x"
    | a b where "t = a @ b" "suffix a placeholder" "prefix b x"
    using assms(2) by (auto simp: sublist_append)
  then show ?thesis
  proof cases
    case 3
    have "a = []"
    proof (rule ccontr)
      assume "a \<noteq> []"
      with 3(2) have "last a = last placeholder"
        by (metis append_is_Nil_conv last_append suffixE)
      with \<open>a \<noteq> []\<close> have "CHR '']'' \<in> set a"
        by (metis last_in_set placeholder_def last.simps list.distinct(1))
      with assms(1) 3(1) show False by (simp add: clean_term_def)
    qed
    with 3 show ?thesis by auto
  qed (use assms(1) in \<open>simp_all add: clean_term_def\<close>)
qed

lemma sublist_replace_all:
  "clean_term t \<Longrightarrow> sublist t (replace_all old placeholder s) \<Longrightarrow> sublist t s"
proof (induction old "placeholder" s rule: replace_all.induct)
  case (1 old s)
  show ?case
  proof (cases "s = [] \<or> old = []")
    case True
    with "1.prems" show ?thesis by (simp add: replace_all.simps [of old placeholder s])
  next
    case ne: False
    show ?thesis
    proof (cases "prefix old s")
      case True
      with ne "1.prems" have "sublist t (replace_all old placeholder (drop (length old) s))"
        by (auto simp: replace_all.simps [of old placeholder s] intro: clean_in_placeholder_append)
      with "1.hyps"(1) [OF ne True] "1.prems"(1) have "sublist t (drop (length old) s)" by blast
      then show ?thesis by (meson sublist_order.order_trans sublist_drop)
    next
      case False
      with ne "1.prems" have "sublist t (hd s # replace_all old placeholder (tl s))"
        by (simp add: replace_all.simps [of old placeholder s])
      then consider "prefix t (hd s # replace_all old placeholder (tl s))"
        | "sublist t (replace_all old placeholder (tl s))"
        by (auto simp: sublist_Cons_right)
      then show ?thesis
      proof cases
        case 1
        with ne False have "prefix t (replace_all old placeholder s)"
          by (simp add: replace_all.simps [of old placeholder s])
        with "1.prems"(1) have "prefix t s"
          by (intro prefix_replace_all [of t old s]) (simp_all add: clean_term_def)
        then show ?thesis by blast
      next
        case 2
        with "1.hyps"(2) [OF ne False] "1.prems"(1) have "sublist t (tl s)" by blast
        with ne show ?thesis by (cases s) (auto simp: sublist_Cons_right)
      qed
    qed
  qed
qed

lemma replace_all_removes:
  "clean_term t \<Longrightarrow> \<not> sublist t (replace_all t placeholder s)"
proof (induction t "placeholder" s rule: replace_all.induct)
  case (1 t s)
  from "1.prems" have t: "t \<noteq> []" by (simp add: clean_term_def)
  show ?case
  proof (cases "s = []")
    case True
    with t show ?thesis by (simp add: replace_all.simps [of t placeholder "[]"])
  next
    case ne: False
    show ?thesis
    proof (cases "prefix t s")
      case True
      with ne t "1.hyps"(1) "1.prems" show ?thesis
        by (auto simp: replace_all.simps [of t placeholder s] dest: clean_in_placeholder_append)
    next
      case False
      with "1.prems" have "\<not> prefix t (replace_all t placeholder s)"
        using prefix_replace_all [of t t s] by (auto simp: clean_term_def)
      with ne t False "1.hyps"(2) "1.prems" show ?thesis
        by (auto simp: replace_all.simps [of t placeholder s] sublist_Cons_right)
    qed
  qed
qed

lemma redact_with_keeps_absent:
  "clean_term t \<Longrightarrow> \<not> sublist t v \<Longrightarrow> \<not> sublist t (redact_with terms v)"
  unfolding redact_with_def
  by (induction terms arbitrary: v) (auto dest: sublist_replace_all)

lemma redact_with_removes:
  "clean_term t \<Longrightarrow> t \<in> set terms \<Longrightarrow> \<not> sublist t (redact_with terms v)"
proof (induction terms arbitrary: v)
  case Nil
  then show ?case by simp
next
  case (Cons u us)
  let ?v = "if u \<noteq> [] then replace_all u placeholder v else v"
  have step: "redact_with (u # us) v = redact_with us ?v"
    by (simp add: redact_with_def)
  show ?case
  proof (cases "t \<in> set us")
    case True
    from Cons.IH [OF Cons.prems(1) True] show ?thesis unfolding step .
  next
    case False
    with Cons.prems have "u = t" "t \<noteq> []" by (auto simp: clean_term_def)
    with Cons.prems(1) have "\<not> sublist t ?v" by (simp add: replace_all_removes)
    with Cons.prems(1) show ?thesis
      unfolding step by (rule redact_with_keeps_absent)
  qed
qed

end
