(* ===== verification/OpCommands.thy ===== *)
theory OpCommands
  imports OpRedact
begin

text \<open>
  What the commands of \<open>OpBuild\<close> promise. The argument vector is read back with the flag
  grammar of the CLI's command line (a flag takes the next argument as its value or
  takes none; an unknown flag is an error), so that a request can be shown never to
  smuggle a flag or a positional argument onto the call.
\<close>

section \<open>Reading an argument vector\<close>

definition value_flags :: "string list" where
  "value_flags = [''--app'', ''--user'', ''--image'', ''--domain'', ''--port'', ''--home'', ''--host'',
     ''--to'', ''--redirect'', ''--server'', ''--var'', ''--accessory'', ''--database'', ''--keep'']"

definition switch_flags :: "string list" where
  "switch_flags = [''--yes'', ''--json'', ''--purge'', ''--no-backup'', ''--var-stdin'', ''--build-cache'',
     ''--dangling'']"

type_synonym parsed = "string list \<times> (string \<times> string option) list"

fun parse_argv :: "string list \<Rightarrow> parsed option" where
  "parse_argv [] = Some ([], [])"
| "parse_argv (a # rest) =
     (if \<not> prefix ''-'' a
      then map_option (\<lambda>(pos, flags). (a # pos, flags)) (parse_argv rest)
      else if a \<in> set switch_flags
      then map_option (\<lambda>(pos, flags). (pos, (a, None) # flags)) (parse_argv rest)
      else if a \<in> set value_flags
      then (case rest of [] \<Rightarrow> None
            | v # rest' \<Rightarrow> map_option (\<lambda>(pos, flags). (pos, (a, Some v) # flags)) (parse_argv rest'))
      else None)"

text \<open>Two readings in a row; an argument vector that reads completely can be extended.\<close>

lemma parse_argv_append:
  "parse_argv xs = Some (p, f) \<Longrightarrow>
   parse_argv (xs @ ys) = map_option (\<lambda>(p', f'). (p @ p', f @ f')) (parse_argv ys)"
proof (induction xs arbitrary: p f rule: parse_argv.induct)
  case 1
  then show ?case by (cases "parse_argv ys") auto
next
  case (2 a rest)
  consider (pos) "\<not> prefix ''-'' a" | (switch) "prefix ''-'' a" "a \<in> set switch_flags"
    | (val) v rest' where "prefix ''-'' a" "a \<notin> set switch_flags" "a \<in> set value_flags" "rest = v # rest'"
    using "2.prems" by (auto split: if_splits list.splits)
  then show ?case
  proof cases
    case pos
    with "2.prems" obtain p1 where p1: "parse_argv rest = Some (p1, f)" "p = a # p1" by auto
    from "2.IH"(1) [OF pos p1(1)] pos p1(2) show ?thesis by (cases "parse_argv ys") auto
  next
    case switch
    with "2.prems" obtain f1 where f1: "parse_argv rest = Some (p, f1)" "f = (a, None) # f1" by auto
    from "2.IH"(2) [OF _ _ f1(1)] switch f1(2) show ?thesis by (cases "parse_argv ys") auto
  next
    case val
    with "2.prems" obtain f1 where f1: "parse_argv rest' = Some (p, f1)" "f = (a, Some v) # f1" by auto
    from "2.IH"(3) [OF _ _ _ val(4) f1(1)] val f1(2) show ?thesis by (cases "parse_argv ys") auto
  qed
qed

lemma parse_argv_flag:
  "flag \<in> set value_flags \<Longrightarrow> prefix ''-'' flag \<Longrightarrow> flag \<notin> set switch_flags \<Longrightarrow>
   parse_argv [flag, v] = Some ([], [(flag, Some v)])"
  by simp

lemma parse_vars:
  "parse_argv (concat (map (\<lambda>k. [''--var'', g k]) ks)) = Some ([], map (\<lambda>k. (''--var'', Some (g k))) ks)"
proof (induction ks)
  case Nil
  then show ?case by simp
next
  case (Cons k ks)
  then show ?case by (simp add: value_flags_def switch_flags_def)
qed

lemma flag_tables [simp]:
  "''--app'' \<in> set value_flags" "''--app'' \<notin> set switch_flags"
  "''--user'' \<in> set value_flags" "''--user'' \<notin> set switch_flags"
  "''--image'' \<in> set value_flags" "''--image'' \<notin> set switch_flags"
  "''--domain'' \<in> set value_flags" "''--domain'' \<notin> set switch_flags"
  "''--port'' \<in> set value_flags" "''--port'' \<notin> set switch_flags"
  "''--home'' \<in> set value_flags" "''--home'' \<notin> set switch_flags"
  "''--host'' \<in> set value_flags" "''--host'' \<notin> set switch_flags"
  "''--to'' \<in> set value_flags" "''--to'' \<notin> set switch_flags"
  "''--redirect'' \<in> set value_flags" "''--redirect'' \<notin> set switch_flags"
  "''--server'' \<in> set value_flags" "''--server'' \<notin> set switch_flags"
  "''--accessory'' \<in> set value_flags" "''--accessory'' \<notin> set switch_flags"
  "''--database'' \<in> set value_flags" "''--database'' \<notin> set switch_flags"
  "''--keep'' \<in> set value_flags" "''--keep'' \<notin> set switch_flags"
  "''--yes'' \<in> set switch_flags" "''--json'' \<in> set switch_flags" "''--purge'' \<in> set switch_flags"
  "''--no-backup'' \<in> set switch_flags" "''--var-stdin'' \<in> set switch_flags"
  "''--build-cache'' \<in> set switch_flags" "''--dangling'' \<in> set switch_flags"
  by (simp_all add: value_flags_def switch_flags_def)

lemma validIdentifier_no_dash: "validIdentifier v \<Longrightarrow> \<not> prefix ''-'' v"
  by (simp add: validIdentifier_def)

section \<open>The resolved server\<close>

text \<open>A resolver whose names are usable: it answers with no name or with a valid identifier.\<close>

definition resolver_names_ok :: "resolver \<Rightarrow> bool" where
  "resolver_names_ok resolve \<longleftrightarrow>
     (\<forall>f n srv. resolve = Some f \<longrightarrow> f n = Inr srv \<longrightarrow> sv_name srv = [] \<or> validIdentifier (sv_name srv))"

lemma resolveRequest_valid:
  assumes "resolveRequest req resolve appReq = Inr srv"
  shows "validIdentifier (rq_server req)" and "appReq \<Longrightarrow> validIdentifier (rq_app req)"
    and "sv_name srv \<noteq> []" and "sv_host srv \<noteq> []"
    and "resolver_names_ok resolve \<Longrightarrow> validIdentifier (sv_name srv)"
proof -
  from assms show srv: "validIdentifier (rq_server req)"
    by (auto simp: resolveRequest_def split: if_splits)
  then have ne: "rq_server req \<noteq> []" by (auto simp: validIdentifier_def identifierPattern_def)
  from assms show "appReq \<Longrightarrow> validIdentifier (rq_app req)"
    by (auto simp: resolveRequest_def split: if_splits)
  from assms ne show "sv_name srv \<noteq> []" and "sv_host srv \<noteq> []"
    by (auto simp: resolveRequest_def Let_def split: if_splits option.splits sum.splits)
  show "validIdentifier (sv_name srv)" if ok: "resolver_names_ok resolve"
  proof -
    from assms obtain f s0 where f: "resolve = Some f" "f (rq_server req) = Inr s0"
      by (auto simp: resolveRequest_def split: if_splits option.splits sum.splits)
    with ok have "sv_name s0 = [] \<or> validIdentifier (sv_name s0)"
      by (auto simp: resolver_names_ok_def)
    with assms srv f show ?thesis
      by (auto simp: resolveRequest_def Let_def split: if_splits)
  qed
qed

section \<open>The positional arguments of each kind\<close>

fun positionals :: "request \<Rightarrow> server \<Rightarrow> string list" where
  "positionals req srv =
     (case rq_kind req of
        KindDeploy \<Rightarrow> [''deploy'', sv_name srv]
      | KindRollback \<Rightarrow> [''rollback'']
      | KindRemove \<Rightarrow> [''remove'']
      | KindTemplateInstall \<Rightarrow> [''template'', ''install'', rq_template req]
      | KindAppLifecycle \<Rightarrow> [rq_action req]
      | KindMaintenance \<Rightarrow> [''maintenance'', rq_action req]
      | KindRedeploy \<Rightarrow> [''redeploy'']
      | KindBackupCreate \<Rightarrow> [''backup'', ''create'']
      | KindBackupRestore \<Rightarrow> [''backup'', ''restore'', rq_backup_id req]
      | KindServerAudit \<Rightarrow> [''server'', ''audit'', sv_name srv]
      | KindRouteRemove \<Rightarrow> [''route'', ''remove'']
      | KindReleasesPrune \<Rightarrow> [''releases'', ''prune'']
      | KindServerPrune \<Rightarrow> [''server'', ''prune'']
      | OtherKind _ \<Rightarrow> [])"

definition app_scoped :: "kind \<Rightarrow> bool" where
  "app_scoped k \<longleftrightarrow> k \<notin> {KindTemplateInstall, KindServerAudit, KindServerPrune}"

text \<open>
  An argument vector reads as the given positional arguments and names exactly one app (or
  none, for the kinds that address a server).
\<close>

definition reads :: "string list \<Rightarrow> string option \<Rightarrow> string list \<Rightarrow> bool" where
  "reads pos app args \<longleftrightarrow>
     (\<exists>flags. parse_argv args = Some (pos, flags) \<and>
        filter (\<lambda>f. fst f = ''--app'') flags =
          (case app of None \<Rightarrow> [] | Some a \<Rightarrow> [(''--app'', Some a)]))"

definition app_of :: "request \<Rightarrow> string option" where
  "app_of req = (if app_scoped (rq_kind req) then Some (rq_app req) else None)"

lemma reads_append:
  assumes "reads pos app xs" and "parse_argv ys = Some ([], fl)"
    and "filter (\<lambda>f. fst f = ''--app'') fl = []"
  shows "reads pos app (xs @ ys)"
proof -
  from assms(1) obtain flags where f: "parse_argv xs = Some (pos, flags)"
    "filter (\<lambda>f. fst f = ''--app'') flags = (case app of None \<Rightarrow> [] | Some a \<Rightarrow> [(''--app'', Some a)])"
    unfolding reads_def by blast
  then show ?thesis
    using parse_argv_append [OF f(1), of ys] assms(2,3) unfolding reads_def by simp
qed

lemma reads_opt_flag:
  "flag \<in> set value_flags \<Longrightarrow> prefix ''-'' flag \<Longrightarrow> flag \<notin> set switch_flags \<Longrightarrow> flag \<noteq> ''--app'' \<Longrightarrow>
   reads pos app xs \<Longrightarrow> reads pos app (xs @ (if b then [flag, v] else []))"
  using reads_append [of pos app xs "[flag, v]" "[(flag, Some v)]"] by simp

lemma reads_opt_switch:
  "flag \<in> set switch_flags \<Longrightarrow> prefix ''-'' flag \<Longrightarrow> flag \<noteq> ''--app'' \<Longrightarrow>
   reads pos app xs \<Longrightarrow> reads pos app (xs @ (if b then [flag] else []))"
  using reads_append [of pos app xs "[flag]" "[(flag, None)]"] by simp

lemma reads_addUser: "reads pos app xs \<Longrightarrow> reads pos app (addUser xs u)"
  using reads_append [of pos app xs "[''--user'', u]" "[(''--user'', Some u)]"]
  by (simp add: addUser_def)

lemmas reads_intros = reads_opt_flag reads_opt_switch reads_addUser

lemma BuildDeploy_reads:
  assumes "rq_kind req = KindDeploy" and "resolver_names_ok resolve"
    and "BuildDeploy req resolve = Inr (cmd, srv, t)"
  shows "reads (positionals req srv) (app_of req) (cmd_args cmd)"
proof -
  from assms(3) obtain r: "resolveRequest req resolve True = Inr srv"
    by (auto simp: BuildDeploy_def Let_def split: if_splits sum.splits)
  have args: "cmd_args cmd =
      (((addUser [''deploy'', sv_name srv, ''--app'', rq_app req] (sv_user srv) @
        (if rq_image req \<noteq> [] then [''--image'', rq_image req] else [])) @
        (if rq_domain req \<noteq> [] then [''--domain'', rq_domain req] else [])) @
        (if rq_port req > 0 then [''--port'', show_int (rq_port req)] else [])) @
        (if rq_home req \<noteq> [] then [''--home'', ''teploy''] else [])"
    using assms(3) r
    by (auto simp: BuildDeploy_def Let_def plain_command_def split: if_splits)
  have pos: "positionals req srv = [''deploy'', sv_name srv]" "app_of req = Some (rq_app req)"
    using assms(1) by (simp_all add: app_of_def app_scoped_def)
  have "\<not> prefix ''-'' (sv_name srv)"
    using resolveRequest_valid(5) [OF r assms(2)] by (rule validIdentifier_no_dash)
  then have "reads [''deploy'', sv_name srv] (Some (rq_app req))
      [''deploy'', sv_name srv, ''--app'', rq_app req]"
    by (simp add: reads_def)
  then show ?thesis
    unfolding args pos by (intro reads_intros) simp_all
qed

lemma BuildRemove_reads:
  assumes "rq_kind req = KindRemove" and "BuildRemove req resolve = Inr (cmd, srv, t)"
  shows "reads (positionals req srv) (app_of req) (cmd_args cmd)"
proof -
  have args: "cmd_args cmd =
      addUser ((([''remove'', ''--yes'', ''--json'', ''--host'', sv_host srv, ''--app'', rq_app req] @
        (if rq_purge req then [''--purge''] else [])) @
        (if rq_no_backup req then [''--no-backup''] else [])) @
        (if rq_redirect req \<noteq> [] then [''--redirect'', rq_redirect req] else [])) (sv_user srv)"
    using assms by (auto simp: BuildRemove_def Let_def plain_command_def split: if_splits sum.splits)
  have pos: "positionals req srv = [''remove'']" "app_of req = Some (rq_app req)"
    using assms(1) by (simp_all add: app_of_def app_scoped_def)
  have "reads [''remove''] (Some (rq_app req))
      [''remove'', ''--yes'', ''--json'', ''--host'', sv_host srv, ''--app'', rq_app req]"
    by (simp add: reads_def)
  then show ?thesis
    unfolding args pos by (intro reads_intros) simp_all
qed

lemma BuildBackupRestore_reads:
  assumes "rq_kind req = KindBackupRestore" and "BuildBackupRestore req resolve = Inr (cmd, srv, t)"
  shows "reads (positionals req srv) (app_of req) (cmd_args cmd)"
proof -
  have args: "cmd_args cmd =
      addUser ((([''backup'', ''restore'', rq_backup_id req, ''--yes'', ''--json'', ''--host'', sv_host srv,
          ''--app'', rq_app req] @
        (if rq_accessory req \<noteq> [] then [''--accessory'', rq_accessory req] else [])) @
        (if rq_database req \<noteq> [] then [''--database'', rq_database req] else [])) @
        (if rq_no_backup req then [''--no-backup''] else [])) (sv_user srv)"
    and bid: "backupIDPattern (rq_backup_id req)"
    using assms
    by (auto simp: BuildBackupRestore_def Let_def plain_command_def split: if_splits sum.splits)
  have pos: "positionals req srv = [''backup'', ''restore'', rq_backup_id req]"
    "app_of req = Some (rq_app req)"
    using assms(1) by (simp_all add: app_of_def app_scoped_def)
  have "\<not> prefix ''-'' (rq_backup_id req)"
    using bid by (cases "rq_backup_id req")
      (auto simp: backupIDPattern_def is_digit_def numeral_eq_Suc less_eq_char_def)
  then have "reads [''backup'', ''restore'', rq_backup_id req] (Some (rq_app req))
      [''backup'', ''restore'', rq_backup_id req, ''--yes'', ''--json'', ''--host'', sv_host srv,
       ''--app'', rq_app req]"
    by (simp add: reads_def)
  then show ?thesis
    unfolding args pos by (intro reads_intros) simp_all
qed

lemma BuildTemplateInstall_reads:
  assumes "rq_kind req = KindTemplateInstall"
    and "BuildTemplateInstall env req resolve vs = Inr (cmd, srv, t)"
  shows "reads (positionals req srv) (app_of req) (cmd_args cmd)"
proof -
  let ?head = "[''template'', ''install'', rq_template req, ''--domain'', rq_domain req,
      ''--server'', sv_name srv]"
  let ?a1 = "?head @ (if rq_home req \<noteq> [] then [''--home'', ''teploy''] else [])"
  let ?keys = "sort (map fst (rq_vars req))"
  from assms(2) have tpl: "validIdentifier (rq_template req)"
    and args: "cmd_args cmd = ?a1 @ [''--var-stdin''] \<or>
      cmd_args cmd =
        ?a1 @ concat (map (\<lambda>k. [''--var'', k @ ''='' @ mget_text (rq_vars req) k]) ?keys)"
    by (auto simp: BuildTemplateInstall_def Let_def split: if_splits sum.splits list.splits)
  have pos: "positionals req srv = [''template'', ''install'', rq_template req]" "app_of req = None"
    using assms(1) by (simp_all add: app_of_def app_scoped_def)
  have "reads [''template'', ''install'', rq_template req] None ?head"
    using validIdentifier_no_dash [OF tpl] by (simp add: reads_def)
  then have a1: "reads [''template'', ''install'', rq_template req] None ?a1"
    by (intro reads_intros) simp_all
  from args show ?thesis
  proof
    assume "cmd_args cmd = ?a1 @ [''--var-stdin'']"
    then show ?thesis
      using reads_append [OF a1, of "[''--var-stdin'']" "[(''--var-stdin'', None)]"] pos by simp
  next
    assume "cmd_args cmd =
        ?a1 @ concat (map (\<lambda>k. [''--var'', k @ ''='' @ mget_text (rq_vars req) k]) ?keys)"
    then show ?thesis
      using reads_append [OF a1 parse_vars [of "\<lambda>k. k @ ''='' @ mget_text (rq_vars req) k" ?keys]] pos
      by (simp add: filter_map o_def)
  qed
qed

lemma BuildRollback_reads:
  assumes "rq_kind req = KindRollback" and "BuildRollback req resolve = Inr (cmd, srv, t)"
  shows "reads (positionals req srv) (app_of req) (cmd_args cmd)"
proof -
  have args: "cmd_args cmd = addUser ([''rollback'', ''--host'', sv_host srv, ''--app'', rq_app req] @
        (if rq_to req \<noteq> [] then [''--to'', rq_to req] else [])) (sv_user srv)"
    using assms by (auto simp: BuildRollback_def Let_def plain_command_def split: if_splits sum.splits)
  have pos: "positionals req srv = [''rollback'']" "app_of req = Some (rq_app req)"
    using assms(1) by (simp_all add: app_of_def app_scoped_def)
  have "reads [''rollback''] (Some (rq_app req))
      [''rollback'', ''--host'', sv_host srv, ''--app'', rq_app req]"
    by (simp add: reads_def)
  then show ?thesis
    unfolding args pos by (intro reads_intros) simp_all
qed

lemma BuildBackupCreate_reads:
  assumes "rq_kind req = KindBackupCreate" and "BuildBackupCreate req resolve = Inr (cmd, srv, t)"
  shows "reads (positionals req srv) (app_of req) (cmd_args cmd)"
proof -
  have args: "cmd_args cmd =
      addUser ([''backup'', ''create'', ''--json'', ''--host'', sv_host srv, ''--app'', rq_app req] @
        (if rq_accessory req \<noteq> [] then [''--accessory'', rq_accessory req] else [])) (sv_user srv)"
    using assms
    by (auto simp: BuildBackupCreate_def Let_def plain_command_def split: if_splits sum.splits)
  have pos: "positionals req srv = [''backup'', ''create'']" "app_of req = Some (rq_app req)"
    using assms(1) by (simp_all add: app_of_def app_scoped_def)
  have "reads [''backup'', ''create''] (Some (rq_app req))
      [''backup'', ''create'', ''--json'', ''--host'', sv_host srv, ''--app'', rq_app req]"
    by (simp add: reads_def)
  then show ?thesis
    unfolding args pos by (intro reads_intros) simp_all
qed

lemma BuildAppLifecycle_reads:
  assumes "rq_kind req = KindAppLifecycle" and "BuildAppLifecycle req resolve = Inr (cmd, srv, t)"
  shows "reads (positionals req srv) (app_of req) (cmd_args cmd)"
proof -
  have args: "cmd_args cmd =
      addUser [rq_action req, ''--host'', sv_host srv, ''--app'', rq_app req] (sv_user srv)"
    and act: "rq_action req \<in> set lifecycle_actions"
    using assms
    by (auto simp: BuildAppLifecycle_def Let_def plain_command_def split: if_splits sum.splits)
  from act have "\<not> prefix ''-'' (rq_action req)"
    by (auto simp: lifecycle_actions_def)
  then have "reads [rq_action req] (Some (rq_app req))
      [rq_action req, ''--host'', sv_host srv, ''--app'', rq_app req]"
    by (simp add: reads_def)
  with assms(1) show ?thesis
    unfolding args by (simp add: reads_addUser app_of_def app_scoped_def)
qed

lemma BuildMaintenance_reads:
  assumes "rq_kind req = KindMaintenance" and "BuildMaintenance req resolve = Inr (cmd, srv, t)"
  shows "reads (positionals req srv) (app_of req) (cmd_args cmd)"
proof -
  have args: "cmd_args cmd =
      addUser [''maintenance'', rq_action req, ''--host'', sv_host srv, ''--app'', rq_app req] (sv_user srv)"
    and act: "rq_action req = ''on'' \<or> rq_action req = ''off''"
    using assms
    by (auto simp: BuildMaintenance_def Let_def plain_command_def split: if_splits sum.splits)
  from act have "reads [''maintenance'', rq_action req] (Some (rq_app req))
      [''maintenance'', rq_action req, ''--host'', sv_host srv, ''--app'', rq_app req]"
    by (auto simp: reads_def)
  with assms(1) show ?thesis
    unfolding args by (simp add: reads_addUser app_of_def app_scoped_def)
qed

lemma BuildRedeploy_reads:
  assumes "rq_kind req = KindRedeploy" and "BuildRedeploy req resolve = Inr (cmd, srv, t)"
  shows "reads (positionals req srv) (app_of req) (cmd_args cmd)"
proof -
  have args: "cmd_args cmd =
      addUser [''redeploy'', ''--json'', ''--host'', sv_host srv, ''--app'', rq_app req] (sv_user srv)"
    using assms by (auto simp: BuildRedeploy_def Let_def plain_command_def split: sum.splits)
  have "reads [''redeploy''] (Some (rq_app req))
      [''redeploy'', ''--json'', ''--host'', sv_host srv, ''--app'', rq_app req]"
    by (simp add: reads_def)
  with assms(1) show ?thesis
    unfolding args by (simp add: reads_addUser app_of_def app_scoped_def)
qed

lemma BuildRouteRemove_reads:
  assumes "rq_kind req = KindRouteRemove" and "BuildRouteRemove req resolve = Inr (cmd, srv, t)"
  shows "reads (positionals req srv) (app_of req) (cmd_args cmd)"
proof -
  have args: "cmd_args cmd =
      addUser [''route'', ''remove'', ''--json'', ''--host'', sv_host srv, ''--app'', rq_app req] (sv_user srv)"
    using assms by (auto simp: BuildRouteRemove_def Let_def plain_command_def split: sum.splits)
  have "reads [''route'', ''remove''] (Some (rq_app req))
      [''route'', ''remove'', ''--json'', ''--host'', sv_host srv, ''--app'', rq_app req]"
    by (simp add: reads_def)
  with assms(1) show ?thesis
    unfolding args by (simp add: reads_addUser app_of_def app_scoped_def)
qed

lemma BuildReleasesPrune_reads:
  assumes "rq_kind req = KindReleasesPrune" and "BuildReleasesPrune req resolve = Inr (cmd, srv, t)"
  shows "reads (positionals req srv) (app_of req) (cmd_args cmd)"
proof -
  have args: "cmd_args cmd =
      addUser [''releases'', ''prune'', ''--json'', ''--host'', sv_host srv, ''--app'', rq_app req, ''--keep'',
        show_int (rq_keep req)] (sv_user srv)"
    using assms
    by (auto simp: BuildReleasesPrune_def Let_def plain_command_def split: if_splits sum.splits)
  have "reads [''releases'', ''prune''] (Some (rq_app req))
      [''releases'', ''prune'', ''--json'', ''--host'', sv_host srv, ''--app'', rq_app req, ''--keep'',
       show_int (rq_keep req)]"
    by (simp add: reads_def)
  with assms(1) show ?thesis
    unfolding args by (simp add: reads_addUser app_of_def app_scoped_def)
qed

lemma BuildServerAudit_reads:
  assumes "rq_kind req = KindServerAudit" and "resolver_names_ok resolve"
    and "BuildServerAudit req resolve = Inr (cmd, srv, t)"
  shows "reads (positionals req srv) (app_of req) (cmd_args cmd)"
proof -
  from assms(3) have r: "resolveRequest req resolve False = Inr srv"
    by (auto simp: BuildServerAudit_def split: sum.splits)
  have "\<not> prefix ''-'' (sv_name srv)"
    using resolveRequest_valid(5) [OF r assms(2)] by (rule validIdentifier_no_dash)
  with assms(1,3) r show ?thesis
    by (auto simp: BuildServerAudit_def plain_command_def reads_def app_of_def app_scoped_def)
qed

lemma BuildServerPrune_reads:
  assumes "rq_kind req = KindServerPrune" and "BuildServerPrune req resolve = Inr (cmd, srv, t)"
  shows "reads (positionals req srv) (app_of req) (cmd_args cmd)"
proof -
  have args: "cmd_args cmd =
      addUser [''server'', ''prune'', ''--json'', ''--host'', sv_host srv, ''--build-cache'', ''--dangling'']
        (sv_user srv)"
    using assms by (auto simp: BuildServerPrune_def Let_def plain_command_def split: sum.splits)
  have "reads [''server'', ''prune''] None
      [''server'', ''prune'', ''--json'', ''--host'', sv_host srv, ''--build-cache'', ''--dangling'']"
    by (simp add: reads_def)
  with assms(1) show ?thesis
    unfolding args by (simp add: reads_addUser app_of_def app_scoped_def)
qed

text \<open>Every command the dispatcher builds reads as its kind and names its app.\<close>

lemmas build_reads =
  BuildDeploy_reads BuildRollback_reads BuildRemove_reads BuildTemplateInstall_reads
  BuildAppLifecycle_reads BuildMaintenance_reads BuildRedeploy_reads BuildBackupCreate_reads
  BuildBackupRestore_reads BuildRouteRemove_reads BuildReleasesPrune_reads BuildServerAudit_reads
  BuildServerPrune_reads

section \<open>Secrets and the argument vector\<close>

text \<open>The request with every variable emptied: its keys and nothing of its values.\<close>

definition blank_vars :: "request \<Rightarrow> request" where
  "blank_vars req = req\<lparr>rq_vars := map (\<lambda>(k, v). (k, [])) (rq_vars req)\<rparr>"

lemma resolveRequest_cong:
  assumes "rq_server r = rq_server r'" and "rq_app r = rq_app r'"
  shows "resolveRequest r = resolveRequest r'"
  by (intro ext) (unfold resolveRequest_def assms, rule refl)

lemma blank_vars_simps [simp]:
  "rq_kind (blank_vars req) = rq_kind req" "rq_server (blank_vars req) = rq_server req"
  "rq_template (blank_vars req) = rq_template req" "rq_domain (blank_vars req) = rq_domain req"
  "rq_home (blank_vars req) = rq_home req" "rq_app (blank_vars req) = rq_app req"
  "map fst (rq_vars (blank_vars req)) = map fst (rq_vars req)"
  "resolveRequest (blank_vars req) = resolveRequest req"
  by (simp_all add: blank_vars_def split_beta o_def resolveRequest_cong [of "req\<lparr>rq_vars := v\<rparr>" req for v])

lemma mget_text_blank [simp]: "mget_text (rq_vars (blank_vars req)) k = []"
proof -
  have "mget (map (\<lambda>(k, v). (k, [])) m) k = Some v \<Longrightarrow> v = []" for m :: "(string, string) gomap" and v
    by (induction m) (auto split: if_splits)
  then show ?thesis by (auto simp: mget_text_def blank_vars_def split: option.splits)
qed

lemma template_args_blank:
  assumes "\<not> env_legacy_argv env"
    and "BuildTemplateInstall env req resolve vs = Inr (cmd, srv, t)"
  shows "\<exists>cmd'. BuildTemplateInstall env (blank_vars req) resolve vs = Inr (cmd', srv, t) \<and>
    cmd_args cmd' = cmd_args cmd \<and> cmd_secrets cmd' = []"
proof -
  have novals: "\<forall>k\<in>set (sort (map fst (rq_vars req))). mget_text (rq_vars req) k = []"
    if "\<not> (vs \<and> sort (map fst (rq_vars req)) \<noteq> [])"
    using assms that by (auto simp: BuildTemplateInstall_def Let_def split: if_splits sum.splits list.splits)
  show ?thesis
  proof (cases "vs \<and> sort (map fst (rq_vars req)) \<noteq> []")
    case True
    with assms show ?thesis
      by (auto simp: BuildTemplateInstall_def Let_def split: if_splits sum.splits list.splits)
  next
    case False
    have eq: "map (\<lambda>k. [''--var'', k @ CHR ''='' # mget_text (rq_vars req) k]) (sort (map fst (rq_vars req))) =
        map (\<lambda>k. [''--var'', k @ ''='']) (sort (map fst (rq_vars req)))"
      using novals [OF False] by (intro map_cong) auto
    from assms(2) False show ?thesis
      by (auto simp: BuildTemplateInstall_def Let_def eq split: if_splits sum.splits list.splits)
  qed
qed

text \<open>What a persisted record keeps of its variables, and when a record counts as bearing secrets.\<close>

lemma redacted_values:
  "(k, v) \<in> set (rq_vars (redactedRequest req)) \<Longrightarrow> v = [] \<or> v = placeholder"
  by (auto simp: redactedRequest_def placeholder_def split: if_splits)

lemma redactedRequest_id:
  assumes "\<forall>(k, v)\<in>set (rq_vars req). v = []"
  shows "redactedRequest req = req"
proof -
  have "map (\<lambda>(k, v). (k, if v = [] then [] else ''[REDACTED]'')) (rq_vars req) = rq_vars req"
    using assms by (intro map_idI) auto
  then show ?thesis by (simp add: redactedRequest_def)
qed

lemma template_secrets:
  assumes "BuildTemplateInstall env req resolve vs = Inr (cmd, srv, t)"
  shows "cmd_secrets cmd =
    filter (\<lambda>v. v \<noteq> []) (map (mget_text (rq_vars req)) (sort (map fst (rq_vars req))))"
  using assms by (auto simp: BuildTemplateInstall_def Let_def split: if_splits sum.splits list.splits)

section \<open>Properties\<close>

text \<open>
  C32. No request can inject a flag or a positional argument. For a resolver whose server
  names are usable, every command \<open>Build\<close> returns reads, under the CLI's flag grammar, as
  exactly the positional arguments of its operation kind, and its flags name exactly the
  requested app (and none for the kinds that address a server).
\<close>

theorem build_no_injection:
  assumes "resolver_names_ok resolve" and "Build env req resolve = Inr (cmd, srv, t)"
  shows "reads (positionals req srv) (app_of req) (cmd_args cmd)"
  using assms
  by (cases "rq_kind req")
    (auto simp: Build_def simp del: positionals.simps intro: build_reads split: if_splits sum.splits)

definition example_request :: request where
  "example_request = \<lparr>rq_kind = KindRemove, rq_server = ''web'', rq_app = ''shop'', rq_mode = [],
     rq_image = [], rq_domain = [], rq_port = 0, rq_template = [], rq_home = [],
     rq_template_version = [], rq_vars = [], rq_action = [], rq_purge = True, rq_redirect = ''--all'',
     rq_to = [], rq_accessory = [], rq_backup_id = [], rq_database = [], rq_no_backup = False,
     rq_keep = 0\<rparr>"

definition example_env :: build_env where
  "example_env = \<lparr>env_var_stdin = Inr True, env_legacy_argv = False, env_json = (\<lambda>_. ''{}'')\<rparr>"

text \<open>A resolver in use answers the name it was asked for; the example's is restricted to one.\<close>

definition web_resolver :: resolver where
  "web_resolver = Some (\<lambda>n. if n = ''web''
     then Inr \<lparr>sv_name = n, sv_id = ''s1'', sv_host = ''10.0.0.5'', sv_user = ''deploy''\<rparr>
     else Inl ''unknown server'')"

lemma validIdentifier_web: "validIdentifier ''web''" "validIdentifier ''shop''"
  by (code_simp)+

lemma web_resolver_ok: "resolver_names_ok web_resolver"
  by (auto simp: resolver_names_ok_def web_resolver_def validIdentifier_web split: if_splits)

theorem build_no_injection_witness:
  "\<exists>cmd srv t. Build example_env example_request web_resolver = Inr (cmd, srv, t) \<and>
     cmd_args cmd = [''remove'', ''--yes'', ''--json'', ''--host'', ''10.0.0.5'', ''--app'', ''shop'',
       ''--purge'', ''--redirect'', ''--all'', ''--user'', ''deploy''] \<and>
     reads [''remove''] (Some ''shop'') (cmd_args cmd)"
proof -
  obtain cmd srv t where b: "Build example_env example_request web_resolver = Inr (cmd, srv, t)"
    and a: "cmd_args cmd = [''remove'', ''--yes'', ''--json'', ''--host'', ''10.0.0.5'', ''--app'', ''shop'',
       ''--purge'', ''--redirect'', ''--all'', ''--user'', ''deploy'']"
    by (simp add: Build_def BuildRemove_def resolveRequest_def example_request_def web_resolver_def
        validIdentifier_web plain_command_def addUser_def)
  have "reads [''remove''] (Some ''shop'') (cmd_args cmd)"
    using build_no_injection [OF web_resolver_ok b]
    by (simp add: example_request_def app_of_def app_scoped_def)
  with a b show ?thesis by blast
qed

text \<open>
  No secret on the process list. Unless the operator opted into the legacy transport, the
  argument vector of any command is the one the same request gets with every variable
  emptied: the values of template variables travel on standard input or not at all.
\<close>

theorem build_args_hide_variables:
  assumes "\<not> env_legacy_argv env" and "Build env req resolve = Inr (cmd, srv, t)"
    and "rq_kind req = KindTemplateInstall"
  shows "\<exists>cmd'. Build env (blank_vars req) resolve = Inr (cmd', srv, t) \<and> cmd_args cmd' = cmd_args cmd"
proof -
  obtain vs where vs: "BuildTemplateInstall env req resolve vs = Inr (cmd, srv, t)"
    and same: "\<And>r. map fst (rq_vars r) = map fst (rq_vars req) \<Longrightarrow> rq_kind r = KindTemplateInstall \<Longrightarrow>
        Build env r resolve = BuildTemplateInstall env r resolve vs"
  proof (cases "rq_vars req = []")
    case True
    then show ?thesis using assms(2,3) by (intro that [of False]) (auto simp: Build_def)
  next
    case False
    with assms(2,3) obtain sup where "env_var_stdin env = Inr sup"
      by (auto simp: Build_def split: sum.splits)
    with False assms(2,3) show ?thesis by (intro that [of sup]) (auto simp: Build_def)
  qed
  from template_args_blank [OF assms(1) vs] same [of "blank_vars req"] assms(3)
  show ?thesis by auto
qed

definition install_request :: request where
  "install_request = example_request\<lparr>rq_kind := KindTemplateInstall, rq_template := ''shop'',
     rq_domain := ''a.dev'', rq_vars := [(''PASS'', ''hunter2'')]\<rparr>"

theorem build_args_hide_variables_witness:
  "\<exists>cmd cmd' srv t. Build example_env install_request web_resolver = Inr (cmd, srv, t) \<and>
     cmd_secrets cmd = [''hunter2''] \<and>
     Build example_env (blank_vars install_request) web_resolver = Inr (cmd', srv, t) \<and>
     cmd_args cmd' = cmd_args cmd"
proof -
  have v: "varNamePattern ''PASS''" by code_simp
  obtain cmd srv t where b: "Build example_env install_request web_resolver = Inr (cmd, srv, t)"
    and c: "cmd_secrets cmd = [''hunter2'']"
    by (simp add: Build_def BuildTemplateInstall_def resolveRequest_def install_request_def v
        example_request_def example_env_def web_resolver_def validIdentifier_web mget_text_def)
  have "\<not> env_legacy_argv example_env" "rq_kind install_request = KindTemplateInstall"
    by (simp_all add: example_env_def install_request_def)
  from build_args_hide_variables [OF this(1) b this(2)] b c show ?thesis by blast
qed

text \<open>
  Redaction. After \<open>Redact\<close>, no secret and no line of a multi-line secret occurs in the
  text any more, in whatever order they are replaced, provided the term is not itself
  part of the placeholder and holds no bracket.
\<close>

theorem Redact_removes_secrets:
  assumes "s \<in> set secrets" and "t = s \<or> t \<in> set (fields_crlf s)" and "clean_term t"
  shows "\<not> sublist t (Redact v secrets)"
proof -
  have "t \<in> set (redactionTerms secrets)"
    using assms by (auto simp: set_redactionTerms clean_term_def)
  with assms(3) show ?thesis unfolding Redact_def by (rule redact_with_removes)
qed

theorem Redact_removes_secrets_witness:
  "Redact ''pw=k3y;'' [''k3y''] = ''pw=[REDACTED];'' \<and> \<not> sublist ''k3y'' (Redact ''pw=k3y;'' [''k3y''])"
proof
  show "Redact ''pw=k3y;'' [''k3y''] = ''pw=[REDACTED];''"
    by code_simp
  have "clean_term ''k3y''" by code_simp
  then show "\<not> sublist ''k3y'' (Redact ''pw=k3y;'' [''k3y''])"
    by (intro Redact_removes_secrets [of "''k3y''" "[''k3y'']"]) simp_all
qed

text \<open>
  What is persisted of a request replays or is marked. No variable value but the empty one
  survives redaction, and a template installation whose command carries no secret is
  persisted exactly as it was submitted, so a retry of its record repeats the request.
\<close>

theorem redactedRequest_replayable:
  assumes "BuildTemplateInstall env req resolve vs = Inr (cmd, srv, t)" and "gomap_ok (rq_vars req)"
  shows "(\<forall>(k, v)\<in>set (rq_vars (redactedRequest req)). v = [] \<or> v = placeholder) \<and>
    (cmd_secrets cmd = [] \<longrightarrow> redactedRequest req = req)"
proof (intro conjI impI)
  show "\<forall>(k, v)\<in>set (rq_vars (redactedRequest req)). v = [] \<or> v = placeholder"
    using redacted_values [of _ _ req] by auto
next
  assume "cmd_secrets cmd = []"
  then have "\<forall>k\<in>set (map fst (rq_vars req)). mget_text (rq_vars req) k = []"
    unfolding template_secrets [OF assms(1)] by (simp add: filter_empty_conv)
  then have "\<forall>(k, v)\<in>set (rq_vars req). v = []"
    using assms(2) by (auto simp: mget_text_def mem_gomap_iff)
  then show "redactedRequest req = req" by (rule redactedRequest_id)
qed

definition replay_request :: request where
  "replay_request = install_request\<lparr>rq_vars := [(''PASS'', [])]\<rparr>"

theorem redactedRequest_replayable_witness:
  "\<exists>cmd srv t. BuildTemplateInstall example_env replay_request web_resolver True = Inr (cmd, srv, t) \<and>
     redactedRequest replay_request = replay_request"
proof -
  have v: "varNamePattern ''PASS''" by code_simp
  obtain cmd srv t where b: "BuildTemplateInstall example_env replay_request web_resolver True = Inr (cmd, srv, t)"
    and c: "cmd_secrets cmd = []"
    by (simp add: BuildTemplateInstall_def resolveRequest_def install_request_def v replay_request_def
        example_request_def example_env_def web_resolver_def validIdentifier_web mget_text_def)
  have "gomap_ok (rq_vars replay_request)"
    by (simp add: replay_request_def gomap_ok_def)
  from redactedRequest_replayable [OF b this] b c show ?thesis by blast
qed

text \<open>
  The ceilings leave the CLI's own deadlines room. A command that takes a backup is never
  killed before the CLI's six hours for each backup or restore it runs are over, and no
  request holds alerts back for more than an hour.
\<close>

theorem execution_timeout_bounds:
  "(rq_kind req = KindBackupCreate \<longrightarrow> cliBackupDeadline < ExecutionTimeout req) \<and>
   (rq_kind req = KindBackupRestore \<longrightarrow>
      (if rq_no_backup req then 1 else 2) * cliBackupDeadline < ExecutionTimeout req) \<and>
   (rq_kind req = KindRemove \<and> rq_purge req \<and> \<not> rq_no_backup req \<longrightarrow>
      cliBackupDeadline < ExecutionTimeout req) \<and>
   (rq_kind req = KindServerAudit \<longrightarrow> cliAuditDeadline < ExecutionTimeout req) \<and>
   0 < ExecutionTimeout req \<and> 0 < HoldCeiling req \<and> HoldCeiling req \<le> hour"
  by (cases "rq_kind req")
    (auto simp: ExecutionTimeout_def HoldCeiling_def cliBackupDeadline_def cliDeadlineMargin_def
      cliAuditDeadline_def time_units)

theorem execution_timeout_bounds_witness:
  "cliBackupDeadline < ExecutionTimeout example_request"
proof -
  have "rq_kind example_request = KindRemove \<and> rq_purge example_request \<and> \<not> rq_no_backup example_request"
    by (simp add: example_request_def)
  with execution_timeout_bounds [of example_request] show ?thesis by blast
qed

end
