(* ===== verification/OpJournal.thy ===== *)
theory OpJournal
  imports OpTypes
begin

text \<open>
  The event journal of one operation (\<open>internal/operation/store.go\<close>): an append-only file of
  one JSON record per line, its cached append handle, the scan that detects holes and
  damage, and the compaction that bounds its size.

  A file is the list of its lines, each with its length in bytes, and whether the last
  line lacks its newline. What a line decodes to is part of the line: a record, blank,
  longer than the scanner accepts, or anything else (damaged). The outcome of every
  system call is an argument: whether an open, a truncation or a rewrite succeeds, how
  many bytes of a write reach the file, how many lines a read returns before it fails.
  \<open>enclen\<close> is the length of the JSON encoding of an event.
\<close>

section \<open>Files\<close>

datatype line = Blank nat | Damaged nat | Oversized nat | Rec event nat

fun line_len :: "line \<Rightarrow> nat" where
  "line_len (Blank n) = n"
| "line_len (Damaged n) = n"
| "line_len (Oversized n) = n"
| "line_len (Rec e n) = n"

record jfile =
  jf_lines :: "line list"
  jf_open :: bool

definition lines_size :: "line list \<Rightarrow> nat" where
  "lines_size ls = sum_list (map (\<lambda>l. line_len l + 1) ls)"

definition file_size :: "jfile \<Rightarrow> nat" where
  "file_size f = lines_size (jf_lines f) - (if jf_open f then 1 else 0)"

definition empty_jfile :: jfile where
  "empty_jfile = \<lparr>jf_lines = [], jf_open = False\<rparr>"

text \<open>The state of one journal: the file (absent or not) and the tracked size of an open handle.\<close>

record journal =
  js_file :: "jfile option"
  js_handle :: "nat option"

definition no_journal :: journal where
  "no_journal = \<lparr>js_file = None, js_handle = None\<rparr>"

definition journal_file :: "journal \<Rightarrow> jfile" where
  "journal_file j = (case js_file j of None \<Rightarrow> empty_jfile | Some f \<Rightarrow> f)"

section \<open>Writing\<close>

datatype write_outcome = WriteOk | WriteFail | WritePartial nat

text \<open>
  What a record becomes when it is written behind an unterminated line: blank bytes are
  absorbed, anything else makes the joined line undecodable.
\<close>

fun join_line :: "line \<Rightarrow> event \<Rightarrow> nat \<Rightarrow> line" where
  "join_line (Blank n) e len = Rec e (n + len)"
| "join_line (Oversized n) e len = Oversized (n + len)"
| "join_line l e len = Damaged (line_len l + len)"

definition write_record :: "jfile \<Rightarrow> event \<Rightarrow> nat \<Rightarrow> write_outcome \<Rightarrow> jfile \<times> nat" where
  "write_record f e len w =
     (let whole = (if jf_open f \<and> jf_lines f \<noteq> []
                   then butlast (jf_lines f) @ [join_line (last (jf_lines f)) e len]
                   else jf_lines f @ [Rec e len]);
          torn = (\<lambda>n. if jf_open f \<and> jf_lines f \<noteq> []
                   then butlast (jf_lines f) @ [Damaged (line_len (last (jf_lines f)) + n)]
                   else jf_lines f @ [Damaged n])
      in case w of
           WriteOk \<Rightarrow> (\<lparr>jf_lines = whole, jf_open = False\<rparr>, len + 1)
         | WriteFail \<Rightarrow> (f, 0)
         | WritePartial n \<Rightarrow>
             (if n = 0 then (f, 0)
              else if n < len then (\<lparr>jf_lines = torn n, jf_open = True\<rparr>, n)
              else (\<lparr>jf_lines = whole, jf_open = True\<rparr>, len)))"

text \<open>\<open>ensureTrailingNewline\<close>, part of opening an append handle.\<close>

definition terminate :: "jfile \<Rightarrow> jfile" where
  "terminate f = f\<lparr>jf_open := False\<rparr>"

definition journalLocked :: "bool \<Rightarrow> journal \<Rightarrow> journal option" where
  "journalLocked open_ok j =
     (case js_handle j of
        Some _ \<Rightarrow> Some j
      | None \<Rightarrow>
          if \<not> open_ok then None
          else let f = terminate (journal_file j)
               in Some \<lparr>js_file = Some f, js_handle = Some (file_size f)\<rparr>)"

definition closeJournalLocked :: "journal \<Rightarrow> journal" where
  "closeJournalLocked j = j\<lparr>js_handle := None\<rparr>"

section \<open>Scanning\<close>

datatype damage = CorruptAt nat | TooLongAt nat

definition gap_event :: "string \<Rightarrow> 64 word \<Rightarrow> string \<Rightarrow> event" where
  "gap_event oid n txt = \<lparr>ev_seq = n, ev_op = oid, ev_type = EventGap, ev_data = txt, ev_at = 0\<rparr>"

definition missing_text :: "64 word \<Rightarrow> string" where
  "missing_text n = show_nat (unat n) @ '' event(s) missing from the journal''"

fun damage_text :: "damage \<Rightarrow> string" where
  "damage_text (CorruptAt off) = ''journal corrupt at byte '' @ show_nat off"
| "damage_text (TooLongAt off) = ''journal record exceeds the size limit at byte '' @ show_nat off"

record scan =
  sc_events :: "event list"
  sc_gaps :: "event list"
  sc_last :: "64 word"
  sc_offset :: nat
  sc_read :: nat
  sc_damage :: "damage option"

definition start_scan :: scan where
  "start_scan = \<lparr>sc_events = [], sc_gaps = [], sc_last = 0, sc_offset = 0, sc_read = 0, sc_damage = None\<rparr>"

definition advance :: "line \<Rightarrow> scan \<Rightarrow> scan" where
  "advance l s = s\<lparr>sc_offset := sc_offset s + line_len l + 1, sc_read := Suc (sc_read s)\<rparr>"

definition accept :: "string \<Rightarrow> event \<Rightarrow> scan \<Rightarrow> scan" where
  "accept oid e s =
     s\<lparr>sc_gaps :=
         (if sc_events s \<noteq> [] \<and> ev_seq e \<noteq> sc_last s + 1
          then sc_gaps s @ [gap_event oid (sc_last s + 1) (missing_text (ev_seq e - sc_last s - 1))]
          else sc_gaps s),
       sc_last := ev_seq e,
       sc_events := sc_events s @ [e]\<rparr>"

fun scan_loop :: "string \<Rightarrow> line list \<Rightarrow> scan \<Rightarrow> scan" where
  "scan_loop oid [] s = s"
| "scan_loop oid (l # ls) s =
     (case l of
        Blank n \<Rightarrow> scan_loop oid ls (advance l s)
      | Damaged n \<Rightarrow> s\<lparr>sc_damage := Some (CorruptAt (sc_offset s))\<rparr>
      | Oversized n \<Rightarrow> s\<lparr>sc_damage := Some (TooLongAt (sc_offset s))\<rparr>
      | Rec e n \<Rightarrow>
          if ev_op e \<noteq> oid \<or> ev_seq e = 0 \<or> ev_seq e \<le> sc_last s
          then s\<lparr>sc_damage := Some (CorruptAt (sc_offset s))\<rparr>
          else scan_loop oid ls (advance l (accept oid e s)))"

text \<open>The outcomes of the calls of one scan: lines read before an I/O error, the newline repair, the truncation.\<close>

record scan_io =
  io_readable :: "nat option"
  io_newline :: bool
  io_truncate :: bool

definition scan_ok :: scan_io where
  "scan_ok = \<lparr>io_readable = None, io_newline = True, io_truncate = True\<rparr>"

definition scanLocked :: "bool \<Rightarrow> string \<Rightarrow> scan_io \<Rightarrow> journal \<Rightarrow> (event list \<times> event list) option \<times> journal" where
  "scanLocked readOnly oid io j =
     (case js_file j of
        None \<Rightarrow> (Some ([], []), j)
      | Some f \<Rightarrow>
        (let ls = (case io_readable io of None \<Rightarrow> jf_lines f | Some k \<Rightarrow> take k (jf_lines f));
             s = scan_loop oid ls start_scan
         in case sc_damage s of
              None \<Rightarrow>
                (if io_readable io \<noteq> None then (None, j)
                 else if \<not> readOnly \<and> jf_open f then
                   (if io_newline io
                    then (Some (sc_events s, sc_gaps s), j\<lparr>js_file := Some (terminate f)\<rparr>)
                    else (None, j))
                 else (Some (sc_events s, sc_gaps s), j))
            | Some d \<Rightarrow>
                (let g = gap_event oid (sc_last s + 1) (damage_text d @ ''; later events were lost'');
                     j' = (if readOnly then j
                           else (closeJournalLocked j)
                             \<lparr>js_file := Some (if io_truncate io
                                then \<lparr>jf_lines = take (sc_read s) (jf_lines f), jf_open = False\<rparr> else f)\<rparr>)
                 in (Some (sc_events s, sc_gaps s @ [g]), j'))))"

definition loadEvents :: "bool \<Rightarrow> string \<Rightarrow> scan_io \<Rightarrow> journal \<Rightarrow> event list option \<times> journal" where
  "loadEvents readOnly oid io j =
     (case scanLocked readOnly oid io j of
        (None, j') \<Rightarrow> (None, j')
      | (Some (events, gaps), j') \<Rightarrow>
          (Some (if gaps = [] then events else sort_key ev_seq (events @ gaps)), j'))"

section \<open>Compaction and appending\<close>

fun trim_to_budget :: "(event \<Rightarrow> int) \<Rightarrow> int \<Rightarrow> int \<Rightarrow> event list \<Rightarrow> event list" where
  "trim_to_budget sz tot budget (e # f # es) =
     (if tot > budget then trim_to_budget sz (tot - sz e) budget (f # es) else e # f # es)"
| "trim_to_budget sz tot budget es = es"

definition retainedSuffix :: "(event \<Rightarrow> nat) \<Rightarrow> event list \<Rightarrow> nat \<Rightarrow> int \<Rightarrow> event list" where
  "retainedSuffix enclen events maxEvents budget =
     (if length events \<le> 1 then events
      else
        let kept = (if 0 < maxEvents \<and> maxEvents < length events
                    then drop (length events - maxEvents) events else events);
            b = (if budget < 0 then 0 else budget);
            sz = (\<lambda>e. int (enclen e) + 1)
        in trim_to_budget sz (sum_list (map sz kept)) b kept)"

datatype save_outcome = SaveOk | SaveFail | SaveUnsynced

record append_io =
  io_open :: bool
  io_scan :: scan_io
  io_rewrite :: save_outcome
  io_reopen :: bool
  io_write :: write_outcome

definition append_ok :: append_io where
  "append_ok = \<lparr>io_open = True, io_scan = scan_ok, io_rewrite = SaveOk, io_reopen = True, io_write = WriteOk\<rparr>"

text \<open>
  \<open>compactLocked\<close>: the rewrite is \<open>atomicWrite\<close>, which can report a failure after the rename
  has already happened (\<open>SaveUnsynced\<close>).
\<close>

definition compactLocked ::
    "(event \<Rightarrow> nat) \<Rightarrow> nat \<Rightarrow> nat \<Rightarrow> string \<Rightarrow> scan_io \<Rightarrow> save_outcome \<Rightarrow> nat \<Rightarrow> journal \<Rightarrow> bool \<times> journal" where
  "compactLocked enclen maxEvents maxBytes oid io sv incoming j =
     (case scanLocked False oid io j of
        (None, j') \<Rightarrow> (False, j')
      | (Some (events, _), j') \<Rightarrow>
          (let j'' = closeJournalLocked j';
               budget = int maxBytes * 3 div 4 - int incoming;
               keep = retainedSuffix enclen events maxEvents budget;
               f = \<lparr>jf_lines = map (\<lambda>e. Rec e (enclen e)) keep, jf_open = False\<rparr>
           in case sv of
                SaveOk \<Rightarrow> (True, j''\<lparr>js_file := Some f\<rparr>)
              | SaveFail \<Rightarrow> (False, j'')
              | SaveUnsynced \<Rightarrow> (False, j''\<lparr>js_file := Some f\<rparr>)))"

definition write_journal :: "(event \<Rightarrow> nat) \<Rightarrow> event \<Rightarrow> write_outcome \<Rightarrow> journal \<Rightarrow> bool \<times> journal" where
  "write_journal enclen e w j =
     (case write_record (journal_file j) e (enclen e) w of
        (f, n) \<Rightarrow> (w = WriteOk,
          j\<lparr>js_file := Some f, js_handle := map_option (\<lambda>s. s + n) (js_handle j)\<rparr>))"

definition appendEvent ::
    "(event \<Rightarrow> nat) \<Rightarrow> nat \<Rightarrow> nat \<Rightarrow> string \<Rightarrow> append_io \<Rightarrow> event \<Rightarrow> journal \<Rightarrow> bool \<times> journal" where
  "appendEvent enclen maxEvents maxBytes oid io e j =
     (case journalLocked (io_open io) j of
        None \<Rightarrow> (False, j)
      | Some j1 \<Rightarrow>
        (case js_handle j1 of None \<Rightarrow> (False, j1)
         | Some hsize \<Rightarrow>
           if hsize + (enclen e + 1) > maxBytes then
             (case compactLocked enclen maxEvents maxBytes oid (io_scan io) (io_rewrite io) (enclen e + 1) j1 of
                (False, j2) \<Rightarrow> (False, j2)
              | (True, j2) \<Rightarrow>
                  (case journalLocked (io_reopen io) j2 of
                     None \<Rightarrow> (False, j2)
                   | Some j3 \<Rightarrow> write_journal enclen e (io_write io) j3))
           else write_journal enclen e (io_write io) j1))"

text \<open>\<open>discardJournal\<close>: the file of an operation whose record never committed is removed.\<close>

definition discardJournal :: "bool \<Rightarrow> journal \<Rightarrow> journal" where
  "discardJournal remove_ok j =
     (let j' = closeJournalLocked j in if remove_ok then j'\<lparr>js_file := None\<rparr> else j')"

end
