(* ===== verification/OpHistory.thy ===== *)
theory OpHistory
  imports OpJournal "HOL-Library.Multiset"
begin

text \<open>
  What the event journal promises: the retained suffix of a compaction, the order and the
  completeness of what a scan returns, the repair of a damaged file, and the law an
  append obeys. The law is stated as the interface \<open>event_log\<close> of the operation manager and
  proved of the file model.
\<close>

section \<open>The retained suffix\<close>

lemma trim_to_budget_suffix: "suffix (trim_to_budget sz tot budget es) es"
  by (induction sz tot budget es rule: trim_to_budget.induct) (auto intro: suffix_ConsI)

lemma trim_to_budget_nonempty: "es \<noteq> [] \<Longrightarrow> trim_to_budget sz tot budget es \<noteq> []"
  by (induction sz tot budget es rule: trim_to_budget.induct) auto

lemma trim_to_budget_fits:
  "tot = sum_list (map sz es) \<Longrightarrow>
   sum_list (map sz (trim_to_budget sz tot budget es)) \<le> budget \<or>
   length (trim_to_budget sz tot budget es) \<le> 1"
  by (induction sz tot budget es rule: trim_to_budget.induct) auto

text \<open>The trimmed list is the longest: any longer suffix is over the budget.\<close>

lemma trim_to_budget_longest:
  "tot = sum_list (map sz es) \<Longrightarrow> suffix ks es \<Longrightarrow>
    length (trim_to_budget sz tot budget es) < length ks \<Longrightarrow> budget < sum_list (map sz ks)"
proof (induction sz tot budget es rule: trim_to_budget.induct)
  case (1 sz tot budget e f es)
  show ?case
  proof (cases "tot > budget")
    case True
    from 1(3) consider "ks = e # f # es" | "suffix ks (f # es)"
      by (auto simp: suffix_Cons)
    then show ?thesis
    proof cases
      case 1
      with True 1 \<open>tot = _\<close> show ?thesis by simp
    next
      case 2
      with 1(1) [OF True] 1(2,4) True show ?thesis by auto
    qed
  next
    case False
    with 1(3,4) show ?thesis by (auto dest: suffix_length_le)
  qed
qed (auto dest: suffix_length_le)

lemma retainedSuffix_suffix: "suffix (retainedSuffix enclen es m b) es"
proof -
  have "suffix (drop n es) es" for n by (rule suffix_drop)
  then show ?thesis
    unfolding retainedSuffix_def Let_def
    by (auto intro: suffix_order.order_trans [OF trim_to_budget_suffix])
qed

lemma retainedSuffix_last:
  assumes "es \<noteq> []"
  shows "retainedSuffix enclen es m b \<noteq> [] \<and> last (retainedSuffix enclen es m b) = last es"
proof -
  have ne: "retainedSuffix enclen es m b \<noteq> []"
    using assms trim_to_budget_nonempty
    by (auto simp: retainedSuffix_def Let_def intro!: trim_to_budget_nonempty)
  with retainedSuffix_suffix [of enclen es m b] show ?thesis
    by (metis last_appendR suffixE)
qed

lemma retainedSuffix_count: "0 < m \<Longrightarrow> length (retainedSuffix enclen es m b) \<le> m"
  by (auto simp: retainedSuffix_def Let_def
      intro: order_trans [OF suffix_length_le [OF trim_to_budget_suffix]])

abbreviation total_size :: "(event \<Rightarrow> nat) \<Rightarrow> event list \<Rightarrow> int" where
  "total_size enclen es \<equiv> sum_list (map (\<lambda>e. int (enclen e) + 1) es)"

lemma retainedSuffix_fits:
  "total_size enclen (retainedSuffix enclen es m b) \<le> max 0 b \<or> length (retainedSuffix enclen es m b) \<le> 1"
proof (cases "length es \<le> 1")
  case True
  then show ?thesis by (simp add: retainedSuffix_def)
next
  case False
  let ?k = "if 0 < m \<and> m < length es then drop (length es - m) es else es"
  from trim_to_budget_fits [OF refl, of "\<lambda>e. int (enclen e) + 1" ?k "if b < 0 then 0 else b"] False
  show ?thesis by (auto simp: retainedSuffix_def Let_def split: if_splits)
qed

lemma retainedSuffix_longest:
  assumes "suffix ks es" and "0 < m \<longrightarrow> length ks \<le> m"
    and "length (retainedSuffix enclen es m b) < length ks"
  shows "max 0 b < total_size enclen ks"
proof -
  have long: "\<not> length es \<le> 1"
    using assms by (auto simp: retainedSuffix_def dest: suffix_length_le split: if_splits)
  let ?k = "if 0 < m \<and> m < length es then drop (length es - m) es else es"
  have "suffix ks ?k"
    using assms(1,2) by (auto simp: suffix_def)
  with trim_to_budget_longest [OF refl, of ks ?k "\<lambda>e. int (enclen e) + 1" "if b < 0 then 0 else b"]
    assms(3) long
  show ?thesis by (auto simp: retainedSuffix_def Let_def split: if_splits)
qed

section \<open>Sequences as words\<close>

lemma word_Suc_gt: "a < b \<Longrightarrow> a < a + 1" for a b :: "64 word"
  by uint_arith

lemma word_Suc_gt_max: "a \<noteq> - 1 \<Longrightarrow> a < a + 1" for a :: "64 word"
  by (metis inc_less_eq_self_iff_eq not_le)

lemma word_Suc_le: "a < b \<Longrightarrow> a + 1 \<le> b" for a b :: "64 word"
  by (rule inc_le)

section \<open>What a scan returns\<close>

text \<open>The history with a marker on the first missing number of every hole.\<close>

fun weave :: "string \<Rightarrow> event list \<Rightarrow> event list" where
  "weave oid (a # b # es) =
     a # (if ev_seq b = ev_seq a + 1 then []
          else [gap_event oid (ev_seq a + 1) (missing_text (ev_seq b - ev_seq a - 1))]) @
     weave oid (b # es)"
| "weave oid es = es"

abbreviation increasing :: "event list \<Rightarrow> bool" where
  "increasing es \<equiv> sorted_wrt (\<lambda>a b. ev_seq a < ev_seq b) es"

definition no_silent_hole :: "event list \<Rightarrow> bool" where
  "no_silent_hole es \<longleftrightarrow>
     successively (\<lambda>a b. ev_seq b = ev_seq a + 1 \<or> ev_type a = EventGap) es"

lemma weave_eq_Nil [simp]: "weave oid es = [] \<longleftrightarrow> es = []"
  by (cases "(oid, es)" rule: weave.cases) auto

lemma hd_weave [simp]: "es \<noteq> [] \<Longrightarrow> hd (weave oid es) = hd es"
  by (cases "(oid, es)" rule: weave.cases) auto

lemma last_weave [simp]: "es \<noteq> [] \<Longrightarrow> last (weave oid es) = last es"
  by (induction oid es rule: weave.induct) auto

lemma set_weave: "set es \<subseteq> set (weave oid es)"
  by (induction oid es rule: weave.induct) auto

lemma weave_snoc:
  "weave oid (es @ [a, b]) = weave oid (es @ [a]) @
     (if ev_seq b = ev_seq a + 1 then []
      else [gap_event oid (ev_seq a + 1) (missing_text (ev_seq b - ev_seq a - 1))]) @ [b]"
proof (induction es)
  case Nil
  then show ?case by simp
next
  case (Cons x es)
  then show ?case by (cases es) auto
qed

lemma successively_hd_mono:
  "increasing es \<Longrightarrow> x \<in> set es \<Longrightarrow> ev_seq (hd es) \<le> ev_seq x"
  by (cases es) auto

lemma gap_event_simps [simp]:
  "ev_seq (gap_event oid n t) = n" "ev_type (gap_event oid n t) = EventGap"
  "ev_op (gap_event oid n t) = oid"
  by (simp_all add: gap_event_def)

lemma increasing_weave: "increasing es \<Longrightarrow> increasing (weave oid es)"
proof (induction oid es rule: weave.induct)
  case (1 oid a b es)
  from 1(2) have ab: "ev_seq a < ev_seq b" and inc: "increasing (weave oid (b # es))"
    using 1(1) by auto
  from successively_hd_mono [OF inc] have low: "ev_seq b \<le> ev_seq x" if "x \<in> set (weave oid (b # es))" for x
    using that by auto
  have step: "ev_seq a < ev_seq a + 1" using ab by (rule word_Suc_gt)
  have gap: "ev_seq a + 1 < ev_seq b" if "ev_seq b \<noteq> ev_seq a + 1"
    using word_Suc_le [OF ab] that by auto
  show ?case
    using inc low step gap ab by (auto intro: less_le_trans dest!: low)
qed simp_all

lemma no_silent_hole_weave: "no_silent_hole (weave oid es)"
  unfolding no_silent_hole_def
proof (induction oid es rule: weave.induct)
  case (1 oid a b es)
  then show ?case
    using hd_weave [of "b # es" oid] by (cases "weave oid (b # es)") (auto simp: successively_Cons)
qed simp_all

lemma increasing_le_last: "increasing w \<Longrightarrow> x \<in> set w \<Longrightarrow> ev_seq x \<le> ev_seq (last w)"
  by (induction w rule: rev_induct) (auto simp: sorted_wrt_append)

text \<open>The invariant of the scanning loop.\<close>

definition scan_inv :: "string \<Rightarrow> scan \<Rightarrow> bool" where
  "scan_inv oid s \<longleftrightarrow>
     increasing (sc_events s) \<and> (\<forall>e\<in>set (sc_events s). 0 < ev_seq e \<and> ev_op e = oid) \<and>
     sc_last s = (if sc_events s = [] then 0 else ev_seq (last (sc_events s))) \<and>
     mset (sc_events s @ sc_gaps s) = mset (weave oid (sc_events s))"

lemma scan_inv_start: "scan_inv oid start_scan"
  by (simp add: scan_inv_def start_scan_def)

lemma scan_inv_advance [simp]: "scan_inv oid (advance l s) = scan_inv oid s"
  by (simp add: scan_inv_def advance_def)

lemma scan_inv_accept:
  assumes inv: "scan_inv oid s" and e: "ev_op e = oid" "ev_seq e \<noteq> 0" "sc_last s < ev_seq e"
  shows "scan_inv oid (accept oid e s)"
proof (cases "sc_events s = []")
  case True
  with assms show ?thesis by (auto simp: scan_inv_def accept_def word_neq_0_conv)
next
  case False
  then obtain es a where es: "sc_events s = es @ [a]" by (metis rev_exhaust)
  with inv have inc: "increasing (es @ [a])" and la: "sc_last s = ev_seq a"
    by (auto simp: scan_inv_def)
  have "\<forall>x\<in>set (es @ [a]). ev_seq x < ev_seq e"
    using inc e(3) la by (auto simp: sorted_wrt_append)
  then have "increasing (sc_events (accept oid e s))"
    using inc es by (auto simp: accept_def sorted_wrt_append)
  moreover have "mset (sc_events (accept oid e s) @ sc_gaps (accept oid e s)) =
      mset (weave oid (sc_events (accept oid e s)))"
    using inv es la weave_snoc [of oid es a e] by (auto simp: scan_inv_def accept_def)
  ultimately show ?thesis
    using inv e by (auto simp: scan_inv_def accept_def word_neq_0_conv)
qed

lemma scan_inv_loop: "scan_inv oid s \<Longrightarrow> scan_inv oid (scan_loop oid ls s)"
proof (induction oid ls s rule: scan_loop.induct)
  case (2 oid l ls s)
  show ?case
  proof (cases l)
    case (Rec e n)
    show ?thesis
    proof (cases "ev_op e \<noteq> oid \<or> ev_seq e = 0 \<or> ev_seq e \<le> sc_last s")
      case True
      with Rec 2(3) show ?thesis by (simp add: scan_inv_def)
    next
      case False
      with 2(3) have "scan_inv oid (advance l (accept oid e s))"
        by (auto intro!: scan_inv_accept simp: not_le)
      with 2(2) [OF Rec False] Rec False show ?thesis by simp
    qed
  next
    case (Blank n)
    from 2(1) [OF this] 2(3) Blank show ?thesis by simp
  next
    case (Damaged n)
    with 2(3) show ?thesis by (simp add: scan_inv_def)
  next
    case (Oversized n)
    with 2(3) show ?thesis by (simp add: scan_inv_def)
  qed
qed simp

text \<open>
  The view of a scan: markers woven in by sequence number. The marker of damage takes the
  number behind the last record, which is its place in the order unless the last record
  already carries the largest 64-bit number.
\<close>

lemma sort_increasing:
  assumes "mset xs = mset w" and "increasing w"
  shows "sort_key ev_seq xs = w"
proof (rule sort_key_inj_key_eq [OF assms(1)])
  from assms(2) have "sorted_wrt (<) (map ev_seq w)"
    by (simp only: sorted_wrt_map)
  then have sd: "sorted (map ev_seq w) \<and> distinct (map ev_seq w)"
    by (simp only: strict_sorted_iff)
  then show "sorted (map ev_seq w)" by simp
  from sd have "inj_on ev_seq (set w)" by (simp only: distinct_map)
  with mset_eq_setD [OF assms(1)] show "inj_on ev_seq (set xs)" by (simp only:)
qed

lemma scan_inv_weave:
  "scan_inv oid s \<Longrightarrow> increasing (weave oid (sc_events s)) \<and>
     mset (sc_events s @ sc_gaps s) = mset (weave oid (sc_events s))"
  by (simp add: scan_inv_def increasing_weave)

lemma sort_scan:
  "scan_inv oid s \<Longrightarrow> sort_key ev_seq (sc_events s @ sc_gaps s) = weave oid (sc_events s)"
  using scan_inv_weave by (blast intro: sort_increasing)

lemma scan_no_gaps:
  assumes "scan_inv oid s" and "sc_gaps s = []"
  shows "weave oid (sc_events s) = sc_events s"
  using sort_scan [OF assms(1)] sort_increasing [of "sc_events s" "sc_events s"] assms
  by (simp add: scan_inv_def)

lemma sort_scan_damaged:
  assumes inv: "scan_inv oid s" and "sc_last s \<noteq> - 1"
  shows "sort_key ev_seq (sc_events s @ sc_gaps s @ [gap_event oid (sc_last s + 1) t]) =
    weave oid (sc_events s) @ [gap_event oid (sc_last s + 1) t]"
proof (rule sort_increasing)
  have w: "increasing (weave oid (sc_events s))"
    "mset (sc_events s @ sc_gaps s) = mset (weave oid (sc_events s))"
    using scan_inv_weave [OF inv] by auto
  then show "mset (sc_events s @ sc_gaps s @ [gap_event oid (sc_last s + 1) t]) =
      mset (weave oid (sc_events s) @ [gap_event oid (sc_last s + 1) t])" by simp
  have "ev_seq x < sc_last s + 1" if "x \<in> set (weave oid (sc_events s))" for x
  proof -
    from that have ne: "sc_events s \<noteq> []" by auto
    with inv have "sc_last s = ev_seq (last (weave oid (sc_events s)))"
      by (simp add: scan_inv_def)
    moreover have "ev_seq x \<le> ev_seq (last (weave oid (sc_events s)))"
      using w(1) that by (rule increasing_le_last)
    ultimately show ?thesis using word_Suc_gt_max [OF assms(2)] by simp
  qed
  with w(1) show "increasing (weave oid (sc_events s) @ [gap_event oid (sc_last s + 1) t])"
    by (simp add: sorted_wrt_append)
qed

definition record_events :: "line list \<Rightarrow> event list" where
  "record_events ls = concat (map (\<lambda>l. case l of Rec e n \<Rightarrow> [e] | _ \<Rightarrow> []) ls)"

lemma record_events_simps [simp]:
  "record_events [] = []" "record_events (Rec e n # ls) = e # record_events ls"
  "record_events (Blank n # ls) = record_events ls" "record_events (Damaged n # ls) = record_events ls"
  "record_events (Oversized n # ls) = record_events ls"
  "record_events (xs @ ys) = record_events xs @ record_events ys"
  by (simp_all add: record_events_def)

lemma advance_simps [simp]:
  "sc_events (advance l s) = sc_events s" "sc_damage (advance l s) = sc_damage s"
  "sc_read (advance l s) = Suc (sc_read s)" "sc_last (advance l s) = sc_last s"
  "sc_gaps (advance l s) = sc_gaps s"
  by (simp_all add: advance_def)

lemma accept_simps [simp]:
  "sc_events (accept oid e s) = sc_events s @ [e]" "sc_damage (accept oid e s) = sc_damage s"
  "sc_read (accept oid e s) = sc_read s" "sc_last (accept oid e s) = ev_seq e"
  by (simp_all add: accept_def)

text \<open>A scan that finds no damage has accepted every record of the lines it read.\<close>

lemma scan_loop_complete:
  "sc_damage (scan_loop oid ls s) = None \<Longrightarrow>
   sc_events (scan_loop oid ls s) = sc_events s @ record_events ls \<and>
   sc_read (scan_loop oid ls s) = sc_read s + length ls"
proof (induction ls arbitrary: s)
  case (Cons l ls)
  then show ?case by (cases l) (auto split: if_splits)
qed simp

text \<open>Reading again what a scan read before the damage gives the same result, without damage.\<close>

lemma scan_loop_reread:
  "sc_damage s = None \<Longrightarrow>
   sc_read s \<le> sc_read (scan_loop oid ls s) \<and>
   scan_loop oid (take (sc_read (scan_loop oid ls s) - sc_read s) ls) s =
     (scan_loop oid ls s)\<lparr>sc_damage := None\<rparr>"
proof (induction ls arbitrary: s)
  case (Cons l ls)
  have step: "sc_read s \<le> sc_read (scan_loop oid ls u) \<and>
      scan_loop oid (take (sc_read (scan_loop oid ls u) - sc_read s) (l # ls)) s =
      (scan_loop oid ls u)\<lparr>sc_damage := None\<rparr>"
    if "sc_damage u = None" "sc_read u = Suc (sc_read s)" "\<And>ms. scan_loop oid (l # ms) s = scan_loop oid ms u"
    for u
  proof -
    have "Suc (sc_read s) \<le> sc_read (scan_loop oid ls u)"
      using Cons.IH [OF that(1)] that(2) by simp
    moreover from this have
      "take (sc_read (scan_loop oid ls u) - sc_read s) (l # ls) =
       l # take (sc_read (scan_loop oid ls u) - sc_read u) ls"
      using that(2) by (simp add: take_Cons')
    ultimately show ?thesis
      using Cons.IH [OF that(1)] that(3) by simp
  qed
  show ?case
  proof (cases l)
    case (Blank n)
    with step [of "advance l s"] Cons.prems show ?thesis by simp
  next
    case (Rec e n)
    show ?thesis
    proof (cases "ev_op e \<noteq> oid \<or> ev_seq e = 0 \<or> ev_seq e \<le> sc_last s")
      case False
      with Rec step [of "advance l (accept oid e s)"] Cons.prems show ?thesis by simp
    qed (use Rec Cons.prems in simp)
  qed (use Cons.prems in simp_all)
qed simp

section \<open>What a load returns\<close>

text \<open>The lines a scan gets to see.\<close>

definition seen_lines :: "scan_io \<Rightarrow> journal \<Rightarrow> line list" where
  "seen_lines io j =
     (case io_readable io of None \<Rightarrow> jf_lines (journal_file j)
      | Some k \<Rightarrow> take k (jf_lines (journal_file j)))"

abbreviation scan_of :: "string \<Rightarrow> scan_io \<Rightarrow> journal \<Rightarrow> scan" where
  "scan_of oid io j \<equiv> scan_loop oid (seen_lines io j) start_scan"

definition damage_marker :: "string \<Rightarrow> scan \<Rightarrow> event list" where
  "damage_marker oid s =
     (case sc_damage s of None \<Rightarrow> []
      | Some d \<Rightarrow> [gap_event oid (sc_last s + 1) (damage_text d @ ''; later events were lost'')])"

lemma scan_inv_scan_of: "scan_inv oid (scan_of oid io j)"
  by (intro scan_inv_loop scan_inv_start)

lemma scanLocked_events:
  assumes "scanLocked ro oid io j = (Some (es, gs), j')"
  shows "es = sc_events (scan_of oid io j) \<and> gs = sc_gaps (scan_of oid io j) @ damage_marker oid (scan_of oid io j)"
  using assms
  by (auto simp: scanLocked_def seen_lines_def journal_file_def empty_jfile_def damage_marker_def Let_def
      start_scan_def split: option.splits if_splits)

lemma sc_last_mem:
  "scan_inv oid s \<Longrightarrow> sc_events s \<noteq> [] \<Longrightarrow> \<exists>e\<in>set (sc_events s). ev_seq e = sc_last s"
  by (auto simp: scan_inv_def intro!: bexI [of _ "last (sc_events s)"])

lemma loadEvents_shape:
  assumes "loadEvents ro oid io j = (Some r, j')" and "\<forall>e\<in>set r. ev_seq e \<noteq> - 1"
  shows "r = weave oid (sc_events (scan_of oid io j)) @ damage_marker oid (scan_of oid io j)"
proof -
  let ?s = "scan_of oid io j"
  from assms(1) obtain es gs where sc: "scanLocked ro oid io j = (Some (es, gs), j')"
    and r: "r = (if gs = [] then es else sort_key ev_seq (es @ gs))"
    by (auto simp: loadEvents_def split: prod.splits option.splits)
  note eg = scanLocked_events [OF sc]
  note inv = scan_inv_scan_of [of oid io j]
  show ?thesis
  proof (cases "sc_damage ?s")
    case None
    then have "damage_marker oid ?s = []" by (simp add: damage_marker_def)
    with r eg sort_scan [OF inv] scan_no_gaps [OF inv] show ?thesis by simp
  next
    case (Some d)
    then have m: "damage_marker oid ?s =
        [gap_event oid (sc_last ?s + 1) (damage_text d @ ''; later events were lost'')]"
      by (simp add: damage_marker_def)
    with r eg have r': "r = sort_key ev_seq (sc_events ?s @ sc_gaps ?s @ damage_marker oid ?s)"
      by simp
    have "sc_last ?s \<noteq> - 1"
    proof (cases "sc_events ?s = []")
      case True
      with inv show ?thesis by (simp add: scan_inv_def)
    next
      case False
      then obtain e where "e \<in> set (sc_events ?s)" "ev_seq e = sc_last ?s"
        using sc_last_mem [OF inv] by blast
      with assms(2) r' show ?thesis by auto
    qed
    from sort_scan_damaged [OF inv this] r' m show ?thesis by simp
  qed
qed

lemma damage_marker_cases:
  "damage_marker oid s = [] \<and> sc_damage s = None \<or>
   (\<exists>t. damage_marker oid s = [gap_event oid (sc_last s + 1) t] \<and> sc_damage s \<noteq> None)"
  by (cases "sc_damage s") (auto simp: damage_marker_def)

lemma weave_marker_no_hole:
  assumes "scan_inv oid s"
  shows "no_silent_hole (weave oid (sc_events s) @ damage_marker oid s)"
proof -
  have "successively (\<lambda>a b. ev_seq b = ev_seq a + 1 \<or> ev_type a = EventGap) (weave oid (sc_events s))"
    using no_silent_hole_weave by (simp add: no_silent_hole_def)
  then show ?thesis
    using damage_marker_cases [of oid s] assms
    by (auto simp: no_silent_hole_def successively_append_iff scan_inv_def)
qed

lemma weave_marker_increasing:
  assumes inv: "scan_inv oid s" and "sc_damage s \<noteq> None \<longrightarrow> sc_last s \<noteq> - 1"
  shows "increasing (weave oid (sc_events s) @ damage_marker oid s)"
proof (cases "sc_damage s")
  case None
  with scan_inv_weave [OF inv] show ?thesis by (simp add: damage_marker_def)
next
  case (Some d)
  from scan_inv_weave [OF inv] have w: "increasing (weave oid (sc_events s))" by simp
  have last_max: "ev_seq x \<le> sc_last s" if "x \<in> set (weave oid (sc_events s))" for x
  proof -
    from that have "sc_events s \<noteq> []" by auto
    moreover from this w that have "ev_seq x \<le> ev_seq (last (weave oid (sc_events s)))"
      by (intro increasing_le_last)
    ultimately show ?thesis using inv by (simp add: scan_inv_def)
  qed
  with w assms(2) Some word_Suc_gt_max [of "sc_last s"] show ?thesis
    by (auto simp: damage_marker_def sorted_wrt_append intro: le_less_trans)
qed

text \<open>
  C33. The history of an operation never hides a loss. Whatever is in the journal file and
  however the read ends, a load that returns gives strictly increasing sequence numbers;
  two neighbours that do not follow each other have a gap marker between them; and every
  record of the file is returned unless the history ends with a marker of damage.
  (The numbers of the returned events stay below the largest 64-bit value.)
\<close>

theorem loadEvents_history:
  assumes "loadEvents ro oid io j = (Some r, j')" and "\<forall>e\<in>set r. ev_seq e \<noteq> - 1"
  shows "increasing r \<and> no_silent_hole r \<and>
    (set (record_events (jf_lines (journal_file j))) \<subseteq> set r \<or> (r \<noteq> [] \<and> ev_type (last r) = EventGap))"
proof -
  let ?s = "scan_of oid io j"
  note inv = scan_inv_scan_of [of oid io j]
  note shape = loadEvents_shape [OF assms]
  have mx: "sc_damage ?s \<noteq> None \<longrightarrow> sc_last ?s \<noteq> - 1"
  proof (intro impI)
    assume "sc_damage ?s \<noteq> None"
    show "sc_last ?s \<noteq> - 1"
    proof (cases "sc_events ?s = []")
      case True
      with inv show ?thesis by (simp add: scan_inv_def)
    next
      case False
      then obtain e where "e \<in> set (sc_events ?s)" "ev_seq e = sc_last ?s"
        using sc_last_mem [OF inv] by blast
      with assms(2) shape set_weave show ?thesis by fastforce
    qed
  qed
  have "set (record_events (jf_lines (journal_file j))) \<subseteq> set r \<or> (r \<noteq> [] \<and> ev_type (last r) = EventGap)"
  proof (cases "sc_damage ?s")
    case None
    with assms(1) have "js_file j = None \<or> io_readable io = None"
      by (auto simp: loadEvents_def scanLocked_def seen_lines_def journal_file_def
          split: option.splits if_splits)
    then have "seen_lines io j = jf_lines (journal_file j)"
      by (auto simp: seen_lines_def journal_file_def empty_jfile_def split: option.splits)
    with scan_loop_complete [OF None] shape set_weave show ?thesis
      by (auto simp: start_scan_def)
  next
    case (Some d)
    with shape show ?thesis by (simp add: damage_marker_def)
  qed
  with shape weave_marker_increasing [OF inv mx] weave_marker_no_hole [OF inv] show ?thesis
    by simp
qed

definition holed_journal :: journal where
  "holed_journal = \<lparr>js_file = Some \<lparr>jf_lines =
     [Rec (\<lparr>ev_seq = 1, ev_op = ''a'', ev_type = EventStatus, ev_data = ''queued'', ev_at = 5\<rparr>) 80,
      Rec (\<lparr>ev_seq = 4, ev_op = ''a'', ev_type = EventStdout, ev_data = ''hi'', ev_at = 6\<rparr>) 80,
      Damaged 7], jf_open = True\<rparr>, js_handle = None\<rparr>"

theorem loadEvents_history_witness:
  "\<exists>r j'. loadEvents False ''a'' scan_ok holed_journal = (Some r, j') \<and>
     map ev_seq r = [1, 2, 4, 5] \<and> increasing r \<and> no_silent_hole r"
proof -
  obtain r j' where l: "loadEvents False ''a'' scan_ok holed_journal = (Some r, j')"
    and m: "map ev_seq r = [1, 2, 4, 5]"
  proof -
    have "map_option (map ev_seq) (fst (loadEvents False ''a'' scan_ok holed_journal)) = Some [1, 2, 4, 5]"
      by code_simp
    with that show ?thesis
      by (cases "loadEvents False ''a'' scan_ok holed_journal") auto
  qed
  have "ev_seq e \<in> {1, 2, 4, 5}" if "e \<in> set r" for e
    using arg_cong [OF m, of set] that by auto
  then have "\<forall>e\<in>set r. ev_seq e \<noteq> - 1" by fastforce
  from loadEvents_history [OF l this] l m show ?thesis
    by (intro exI [of _ r] exI [of _ j']) simp
qed

text \<open>
  Loading repairs once. After one load whose repairs succeed, the file is terminated and
  undamaged: loading it again changes nothing and returns the same history, less at most
  the marker of the damage that was cut off.
\<close>

theorem loadEvents_repairs:
  assumes "loadEvents False oid scan_ok j = (Some r, j')" and "\<forall>e\<in>set r. ev_seq e \<noteq> - 1"
  shows "\<exists>r'. loadEvents False oid scan_ok j' = (Some r', j') \<and>
    (r = r' \<or> (\<exists>g. r = r' @ [g] \<and> ev_type g = EventGap))"
proof (cases "js_file j")
  case None
  with assms(1) show ?thesis by (auto simp: loadEvents_def scanLocked_def)
next
  case (Some f)
  let ?s = "scan_of oid scan_ok j"
  let ?f' = "\<lparr>jf_lines = take (sc_read ?s) (jf_lines f), jf_open = False\<rparr>"
  have ls: "seen_lines scan_ok j = jf_lines f"
    using Some by (simp add: seen_lines_def scan_ok_def journal_file_def)
  have read: "sc_damage ?s = None \<Longrightarrow> sc_read ?s = length (jf_lines f)"
    using scan_loop_complete [of oid "jf_lines f" start_scan] ls by (simp add: start_scan_def)
  have repaired: "js_file j' = Some ?f'"
    using assms(1) Some ls read
    by (auto simp: loadEvents_def scanLocked_def Let_def scan_ok_def terminate_def
        split: option.splits if_splits)
  have re: "scan_loop oid (take (sc_read ?s) (jf_lines f)) start_scan = ?s\<lparr>sc_damage := None\<rparr>"
    using scan_loop_reread [of start_scan oid "jf_lines f"] ls by (simp add: start_scan_def)
  have "loadEvents False oid scan_ok j' = (Some (weave oid (sc_events ?s)), j')"
    using repaired re scan_no_gaps [OF scan_inv_scan_of [of oid scan_ok j]]
      sort_scan [OF scan_inv_scan_of [of oid scan_ok j]]
    by (simp add: loadEvents_def scanLocked_def scan_ok_def)
  moreover have "r = weave oid (sc_events ?s) @ damage_marker oid ?s"
    using assms by (rule loadEvents_shape)
  ultimately show ?thesis
    using damage_marker_cases [of oid ?s] by auto
qed

theorem loadEvents_repairs_witness:
  "\<exists>r j' r'. loadEvents False ''a'' scan_ok holed_journal = (Some r, j') \<and>
     loadEvents False ''a'' scan_ok j' = (Some r', j')"
proof -
  obtain r j' where l: "loadEvents False ''a'' scan_ok holed_journal = (Some r, j')"
    and m: "map ev_seq r = [1, 2, 4, 5]"
  proof -
    have "map_option (map ev_seq) (fst (loadEvents False ''a'' scan_ok holed_journal)) = Some [1, 2, 4, 5]"
      by code_simp
    with that show ?thesis
      by (cases "loadEvents False ''a'' scan_ok holed_journal") auto
  qed
  have "ev_seq e \<in> {1, 2, 4, 5}" if "e \<in> set r" for e
    using arg_cong [OF m, of set] that by auto
  then have "\<forall>e\<in>set r. ev_seq e \<noteq> - 1" by fastforce
  from loadEvents_repairs [OF l this] l show ?thesis by blast
qed

section \<open>The journal as a log\<close>

text \<open>
  The interface the operation manager writes its history through: an append keeps a suffix of
  what was there (compaction drops the oldest) and puts the new event last.
\<close>

locale event_log =
  fixes append :: "event \<Rightarrow> 's \<Rightarrow> 's"
    and entries :: "'s \<Rightarrow> event list"
    and ok :: "'s \<Rightarrow> bool"
    and fits :: "'s \<Rightarrow> event \<Rightarrow> bool"
  assumes append_entries: "ok s \<Longrightarrow> fits s e \<Longrightarrow> \<exists>k. entries (append e s) = drop k (entries s) @ [e]"
    and append_keeps_ok: "ok s \<Longrightarrow> fits s e \<Longrightarrow> ok (append e s)"
    and fits_next: "ok s \<Longrightarrow> fits s e \<Longrightarrow> ev_op e' = ev_op e \<Longrightarrow> ev_seq e < ev_seq e' \<Longrightarrow> fits (append e s) e'"
begin

lemma fold_append:
  "ok s \<Longrightarrow> increasing es \<Longrightarrow> \<forall>e\<in>set es. ev_op e = oid \<Longrightarrow> es \<noteq> [] \<longrightarrow> fits s (hd es) \<Longrightarrow>
   ok (fold append es s) \<and> (\<exists>k. entries (fold append es s) = drop k (entries s @ es))"
proof (induction es arbitrary: s)
  case Nil
  then show ?case by (auto intro: exI [of _ 0])
next
  case (Cons e es)
  from Cons.prems have e: "fits s e" by simp
  obtain k where k: "entries (append e s) = drop k (entries s) @ [e]"
    using append_entries [OF Cons.prems(1) e] by blast
  have "es \<noteq> [] \<longrightarrow> fits (append e s) (hd es)"
    using Cons.prems by (auto intro!: fits_next [OF Cons.prems(1) e])
  with Cons.IH [of "append e s"] append_keeps_ok [OF Cons.prems(1) e] Cons.prems
  obtain n where ok': "ok (fold append es (append e s))"
    and n: "entries (fold append es (append e s)) = drop n (drop k (entries s) @ e # es)"
    using k by auto
  have "\<exists>m. drop n (drop k (entries s) @ e # es) = drop m (entries s @ e # es)"
  proof (cases "k \<le> length (entries s)")
    case True
    then have "drop k (entries s @ e # es) = drop k (entries s) @ e # es" by simp
    then show ?thesis by (metis drop_drop)
  next
    case False
    then have "drop (length (entries s)) (entries s @ e # es) = drop k (entries s) @ e # es" by simp
    then show ?thesis by (metis drop_drop)
  qed
  with ok' n show ?case by auto
qed

end

text \<open>The journals of the file model: undamaged, terminated, and a handle that knows the size.\<close>

definition journal_entries :: "journal \<Rightarrow> event list" where
  "journal_entries j = record_events (jf_lines (journal_file j))"

definition journal_ok :: "string \<Rightarrow> journal \<Rightarrow> bool" where
  "journal_ok oid j \<longleftrightarrow>
     sc_damage (scan_loop oid (jf_lines (journal_file j)) start_scan) = None \<and>
     \<not> jf_open (journal_file j) \<and>
     (js_handle j = None \<or> js_file j \<noteq> None \<and> js_handle j = Some (file_size (journal_file j)))"

definition journal_fits :: "string \<Rightarrow> journal \<Rightarrow> event \<Rightarrow> bool" where
  "journal_fits oid j e \<longleftrightarrow>
     ev_op e = oid \<and> 0 < ev_seq e \<and> (\<forall>x\<in>set (journal_entries j). ev_seq x < ev_seq e)"

lemma scan_loop_append:
  "sc_damage s = None \<Longrightarrow> sc_damage (scan_loop oid xs s) = None \<Longrightarrow>
   scan_loop oid (xs @ ys) s = scan_loop oid ys (scan_loop oid xs s)"
proof (induction xs arbitrary: s)
  case (Cons l xs)
  then show ?case by (cases l) (auto split: if_splits)
qed simp

lemma scan_loop_snoc:
  assumes "sc_damage (scan_loop oid ls start_scan) = None"
    and "ev_op e = oid" "0 < ev_seq e" "\<forall>x\<in>set (record_events ls). ev_seq x < ev_seq e"
  shows "sc_damage (scan_loop oid (ls @ [Rec e n]) start_scan) = None"
proof -
  let ?s = "scan_loop oid ls start_scan"
  have inv: "scan_inv oid ?s" by (intro scan_inv_loop scan_inv_start)
  have ev: "sc_events ?s = record_events ls"
    using scan_loop_complete [OF assms(1)] by (simp add: start_scan_def)
  have "sc_last ?s < ev_seq e"
  proof (cases "sc_events ?s = []")
    case True
    with inv assms(3) show ?thesis by (simp add: scan_inv_def)
  next
    case False
    with sc_last_mem [OF inv] ev assms(4) show ?thesis by auto
  qed
  with assms scan_loop_append [of start_scan oid ls "[Rec e n]"] show ?thesis
    by (auto simp: start_scan_def)
qed

lemma record_events_map_Rec [simp]: "record_events (map (\<lambda>e. Rec e (f e)) es) = es"
  by (induction es) auto

lemma scan_recs:
  "increasing es \<Longrightarrow> \<forall>e\<in>set es. 0 < ev_seq e \<and> ev_op e = oid \<Longrightarrow>
   sc_damage (scan_loop oid (map (\<lambda>e. Rec e (f e)) es) start_scan) = None"
proof (induction es rule: rev_induct)
  case Nil
  then show ?case by (simp add: start_scan_def)
next
  case (snoc e es)
  then show ?case
    using scan_loop_snoc [of oid "map (\<lambda>e. Rec e (f e)) es" e "f e"]
    by (auto simp: sorted_wrt_append)
qed

lemma journal_ok_entries:
  assumes "journal_ok oid j"
  shows "increasing (journal_entries j) \<and> (\<forall>e\<in>set (journal_entries j). 0 < ev_seq e \<and> ev_op e = oid)"
proof -
  let ?s = "scan_loop oid (jf_lines (journal_file j)) start_scan"
  have "sc_events ?s = journal_entries j"
    using assms scan_loop_complete [of oid "jf_lines (journal_file j)" start_scan]
    by (simp add: journal_ok_def journal_entries_def start_scan_def)
  moreover have "scan_inv oid ?s" by (intro scan_inv_loop scan_inv_start)
  ultimately show ?thesis by (simp add: scan_inv_def)
qed

text \<open>Writing one record with an open handle.\<close>

lemma write_journal_ok:
  assumes "journal_ok oid j" and "js_handle j \<noteq> None" and "journal_fits oid j e"
  shows "\<exists>j'. write_journal enclen e WriteOk j = (True, j') \<and> journal_ok oid j' \<and>
    journal_entries j' = journal_entries j @ [e] \<and>
    file_size (journal_file j') = file_size (journal_file j) + enclen e + 1"
proof -
  obtain f where f: "js_file j = Some f" and h: "js_handle j = Some (file_size f)" and o: "\<not> jf_open f"
    and d: "sc_damage (scan_loop oid (jf_lines f) start_scan) = None"
    using assms(1,2) by (auto simp: journal_ok_def journal_file_def)
  let ?f = "\<lparr>jf_lines = jf_lines f @ [Rec e (enclen e)], jf_open = False\<rparr>"
  have w: "write_journal enclen e WriteOk j =
      (True, j\<lparr>js_file := Some ?f, js_handle := Some (file_size f + (enclen e + 1))\<rparr>)"
    using f h o by (simp add: write_journal_def write_record_def journal_file_def)
  have "sc_damage (scan_loop oid (jf_lines f @ [Rec e (enclen e)]) start_scan) = None"
    using assms(3) f d by (intro scan_loop_snoc) (auto simp: journal_fits_def journal_entries_def journal_file_def)
  with w f o show ?thesis
    by (auto simp: journal_ok_def journal_file_def journal_entries_def file_size_def lines_size_def)
qed

lemma journalLocked_ok:
  assumes "journal_ok oid j"
  shows "\<exists>j'. journalLocked True j = Some j' \<and> journal_ok oid j' \<and> journal_entries j' = journal_entries j \<and>
    js_handle j' = Some (file_size (journal_file j')) \<and> js_file j' \<noteq> None \<and>
    journal_file j' = journal_file j"
proof (cases "js_handle j")
  case None
  let ?f = "journal_file j"
  have "terminate ?f = ?f"
    using assms by (simp add: journal_ok_def terminate_def)
  with None have "journalLocked True j = Some \<lparr>js_file = Some ?f, js_handle = Some (file_size ?f)\<rparr>"
    by (simp add: journalLocked_def Let_def)
  with assms show ?thesis by (simp add: journal_ok_def journal_entries_def journal_file_def)
next
  case (Some n)
  then have "journalLocked True j = Some j" by (simp add: journalLocked_def)
  with Some assms show ?thesis by (simp add: journal_ok_def)
qed

lemma compactLocked_ok:
  assumes "journal_ok oid j"
  shows "\<exists>j'. compactLocked enclen m mb oid scan_ok SaveOk inc j = (True, j') \<and> journal_ok oid j' \<and>
    journal_entries j' = retainedSuffix enclen (journal_entries j) m (int mb * 3 div 4 - int inc) \<and>
    js_handle j' = None \<and>
    int (file_size (journal_file j')) = total_size enclen (journal_entries j')"
proof -
  let ?s = "scan_loop oid (jf_lines (journal_file j)) start_scan"
  let ?keep = "retainedSuffix enclen (journal_entries j) m (int mb * 3 div 4 - int inc)"
  have d: "sc_damage ?s = None" and o: "\<not> jf_open (journal_file j)"
    using assms by (simp_all add: journal_ok_def)
  have ev: "sc_events ?s = journal_entries j"
    using scan_loop_complete [OF d] by (simp add: journal_entries_def start_scan_def)
  have sc: "fst (scanLocked False oid scan_ok j) = Some (journal_entries j, sc_gaps ?s)"
    using d o ev
    by (auto simp: scanLocked_def scan_ok_def journal_file_def journal_entries_def empty_jfile_def
        start_scan_def split: option.splits)
  have keep: "increasing ?keep \<and> (\<forall>e\<in>set ?keep. 0 < ev_seq e \<and> ev_op e = oid)"
  proof -
    obtain zs where "journal_entries j = zs @ ?keep"
      using retainedSuffix_suffix [of enclen "journal_entries j" m] by (auto simp: suffix_def)
    with journal_ok_entries [OF assms] show ?thesis
      by (metis (no_types, lifting) sorted_wrt_append Un_iff set_append)
  qed
  have hsize: "int (lines_size (map (\<lambda>e. Rec e (enclen e)) es)) = total_size enclen es" for es
    by (induction es) (simp_all add: lines_size_def)
  obtain j1 where "scanLocked False oid scan_ok j = (Some (journal_entries j, sc_gaps ?s), j1)"
    using sc by (cases "scanLocked False oid scan_ok j") auto
  with scan_recs [of ?keep oid enclen] keep hsize [of ?keep] show ?thesis
    by (simp add: compactLocked_def closeJournalLocked_def journal_ok_def journal_file_def
        journal_entries_def file_size_def Let_def)
qed

text \<open>An append with no failing call: what it keeps, what it adds, and how large the file gets.\<close>

lemma appendEvent_ok:
  assumes ok: "journal_ok oid j" and fits: "journal_fits oid j e"
  shows "\<exists>j' k. appendEvent enclen m mb oid append_ok e j = (True, j') \<and> journal_ok oid j' \<and>
    journal_entries j' = drop k (journal_entries j) @ [e] \<and>
    (file_size (journal_file j') \<le> mb \<or> length (journal_entries j') \<le> 2)"
proof -
  obtain j1 where j1: "journalLocked True j = Some j1" "journal_ok oid j1"
    "journal_entries j1 = journal_entries j" "js_handle j1 = Some (file_size (journal_file j1))"
    "js_file j1 \<noteq> None"
    using journalLocked_ok [OF ok] by blast
  have fits1: "journal_fits oid j1 e" using fits j1(3) by (simp add: journal_fits_def)
  let ?over = "file_size (journal_file j1) + (enclen e + 1) > mb"
  show ?thesis
  proof (cases ?over)
    case False
    obtain j2 where "write_journal enclen e WriteOk j1 = (True, j2)" "journal_ok oid j2"
      "journal_entries j2 = journal_entries j1 @ [e]"
      "file_size (journal_file j2) = file_size (journal_file j1) + enclen e + 1"
      using write_journal_ok [OF j1(2) _ fits1, of enclen] j1(4) by auto
    with False j1 show ?thesis
      by (intro exI [of _ j2] exI [of _ 0]) (simp add: appendEvent_def append_ok_def)
  next
    case True
    let ?b = "int mb * 3 div 4 - int (enclen e + 1)"
    let ?keep = "retainedSuffix enclen (journal_entries j1) m ?b"
    obtain j2 where j2: "compactLocked enclen m mb oid scan_ok SaveOk (enclen e + 1) j1 = (True, j2)"
      "journal_ok oid j2" "journal_entries j2 = ?keep" "js_handle j2 = None"
      "int (file_size (journal_file j2)) = total_size enclen (journal_entries j2)"
      using compactLocked_ok [OF j1(2), of enclen m mb "enclen e + 1"] by auto
    obtain j3 where j3: "journalLocked True j2 = Some j3" "journal_ok oid j3"
      "journal_entries j3 = journal_entries j2" "js_handle j3 = Some (file_size (journal_file j3))"
      "journal_file j3 = journal_file j2"
      using journalLocked_ok [OF j2(2)] by blast
    obtain zs where zs: "journal_entries j1 = zs @ ?keep"
      using retainedSuffix_suffix [of enclen "journal_entries j1" m ?b] by (auto simp: suffix_def)
    have "journal_fits oid j3 e"
      using fits1 zs j3(3) j2(3) unfolding journal_fits_def by (metis Un_iff set_append)
    then obtain j4 where j4: "write_journal enclen e WriteOk j3 = (True, j4)" "journal_ok oid j4"
      "journal_entries j4 = journal_entries j3 @ [e]"
      "file_size (journal_file j4) = file_size (journal_file j3) + enclen e + 1"
      using write_journal_ok [OF j3(2), of e enclen] j3(4) by auto
    have bound: "file_size (journal_file j4) \<le> mb \<or> length ?keep \<le> 1"
    proof (cases "length ?keep \<le> 1")
      case False
      with retainedSuffix_fits [of enclen "journal_entries j1" m ?b]
      have fit: "total_size enclen ?keep \<le> max 0 ?b" by simp
      moreover have "0 < total_size enclen ?keep"
      proof -
        have "int (length ks) \<le> total_size enclen ks" for ks
          by (induction ks) auto
        from this [of ?keep] False show ?thesis by linarith
      qed
      ultimately have "total_size enclen ?keep \<le> ?b" by simp
      then have "total_size enclen ?keep + int (enclen e + 1) \<le> int mb" by linarith
      then show ?thesis using j2(3,5) j3(5) j4(4) by (simp only:) linarith
    qed simp
    have "drop (length zs) (journal_entries j1) = ?keep"
      using zs by (metis append_eq_conv_conj)
    then have "journal_entries j4 = drop (length zs) (journal_entries j) @ [e]"
      by (simp only: j4(3) j3(3) j2(3) j1(3))
    moreover have "length (journal_entries j4) \<le> 2 \<or> \<not> length ?keep \<le> 1"
      using j4(3) j3(3) j2(3) by auto
    moreover have "appendEvent enclen m mb oid append_ok e j = (True, j4)"
      using True j1(1,4) j2(1) j3(1) j4(1) by (simp add: appendEvent_def append_ok_def)
    ultimately show ?thesis using j4(2) bound by blast
  qed
qed

lemma journal_fits_next:
  assumes "journal_ok oid j" and "journal_fits oid j e" and "ev_op e' = ev_op e" and "ev_seq e < ev_seq e'"
  shows "journal_fits oid (snd (appendEvent enclen m mb oid append_ok e j)) e'"
proof -
  obtain j' k where a: "appendEvent enclen m mb oid append_ok e j = (True, j')"
    and k: "journal_entries j' = drop k (journal_entries j) @ [e]"
    using appendEvent_ok [OF assms(1,2)] by blast
  from assms(2) have "\<forall>x\<in>set (drop k (journal_entries j)). ev_seq x < ev_seq e"
    by (auto simp: journal_fits_def dest: in_set_dropD)
  with a k assms(2-4) show ?thesis by (auto simp: journal_fits_def)
qed

interpretation jlog: event_log
  "\<lambda>e j. snd (appendEvent enclen m mb oid append_ok e j)" journal_entries "journal_ok oid" "journal_fits oid"
  for enclen m mb oid
proof
  fix j e e'
  assume j: "journal_ok oid j" "journal_fits oid j e"
  from appendEvent_ok [OF j, of enclen m mb]
  show "\<exists>k. journal_entries (snd (appendEvent enclen m mb oid append_ok e j)) = drop k (journal_entries j) @ [e]"
    and "journal_ok oid (snd (appendEvent enclen m mb oid append_ok e j))"
    by auto
  show "ev_op e' = ev_op e \<Longrightarrow> ev_seq e < ev_seq e' \<Longrightarrow>
      journal_fits oid (snd (appendEvent enclen m mb oid append_ok e j)) e'"
    using j by (rule journal_fits_next)
qed

text \<open>
  C34. The journal is a bounded log. When every write succeeds, appending any run of events with rising
  numbers to a sound journal, through as many compactions as the byte cap forces, leaves a sound journal
  that holds a suffix of everything ever recorded, the newest event always among it. (After a write
  cut short the newest event can be missing: \<open>loadEvents_history\<close> says what is read then.)
\<close>

theorem journal_keeps_newest:
  assumes "journal_ok oid j" and "increasing es" and "\<forall>e\<in>set es. ev_op e = oid"
    and "es \<noteq> []" and "journal_fits oid j (hd es)"
  shows "let j' = fold (\<lambda>e j. snd (appendEvent enclen m mb oid append_ok e j)) es j in
    journal_ok oid j' \<and> suffix (journal_entries j') (journal_entries j @ es) \<and>
    journal_entries j' \<noteq> [] \<and> last (journal_entries j') = last es"
proof -
  let ?app = "\<lambda>e j. snd (appendEvent enclen m mb oid append_ok e j)"
  obtain fs e where es: "es = fs @ [e]" using assms(4) by (metis rev_exhaust)
  from jlog.fold_append [OF assms(1-3), of enclen m mb] assms(4,5) obtain k where
    k: "journal_ok oid (fold ?app es j)" "journal_entries (fold ?app es j) = drop k (journal_entries j @ es)"
    by auto
  have fs: "increasing fs" "\<forall>e\<in>set fs. ev_op e = oid" "fs \<noteq> [] \<longrightarrow> journal_fits oid j (hd fs)"
    using assms es by (auto simp: sorted_wrt_append)
  obtain k' where k': "journal_ok oid (fold ?app fs j)"
    "journal_entries (fold ?app fs j) = drop k' (journal_entries j @ fs)"
    using jlog.fold_append [OF assms(1) fs, of enclen m mb] by auto
  have "journal_fits oid (fold ?app fs j) e"
  proof -
    have "\<forall>x\<in>set (journal_entries j @ fs). ev_seq x < ev_seq e"
      using assms es by (cases fs) (auto simp: journal_fits_def sorted_wrt_append intro: less_trans)
    moreover have "0 < ev_seq e"
      using assms es by (cases fs) (auto simp: journal_fits_def sorted_wrt_append intro: less_trans)
    ultimately show ?thesis
      using k'(2) assms(3) es by (auto simp: journal_fits_def dest: in_set_dropD)
  qed
  from jlog.append_entries [OF k'(1) this, of enclen m mb] es
  obtain n where "journal_entries (fold ?app es j) = drop n (journal_entries (fold ?app fs j)) @ [e]"
    by auto
  then have newest: "journal_entries (fold ?app es j) \<noteq> [] \<and> last (journal_entries (fold ?app es j)) = last es"
    unfolding es by simp
  have "suffix (journal_entries (fold ?app es j)) (journal_entries j @ es)"
    unfolding k(2) by (rule suffix_drop)
  with k(1) newest show ?thesis
    unfolding Let_def by blast
qed


definition sample_event :: "64 word \<Rightarrow> event" where
  "sample_event n = \<lparr>ev_seq = n, ev_op = ''a'', ev_type = EventStdout, ev_data = ''x'', ev_at = 1\<rparr>"

theorem journal_keeps_newest_witness:
  "let j' = fold (\<lambda>e j. snd (appendEvent (\<lambda>_. 60) 2 150 ''a'' append_ok e j))
       [sample_event 1, sample_event 2, sample_event 3] no_journal in
     journal_ok ''a'' j' \<and> last (journal_entries j') = sample_event 3"
proof -
  have "journal_ok ''a'' no_journal"
    by (simp add: journal_ok_def no_journal_def journal_file_def empty_jfile_def start_scan_def)
  moreover have "increasing [sample_event 1, sample_event 2, sample_event 3]"
    by (simp add: sample_event_def)
  moreover have "\<forall>e\<in>set [sample_event 1, sample_event 2, sample_event 3]. ev_op e = ''a''"
    by (simp add: sample_event_def)
  moreover have "journal_fits ''a'' no_journal (hd [sample_event 1, sample_event 2, sample_event 3])"
    by (simp add: journal_fits_def no_journal_def journal_file_def empty_jfile_def
        journal_entries_def sample_event_def)
  ultimately have "let j' = fold (\<lambda>e j. snd (appendEvent (\<lambda>_. 60) 2 150 ''a'' append_ok e j))
       [sample_event 1, sample_event 2, sample_event 3] no_journal in
     journal_ok ''a'' j' \<and>
     suffix (journal_entries j') (journal_entries no_journal @ [sample_event 1, sample_event 2, sample_event 3]) \<and>
     journal_entries j' \<noteq> [] \<and>
     last (journal_entries j') = last [sample_event 1, sample_event 2, sample_event 3]"
    by (intro journal_keeps_newest) simp_all
  then show ?thesis by (simp add: Let_def)
qed

text \<open>
  Compaction keeps as much as the budget allows: the newest event whatever it weighs, at
  most \<open>maxEvents\<close> events, a total within the budget unless a single event is kept, and
  no longer suffix of the history would have met both limits.
\<close>

theorem retainedSuffix_spec:
  assumes "suffix ks es" and "length (retainedSuffix enclen es m b) < length ks"
  shows "suffix (retainedSuffix enclen es m b) es \<and>
     retainedSuffix enclen es m b \<noteq> [] \<and> last (retainedSuffix enclen es m b) = last es \<and>
     (m = 0 \<or> length (retainedSuffix enclen es m b) \<le> m) \<and>
     (length (retainedSuffix enclen es m b) \<le> 1 \<or>
        total_size enclen (retainedSuffix enclen es m b) \<le> max 0 b) \<and>
     ((0 < m \<and> m < length ks) \<or> max 0 b < total_size enclen ks)"
proof -
  have "es \<noteq> []" using assms suffix_bot.extremum_uniqueI by fastforce
  note last = retainedSuffix_last [OF this, of enclen m b]
  have "(0 < m \<and> m < length ks) \<or> max 0 b < total_size enclen ks"
    using retainedSuffix_longest [OF assms(1) _ assms(2)] by linarith
  moreover have "m = 0 \<or> length (retainedSuffix enclen es m b) \<le> m"
    using retainedSuffix_count by blast
  ultimately show ?thesis
    using last retainedSuffix_suffix retainedSuffix_fits by blast
qed

theorem retainedSuffix_spec_witness:
  "let es = map sample_event [1, 2, 3, 4]; keep = retainedSuffix (\<lambda>_. 60) es 3 130 in
     keep = map sample_event [3, 4] \<and> suffix keep es \<and>
     max 0 130 < total_size (\<lambda>_. 60) (map sample_event [2, 3, 4])"
proof -
  have k: "retainedSuffix (\<lambda>_. 60) (map sample_event [1, 2, 3, 4]) 3 130 = map sample_event [3, 4]"
    by code_simp
  have "suffix (map sample_event [2, 3, 4]) (map sample_event [1, 2, 3, 4])"
    by (simp add: suffix_ConsI)
  from retainedSuffix_spec [OF this, of "\<lambda>_. 60" 3 130] k show ?thesis
    unfolding Let_def by simp
qed

section \<open>A torn write on a cached handle\<close>

text \<open>
  \<open>appendEvent\<close> does not undo a short write, and the cached handle goes on behind the torn
  bytes. \<open>torn_after ls j\<close>: the file starts with the sound lines \<open>ls\<close> and has a damaged line next.
\<close>

definition torn_after :: "line list \<Rightarrow> journal \<Rightarrow> bool" where
  "torn_after ls j \<longleftrightarrow>
     (\<exists>f k rest h. js_file j = Some f \<and> js_handle j = Some h \<and>
        jf_lines f = ls @ Damaged k # rest \<and> (jf_open f \<longrightarrow> rest = []))"

lemma torn_after_write:
  assumes "torn_after ls j"
  shows "\<exists>j'. write_journal enclen e WriteOk j = (True, j') \<and> torn_after ls j' \<and>
    js_handle j' = map_option (\<lambda>h. h + (enclen e + 1)) (js_handle j)"
proof -
  from assms obtain f k rest h where f: "js_file j = Some f" "js_handle j = Some h"
    "jf_lines f = ls @ Damaged k # rest" "jf_open f \<longrightarrow> rest = []"
    unfolding torn_after_def by blast
  then show ?thesis
    by (cases "jf_open f")
      (auto simp: write_journal_def write_record_def journal_file_def torn_after_def butlast_append)
qed

lemma torn_after_append:
  assumes "torn_after ls j" and "js_handle j = Some h" and "h + (enclen e + 1) \<le> mb"
  shows "\<exists>j'. appendEvent enclen m mb oid append_ok e j = (True, j') \<and> torn_after ls j' \<and>
    js_handle j' = Some (h + (enclen e + 1))"
  using torn_after_write [OF assms(1), of enclen e] assms(2,3)
  by (auto simp: appendEvent_def journalLocked_def append_ok_def)

lemma torn_after_appends:
  "torn_after ls j \<Longrightarrow> js_handle j = Some h \<Longrightarrow> int h + total_size enclen es \<le> int mb \<Longrightarrow>
   torn_after ls (fold (\<lambda>e j. snd (appendEvent enclen m mb oid append_ok e j)) es j) \<and>
   (\<forall>k<length es. fst (appendEvent enclen m mb oid append_ok (es ! k)
       (fold (\<lambda>e j. snd (appendEvent enclen m mb oid append_ok e j)) (take k es) j)))"
proof (induction es arbitrary: j h)
  case (Cons e es)
  have nn: "0 \<le> total_size enclen es" by (induction es) auto
  have "h + (enclen e + 1) \<le> mb" using Cons.prems(3) nn by simp
  from torn_after_append [where enclen = enclen and e = e, OF Cons.prems(1,2) this, of m oid]
  obtain j' where j': "appendEvent enclen m mb oid append_ok e j = (True, j')" "torn_after ls j'"
    "js_handle j' = Some (h + (enclen e + 1))" by blast
  have "int (h + (enclen e + 1)) + total_size enclen es \<le> int mb"
    using Cons.prems(3) by simp
  from Cons.IH [OF j'(2,3) this] j'(1) show ?case
    by (auto simp: nth_Cons take_Cons split: nat.splits)
qed simp

lemma scan_gaps_type:
  "\<forall>g\<in>set (sc_gaps s). ev_type g = EventGap \<Longrightarrow> \<forall>g\<in>set (sc_gaps (scan_loop oid ls s)). ev_type g = EventGap"
proof (induction ls arbitrary: s)
  case (Cons l ls)
  then show ?case
  proof (cases l)
    case (Rec e n)
    show ?thesis
    proof (cases "ev_op e \<noteq> oid \<or> ev_seq e = 0 \<or> ev_seq e \<le> sc_last s")
      case False
      have "\<forall>g\<in>set (sc_gaps (advance l (accept oid e s))). ev_type g = EventGap"
        using Cons.prems by (auto simp: advance_def accept_def)
      from Cons.IH [OF this] Rec False show ?thesis by simp
    qed (use Cons.prems Rec in simp)
  next
    case (Blank n)
    have "\<forall>g\<in>set (sc_gaps (advance l s)). ev_type g = EventGap"
      using Cons.prems by (simp add: advance_def)
    from Cons.IH [OF this] Blank show ?thesis by simp
  qed (use Cons.prems in simp_all)
qed simp

lemma torn_after_load:
  assumes "torn_after ls j" and "sc_damage (scan_loop oid ls start_scan) = None"
  shows "\<exists>r j'. loadEvents False oid scan_ok j = (Some r, j') \<and>
    (\<forall>x\<in>set r. x \<in> set (record_events ls) \<or> ev_type x = EventGap)"
proof -
  from assms(1) obtain f k rest where f: "js_file j = Some f" "jf_lines f = ls @ Damaged k # rest"
    unfolding torn_after_def by blast
  let ?s = "scan_loop oid ls start_scan"
  have s: "scan_loop oid (jf_lines f) start_scan = ?s\<lparr>sc_damage := Some (CorruptAt (sc_offset ?s))\<rparr>"
    using scan_loop_append [OF _ assms(2), of "Damaged k # rest"] f(2)
    by (simp add: start_scan_def)
  have ev: "sc_events ?s = record_events ls"
    using scan_loop_complete [OF assms(2)] by (simp add: start_scan_def)
  have "\<forall>g\<in>set (sc_gaps ?s). ev_type g = EventGap"
    by (rule scan_gaps_type) (simp add: start_scan_def)
  then show ?thesis
    using f(1) s ev by (auto simp: loadEvents_def scanLocked_def scan_ok_def Let_def)
qed

text \<open>
  A short write costs more than its own event. One append whose write stops part way
  reports its failure; every later append on the cached handle reports success; and a load
  of the journal then returns none of them, only what was there before and gap markers.
\<close>

theorem torn_append_loses_later_events:
  assumes ok: "journal_ok oid j" and h: "js_handle j = Some h" and part: "0 < n" "n < enclen e"
    and room: "int h + int (enclen e + 1) + total_size enclen es \<le> int mb"
  shows "\<exists>j1. appendEvent enclen m mb oid (append_ok\<lparr>io_write := WritePartial n\<rparr>) e j = (False, j1) \<and>
    (\<forall>k<length es. fst (appendEvent enclen m mb oid append_ok (es ! k)
       (fold (\<lambda>e j. snd (appendEvent enclen m mb oid append_ok e j)) (take k es) j1))) \<and>
    (\<exists>r j'. loadEvents False oid scan_ok
         (fold (\<lambda>e j. snd (appendEvent enclen m mb oid append_ok e j)) es j1) = (Some r, j') \<and>
       (\<forall>x\<in>set r. x \<in> set (journal_entries j) \<or> ev_type x = EventGap))"
proof -
  have nn: "0 \<le> total_size enclen es" by (induction es) auto
  obtain f where f: "js_file j = Some f" "\<not> jf_open f"
    and d: "sc_damage (scan_loop oid (jf_lines f) start_scan) = None"
    using ok h by (auto simp: journal_ok_def journal_file_def)
  let ?j1 = "j\<lparr>js_file := Some \<lparr>jf_lines = jf_lines f @ [Damaged n], jf_open = True\<rparr>, js_handle := Some (h + n)\<rparr>"
  have "h + (enclen e + 1) \<le> mb" using room nn by linarith
  then have a: "appendEvent enclen m mb oid (append_ok\<lparr>io_write := WritePartial n\<rparr>) e j = (False, ?j1)"
    using f h part by (simp add: appendEvent_def journalLocked_def append_ok_def write_journal_def
        write_record_def journal_file_def)
  have t: "torn_after (jf_lines f) ?j1" by (simp add: torn_after_def)
  have "js_handle ?j1 = Some (h + n)" by simp
  moreover have "int (h + n) + total_size enclen es \<le> int mb" using room part by simp
  ultimately have later: "torn_after (jf_lines f)
      (fold (\<lambda>e j. snd (appendEvent enclen m mb oid append_ok e j)) es ?j1) \<and>
    (\<forall>k<length es. fst (appendEvent enclen m mb oid append_ok (es ! k)
       (fold (\<lambda>e j. snd (appendEvent enclen m mb oid append_ok e j)) (take k es) ?j1)))"
    by (rule torn_after_appends [OF t])
  have "journal_entries j = record_events (jf_lines f)"
    using f(1) by (simp add: journal_entries_def journal_file_def)
  with torn_after_load [OF conjunct1 [OF later] d] a conjunct2 [OF later] show ?thesis
    by (intro exI [of _ ?j1]) simp
qed

theorem torn_append_loses_later_events_witness:
  "let j = \<lparr>js_file = Some \<lparr>jf_lines = [Rec (sample_event 1) 60], jf_open = False\<rparr>, js_handle = Some 61\<rparr>
   in journal_ok ''a'' j \<and>
     (\<exists>j1. appendEvent (\<lambda>_. 60) 9 999 ''a'' (append_ok\<lparr>io_write := WritePartial 20\<rparr>) (sample_event 2) j = (False, j1) \<and>
        (\<exists>r j'. loadEvents False ''a'' scan_ok
           (fold (\<lambda>e j. snd (appendEvent (\<lambda>_. 60) 9 999 ''a'' append_ok e j)) [sample_event 3, sample_event 4] j1)
           = (Some r, j') \<and> sample_event 4 \<notin> set r))"
proof -
  let ?j = "\<lparr>js_file = Some \<lparr>jf_lines = [Rec (sample_event 1) 60], jf_open = False\<rparr>, js_handle = Some 61\<rparr>"
  have ok: "journal_ok ''a'' ?j" by code_simp
  from torn_append_loses_later_events [OF ok, of 61 20 "\<lambda>_. 60" "sample_event 2"
      "[sample_event 3, sample_event 4]" 999 9]
  obtain j1 r j' where r: "appendEvent (\<lambda>_. 60) 9 999 ''a'' (append_ok\<lparr>io_write := WritePartial 20\<rparr>)
      (sample_event 2) ?j = (False, j1)"
    "loadEvents False ''a'' scan_ok
      (fold (\<lambda>e j. snd (appendEvent (\<lambda>_. 60) 9 999 ''a'' append_ok e j)) [sample_event 3, sample_event 4] j1)
      = (Some r, j')"
    "\<forall>x\<in>set r. x \<in> set (journal_entries ?j) \<or> ev_type x = EventGap"
    by auto
  have "sample_event 4 \<notin> set r"
    using r(3) by (auto simp: journal_entries_def journal_file_def sample_event_def)
  with ok r(1,2) show ?thesis
    unfolding Let_def by blast
qed

end
