(* ===== verification/OpManager.thy ===== *)
theory OpManager
  imports OpBuild OpRedact OpJournal
begin

text \<open>
  The state of \<open>internal/operation/manager.go\<close> and its critical sections: every function below
  is what the code does between one \<open>m.mu.Lock()\<close> and its \<open>Unlock\<close>. The outcome of a record
  write (\<open>save_outcome\<close>), of the journal appends (\<open>append_io\<close>) and the clock reading are
  arguments. The disk is part of the state: \<open>mn_records\<close> are the record files,
  \<open>mn_journals\<close> the event files with their cached handles. \<open>mn_workers\<close> lists the running goroutines
  of \<open>runTarget\<close>, each with its target and its place in the code.
\<close>

section \<open>Configuration and state\<close>

record config =
  cf_maxEvents :: int
  cf_maxJournalBytes :: int
  cf_maxHistoryAge :: duration
  cf_maxOperations :: int
  cf_maxQueuedPerTarget :: int
  cf_maxLive :: int
  cf_maxLivePerPrincipal :: int
  cf_maxConcurrent :: int
  cf_idempotencyWindow :: duration
  cf_reader :: bool
  cf_actorArgs :: "(operation \<Rightarrow> string list) option"
  cf_build :: build_env
  cf_hash :: "request \<Rightarrow> string"
  cf_enclen :: "event \<Rightarrow> nat"

text \<open>The defaults \<open>New\<close> fills in.\<close>

definition with_defaults :: "config \<Rightarrow> config" where
  "with_defaults c = c\<lparr>
     cf_maxEvents := (if cf_maxEvents c \<le> 0 then 1000 else cf_maxEvents c),
     cf_maxJournalBytes := (if cf_maxJournalBytes c \<le> 0 then 4194304 else cf_maxJournalBytes c),
     cf_maxHistoryAge := (if cf_maxHistoryAge c = 0 then 720 * hour else cf_maxHistoryAge c),
     cf_maxOperations := (if cf_maxOperations c = 0 then 5000 else cf_maxOperations c),
     cf_maxQueuedPerTarget := (if cf_maxQueuedPerTarget c = 0 then 50 else cf_maxQueuedPerTarget c),
     cf_maxLive := (if cf_maxLive c = 0 then 500 else cf_maxLive c),
     cf_maxLivePerPrincipal := (if cf_maxLivePerPrincipal c = 0 then 100 else cf_maxLivePerPrincipal c),
     cf_maxConcurrent := (if cf_maxConcurrent c = 0 then 8 else cf_maxConcurrent c),
     cf_idempotencyWindow := (if cf_idempotencyWindow c = 0 then 24 * hour else cf_idempotencyWindow c)\<rparr>"

record job =
  jb_id :: string
  jb_command :: command

text \<open>
  The FIFO runner of a target. \<open>rn_busy\<close> says that its worker goroutine was started.
\<close>

record runner =
  rn_queue :: "job list"
  rn_busy :: bool

text \<open>
  Where a target's worker goroutine stands, between two critical sections: at the head of the
  loop of \<open>runTarget\<close>; about to look at the job's context; waiting for an execution slot;
  about to check the target; about to call \<open>setRunning\<close>; inside the executor; about to
  call \<open>beginStopping\<close>; about to read \<open>shuttingDown\<close>; reading the receipt; about to call
  \<open>finishReconciled\<close>. The last one says whether the slot is held.
\<close>

datatype pc =
  AtQueue
| Popped job
| Waiting job
| HasSlot job
| Ready job
| Executing job
| Stopping job int
| Asking job int
| Resolving job int bool
| Finishing job status int message "reconciliation option" bool

record stored =
  st_operation :: operation
  st_version :: nat

type_synonym idem_key = "string \<times> string"

record manager =
  mn_operations :: "(string, operation) gomap"
  mn_events :: "(string, event list) gomap"
  mn_idempotency :: "(idem_key, string) gomap"
  mn_cancels :: "string list"
  mn_canceled :: "string list"
  mn_targets :: "(string, runner) gomap"
  mn_workers :: "(string \<times> pc) list"
  mn_subscribers :: "(string, (nat, bool) gomap) gomap"
  mn_admissionSeq :: "64 word"
  mn_admissionClosed :: bool
  mn_shuttingDown :: bool
  mn_recordErr :: "time option"
  mn_eventErr :: "time option"
  mn_droppedEvents :: "(string, nat) gomap"
  mn_readOnly :: bool
  mn_lastSweep :: time
  mn_retiring :: "string list option"
  mn_finished :: "operation list"
  mn_records :: "(string, stored) gomap"
  mn_journals :: "(string, journal) gomap"

text \<open>A map read with Go's zero value, and the outcomes of the storage calls of one critical section.\<close>

definition mgetd :: "'v \<Rightarrow> ('k, 'v) gomap \<Rightarrow> 'k \<Rightarrow> 'v" where
  "mgetd z m k = (case mget m k of None \<Rightarrow> z | Some v \<Rightarrow> v)"

record op_io =
  oi_now :: time
  oi_save :: save_outcome
  oi_marker :: append_io
  oi_event :: append_io

section \<open>Storage\<close>

definition currentRecordVersion :: nat where
  "currentRecordVersion = 2"

definition saveOperation :: "save_outcome \<Rightarrow> operation \<Rightarrow> manager \<Rightarrow> bool \<times> manager" where
  "saveOperation sv op m =
     (let put = m\<lparr>mn_records := mput (op_id op)
             \<lparr>st_operation = op, st_version = currentRecordVersion\<rparr> (mn_records m)\<rparr>
      in case sv of SaveOk \<Rightarrow> (True, put) | SaveFail \<Rightarrow> (False, m) | SaveUnsynced \<Rightarrow> (False, put))"

definition noteRecordErrLocked :: "time \<Rightarrow> manager \<Rightarrow> manager" where
  "noteRecordErrLocked now m = m\<lparr>mn_recordErr := Some now\<rparr>"

definition clearRecordErrLocked :: "manager \<Rightarrow> manager" where
  "clearRecordErrLocked m = m\<lparr>mn_recordErr := None\<rparr>"

definition noteEventErrLocked :: "time \<Rightarrow> manager \<Rightarrow> manager" where
  "noteEventErrLocked now m = m\<lparr>mn_eventErr := Some now\<rparr>"

definition clearEventErrLocked :: "manager \<Rightarrow> manager" where
  "clearEventErrLocked m = m\<lparr>mn_eventErr := None\<rparr>"

definition CloseJournal :: "string \<Rightarrow> manager \<Rightarrow> manager" where
  "CloseJournal oid m =
     (case mget (mn_journals m) oid of None \<Rightarrow> m
      | Some j \<Rightarrow> m\<lparr>mn_journals := mput oid (closeJournalLocked j) (mn_journals m)\<rparr>)"

definition store_append :: "config \<Rightarrow> append_io \<Rightarrow> string \<Rightarrow> event \<Rightarrow> manager \<Rightarrow> bool \<times> manager" where
  "store_append cfg io oid e m =
     (case appendEvent (cf_enclen cfg) (nat (cf_maxEvents cfg)) (nat (cf_maxJournalBytes cfg)) oid io e
         (mgetd no_journal (mn_journals m) oid) of
        (ok, j) \<Rightarrow> (ok, m\<lparr>mn_journals := mput oid j (mn_journals m)\<rparr>))"

section \<open>Events\<close>

text \<open>
  \<open>strings.ToValidUTF8\<close>: the width of the rune a string starts with, 0 where the bytes are not
  the shortest encoding of a Unicode scalar value.
\<close>

definition byte_in :: "nat \<Rightarrow> nat \<Rightarrow> string \<Rightarrow> nat \<Rightarrow> bool" where
  "byte_in lo hi s i \<longleftrightarrow> i < length s \<and> lo \<le> of_char (s ! i) \<and> of_char (s ! i) \<le> hi"

definition rune_width :: "string \<Rightarrow> nat" where
  "rune_width s =
     (if byte_in 0 127 s 0 then 1
      else if byte_in 194 223 s 0 \<and> byte_in 128 191 s 1 then 2
      else if (byte_in 224 224 s 0 \<and> byte_in 160 191 s 1 \<or>
               (byte_in 225 236 s 0 \<or> byte_in 238 239 s 0) \<and> byte_in 128 191 s 1 \<or>
               byte_in 237 237 s 0 \<and> byte_in 128 159 s 1) \<and> byte_in 128 191 s 2 then 3
      else if (byte_in 240 240 s 0 \<and> byte_in 144 191 s 1 \<or>
               byte_in 241 243 s 0 \<and> byte_in 128 191 s 1 \<or>
               byte_in 244 244 s 0 \<and> byte_in 128 143 s 1) \<and> byte_in 128 191 s 2 \<and> byte_in 128 191 s 3 then 4
      else 0)"

function to_valid_utf8 :: "string \<Rightarrow> bool \<Rightarrow> string \<Rightarrow> string" where
  "to_valid_utf8 repl invalid s =
     (if s = [] then []
      else if rune_width s = 0
        then (if invalid then [] else repl) @ to_valid_utf8 repl True (tl s)
      else take (rune_width s) s @ to_valid_utf8 repl False (drop (rune_width s) s))"
  by pat_completeness auto
termination
  by (relation "measure (\<lambda>(repl, invalid, s). length s)") auto

declare to_valid_utf8.simps [simp del]

definition replacement_rune :: string where
  "replacement_rune = map char_of [239 :: nat, 191, 189]"

definition maxEventDataBytes :: nat where
  "maxEventDataBytes = 16384"

definition boundedEventData :: "string \<Rightarrow> string" where
  "boundedEventData d =
     (let s = to_valid_utf8 replacement_rune False d
      in if length s \<le> maxEventDataBytes then s else take maxEventDataBytes s @ '' [truncated]'')"

text \<open>A send to a channel of capacity one that never blocks.\<close>

definition wake :: "string \<Rightarrow> manager \<Rightarrow> manager" where
  "wake oid m =
     (case mget (mn_subscribers m) oid of None \<Rightarrow> m
      | Some subs \<Rightarrow>
          m\<lparr>mn_subscribers := mput oid (map (\<lambda>(c, _). (c, True)) subs) (mn_subscribers m)\<rparr>)"

definition closeSubscribersLocked :: "string \<Rightarrow> manager \<Rightarrow> manager" where
  "closeSubscribersLocked oid m = m\<lparr>mn_subscribers := mdel oid (mn_subscribers m)\<rparr>"

definition last_n :: "int \<Rightarrow> 'a list \<Rightarrow> 'a list" where
  "last_n n xs = (if int (length xs) > n then drop (nat (int (length xs) - n)) xs else xs)"

definition next_sequence :: "event list \<Rightarrow> 64 word" where
  "next_sequence es = (if es = [] then 1 else ev_seq (last es) + 1)"

definition appendOneEventLocked ::
    "config \<Rightarrow> append_io \<Rightarrow> time \<Rightarrow> string \<Rightarrow> event_type \<Rightarrow> string \<Rightarrow> manager \<Rightarrow> bool \<times> manager" where
  "appendOneEventLocked cfg io now oid ty txt m =
     (let events = mgetd [] (mn_events m) oid;
          e = \<lparr>ev_seq = next_sequence events, ev_op = oid, ev_type = ty,
               ev_data = boundedEventData txt, ev_at = now\<rparr>
      in case store_append cfg io oid e m of
           (False, m1) \<Rightarrow>
             (False,
              (noteEventErrLocked now m1)
                \<lparr>mn_droppedEvents :=
                   (if ty = EventGap then mn_droppedEvents m1
                    else mput oid (mgetd 0 (mn_droppedEvents m1) oid + 1) (mn_droppedEvents m1))\<rparr>)
         | (True, m1) \<Rightarrow>
             (True,
              wake oid ((clearEventErrLocked m1)
                \<lparr>mn_events := mput oid (last_n (cf_maxEvents cfg) (events @ [e])) (mn_events m1)\<rparr>)))"

definition lost_text :: "nat \<Rightarrow> string" where
  "lost_text n = show_nat n @ '' event(s) were lost during a storage failure''"

definition appendEventLocked ::
    "config \<Rightarrow> op_io \<Rightarrow> string \<Rightarrow> event_type \<Rightarrow> string \<Rightarrow> manager \<Rightarrow> bool \<times> manager" where
  "appendEventLocked cfg io oid ty txt m =
     (let lost = mgetd 0 (mn_droppedEvents m) oid
      in if 0 < lost then
           (case appendOneEventLocked cfg (oi_marker io) (oi_now io) oid EventGap (lost_text lost)
               (m\<lparr>mn_droppedEvents := mdel oid (mn_droppedEvents m)\<rparr>) of
              (False, m1) \<Rightarrow>
                (False, m1\<lparr>mn_droppedEvents :=
                   mput oid (if ty = EventGap then lost else lost + 1) (mn_droppedEvents m1)\<rparr>)
            | (True, m1) \<Rightarrow> appendOneEventLocked cfg (oi_event io) (oi_now io) oid ty txt m1)
         else appendOneEventLocked cfg (oi_event io) (oi_now io) oid ty txt m)"

definition emit :: "config \<Rightarrow> op_io \<Rightarrow> string \<Rightarrow> event_type \<Rightarrow> string \<Rightarrow> manager \<Rightarrow> manager" where
  "emit cfg io oid ty txt m = snd (appendEventLocked cfg io oid ty txt m)"

end
