(* ===== verification/OpAdmission.thy ===== *)
theory OpAdmission
  imports OpManager
begin

text \<open>
  Admission and the caller-facing operations of \<open>internal/operation/manager.go\<close>: \<open>Enqueue\<close> with
  its idempotency index and its three budgets, \<open>Cancel\<close>, \<open>Retry\<close>, and the reads. \<open>enqueue\<close> has
  two critical sections with \<open>Build\<close> between them; the second repeats the checks of the
  first. Every error return is a constructor of \<open>manager_error\<close>.
\<close>

datatype manager_error =
  ErrReadOnly | InvalidIdempotencyKey | ErrShuttingDown | ErrIdempotencyConflict
| BuildFailed build_error | ErrAdmissionBudget | ErrGlobalAdmissionBudget
| ErrPrincipalAdmissionBudget | NoEntropy | PersistEventFailed | PersistRecordFailed
| ErrNotFound | ErrNotCancelable | PersistCancelFailed | ErrNotRetryable | ErrReconciliationPending

section \<open>The idempotency index\<close>

definition idempotencyLive :: "config \<Rightarrow> time \<Rightarrow> time \<Rightarrow> bool" where
  "idempotencyLive cfg createdAt now =
     (if cf_idempotencyWindow cfg \<le> 0 then True
      else time_sub now createdAt \<le> cf_idempotencyWindow cfg)"

datatype lookup = NoReplay | Replay operation | Conflict

definition lookupReplayLocked ::
    "config \<Rightarrow> idem_key \<Rightarrow> string \<Rightarrow> time \<Rightarrow> manager \<Rightarrow> lookup \<times> manager" where
  "lookupReplayLocked cfg ns hash now m =
     (let dropped = m\<lparr>mn_idempotency := mdel ns (mn_idempotency m)\<rparr>
      in if snd ns = [] then (NoReplay, m)
         else case mget (mn_idempotency m) ns of
           None \<Rightarrow> (NoReplay, m)
         | Some oid \<Rightarrow>
           (case mget (mn_operations m) oid of
              None \<Rightarrow> (NoReplay, dropped)
            | Some existing \<Rightarrow>
                if \<not> idempotencyLive cfg (op_created_at existing) now then (NoReplay, dropped)
                else if op_request_hash existing \<noteq> hash then (Conflict, m)
                else (Replay existing, m)))"

section \<open>Budgets\<close>

definition target_depth :: "string \<Rightarrow> manager \<Rightarrow> nat" where
  "target_depth target m = count_vals (\<lambda>o'. op_target o' = target \<and> op_live o') (mn_operations m)"

definition live_count :: "manager \<Rightarrow> nat" where
  "live_count m = count_vals op_live (mn_operations m)"

definition principal_count :: "string \<Rightarrow> manager \<Rightarrow> nat" where
  "principal_count scope m =
     count_vals (\<lambda>o'. op_live o' \<and> IdempotencyScope (op_actor o') = scope) (mn_operations m)"

definition budget_error :: "config \<Rightarrow> string \<Rightarrow> string \<Rightarrow> manager \<Rightarrow> manager_error option" where
  "budget_error cfg target scope m =
     (if 0 < cf_maxQueuedPerTarget cfg \<and> cf_maxQueuedPerTarget cfg \<le> int (target_depth target m)
      then Some ErrAdmissionBudget
      else if 0 < cf_maxLive cfg \<and> cf_maxLive cfg \<le> int (live_count m)
      then Some ErrGlobalAdmissionBudget
      else if scope \<noteq> [] \<and> 0 < cf_maxLivePerPrincipal cfg \<and>
              cf_maxLivePerPrincipal cfg \<le> int (principal_count scope m)
      then Some ErrPrincipalAdmissionBudget
      else None)"

section \<open>Admission\<close>

definition admitToTarget :: "string \<Rightarrow> job \<Rightarrow> manager \<Rightarrow> manager" where
  "admitToTarget target j m =
     (let r = mgetd \<lparr>rn_queue = [], rn_busy = False\<rparr> (mn_targets m) target;
          r1 = r\<lparr>rn_queue := rn_queue r @ [j]\<rparr>
      in if \<not> rn_busy r1
         then m\<lparr>mn_targets := mput target (r1\<lparr>rn_busy := True\<rparr>) (mn_targets m),
                mn_workers := (target, AtQueue) # mn_workers m\<rparr>
         else m\<lparr>mn_targets := mput target r1 (mn_targets m)\<rparr>)"

datatype enqueue_result = Refused manager_error | Replayed operation | Admitted operation

definition validKey :: "string \<Rightarrow> bool" where
  "validKey key \<longleftrightarrow> length key \<le> 255 \<and> CHR 0x0D \<notin> set key \<and> CHR 0x0A \<notin> set key"

definition normalizeMode :: "request \<Rightarrow> request" where
  "normalizeMode req =
     (if rq_kind req = KindDeploy \<and> rq_mode req = [] then req\<lparr>rq_mode := ''ad-hoc''\<rparr> else req)"

definition enqueue_lookup ::
    "config \<Rightarrow> request \<Rightarrow> string \<Rightarrow> actor option \<Rightarrow> time \<Rightarrow> manager \<Rightarrow> enqueue_result option \<times> manager" where
  "enqueue_lookup cfg req key act now m =
     (if mn_readOnly m then (Some (Refused ErrReadOnly), m)
      else if \<not> validKey key then (Some (Refused InvalidIdempotencyKey), m)
      else if mn_admissionClosed m then (Some (Refused ErrShuttingDown), m)
      else case lookupReplayLocked cfg (IdempotencyScope act, key) (cf_hash cfg (normalizeMode req)) now m of
             (NoReplay, m1) \<Rightarrow> (None, m1)
           | (Replay o', m1) \<Rightarrow> (Some (Replayed o'), m1)
           | (Conflict, m1) \<Rightarrow> (Some (Refused ErrIdempotencyConflict), m1))"

text \<open>What the second section needs: the fresh identifier, the clock, and its storage outcomes.\<close>

record admit_io =
  ai_id :: "string option"
  ai_io :: op_io
  ai_discard :: bool

definition admitted_operation ::
    "config \<Rightarrow> request \<Rightarrow> string \<Rightarrow> string \<Rightarrow> int \<Rightarrow> actor option \<Rightarrow> command \<Rightarrow> server \<Rightarrow> string \<Rightarrow>
     string \<Rightarrow> time \<Rightarrow> 64 word \<Rightarrow> operation" where
  "admitted_operation cfg req key retryOf attempt act cmd admitted target nid now sq =
     \<lparr>op_id = nid, op_request = redactedRequest req, op_mode = rq_mode req, op_target = target,
      op_status = StatusQueued, op_idem_key = key, op_idem_principal = IdempotencyScope act,
      op_retry_of = retryOf, op_attempt = attempt, op_exit_code = None, op_error = NoMessage,
      op_created_at = now, op_started_at = None, op_finished_at = None,
      op_has_secrets = (cmd_secrets cmd \<noteq> []), op_admitted_server = Some admitted,
      op_admission_seq = sq, op_actor = act, op_reconciliation = None,
      op_request_hash = cf_hash cfg req\<rparr>"

definition publish :: "string \<Rightarrow> operation \<Rightarrow> event \<Rightarrow> command \<Rightarrow> manager \<Rightarrow> manager" where
  "publish key op initial cmd m =
     admitToTarget (op_target op) \<lparr>jb_id = op_id op, jb_command = cmd\<rparr>
       (m\<lparr>mn_operations := mput (op_id op) op (mn_operations m),
          mn_events := mput (op_id op) [initial] (mn_events m),
          mn_idempotency := (if key = [] then mn_idempotency m
            else mput (op_idem_principal op, key) (op_id op) (mn_idempotency m)),
          mn_cancels := op_id op # mn_cancels m,
          mn_canceled := filter (\<lambda>i. i \<noteq> op_id op) (mn_canceled m)\<rparr>)"

definition enqueue_admit ::
    "config \<Rightarrow> request \<Rightarrow> string \<Rightarrow> string \<Rightarrow> int \<Rightarrow> actor option \<Rightarrow> built \<Rightarrow> admit_io \<Rightarrow> manager \<Rightarrow>
     enqueue_result \<times> manager" where
  "enqueue_admit cfg req0 key retryOf attempt act bld io m =
     (let req = normalizeMode req0; scope = IdempotencyScope act; now = oi_now (ai_io io)
      in case bld of Inl e \<Rightarrow> (Refused (BuildFailed e), m)
      | Inr (cmd, admitted, target) \<Rightarrow>
        if mn_admissionClosed m then (Refused ErrShuttingDown, m)
        else case lookupReplayLocked cfg (scope, key) (cf_hash cfg req) now m of
          (Replay o', m1) \<Rightarrow> (Replayed o', m1)
        | (Conflict, m1) \<Rightarrow> (Refused ErrIdempotencyConflict, m1)
        | (NoReplay, m1) \<Rightarrow>
          (case budget_error cfg target scope m1 of
             Some e \<Rightarrow> (Refused e, m1)
           | None \<Rightarrow>
             (case ai_id io of
                None \<Rightarrow> (Refused NoEntropy, m1)
              | Some nid \<Rightarrow>
                (let m2 = m1\<lparr>mn_admissionSeq := mn_admissionSeq m1 + 1\<rparr>;
                     op = admitted_operation cfg req key retryOf attempt act cmd admitted target nid now
                       (mn_admissionSeq m2);
                     initial = \<lparr>ev_seq = 1, ev_op = nid, ev_type = EventStatus,
                       ev_data = status_text StatusQueued, ev_at = now\<rparr>
                 in case store_append cfg (oi_event (ai_io io)) nid initial m2 of
                   (False, m3) \<Rightarrow> (Refused PersistEventFailed, noteEventErrLocked now m3)
                 | (True, m3) \<Rightarrow>
                   (case saveOperation (oi_save (ai_io io)) op m3 of
                      (False, m4) \<Rightarrow>
                        (Refused PersistRecordFailed,
                         (noteRecordErrLocked now m4)
                           \<lparr>mn_journals := mput nid (discardJournal (ai_discard io)
                              (mgetd no_journal (mn_journals m4) nid)) (mn_journals m4)\<rparr>)
                    | (True, m4) \<Rightarrow> (Admitted op, publish key op initial cmd m4))))))"

text \<open>The whole of \<open>enqueue\<close> when no other caller runs between its two sections.\<close>

definition enqueue ::
    "config \<Rightarrow> resolver \<Rightarrow> request \<Rightarrow> string \<Rightarrow> string \<Rightarrow> int \<Rightarrow> actor option \<Rightarrow> time \<Rightarrow> admit_io \<Rightarrow>
     manager \<Rightarrow> enqueue_result \<times> manager" where
  "enqueue cfg resolve req key retryOf attempt act now io m =
     (case enqueue_lookup cfg req key act now m of
        (Some r, m1) \<Rightarrow> (r, m1)
      | (None, m1) \<Rightarrow>
          enqueue_admit cfg req key retryOf attempt act
            (Build (cf_build cfg) (normalizeMode req) resolve) io m1)"

definition Enqueue ::
    "config \<Rightarrow> resolver \<Rightarrow> request \<Rightarrow> string \<Rightarrow> actor option \<Rightarrow> time \<Rightarrow> admit_io \<Rightarrow> manager \<Rightarrow>
     enqueue_result \<times> manager" where
  "Enqueue cfg resolve req key act now io m = enqueue cfg resolve req key [] 1 act now io m"

section \<open>Cancel and Retry\<close>

definition Cancel :: "config \<Rightarrow> op_io \<Rightarrow> string \<Rightarrow> manager \<Rightarrow> (manager_error + operation) \<times> manager" where
  "Cancel cfg io oid m =
     (if mn_readOnly m then (Inl ErrReadOnly, m)
      else case mget (mn_operations m) oid of
        None \<Rightarrow> (Inl ErrNotFound, m)
      | Some op \<Rightarrow>
          if terminal (op_status op) then (Inl ErrNotCancelable, m)
          else if op_status op = StatusStopping then (Inl ErrNotCancelable, m)
          else
            let nxt = op\<lparr>op_status := StatusCancelRequested\<rparr>
            in case saveOperation (oi_save io) nxt m of
              (False, m1) \<Rightarrow> (Inl PersistCancelFailed, noteRecordErrLocked (oi_now io) m1)
            | (True, m1) \<Rightarrow>
                let m2 = (clearRecordErrLocked m1)
                      \<lparr>mn_operations := mput oid nxt (mn_operations m1)\<rparr>;
                    m3 = emit cfg io oid EventStatus (status_text StatusCancelRequested) m2
                in (Inr nxt,
                    if oid \<in> set (mn_cancels m3)
                    then m3\<lparr>mn_canceled := oid # mn_canceled m3\<rparr> else m3))"

text \<open>The checks of \<open>Retry\<close>; what passes is re-admitted by \<open>enqueue\<close> without a key.\<close>

definition retry_gate :: "string \<Rightarrow> manager \<Rightarrow> manager_error + operation" where
  "retry_gate oid m =
     (if mn_readOnly m then Inl ErrReadOnly
      else case mget (mn_operations m) oid of
        None \<Rightarrow> Inl ErrNotFound
      | Some op \<Rightarrow>
          if \<not> terminal (op_status op) \<or> op_status op = StatusSucceeded \<or>
             op_status op = StatusAlreadyCommitted \<or> op_has_secrets op \<or>
             \<not> supportedKind (rq_kind (op_request op)) then Inl ErrNotRetryable
          else if is_reconciling op then Inl ErrReconciliationPending
          else Inr op)"

definition Retry ::
    "config \<Rightarrow> resolver \<Rightarrow> string \<Rightarrow> actor option \<Rightarrow> time \<Rightarrow> admit_io \<Rightarrow> manager \<Rightarrow>
     enqueue_result \<times> manager" where
  "Retry cfg resolve oid act now io m =
     (case retry_gate oid m of
        Inl e \<Rightarrow> (Refused e, m)
      | Inr op \<Rightarrow> enqueue cfg resolve (op_request op) [] oid (op_attempt op + 1) act now io m)"

section \<open>Reads\<close>

definition Get :: "string \<Rightarrow> manager \<Rightarrow> manager_error + operation" where
  "Get oid m = (case mget (mn_operations m) oid of None \<Rightarrow> Inl ErrNotFound | Some op \<Rightarrow> Inr op)"

definition ListLive :: "time \<Rightarrow> manager \<Rightarrow> operation list" where
  "ListLive since m =
     filter (\<lambda>op. \<not> terminal (op_status op) \<or>
         (case op_finished_at op of None \<Rightarrow> False | Some t \<Rightarrow> \<not> before_time t since))
       (map snd (mn_operations m))"

text \<open>\<open>List\<close>: no status and no target is the empty string of the code; newest first.\<close>

definition newest_first :: "operation \<Rightarrow> operation \<Rightarrow> bool" where
  "newest_first a b \<longleftrightarrow>
     (if op_created_at a = op_created_at b then op_admission_seq b < op_admission_seq a
      else op_created_at b < op_created_at a)"

fun insert_newest :: "operation \<Rightarrow> operation list \<Rightarrow> operation list" where
  "insert_newest a [] = [a]"
| "insert_newest a (b # bs) = (if newest_first b a then b # insert_newest a bs else a # b # bs)"

definition List :: "string \<Rightarrow> string \<Rightarrow> int \<Rightarrow> manager \<Rightarrow> operation list" where
  "List st target limit m =
     (let kept = filter (\<lambda>op. (st = [] \<or> status_text (op_status op) = st) \<and>
             (target = [] \<or> op_target op = target)) (map snd (mn_operations m));
          sorted_ops = foldr insert_newest kept []
      in if 0 < limit \<and> int (length sorted_ops) > limit then take (nat limit) sorted_ops else sorted_ops)"

definition eventsAfter :: "event list \<Rightarrow> 64 word \<Rightarrow> event list" where
  "eventsAfter events sq = filter (\<lambda>e. sq < ev_seq e) events"

definition firstSequence :: "event list \<Rightarrow> 64 word" where
  "firstSequence events = (case events of [] \<Rightarrow> 1 | e # _ \<Rightarrow> ev_seq e)"

definition unreadable_text :: "64 word \<Rightarrow> string" where
  "unreadable_text n = ''events 1-'' @ show_nat (unat n) @ '' unavailable (journal unreadable)''"

definition removed_text :: "64 word \<Rightarrow> 64 word \<Rightarrow> string" where
  "removed_text a b =
     ''events '' @ show_nat (unat a) @ ''-'' @ show_nat (unat b) @ '' removed by retention''"

definition replayLocked :: "scan_io \<Rightarrow> string \<Rightarrow> 64 word \<Rightarrow> manager \<Rightarrow> event list \<times> manager" where
  "replayLocked io oid sq m =
     (let window = mgetd [] (mn_events m) oid; first = firstSequence window
      in if window = [] \<or> first - 1 \<le> sq then (eventsAfter window sq, m)
         else
           case loadEvents (mn_readOnly m) oid io (mgetd no_journal (mn_journals m) oid) of
             (res, j) \<Rightarrow>
               (let m1 = m\<lparr>mn_journals := mput oid j (mn_journals m)\<rparr>
                in case res of
                  Some (l # ls) \<Rightarrow>
                    (let loaded = l # ls; lf = firstSequence loaded;
                         marked = (if sq + 1 < lf
                           then gap_event oid (lf - 1) (removed_text (sq + 1) (lf - 1)) # loaded
                           else loaded)
                     in (eventsAfter marked sq, m1))
                | _ \<Rightarrow>
                    (gap_event oid (first - 1) (unreadable_text (first - 1)) # eventsAfter window sq, m1)))"

definition EventsAfter ::
    "scan_io \<Rightarrow> string \<Rightarrow> 64 word \<Rightarrow> manager \<Rightarrow> (manager_error + event list) \<times> manager" where
  "EventsAfter io oid sq m =
     (case mget (mn_operations m) oid of
        None \<Rightarrow> (Inl ErrNotFound, m)
      | Some _ \<Rightarrow> (case replayLocked io oid sq m of (es, m1) \<Rightarrow> (Inr es, m1)))"

text \<open>\<open>Subscribe\<close>: the replay, and whether the channel is closed at once; \<open>c\<close> is the new channel.\<close>

definition Subscribe ::
    "scan_io \<Rightarrow> string \<Rightarrow> 64 word \<Rightarrow> nat \<Rightarrow> manager \<Rightarrow> (manager_error + event list \<times> bool) \<times> manager" where
  "Subscribe io oid sq c m =
     (case mget (mn_operations m) oid of
        None \<Rightarrow> (Inl ErrNotFound, m)
      | Some op \<Rightarrow>
        (case replayLocked io oid sq m of
           (es, m1) \<Rightarrow>
             if terminal (op_status op) then (Inr (es, True), m1)
             else (Inr (es, False),
                   m1\<lparr>mn_subscribers := mput oid (mput c False (mgetd [] (mn_subscribers m1) oid))
                        (mn_subscribers m1)\<rparr>)))"

definition Unsubscribe :: "string \<Rightarrow> nat \<Rightarrow> manager \<Rightarrow> manager" where
  "Unsubscribe oid c m =
     (case mget (mn_subscribers m) oid of None \<Rightarrow> m
      | Some subs \<Rightarrow> m\<lparr>mn_subscribers := mput oid (mdel c subs) (mn_subscribers m)\<rparr>)"

record health =
  hl_degraded :: bool
  hl_record_error :: "time option"
  hl_event_error :: "time option"
  hl_journal_error :: bool
  hl_live :: nat
  hl_read_only :: bool

text \<open>\<open>Health\<close>; \<open>store_ok\<close> is the answer of the store's own check of its directories.\<close>

definition Health :: "bool \<Rightarrow> manager \<Rightarrow> health" where
  "Health store_ok m =
     \<lparr>hl_degraded = (mn_recordErr m \<noteq> None \<or> mn_eventErr m \<noteq> None),
      hl_record_error = mn_recordErr m, hl_event_error = mn_eventErr m,
      hl_journal_error = (\<not> store_ok), hl_live = live_count m, hl_read_only = mn_readOnly m\<rparr>"

end
