(* ===== verification/OpWorker.thy ===== *)
theory OpWorker
  imports OpAdmission
begin

text \<open>
  The target workers of \<open>internal/operation/manager.go\<close>: \<open>runTarget\<close>, \<open>execute\<close> and what they
  call. A worker is one value of \<open>pc\<close>; each function below is the code between two points
  where another goroutine can run. What the outside answers (the resolvers, the executor,
  the receipt reader, the choice of a \<open>select\<close> with two ready cases) is an argument.
\<close>

section \<open>Target identity\<close>

definition userOf :: "server \<Rightarrow> string" where
  "userOf srv = (if sv_user srv = [] then ''root'' else sv_user srv)"

definition retarget_arg :: "string list \<Rightarrow> string \<Rightarrow> string \<Rightarrow> nat \<Rightarrow> string list" where
  "retarget_arg args from' to' i =
     (if args ! i \<noteq> from' then args
      else if (i = 1 \<and> args ! 0 = ''deploy'') \<or> (0 < i \<and> args ! (i - 1) = ''--server'')
      then args[i := to'] else args)"

definition retargetCommand :: "command \<Rightarrow> string \<Rightarrow> string \<Rightarrow> command" where
  "retargetCommand cmd from' to' =
     (if from' = [] \<or> from' = to' then cmd
      else cmd\<lparr>cmd_args := fold (\<lambda>i args. retarget_arg args from' to' i)
             [0..<length (cmd_args cmd)] (cmd_args cmd)\<rparr>)"

text \<open>\<open>resolverByID\<close> answers with presence; \<open>None\<close> is Go's nil function.\<close>

type_synonym resolver_by_id = "(string \<Rightarrow> server option) option"

definition moved :: "server \<Rightarrow> server \<Rightarrow> bool" where
  "moved current admitted \<longleftrightarrow> sv_host current \<noteq> sv_host admitted \<or> userOf current \<noteq> userOf admitted"

definition checkTarget :: "resolver \<Rightarrow> resolver_by_id \<Rightarrow> operation \<Rightarrow> command \<Rightarrow> mismatch + command" where
  "checkTarget resolve byId op cmd =
     (case (op_admitted_server op, resolve) of
        (Some admitted, Some res) \<Rightarrow>
          (case res (rq_server (op_request op)) of
             Inl _ \<Rightarrow>
               (case byId of
                  Some look \<Rightarrow>
                    if sv_id admitted \<noteq> [] then
                      (case look (sv_id admitted) of
                         Some renamed \<Rightarrow>
                           if moved renamed admitted then Inl RenamedAndRepointed
                           else Inr (retargetCommand cmd (rq_server (op_request op)) (sv_name renamed))
                       | None \<Rightarrow> Inl IdVanished)
                    else Inl NameVanished
                | None \<Rightarrow> Inl NameVanished)
           | Inr current \<Rightarrow>
               if sv_id admitted \<noteq> [] \<and> sv_id current = [] then Inl IdDropped
               else if sv_id admitted \<noteq> [] \<and> sv_id current \<noteq> sv_id admitted then Inl IdChanged
               else if moved current admitted then Inl Repointed
               else Inr cmd)
      | _ \<Rightarrow> Inr cmd)"

section \<open>State changes of one operation\<close>

definition cancelReason :: "manager \<Rightarrow> message" where
  "cancelReason m = CancelReason (mn_shuttingDown m)"

definition put_operation :: "operation \<Rightarrow> manager \<Rightarrow> manager" where
  "put_operation op m = m\<lparr>mn_operations := mput (op_id op) op (mn_operations m)\<rparr>"

text \<open>A record write whose failure is noted and does not stop the caller.\<close>

definition save_noting :: "op_io \<Rightarrow> operation \<Rightarrow> manager \<Rightarrow> manager" where
  "save_noting io op m =
     (case saveOperation (oi_save io) op m of
        (True, m1) \<Rightarrow> clearRecordErrLocked m1
      | (False, m1) \<Rightarrow> noteRecordErrLocked (oi_now io) m1)"

definition beginStopping :: "config \<Rightarrow> op_io \<Rightarrow> string \<Rightarrow> manager \<Rightarrow> bool \<times> manager" where
  "beginStopping cfg io oid m =
     (case mget (mn_operations m) oid of
        None \<Rightarrow> (False, m)
      | Some op \<Rightarrow>
          if terminal (op_status op) \<or> op_status op = StatusStopping then (False, m)
          else
            let nxt = op\<lparr>op_status := StatusStopping\<rparr>
            in (True, emit cfg io oid EventStatus (status_text StatusStopping)
                  (put_operation nxt (save_noting io nxt m))))"

datatype run_error = RunOk | RunCancelRequested | RunPersistFailed

definition setRunning :: "config \<Rightarrow> op_io \<Rightarrow> string \<Rightarrow> manager \<Rightarrow> run_error \<times> manager" where
  "setRunning cfg io oid m =
     (case mget (mn_operations m) oid of
        None \<Rightarrow> (RunOk, m)
      | Some op \<Rightarrow>
          if op_status op = StatusCancelRequested then (RunCancelRequested, m)
          else if op_status op \<noteq> StatusQueued then (RunOk, m)
          else
            let nxt = op\<lparr>op_status := StatusRunning, op_started_at := Some (oi_now io)\<rparr>;
                m0 = put_operation nxt m
            in case saveOperation (oi_save io) nxt m0 of
              (False, m1) \<Rightarrow> (RunPersistFailed, noteRecordErrLocked (oi_now io) m1)
            | (True, m1) \<Rightarrow>
                (RunOk, emit cfg io oid EventStatus (status_text StatusRunning) (clearRecordErrLocked m1)))"

definition finishReconciled ::
    "config \<Rightarrow> op_io \<Rightarrow> string \<Rightarrow> status \<Rightarrow> int \<Rightarrow> message \<Rightarrow> reconciliation option \<Rightarrow> manager \<Rightarrow> manager" where
  "finishReconciled cfg io oid st exitCode msg rec m =
     (case mget (mn_operations m) oid of
        None \<Rightarrow> m
      | Some op \<Rightarrow>
          if terminal (op_status op) then m
          else
            let op1 = op\<lparr>op_status := st, op_finished_at := Some (oi_now io), op_error := msg,
                  op_reconciliation := (case rec of None \<Rightarrow> op_reconciliation op | Some r \<Rightarrow> Some r),
                  op_exit_code := (if 0 \<le> exitCode then Some exitCode else op_exit_code op)\<rparr>;
                m1 = (put_operation op1 m)\<lparr>mn_cancels := removeAll oid (mn_cancels m)\<rparr>;
                m2 = emit cfg io oid EventStatus (status_text st) (save_noting io op1 m1);
                m3 = closeSubscribersLocked oid m2
            in CloseJournal oid (m3\<lparr>mn_finished := mn_finished m3 @ [op1]\<rparr>))"

definition finish :: "config \<Rightarrow> op_io \<Rightarrow> string \<Rightarrow> status \<Rightarrow> int \<Rightarrow> message \<Rightarrow> manager \<Rightarrow> manager" where
  "finish cfg io oid st exitCode msg m = finishReconciled cfg io oid st exitCode msg None m"

section \<open>One worker\<close>

definition set_pc :: "string \<Rightarrow> pc \<Rightarrow> manager \<Rightarrow> manager" where
  "set_pc target p m = m\<lparr>mn_workers := mput target p (mn_workers m)\<rparr>"

definition canceled :: "job \<Rightarrow> manager \<Rightarrow> bool" where
  "canceled j m \<longleftrightarrow> jb_id j \<in> set (mn_canceled m)"

text \<open>\<open>runTarget\<close>: the worker pops the next job, or removes its target and returns.\<close>

definition run_pop :: "string \<Rightarrow> manager \<Rightarrow> manager" where
  "run_pop target m =
     (let stop = m\<lparr>mn_targets := mdel target (mn_targets m), mn_workers := mdel target (mn_workers m)\<rparr>
      in case mget (mn_targets m) target of
           None \<Rightarrow> stop
         | Some r \<Rightarrow>
           (case rn_queue r of
              [] \<Rightarrow> stop
            | j # q \<Rightarrow> set_pc target (Popped j)
                (m\<lparr>mn_targets := mput target (r\<lparr>rn_queue := q\<rparr>) (mn_targets m)\<rparr>)))"

definition run_check_context :: "string \<Rightarrow> job \<Rightarrow> manager \<Rightarrow> manager" where
  "run_check_context target j m =
     (if canceled j m then set_pc target (Finishing j StatusCanceled (- 1) (cancelReason m) None False) m
      else set_pc target (Waiting j) m)"

fun holds_slot :: "pc \<Rightarrow> bool" where
  "holds_slot (HasSlot j) = True"
| "holds_slot (Ready j) = True"
| "holds_slot (Executing j) = True"
| "holds_slot (Stopping j ex) = True"
| "holds_slot (Asking j ex) = True"
| "holds_slot (Resolving j ex shut) = True"
| "holds_slot (Finishing j st ex msg rec slot) = slot"
| "holds_slot _ = False"

definition slots_used :: "manager \<Rightarrow> nat" where
  "slots_used m = count_vals holds_slot (mn_workers m)"

text \<open>The \<open>select\<close>: a free slot or a canceled context; \<open>prefer\<close> chooses when both are ready.\<close>

definition run_select :: "config \<Rightarrow> bool \<Rightarrow> string \<Rightarrow> job \<Rightarrow> manager \<Rightarrow> manager" where
  "run_select cfg prefer target j m =
     (let slot = cf_maxConcurrent cfg \<le> 0 \<or> int (slots_used m) < cf_maxConcurrent cfg;
          done_ctx = 0 < cf_maxConcurrent cfg \<and> canceled j m
      in if slot \<and> (prefer \<or> \<not> done_ctx) then set_pc target (HasSlot j) m
         else if done_ctx
         then set_pc target (Finishing j StatusCanceled (- 1) (cancelReason m) None False) m
         else m)"

definition run_check_target ::
    "resolver \<Rightarrow> resolver_by_id \<Rightarrow> string \<Rightarrow> job \<Rightarrow> manager \<Rightarrow> manager" where
  "run_check_target resolve byId target j m =
     (case mget (mn_operations m) (jb_id j) of
        None \<Rightarrow> set_pc target AtQueue m
      | Some op \<Rightarrow>
        (case checkTarget resolve byId op (jb_command j) of
           Inl why \<Rightarrow> set_pc target (Finishing j StatusFailed (- 1) (TargetMismatch why) None True) m
         | Inr cmd \<Rightarrow> set_pc target (Ready (j\<lparr>jb_command := cmd\<rparr>)) m))"

definition with_actor_args :: "config \<Rightarrow> operation option \<Rightarrow> job \<Rightarrow> job" where
  "with_actor_args cfg op j =
     (case (cf_actorArgs cfg, op) of
        (Some f, Some op') \<Rightarrow>
          j\<lparr>jb_command := (jb_command j)\<lparr>cmd_args := cmd_args (jb_command j) @ f op'\<rparr>\<rparr>
      | _ \<Rightarrow> j)"

definition run_start :: "config \<Rightarrow> op_io \<Rightarrow> string \<Rightarrow> job \<Rightarrow> manager \<Rightarrow> manager" where
  "run_start cfg io target j m =
     (case setRunning cfg io (jb_id j) m of
        (RunOk, m1) \<Rightarrow>
          set_pc target (Executing (with_actor_args cfg (mget (mn_operations m1) (jb_id j)) j)) m1
      | (RunCancelRequested, m1) \<Rightarrow>
          set_pc target (Finishing j StatusCanceled (- 1) OperationCanceled None True) m1
      | (RunPersistFailed, m1) \<Rightarrow>
          set_pc target (Finishing j StatusFailed (- 1) PersistRunningFailed None True) m1)"

text \<open>The executor's \<open>emit\<close> callback: output is redacted before it is recorded.\<close>

definition run_output :: "config \<Rightarrow> op_io \<Rightarrow> job \<Rightarrow> stream \<Rightarrow> string \<Rightarrow> manager \<Rightarrow> manager" where
  "run_output cfg io j st txt m =
     emit cfg io (jb_id j) (case st of StreamStdout \<Rightarrow> EventStdout | StreamStderr \<Rightarrow> EventStderr)
       (Redact txt (cmd_secrets (jb_command j))) m"

definition run_return :: "int \<Rightarrow> string option \<Rightarrow> string \<Rightarrow> job \<Rightarrow> manager \<Rightarrow> manager" where
  "run_return exitCode err target j m =
     (if canceled j m then set_pc target (Stopping j exitCode) m
      else if err \<noteq> None \<or> exitCode \<noteq> 0 then
        set_pc target (Finishing j StatusFailed exitCode
          (case err of None \<Rightarrow> OperationFailed
           | Some e \<Rightarrow> ExecutorError (Redact e (cmd_secrets (jb_command j)))) None True) m
      else set_pc target (Finishing j StatusSucceeded exitCode NoMessage None True) m)"

text \<open>\<open>resolveCancellation\<close>, in its three parts.\<close>

definition run_begin_stopping :: "config \<Rightarrow> op_io \<Rightarrow> string \<Rightarrow> job \<Rightarrow> int \<Rightarrow> manager \<Rightarrow> manager" where
  "run_begin_stopping cfg io target j exitCode m =
     (case beginStopping cfg io (jb_id j) m of
        (False, m1) \<Rightarrow> set_pc target AtQueue m1
      | (True, m1) \<Rightarrow> set_pc target (Asking j exitCode) m1)"

definition run_read_flag :: "string \<Rightarrow> job \<Rightarrow> int \<Rightarrow> manager \<Rightarrow> manager" where
  "run_read_flag target j exitCode m = set_pc target (Resolving j exitCode (mn_shuttingDown m)) m"

definition readReceipt :: "bool \<Rightarrow> (string + receipt) \<Rightarrow> string + receipt" where
  "readReceipt reader answer = (if reader then answer else Inl ''no receipt reader configured'')"

definition resolution ::
    "bool \<Rightarrow> time \<Rightarrow> (string + receipt) \<Rightarrow> status \<times> message \<times> reconciliation" where
  "resolution shut now answer =
     (case answer of
        Inl why \<Rightarrow> (StatusCanceled, CancelUnverified shut why,
          \<lparr>rec_state = ReconcileStateManual, rec_reason = why, rec_evidence = [], rec_checked_at = now\<rparr>)
      | Inr r \<Rightarrow>
          if rc_applied r then (StatusAlreadyCommitted, CancelTooLate shut,
            \<lparr>rec_state = ReconcileStateApplied, rec_reason = [], rec_evidence = rc_evidence r,
             rec_checked_at = now\<rparr>)
          else (StatusCanceled, CancelConfirmed shut,
            \<lparr>rec_state = ReconcileStateNotApplied, rec_reason = [], rec_evidence = rc_evidence r,
             rec_checked_at = now\<rparr>))"

definition run_resolve ::
    "config \<Rightarrow> time \<Rightarrow> (string + receipt) \<Rightarrow> string \<Rightarrow> job \<Rightarrow> int \<Rightarrow> bool \<Rightarrow> manager \<Rightarrow> manager" where
  "run_resolve cfg now answer target j exitCode shut m =
     (case resolution shut now
         (if shut then Inl ''receipt check skipped: dashboard shutting down''
          else readReceipt (cf_reader cfg) answer) of
        (st, msg, rec) \<Rightarrow> set_pc target (Finishing j st exitCode msg (Some rec) True) m)"

definition run_finish ::
    "config \<Rightarrow> op_io \<Rightarrow> string \<Rightarrow> job \<Rightarrow> status \<Rightarrow> int \<Rightarrow> message \<Rightarrow> reconciliation option \<Rightarrow> manager \<Rightarrow> manager" where
  "run_finish cfg io target j st exitCode msg rec m =
     set_pc target AtQueue (finishReconciled cfg io (jb_id j) st exitCode msg rec m)"

end
