(* ===== verification/OpService.thy ===== *)
theory OpService
  imports OpWorker "HOL-Library.Product_Lexorder"
begin

text \<open>
  The life of the operation service (\<open>internal/operation/manager.go\<close> and the record half of
  \<open>store.go\<close>): \<open>New\<close> with the restore of the records and \<open>recover\<close>, the reconciliation of
  interrupted operations, retention, shutdown, and the transition system of the whole
  manager: one \<open>action\<close> per critical section, with everything the environment decides in
  its arguments.
\<close>

section \<open>Retention\<close>

text \<open>What removing the record file and the journal file of an operation came to.\<close>

type_synonym delete_io = "string \<Rightarrow> bool \<times> bool"

definition deleteOperation :: "delete_io \<Rightarrow> string \<Rightarrow> manager \<Rightarrow> bool \<times> manager" where
  "deleteOperation io oid m =
     (case io oid of (rec_ok, jour_ok) \<Rightarrow>
        (rec_ok \<and> jour_ok,
         m\<lparr>mn_records := (if rec_ok then mdel oid (mn_records m) else mn_records m),
           mn_journals := mput oid (discardJournal jour_ok (mgetd no_journal (mn_journals m) oid))
             (mn_journals m)\<rparr>))"

fun sweep_age :: "delete_io \<Rightarrow> time \<Rightarrow> duration \<Rightarrow> operation list \<Rightarrow> manager \<Rightarrow> string list \<times> manager" where
  "sweep_age io now maxAge [] m = ([], m)"
| "sweep_age io now maxAge (r # rs) m =
     (if terminal (op_status r) \<and> 0 < maxAge \<and> maxAge < time_sub now (op_created_at r) then
        (case deleteOperation io (op_id r) m of
           (ok, m1) \<Rightarrow> (case sweep_age io now maxAge rs m1 of
             (removed, m2) \<Rightarrow> (if ok then op_id r # removed else removed, m2)))
      else sweep_age io now maxAge rs m)"

fun sweep_count ::
    "delete_io \<Rightarrow> int \<Rightarrow> string list \<Rightarrow> int \<Rightarrow> operation list \<Rightarrow> manager \<Rightarrow> string list \<times> manager" where
  "sweep_count io maxCount gone remaining [] m = ([], m)"
| "sweep_count io maxCount gone remaining (r # rs) m =
     (if remaining \<le> maxCount then ([], m)
      else if op_id r \<in> set gone then sweep_count io maxCount gone remaining rs m
      else (case deleteOperation io (op_id r) m of
        (ok, m1) \<Rightarrow> (case sweep_count io maxCount gone (if ok then remaining - 1 else remaining) rs m1 of
          (removed, m2) \<Rightarrow> (if ok then op_id r # removed else removed, m2))))"

definition sweepRetention ::
    "delete_io \<Rightarrow> time \<Rightarrow> duration \<Rightarrow> int \<Rightarrow> manager \<Rightarrow> string list \<times> manager" where
  "sweepRetention io now maxAge maxCount m =
     (let records = map (st_operation \<circ> snd) (mn_records m)
      in case sweep_age io now maxAge records m of
           (removed, m1) \<Rightarrow>
             (if 0 < maxCount then
                (case sweep_count io maxCount removed (int (length records) - int (length removed))
                    (sort_key (\<lambda>r. (op_created_at r, op_id r))
                      (filter (\<lambda>r. terminal (op_status r)) records)) m1 of
                   (extra, m2) \<Rightarrow> (removed @ extra, m2))
              else (removed, m1)))"

text \<open>
  \<open>retire\<close> in its two parts: the sweep of the disk, under \<open>retireMu\<close> only, and the removal from
  memory under the manager's mutex.
\<close>

definition retire_sweep :: "config \<Rightarrow> delete_io \<Rightarrow> time \<Rightarrow> manager \<Rightarrow> manager" where
  "retire_sweep cfg io now m =
     (if mn_readOnly m \<or> mn_retiring m \<noteq> None then m
      else
        let over = 0 < cf_maxOperations cfg \<and> cf_maxOperations cfg < int (length (mn_operations m))
        in if \<not> over \<and> \<not> after_time now (mn_lastSweep m + hour) then m
           else
             (case sweepRetention io now (cf_maxHistoryAge cfg) (cf_maxOperations cfg)
                  (m\<lparr>mn_lastSweep := now\<rparr>) of
                (removed, m1) \<Rightarrow> (if removed = [] then m1 else m1\<lparr>mn_retiring := Some removed\<rparr>)))"

definition forget :: "string \<Rightarrow> manager \<Rightarrow> manager" where
  "forget oid m =
     (case mget (mn_operations m) oid of
        None \<Rightarrow> m
      | Some op \<Rightarrow>
          if \<not> terminal (op_status op) then m
          else m\<lparr>mn_operations := mdel oid (mn_operations m),
                 mn_events := mdel oid (mn_events m),
                 mn_idempotency := (if op_idem_key op = [] then mn_idempotency m
                   else mdel (op_idem_principal op, op_idem_key op) (mn_idempotency m))\<rparr>)"

definition key_live :: "config \<Rightarrow> time \<Rightarrow> manager \<Rightarrow> idem_key \<times> string \<Rightarrow> bool" where
  "key_live cfg now m b =
     (case mget (mn_operations m) (snd b) of
        None \<Rightarrow> False | Some op \<Rightarrow> idempotencyLive cfg (op_created_at op) now)"

definition retire_forget :: "config \<Rightarrow> time \<Rightarrow> manager \<Rightarrow> manager" where
  "retire_forget cfg now m =
     (case mn_retiring m of
        None \<Rightarrow> m
      | Some removed \<Rightarrow>
          (let m1 = fold forget removed m
           in m1\<lparr>mn_idempotency := filter (key_live cfg now m1) (mn_idempotency m1),
                 mn_retiring := None\<rparr>))"

section \<open>Start\<close>

text \<open>A record file: unreadable or undecodable, or a record with its version; the key is its name.\<close>

type_synonym disk = "(string, stored option) gomap \<times> (string, journal) gomap"

definition operationIDPattern :: "string \<Rightarrow> bool" where
  "operationIDPattern s \<longleftrightarrow> length s = 32 \<and> list_all is_hex s"

fun loadOperations :: "(string, stored option) gomap \<Rightarrow> ((string, stored) gomap \<times> string list) option" where
  "loadOperations [] = Some ([], [])"
| "loadOperations ((name, None) # fs) = None"
| "loadOperations ((name, Some s) # fs) =
     (if \<not> operationIDPattern (op_id (st_operation s)) \<or> op_id (st_operation s) \<noteq> name then None
      else case loadOperations fs of
        None \<Rightarrow> None
      | Some (ops, future) \<Rightarrow>
          Some ((name, s) # ops, if currentRecordVersion < st_version s then name # future else future))"

definition fill_mode :: "operation \<Rightarrow> operation" where
  "fill_mode op =
     (if op_mode op \<noteq> [] then op
      else if rq_mode (op_request op) \<noteq> [] then op\<lparr>op_mode := rq_mode (op_request op)\<rparr>
      else if rq_kind (op_request op) = KindDeploy then op\<lparr>op_mode := ''ad-hoc''\<rparr>
      else op)"

definition empty_manager :: "bool \<Rightarrow> time \<Rightarrow> manager" where
  "empty_manager ro now =
     \<lparr>mn_operations = [], mn_events = [], mn_idempotency = [], mn_cancels = [], mn_canceled = [],
      mn_targets = [], mn_workers = [], mn_subscribers = [], mn_admissionSeq = 0,
      mn_admissionClosed = False, mn_shuttingDown = False, mn_recordErr = None, mn_eventErr = None,
      mn_droppedEvents = [], mn_readOnly = ro, mn_lastSweep = now, mn_retiring = None,
      mn_finished = [], mn_records = [], mn_journals = []\<rparr>"

text \<open>One round of the restore loop.\<close>

definition restore_one :: "config \<Rightarrow> (string \<Rightarrow> scan_io) \<Rightarrow> time \<Rightarrow> operation \<Rightarrow> manager \<Rightarrow> manager" where
  "restore_one cfg io now op0 m =
     (let op = fill_mode op0; oid = op_id op
      in case loadEvents (mn_readOnly m) oid (io oid) (mgetd no_journal (mn_journals m) oid) of
           (res, j) \<Rightarrow>
             m\<lparr>mn_operations := mput oid op (mn_operations m),
               mn_events := mput oid
                 (last_n (cf_maxEvents cfg) (case res of None \<Rightarrow> [] | Some es \<Rightarrow> es)) (mn_events m),
               mn_journals := mput oid j (mn_journals m),
               mn_admissionSeq := max (op_admission_seq op) (mn_admissionSeq m),
               mn_idempotency :=
                 (if op_idem_key op \<noteq> [] \<and> idempotencyLive cfg (op_created_at op) now
                  then mput (op_idem_principal op, op_idem_key op) oid (mn_idempotency m)
                  else mn_idempotency m)\<rparr>)"

text \<open>
  \<open>recover\<close> on one operation: \<open>None\<close> when its record cannot be written. \<open>recover_mark\<close> is what the
  two branches that change the record have in common.
\<close>

definition recover_mark :: "config \<Rightarrow> op_io \<Rightarrow> operation \<Rightarrow> manager \<Rightarrow> manager option" where
  "recover_mark cfg io op m =
     (case saveOperation (oi_save io) op (put_operation op m) of
        (False, _) \<Rightarrow> None
      | (True, m1) \<Rightarrow>
          (case appendEventLocked cfg io (op_id op) EventStatus (status_text (op_status op)) m1 of
             (ok, m2) \<Rightarrow> Some (CloseJournal (op_id op)
               (if ok then m2 else noteEventErrLocked (oi_now io) m2))))"

definition recover_one ::
    "config \<Rightarrow> (string \<Rightarrow> op_io) \<Rightarrow> string \<Rightarrow> string list \<times> manager \<Rightarrow> (string list \<times> manager) option" where
  "recover_one cfg io oid pm =
     (case pm of (pending, m) \<Rightarrow>
       (case mget (mn_operations m) oid of
          None \<Rightarrow> Some (pending, m)
        | Some op \<Rightarrow>
          let now = oi_now (io oid)
          in if op_status op \<in> {StatusQueued, StatusRunning, StatusStopping} then
               (let op1 = op\<lparr>op_status := StatusInterrupted, op_error := InterruptedUnknown,
                      op_finished_at := Some now\<rparr>
                in if \<not> cf_reader cfg then
                     map_option (\<lambda>m1. (pending, m1)) (recover_mark cfg (io oid)
                       (op1\<lparr>op_reconciliation := Some \<lparr>rec_state = ReconcileStateManual,
                          rec_reason = ''no receipt reader configured; verify the server state manually'',
                          rec_evidence = [], rec_checked_at = 0\<rparr>\<rparr>) m)
                   else
                     map_option (\<lambda>m1. (pending @ [oid], m1)) (recover_mark cfg (io oid)
                       (op1\<lparr>op_reconciliation := Some \<lparr>rec_state = ReconcileStateReconciling,
                          rec_reason = [], rec_evidence = [], rec_checked_at = 0\<rparr>\<rparr>) m))
             else if op_status op = StatusCancelRequested then
               map_option (\<lambda>m1. (pending, m1)) (recover_mark cfg (io oid)
                 (op\<lparr>op_status := StatusCanceled, op_error := CanceledBeforeRestart,
                    op_finished_at := Some now\<rparr>) m)
             else if cf_reader cfg \<and> is_reconciling op then Some (pending @ [oid], m)
             else Some (pending, m)))"

fun recover_all ::
    "config \<Rightarrow> (string \<Rightarrow> op_io) \<Rightarrow> string list \<Rightarrow> string list \<times> manager \<Rightarrow> (string list \<times> manager) option" where
  "recover_all cfg io [] pm = Some pm"
| "recover_all cfg io (oid # ids) pm =
     (case recover_one cfg io oid pm of None \<Rightarrow> None | Some pm1 \<Rightarrow> recover_all cfg io ids pm1)"

record start_io =
  so_now :: time
  so_delete :: delete_io
  so_scan :: "string \<Rightarrow> scan_io"
  so_recover :: "string \<Rightarrow> op_io"

text \<open>
  \<open>New\<close> on a data directory: the operations still to reconcile and the manager, or \<open>None\<close> when
  the service does not start. \<open>cfg\<close> has its defaults filled in.
\<close>

definition New :: "config \<Rightarrow> start_io \<Rightarrow> disk \<Rightarrow> (string list \<times> manager) option" where
  "New cfg io d =
     (case loadOperations (fst d) of
        None \<Rightarrow> None
      | Some (recs, future) \<Rightarrow>
          (let m0 = (empty_manager (future \<noteq> []) (so_now io))
                 \<lparr>mn_records := recs, mn_journals := snd d\<rparr>;
               m1 = (if future = []
                     then snd (sweepRetention (so_delete io) (so_now io) (cf_maxHistoryAge cfg)
                       (cf_maxOperations cfg) m0)
                     else m0);
               m2 = fold (restore_one cfg (so_scan io) (so_now io))
                      (map (st_operation \<circ> snd) (mn_records m1)) m1
           in if mn_readOnly m2 then Some ([], m2)
              else recover_all cfg (so_recover io) (map fst (mn_operations m2)) ([], m2)))"

text \<open>What a crash leaves: the files.\<close>

definition disk_of :: "manager \<Rightarrow> disk" where
  "disk_of m = (map (\<lambda>(n, s). (n, Some s)) (mn_records m),
     map (\<lambda>(n, j). (n, closeJournalLocked j)) (mn_journals m))"

section \<open>Reconciliation\<close>

definition reconcile_answer :: "time \<Rightarrow> (string + receipt) \<Rightarrow> reconciliation" where
  "reconcile_answer now answer =
     (case answer of
        Inl why \<Rightarrow> \<lparr>rec_state = ReconcileStateManual, rec_reason = why, rec_evidence = [],
          rec_checked_at = now\<rparr>
      | Inr r \<Rightarrow> \<lparr>rec_state = (if rc_applied r then ReconcileStateApplied else ReconcileStateNotApplied),
          rec_reason = [], rec_evidence = rc_evidence r, rec_checked_at = now\<rparr>)"

text \<open>
  \<open>reconcileOne\<close> once the receipt is read: \<open>ctx_done\<close> says that the shutdown canceled the read.
  The code looks at the operation before the read as well; what it finds there is
  checked again here.
\<close>

definition reconcileOne ::
    "config \<Rightarrow> op_io \<Rightarrow> bool \<Rightarrow> (string + receipt) \<Rightarrow> string \<Rightarrow> manager \<Rightarrow> manager" where
  "reconcileOne cfg io ctx_done answer oid m =
     (if ctx_done then m
      else case mget (mn_operations m) oid of
        None \<Rightarrow> m
      | Some op \<Rightarrow>
          if \<not> is_reconciling op then m
          else
            let rec = reconcile_answer (oi_now io) (readReceipt (cf_reader cfg) answer);
                nxt = op\<lparr>op_reconciliation := Some rec\<rparr>
            in case saveOperation (oi_save io) nxt m of
              (False, m1) \<Rightarrow> noteRecordErrLocked (oi_now io) m1
            | (True, m1) \<Rightarrow>
                CloseJournal oid (emit cfg io oid EventStatus (reconcile_text (rec_state rec))
                  (put_operation nxt (clearRecordErrLocked m1))))"

section \<open>Shutdown\<close>

text \<open>The two critical sections of \<open>Shutdown\<close>: sealing admission, and the force-cancel.\<close>

definition shutdown_seal :: "manager \<Rightarrow> manager" where
  "shutdown_seal m = m\<lparr>mn_admissionClosed := True\<rparr>"

definition shutdown_force :: "manager \<Rightarrow> manager" where
  "shutdown_force m =
     m\<lparr>mn_shuttingDown := True, mn_canceled := mn_cancels m @ mn_canceled m\<rparr>"

section \<open>The transition system\<close>

text \<open>
  One action per critical section. \<open>Enqueue\<close> and \<open>Retry\<close> are two actions each, because other
  goroutines run while \<open>Build\<close> does; a worker's action names its target and is a step only
  where the worker stands at that point.
\<close>

datatype action =
  DoLookup request string "actor option" time
| DoAdmit request string string int "actor option" built admit_io
| DoCancel op_io string
| DoPop string
| DoCheckContext string
| DoSelect string bool
| DoCheckTarget string resolver resolver_by_id
| DoStart string op_io
| DoOutput string op_io stream string
| DoReturn string int "string option"
| DoBeginStopping string op_io
| DoReadFlag string
| DoResolve string time "string + receipt"
| DoFinish string op_io
| DoReconcile op_io bool "string + receipt" string
| DoSweep delete_io time
| DoForget time
| DoReplay scan_io string "64 word"
| DoSubscribe scan_io string "64 word" nat
| DoUnsubscribe string nat
| DoSeal
| DoForce

definition worker_step :: "string \<Rightarrow> manager \<Rightarrow> (pc \<Rightarrow> manager) \<Rightarrow> manager" where
  "worker_step target m f = (case mget (mn_workers m) target of None \<Rightarrow> m | Some p \<Rightarrow> f p)"

fun perform :: "config \<Rightarrow> action \<Rightarrow> manager \<Rightarrow> manager" where
  "perform cfg (DoLookup req key act now) m = snd (enqueue_lookup cfg req key act now m)"
| "perform cfg (DoAdmit req key retryOf attempt act bld io) m =
     (if mn_readOnly m \<or> \<not> validKey key then m
      else snd (enqueue_admit cfg req key retryOf attempt act bld io m))"
| "perform cfg (DoCancel io oid) m = snd (Cancel cfg io oid m)"
| "perform cfg (DoPop t) m =
     worker_step t m (\<lambda>p. case p of AtQueue \<Rightarrow> run_pop t m | _ \<Rightarrow> m)"
| "perform cfg (DoCheckContext t) m =
     worker_step t m (\<lambda>p. case p of Popped j \<Rightarrow> run_check_context t j m | _ \<Rightarrow> m)"
| "perform cfg (DoSelect t prefer) m =
     worker_step t m (\<lambda>p. case p of Waiting j \<Rightarrow> run_select cfg prefer t j m | _ \<Rightarrow> m)"
| "perform cfg (DoCheckTarget t res byId) m =
     worker_step t m (\<lambda>p. case p of HasSlot j \<Rightarrow> run_check_target res byId t j m | _ \<Rightarrow> m)"
| "perform cfg (DoStart t io) m =
     worker_step t m (\<lambda>p. case p of Ready j \<Rightarrow> run_start cfg io t j m | _ \<Rightarrow> m)"
| "perform cfg (DoOutput t io st txt) m =
     worker_step t m (\<lambda>p. case p of Executing j \<Rightarrow> run_output cfg io j st txt m | _ \<Rightarrow> m)"
| "perform cfg (DoReturn t ex err) m =
     worker_step t m (\<lambda>p. case p of Executing j \<Rightarrow> run_return ex err t j m | _ \<Rightarrow> m)"
| "perform cfg (DoBeginStopping t io) m =
     worker_step t m (\<lambda>p. case p of Stopping j ex \<Rightarrow> run_begin_stopping cfg io t j ex m | _ \<Rightarrow> m)"
| "perform cfg (DoReadFlag t) m =
     worker_step t m (\<lambda>p. case p of Asking j ex \<Rightarrow> run_read_flag t j ex m | _ \<Rightarrow> m)"
| "perform cfg (DoResolve t now answer) m =
     worker_step t m (\<lambda>p. case p of Resolving j ex shut \<Rightarrow> run_resolve cfg now answer t j ex shut m | _ \<Rightarrow> m)"
| "perform cfg (DoFinish t io) m =
     worker_step t m (\<lambda>p. case p of
        Finishing j st ex msg rec slot \<Rightarrow> run_finish cfg io t j st ex msg rec m | _ \<Rightarrow> m)"
| "perform cfg (DoReconcile io ctx_done answer oid) m = reconcileOne cfg io ctx_done answer oid m"
| "perform cfg (DoSweep io now) m = retire_sweep cfg io now m"
| "perform cfg (DoForget now) m = retire_forget cfg now m"
| "perform cfg (DoReplay io oid sq) m = snd (EventsAfter io oid sq m)"
| "perform cfg (DoSubscribe io oid sq c) m = snd (Subscribe io oid sq c m)"
| "perform cfg (DoUnsubscribe oid c) m = Unsubscribe oid c m"
| "perform cfg DoSeal m = shutdown_seal m"
| "perform cfg DoForce m = shutdown_force m"

end
