(* ===== verification/OpFrame.thy ===== *)
theory OpFrame
  imports OpService
begin

text \<open>
  What the storage and event calls of the manager leave alone, collected in \<open>op_frame\<close>, and
  the accounting of lost events.
\<close>

named_theorems op_frame \<open>fields an event or storage call leaves unchanged\<close>

lemma save_frame [op_frame]:
  "mn_operations (snd (saveOperation sv op m)) = mn_operations m"
  "mn_events (snd (saveOperation sv op m)) = mn_events m"
  "mn_idempotency (snd (saveOperation sv op m)) = mn_idempotency m"
  "mn_cancels (snd (saveOperation sv op m)) = mn_cancels m"
  "mn_canceled (snd (saveOperation sv op m)) = mn_canceled m"
  "mn_targets (snd (saveOperation sv op m)) = mn_targets m"
  "mn_workers (snd (saveOperation sv op m)) = mn_workers m"
  "mn_admissionClosed (snd (saveOperation sv op m)) = mn_admissionClosed m"
  "mn_shuttingDown (snd (saveOperation sv op m)) = mn_shuttingDown m"
  "mn_readOnly (snd (saveOperation sv op m)) = mn_readOnly m"
  "mn_finished (snd (saveOperation sv op m)) = mn_finished m"
  "mn_retiring (snd (saveOperation sv op m)) = mn_retiring m"
  "mn_journals (snd (saveOperation sv op m)) = mn_journals m"
  "mn_droppedEvents (snd (saveOperation sv op m)) = mn_droppedEvents m"
  "mn_subscribers (snd (saveOperation sv op m)) = mn_subscribers m"
  by (cases sv; simp add: saveOperation_def Let_def)+

lemma save_fst [simp]: "fst (saveOperation sv op m) \<longleftrightarrow> sv = SaveOk"
  by (cases sv) (simp_all add: saveOperation_def Let_def)

lemma save_ok [simp]:
  "saveOperation SaveOk op m = (True, m\<lparr>mn_records := mput (op_id op)
     \<lparr>st_operation = op, st_version = currentRecordVersion\<rparr> (mn_records m)\<rparr>)"
  by (simp add: saveOperation_def)

lemma save_pair: "saveOperation sv op m = (sv = SaveOk, snd (saveOperation sv op m))"
  by (simp add: prod_eq_iff)

text \<open>A record write that does not succeed changed the records, if at all, to the new record.\<close>

lemma save_records:
  "mn_records (snd (saveOperation sv op m)) =
   (if sv = SaveFail then mn_records m
    else mput (op_id op) \<lparr>st_operation = op, st_version = currentRecordVersion\<rparr> (mn_records m))"
  by (cases sv) (simp_all add: saveOperation_def Let_def)

lemma CloseJournal_frame [op_frame]:
  "mn_operations (CloseJournal oid m) = mn_operations m"
  "mn_events (CloseJournal oid m) = mn_events m"
  "mn_idempotency (CloseJournal oid m) = mn_idempotency m"
  "mn_cancels (CloseJournal oid m) = mn_cancels m"
  "mn_canceled (CloseJournal oid m) = mn_canceled m"
  "mn_targets (CloseJournal oid m) = mn_targets m"
  "mn_workers (CloseJournal oid m) = mn_workers m"
  "mn_admissionClosed (CloseJournal oid m) = mn_admissionClosed m"
  "mn_shuttingDown (CloseJournal oid m) = mn_shuttingDown m"
  "mn_readOnly (CloseJournal oid m) = mn_readOnly m"
  "mn_finished (CloseJournal oid m) = mn_finished m"
  "mn_retiring (CloseJournal oid m) = mn_retiring m"
  "mn_records (CloseJournal oid m) = mn_records m"
  by (simp_all add: CloseJournal_def split: option.splits)

lemma err_frame [op_frame]:
  "mn_operations (noteRecordErrLocked t m) = mn_operations m" "mn_operations (clearRecordErrLocked m) = mn_operations m"
  "mn_idempotency (noteRecordErrLocked t m) = mn_idempotency m" "mn_idempotency (clearRecordErrLocked m) = mn_idempotency m"
  "mn_cancels (noteRecordErrLocked t m) = mn_cancels m" "mn_cancels (clearRecordErrLocked m) = mn_cancels m"
  "mn_canceled (noteRecordErrLocked t m) = mn_canceled m" "mn_canceled (clearRecordErrLocked m) = mn_canceled m"
  "mn_targets (noteRecordErrLocked t m) = mn_targets m" "mn_targets (clearRecordErrLocked m) = mn_targets m"
  "mn_workers (noteRecordErrLocked t m) = mn_workers m" "mn_workers (clearRecordErrLocked m) = mn_workers m"
  "mn_readOnly (noteRecordErrLocked t m) = mn_readOnly m" "mn_readOnly (clearRecordErrLocked m) = mn_readOnly m"
  "mn_finished (noteRecordErrLocked t m) = mn_finished m" "mn_finished (clearRecordErrLocked m) = mn_finished m"
  "mn_records (noteRecordErrLocked t m) = mn_records m" "mn_records (clearRecordErrLocked m) = mn_records m"
  "mn_shuttingDown (noteRecordErrLocked t m) = mn_shuttingDown m" "mn_shuttingDown (clearRecordErrLocked m) = mn_shuttingDown m"
  "mn_events (noteRecordErrLocked t m) = mn_events m" "mn_events (clearRecordErrLocked m) = mn_events m"
  by (simp_all add: noteRecordErrLocked_def clearRecordErrLocked_def)

lemma event_err_frame [op_frame]:
  "mn_operations (noteEventErrLocked t m) = mn_operations m" "mn_operations (clearEventErrLocked m) = mn_operations m"
  "mn_idempotency (noteEventErrLocked t m) = mn_idempotency m" "mn_idempotency (clearEventErrLocked m) = mn_idempotency m"
  "mn_cancels (noteEventErrLocked t m) = mn_cancels m" "mn_cancels (clearEventErrLocked m) = mn_cancels m"
  "mn_canceled (noteEventErrLocked t m) = mn_canceled m" "mn_canceled (clearEventErrLocked m) = mn_canceled m"
  "mn_targets (noteEventErrLocked t m) = mn_targets m" "mn_targets (clearEventErrLocked m) = mn_targets m"
  "mn_workers (noteEventErrLocked t m) = mn_workers m" "mn_workers (clearEventErrLocked m) = mn_workers m"
  "mn_readOnly (noteEventErrLocked t m) = mn_readOnly m" "mn_readOnly (clearEventErrLocked m) = mn_readOnly m"
  "mn_finished (noteEventErrLocked t m) = mn_finished m" "mn_finished (clearEventErrLocked m) = mn_finished m"
  "mn_records (noteEventErrLocked t m) = mn_records m" "mn_records (clearEventErrLocked m) = mn_records m"
  "mn_shuttingDown (noteEventErrLocked t m) = mn_shuttingDown m" "mn_shuttingDown (clearEventErrLocked m) = mn_shuttingDown m"
  by (simp_all add: noteEventErrLocked_def clearEventErrLocked_def)

text \<open>An append touches the journals, the windows, the drop counts, the subscribers and the error mark.\<close>

definition event_only :: "manager \<Rightarrow> manager \<Rightarrow> bool" where
  "event_only m m' \<longleftrightarrow>
     mn_operations m' = mn_operations m \<and> mn_idempotency m' = mn_idempotency m \<and>
     mn_cancels m' = mn_cancels m \<and> mn_canceled m' = mn_canceled m \<and>
     mn_targets m' = mn_targets m \<and> mn_workers m' = mn_workers m \<and>
     mn_admissionSeq m' = mn_admissionSeq m \<and> mn_admissionClosed m' = mn_admissionClosed m \<and>
     mn_shuttingDown m' = mn_shuttingDown m \<and> mn_recordErr m' = mn_recordErr m \<and>
     mn_readOnly m' = mn_readOnly m \<and> mn_lastSweep m' = mn_lastSweep m \<and>
     mn_retiring m' = mn_retiring m \<and> mn_finished m' = mn_finished m \<and>
     mn_records m' = mn_records m"

lemma event_only_refl [simp]: "event_only m m"
  by (simp add: event_only_def)

lemma event_only_trans: "event_only m1 m2 \<Longrightarrow> event_only m2 m3 \<Longrightarrow> event_only m1 m3"
  by (simp add: event_only_def)

lemma store_append_only: "event_only m (snd (store_append cfg io oid e m))"
  by (simp add: store_append_def event_only_def split: prod.split)

lemma wake_only: "event_only m (wake oid m)"
  by (simp add: wake_def event_only_def split: option.split)

lemma appendOne_only: "event_only m (snd (appendOneEventLocked cfg io now oid ty txt m))"
proof -
  obtain ok m1 where s: "store_append cfg io oid
      \<lparr>ev_seq = next_sequence (mgetd [] (mn_events m) oid), ev_op = oid, ev_type = ty,
       ev_data = boundedEventData txt, ev_at = now\<rparr> m = (ok, m1)" (is "store_append _ _ _ ?e _ = _")
    by (cases "store_append cfg io oid ?e m") auto
  have only: "event_only m m1"
    using store_append_only [of m cfg io oid ?e] s by simp
  show ?thesis
  proof (cases ok)
    case True
    with s only show ?thesis
      by (intro event_only_trans [OF only])
        (simp add: appendOneEventLocked_def Let_def event_only_def wake_def clearEventErrLocked_def
          split: option.split)
  next
    case False
    with s only show ?thesis
      by (intro event_only_trans [OF only])
        (simp add: appendOneEventLocked_def Let_def event_only_def noteEventErrLocked_def)
  qed
qed

lemma appendEvent_only: "event_only m (snd (appendEventLocked cfg io oid ty txt m))"
proof -
  let ?lost = "mgetd 0 (mn_droppedEvents m) oid"
  let ?m0 = "m\<lparr>mn_droppedEvents := mdel oid (mn_droppedEvents m)\<rparr>"
  obtain ok m1 where a: "appendOneEventLocked cfg (oi_marker io) (oi_now io) oid EventGap (lost_text ?lost) ?m0 = (ok, m1)"
    by fastforce
  have "event_only m ?m0" by (simp add: event_only_def)
  moreover have "event_only ?m0 m1"
    using appendOne_only [of ?m0 cfg "oi_marker io" "oi_now io" oid EventGap "lost_text ?lost"] a by simp
  ultimately have first: "event_only m m1" by (rule event_only_trans)
  have drop: "event_only x (x\<lparr>mn_droppedEvents := d\<rparr>)" for x d
    by (simp add: event_only_def)
  have second: "event_only x (snd (appendOneEventLocked cfg (oi_event io) (oi_now io) oid ty txt x))" for x
    by (rule appendOne_only)
  show ?thesis
  proof (cases "0 < ?lost")
    case True
    with a first show ?thesis
      by (cases ok) (simp_all add: appendEventLocked_def Let_def event_only_trans [OF first drop]
          event_only_trans [OF first second])
  qed (simp add: appendEventLocked_def Let_def second)
qed

lemma emit_only: "event_only m (emit cfg io oid ty txt m)"
  using appendEvent_only by (simp add: emit_def)

lemma emit_frame [op_frame]:
  "mn_operations (emit cfg io oid ty txt m) = mn_operations m"
  "mn_idempotency (emit cfg io oid ty txt m) = mn_idempotency m"
  "mn_cancels (emit cfg io oid ty txt m) = mn_cancels m"
  "mn_canceled (emit cfg io oid ty txt m) = mn_canceled m"
  "mn_targets (emit cfg io oid ty txt m) = mn_targets m"
  "mn_workers (emit cfg io oid ty txt m) = mn_workers m"
  "mn_shuttingDown (emit cfg io oid ty txt m) = mn_shuttingDown m"
  "mn_readOnly (emit cfg io oid ty txt m) = mn_readOnly m"
  "mn_finished (emit cfg io oid ty txt m) = mn_finished m"
  "mn_records (emit cfg io oid ty txt m) = mn_records m"
  using emit_only [of m cfg io oid ty "txt"] by (simp_all add: event_only_def)

end
