(* ===== verification/OpInvariant.thy ===== *)
theory OpInvariant
  imports OpFrame
begin

text \<open>
  The well-formedness of a running manager, as one invariant \<open>inv\<close>, and that every action keeps
  it: one worker per target, every job of a queue or a worker belongs to exactly one live
  operation of its target, the status agrees with the place of the job, every live operation
  has a job, a cancel function and a record on disk, and what was reported as finished is
  consistent with its receipt.
\<close>

section \<open>The invariant\<close>

fun pc_job :: "pc \<Rightarrow> job option" where
  "pc_job AtQueue = None"
| "pc_job (Popped j) = Some j"
| "pc_job (Waiting j) = Some j"
| "pc_job (HasSlot j) = Some j"
| "pc_job (Ready j) = Some j"
| "pc_job (Executing j) = Some j"
| "pc_job (Stopping j ex) = Some j"
| "pc_job (Asking j ex) = Some j"
| "pc_job (Resolving j ex shut) = Some j"
| "pc_job (Finishing j st ex msg rec slot) = Some j"

definition current_jobs :: "manager \<Rightarrow> string \<Rightarrow> job list" where
  "current_jobs m t =
     (case mget (mn_workers m) t of None \<Rightarrow> []
      | Some p \<Rightarrow> (case pc_job p of None \<Rightarrow> [] | Some j \<Rightarrow> [j]))"

definition queued_jobs :: "manager \<Rightarrow> string \<Rightarrow> job list" where
  "queued_jobs m t = (case mget (mn_targets m) t of None \<Rightarrow> [] | Some r \<Rightarrow> rn_queue r)"

definition pending_jobs :: "manager \<Rightarrow> string \<Rightarrow> job list" where
  "pending_jobs m t = current_jobs m t @ queued_jobs m t"

definition outcome_ok :: "status \<Rightarrow> int \<Rightarrow> message \<Rightarrow> reconciliation option \<Rightarrow> bool" where
  "outcome_ok st ex msg rec \<longleftrightarrow>
     terminal st \<and> st \<noteq> StatusInterrupted \<and>
     (st = StatusSucceeded \<longrightarrow> ex = 0 \<and> msg = NoMessage \<and> rec = None) \<and>
     (case rec of None \<Rightarrow> st \<noteq> StatusAlreadyCommitted
      | Some r \<Rightarrow> (st = StatusAlreadyCommitted \<longleftrightarrow> rec_state r = ReconcileStateApplied) \<and>
          (st \<noteq> StatusAlreadyCommitted \<longrightarrow> st = StatusCanceled))"

text \<open>The edges of an operation's life cycle.\<close>

definition status_edge :: "status \<Rightarrow> status \<Rightarrow> bool" where
  "status_edge s s' \<longleftrightarrow> s' = s \<or>
     (case s of
        StatusQueued \<Rightarrow> s' \<in> {StatusRunning, StatusCancelRequested, StatusFailed, StatusCanceled}
      | StatusRunning \<Rightarrow> s' \<in> {StatusCancelRequested, StatusStopping, StatusSucceeded, StatusFailed}
      | StatusCancelRequested \<Rightarrow> s' \<in> {StatusStopping, StatusSucceeded, StatusFailed, StatusCanceled}
      | StatusStopping \<Rightarrow> s' \<in> {StatusCanceled, StatusAlreadyCommitted}
      | _ \<Rightarrow> False)"

fun place_ok :: "pc \<Rightarrow> operation \<Rightarrow> bool" where
  "place_ok AtQueue op = True"
| "place_ok (Popped j) op = (op_status op \<in> {StatusQueued, StatusCancelRequested})"
| "place_ok (Waiting j) op = (op_status op \<in> {StatusQueued, StatusCancelRequested})"
| "place_ok (HasSlot j) op = (op_status op \<in> {StatusQueued, StatusCancelRequested})"
| "place_ok (Ready j) op = (op_status op \<in> {StatusQueued, StatusCancelRequested})"
| "place_ok (Executing j) op =
     (op_status op \<in> {StatusRunning, StatusCancelRequested} \<and> op_started_at op \<noteq> None)"
| "place_ok (Stopping j ex) op =
     (op_status op \<in> {StatusRunning, StatusCancelRequested} \<and> op_started_at op \<noteq> None)"
| "place_ok (Asking j ex) op = (op_status op = StatusStopping \<and> op_started_at op \<noteq> None)"
| "place_ok (Resolving j ex shut) op = (op_status op = StatusStopping \<and> op_started_at op \<noteq> None)"
| "place_ok (Finishing j st ex msg rec slot) op =
     (outcome_ok st ex msg rec \<and> status_edge (op_status op) st \<and>
      (st \<in> {StatusSucceeded, StatusAlreadyCommitted} \<longrightarrow> op_started_at op \<noteq> None))"

abbreviation waiting_ok :: "operation \<Rightarrow> bool" where
  "waiting_ok op \<equiv> op_status op \<in> {StatusQueued, StatusCancelRequested}"

abbreviation op_active :: "operation \<Rightarrow> bool" where
  "op_active op \<equiv> op_status op \<in> {StatusQueued, StatusRunning, StatusCancelRequested, StatusStopping}"

lemma active_live: "op_active op \<Longrightarrow> op_live op"
  by auto

definition job_ok :: "manager \<Rightarrow> string \<Rightarrow> string \<Rightarrow> (operation \<Rightarrow> bool) \<Rightarrow> bool" where
  "job_ok m t i P \<longleftrightarrow> i \<in> set (mn_cancels m) \<and>
     (\<exists>op. mget (mn_operations m) i = Some op \<and> op_target op = t \<and> op_active op \<and>
        op_reconciliation op = None \<and> op_exit_code op = None \<and> P op)"

definition target_ok :: "manager \<Rightarrow> string \<Rightarrow> bool" where
  "target_ok m t \<longleftrightarrow>
     (mget (mn_targets m) t = None \<longleftrightarrow> mget (mn_workers m) t = None) \<and>
     (\<forall>r. mget (mn_targets m) t = Some r \<longrightarrow> rn_busy r) \<and>
     distinct (map jb_id (pending_jobs m t)) \<and>
     (\<forall>j\<in>set (queued_jobs m t). job_ok m t (jb_id j) waiting_ok) \<and>
     (\<forall>p j. mget (mn_workers m) t = Some p \<longrightarrow> pc_job p = Some j \<longrightarrow> job_ok m t (jb_id j) (place_ok p))"

definition maps_ok :: "manager \<Rightarrow> bool" where
  "maps_ok m \<longleftrightarrow> gomap_ok (mn_operations m) \<and> gomap_ok (mn_idempotency m) \<and> gomap_ok (mn_targets m) \<and>
     gomap_ok (mn_workers m) \<and> gomap_ok (mn_records m) \<and>
     (\<forall>i op. mget (mn_operations m) i = Some op \<longrightarrow> op_id op = i) \<and>
     (\<forall>i s. mget (mn_records m) i = Some s \<longrightarrow> op_id (st_operation s) = i)"

definition cancels_ok :: "manager \<Rightarrow> bool" where
  "cancels_ok m \<longleftrightarrow>
     (\<forall>i\<in>set (mn_cancels m). \<exists>t. i \<in> jb_id ` set (pending_jobs m t)) \<and>
     (\<not> mn_readOnly m \<longrightarrow>
        (\<forall>i op. mget (mn_operations m) i = Some op \<longrightarrow> op_live op \<longrightarrow> i \<in> set (mn_cancels m)))"

definition durable :: "manager \<Rightarrow> bool" where
  "durable m \<longleftrightarrow> (\<forall>i\<in>set (mn_cancels m). \<exists>s. mget (mn_records m) i = Some s \<and>
     op_active (st_operation s))"

definition honest :: "operation \<Rightarrow> bool" where
  "honest op \<longleftrightarrow> terminal (op_status op) \<and>
     (op_status op = StatusSucceeded \<longrightarrow> op_exit_code op = Some 0 \<and> op_error op = NoMessage) \<and>
     (op_status op \<in> {StatusSucceeded, StatusAlreadyCommitted} \<longrightarrow> op_started_at op \<noteq> None) \<and>
     (op_status op = StatusAlreadyCommitted \<longleftrightarrow>
        (\<exists>r. op_reconciliation op = Some r \<and> rec_state r = ReconcileStateApplied))"

definition inv :: "manager \<Rightarrow> bool" where
  "inv m \<longleftrightarrow> maps_ok m \<and> (\<forall>t. target_ok m t) \<and> cancels_ok m \<and> durable m \<and>
     (\<forall>op\<in>set (mn_finished m). honest op)"

section \<open>Reading the invariant\<close>

lemma job_ok_mono: "job_ok m t i P \<Longrightarrow> (\<And>op. P op \<Longrightarrow> Q op) \<Longrightarrow> job_ok m t i Q"
  by (auto simp: job_ok_def)

lemma pending_job_ok:
  "target_ok m t \<Longrightarrow> j \<in> set (pending_jobs m t) \<Longrightarrow> job_ok m t (jb_id j) (\<lambda>_. True)"
  by (auto simp: target_ok_def pending_jobs_def current_jobs_def intro: job_ok_mono
      split: option.splits)

lemma pending_target:
  assumes "\<forall>t. target_ok m t" and "j \<in> set (pending_jobs m t)"
    and "mget (mn_operations m) (jb_id j) = Some op"
  shows "op_target op = t \<and> op_active op"
  using pending_job_ok [OF spec [OF assms(1)] assms(2)] assms(3) by (auto simp: job_ok_def)

text \<open>The same identifier is never pending at two targets.\<close>

lemma pending_unique_target:
  assumes "\<forall>t. target_ok m t" and "j \<in> set (pending_jobs m t)" and "j' \<in> set (pending_jobs m t')"
    and "jb_id j = jb_id j'"
  shows "t = t'"
proof -
  from pending_job_ok [OF spec [OF assms(1)] assms(2)] obtain op where
    op: "mget (mn_operations m) (jb_id j) = Some op" by (auto simp: job_ok_def)
  with pending_target [OF assms(1,2)] pending_target [OF assms(1,3)] assms(4) show ?thesis by auto
qed

lemma inv_cong:
  assumes "mn_operations m' = mn_operations m" "mn_idempotency m' = mn_idempotency m"
    "mn_targets m' = mn_targets m" "mn_workers m' = mn_workers m" "mn_records m' = mn_records m"
    "mn_cancels m' = mn_cancels m" "mn_readOnly m' = mn_readOnly m" "mn_finished m' = mn_finished m"
  shows "inv m' = inv m"
  using assms
  by (simp add: inv_def maps_ok_def target_ok_def cancels_ok_def durable_def job_ok_def pending_jobs_def
      current_jobs_def queued_jobs_def)

lemma inv_event_only: "event_only m m' \<Longrightarrow> inv m' = inv m"
  by (intro inv_cong) (simp_all add: event_only_def)

text \<open>A target whose runner, worker and operations did not change.\<close>

lemma target_ok_other:
  assumes "target_ok m t"
    and "mget (mn_targets m') t = mget (mn_targets m) t" "mget (mn_workers m') t = mget (mn_workers m) t"
    and "\<And>i op. mget (mn_operations m) i = Some op \<Longrightarrow> op_target op = t \<Longrightarrow> op_active op \<Longrightarrow>
       i \<in> set (mn_cancels m) \<Longrightarrow> mget (mn_operations m') i = Some op \<and> i \<in> set (mn_cancels m')"
  shows "target_ok m' t"
proof -
  have jobs: "job_ok m t i P \<Longrightarrow> job_ok m' t i P" for i P
    using assms(4) unfolding job_ok_def by blast
  have "pending_jobs m' t = pending_jobs m t" "queued_jobs m' t = queued_jobs m t"
    using assms(2,3) by (simp_all add: pending_jobs_def current_jobs_def queued_jobs_def)
  with assms(1-3) jobs show ?thesis
    unfolding target_ok_def by simp
qed

section \<open>Steps of a worker\<close>

text \<open>
  A worker moves on with the job it has: its place changes, and with it at most the operation
  of the job and the record of that operation.
\<close>

definition same_or_put :: "string \<Rightarrow> (stored \<Rightarrow> bool) \<Rightarrow> manager \<Rightarrow> manager \<Rightarrow> bool" where
  "same_or_put i P m m' \<longleftrightarrow> mn_records m' = mn_records m \<or>
     (\<exists>s. mn_records m' = mput i s (mn_records m) \<and> op_id (st_operation s) = i \<and> P s)"

lemma same_or_put_ok:
  assumes "same_or_put i P m m'" and "maps_ok m"
  shows "gomap_ok (mn_records m')" and "\<And>k s. mget (mn_records m') k = Some s \<Longrightarrow> op_id (st_operation s) = k"
    and "\<And>k. k \<noteq> i \<Longrightarrow> mget (mn_records m') k = mget (mn_records m) k"
    and "mget (mn_records m') i = mget (mn_records m) i \<or> (\<exists>s. mget (mn_records m') i = Some s \<and> P s)"
  using assms by (auto simp: same_or_put_def maps_ok_def split: if_splits)

lemma same_or_put_save:
  assumes "mn_records m' = mn_records (snd (saveOperation sv op m0))" "mn_records m0 = mn_records m"
    and "op_id op = i" "P \<lparr>st_operation = op, st_version = currentRecordVersion\<rparr>"
  shows "same_or_put i P m m'"
  unfolding same_or_put_def assms(1) save_records assms(2) using assms(3,4) by auto

lemma inv_advance:
  assumes inv: "inv m" and w: "mget (mn_workers m) t = Some p" "pc_job p = Some j"
    and p': "pc_job p' = Some j'" "jb_id j' = jb_id j"
    and op: "mget (mn_operations m) (jb_id j) = Some op"
    and op': "op_id op' = op_id op" "op_target op' = op_target op" "op_active op'"
      "op_reconciliation op' = None" "op_exit_code op' = None" "place_ok p' op'"
    and ops: "mn_operations m' = mput (jb_id j) op' (mn_operations m)"
    and ws: "mn_workers m' = mput t p' (mn_workers m)"
    and rec: "same_or_put (jb_id j) (\<lambda>s. op_active (st_operation s)) m m'"
    and same: "mn_targets m' = mn_targets m" "mn_idempotency m' = mn_idempotency m"
      "mn_cancels m' = mn_cancels m" "mn_readOnly m' = mn_readOnly m" "mn_finished m' = mn_finished m"
  shows "inv m'"
proof -
  have maps: "maps_ok m" and tgt: "\<forall>t. target_ok m t" and can: "cancels_ok m" and dur: "durable m"
    and fin: "\<forall>op\<in>set (mn_finished m). honest op"
    using inv by (simp_all add: inv_def)
  note r = same_or_put_ok [OF rec maps]
  have maps': "maps_ok m'"
    using maps r(1,2) op op'(1) unfolding maps_ok_def ops ws same by (auto split: if_splits)
  have jt: "job_ok m t (jb_id j) (place_ok p)"
    using spec [OF tgt, of t] w by (simp add: target_ok_def)
  with op have opt: "op_target op = t" and jc: "jb_id j \<in> set (mn_cancels m)"
    by (auto simp: job_ok_def)
  have cur: "current_jobs m t = [j]" "current_jobs m' t = [j']"
    using w p' by (simp_all add: current_jobs_def ws)
  have que: "queued_jobs m' k = queued_jobs m k" for k
    by (simp add: queued_jobs_def same)
  have ids: "map jb_id (pending_jobs m' k) = map jb_id (pending_jobs m k)" for k
    using cur p'(2) by (cases "k = t") (simp_all add: pending_jobs_def que current_jobs_def ws)
  have "target_ok m' k" for k
  proof (cases "k = t")
    case False
    show ?thesis
    proof (rule target_ok_other [OF spec [OF tgt]])
      show "mget (mn_targets m') k = mget (mn_targets m) k" by (simp add: same)
      show "mget (mn_workers m') k = mget (mn_workers m) k" using False by (simp add: ws)
      fix i op0
      assume "mget (mn_operations m) i = Some op0" "op_target op0 = k" "i \<in> set (mn_cancels m)"
      with op opt False show "mget (mn_operations m') i = Some op0 \<and> i \<in> set (mn_cancels m')"
        by (auto simp: ops same)
    qed
  next
    case True
    have "job_ok m' t (jb_id j) (place_ok p')"
      using jc op' opt by (simp add: job_ok_def ops same)
    moreover have "job_ok m' t (jb_id q) waiting_ok" if "q \<in> set (queued_jobs m t)" for q
    proof -
      from spec [OF tgt, of t] that have "job_ok m t (jb_id q) waiting_ok" by (simp add: target_ok_def)
      moreover from spec [OF tgt, of t] have "jb_id j \<notin> jb_id ` set (queued_jobs m t)"
        by (simp add: target_ok_def pending_jobs_def cur)
      with that have "jb_id q \<noteq> jb_id j" by (metis image_eqI)
      ultimately show ?thesis by (simp add: job_ok_def ops same)
    qed
    ultimately show ?thesis
      using spec [OF tgt, of t] w(1) p' True ids [of t] que [of t]
      by (auto simp: target_ok_def ws same)
  qed
  moreover have "cancels_ok m'"
  proof -
    have "jb_id ` set (pending_jobs m' k) = jb_id ` set (pending_jobs m k)" for k
      using ids [of k] by (metis set_map)
    with can jc show ?thesis by (auto simp: cancels_ok_def same ops)
  qed
  moreover have "durable m'"
    unfolding durable_def
  proof (rule ballI)
    fix i
    assume "i \<in> set (mn_cancels m')"
    then obtain s where "mget (mn_records m) i = Some s" "op_active (st_operation s)"
      using dur by (auto simp: durable_def same)
    with r(3) [of i] r(4) show "\<exists>s. mget (mn_records m') i = Some s \<and> op_active (st_operation s)"
      by (cases "i = jb_id j") auto
  qed
  ultimately show ?thesis using maps' fin by (simp add: inv_def same)
qed

lemma mput_same: "mget m k = Some v \<Longrightarrow> mput k v m = m"
  by (induction m) (auto split: if_splits)

lemma job_at:
  assumes "inv m" and "mget (mn_workers m) t = Some p" and "pc_job p = Some j"
  obtains op where "mget (mn_operations m) (jb_id j) = Some op" "op_id op = jb_id j" "op_target op = t"
    "op_active op" "op_reconciliation op = None" "op_exit_code op = None" "place_ok p op"
    "jb_id j \<in> set (mn_cancels m)"
proof -
  from assms have "job_ok m t (jb_id j) (place_ok p)" "maps_ok m"
    by (auto simp: inv_def target_ok_def)
  then show ?thesis using that unfolding job_ok_def maps_ok_def by blast
qed

text \<open>Only the place changes.\<close>

lemma inv_set_pc:
  assumes inv: "inv m" and w: "mget (mn_workers m) t = Some p" "pc_job p = Some j"
    and p': "pc_job p' = Some j'" "jb_id j' = jb_id j"
    and place: "\<And>op. op_active op \<Longrightarrow> place_ok p op \<Longrightarrow> place_ok p' op"
  shows "inv (set_pc t p' m)"
proof -
  obtain op where op: "mget (mn_operations m) (jb_id j) = Some op" "op_active op"
    "op_reconciliation op = None" "op_exit_code op = None" "place_ok p op"
    using job_at [OF inv w] by metis
  show ?thesis
    by (rule inv_advance [OF inv w p' op(1) refl refl op(2-4) place [OF op(2,5)]])
      (simp_all add: set_pc_def same_or_put_def mput_same [OF op(1)])
qed

lemma inv_run_check_context:
  assumes "inv m" and "mget (mn_workers m) t = Some (Popped j)"
  shows "inv (run_check_context t j m)"
  using assms unfolding run_check_context_def
  by (auto intro!: inv_set_pc [OF assms(1,2)] simp: outcome_ok_def status_edge_def)

lemma inv_run_select:
  assumes "inv m" and "mget (mn_workers m) t = Some (Waiting j)"
  shows "inv (run_select cfg prefer t j m)"
  using assms unfolding run_select_def Let_def
  by (auto intro!: inv_set_pc [OF assms(1,2)] simp: outcome_ok_def status_edge_def)

lemma inv_run_check_target:
  assumes "inv m" and "mget (mn_workers m) t = Some (HasSlot j)"
  shows "inv (run_check_target res byId t j m)"
proof -
  obtain op where "mget (mn_operations m) (jb_id j) = Some op"
    using job_at [OF assms pc_job.simps(4)] by metis
  then show ?thesis
    unfolding run_check_target_def
    by (cases "checkTarget res byId op (jb_command j)")
      (auto intro!: inv_set_pc [OF assms(1,2)] simp: outcome_ok_def status_edge_def)
qed

lemma inv_run_return:
  assumes "inv m" and "mget (mn_workers m) t = Some (Executing j)"
  shows "inv (run_return ex err t j m)"
  using assms unfolding run_return_def
  by (auto intro!: inv_set_pc [OF assms(1,2)] simp: outcome_ok_def status_edge_def split: option.splits)

lemma inv_run_read_flag:
  assumes "inv m" and "mget (mn_workers m) t = Some (Asking j ex)"
  shows "inv (run_read_flag t j ex m)"
  using assms unfolding run_read_flag_def by (auto intro!: inv_set_pc [OF assms(1,2)])

lemma resolution_ok:
  "resolution shut now answer = (st, msg, rec) \<Longrightarrow>
   outcome_ok st ex msg (Some rec) \<and> status_edge StatusStopping st"
  by (auto simp: resolution_def outcome_ok_def status_edge_def split: sum.splits if_splits)

lemma inv_run_resolve:
  assumes "inv m" and "mget (mn_workers m) t = Some (Resolving j ex shut)"
  shows "inv (run_resolve cfg now answer t j ex shut m)"
  using assms unfolding run_resolve_def
  by (auto intro!: inv_set_pc [OF assms(1,2)] simp: resolution_ok split: prod.splits)

lemma inv_run_output:
  assumes "inv m"
  shows "inv (run_output cfg io j st out m)"
  using assms inv_event_only [OF emit_only] by (simp add: run_output_def)

text \<open>The place and the operation change.\<close>

lemma inv_run_start:
  assumes inv: "inv m" and w: "mget (mn_workers m) t = Some (Ready j)"
  shows "inv (run_start cfg io t j m)"
proof -
  obtain op where op: "mget (mn_operations m) (jb_id j) = Some op" "op_id op = jb_id j" "op_active op"
    "op_reconciliation op = None" "op_exit_code op = None" "place_ok (Ready j) op"
    using job_at [OF inv w pc_job.simps(5)] by metis
  show ?thesis
  proof (cases "op_status op = StatusCancelRequested")
    case True
    with op(1) have "setRunning cfg io (jb_id j) m = (RunCancelRequested, m)"
      by (simp add: setRunning_def)
    then show ?thesis
      by (auto simp: run_start_def outcome_ok_def status_edge_def intro!: inv_set_pc [OF inv w])
  next
    case False
    with op(6) have q: "op_status op = StatusQueued" by simp
    let ?n = "op\<lparr>op_status := StatusRunning, op_started_at := Some (oi_now io)\<rparr>"
    let ?s = "snd (saveOperation (oi_save io) ?n (put_operation ?n m))"
    have rec: "same_or_put (jb_id j) (\<lambda>s. op_active (st_operation s)) m ?s"
      by (auto simp: same_or_put_def save_records put_operation_def op(2))
    show ?thesis
    proof (cases "oi_save io = SaveOk")
      case True
      let ?m' = "run_start cfg io t j m"
      let ?j' = "with_actor_args cfg (Some ?n) j"
      have j': "jb_id ?j' = jb_id j" by (simp add: with_actor_args_def split: option.split)
      have m': "?m' = set_pc t (Executing ?j')
          (emit cfg io (jb_id j) EventStatus (status_text StatusRunning) (clearRecordErrLocked ?s))"
        using op(1,2) q True
        by (simp add: run_start_def setRunning_def put_operation_def op_frame Let_def)
      show ?thesis
        by (rule inv_advance [OF inv w _ _ j' op(1), where op' = ?n and p' = "Executing ?j'"])
          (use op rec in \<open>simp_all add: m' set_pc_def op_frame put_operation_def same_or_put_def\<close>)
    next
      case False
      let ?p = "Finishing j StatusFailed (- 1) PersistRunningFailed None True"
      obtain m1 where sv: "saveOperation (oi_save io) ?n (put_operation ?n m) = (False, m1)"
        using False by (cases "oi_save io") (simp_all add: saveOperation_def Let_def)
      have m': "run_start cfg io t j m = set_pc t ?p (noteRecordErrLocked (oi_now io) m1)"
        using op(1) q sv by (simp add: run_start_def setRunning_def Let_def)
      have f: "mn_operations m1 = mput (jb_id j) ?n (mn_operations m)" "mn_workers m1 = mn_workers m"
        "mn_targets m1 = mn_targets m" "mn_idempotency m1 = mn_idempotency m" "mn_cancels m1 = mn_cancels m"
        "mn_readOnly m1 = mn_readOnly m" "mn_finished m1 = mn_finished m"
        using save_frame [of "oi_save io" ?n "put_operation ?n m"] unfolding sv
        by (simp_all add: put_operation_def op(2))
      show ?thesis
        by (rule inv_advance [OF inv w _ _ refl op(1), where op' = ?n and p' = ?p])
          (use op rec sv f in \<open>simp_all add: m' set_pc_def op_frame same_or_put_def outcome_ok_def status_edge_def\<close>)
    qed
  qed
qed

lemma save_noting_frame [op_frame]:
  "mn_operations (save_noting io op m) = mn_operations m"
  "mn_idempotency (save_noting io op m) = mn_idempotency m"
  "mn_cancels (save_noting io op m) = mn_cancels m"
  "mn_canceled (save_noting io op m) = mn_canceled m"
  "mn_targets (save_noting io op m) = mn_targets m"
  "mn_workers (save_noting io op m) = mn_workers m"
  "mn_readOnly (save_noting io op m) = mn_readOnly m"
  "mn_shuttingDown (save_noting io op m) = mn_shuttingDown m"
  "mn_finished (save_noting io op m) = mn_finished m"
  "mn_records (save_noting io op m) = mn_records (snd (saveOperation (oi_save io) op m))"
  by (cases "oi_save io"; simp add: save_noting_def saveOperation_def Let_def op_frame)+

lemma inv_run_begin_stopping:
  assumes inv: "inv m" and w: "mget (mn_workers m) t = Some (Stopping j ex)"
  shows "inv (run_begin_stopping cfg io t j ex m)"
proof -
  obtain op where op: "mget (mn_operations m) (jb_id j) = Some op" "op_id op = jb_id j" "op_active op"
    "op_reconciliation op = None" "op_exit_code op = None" "place_ok (Stopping j ex) op"
    using job_at [OF inv w pc_job.simps(7)] by metis
  let ?n = "op\<lparr>op_status := StatusStopping\<rparr>"
  have m': "run_begin_stopping cfg io t j ex m = set_pc t (Asking j ex)
      (emit cfg io (jb_id j) EventStatus (status_text StatusStopping) (put_operation ?n (save_noting io ?n m)))"
    using op by (auto simp: run_begin_stopping_def beginStopping_def Let_def)
  show ?thesis
    by (rule inv_advance [OF inv w _ _ refl op(1), where op' = ?n and p' = "Asking j ex"])
      (use op in \<open>simp_all add: m' set_pc_def op_frame put_operation_def same_or_put_save [where op = ?n]\<close>)
qed

section \<open>Taking and ending jobs\<close>

lemma inv_run_pop:
  assumes inv: "inv m" and w: "mget (mn_workers m) t = Some AtQueue"
  shows "inv (run_pop t m)"
proof -
  have tgt: "\<forall>k. target_ok m k" and maps: "maps_ok m" and can: "cancels_ok m" and dur: "durable m"
    and fin: "\<forall>op\<in>set (mn_finished m). honest op"
    using inv by (simp_all add: inv_def)
  note t = spec [OF tgt, of t]
  from t w obtain r where r: "mget (mn_targets m) t = Some r" "rn_busy r"
    by (auto simp: target_ok_def)
  have cur: "current_jobs m t = []" using w by (simp add: current_jobs_def)
  let ?m' = "run_pop t m"
  have same: "mn_operations ?m' = mn_operations m" "mn_idempotency ?m' = mn_idempotency m"
    "mn_cancels ?m' = mn_cancels m" "mn_records ?m' = mn_records m" "mn_readOnly ?m' = mn_readOnly m"
    "mn_finished ?m' = mn_finished m"
    using r by (simp_all add: run_pop_def set_pc_def Let_def split: list.split)
  have maps': "maps_ok ?m'"
    using maps r unfolding maps_ok_def same
    by (auto simp: run_pop_def set_pc_def Let_def split: list.split)
  have other: "mget (mn_targets ?m') k = mget (mn_targets m) k \<and> mget (mn_workers ?m') k = mget (mn_workers m) k"
    if "k \<noteq> t" for k
    using that r by (auto simp: run_pop_def set_pc_def Let_def split: list.split)
  have pend: "pending_jobs ?m' k = pending_jobs m k" for k
    using r cur other [of k]
    by (cases "k = t") (auto simp: run_pop_def set_pc_def Let_def pending_jobs_def current_jobs_def
        queued_jobs_def split: list.split)
  have jobs: "job_ok ?m' k i P = job_ok m k i P" for k i P
    by (simp add: job_ok_def same)
  have "target_ok ?m' k" for k
  proof (cases "k = t")
    case False
    then show ?thesis
      using other [OF False] by (intro target_ok_other [OF spec [OF tgt]]) (simp_all add: same)
  next
    case True
    show ?thesis
    proof (cases "rn_queue r")
      case Nil
      with r have "mget (mn_targets ?m') t = None" "mget (mn_workers ?m') t = None"
        by (simp_all add: run_pop_def)
      then show ?thesis unfolding True by (simp add: target_ok_def pending_jobs_def current_jobs_def queued_jobs_def)
    next
      case (Cons j q)
      have "mget (mn_targets ?m') t = Some (r\<lparr>rn_queue := q\<rparr>)" "mget (mn_workers ?m') t = Some (Popped j)"
        using r Cons by (simp_all add: run_pop_def set_pc_def)
      moreover have "queued_jobs m t = j # q" using r Cons by (simp add: queued_jobs_def)
      moreover from calculation have "queued_jobs ?m' t = q" by (simp add: queued_jobs_def)
      moreover have "place_ok (Popped j) = waiting_ok" by (rule ext) simp
      ultimately show ?thesis
        using t r pend [of t] unfolding True by (simp add: target_ok_def jobs)
    qed
  qed
  with maps' can dur fin show ?thesis
    by (simp add: inv_def cancels_ok_def durable_def same pend)
qed

lemma inv_run_finish:
  assumes inv: "inv m" and w: "mget (mn_workers m) t = Some (Finishing j st ex msg rec slot)"
  shows "inv (run_finish cfg io t j st ex msg rec m)"
proof -
  have tgt: "\<forall>k. target_ok m k" and maps: "maps_ok m" and can: "cancels_ok m" and dur: "durable m"
    and fin: "\<forall>op\<in>set (mn_finished m). honest op"
    using inv by (simp_all add: inv_def)
  obtain op where op: "mget (mn_operations m) (jb_id j) = Some op" "op_id op = jb_id j" "op_target op = t"
    "op_active op" "op_reconciliation op = None" "op_exit_code op = None"
    "place_ok (Finishing j st ex msg rec slot) op"
    using job_at [OF inv w pc_job.simps(10)] by metis
  let ?op1 = "op\<lparr>op_status := st, op_finished_at := Some (oi_now io), op_error := msg,
      op_reconciliation := (case rec of None \<Rightarrow> op_reconciliation op | Some r \<Rightarrow> Some r),
      op_exit_code := (if 0 \<le> ex then Some ex else op_exit_code op)\<rparr>"
  let ?m' = "run_finish cfg io t j st ex msg rec m"
  let ?m1 = "(put_operation ?op1 m)\<lparr>mn_cancels := removeAll (jb_id j) (mn_cancels m)\<rparr>"
  have f: "mn_operations ?m' = mput (jb_id j) ?op1 (mn_operations m)"
    "mn_workers ?m' = mput t AtQueue (mn_workers m)" "mn_targets ?m' = mn_targets m"
    "mn_idempotency ?m' = mn_idempotency m" "mn_readOnly ?m' = mn_readOnly m"
    "mn_cancels ?m' = removeAll (jb_id j) (mn_cancels m)" "mn_finished ?m' = mn_finished m @ [?op1]"
    "mn_records ?m' = mn_records (snd (saveOperation (oi_save io) ?op1 ?m1))"
    using op(1,2,4) by (auto simp: run_finish_def finishReconciled_def Let_def set_pc_def op_frame
        put_operation_def closeSubscribersLocked_def)
  have rec_ok: "same_or_put (jb_id j) (\<lambda>_. True) m ?m'"
    by (rule same_or_put_save [OF f(8)]) (simp_all add: put_operation_def op(2))
  note r = same_or_put_ok [OF rec_ok maps]
  have maps': "maps_ok ?m'"
    using maps r(1,2) op(2) unfolding maps_ok_def f(1-7) by (auto split: if_splits)
  have cur: "current_jobs m t = [j]" "current_jobs ?m' t = []"
    using w by (simp_all add: current_jobs_def f)
  have que: "queued_jobs ?m' k = queued_jobs m k" for k
    by (simp add: queued_jobs_def f)
  have pend: "pending_jobs ?m' k = (if k = t then tl (pending_jobs m k) else pending_jobs m k)" for k
    using cur by (auto simp: pending_jobs_def que) (simp add: current_jobs_def f)
  have ne: "jb_id j \<notin> jb_id ` set (queued_jobs m t)"
    using spec [OF tgt, of t] by (simp add: target_ok_def pending_jobs_def cur)
  have keep: "job_ok ?m' k i P" if "job_ok m k i P" "i \<noteq> jb_id j" for k i P
    using that by (auto simp: job_ok_def f)
  have "target_ok ?m' k" for k
  proof (cases "k = t")
    case False
    show ?thesis
    proof (rule target_ok_other [OF spec [OF tgt]])
      show "mget (mn_targets ?m') k = mget (mn_targets m) k" by (simp add: f)
      show "mget (mn_workers ?m') k = mget (mn_workers m) k" using False by (simp add: f)
      fix i op0
      assume "mget (mn_operations m) i = Some op0" "op_target op0 = k" "i \<in> set (mn_cancels m)"
      with op False show "mget (mn_operations ?m') i = Some op0 \<and> i \<in> set (mn_cancels ?m')"
        by (auto simp: f)
    qed
  next
    case True
    have "job_ok ?m' t (jb_id q) waiting_ok" if q: "q \<in> set (queued_jobs m t)" for q
    proof (rule keep)
      show "job_ok m t (jb_id q) waiting_ok"
        using spec [OF tgt, of t] q by (simp add: target_ok_def)
      show "jb_id q \<noteq> jb_id j" using ne q by (metis image_eqI)
    qed
    then show ?thesis
      using spec [OF tgt, of t] w pend [of t] que [of t] cur unfolding True
      by (simp add: target_ok_def f pending_jobs_def)
  qed
  moreover have "cancels_ok ?m'"
    unfolding cancels_ok_def
  proof (intro conjI impI allI ballI)
    fix i
    assume i: "i \<in> set (mn_cancels ?m')"
    then have "i \<in> set (mn_cancels m)" by (simp add: f)
    with can obtain k where k: "i \<in> jb_id ` set (pending_jobs m k)"
      unfolding cancels_ok_def by blast
    moreover have "i \<noteq> jb_id j" using i by (simp add: f)
    moreover have "set (pending_jobs m t) = insert j (set (tl (pending_jobs m t)))"
      by (simp add: pending_jobs_def cur)
    ultimately show "\<exists>k. i \<in> jb_id ` set (pending_jobs ?m' k)"
      by (intro exI [of _ k]) (auto simp: pend)
  next
    fix i op0
    assume "\<not> mn_readOnly ?m'" "mget (mn_operations ?m') i = Some op0" "op_live op0"
    with can op(7) show "i \<in> set (mn_cancels ?m')"
      by (auto simp: cancels_ok_def f outcome_ok_def split: if_splits)
  qed
  moreover have "durable ?m'"
    unfolding durable_def
  proof (rule ballI)
    fix i
    assume "i \<in> set (mn_cancels ?m')"
    then have "i \<in> set (mn_cancels m)" "i \<noteq> jb_id j" by (auto simp: f)
    with dur r(3) [of i] show "\<exists>s. mget (mn_records ?m') i = Some s \<and> op_active (st_operation s)"
      by (auto simp: durable_def)
  qed
  moreover have "honest ?op1"
    using op(5-7) by (auto simp: honest_def outcome_ok_def split: option.splits)
  ultimately show ?thesis
    using maps' fin by (auto simp: inv_def f(7))
qed

section \<open>Admission and cancellation\<close>

lemma lookup_frame:
  assumes "lookupReplayLocked cfg ns hash now m = (res, m1)"
  shows "m1 = m \<or> m1 = m\<lparr>mn_idempotency := mdel ns (mn_idempotency m)\<rparr>"
    and "res \<noteq> NoReplay \<Longrightarrow> m1 = m"
  using assms by (auto simp: lookupReplayLocked_def Let_def split: if_splits option.splits)

lemma inv_idempotency:
  "inv m \<Longrightarrow> gomap_ok idem \<Longrightarrow> inv (m\<lparr>mn_idempotency := idem\<rparr>)"
  by (simp add: inv_def maps_ok_def target_ok_def cancels_ok_def durable_def job_ok_def pending_jobs_def
      current_jobs_def queued_jobs_def)

lemma inv_lookup:
  assumes "inv m" and "lookupReplayLocked cfg ns hash now m = (res, m1)"
  shows "inv m1"
proof -
  have "gomap_ok (mn_idempotency m)" using assms(1) by (simp add: inv_def maps_ok_def)
  with lookup_frame(1) [OF assms(2)] assms(1) show ?thesis
    by (auto intro: inv_idempotency)
qed

lemma inv_enqueue_lookup:
  assumes "inv m"
  shows "inv (snd (enqueue_lookup cfg req key act now m))"
proof -
  obtain res m1 where "lookupReplayLocked cfg (IdempotencyScope act, key) (cf_hash cfg (normalizeMode req)) now m = (res, m1)"
    by fastforce
  with inv_lookup [OF assms this] assms show ?thesis
    by (cases res) (simp_all add: enqueue_lookup_def)
qed

text \<open>Publishing a new operation whose record is on disk.\<close>

lemma inv_publish:
  assumes inv: "inv m" and ro: "\<not> mn_readOnly m"
    and fresh: "mget (mn_operations m) (op_id op) = None"
    and op: "op_status op = StatusQueued" "op_reconciliation op = None" "op_exit_code op = None"
    and rec: "mget (mn_records m) (op_id op) = Some s" "op_active (st_operation s)"
  shows "inv (publish key op initial cmd m)"
proof -
  have tgt: "\<forall>k. target_ok m k" and maps: "maps_ok m" and can: "cancels_ok m" and dur: "durable m"
    and fin: "\<forall>op\<in>set (mn_finished m). honest op"
    using inv by (simp_all add: inv_def)
  let ?t = "op_target op" and ?i = "op_id op" and ?m' = "publish key op initial cmd m"
  let ?j = "\<lparr>jb_id = ?i, jb_command = cmd\<rparr>"
  note t = spec [OF tgt, of ?t]
  have f: "mn_operations ?m' = mput ?i op (mn_operations m)" "mn_cancels ?m' = ?i # mn_cancels m"
    "mn_records ?m' = mn_records m" "mn_readOnly ?m' = mn_readOnly m" "mn_finished ?m' = mn_finished m"
    "mn_idempotency ?m' = (if key = [] then mn_idempotency m
            else mput (op_idem_principal op, key) ?i (mn_idempotency m))"
    by (simp_all add: publish_def admitToTarget_def Let_def)
  have busy: "rn_busy (mgetd \<lparr>rn_queue = [], rn_busy = False\<rparr> (mn_targets m) ?t) \<longleftrightarrow>
      mget (mn_targets m) ?t \<noteq> None"
    using t by (auto simp: mgetd_def target_ok_def split: option.split)
  have other: "mget (mn_targets ?m') k = mget (mn_targets m) k \<and> mget (mn_workers ?m') k = mget (mn_workers m) k"
    if "k \<noteq> ?t" for k
    using that by (simp add: publish_def admitToTarget_def Let_def)
  have at: "mget (mn_targets ?m') ?t = Some \<lparr>rn_queue = queued_jobs m ?t @ [?j], rn_busy = True\<rparr>"
    "mget (mn_workers ?m') ?t = (case mget (mn_workers m) ?t of None \<Rightarrow> Some AtQueue | Some p \<Rightarrow> Some p)"
    using t busy
    by (auto simp: publish_def admitToTarget_def Let_def mgetd_def queued_jobs_def target_ok_def
        split: option.splits)
  have maps': "maps_ok ?m'"
  proof -
    have "mget (mn_targets m) ?t = None \<Longrightarrow> ?t \<notin> fst ` set (mn_workers m)"
      using t by (metis map_of_eq_None_iff target_ok_def)
    then show ?thesis
      using maps busy unfolding maps_ok_def f
      by (auto simp: publish_def admitToTarget_def Let_def gomap_simps)
  qed
  have cur: "current_jobs ?m' k = current_jobs m k" for k
    using other [of k] at(2) by (cases "k = ?t") (auto simp: current_jobs_def split: option.splits)
  have que: "queued_jobs ?m' k = (if k = ?t then queued_jobs m k @ [?j] else queued_jobs m k)" for k
    using other [of k] at(1) by (simp add: queued_jobs_def)
  have pend: "pending_jobs ?m' k = (if k = ?t then pending_jobs m k @ [?j] else pending_jobs m k)" for k
    by (simp add: pending_jobs_def cur que)
  have keep: "job_ok ?m' k i P" if "job_ok m k i P" for k i P
    using that fresh by (auto simp: job_ok_def f)
  have new: "?i \<notin> jb_id ` set (pending_jobs m k)" for k
    using pending_job_ok [OF spec [OF tgt]] fresh by (fastforce simp: job_ok_def)
  have "target_ok ?m' k" for k
  proof (cases "k = ?t")
    case False
    then show ?thesis
      using other [OF False] fresh by (intro target_ok_other [OF spec [OF tgt]]) (auto simp: f)
  next
    case True
    have "job_ok ?m' ?t ?i waiting_ok"
      using op by (simp add: job_ok_def f)
    with t keep new [of ?t] show ?thesis
      unfolding True by (auto simp: target_ok_def at que pend split: option.splits)
  qed
  moreover have "cancels_ok ?m'"
    unfolding cancels_ok_def
  proof (intro conjI ballI impI allI)
    fix i
    assume "i \<in> set (mn_cancels ?m')"
    then consider "i = ?i" | "i \<in> set (mn_cancels m)" by (auto simp: f)
    then show "\<exists>k. i \<in> jb_id ` set (pending_jobs ?m' k)"
    proof cases
      case 1
      then show ?thesis by (intro exI [of _ ?t]) (simp add: pend)
    next
      case 2
      with can obtain k where "i \<in> jb_id ` set (pending_jobs m k)" unfolding cancels_ok_def by blast
      then show ?thesis by (intro exI [of _ k]) (auto simp: pend)
    qed
  next
    fix i op0
    assume "\<not> mn_readOnly ?m'" "mget (mn_operations ?m') i = Some op0" "op_live op0"
    with can show "i \<in> set (mn_cancels ?m')"
      by (auto simp: cancels_ok_def f split: if_splits)
  qed
  moreover have "durable ?m'"
    using dur rec by (auto simp: durable_def f)
  ultimately show ?thesis
    using maps' fin by (simp add: inv_def f(5))
qed

text \<open>Records of operations that are not running.\<close>

lemma inv_records:
  assumes inv: "inv m" and rec: "same_or_put i (\<lambda>_. True) m m'" and i: "i \<notin> set (mn_cancels m)"
    and same: "mn_operations m' = mn_operations m" "mn_idempotency m' = mn_idempotency m"
    "mn_targets m' = mn_targets m" "mn_workers m' = mn_workers m"
    "mn_cancels m' = mn_cancels m" "mn_readOnly m' = mn_readOnly m" "mn_finished m' = mn_finished m"
  shows "inv m'"
proof -
  have maps: "maps_ok m" using inv by (simp add: inv_def)
  note r = same_or_put_ok [OF rec maps]
  have "maps_ok m'" using maps r(1,2) by (simp add: maps_ok_def same)
  moreover have "durable m'"
  proof -
    have "mget (mn_records m') k = mget (mn_records m) k" if "k \<in> set (mn_cancels m)" for k
      using r(3) [of k] i that by blast
    with inv show ?thesis by (simp add: inv_def durable_def same)
  qed
  ultimately show ?thesis
    using inv by (simp add: inv_def target_ok_def cancels_ok_def job_ok_def pending_jobs_def
        current_jobs_def queued_jobs_def same)
qed

lemma inv_advance_records:
  assumes inv: "inv m" and rec: "same_or_put i (\<lambda>s. op_active (st_operation s)) m m'"
    and same: "mn_operations m' = mn_operations m" "mn_idempotency m' = mn_idempotency m"
    "mn_targets m' = mn_targets m" "mn_workers m' = mn_workers m"
    "mn_cancels m' = mn_cancels m" "mn_readOnly m' = mn_readOnly m" "mn_finished m' = mn_finished m"
  shows "inv m'"
proof -
  have maps: "maps_ok m" and dur: "durable m" using inv by (simp_all add: inv_def)
  note r = same_or_put_ok [OF rec maps]
  have "maps_ok m'" using maps r(1,2) by (simp add: maps_ok_def same)
  moreover have "durable m'"
    unfolding durable_def
  proof (rule ballI)
    fix k
    assume "k \<in> set (mn_cancels m')"
    then obtain s where "mget (mn_records m) k = Some s" "op_active (st_operation s)"
      using dur by (auto simp: durable_def same)
    with r(3) [of k] r(4) show "\<exists>s. mget (mn_records m') k = Some s \<and> op_active (st_operation s)"
      by (cases "k = i") auto
  qed
  ultimately show ?thesis
    using inv by (simp add: inv_def target_ok_def cancels_ok_def job_ok_def pending_jobs_def
        current_jobs_def queued_jobs_def same)
qed

lemma cancels_operation:
  assumes "inv m" and "i \<in> set (mn_cancels m)"
  shows "\<exists>op. mget (mn_operations m) i = Some op \<and> op_active op"
proof -
  from assms obtain t j where j: "j \<in> set (pending_jobs m t)" "i = jb_id j"
    unfolding inv_def cancels_ok_def by blast
  with assms(1) pending_job_ok [OF _ j(1)] show ?thesis by (auto simp: inv_def job_ok_def)
qed

lemma store_append_frame [op_frame]:
  "mn_operations (snd (store_append cfg io oid e m)) = mn_operations m"
  "mn_idempotency (snd (store_append cfg io oid e m)) = mn_idempotency m"
  "mn_cancels (snd (store_append cfg io oid e m)) = mn_cancels m"
  "mn_canceled (snd (store_append cfg io oid e m)) = mn_canceled m"
  "mn_targets (snd (store_append cfg io oid e m)) = mn_targets m"
  "mn_workers (snd (store_append cfg io oid e m)) = mn_workers m"
  "mn_readOnly (snd (store_append cfg io oid e m)) = mn_readOnly m"
  "mn_finished (snd (store_append cfg io oid e m)) = mn_finished m"
  "mn_records (snd (store_append cfg io oid e m)) = mn_records m"
  using store_append_only [of m cfg io oid e] by (simp_all add: event_only_def)

text \<open>Admission once every check is passed: the three ends of the storage calls.\<close>

lemma enqueue_admit_new:
  assumes "bld = Inr (cmd, admitted, target)" and "\<not> mn_admissionClosed m"
    and "lookupReplayLocked cfg (IdempotencyScope act, key) (cf_hash cfg (normalizeMode req))
       (oi_now (ai_io io)) m = (NoReplay, m1)"
    and "budget_error cfg target (IdempotencyScope act) m1 = None" and "ai_id io = Some nid"
    and "m2 = m1\<lparr>mn_admissionSeq := mn_admissionSeq m1 + 1\<rparr>"
    and "op = admitted_operation cfg (normalizeMode req) key retryOf attempt act cmd admitted target nid
       (oi_now (ai_io io)) (mn_admissionSeq m2)"
    and "e = \<lparr>ev_seq = 1, ev_op = nid, ev_type = EventStatus, ev_data = status_text StatusQueued,
       ev_at = oi_now (ai_io io)\<rparr>"
    and "store_append cfg (oi_event (ai_io io)) nid e m2 = (ok, m3)"
    and "saveOperation (oi_save (ai_io io)) op m3 = (saved, m4)"
  shows "enqueue_admit cfg req key retryOf attempt act bld io m =
     (if \<not> ok then (Refused PersistEventFailed, noteEventErrLocked (oi_now (ai_io io)) m3)
      else if \<not> saved then (Refused PersistRecordFailed,
        (noteRecordErrLocked (oi_now (ai_io io)) m4)\<lparr>mn_journals := mput nid
          (discardJournal (ai_discard io) (mgetd no_journal (mn_journals m4) nid)) (mn_journals m4)\<rparr>)
      else (Admitted op, publish key op e cmd m4))"
  using assms(9,10)
  unfolding enqueue_admit_def Let_def assms(1) sum.case prod.case assms(3) lookup.case assms(4) option.case
    assms(5) assms(6) [symmetric] assms(7) [symmetric] assms(8) [symmetric]
  by (cases ok; cases saved; simp add: assms(2))

lemma inv_enqueue_admit:
  assumes inv: "inv m" and ro: "\<not> mn_readOnly m"
    and fresh: "\<forall>nid. ai_id io = Some nid \<longrightarrow> mget (mn_operations m) nid = None"
  shows "inv (snd (enqueue_admit cfg req key retryOf attempt act bld io m))"
proof (cases "\<exists>cmd admitted target. bld = Inr (cmd, admitted, target) \<and> \<not> mn_admissionClosed m")
  case False
  then show ?thesis
    using inv by (cases bld) (auto simp: enqueue_admit_def Let_def)
next
  case True
  then obtain cmd admitted target where b: "bld = Inr (cmd, admitted, target)" "\<not> mn_admissionClosed m"
    by blast
  let ?req = "normalizeMode req" and ?now = "oi_now (ai_io io)"
  obtain res m1 where l: "lookupReplayLocked cfg (IdempotencyScope act, key) (cf_hash cfg ?req) ?now m = (res, m1)"
    by fastforce
  have inv1: "inv m1" by (rule inv_lookup [OF inv l])
  have m1: "mn_operations m1 = mn_operations m" "mn_readOnly m1 = mn_readOnly m"
    using lookup_frame(1) [OF l] by auto
  show ?thesis
  proof (cases "res = NoReplay \<and> budget_error cfg target (IdempotencyScope act) m1 = None \<and> ai_id io \<noteq> None")
    case False
    then show ?thesis
      using inv1 b l by (cases res) (auto simp: enqueue_admit_def Let_def split: option.split)
  next
    case True
    then obtain nid where n: "ai_id io = Some nid" by blast
    let ?m2 = "m1\<lparr>mn_admissionSeq := mn_admissionSeq m1 + 1\<rparr>"
    let ?op = "admitted_operation cfg ?req key retryOf attempt act cmd admitted target nid ?now (mn_admissionSeq ?m2)"
    let ?e = "\<lparr>ev_seq = 1, ev_op = nid, ev_type = EventStatus, ev_data = status_text StatusQueued, ev_at = ?now\<rparr>"
    obtain ok m3 where a: "store_append cfg (oi_event (ai_io io)) nid ?e ?m2 = (ok, m3)" by fastforce
    have "event_only ?m2 m3"
      using store_append_only [of ?m2 cfg "oi_event (ai_io io)" nid ?e] a by simp
    moreover have "inv ?m2" using inv1 inv_cong [of ?m2 m1] by simp
    ultimately have inv3: "inv m3" by (simp add: inv_event_only)
    have m3: "mn_operations m3 = mn_operations m" "mn_readOnly m3 = mn_readOnly m"
      using \<open>event_only ?m2 m3\<close> m1 by (simp_all add: event_only_def)
    have nid: "mget (mn_operations m3) nid = None" using fresh n m3 by simp
    then have nc: "nid \<notin> set (mn_cancels m3)" using cancels_operation [OF inv3, of nid] by auto
    obtain saved m4 where s: "saveOperation (oi_save (ai_io io)) ?op m3 = (saved, m4)" by fastforce
    have opid: "op_id ?op = nid" by (simp add: admitted_operation_def)
    have f4: "mn_operations m4 = mn_operations m3" "mn_readOnly m4 = mn_readOnly m3"
      using save_frame [of "oi_save (ai_io io)" ?op m3] s by simp_all
    have inv4: "inv m4"
    proof (rule inv_records [OF inv3 _ nc])
      show "same_or_put nid (\<lambda>_. True) m3 m4"
        by (rule same_or_put_save [where sv = "oi_save (ai_io io)" and op = ?op and ?m0.0 = m3])
          (use s opid in simp_all)
    qed (use save_frame [of "oi_save (ai_io io)" ?op m3] s in simp_all)
    have l': "lookupReplayLocked cfg (IdempotencyScope act, key) (cf_hash cfg ?req) ?now m = (NoReplay, m1)"
      using l True by blast
    have bud: "budget_error cfg target (IdempotencyScope act) m1 = None" using True by blast
    have res: "snd (enqueue_admit cfg req key retryOf attempt act bld io m) =
        (if \<not> ok then noteEventErrLocked ?now m3
         else if \<not> saved then (noteRecordErrLocked ?now m4)\<lparr>mn_journals := mput nid
            (discardJournal (ai_discard io) (mgetd no_journal (mn_journals m4) nid)) (mn_journals m4)\<rparr>
         else publish key ?op ?e cmd m4)"
      by (simp only: enqueue_admit_new [OF b l' bud n refl refl refl a s] if_distrib [of snd] snd_conv)
    consider "\<not> ok" | "ok" "\<not> saved" | "ok" "saved" by blast
    then show ?thesis
    proof cases
      case 1
      then show ?thesis
        unfolding res using inv3 inv_cong [of "noteEventErrLocked ?now m3" m3] by (simp add: op_frame)
    next
      case 2
      have "inv ((noteRecordErrLocked ?now m4)\<lparr>mn_journals := jn\<rparr>) = inv m4" for jn
        by (rule inv_cong) (simp_all add: op_frame)
      with 2 inv4 show ?thesis unfolding res by simp
    next
      case 3
      with s have sv: "oi_save (ai_io io) = SaveOk" using save_fst [of "oi_save (ai_io io)" ?op m3] by simp
      have "inv (publish key ?op ?e cmd m4)"
      proof (rule inv_publish [OF inv4, where s = "\<lparr>st_operation = ?op, st_version = currentRecordVersion\<rparr>"])
        show "mget (mn_records m4) (op_id ?op) = Some \<lparr>st_operation = ?op, st_version = currentRecordVersion\<rparr>"
          using s sv save_records [of SaveOk ?op m3] by simp
      qed (use ro m3 f4 nid opid in \<open>simp_all add: admitted_operation_def\<close>)
      then show ?thesis unfolding res using 3 by simp
    qed
  qed
qed

text \<open>The status of a pending operation becomes \<open>cancel_requested\<close>.\<close>

lemma inv_cancel_request:
  assumes inv: "inv m" and op: "mget (mn_operations m) i = Some op" "op_status op \<noteq> StatusStopping"
    and i: "i \<in> set (mn_cancels m)"
    and ops: "mn_operations m' = mput i (op\<lparr>op_status := StatusCancelRequested\<rparr>) (mn_operations m)"
    and rec: "same_or_put i (\<lambda>s. op_active (st_operation s)) m m'"
    and same: "mn_idempotency m' = mn_idempotency m" "mn_targets m' = mn_targets m"
      "mn_workers m' = mn_workers m" "mn_cancels m' = mn_cancels m" "mn_readOnly m' = mn_readOnly m"
      "mn_finished m' = mn_finished m"
  shows "inv m'"
proof -
  have maps: "maps_ok m" and tgt: "\<forall>t. target_ok m t" and can: "cancels_ok m" and dur: "durable m"
    using inv by (simp_all add: inv_def)
  note r = same_or_put_ok [OF rec maps]
  have "maps_ok m'"
    using maps r(1,2) op(1) unfolding maps_ok_def ops same by (auto split: if_splits)
  moreover have jobs: "job_ok m' t k P" if "job_ok m t k P"
    and "\<And>op. P op \<Longrightarrow> op_status op \<noteq> StatusStopping \<Longrightarrow> op_active op \<Longrightarrow> P (op\<lparr>op_status := StatusCancelRequested\<rparr>)" for t k P
    using that op by (auto simp: job_ok_def ops same)
  have place: "place_ok p (op\<lparr>op_status := StatusCancelRequested\<rparr>)"
    if "place_ok p op" "op_status op \<noteq> StatusStopping" "op_active op" for p op
    using that by (cases p) (auto simp: status_edge_def outcome_ok_def split: status.splits)
  have pend: "pending_jobs m' t = pending_jobs m t" "queued_jobs m' t = queued_jobs m t" for t
    by (simp_all add: pending_jobs_def current_jobs_def queued_jobs_def same)
  have "target_ok m' t" for t
    using spec [OF tgt, of t] unfolding target_ok_def same pend
    by (auto intro!: jobs place)
  moreover have "cancels_ok m'"
    using can i by (auto simp: cancels_ok_def same pend ops)
  moreover have "durable m'"
    unfolding durable_def
  proof (rule ballI)
    fix k
    assume "k \<in> set (mn_cancels m')"
    then obtain s where "mget (mn_records m) k = Some s" "op_active (st_operation s)"
      using dur by (auto simp: durable_def same)
    with r(3) [of k] r(4) show "\<exists>s. mget (mn_records m') k = Some s \<and> op_active (st_operation s)"
      by (cases "k = i") auto
  qed
  ultimately show ?thesis using inv by (simp add: inv_def same)
qed

lemma inv_Cancel:
  assumes inv: "inv m"
  shows "inv (snd (Cancel cfg io i m))"
proof (cases "\<exists>op. \<not> mn_readOnly m \<and> mget (mn_operations m) i = Some op \<and> op_live op \<and> op_status op \<noteq> StatusStopping")
  case False
  with inv show ?thesis by (auto simp: Cancel_def split: option.split)
next
  case True
  then obtain op where op: "\<not> mn_readOnly m" "mget (mn_operations m) i = Some op" "op_live op"
    "op_status op \<noteq> StatusStopping" by blast
  let ?n = "op\<lparr>op_status := StatusCancelRequested\<rparr>"
  have i: "i \<in> set (mn_cancels m)" "op_id op = i"
    using inv op by (auto simp: inv_def cancels_ok_def maps_ok_def)
  obtain saved m1 where s: "saveOperation (oi_save io) ?n m = (saved, m1)" by fastforce
  have f: "mn_operations m1 = mn_operations m" "mn_idempotency m1 = mn_idempotency m"
    "mn_targets m1 = mn_targets m" "mn_workers m1 = mn_workers m" "mn_cancels m1 = mn_cancels m"
    "mn_readOnly m1 = mn_readOnly m" "mn_finished m1 = mn_finished m"
    using save_frame [of "oi_save io" ?n m] s by simp_all
  have rec: "same_or_put i (\<lambda>s. op_active (st_operation s)) m m'" if "mn_records m' = mn_records m1" for m'
    by (rule same_or_put_save [where sv = "oi_save io" and op = ?n and ?m0.0 = m])
      (use that s i in simp_all)
  show ?thesis
  proof (cases saved)
    case False
    then have c: "snd (Cancel cfg io i m) = noteRecordErrLocked (oi_now io) m1"
      using op s by (simp add: Cancel_def Let_def)
    have "same_or_put i (\<lambda>s. op_active (st_operation s)) m (snd (Cancel cfg io i m))"
      by (rule rec) (simp add: c op_frame)
    then show ?thesis
    proof (rule inv_advance_records [OF inv])
    qed (simp_all add: c op_frame f)
  next
    case True
    let ?m3 = "emit cfg io i EventStatus (status_text StatusCancelRequested)
        ((clearRecordErrLocked m1)\<lparr>mn_operations := mput i ?n (mn_operations m1)\<rparr>)"
    have c: "snd (Cancel cfg io i m) = ?m3\<lparr>mn_canceled := i # mn_canceled ?m3\<rparr>"
      using op s True i by (simp add: Cancel_def Let_def op_frame f)
    show ?thesis
      by (rule inv_cancel_request [OF inv op(2,4) i(1)]) (use rec in \<open>simp_all add: c op_frame f\<close>)
  qed
qed

section \<open>Operations that are over\<close>

text \<open>Terminal operations may be changed or removed: no job refers to them.\<close>

lemma inv_terminal:
  assumes inv: "inv m"
    and ops: "\<And>k op. mget (mn_operations m) k = Some op \<Longrightarrow> op_live op \<Longrightarrow> mget (mn_operations m') k = Some op"
      "\<And>k op. mget (mn_operations m') k = Some op \<Longrightarrow>
         op_id op = k \<and> (op_live op \<longrightarrow> mget (mn_operations m) k = Some op)"
    and maps: "gomap_ok (mn_operations m')" "gomap_ok (mn_idempotency m')" "gomap_ok (mn_records m')"
    and keyed: "\<And>k s. mget (mn_records m') k = Some s \<Longrightarrow> op_id (st_operation s) = k"
    and rec: "\<And>k s. mget (mn_records m) k = Some s \<Longrightarrow> op_active (st_operation s) \<Longrightarrow>
       k \<in> set (mn_cancels m) \<Longrightarrow> mget (mn_records m') k = Some s"
    and same: "mn_targets m' = mn_targets m" "mn_workers m' = mn_workers m"
      "mn_cancels m' = mn_cancels m" "mn_readOnly m' = mn_readOnly m" "mn_finished m' = mn_finished m"
  shows "inv m'"
proof -
  have tgt: "\<forall>t. target_ok m t" and can: "cancels_ok m" and dur: "durable m"
    using inv by (simp_all add: inv_def)
  have pend: "pending_jobs m' t = pending_jobs m t" for t
    by (simp add: pending_jobs_def current_jobs_def queued_jobs_def same)
  have "maps_ok m'"
    using inv maps keyed ops(2) by (simp add: inv_def maps_ok_def same)
  moreover have "target_ok m' t" for t
    using ops(1) [OF _ active_live] by (intro target_ok_other [OF spec [OF tgt]]) (simp_all add: same)
  moreover have "cancels_ok m'"
    using can ops(2) unfolding cancels_ok_def same pend by blast
  moreover have "durable m'"
    using dur rec unfolding durable_def same by blast
  ultimately show ?thesis using inv by (simp add: inv_def same)
qed

lemma inv_reconcileOne:
  assumes inv: "inv m"
  shows "inv (reconcileOne cfg io ctx_done answer i m)"
proof (cases "\<exists>op. \<not> ctx_done \<and> mget (mn_operations m) i = Some op \<and> is_reconciling op")
  case False
  with inv show ?thesis by (auto simp: reconcileOne_def split: option.split)
next
  case True
  then obtain op where op: "\<not> ctx_done" "mget (mn_operations m) i = Some op" "is_reconciling op" by blast
  let ?rec = "reconcile_answer (oi_now io) (readReceipt (cf_reader cfg) answer)"
  let ?n = "op\<lparr>op_reconciliation := Some ?rec\<rparr>"
  have maps: "maps_ok m" using inv by (simp add: inv_def)
  have i: "op_id op = i" using maps op(2) by (auto simp: maps_ok_def)
  have trm: "terminal (op_status op)" using op(3) by (simp add: is_reconciling_def)
  have nc: "i \<notin> set (mn_cancels m)"
    using cancels_operation [OF inv, of i] op(2) trm by auto
  obtain saved m1 where s: "saveOperation (oi_save io) ?n m = (saved, m1)" by fastforce
  have f: "mn_operations m1 = mn_operations m" "mn_idempotency m1 = mn_idempotency m"
    "mn_targets m1 = mn_targets m" "mn_workers m1 = mn_workers m" "mn_cancels m1 = mn_cancels m"
    "mn_readOnly m1 = mn_readOnly m" "mn_finished m1 = mn_finished m"
    using save_frame [of "oi_save io" ?n m] s by simp_all
  have rec: "same_or_put i (\<lambda>_. True) m m1"
    by (rule same_or_put_save [where sv = "oi_save io" and op = ?n and ?m0.0 = m]) (use s i in simp_all)
  have inv1: "inv m1" by (rule inv_records [OF inv rec nc]) (simp_all add: f)
  show ?thesis
  proof (cases saved)
    case False
    have "inv (noteRecordErrLocked (oi_now io) m1) = inv m1" by (rule inv_cong) (simp_all add: op_frame)
    with op s False inv1 show ?thesis by (simp add: reconcileOne_def Let_def)
  next
    case True
    have c: "reconcileOne cfg io ctx_done answer i m =
        CloseJournal i (emit cfg io i EventStatus (reconcile_text (rec_state ?rec))
          (put_operation ?n (clearRecordErrLocked m1)))"
      using op s True by (simp add: reconcileOne_def Let_def)
    have maps1: "maps_ok m1" using inv1 by (simp add: inv_def)
    show ?thesis
      by (rule inv_terminal [OF inv1])
        (use maps1 op(2) i trm in \<open>auto simp: c op_frame put_operation_def maps_ok_def f split: if_splits\<close>)
  qed
qed

lemma forget_frame:
  "mn_targets (forget i m) = mn_targets m" "mn_workers (forget i m) = mn_workers m"
  "mn_cancels (forget i m) = mn_cancels m" "mn_readOnly (forget i m) = mn_readOnly m"
  "mn_finished (forget i m) = mn_finished m" "mn_records (forget i m) = mn_records m"
  "mn_journals (forget i m) = mn_journals m"
  by (simp_all add: forget_def split: option.split)

lemma forget_operations:
  "mget (mn_operations (forget i m)) k =
   (case mget (mn_operations m) k of None \<Rightarrow> None
    | Some op \<Rightarrow> if k = i \<and> terminal (op_status op) then None else Some op)"
  by (auto simp: forget_def split: option.split)

lemma inv_forget:
  assumes "inv m"
  shows "inv (forget i m)"
proof -
  have maps: "maps_ok m" using assms by (simp add: inv_def)
  show ?thesis
    by (rule inv_terminal [OF assms])
      (use maps in \<open>auto simp: forget_frame forget_operations maps_ok_def forget_def split: option.splits if_splits\<close>)
qed

lemma inv_fold_forget: "inv m \<Longrightarrow> inv (fold forget ids m)"
  by (induction ids arbitrary: m) (simp_all add: inv_forget)

lemma inv_retire_forget:
  assumes "inv m"
  shows "inv (retire_forget cfg now m)"
proof (cases "mn_retiring m")
  case None
  with assms show ?thesis by (simp add: retire_forget_def)
next
  case (Some ids)
  let ?m1 = "fold forget ids m"
  have inv1: "inv ?m1" using assms by (rule inv_fold_forget)
  then have "inv (?m1\<lparr>mn_idempotency := filter (key_live cfg now ?m1) (mn_idempotency ?m1)\<rparr>)" (is "inv ?m2")
    by (intro inv_idempotency) (auto simp: inv_def maps_ok_def)
  moreover have "inv (?m2\<lparr>mn_retiring := None\<rparr>) = inv ?m2" by (rule inv_cong) simp_all
  ultimately show ?thesis using Some by (simp add: retire_forget_def Let_def)
qed

end
