(* ===== verification/OpRetention.thy ===== *)
theory OpRetention
  imports OpInvariant
begin

text \<open>
  Retention (\<open>sweepRetention\<close>, \<open>retire\<close>): what a sweep of the disk may remove and what it must.
\<close>

text \<open>
  \<open>swept D removed m m'\<close>: from \<open>m\<close> to \<open>m'\<close> only record and journal files of identifiers in \<open>D\<close>
  were touched, no record appeared or changed, and the reported records are gone.
\<close>

definition swept :: "string set \<Rightarrow> string list \<Rightarrow> manager \<Rightarrow> manager \<Rightarrow> bool" where
  "swept D removed m m' \<longleftrightarrow>
     m' = m\<lparr>mn_records := mn_records m', mn_journals := mn_journals m'\<rparr> \<and>
     (gomap_ok (mn_records m) \<longrightarrow> gomap_ok (mn_records m')) \<and>
     (\<forall>k. mget (mn_records m') k = mget (mn_records m) k \<or> k \<in> D \<and> mget (mn_records m') k = None) \<and>
     set removed \<subseteq> D \<and> (\<forall>k\<in>set removed. mget (mn_records m') k = None)"

lemma swept_records:
  "swept D removed m m' \<Longrightarrow>
   mget (mn_records m') k = mget (mn_records m) k \<or> k \<in> D \<and> mget (mn_records m') k = None"
  unfolding swept_def by (elim conjE) (erule spec)

lemma swept_refl [simp]: "swept D [] m m"
  by (simp add: swept_def)

lemma swept_mono: "swept D removed m m' \<Longrightarrow> D \<subseteq> E \<Longrightarrow> swept E removed m m'"
  unfolding swept_def by blast

lemma swept_trans:
  assumes "swept D xs m1 m2" and "swept D ys m2 m3"
  shows "swept D (xs @ ys) m1 m3"
proof -
  have m2: "m2 = m1\<lparr>mn_records := mn_records m2, mn_journals := mn_journals m2\<rparr>"
    and m3: "m3 = m2\<lparr>mn_records := mn_records m3, mn_journals := mn_journals m3\<rparr>"
    using assms unfolding swept_def by blast+
  have "m3 = m1\<lparr>mn_records := mn_records m3, mn_journals := mn_journals m3\<rparr>"
    by (subst m3, subst m2) simp
  moreover have "mget (mn_records m3) k = mget (mn_records m1) k \<or> k \<in> D \<and> mget (mn_records m3) k = None" for k
    using assms unfolding swept_def by metis
  moreover have "\<forall>k\<in>set (xs @ ys). mget (mn_records m3) k = None"
    using assms unfolding swept_def by (metis Un_iff set_append)
  moreover have "gomap_ok (mn_records m1) \<longrightarrow> gomap_ok (mn_records m3)" "set (xs @ ys) \<subseteq> D"
    using assms unfolding swept_def by simp_all
  ultimately show ?thesis unfolding swept_def by blast
qed

lemma swept_deleteOperation:
  assumes "deleteOperation io i m = (ok, m')"
  shows "swept {i} (if ok then [i] else []) m m'"
proof -
  obtain a b where "io i = (a, b)" by (cases "io i")
  with assms show ?thesis
    by (cases a; cases b) (auto simp: deleteOperation_def swept_def split: if_splits)
qed

abbreviation over_ids :: "operation list \<Rightarrow> string set" where
  "over_ids rs \<equiv> op_id ` {r \<in> set rs. terminal (op_status r)}"

lemma swept_age:
  "sweep_age io now maxAge rs m = (removed, m') \<Longrightarrow> swept (over_ids rs) removed m m'"
proof (induction rs arbitrary: m removed m')
  case (Cons r rs)
  have sub: "over_ids rs \<subseteq> over_ids (r # rs)" by auto
  show ?case
  proof (cases "terminal (op_status r) \<and> 0 < maxAge \<and> maxAge < time_sub now (op_created_at r)")
    case False
    then have "sweep_age io now maxAge rs m = (removed, m')" using Cons.prems by auto
    from swept_mono [OF Cons.IH [OF this] sub] show ?thesis .
  next
    case True
    obtain ok m1 where d: "deleteOperation io (op_id r) m = (ok, m1)" by fastforce
    obtain rest m2 where s: "sweep_age io now maxAge rs m1 = (rest, m2)" by fastforce
    have "{op_id r} \<subseteq> over_ids (r # rs)" using True by auto
    note both = swept_trans [OF swept_mono [OF swept_deleteOperation [OF d] this] swept_mono [OF Cons.IH [OF s] sub]]
    have "removed = (if ok then op_id r # rest else rest)" "m' = m2"
      using Cons.prems True d s by simp_all
    with both show ?thesis by (cases ok) simp_all
  qed
qed simp

lemma swept_count:
  "\<forall>r\<in>set rs. terminal (op_status r) \<Longrightarrow>
   sweep_count io maxCount gone remaining rs m = (removed, m') \<Longrightarrow> swept (over_ids rs) removed m m'"
proof (induction rs arbitrary: m removed m' remaining)
  case (Cons r rs)
  have sub: "over_ids rs \<subseteq> over_ids (r # rs)" by auto
  have all: "\<forall>r\<in>set rs. terminal (op_status r)" using Cons.prems(1) by simp
  show ?case
  proof (cases "remaining \<le> maxCount \<or> op_id r \<in> set gone")
    case True
    show ?thesis
    proof (cases "remaining \<le> maxCount")
      case True
      with Cons.prems(2) show ?thesis by simp
    next
      case False
      with True Cons.prems(2) have "sweep_count io maxCount gone remaining rs m = (removed, m')" by simp
      from swept_mono [OF Cons.IH [OF all this] sub] show ?thesis .
    qed
  next
    case False
    obtain ok m1 where d: "deleteOperation io (op_id r) m = (ok, m1)" by fastforce
    obtain rest m2 where s: "sweep_count io maxCount gone (if ok then remaining - 1 else remaining) rs m1 = (rest, m2)"
      by fastforce
    have "{op_id r} \<subseteq> over_ids (r # rs)" using Cons.prems(1) by auto
    note both = swept_trans [OF swept_mono [OF swept_deleteOperation [OF d] this] swept_mono [OF Cons.IH [OF all s] sub]]
    have "removed = (if ok then op_id r # rest else rest)" "m' = m2"
      using Cons.prems(2) False d s by simp_all
    with both show ?thesis by (cases ok) simp_all
  qed
qed simp

lemma swept_sweepRetention:
  assumes "sweepRetention io now maxAge maxCount m = (removed, m')"
  shows "swept (over_ids (map (st_operation \<circ> snd) (mn_records m))) removed m m'"
proof -
  let ?rs = "map (st_operation \<circ> snd) (mn_records m)"
  let ?ts = "sort_key (\<lambda>r. (op_created_at r, op_id r)) (filter (\<lambda>r. terminal (op_status r)) ?rs)"
  obtain xs m1 where a: "sweep_age io now maxAge ?rs m = (xs, m1)" by fastforce
  obtain ys m2 where c: "sweep_count io maxCount xs (int (length ?rs) - int (length xs)) ?ts m1 = (ys, m2)"
    by fastforce
  have "over_ids ?ts = over_ids ?rs" by auto
  with swept_count [OF _ c] have "swept (over_ids ?rs) ys m1 m2" by simp
  from swept_trans [OF swept_age [OF a] this] swept_age [OF a] show ?thesis
    using assms a c by (auto simp: sweepRetention_def Let_def split: if_splits)
qed

lemma inv_swept:
  assumes inv: "inv m" and s: "swept (over_ids (map (st_operation \<circ> snd) (mn_records m))) removed m m'"
  shows "inv m'"
proof -
  have maps: "maps_ok m" using inv by (simp add: inv_def)
  obtain rc jr where m': "m' = m\<lparr>mn_records := rc, mn_journals := jr\<rparr>"
    using s unfolding swept_def by metis
  have rec: "mget rc k = mget (mn_records m) k \<or>
      k \<in> over_ids (map (st_operation \<circ> snd) (mn_records m)) \<and> mget rc k = None" for k
    using s unfolding swept_def m' by simp
  have ok: "gomap_ok rc" using s maps unfolding swept_def m' maps_ok_def by simp
  have term_over: "terminal (op_status (st_operation x))"
    if "mget (mn_records m) k = Some x" "k \<in> over_ids (map (st_operation \<circ> snd) (mn_records m))" for k x
  proof -
    from that(2) obtain n y where "(n, y) \<in> set (mn_records m)" "op_id (st_operation y) = k"
      "terminal (op_status (st_operation y))" by auto
    with maps that(1) show ?thesis by (auto simp: maps_ok_def mem_gomap_iff)
  qed
  show ?thesis
  proof (rule inv_terminal [OF inv])
    fix k x
    show "op_id (st_operation x) = k" if "mget (mn_records m') k = Some x"
      using that rec [of k] maps by (auto simp: m' maps_ok_def)
    show "mget (mn_records m') k = Some x"
      if "mget (mn_records m) k = Some x" "op_active (st_operation x)" "k \<in> set (mn_cancels m)"
    proof -
      have "k \<notin> over_ids (map (st_operation \<circ> snd) (mn_records m))"
        using term_over [OF that(1)] active_live [OF that(2)] by blast
      with rec [of k] that(1) show ?thesis by (simp add: m')
    qed
  qed (use maps ok in \<open>auto simp: m' maps_ok_def\<close>)
qed

lemma inv_retire_sweep:
  assumes "inv m"
  shows "inv (retire_sweep cfg io now m)"
proof -
  let ?m0 = "m\<lparr>mn_lastSweep := now\<rparr>"
  have inv0: "inv ?m0" using assms inv_cong [of ?m0 m] by simp
  obtain removed m1 where s: "sweepRetention io now (cf_maxHistoryAge cfg) (cf_maxOperations cfg) ?m0 = (removed, m1)"
    by fastforce
  from swept_sweepRetention [OF s] have inv1: "inv m1" by (intro inv_swept [OF inv0]) simp
  have "inv (m1\<lparr>mn_retiring := Some removed\<rparr>) = inv m1" by (rule inv_cong) simp_all
  with assms inv1 s show ?thesis by (auto simp: retire_sweep_def Let_def)
qed

end
