(* ===== verification/OpReach.thy ===== *)
theory OpReach
  imports OpRetention
begin

text \<open>
  What a start of the service leaves (\<open>New\<close>, \<open>recover\<close>) and the reachable states: from any
  start on a well-formed data directory, by any sequence of actions.
\<close>

section \<open>Every action keeps the invariant\<close>

text \<open>
  The one assumption on the environment: \<open>newID\<close> does not repeat an identifier in use. The
  reconciliation loop is only started by a manager that is not read-only.
\<close>

fun admissible :: "action \<Rightarrow> manager \<Rightarrow> bool" where
  "admissible (DoAdmit req key retryOf attempt act bld io) m =
     (case ai_id io of None \<Rightarrow> True
      | Some nid \<Rightarrow> mget (mn_operations m) nid = None \<and> mget (mn_records m) nid = None \<and>
          (\<forall>op\<in>set (mn_finished m). op_id op \<noteq> nid))"
| "admissible (DoReconcile io ctx_done answer i) m = (\<not> mn_readOnly m)"
| "admissible a m = True"

lemma replayLocked_only:
  assumes "replayLocked io oid sq m = (es, m')"
  shows "event_only m m'"
proof -
  have "event_only m (m\<lparr>mn_journals := j\<rparr>)" for j by (simp add: event_only_def)
  with assms show ?thesis
    by (auto simp: replayLocked_def Let_def split: if_splits prod.splits option.splits list.splits)
qed

lemma inv_EventsAfter: "inv m \<Longrightarrow> inv (snd (EventsAfter io oid sq m))"
  using inv_event_only [OF replayLocked_only]
  by (cases "replayLocked io oid sq m") (auto simp: EventsAfter_def split: option.split)

lemma inv_subscribers: "inv (m\<lparr>mn_subscribers := s\<rparr>) = inv m"
  by (rule inv_cong) simp_all

lemma inv_Subscribe: "inv m \<Longrightarrow> inv (snd (Subscribe io oid sq c m))"
  using inv_event_only [OF replayLocked_only]
  by (cases "replayLocked io oid sq m") (auto simp: Subscribe_def inv_subscribers split: option.split)

lemma inv_Unsubscribe: "inv m \<Longrightarrow> inv (Unsubscribe oid c m)"
  by (simp add: Unsubscribe_def inv_subscribers split: option.split)

lemma inv_seal: "inv (shutdown_seal m) = inv m" and inv_force: "inv (shutdown_force m) = inv m"
  by (rule inv_cong; simp add: shutdown_seal_def shutdown_force_def)+

lemma inv_perform:
  assumes "inv m" and "admissible a m"
  shows "inv (perform cfg a m)"
proof (cases a)
  case (DoAdmit req key retryOf attempt act bld io)
  with assms show ?thesis
    by (auto intro!: inv_enqueue_admit)
next
  case DoSeal
  with assms show ?thesis by (simp add: inv_seal)
next
  case DoForce
  with assms show ?thesis by (simp add: inv_force)
next
  case (DoLookup req key act now)
  with assms show ?thesis by (simp add: inv_enqueue_lookup)
next
  case (DoCancel io i)
  with assms show ?thesis by (simp add: inv_Cancel)
next
  case (DoReconcile io d answer i)
  with assms show ?thesis by (simp add: inv_reconcileOne)
next
  case (DoSweep io now)
  with assms show ?thesis by (simp add: inv_retire_sweep)
next
  case (DoForget now)
  with assms show ?thesis by (simp add: inv_retire_forget)
next
  case (DoReplay io i sq)
  with assms show ?thesis by (simp add: inv_EventsAfter)
next
  case (DoSubscribe io i sq c)
  with assms show ?thesis by (simp add: inv_Subscribe)
next
  case (DoUnsubscribe i c)
  with assms show ?thesis by (simp add: inv_Unsubscribe)
next
  case (DoPop t)
  with assms(1) show ?thesis
    by (simp add: worker_step_def inv_run_pop split: option.split pc.split)
next
  case (DoCheckContext t)
  with assms(1) show ?thesis
    by (simp add: worker_step_def inv_run_check_context split: option.split pc.split)
next
  case (DoSelect t pref)
  with assms(1) show ?thesis
    by (simp add: worker_step_def inv_run_select split: option.split pc.split)
next
  case (DoCheckTarget t res byId)
  with assms(1) show ?thesis
    by (simp add: worker_step_def inv_run_check_target split: option.split pc.split)
next
  case (DoStart t io)
  with assms(1) show ?thesis
    by (simp add: worker_step_def inv_run_start split: option.split pc.split)
next
  case (DoOutput t io st out)
  with assms(1) show ?thesis
    by (simp add: worker_step_def inv_run_output split: option.split pc.split)
next
  case (DoReturn t ex err)
  with assms(1) show ?thesis
    by (simp add: worker_step_def inv_run_return split: option.split pc.split)
next
  case (DoBeginStopping t io)
  with assms(1) show ?thesis
    by (simp add: worker_step_def inv_run_begin_stopping split: option.split pc.split)
next
  case (DoReadFlag t)
  with assms(1) show ?thesis
    by (simp add: worker_step_def inv_run_read_flag split: option.split pc.split)
next
  case (DoResolve t now answer)
  with assms(1) show ?thesis
    by (simp add: worker_step_def inv_run_resolve split: option.split pc.split)
next
  case (DoFinish t io)
  with assms(1) show ?thesis
    by (simp add: worker_step_def inv_run_finish split: option.split pc.split)
qed

section \<open>A start\<close>

text \<open>A directory has one file per name, and a record this build understands has a known status.\<close>

definition disk_ok :: "disk \<Rightarrow> bool" where
  "disk_ok d \<longleftrightarrow> gomap_ok (fst d) \<and>
     (\<forall>(n, s)\<in>set (fst d). case s of None \<Rightarrow> True
       | Some r \<Rightarrow> st_version r \<le> currentRecordVersion \<longrightarrow>
           op_active (st_operation r) \<or> terminal (op_status (st_operation r)))"

lemma loadOperations_spec:
  "loadOperations fs = Some (recs, future) \<Longrightarrow>
   map fst recs = map fst fs \<and> map (\<lambda>(n, s). (n, Some s)) recs = fs \<and>
   (\<forall>(n, s)\<in>set recs. op_id (st_operation s) = n) \<and>
   (future = [] \<longrightarrow> (\<forall>(n, s)\<in>set recs. st_version s \<le> currentRecordVersion))"
proof (induction fs arbitrary: recs future rule: loadOperations.induct)
  case (3 name s fs)
  then show ?case by (auto split: if_splits option.splits)
qed auto

text \<open>A manager at rest: nothing is queued and no goroutine runs.\<close>

definition at_rest :: "manager \<Rightarrow> bool" where
  "at_rest m \<longleftrightarrow> maps_ok m \<and> mn_cancels m = [] \<and> mn_targets m = [] \<and> mn_workers m = [] \<and>
     mn_finished m = []"

lemma inv_at_rest:
  assumes "at_rest m" and "\<not> mn_readOnly m \<Longrightarrow> \<forall>k op. mget (mn_operations m) k = Some op \<longrightarrow> terminal (op_status op)"
  shows "inv m"
  using assms
  by (auto simp: at_rest_def inv_def target_ok_def cancels_ok_def durable_def pending_jobs_def
      current_jobs_def queued_jobs_def)

text \<open>What \<open>recover\<close> makes of an operation.\<close>

definition recovered :: "config \<Rightarrow> time \<Rightarrow> operation \<Rightarrow> operation" where
  "recovered cfg now op =
     (if op_status op \<in> {StatusQueued, StatusRunning, StatusStopping} then
        op\<lparr>op_status := StatusInterrupted, op_error := InterruptedUnknown, op_finished_at := Some now,
           op_reconciliation := Some
             (if cf_reader cfg
              then \<lparr>rec_state = ReconcileStateReconciling, rec_reason = [], rec_evidence = [], rec_checked_at = 0\<rparr>
              else \<lparr>rec_state = ReconcileStateManual,
                rec_reason = ''no receipt reader configured; verify the server state manually'',
                rec_evidence = [], rec_checked_at = 0\<rparr>)\<rparr>
      else if op_status op = StatusCancelRequested then
        op\<lparr>op_status := StatusCanceled, op_error := CanceledBeforeRestart, op_finished_at := Some now\<rparr>
      else op)"

lemma recovered_simps [simp]:
  "op_id (recovered cfg now op) = op_id op" "op_request (recovered cfg now op) = op_request op"
  "op_target (recovered cfg now op) = op_target op"
  "op_idem_key (recovered cfg now op) = op_idem_key op"
  "op_created_at (recovered cfg now op) = op_created_at op"
  by (simp_all add: recovered_def)

lemma recovered_terminal: "op_active op \<or> terminal (op_status op) \<Longrightarrow> terminal (op_status (recovered cfg now op))"
  by (auto simp: recovered_def)

definition awaits_receipt :: "config \<Rightarrow> operation \<Rightarrow> bool" where
  "awaits_receipt cfg op \<longleftrightarrow>
     cf_reader cfg \<and> (op_status op \<in> {StatusQueued, StatusRunning, StatusStopping} \<or> is_reconciling op)"

text \<open>What the recovery of one operation leaves alone.\<close>

definition rest_only :: "manager \<Rightarrow> manager \<Rightarrow> bool" where
  "rest_only m m' \<longleftrightarrow> mn_idempotency m' = mn_idempotency m \<and> mn_cancels m' = mn_cancels m \<and>
     mn_canceled m' = mn_canceled m \<and> mn_targets m' = mn_targets m \<and> mn_workers m' = mn_workers m \<and>
     mn_finished m' = mn_finished m \<and> mn_readOnly m' = mn_readOnly m"

lemma rest_only_refl [simp]: "rest_only m m"
  by (simp add: rest_only_def)

lemma rest_only_trans: "rest_only m1 m2 \<Longrightarrow> rest_only m2 m3 \<Longrightarrow> rest_only m1 m3"
  by (simp add: rest_only_def)

lemma recover_mark_spec:
  assumes "recover_mark cfg io op m = Some m'"
  shows "mn_operations m' = mput (op_id op) op (mn_operations m)"
    and "mn_records m' = mput (op_id op) \<lparr>st_operation = op, st_version = currentRecordVersion\<rparr> (mn_records m)"
    and "rest_only m m'"
proof -
  have sv: "oi_save io = SaveOk"
    using assms by (cases "oi_save io") (simp_all add: recover_mark_def saveOperation_def Let_def)
  let ?m1 = "(put_operation op m)\<lparr>mn_records := mput (op_id op)
      \<lparr>st_operation = op, st_version = currentRecordVersion\<rparr> (mn_records m)\<rparr>"
  obtain ok m2 where a: "appendEventLocked cfg io (op_id op) EventStatus (status_text (op_status op)) ?m1 = (ok, m2)"
    by fastforce
  have only: "event_only ?m1 m2"
    using appendEvent_only [of ?m1 cfg io "op_id op" EventStatus "status_text (op_status op)"] a by simp
  have m': "m' = CloseJournal (op_id op) (if ok then m2 else noteEventErrLocked (oi_now io) m2)"
    using assms sv a by (simp add: recover_mark_def put_operation_def)
  show "mn_operations m' = mput (op_id op) op (mn_operations m)"
    "mn_records m' = mput (op_id op) \<lparr>st_operation = op, st_version = currentRecordVersion\<rparr> (mn_records m)"
    "rest_only m m'"
    using only by (cases ok; simp add: m' op_frame event_only_def put_operation_def rest_only_def)+
qed

lemma recover_one_spec:
  assumes "recover_one cfg io i (p, m) = Some (p', m')" and "mget (mn_operations m) i = Some op" and "op_id op = i"
  shows "mn_operations m' = mput i (recovered cfg (oi_now (io i)) op) (mn_operations m)"
    and "mn_records m' =
      (if op_active op
       then mput i \<lparr>st_operation = recovered cfg (oi_now (io i)) op, st_version = currentRecordVersion\<rparr> (mn_records m)
       else mn_records m)"
    and "rest_only m m'" and "p' = p @ (if awaits_receipt cfg op then [i] else [])"
proof -
  let ?r = "recovered cfg (oi_now (io i)) op"
  have rid: "op_id ?r = i" by (simp add: assms(3))
  have "mn_operations m' = mput i ?r (mn_operations m) \<and>
      mn_records m' = (if op_active op
       then mput i \<lparr>st_operation = ?r, st_version = currentRecordVersion\<rparr> (mn_records m) else mn_records m) \<and>
      rest_only m m' \<and> p' = p @ (if awaits_receipt cfg op then [i] else [])"
  proof (cases "op_active op")
    case False
    then have "?r = op" by (auto simp: recovered_def)
    with False assms(1,2) show ?thesis
      by (auto simp: recover_one_def Let_def awaits_receipt_def mput_same split: if_splits)
  next
    case True
    with assms(1,2) have "recover_mark cfg (io i) ?r m = Some m' \<and> p' = p @ (if awaits_receipt cfg op then [i] else [])"
      by (auto simp: recover_one_def recovered_def Let_def awaits_receipt_def is_reconciling_def split: if_splits)
    with recover_mark_spec [of cfg "io i" ?r m m'] True show ?thesis by (simp only: rid) simp
  qed
  then show "mn_operations m' = mput i ?r (mn_operations m)"
    "mn_records m' = (if op_active op
       then mput i \<lparr>st_operation = ?r, st_version = currentRecordVersion\<rparr> (mn_records m) else mn_records m)"
    "rest_only m m'" "p' = p @ (if awaits_receipt cfg op then [i] else [])"
    by blast+
qed

lemma recover_all_spec:
  assumes "recover_all cfg io ids (p, m) = Some (p', m')" and "distinct ids"
    and "\<forall>i\<in>set ids. \<exists>op. mget (mn_operations m) i = Some op \<and> op_id op = i"
  shows "(\<forall>k. mget (mn_operations m') k =
      (if k \<in> set ids then map_option (recovered cfg (oi_now (io k))) (mget (mn_operations m) k)
       else mget (mn_operations m) k)) \<and>
    (\<forall>k. mget (mn_records m') k =
      (case mget (mn_operations m) k of
         None \<Rightarrow> mget (mn_records m) k
       | Some op \<Rightarrow> if k \<in> set ids \<and> op_active op
           then Some \<lparr>st_operation = recovered cfg (oi_now (io k)) op, st_version = currentRecordVersion\<rparr>
           else mget (mn_records m) k)) \<and>
    rest_only m m' \<and>
    p' = p @ filter (\<lambda>i. \<exists>op. mget (mn_operations m) i = Some op \<and> awaits_receipt cfg op) ids \<and>
    (gomap_ok (mn_operations m) \<longrightarrow> gomap_ok (mn_operations m')) \<and>
    (gomap_ok (mn_records m) \<longrightarrow> gomap_ok (mn_records m'))"
  using assms
proof (induction ids arbitrary: p m)
  case (Cons i ids)
  from Cons.prems obtain op where op: "mget (mn_operations m) i = Some op" "op_id op = i" by auto
  from Cons.prems(1) obtain p1 m1 where one: "recover_one cfg io i (p, m) = Some (p1, m1)"
    and rest: "recover_all cfg io ids (p1, m1) = Some (p', m')"
    by (auto split: option.splits)
  note r = recover_one_spec [OF one op]
  have ops1: "mget (mn_operations m1) k = (if k = i then Some (recovered cfg (oi_now (io i)) op) else mget (mn_operations m) k)" for k
    by (simp add: r(1))
  have "\<forall>k\<in>set ids. \<exists>op. mget (mn_operations m1) k = Some op \<and> op_id op = k"
    using Cons.prems(2,3) by (auto simp: ops1)
  note IH = Cons.IH [OF rest _ this]
  have ne: "i \<notin> set ids" using Cons.prems(2) by simp
  have pend: "filter (\<lambda>k. \<exists>op. mget (mn_operations m1) k = Some op \<and> awaits_receipt cfg op) ids =
      filter (\<lambda>k. \<exists>op. mget (mn_operations m) k = Some op \<and> awaits_receipt cfg op) ids"
    by (rule filter_cong [OF refl]) (use ne in \<open>auto simp: ops1\<close>)
  have recs1: "mget (mn_records m1) k =
      (if k = i \<and> op_active op
       then Some \<lparr>st_operation = recovered cfg (oi_now (io i)) op, st_version = currentRecordVersion\<rparr>
       else mget (mn_records m) k)" for k
    by (simp add: r(2))
  have d: "distinct ids" using Cons.prems(2) by simp
  show ?case
  proof (intro conjI allI)
    fix k
    show "mget (mn_operations m') k =
      (if k \<in> set (i # ids) then map_option (recovered cfg (oi_now (io k))) (mget (mn_operations m) k)
       else mget (mn_operations m) k)"
      using IH [OF d] ops1 [of k] op ne by auto
    show "mget (mn_records m') k =
      (case mget (mn_operations m) k of
         None \<Rightarrow> mget (mn_records m) k
       | Some op \<Rightarrow> if k \<in> set (i # ids) \<and> op_active op
           then Some \<lparr>st_operation = recovered cfg (oi_now (io k)) op, st_version = currentRecordVersion\<rparr>
           else mget (mn_records m) k)"
      using conjunct1 [OF conjunct2 [OF IH [OF d]]] ops1 [of k] recs1 [of k] op ne
      by (cases "k = i") (auto split: option.split)
  next
    show "rest_only m m'" using r(3) IH [OF d] rest_only_trans by blast
    show "p' = p @ filter (\<lambda>k. \<exists>op. mget (mn_operations m) k = Some op \<and> awaits_receipt cfg op) (i # ids)"
      using IH [OF d] r(4) op pend by simp
    show "gomap_ok (mn_operations m) \<longrightarrow> gomap_ok (mn_operations m')"
      using IH [OF d] r(1) by simp
    show "gomap_ok (mn_records m) \<longrightarrow> gomap_ok (mn_records m')"
      using IH [OF d] r(2) by (simp split: if_splits)
  qed
qed (simp split: option.split)

text \<open>The restore of the records: memory is what the record files say.\<close>

lemma restore_one_frame:
  "mn_cancels (restore_one cfg io now op m) = mn_cancels m"
  "mn_canceled (restore_one cfg io now op m) = mn_canceled m"
  "mn_targets (restore_one cfg io now op m) = mn_targets m"
  "mn_workers (restore_one cfg io now op m) = mn_workers m"
  "mn_finished (restore_one cfg io now op m) = mn_finished m"
  "mn_readOnly (restore_one cfg io now op m) = mn_readOnly m"
  "mn_records (restore_one cfg io now op m) = mn_records m"
  "mn_operations (restore_one cfg io now op m) = mput (op_id op) (fill_mode op) (mn_operations m)"
  by (simp_all add: restore_one_def Let_def fill_mode_def split: prod.split)

lemma fill_mode_simps [simp]:
  "op_id (fill_mode op) = op_id op" "op_status (fill_mode op) = op_status op"
  "op_target (fill_mode op) = op_target op" "op_idem_key (fill_mode op) = op_idem_key op"
  "op_idem_principal (fill_mode op) = op_idem_principal op" "op_created_at (fill_mode op) = op_created_at op"
  "op_request (fill_mode op) = op_request op" "op_request_hash (fill_mode op) = op_request_hash op"
  "op_reconciliation (fill_mode op) = op_reconciliation op"
  by (simp_all add: fill_mode_def)

lemma restore_frame:
  "mn_cancels (fold (restore_one cfg io now) rs m) = mn_cancels m"
  "mn_canceled (fold (restore_one cfg io now) rs m) = mn_canceled m"
  "mn_targets (fold (restore_one cfg io now) rs m) = mn_targets m"
  "mn_workers (fold (restore_one cfg io now) rs m) = mn_workers m"
  "mn_finished (fold (restore_one cfg io now) rs m) = mn_finished m"
  "mn_readOnly (fold (restore_one cfg io now) rs m) = mn_readOnly m"
  "mn_records (fold (restore_one cfg io now) rs m) = mn_records m"
  by (induction rs arbitrary: m) (simp_all add: restore_one_frame)

lemma restore_maps:
  "gomap_ok (mn_operations m) \<Longrightarrow> gomap_ok (mn_operations (fold (restore_one cfg io now) rs m))"
  "gomap_ok (mn_idempotency m) \<Longrightarrow> gomap_ok (mn_idempotency (fold (restore_one cfg io now) rs m))"
proof (induction rs arbitrary: m)
  case (Cons r rs)
  {
    case 1
    then show ?case using Cons.IH(1) by (simp add: restore_one_frame)
  next
    case 2
    then have "gomap_ok (mn_idempotency (restore_one cfg io now r m))"
      by (simp add: restore_one_def Let_def split: prod.split)
    then show ?case using Cons.IH(2) by simp
  }
qed simp_all

lemma restore_operations:
  "gomap_ok recs \<Longrightarrow> \<forall>(n, s)\<in>set recs. op_id (st_operation s) = n \<Longrightarrow>
   mget (mn_operations (fold (restore_one cfg io now) (map (st_operation \<circ> snd) recs) m)) k =
   (case mget recs k of None \<Rightarrow> mget (mn_operations m) k | Some s \<Rightarrow> Some (fill_mode (st_operation s)))"
proof (induction recs arbitrary: m)
  case (Cons r recs)
  obtain n s where r: "r = (n, s)" by (cases r)
  from Cons.prems r have "mget recs n = None" by (auto simp: gomap_simps map_of_eq_None_iff)
  with Cons r show ?case by (auto simp: restore_one_frame gomap_simps split: option.split)
qed simp

text \<open>
  The whole start: memory holds, for every record file that retention left, what \<open>recover\<close> makes
  of it, and nothing runs.
\<close>

lemma awaits_recovered:
  "cf_reader cfg \<Longrightarrow> awaits_receipt cfg op \<longleftrightarrow> is_reconciling (recovered cfg now op)"
  by (auto simp: awaits_receipt_def recovered_def is_reconciling_def)

lemma New_spec:
  assumes new: "New cfg io d = Some (p, m)" and d: "disk_ok d"
  obtains gone where
    "\<And>k. mget (mn_operations m) k =
      (case mget (fst d) k of
         Some (Some s) \<Rightarrow> if k \<in> gone then None
           else Some (if mn_readOnly m then fill_mode (st_operation s)
             else recovered cfg (oi_now (so_recover io k)) (fill_mode (st_operation s)))
       | _ \<Rightarrow> None)"
    "\<And>k. k \<in> gone \<Longrightarrow> \<exists>s. mget (fst d) k = Some (Some s) \<and> terminal (op_status (st_operation s))"
    "\<not> mn_readOnly m \<Longrightarrow> \<forall>k op. mget (mn_operations m) k = Some op \<longrightarrow> terminal (op_status op)"
    "at_rest m" "mn_canceled m = []"
    "\<not> mn_readOnly m \<Longrightarrow> set p = {k. cf_reader cfg \<and>
       (\<exists>op. mget (mn_operations m) k = Some op \<and> is_reconciling op)}"
proof -
  from new obtain recs future where l: "loadOperations (fst d) = Some (recs, future)"
    by (auto simp: New_def split: option.splits)
  note ls = loadOperations_spec [OF l]
  have gr: "gomap_ok recs" using ls d by (simp add: disk_ok_def gomap_ok_def)
  have kr: "\<forall>(n, s)\<in>set recs. op_id (st_operation s) = n" using ls by blast
  have fd: "mget (fst d) k = map_option Some (mget recs k)" for k
  proof -
    have "mget (map (\<lambda>(n, s). (n, Some s)) recs) k = map_option Some (mget recs k)"
      by (induction recs) auto
    with ls show ?thesis by metis
  qed
  define m0 where "m0 = (empty_manager (future \<noteq> []) (so_now io))\<lparr>mn_records := recs, mn_journals := snd d\<rparr>"
  define m1 where "m1 = (if future = [] then snd (sweepRetention (so_delete io) (so_now io)
      (cf_maxHistoryAge cfg) (cf_maxOperations cfg) m0) else m0)"
  define m2 where "m2 = fold (restore_one cfg (so_scan io) (so_now io)) (map (st_operation \<circ> snd) (mn_records m1)) m1"
  have n: "(if mn_readOnly m2 then Some ([], m2)
      else recover_all cfg (so_recover io) (map fst (mn_operations m2)) ([], m2)) = Some (p, m)"
    using new unfolding New_def l by (simp only: option.case prod.case Let_def m0_def m1_def m2_def)
  have r0: "mn_records m0 = recs" by (simp add: m0_def)
  let ?over = "over_ids (map (st_operation \<circ> snd) recs)"
  obtain removed where sw: "swept ?over removed m0 m1"
  proof (cases "future = []")
    case True
    obtain rm mx where "sweepRetention (so_delete io) (so_now io) (cf_maxHistoryAge cfg) (cf_maxOperations cfg) m0 = (rm, mx)"
      by fastforce
    with swept_sweepRetention [OF this] True that r0 show ?thesis by (simp add: m1_def)
  next
    case False
    with that [of "[]"] show ?thesis by (simp add: m1_def)
  qed
  define gone where "gone = {k. mget recs k \<noteq> None \<and> mget (mn_records m1) k = None}"
  have "m1 = m0\<lparr>mn_records := mn_records m1, mn_journals := mn_journals m1\<rparr>"
    using sw unfolding swept_def by blast
  then obtain rc jr where m1e: "m1 = m0\<lparr>mn_records := rc, mn_journals := jr\<rparr>" by blast
  have m1f: "mn_cancels m1 = []" "mn_canceled m1 = []" "mn_targets m1 = []" "mn_workers m1 = []"
    "mn_finished m1 = []" "mn_operations m1 = []" "mn_idempotency m1 = []" "mn_readOnly m1 = (future \<noteq> [])"
    by (simp_all add: m1e m0_def empty_manager_def)
  have rec1: "mget (mn_records m1) k = (if k \<in> gone then None else mget recs k)" for k
  proof -
    have "mget (mn_records m1) k = mget recs k \<or> mget (mn_records m1) k = None"
      using swept_records [OF sw, of k] unfolding r0 by auto
    then show ?thesis by (auto simp: gone_def)
  qed
  have g1: "gomap_ok (mn_records m1)" using sw gr r0 unfolding swept_def by simp
  have over: "\<exists>s. mget recs k = Some s \<and> terminal (op_status (st_operation s))" if "k \<in> gone" for k
  proof -
    have "k \<in> ?over" using that swept_records [OF sw, of k] unfolding r0 gone_def by force
    then obtain a s where "(a, s) \<in> set recs" "op_id (st_operation s) = k" "terminal (op_status (st_operation s))"
      by auto
    moreover from this kr have "a = k" by auto
    ultimately show ?thesis using gr by (auto simp: mem_gomap_iff)
  qed
  have k1: "\<forall>(a, s)\<in>set (mn_records m1). op_id (st_operation s) = a"
  proof (rule ballI)
    fix b
    assume b: "b \<in> set (mn_records m1)"
    obtain a s where e: "b = (a, s)" by (cases b)
    with b g1 have "mget (mn_records m1) a = Some s" by (simp add: mem_gomap_iff)
    then have "mget recs a = Some s" using rec1 [of a] by (simp split: if_splits)
    then have "(a, s) \<in> set recs" by (rule mget_SomeD)
    with kr e show "case b of (a, s) \<Rightarrow> op_id (st_operation s) = a" by auto
  qed
  have ops2: "mget (mn_operations m2) k =
      (if k \<in> gone then None else map_option (fill_mode \<circ> st_operation) (mget recs k))" for k
    unfolding m2_def restore_operations [OF g1 k1] using rec1 [of k] m1f by (simp split: option.split)
  have f2: "mn_cancels m2 = []" "mn_canceled m2 = []" "mn_targets m2 = []" "mn_workers m2 = []"
    "mn_finished m2 = []" "mn_readOnly m2 = (future \<noteq> [])" "mn_records m2 = mn_records m1"
    by (simp_all add: m2_def restore_frame m1f)
  have g2: "gomap_ok (mn_operations m2)" "gomap_ok (mn_idempotency m2)"
    using restore_maps [of m1] m1f by (simp_all add: m2_def)
  have key2: "op_id op = k" if "mget (mn_operations m2) k = Some op" for k op
    using that kr ops2 [of k] by (auto split: if_splits dest!: mget_SomeD)
  have keyr: "op_id (st_operation s) = k" if "mget (mn_records m1) k = Some s" for k s
    using k1 mget_SomeD [OF that] by auto
  have known: "op_active op \<or> terminal (op_status op)" if "mget (mn_operations m2) k = Some op" "future = []" for k op
  proof -
    from that(1) ops2 [of k] obtain s where s: "mget recs k = Some s" "op = fill_mode (st_operation s)"
      by (auto split: if_splits)
    then have "(k, Some s) \<in> set (fst d)" "(k, s) \<in> set recs"
      using fd [of k] by (auto dest: mget_SomeD)
    with d ls that(2) have "op_active (st_operation s) \<or> terminal (op_status (st_operation s))"
      unfolding disk_ok_def by fastforce
    then show ?thesis using s(2) by simp
  qed
  show ?thesis
  proof (cases "future = []")
    case False
    then have m: "m = m2" "p = []" using n f2 by auto
    have ro: "mn_readOnly m" using False f2 m by simp
    have rest: "at_rest m"
      unfolding at_rest_def maps_ok_def m using f2 g1 g2 key2 keyr by simp
    show ?thesis
    proof (rule that [of gone])
      show "mget (mn_operations m) k =
        (case mget (fst d) k of
           Some (Some s) \<Rightarrow> if k \<in> gone then None
             else Some (if mn_readOnly m then fill_mode (st_operation s)
               else recovered cfg (oi_now (so_recover io k)) (fill_mode (st_operation s)))
         | _ \<Rightarrow> None)" for k
        using ops2 [of k] fd [of k] ro m by (auto split: option.split)
      show "\<exists>s. mget (fst d) k = Some (Some s) \<and> terminal (op_status (st_operation s))" if "k \<in> gone" for k
        using over [OF that] fd [of k] by auto
    qed (use ro rest m f2 in simp_all)
  next
    case True
    have rec: "recover_all cfg (so_recover io) (map fst (mn_operations m2)) ([], m2) = Some (p, m)"
      using n f2 True by simp
    have dist: "distinct (map fst (mn_operations m2))" using g2 by (simp add: gomap_ok_def)
    have "\<forall>i\<in>set (map fst (mn_operations m2)). \<exists>op. mget (mn_operations m2) i = Some op \<and> op_id op = i"
    proof (rule ballI)
      fix i
      assume "i \<in> set (map fst (mn_operations m2))"
      then obtain op where "mget (mn_operations m2) i = Some op"
        using mget_fst_iff [of i "mn_operations m2"] by auto
      with key2 show "\<exists>op. mget (mn_operations m2) i = Some op \<and> op_id op = i" by blast
    qed
    note R = recover_all_spec [OF rec dist this]
    have dom: "k \<in> set (map fst (mn_operations m2)) \<longleftrightarrow> (\<exists>op. mget (mn_operations m2) k = Some op)" for k
      using mget_fst_iff [of k "mn_operations m2"] by simp
    have opsm: "mget (mn_operations m) k = map_option (recovered cfg (oi_now (so_recover io k))) (mget (mn_operations m2) k)" for k
      using R dom [of k] by (cases "mget (mn_operations m2) k") auto
    have recm: "mget (mn_records m) k = (case mget (mn_operations m2) k of None \<Rightarrow> mget (mn_records m2) k
        | Some op \<Rightarrow> if op_active op
            then Some \<lparr>st_operation = recovered cfg (oi_now (so_recover io k)) op, st_version = currentRecordVersion\<rparr>
            else mget (mn_records m2) k)" for k
      using conjunct1 [OF conjunct2 [OF R]] dom [of k] by (auto split: option.split)
    have ro: "rest_only m2 m" using R by blast
    have trm: "terminal (op_status op)" if "mget (mn_operations m) k = Some op" for k op
      using that opsm [of k] known True by (auto intro: recovered_terminal)
    have "maps_ok m"
      unfolding maps_ok_def
    proof (intro conjI allI impI)
      show "gomap_ok (mn_operations m)" "gomap_ok (mn_records m)" using R g1 g2 f2 by simp_all
      show "gomap_ok (mn_idempotency m)" "gomap_ok (mn_targets m)" "gomap_ok (mn_workers m)"
        using ro g2 f2 by (simp_all add: rest_only_def)
      show "op_id op = k" if "mget (mn_operations m) k = Some op" for k op
        using that opsm [of k] key2 by auto
      show "op_id (st_operation s) = k" if "mget (mn_records m) k = Some s" for k s
        using that recm [of k] key2 keyr f2 by (auto split: option.splits if_splits)
    qed
    then have rest: "at_rest m" using ro f2 by (simp add: at_rest_def rest_only_def)
    show ?thesis
    proof (rule that [of gone])
      show "mget (mn_operations m) k =
        (case mget (fst d) k of
           Some (Some s) \<Rightarrow> if k \<in> gone then None
             else Some (if mn_readOnly m then fill_mode (st_operation s)
               else recovered cfg (oi_now (so_recover io k)) (fill_mode (st_operation s)))
         | _ \<Rightarrow> None)" for k
        using ops2 [of k] opsm [of k] fd [of k] ro f2 True by (auto simp: rest_only_def split: option.split)
      show "\<exists>s. mget (fst d) k = Some (Some s) \<and> terminal (op_status (st_operation s))" if "k \<in> gone" for k
        using over [OF that] fd [of k] by auto
      show "set p = {k. cf_reader cfg \<and> (\<exists>op. mget (mn_operations m) k = Some op \<and> is_reconciling op)}"
      proof -
        have "set p = {k. \<exists>op. mget (mn_operations m2) k = Some op \<and> awaits_receipt cfg op}"
          using R dom by auto
        also have "\<dots> = {k. cf_reader cfg \<and> (\<exists>op. mget (mn_operations m) k = Some op \<and> is_reconciling op)}"
          using awaits_recovered [of cfg] by (auto simp: opsm awaits_receipt_def [of cfg])
        finally show ?thesis .
      qed
    qed (use rest trm ro f2 in \<open>simp_all add: rest_only_def\<close>)
  qed
qed

section \<open>Reachable states\<close>

inductive reachable :: "config \<Rightarrow> manager \<Rightarrow> bool" for cfg where
  boot: "New cfg io d = Some (p, m) \<Longrightarrow> disk_ok d \<Longrightarrow> reachable cfg m"
| act: "reachable cfg m \<Longrightarrow> admissible a m \<Longrightarrow> reachable cfg (perform cfg a m)"

inductive_cases reachable_cases: "reachable cfg m"

theorem reachable_inv: "reachable cfg m \<Longrightarrow> inv m"
proof (induction rule: reachable.induct)
  case (boot io d p m)
  show ?case by (rule New_spec [OF boot]) (rule inv_at_rest; simp)
next
  case (act m a)
  then show ?case by (simp add: inv_perform)
qed

end
