(* ===== verification/OpEffect.thy ===== *)
theory OpEffect
  imports OpReach
begin

text \<open>
  What one action can do to the operations and the queues. Every action of a well-formed manager
  is \<open>quiet\<close> (operations move along the edges of their life cycle, the queues keep their
  jobs), or ends the first job of one target, or admits one operation.
\<close>

section \<open>The life cycle of one operation\<close>

text \<open>What never changes once an operation is admitted.\<close>

definition same_identity :: "operation \<Rightarrow> operation \<Rightarrow> bool" where
  "same_identity op op' \<longleftrightarrow> op_id op' = op_id op \<and> op_request op' = op_request op \<and>
     op_target op' = op_target op \<and> op_idem_key op' = op_idem_key op \<and>
     op_idem_principal op' = op_idem_principal op \<and> op_created_at op' = op_created_at op \<and>
     op_actor op' = op_actor op \<and> op_admission_seq op' = op_admission_seq op \<and>
     op_attempt op' = op_attempt op \<and> op_retry_of op' = op_retry_of op \<and>
     op_request_hash op' = op_request_hash op \<and> op_has_secrets op' = op_has_secrets op \<and>
     op_admitted_server op' = op_admitted_server op"

definition op_next :: "operation \<Rightarrow> operation \<Rightarrow> bool" where
  "op_next op op' \<longleftrightarrow> same_identity op op' \<and> status_edge (op_status op) (op_status op') \<and>
     (terminal (op_status op) \<longrightarrow> op' = op \<or>
        is_reconciling op \<and> (\<exists>r. rec_state r \<noteq> ReconcileStateReconciling \<and>
          op' = op\<lparr>op_reconciliation := Some r\<rparr>))"

lemma op_next_refl [simp]: "op_next op op"
  by (simp add: op_next_def same_identity_def status_edge_def)

lemma op_next_live:
  "op_active op \<Longrightarrow> same_identity op op' \<Longrightarrow> status_edge (op_status op) (op_status op') \<Longrightarrow> op_next op op'"
  unfolding op_next_def using active_live by blast

definition ops_step :: "manager \<Rightarrow> manager \<Rightarrow> bool" where
  "ops_step m m' \<longleftrightarrow>
     (\<forall>k op'. mget (mn_operations m') k = Some op' \<longrightarrow>
        (\<exists>op. mget (mn_operations m) k = Some op \<and> op_next op op')) \<and>
     (\<forall>k op. mget (mn_operations m) k = Some op \<longrightarrow> op_live op \<longrightarrow> mget (mn_operations m') k \<noteq> None)"

lemma ops_step_same: "mn_operations m' = mn_operations m \<Longrightarrow> ops_step m m'"
  by (auto simp: ops_step_def)

lemma ops_step_put:
  assumes "mn_operations m' = mput i op' (mn_operations m)" and "mget (mn_operations m) i = Some op"
    and "op_next op op'"
  shows "ops_step m m'"
  using assms(2,3) unfolding ops_step_def assms(1) by simp

section \<open>The three kinds of action\<close>

definition pending_ids :: "manager \<Rightarrow> string \<Rightarrow> string list" where
  "pending_ids m t = map jb_id (pending_jobs m t)"

definition quiet :: "manager \<Rightarrow> manager \<Rightarrow> bool" where
  "quiet m m' \<longleftrightarrow> ops_step m m' \<and> pending_ids m' = pending_ids m \<and>
     mn_finished m' = mn_finished m \<and> mn_readOnly m' = mn_readOnly m"

definition ends :: "manager \<Rightarrow> manager \<Rightarrow> bool" where
  "ends m m' \<longleftrightarrow> ops_step m m' \<and> mn_readOnly m' = mn_readOnly m \<and>
     (\<exists>op q. pending_ids m (op_target op) = op_id op # q \<and>
        pending_ids m' = (pending_ids m)(op_target op := q) \<and>
        mn_finished m' = mn_finished m @ [op] \<and> mget (mn_operations m') (op_id op) = Some op)"

definition admits_op :: "config \<Rightarrow> operation \<Rightarrow> manager \<Rightarrow> manager \<Rightarrow> bool" where
  "admits_op cfg op m m' \<longleftrightarrow>
     mget (mn_operations m) (op_id op) = None \<and> op_status op = StatusQueued \<and>
     mget (mn_records m) (op_id op) = None \<and> (\<forall>f\<in>set (mn_finished m). op_id f \<noteq> op_id op) \<and>
     budget_error cfg (op_target op) (IdempotencyScope (op_actor op)) m = None \<and>
     \<not> mn_readOnly m \<and> \<not> mn_admissionClosed m \<and>
     mn_operations m' = mput (op_id op) op (mn_operations m) \<and>
     pending_ids m' = (pending_ids m)(op_target op := pending_ids m (op_target op) @ [op_id op]) \<and>
     mn_finished m' = mn_finished m \<and> mn_readOnly m' = mn_readOnly m"

definition admits :: "config \<Rightarrow> manager \<Rightarrow> manager \<Rightarrow> bool" where
  "admits cfg m m' \<longleftrightarrow> (\<exists>op. admits_op cfg op m m')"

lemma pending_ids_cong:
  "mn_targets m' = mn_targets m \<Longrightarrow> mn_workers m' = mn_workers m \<Longrightarrow> pending_ids m' = pending_ids m"
  by (simp add: pending_ids_def pending_jobs_def current_jobs_def queued_jobs_def fun_eq_iff)

lemma quiet_same:
  "mn_operations m' = mn_operations m \<Longrightarrow> mn_targets m' = mn_targets m \<Longrightarrow> mn_workers m' = mn_workers m \<Longrightarrow>
   mn_finished m' = mn_finished m \<Longrightarrow> mn_readOnly m' = mn_readOnly m \<Longrightarrow> quiet m m'"
  unfolding quiet_def by (intro conjI ops_step_same pending_ids_cong)

lemma quiet_event_only: "event_only m m' \<Longrightarrow> quiet m m'"
  by (rule quiet_same) (simp_all add: event_only_def)

lemma quiet_refl [simp]: "quiet m m"
  by (rule quiet_same) simp_all

lemma pending_ids_set_pc:
  assumes "mget (mn_workers m) t = Some p" "pc_job p = Some j" "pc_job p' = Some j'" "jb_id j' = jb_id j"
    and "mn_workers m' = mput t p' (mn_workers m)" "mn_targets m' = mn_targets m"
  shows "pending_ids m' = pending_ids m"
  using assms by (auto simp: pending_ids_def pending_jobs_def current_jobs_def queued_jobs_def fun_eq_iff)

lemma quiet_set_pc:
  assumes "mget (mn_workers m) t = Some p" "pc_job p = Some j" "pc_job p' = Some j'" "jb_id j' = jb_id j"
  shows "quiet m (set_pc t p' m)"
  using pending_ids_set_pc [OF assms, of "set_pc t p' m"]
  by (simp add: quiet_def set_pc_def ops_step_same)

lemma quiet_advance:
  assumes "mget (mn_workers m) t = Some p" "pc_job p = Some j" "pc_job p' = Some j'" "jb_id j' = jb_id j"
    and "mget (mn_operations m) (jb_id j) = Some op" "op_next op op'"
    and "mn_operations m' = mput (jb_id j) op' (mn_operations m)"
    and "mn_workers m' = mput t p' (mn_workers m)" "mn_targets m' = mn_targets m"
    and "mn_finished m' = mn_finished m" "mn_readOnly m' = mn_readOnly m"
  shows "quiet m m'"
  using pending_ids_set_pc [OF assms(1-4,8,9)] ops_step_put [OF assms(7,5,6)] assms(10,11)
  by (simp add: quiet_def)

section \<open>Each action is one of the three\<close>

lemma lookup_quiet: "lookupReplayLocked cfg ns hash now m = (res, m1) \<Longrightarrow> quiet m m1"
  using lookup_frame(1) [of cfg ns hash now m res m1] by (auto intro: quiet_same)

lemma enqueue_lookup_quiet: "quiet m (snd (enqueue_lookup cfg req key act now m))"
proof -
  obtain res m1 where "lookupReplayLocked cfg (IdempotencyScope act, key) (cf_hash cfg (normalizeMode req)) now m = (res, m1)"
    by fastforce
  with lookup_quiet [OF this] show ?thesis
    by (cases res) (simp_all add: enqueue_lookup_def)
qed

lemma Cancel_quiet:
  assumes "inv m"
  shows "quiet m (snd (Cancel cfg io i m))"
proof (cases "\<exists>op. \<not> mn_readOnly m \<and> mget (mn_operations m) i = Some op \<and> op_live op \<and> op_status op \<noteq> StatusStopping")
  case False
  then show ?thesis by (auto simp: Cancel_def split: option.split)
next
  case True
  then obtain op where op: "\<not> mn_readOnly m" "mget (mn_operations m) i = Some op" "op_live op"
    "op_status op \<noteq> StatusStopping" by blast
  let ?n = "op\<lparr>op_status := StatusCancelRequested\<rparr>"
  have act: "op_active op"
    using cancels_operation [OF assms, of i] assms op by (auto simp: inv_def cancels_ok_def)
  have nxt: "op_next op ?n"
    by (rule op_next_live [OF act]) (use act op(4) in \<open>auto simp: same_identity_def status_edge_def\<close>)
  obtain saved m1 where s: "saveOperation (oi_save io) ?n m = (saved, m1)" by fastforce
  have f: "mn_operations m1 = mn_operations m" "mn_targets m1 = mn_targets m" "mn_workers m1 = mn_workers m"
    "mn_finished m1 = mn_finished m" "mn_readOnly m1 = mn_readOnly m"
    using save_frame [of "oi_save io" ?n m] s by simp_all
  show ?thesis
  proof (cases saved)
    case False
    with op s f show ?thesis
      by (intro quiet_same) (simp_all add: Cancel_def Let_def op_frame)
  next
    case True
    let ?m' = "snd (Cancel cfg io i m)"
    have m': "mn_operations ?m' = mput i ?n (mn_operations m)" "mn_targets ?m' = mn_targets m"
      "mn_workers ?m' = mn_workers m" "mn_finished ?m' = mn_finished m" "mn_readOnly ?m' = mn_readOnly m"
      using op s True f by (auto simp: Cancel_def Let_def op_frame)
    show ?thesis
      unfolding quiet_def using ops_step_put [OF m'(1) op(2) nxt] pending_ids_cong [OF m'(2,3)] m'(4,5) by simp
  qed
qed

lemma run_pop_quiet:
  assumes inv: "inv m" and w: "mget (mn_workers m) t = Some AtQueue"
  shows "quiet m (run_pop t m)"
proof -
  from inv w obtain r where r: "mget (mn_targets m) t = Some r"
    unfolding inv_def target_ok_def by (metis not_Some_eq)
  have "pending_ids (run_pop t m) = pending_ids m"
    using r w by (auto simp: run_pop_def set_pc_def Let_def pending_ids_def pending_jobs_def current_jobs_def
        queued_jobs_def fun_eq_iff split: list.split)
  moreover have "mn_operations (run_pop t m) = mn_operations m" "mn_finished (run_pop t m) = mn_finished m"
    "mn_readOnly (run_pop t m) = mn_readOnly m"
    using r by (simp_all add: run_pop_def set_pc_def Let_def split: list.split)
  ultimately show ?thesis by (simp add: quiet_def ops_step_same)
qed

lemma run_start_quiet:
  assumes inv: "inv m" and w: "mget (mn_workers m) t = Some (Ready j)"
  shows "quiet m (run_start cfg io t j m)"
proof -
  obtain op where op: "mget (mn_operations m) (jb_id j) = Some op" "op_id op = jb_id j" "place_ok (Ready j) op"
    using job_at [OF inv w pc_job.simps(5)] by metis
  show ?thesis
  proof (cases "op_status op = StatusCancelRequested")
    case True
    with op(1) have "setRunning cfg io (jb_id j) m = (RunCancelRequested, m)"
      by (simp add: setRunning_def)
    then show ?thesis
      by (simp add: run_start_def quiet_set_pc [OF w])
  next
    case False
    with op(3) have q: "op_status op = StatusQueued" by simp
    let ?n = "op\<lparr>op_status := StatusRunning, op_started_at := Some (oi_now io)\<rparr>"
    obtain saved m1 where s: "saveOperation (oi_save io) ?n (put_operation ?n m) = (saved, m1)" by fastforce
    have f: "mn_operations m1 = mput (jb_id j) ?n (mn_operations m)" "mn_targets m1 = mn_targets m"
      "mn_workers m1 = mn_workers m" "mn_finished m1 = mn_finished m" "mn_readOnly m1 = mn_readOnly m"
      using save_frame [of "oi_save io" ?n "put_operation ?n m"] s by (simp_all add: put_operation_def op(2))
    have nxt: "op_next op ?n"
      by (rule op_next_live) (simp_all add: q same_identity_def status_edge_def)
    let ?p = "if saved then Executing (with_actor_args cfg (Some ?n) j)
        else Finishing j StatusFailed (- 1) PersistRunningFailed None True"
    let ?j = "if saved then with_actor_args cfg (Some ?n) j else j"
    have j: "jb_id ?j = jb_id j" "pc_job ?p = Some ?j" by (simp_all add: with_actor_args_def split: option.split)
    have m': "mn_operations (run_start cfg io t j m) = mput (jb_id j) ?n (mn_operations m)"
      "mn_workers (run_start cfg io t j m) = mput t ?p (mn_workers m)"
      "mn_targets (run_start cfg io t j m) = mn_targets m" "mn_finished (run_start cfg io t j m) = mn_finished m"
      "mn_readOnly (run_start cfg io t j m) = mn_readOnly m"
      using op(1) q s f by (cases saved; simp add: run_start_def setRunning_def Let_def set_pc_def op_frame)+
    show ?thesis by (rule quiet_advance [OF w _ j(2,1) op(1) nxt m']) simp
  qed
qed

lemma run_begin_stopping_quiet:
  assumes inv: "inv m" and w: "mget (mn_workers m) t = Some (Stopping j ex)"
  shows "quiet m (run_begin_stopping cfg io t j ex m)"
proof -
  obtain op where op: "mget (mn_operations m) (jb_id j) = Some op" "op_id op = jb_id j" "place_ok (Stopping j ex) op"
    using job_at [OF inv w pc_job.simps(7)] by metis
  let ?n = "op\<lparr>op_status := StatusStopping\<rparr>"
  have nxt: "op_next op ?n"
    by (rule op_next_live) (use op(3) in \<open>auto simp: same_identity_def status_edge_def\<close>)
  have m': "run_begin_stopping cfg io t j ex m = set_pc t (Asking j ex)
      (emit cfg io (jb_id j) EventStatus (status_text StatusStopping) (put_operation ?n (save_noting io ?n m)))"
    using op by (auto simp: run_begin_stopping_def beginStopping_def Let_def)
  show ?thesis
    by (rule quiet_advance [OF w _ _ refl op(1) nxt, where p' = "Asking j ex"])
      (simp_all add: m' set_pc_def op_frame put_operation_def op(2))
qed

lemma reconcile_answer_settled: "rec_state (reconcile_answer now answer) \<noteq> ReconcileStateReconciling"
  by (simp add: reconcile_answer_def split: sum.split)

lemma reconcileOne_quiet: "inv m \<Longrightarrow> quiet m (reconcileOne cfg io ctx_done answer i m)"
proof -
  assume inv: "inv m"
  show ?thesis
  proof (cases "\<exists>op. \<not> ctx_done \<and> mget (mn_operations m) i = Some op \<and> is_reconciling op")
    case False
    then show ?thesis by (auto simp: reconcileOne_def split: option.split)
  next
    case True
    then obtain op where op: "\<not> ctx_done" "mget (mn_operations m) i = Some op" "is_reconciling op" by blast
    let ?rec = "reconcile_answer (oi_now io) (readReceipt (cf_reader cfg) answer)"
    let ?n = "op\<lparr>op_reconciliation := Some ?rec\<rparr>"
    let ?m' = "reconcileOne cfg io ctx_done answer i m"
    have i: "op_id op = i" using inv op(2) by (auto simp: inv_def maps_ok_def)
    have nxt: "op_next op ?n"
      unfolding op_next_def using op(3) reconcile_answer_settled
      by (auto simp: same_identity_def status_edge_def)
    obtain saved m1 where s: "saveOperation (oi_save io) ?n m = (saved, m1)" by fastforce
    have f: "mn_operations m1 = mn_operations m" "mn_targets m1 = mn_targets m" "mn_workers m1 = mn_workers m"
      "mn_finished m1 = mn_finished m" "mn_readOnly m1 = mn_readOnly m"
      using save_frame [of "oi_save io" ?n m] s by simp_all
    have m': "mn_operations ?m' = (if saved then mput i ?n (mn_operations m) else mn_operations m)"
      "mn_targets ?m' = mn_targets m" "mn_workers ?m' = mn_workers m" "mn_finished ?m' = mn_finished m" "mn_readOnly ?m' = mn_readOnly m"
      using op s f i by (cases saved; simp add: reconcileOne_def Let_def op_frame put_operation_def)+
    show ?thesis
    proof (cases saved)
      case True
      with m'(1) have "mn_operations ?m' = mput i ?n (mn_operations m)" by simp
      then show ?thesis
        unfolding quiet_def using ops_step_put [OF _ op(2) nxt] pending_ids_cong [OF m'(2,3)] m'(4,5) by simp
    next
      case False
      with m' show ?thesis by (intro quiet_same) simp_all
    qed
  qed
qed

lemma fold_forget_operations:
  "mget (mn_operations (fold forget ids m)) k = mget (mn_operations m) k \<or>
   mget (mn_operations (fold forget ids m)) k = None \<and>
     (\<exists>op. mget (mn_operations m) k = Some op \<and> terminal (op_status op)) \<and> k \<in> set ids"
proof (induction ids arbitrary: m)
  case (Cons i ids)
  from Cons [of "forget i m"] show ?case
    by (auto simp: forget_operations split: option.splits if_splits)
qed simp

lemma fold_forget_frame:
  "mn_targets (fold forget ids m) = mn_targets m" "mn_workers (fold forget ids m) = mn_workers m"
  "mn_finished (fold forget ids m) = mn_finished m" "mn_readOnly (fold forget ids m) = mn_readOnly m"
  "mn_cancels (fold forget ids m) = mn_cancels m" "mn_records (fold forget ids m) = mn_records m"
  by (induction ids arbitrary: m) (simp_all add: forget_frame)

lemma retire_forget_quiet: "quiet m (retire_forget cfg now m)"
proof (cases "mn_retiring m")
  case None
  then show ?thesis by (simp add: retire_forget_def)
next
  case (Some ids)
  let ?m' = "retire_forget cfg now m"
  have m': "mn_operations ?m' = mn_operations (fold forget ids m)" "mn_targets ?m' = mn_targets m"
    "mn_workers ?m' = mn_workers m" "mn_finished ?m' = mn_finished m" "mn_readOnly ?m' = mn_readOnly m"
    using Some by (simp_all add: retire_forget_def Let_def fold_forget_frame)
  have "ops_step m ?m'"
    unfolding ops_step_def m'(1)
  proof (intro conjI allI impI)
    fix k op'
    assume "mget (mn_operations (fold forget ids m)) k = Some op'"
    with fold_forget_operations [of ids m k] have "mget (mn_operations m) k = Some op'" by auto
    then show "\<exists>op. mget (mn_operations m) k = Some op \<and> op_next op op'" by auto
  next
    fix k op
    assume "mget (mn_operations m) k = Some op" "op_live op"
    with fold_forget_operations [of ids m k] show "mget (mn_operations (fold forget ids m)) k \<noteq> None" by auto
  qed
  with pending_ids_cong [OF m'(2,3)] m'(4,5) show ?thesis by (simp add: quiet_def)
qed

lemma swept_core:
  assumes "swept D removed m m'"
  shows "mn_operations m' = mn_operations m" "mn_targets m' = mn_targets m" "mn_workers m' = mn_workers m"
    "mn_finished m' = mn_finished m" "mn_readOnly m' = mn_readOnly m" "mn_cancels m' = mn_cancels m"
proof -
  have "m' = m\<lparr>mn_records := mn_records m', mn_journals := mn_journals m'\<rparr>"
    using assms unfolding swept_def by blast
  then obtain rc jr where "m' = m\<lparr>mn_records := rc, mn_journals := jr\<rparr>" by blast
  then show "mn_operations m' = mn_operations m" "mn_targets m' = mn_targets m" "mn_workers m' = mn_workers m"
    "mn_finished m' = mn_finished m" "mn_readOnly m' = mn_readOnly m" "mn_cancels m' = mn_cancels m"
    by simp_all
qed

lemma retire_sweep_core:
  "mn_operations (retire_sweep cfg io now m) = mn_operations m \<and>
   mn_targets (retire_sweep cfg io now m) = mn_targets m \<and>
   mn_workers (retire_sweep cfg io now m) = mn_workers m \<and>
   mn_finished (retire_sweep cfg io now m) = mn_finished m \<and>
   mn_readOnly (retire_sweep cfg io now m) = mn_readOnly m \<and>
   mn_cancels (retire_sweep cfg io now m) = mn_cancels m"
proof -
  let ?m0 = "m\<lparr>mn_lastSweep := now\<rparr>"
  obtain removed m1 where s: "sweepRetention io now (cf_maxHistoryAge cfg) (cf_maxOperations cfg) ?m0 = (removed, m1)"
    by fastforce
  note swept_core [OF swept_sweepRetention [OF s]]
  with s show ?thesis by (simp add: retire_sweep_def Let_def)
qed

lemma retire_sweep_quiet: "quiet m (retire_sweep cfg io now m)"
  using retire_sweep_core [of cfg io now m] by (intro quiet_same) blast+

lemma run_finish_ends:
  assumes inv: "inv m" and w: "mget (mn_workers m) t = Some (Finishing j st ex msg rec slot)"
  shows "ends m (run_finish cfg io t j st ex msg rec m)"
proof -
  obtain op where op: "mget (mn_operations m) (jb_id j) = Some op" "op_id op = jb_id j" "op_target op = t"
    "op_active op" "place_ok (Finishing j st ex msg rec slot) op"
    using job_at [OF inv w pc_job.simps(10)] by metis
  let ?op1 = "op\<lparr>op_status := st, op_finished_at := Some (oi_now io), op_error := msg,
      op_reconciliation := (case rec of None \<Rightarrow> op_reconciliation op | Some r \<Rightarrow> Some r),
      op_exit_code := (if 0 \<le> ex then Some ex else op_exit_code op)\<rparr>"
  let ?m' = "run_finish cfg io t j st ex msg rec m"
  have f: "mn_operations ?m' = mput (jb_id j) ?op1 (mn_operations m)"
    "mn_workers ?m' = mput t AtQueue (mn_workers m)" "mn_targets ?m' = mn_targets m"
    "mn_finished ?m' = mn_finished m @ [?op1]" "mn_readOnly ?m' = mn_readOnly m"
    using op(1,2,4) by (auto simp: run_finish_def finishReconciled_def Let_def set_pc_def op_frame
        put_operation_def closeSubscribersLocked_def)
  have "op_next op ?op1"
    by (rule op_next_live [OF op(4)]) (use op(5) in \<open>simp_all add: same_identity_def\<close>)
  then have "ops_step m ?m'" by (rule ops_step_put [OF f(1) op(1)])
  moreover have "pending_ids m t = op_id op # map jb_id (queued_jobs m t)"
    using w op(2) by (simp add: pending_ids_def pending_jobs_def current_jobs_def)
  moreover have "pending_ids ?m' = (pending_ids m)(t := map jb_id (queued_jobs m t))"
    by (auto simp: pending_ids_def pending_jobs_def current_jobs_def queued_jobs_def f fun_eq_iff)
  ultimately show ?thesis
    unfolding ends_def using op(2,3) f(1,4,5) by (intro conjI exI [of _ ?op1] exI [of _ "map jb_id (queued_jobs m t)"]) simp_all
qed

lemma budget_error_cong:
  "mn_operations m' = mn_operations m \<Longrightarrow> budget_error cfg target scope m' = budget_error cfg target scope m"
  by (simp add: budget_error_def target_depth_def live_count_def principal_count_def)

lemma publish_pending:
  assumes "inv m"
  shows "pending_ids (publish key op initial cmd m) =
    (pending_ids m)(op_target op := pending_ids m (op_target op) @ [op_id op])"
proof -
  let ?t = "op_target op" and ?m' = "publish key op initial cmd m"
  have t: "target_ok m ?t" using assms by (simp add: inv_def)
  have at: "mget (mn_targets ?m') ?t = Some \<lparr>rn_queue = queued_jobs m ?t @ [\<lparr>jb_id = op_id op, jb_command = cmd\<rparr>],
      rn_busy = True\<rparr>"
    "mget (mn_workers ?m') ?t = (case mget (mn_workers m) ?t of None \<Rightarrow> Some AtQueue | Some p \<Rightarrow> Some p)"
    using t
    by (auto simp: publish_def admitToTarget_def Let_def mgetd_def queued_jobs_def target_ok_def
        split: option.splits)
  have other: "mget (mn_targets ?m') k = mget (mn_targets m) k \<and> mget (mn_workers ?m') k = mget (mn_workers m) k"
    if "k \<noteq> ?t" for k
    using that by (simp add: publish_def admitToTarget_def Let_def)
  have "pending_ids ?m' k = (if k = ?t then pending_ids m k @ [op_id op] else pending_ids m k)" for k
    using other [of k] at
    by (auto simp: pending_ids_def pending_jobs_def current_jobs_def queued_jobs_def split: option.splits)
  then show ?thesis by auto
qed

lemma enqueue_admit_effect:
  assumes inv: "inv m" and ro: "\<not> mn_readOnly m" and adm: "admissible (DoAdmit req key retryOf attempt act bld io) m"
  shows "quiet m (snd (enqueue_admit cfg req key retryOf attempt act bld io m)) \<or>
    admits cfg m (snd (enqueue_admit cfg req key retryOf attempt act bld io m))"
proof (cases "\<exists>cmd admitted target. bld = Inr (cmd, admitted, target) \<and> \<not> mn_admissionClosed m")
  case False
  then show ?thesis by (cases bld) (auto simp: enqueue_admit_def Let_def)
next
  case True
  then obtain cmd admitted target where b: "bld = Inr (cmd, admitted, target)" "\<not> mn_admissionClosed m"
    by blast
  let ?req = "normalizeMode req" and ?now = "oi_now (ai_io io)"
  obtain res m1 where l: "lookupReplayLocked cfg (IdempotencyScope act, key) (cf_hash cfg ?req) ?now m = (res, m1)"
    by fastforce
  have q1: "quiet m m1" by (rule lookup_quiet [OF l])
  have m1: "mn_operations m1 = mn_operations m" "mn_finished m1 = mn_finished m"
    "mn_targets m1 = mn_targets m" "mn_workers m1 = mn_workers m" "mn_readOnly m1 = mn_readOnly m"
    using lookup_frame(1) [OF l] by auto
  have inv1: "inv m1" by (rule inv_lookup [OF inv l])
  show ?thesis
  proof (cases "res = NoReplay \<and> budget_error cfg target (IdempotencyScope act) m1 = None \<and> ai_id io \<noteq> None")
    case False
    then have "snd (enqueue_admit cfg req key retryOf attempt act bld io m) = m1"
      using b l by (cases res) (auto simp: enqueue_admit_def Let_def split: option.split)
    with q1 show ?thesis by simp
  next
    case True
    then obtain nid where n: "ai_id io = Some nid" by blast
    have l': "lookupReplayLocked cfg (IdempotencyScope act, key) (cf_hash cfg ?req) ?now m = (NoReplay, m1)"
      and bud: "budget_error cfg target (IdempotencyScope act) m1 = None"
      using l True by blast+
    define m2 where "m2 = m1\<lparr>mn_admissionSeq := mn_admissionSeq m1 + 1\<rparr>"
    define op where "op = admitted_operation cfg ?req key retryOf attempt act cmd admitted target nid ?now (mn_admissionSeq m2)"
    define e where "e = \<lparr>ev_seq = 1, ev_op = nid, ev_type = EventStatus, ev_data = status_text StatusQueued, ev_at = ?now\<rparr>"
    obtain ok m3 where a: "store_append cfg (oi_event (ai_io io)) nid e m2 = (ok, m3)" by fastforce
    obtain saved m4 where s: "saveOperation (oi_save (ai_io io)) op m3 = (saved, m4)" by fastforce
    have f3: "event_only m2 m3" using store_append_only [of m2 cfg "oi_event (ai_io io)" nid e] a by simp
    have f: "mn_operations m3 = mn_operations m1" "mn_targets m3 = mn_targets m1" "mn_workers m3 = mn_workers m1"
      "mn_finished m3 = mn_finished m1" "mn_readOnly m3 = mn_readOnly m1"
      using f3 by (simp_all add: event_only_def m2_def)
    have g: "mn_operations m4 = mn_operations m3" "mn_targets m4 = mn_targets m3" "mn_workers m4 = mn_workers m3"
      "mn_finished m4 = mn_finished m3" "mn_idempotency m4 = mn_idempotency m3"
      "mn_cancels m4 = mn_cancels m3" "mn_readOnly m4 = mn_readOnly m3"
      using save_frame [of "oi_save (ai_io io)" op m3] s by simp_all
    have opf: "op_id op = nid" "op_target op = target" "op_status op = StatusQueued" "op_actor op = act"
      by (simp_all add: op_def admitted_operation_def)
    have fresh: "mget (mn_operations m) nid = None" "mget (mn_records m) nid = None"
      "\<forall>fin\<in>set (mn_finished m). op_id fin \<noteq> nid"
      using adm n by simp_all
    note res = enqueue_admit_new [OF b l' bud n m2_def op_def e_def a s]
    consider "\<not> ok" | "ok" "\<not> saved" | "ok" "saved" by blast
    then show ?thesis
    proof cases
      case 1
      have "quiet m (noteEventErrLocked ?now m3)"
        by (rule quiet_same) (simp_all add: op_frame f m1)
      with 1 res show ?thesis by simp
    next
      case 2
      have "quiet m ((noteRecordErrLocked ?now m4)\<lparr>mn_journals := jn\<rparr>)" for jn
        by (rule quiet_same) (simp_all add: op_frame f g m1)
      with 2 res show ?thesis by simp
    next
      case 3
      let ?m' = "publish key op e cmd m4"
      have same: "pending_ids m4 = pending_ids m"
        by (rule pending_ids_cong) (simp_all add: f g m1)
      have "pending_ids ?m' = (pending_ids m4)(target := pending_ids m4 target @ [nid])"
      proof -
        have inv2: "inv m2" using inv1 inv_cong [of m2 m1] by (simp add: m2_def)
        then have inv3: "inv m3" using inv_event_only [OF f3] by simp
        have "nid \<notin> set (mn_cancels m3)"
          using cancels_operation [OF inv3, of nid] fresh(1) by (auto simp: f m1)
        moreover have "same_or_put nid (\<lambda>_. True) m3 m4"
          by (rule same_or_put_save [where sv = "oi_save (ai_io io)" and op = op and ?m0.0 = m3])
            (use s opf in simp_all)
        ultimately have "inv m4" by (intro inv_records [OF inv3]) (simp_all add: g)
        from publish_pending [OF this] show ?thesis by (simp add: opf)
      qed
      moreover have "mn_operations ?m' = mput nid op (mn_operations m)" "mn_finished ?m' = mn_finished m"
        "mn_readOnly ?m' = mn_readOnly m"
        using opf by (simp_all add: publish_def admitToTarget_def Let_def f g m1)
      moreover have "budget_error cfg target (IdempotencyScope act) m = None"
        using bud budget_error_cong [OF m1(1)] by simp
      ultimately have "admits cfg m ?m'"
        unfolding admits_def admits_op_def using fresh b(2) ro by (intro exI [of _ op]) (simp add: opf same)
      with 3 res show ?thesis by simp
    qed
  qed
qed

text \<open>The classification: what any action does to the operations and the queues.\<close>

lemma perform_effect:
  assumes inv: "inv m" and adm: "admissible a m"
  shows "quiet m (perform cfg a m) \<or> ends m (perform cfg a m) \<or> admits cfg m (perform cfg a m)"
proof (cases a)
  case (DoAdmit req key retryOf attempt act bld io)
  with enqueue_admit_effect [OF inv _ adm [unfolded DoAdmit]] show ?thesis by auto
next
  case (DoLookup req key act now)
  then show ?thesis using enqueue_lookup_quiet by simp
next
  case (DoCancel io i)
  then show ?thesis using Cancel_quiet [OF inv] by simp
next
  case (DoReconcile io d answer i)
  then show ?thesis using reconcileOne_quiet [OF inv] by simp
next
  case (DoSweep io now)
  then show ?thesis using retire_sweep_quiet by simp
next
  case (DoForget now)
  then show ?thesis using retire_forget_quiet by simp
next
  case (DoReplay io i sq)
  have "quiet m (snd (EventsAfter io i sq m))"
    using quiet_event_only [OF replayLocked_only]
    by (cases "replayLocked io i sq m") (auto simp: EventsAfter_def split: option.split)
  with DoReplay show ?thesis by simp
next
  case (DoSubscribe io i sq c)
  have "event_only m (snd (Subscribe io i sq c m))"
  proof (cases "replayLocked io i sq m")
    case (Pair es m1)
    have sub: "event_only m1 (m1\<lparr>mn_subscribers := x\<rparr>)" for x by (simp add: event_only_def)
    from Pair event_only_trans [OF replayLocked_only [OF Pair] sub] replayLocked_only [OF Pair] show ?thesis
      by (simp add: Subscribe_def split: option.split)
  qed
  with quiet_event_only DoSubscribe show ?thesis by simp
next
  case (DoUnsubscribe i c)
  have "quiet m (Unsubscribe i c m)" by (rule quiet_same; simp add: Unsubscribe_def split: option.split)
  with DoUnsubscribe show ?thesis by simp
next
  case DoSeal
  have "quiet m (shutdown_seal m)" by (rule quiet_same) (simp_all add: shutdown_seal_def)
  with DoSeal show ?thesis by simp
next
  case DoForce
  have "quiet m (shutdown_force m)" by (rule quiet_same) (simp_all add: shutdown_force_def)
  with DoForce show ?thesis by simp
next
  case (DoPop t)
  with run_pop_quiet [OF inv] show ?thesis by (simp add: worker_step_def split: option.split pc.split)
next
  case (DoCheckContext t)
  then show ?thesis
    by (auto simp: worker_step_def run_check_context_def quiet_set_pc split: option.split pc.split)
next
  case (DoSelect t pref)
  then show ?thesis
    by (auto simp: worker_step_def run_select_def Let_def quiet_set_pc split: option.split pc.split)
next
  case (DoStart t io)
  with run_start_quiet [OF inv] show ?thesis by (simp add: worker_step_def split: option.split pc.split)
next
  case (DoOutput t io st out)
  with quiet_event_only [OF emit_only] show ?thesis
    by (simp add: worker_step_def run_output_def split: option.split pc.split)
next
  case (DoReturn t ex err)
  then show ?thesis
    by (auto simp: worker_step_def run_return_def quiet_set_pc split: option.split pc.split)
next
  case (DoBeginStopping t io)
  with run_begin_stopping_quiet [OF inv] show ?thesis by (simp add: worker_step_def split: option.split pc.split)
next
  case (DoReadFlag t)
  then show ?thesis
    by (auto simp: worker_step_def run_read_flag_def quiet_set_pc split: option.split pc.split)
next
  case (DoResolve t now answer)
  then show ?thesis
    by (auto simp: worker_step_def run_resolve_def quiet_set_pc split: option.split pc.split prod.split)
next
  case (DoFinish t io)
  with run_finish_ends [OF inv] show ?thesis by (simp add: worker_step_def split: option.split pc.split)
next
  case (DoCheckTarget t res byId)
  have "quiet m (run_check_target res byId t j m)" if w: "mget (mn_workers m) t = Some (HasSlot j)" for j
  proof -
    obtain op where "mget (mn_operations m) (jb_id j) = Some op"
      using job_at [OF inv w pc_job.simps(4)] by metis
    then show ?thesis
      by (auto simp: run_check_target_def quiet_set_pc [OF w] split: sum.split)
  qed
  with DoCheckTarget show ?thesis by (simp add: worker_step_def split: option.split pc.split)
qed

end
