(* ===== verification/OpLifecycle.thy ===== *)
theory OpLifecycle
  imports OpEffect "HOL-Library.Code_Target_Nat"
begin

text \<open>
  What holds of the operation service in every state it can reach, by any interleaving of its
  goroutines, any outcome of its storage calls and any number of restarts: no lost work,
  one worker and strict FIFO per target, the life cycle of an operation, honest outcomes,
  the admission budgets and the bound on concurrent executions.
\<close>

section \<open>A run of the model\<close>

fun runs :: "config \<Rightarrow> action list \<Rightarrow> manager \<Rightarrow> bool" where
  "runs cfg [] m = True"
| "runs cfg (a # as) m = (admissible a m \<and> runs cfg as (perform cfg a m))"

lemma reachable_runs: "reachable cfg m \<Longrightarrow> runs cfg as m \<Longrightarrow> reachable cfg (fold (perform cfg) as m)"
  by (induction as arbitrary: m) (auto intro: reachable.act)

definition demo_config :: config where
  "demo_config = with_defaults
     \<lparr>cf_maxEvents = 0, cf_maxJournalBytes = 0, cf_maxHistoryAge = 0, cf_maxOperations = 0,
      cf_maxQueuedPerTarget = 2, cf_maxLive = 0, cf_maxLivePerPrincipal = 0, cf_maxConcurrent = 1,
      cf_idempotencyWindow = 0, cf_reader = True, cf_actorArgs = None,
      cf_build = \<lparr>env_var_stdin = Inr True, env_legacy_argv = False, env_json = (\<lambda>_. [])\<rparr>,
      cf_hash = rq_app, cf_enclen = (\<lambda>_. 100)\<rparr>"

definition demo_request :: request where
  "demo_request = \<lparr>rq_kind = KindRedeploy, rq_server = ''web'', rq_app = ''shop'', rq_mode = [], rq_image = [],
     rq_domain = [], rq_port = 0, rq_template = [], rq_home = [], rq_template_version = [], rq_vars = [],
     rq_action = [], rq_purge = False, rq_redirect = [], rq_to = [], rq_accessory = [], rq_backup_id = [],
     rq_database = [], rq_no_backup = False, rq_keep = 0\<rparr>"

definition demo_resolver :: resolver where
  "demo_resolver = Some (\<lambda>n. Inr \<lparr>sv_name = n, sv_id = ''s1'', sv_host = ''10.0.0.5'', sv_user = []\<rparr>)"

definition demo_io :: "time \<Rightarrow> op_io" where
  "demo_io now = \<lparr>oi_now = now, oi_save = SaveOk, oi_marker = append_ok, oi_event = append_ok\<rparr>"

definition demo_admit :: "string \<Rightarrow> string \<Rightarrow> time \<Rightarrow> action" where
  "demo_admit nid key now = DoAdmit demo_request key [] 1 None
     (Build (cf_build demo_config) demo_request demo_resolver)
     \<lparr>ai_id = Some nid, ai_io = demo_io now, ai_discard = True\<rparr>"

definition demo_target :: string where
  "demo_target = ''server:web/app:shop''"

definition demo_start_io :: start_io where
  "demo_start_io = \<lparr>so_now = 0, so_delete = (\<lambda>_. (True, True)), so_scan = (\<lambda>_. scan_ok),
     so_recover = (\<lambda>_. demo_io 0)\<rparr>"

text \<open>Two admissions for one target; the first one runs and is canceled while it runs.\<close>

definition demo_running :: manager where
  "demo_running = fold (perform demo_config)
     [demo_admit ''a'' ''k'' 1, demo_admit ''b'' [] 2, DoPop demo_target, DoCheckContext demo_target,
      DoSelect demo_target True, DoCheckTarget demo_target demo_resolver None,
      DoStart demo_target (demo_io 3)] (empty_manager False 0)"

definition demo_done :: manager where
  "demo_done = fold (perform demo_config)
     [DoCancel (demo_io 4) ''a'', DoReturn demo_target 0 None, DoBeginStopping demo_target (demo_io 5),
      DoReadFlag demo_target, DoResolve demo_target 6 (Inr \<lparr>rc_applied = True, rc_evidence = ''v2''\<rparr>),
      DoFinish demo_target (demo_io 7)] demo_running"

lemma demo_start_reachable: "reachable demo_config (empty_manager False 0)"
proof (rule reachable.boot)
  show "New demo_config demo_start_io ([], []) = Some ([], empty_manager False 0)"
    by (simp add: New_def demo_start_io_def sweepRetention_def empty_manager_def Let_def)
  show "disk_ok ([], [])" by (simp add: disk_ok_def)
qed

lemma demo_running_reachable: "reachable demo_config demo_running"
  unfolding demo_running_def by (rule reachable_runs [OF demo_start_reachable]) code_simp

lemma demo_done_reachable: "reachable demo_config demo_done"
  unfolding demo_done_def by (rule reachable_runs [OF demo_running_reachable]) code_simp

section \<open>No work is lost\<close>

text \<open>
  No admitted work is lost or duplicated. In every reachable state each operation that is
  not over stands exactly once in the pipeline of its own target and in no other, only one
  worker serves a target, and its record on disk is not over either, so a restart will find it.
\<close>

theorem live_work_is_pending:
  assumes r: "reachable cfg m" and ro: "\<not> mn_readOnly m"
    and op: "mget (mn_operations m) i = Some op" and live: "op_live op"
  shows "i \<in> set (pending_ids m (op_target op)) \<and> distinct (pending_ids m (op_target op)) \<and>
    (\<forall>t. i \<in> set (pending_ids m t) \<longrightarrow> t = op_target op) \<and>
    distinct (map fst (mn_workers m)) \<and>
    (\<exists>s. mget (mn_records m) i = Some s \<and> op_live (st_operation s))"
proof -
  have inv: "inv m" using r by (rule reachable_inv)
  then have tgt: "\<forall>t. target_ok m t" and can: "cancels_ok m" and dur: "durable m" and maps: "maps_ok m"
    by (simp_all add: inv_def)
  have i: "i \<in> set (mn_cancels m)" using can ro op live by (auto simp: cancels_ok_def)
  have only: "t = op_target op" if "i \<in> set (pending_ids m t)" for t
  proof -
    from that obtain j where "j \<in> set (pending_jobs m t)" "i = jb_id j" by (auto simp: pending_ids_def)
    with pending_target [OF tgt, of j t op] op show ?thesis by simp
  qed
  from can i obtain t where t: "i \<in> set (pending_ids m t)"
    unfolding cancels_ok_def pending_ids_def set_map by blast
  from dur i obtain s where "mget (mn_records m) i = Some s" "op_active (st_operation s)"
    by (auto simp: durable_def)
  moreover from this(2) have "op_live (st_operation s)" by (rule active_live)
  moreover have "distinct (pending_ids m (op_target op))"
    using tgt by (simp add: target_ok_def pending_ids_def)
  moreover have "distinct (map fst (mn_workers m))"
    using maps by (simp add: maps_ok_def gomap_ok_def)
  ultimately show ?thesis
    using only [OF t] t only by blast
qed

theorem live_work_is_pending_witness:
  "\<exists>op. mget (mn_operations demo_running) ''b'' = Some op \<and> ''b'' \<in> set (pending_ids demo_running (op_target op))"
proof -
  have a: "map_option op_status (mget (mn_operations demo_running) ''b'') = Some StatusQueued \<and> \<not> mn_readOnly demo_running"
    by code_simp
  then obtain op where op: "mget (mn_operations demo_running) ''b'' = Some op" "op_status op = StatusQueued"
    by auto
  from live_work_is_pending [OF demo_running_reachable conjunct2 [OF a] op(1)] op show ?thesis by auto
qed

section \<open>First in, first out\<close>

text \<open>Everything a target ever did or is going to do: what it finished, then what is pending.\<close>

definition history :: "manager \<Rightarrow> string \<Rightarrow> string list" where
  "history m t = map op_id (filter (\<lambda>op. op_target op = t) (mn_finished m)) @ pending_ids m t"

lemma history_effect:
  assumes "inv m" and "admissible a m"
  shows "(\<forall>t. history (perform cfg a m) t = history m t) \<or>
    (\<exists>t i. mget (mn_operations m) i = None \<and> (\<forall>f\<in>set (mn_finished m). op_id f \<noteq> i) \<and>
       history (perform cfg a m) = (history m)(t := history m t @ [i]))"
  using perform_effect [OF assms, of cfg]
proof (elim disjE)
  assume "quiet m (perform cfg a m)"
  then show ?thesis by (simp add: history_def quiet_def)
next
  assume "ends m (perform cfg a m)"
  then show ?thesis by (auto simp: history_def ends_def)
next
  assume "admits cfg m (perform cfg a m)"
  then obtain op where op: "admits_op cfg op m (perform cfg a m)"
    unfolding admits_def by (rule exE)
  then have "history (perform cfg a m) = (history m)(op_target op := history m (op_target op) @ [op_id op])"
    by (simp add: admits_op_def history_def fun_eq_iff)
  moreover have "mget (mn_operations m) (op_id op) = None" "\<forall>f\<in>set (mn_finished m). op_id f \<noteq> op_id op"
    using op unfolding admits_op_def by simp_all
  ultimately show ?thesis by blast
qed

lemma target_step:
  assumes "reachable cfg m" and "admissible a m"
  shows "\<exists>new. history (perform cfg a m) t = history m t @ new \<and> length new \<le> 1 \<and>
    set new \<inter> set (history m t) = {}"
proof -
  have inv: "inv m" using assms(1) by (rule reachable_inv)
  have ops: "mget (mn_operations m) i \<noteq> None" if "i \<in> set (pending_ids m t)" for i
  proof -
    from that obtain j where "j \<in> set (pending_jobs m t)" "i = jb_id j" by (auto simp: pending_ids_def)
    with inv pending_job_ok [of m t j] show ?thesis by (auto simp: inv_def job_ok_def)
  qed
  show ?thesis
    using history_effect [OF inv assms(2), of cfg]
  proof (elim disjE exE conjE)
    assume "\<forall>t. history (perform cfg a m) t = history m t"
    then show ?thesis by (intro exI [of _ "[]"]) simp
  next
    fix t' i
    assume i: "mget (mn_operations m) i = None" "\<forall>f\<in>set (mn_finished m). op_id f \<noteq> i"
      and h: "history (perform cfg a m) = (history m)(t' := history m t' @ [i])"
    have "i \<notin> set (pending_ids m t)" using ops [of i] i(1) by metis
    with i(2) have "i \<notin> set (history m t)" by (auto simp: history_def)
    with h show ?thesis
      by (cases "t = t'") (auto intro!: exI [of _ "if t = t' then [i] else []"])
  qed
qed

text \<open>
  C3. Strict FIFO per target. Whatever action runs next, the sequence of operations a target
  has finished, is executing and will execute keeps its order and only grows at the end:
  nothing overtakes, nothing drops out, nothing runs twice.
\<close>

theorem target_is_fifo:
  assumes "reachable cfg m" and "admissible a m"
  shows "\<exists>new. history (perform cfg a m) t = history m t @ new \<and> length new \<le> 1 \<and>
    set new \<inter> set (history m t) = {}"
  using assms by (rule target_step)

theorem target_is_fifo_witness:
  "history demo_running demo_target = [''a'', ''b''] \<and> history demo_done demo_target = [''a'', ''b''] \<and>
   (\<exists>new. history (perform demo_config DoSeal demo_done) demo_target = history demo_done demo_target @ new)"
proof (intro conjI)
  show "history demo_running demo_target = [''a'', ''b'']" "history demo_done demo_target = [''a'', ''b'']"
    by code_simp+
  have "admissible DoSeal demo_done" by simp
  from target_is_fifo [OF demo_done_reachable this]
  show "\<exists>new. history (perform demo_config DoSeal demo_done) demo_target = history demo_done demo_target @ new"
    by blast
qed

section \<open>The life cycle of an operation\<close>

lemma ops_stepD:
  "ops_step m m' \<Longrightarrow> mget (mn_operations m) i = Some op \<Longrightarrow> mget (mn_operations m') i = Some op' \<Longrightarrow>
   op_next op op'"
  unfolding ops_step_def by (metis option.inject)

lemma perform_ops_step:
  assumes "inv m" and "admissible a m" and "mget (mn_operations m) i = Some op"
    and "mget (mn_operations (perform cfg a m)) i = Some op'"
  shows "op_next op op'"
  using perform_effect [OF assms(1,2), of cfg]
proof (elim disjE)
  assume "admits cfg m (perform cfg a m)"
  then obtain new where "admits_op cfg new m (perform cfg a m)" unfolding admits_def by (rule exE)
  then have "mget (mn_operations m) (op_id new) = None"
    "mn_operations (perform cfg a m) = mput (op_id new) new (mn_operations m)"
    by (simp_all add: admits_op_def)
  with assms(3,4) show ?thesis by (auto split: if_splits)
next
  assume "quiet m (perform cfg a m)"
  then have "ops_step m (perform cfg a m)" by (simp add: quiet_def)
  then show ?thesis using assms(3,4) by (rule ops_stepD)
next
  assume "ends m (perform cfg a m)"
  then have "ops_step m (perform cfg a m)" by (simp add: ends_def)
  then show ?thesis using assms(3,4) by (rule ops_stepD)
qed

text \<open>
  C2. The life cycle. One action moves an operation along an edge of its state machine or not at
  all; what was admitted (request, target, principal, key, server snapshot, lineage) never
  changes; and an operation that is over never changes again, except that the pending
  receipt question of an interrupted one is answered once.
\<close>

theorem operation_life_cycle:
  assumes "reachable cfg m" and "admissible a m"
    and "mget (mn_operations m) i = Some op" and "mget (mn_operations (perform cfg a m)) i = Some op'"
  shows "status_edge (op_status op) (op_status op') \<and> same_identity op op' \<and>
    (terminal (op_status op) \<longrightarrow> op' = op \<or>
       is_reconciling op \<and> \<not> is_reconciling op' \<and> op'\<lparr>op_reconciliation := op_reconciliation op\<rparr> = op)"
proof -
  have nxt: "op_next op op'"
    using perform_ops_step [OF reachable_inv [OF assms(1)] assms(2-4)] .
  have "op' = op \<or> is_reconciling op \<and> \<not> is_reconciling op' \<and> op'\<lparr>op_reconciliation := op_reconciliation op\<rparr> = op"
    if "terminal (op_status op)"
  proof -
    from nxt that consider "op' = op"
      | r where "is_reconciling op" "rec_state r \<noteq> ReconcileStateReconciling" "op' = op\<lparr>op_reconciliation := Some r\<rparr>"
      unfolding op_next_def by metis
    then show ?thesis by cases (simp_all add: is_reconciling_def)
  qed
  with nxt show ?thesis unfolding op_next_def by blast
qed

theorem operation_life_cycle_witness:
  "\<exists>op op'. mget (mn_operations demo_running) ''a'' = Some op \<and> op_status op = StatusRunning \<and>
     mget (mn_operations (perform demo_config (DoCancel (demo_io 4) ''a'') demo_running)) ''a'' = Some op' \<and>
     op_status op' = StatusCancelRequested \<and> same_identity op op'"
proof -
  have "map_option op_status (mget (mn_operations demo_running) ''a'') = Some StatusRunning"
    "map_option op_status (mget (mn_operations (perform demo_config (DoCancel (demo_io 4) ''a'') demo_running)) ''a'')
       = Some StatusCancelRequested"
    by code_simp+
  then obtain op op' where o: "mget (mn_operations demo_running) ''a'' = Some op" "op_status op = StatusRunning"
    "mget (mn_operations (perform demo_config (DoCancel (demo_io 4) ''a'') demo_running)) ''a'' = Some op'"
    "op_status op' = StatusCancelRequested"
    by auto
  have "admissible (DoCancel (demo_io 4) ''a'') demo_running" by simp
  from operation_life_cycle [OF demo_running_reachable this o(1,3)] o show ?thesis by blast
qed

section \<open>Honest outcomes\<close>

lemma reachable_history_distinct:
  assumes "reachable cfg m"
  shows "distinct (history m t)"
  using assms
proof (induction rule: reachable.induct)
  case (boot io d p m)
  show ?case
  proof (rule New_spec [OF boot])
    assume "at_rest m"
    then show "distinct (history m t)"
      by (simp add: at_rest_def history_def pending_ids_def pending_jobs_def current_jobs_def queued_jobs_def)
  qed
next
  case (act m a)
  from target_step [OF act.hyps, of t] obtain new where
    new: "history (perform cfg a m) t = history m t @ new" "length new \<le> 1" "set new \<inter> set (history m t) = {}"
    by blast
  from new(2) have "distinct new" by (cases new) auto
  with new act.IH show ?case by auto
qed

text \<open>An identifier that names a stored operation at every moment of a run.\<close>

fun stays_stored :: "config \<Rightarrow> string \<Rightarrow> action list \<Rightarrow> manager \<Rightarrow> bool" where
  "stays_stored cfg i [] m = (mget (mn_operations m) i \<noteq> None)"
| "stays_stored cfg i (a # as) m =
     (mget (mn_operations m) i \<noteq> None \<and> stays_stored cfg i as (perform cfg a m))"

lemma stays_stored_hd: "stays_stored cfg i as m \<Longrightarrow> mget (mn_operations m) i \<noteq> None"
  by (cases as) simp_all

lemma over_is_frozen:
  assumes "reachable cfg m" and "runs cfg as m" and "stays_stored cfg i as m"
    and "mget (mn_operations m) i = Some op" and "terminal (op_status op)"
  shows "\<exists>op'. mget (mn_operations (fold (perform cfg) as m)) i = Some op' \<and>
    op'\<lparr>op_reconciliation := op_reconciliation op\<rparr> = op"
  using assms
proof (induction as arbitrary: m op)
  case Nil
  then show ?case by simp
next
  case (Cons a as)
  have adm: "admissible a m" and run: "runs cfg as (perform cfg a m)"
    and kept: "stays_stored cfg i as (perform cfg a m)"
    using Cons.prems(2,3) by simp_all
  obtain op1 where op1: "mget (mn_operations (perform cfg a m)) i = Some op1"
    using stays_stored_hd [OF kept] by blast
  have "op_next op op1" by (rule perform_ops_step [OF reachable_inv [OF Cons.prems(1)] adm Cons.prems(4) op1])
  then have same: "op1\<lparr>op_reconciliation := op_reconciliation op\<rparr> = op" and over: "terminal (op_status op1)"
    using Cons.prems(5) unfolding op_next_def by auto
  from Cons.IH [OF reachable.act [OF Cons.prems(1) adm] run kept op1 over] obtain op' where
    "mget (mn_operations (fold (perform cfg) as (perform cfg a m))) i = Some op'"
    and later: "op'\<lparr>op_reconciliation := op_reconciliation op1\<rparr> = op1"
    by blast
  moreover have "op'\<lparr>op_reconciliation := op_reconciliation op\<rparr> = op"
    using arg_cong [OF later, of "\<lambda>x. x\<lparr>op_reconciliation := op_reconciliation op\<rparr>"] same by simp
  ultimately show ?case by simp
qed

text \<open>
  C1. Within one process, an operation ends once, truthfully and for good. After any run from a
  reachable state, no identifier occurs twice among the finished and pending operations of a
  target; every operation that the workers reported as finished is reported as succeeded only if
  its command was started and exited with 0, as already committed exactly when the receipt says that the
  effect landed, and never while it could still change; and an operation that was over at the
  beginning of the run, recovered ones included, still has the same status, exit code, error and
  times at its end if it was stored all along: only the answer of a receipt may have been added.
\<close>

theorem finished_once_and_honestly:
  assumes "reachable cfg m" and "runs cfg as m"
  shows "let m' = fold (perform cfg) as m in
    distinct (history m' t) \<and> (\<forall>op\<in>set (mn_finished m'). honest op) \<and>
    (\<forall>i op. mget (mn_operations m) i = Some op \<longrightarrow> terminal (op_status op) \<longrightarrow> stays_stored cfg i as m \<longrightarrow>
      (\<exists>op'. mget (mn_operations m') i = Some op' \<and> op'\<lparr>op_reconciliation := op_reconciliation op\<rparr> = op))"
proof -
  have r: "reachable cfg (fold (perform cfg) as m)" by (rule reachable_runs [OF assms])
  have "\<forall>op\<in>set (mn_finished (fold (perform cfg) as m)). honest op"
    using reachable_inv [OF r] by (simp add: inv_def)
  with reachable_history_distinct [OF r, of t] over_is_frozen [OF assms] show ?thesis by (simp add: Let_def)
qed

theorem finished_once_and_honestly_witness:
  "let m' = fold (perform demo_config) [DoCancel (demo_io 8) ''a'', DoPop demo_target, DoSeal] demo_done in
     map op_status (mn_finished m') = [StatusAlreadyCommitted] \<and>
     list_all honest (mn_finished m') \<and> distinct (history m' demo_target) \<and>
     map_option op_status (mget (mn_operations m') ''a'') = Some StatusAlreadyCommitted"
proof -
  let ?as = "[DoCancel (demo_io 8) ''a'', DoPop demo_target, DoSeal]"
  let ?m = "fold (perform demo_config) ?as demo_done"
  have r: "runs demo_config ?as demo_done" "stays_stored demo_config ''a'' ?as demo_done"
    and s: "map op_status (mn_finished ?m) = [StatusAlreadyCommitted]"
    and o: "map_option op_status (mget (mn_operations demo_done) ''a'') = Some StatusAlreadyCommitted"
    by code_simp+
  from o obtain op where op: "mget (mn_operations demo_done) ''a'' = Some op" "op_status op = StatusAlreadyCommitted"
    by auto
  note f = finished_once_and_honestly [OF demo_done_reachable r(1), of demo_target, unfolded Let_def]
  from op have "terminal (op_status op)" by simp
  with f op(1) r(2) obtain op' where op': "mget (mn_operations ?m) ''a'' = Some op'"
    "op'\<lparr>op_reconciliation := op_reconciliation op\<rparr> = op"
    by blast
  have "op_status op' = op_status op" using arg_cong [OF op'(2), of op_status] by simp
  then show ?thesis unfolding Let_def using f s op op'(1) by (simp add: list_all_iff)
qed

section \<open>Bounds\<close>

lemma slots_cong: "mn_workers m' = mn_workers m \<Longrightarrow> slots_used m' = slots_used m"
  by (simp add: slots_used_def)

text \<open>A place that holds a slot is only entered from one that does, except at the \<open>select\<close>.\<close>

lemma slots_put:
  assumes "maps_ok m" and "mget (mn_workers m) t = Some p" and "mn_workers m' = mput t p' (mn_workers m)"
    and "holds_slot p' \<longrightarrow> holds_slot p"
  shows "slots_used m' \<le> slots_used m"
  using count_vals_mput_old [of "mn_workers m" t p holds_slot p'] assms
  by (auto simp: slots_used_def maps_ok_def split: if_splits)

lemma slots_run_pop:
  assumes "maps_ok m" and "mget (mn_workers m) t = Some AtQueue"
  shows "slots_used (run_pop t m) \<le> slots_used m"
proof (cases "mget (mn_targets m) t")
  case None
  then show ?thesis by (simp add: run_pop_def slots_used_def count_vals_mdel_le)
next
  case (Some r)
  show ?thesis
  proof (cases "rn_queue r")
    case Nil
    with Some show ?thesis by (simp add: run_pop_def slots_used_def count_vals_mdel_le)
  next
    case (Cons j q)
    with Some show ?thesis
      by (intro slots_put [OF assms, where p' = "Popped j"]) (simp_all add: run_pop_def set_pc_def)
  qed
qed

lemma slots_publish: "slots_used (publish key op initial cmd m) = slots_used m"
  by (simp add: publish_def admitToTarget_def Let_def slots_used_def)

text \<open>What an admission does to the workers: nothing, or it publishes one job.\<close>

lemma enqueue_admit_workers:
  "mn_workers (snd (enqueue_admit cfg req key retryOf attempt act bld io m)) = mn_workers m \<or>
   (\<exists>op e cmd m1. snd (enqueue_admit cfg req key retryOf attempt act bld io m) = publish key op e cmd m1 \<and>
      mn_workers m1 = mn_workers m)"
proof (cases "\<exists>cmd admitted target. bld = Inr (cmd, admitted, target) \<and> \<not> mn_admissionClosed m")
  case False
  then show ?thesis by (cases bld) (auto simp: enqueue_admit_def Let_def)
next
  case True
  then obtain cmd admitted target where b: "bld = Inr (cmd, admitted, target)" "\<not> mn_admissionClosed m"
    by blast
  let ?req = "normalizeMode req" and ?now = "oi_now (ai_io io)"
  obtain res m1 where l: "lookupReplayLocked cfg (IdempotencyScope act, key) (cf_hash cfg ?req) ?now m = (res, m1)"
    by fastforce
  have m1: "mn_workers m1 = mn_workers m" using lookup_frame(1) [OF l] by auto
  show ?thesis
  proof (cases "res = NoReplay \<and> budget_error cfg target (IdempotencyScope act) m1 = None \<and> ai_id io \<noteq> None")
    case False
    then have "snd (enqueue_admit cfg req key retryOf attempt act bld io m) = m1"
      using b l by (cases res) (auto simp: enqueue_admit_def Let_def split: option.split)
    with m1 show ?thesis by simp
  next
    case True
    then obtain nid where n: "ai_id io = Some nid" by blast
    have l': "lookupReplayLocked cfg (IdempotencyScope act, key) (cf_hash cfg ?req) ?now m = (NoReplay, m1)"
      and bud: "budget_error cfg target (IdempotencyScope act) m1 = None"
      using l True by blast+
    define m2 where "m2 = m1\<lparr>mn_admissionSeq := mn_admissionSeq m1 + 1\<rparr>"
    define op where "op = admitted_operation cfg ?req key retryOf attempt act cmd admitted target nid ?now (mn_admissionSeq m2)"
    define e where "e = \<lparr>ev_seq = 1, ev_op = nid, ev_type = EventStatus, ev_data = status_text StatusQueued, ev_at = ?now\<rparr>"
    obtain ok m3 where a: "store_append cfg (oi_event (ai_io io)) nid e m2 = (ok, m3)" by fastforce
    obtain saved m4 where s: "saveOperation (oi_save (ai_io io)) op m3 = (saved, m4)" by fastforce
    have f: "mn_workers m3 = mn_workers m"
      using store_append_only [of m2 cfg "oi_event (ai_io io)" nid e] a m1 by (simp add: event_only_def m2_def)
    have g: "mn_workers m4 = mn_workers m"
      using save_frame [of "oi_save (ai_io io)" op m3] s f by simp
    note res = enqueue_admit_new [OF b l' bud n m2_def op_def e_def a s]
    show ?thesis
    proof (cases "ok \<and> saved")
      case True
      then have "snd (enqueue_admit cfg req key retryOf attempt act bld io m) = publish key op e cmd m4"
        unfolding res by simp
      with g show ?thesis by blast
    next
      case False
      then show ?thesis unfolding res using f g by (cases ok; cases saved; simp add: op_frame)
    qed
  qed
qed

lemma slots_enqueue_admit: "slots_used (snd (enqueue_admit cfg req key retryOf attempt act bld io m)) = slots_used m"
  using enqueue_admit_workers [of cfg req key retryOf attempt act bld io m] slots_publish slots_cong by metis

lemma slots_run_select:
  assumes "maps_ok m" and "mget (mn_workers m) t = Some (Waiting j)" and "0 < cf_maxConcurrent cfg"
    and "int (slots_used m) \<le> cf_maxConcurrent cfg"
  shows "int (slots_used (run_select cfg pref t j m)) \<le> cf_maxConcurrent cfg"
proof -
  have "slots_used (set_pc t (HasSlot j) m) = slots_used m + 1"
    using count_vals_mput_old [of "mn_workers m" t "Waiting j" holds_slot "HasSlot j"] assms(1,2)
    by (simp add: slots_used_def set_pc_def maps_ok_def)
  moreover have "slots_used (set_pc t (Finishing j StatusCanceled (- 1) (cancelReason m) None False) m) \<le> slots_used m"
    by (rule slots_put [OF assms(1,2), where p' = "Finishing j StatusCanceled (- 1) (cancelReason m) None False"])
      (simp_all add: set_pc_def)
  ultimately show ?thesis
    using assms(3,4) by (auto simp: run_select_def Let_def)
qed

lemma slots_set_pc:
  assumes "maps_ok m" and "mget (mn_workers m) t = Some p" and "mn_workers m1 = mn_workers m"
    and "holds_slot p' \<longrightarrow> holds_slot p"
  shows "slots_used (set_pc t p' m1) \<le> slots_used m"
  by (rule slots_put [OF assms(1,2)]) (use assms(3,4) in \<open>simp_all add: set_pc_def\<close>)

lemma setRunning_workers: "mn_workers (snd (setRunning cfg io i m)) = mn_workers m"
proof (cases "mget (mn_operations m) i")
  case (Some op)
  let ?n = "op\<lparr>op_status := StatusRunning, op_started_at := Some (oi_now io)\<rparr>"
  obtain saved m1 where s: "saveOperation (oi_save io) ?n (put_operation ?n m) = (saved, m1)" by fastforce
  have "mn_workers m1 = mn_workers m"
    using save_frame [of "oi_save io" ?n "put_operation ?n m"] s by (simp add: put_operation_def)
  with Some s show ?thesis by (cases saved) (simp_all add: setRunning_def Let_def op_frame)
qed (simp add: setRunning_def)

lemma beginStopping_workers: "mn_workers (snd (beginStopping cfg io i m)) = mn_workers m"
  by (simp add: beginStopping_def Let_def op_frame put_operation_def split: option.split)

lemma finishReconciled_workers: "mn_workers (finishReconciled cfg io i st ex msg rec m) = mn_workers m"
  by (simp add: finishReconciled_def Let_def op_frame put_operation_def closeSubscribersLocked_def split: option.split)

lemma Cancel_workers: "mn_workers (snd (Cancel cfg io i m)) = mn_workers m"
proof (cases "mget (mn_operations m) i")
  case (Some op)
  let ?n = "op\<lparr>op_status := StatusCancelRequested\<rparr>"
  obtain saved m1 where s: "saveOperation (oi_save io) ?n m = (saved, m1)" by fastforce
  have "mn_workers m1 = mn_workers m" using save_frame [of "oi_save io" ?n m] s by simp
  with Some s show ?thesis by (cases saved) (simp_all add: Cancel_def Let_def op_frame)
qed (simp add: Cancel_def)

lemma reconcileOne_workers: "mn_workers (reconcileOne cfg io d answer i m) = mn_workers m"
proof (cases "mget (mn_operations m) i")
  case (Some op)
  let ?n = "op\<lparr>op_reconciliation := Some (reconcile_answer (oi_now io) (readReceipt (cf_reader cfg) answer))\<rparr>"
  obtain saved m1 where s: "saveOperation (oi_save io) ?n m = (saved, m1)" by fastforce
  have "mn_workers m1 = mn_workers m" using save_frame [of "oi_save io" ?n m] s by simp
  with Some s show ?thesis
    by (cases saved) (simp_all add: reconcileOne_def Let_def op_frame put_operation_def)
qed (simp add: reconcileOne_def)

text \<open>The target whose worker moves in an action, and the action that admits an operation.\<close>

fun worker_of :: "action \<Rightarrow> string option" where
  "worker_of (DoPop t) = Some t"
| "worker_of (DoCheckContext t) = Some t"
| "worker_of (DoSelect t pref) = Some t"
| "worker_of (DoCheckTarget t res byId) = Some t"
| "worker_of (DoStart t io) = Some t"
| "worker_of (DoReturn t ex err) = Some t"
| "worker_of (DoBeginStopping t io) = Some t"
| "worker_of (DoReadFlag t) = Some t"
| "worker_of (DoResolve t now answer) = Some t"
| "worker_of (DoFinish t io) = Some t"
| "worker_of a = None"

fun admission :: "action \<Rightarrow> bool" where
  "admission (DoAdmit req key retryOf attempt act bld io) = True"
| "admission a = False"

lemma Cancel_targets: "mn_targets (snd (Cancel cfg io i m)) = mn_targets m"
proof (cases "mget (mn_operations m) i")
  case (Some op)
  let ?n = "op\<lparr>op_status := StatusCancelRequested\<rparr>"
  obtain saved m1 where s: "saveOperation (oi_save io) ?n m = (saved, m1)" by fastforce
  have "mn_targets m1 = mn_targets m" using save_frame [of "oi_save io" ?n m] s by simp
  with Some s show ?thesis by (cases saved) (simp_all add: Cancel_def Let_def op_frame)
qed (simp add: Cancel_def)

lemma reconcileOne_targets: "mn_targets (reconcileOne cfg io d answer i m) = mn_targets m"
proof (cases "mget (mn_operations m) i")
  case (Some op)
  let ?n = "op\<lparr>op_reconciliation := Some (reconcile_answer (oi_now io) (readReceipt (cf_reader cfg) answer))\<rparr>"
  obtain saved m1 where s: "saveOperation (oi_save io) ?n m = (saved, m1)" by fastforce
  have "mn_targets m1 = mn_targets m" using save_frame [of "oi_save io" ?n m] s by simp
  with Some s show ?thesis
    by (cases saved) (simp_all add: reconcileOne_def Let_def op_frame put_operation_def)
qed (simp add: reconcileOne_def)

text \<open>Only these two kinds of action touch the queues and the places of the workers.\<close>

lemma pipeline_frame:
  assumes "worker_of a = None" and "\<not> admission a"
  shows "mn_workers (perform cfg a m) = mn_workers m \<and> mn_targets (perform cfg a m) = mn_targets m"
proof (cases a)
  case (DoLookup req key act now)
  obtain res m1 where l: "lookupReplayLocked cfg (IdempotencyScope act, key) (cf_hash cfg (normalizeMode req)) now m = (res, m1)"
    by fastforce
  have "mn_workers m1 = mn_workers m" "mn_targets m1 = mn_targets m" using lookup_frame(1) [OF l] by auto
  with l DoLookup show ?thesis by (cases res) (simp_all add: enqueue_lookup_def)
next
  case (DoReplay io i sq)
  then show ?thesis using replayLocked_only [of io i sq m]
    by (cases "replayLocked io i sq m") (auto simp: EventsAfter_def event_only_def split: option.split)
next
  case (DoSubscribe io i sq c)
  then show ?thesis using replayLocked_only [of io i sq m]
    by (cases "replayLocked io i sq m") (auto simp: Subscribe_def event_only_def split: option.split)
next
  case (DoOutput t io st out)
  then show ?thesis
    by (simp add: worker_step_def run_output_def op_frame split: option.split pc.split)
next
  case (DoForget now)
  then show ?thesis by (simp add: retire_forget_def Let_def fold_forget_frame split: option.split)
qed (use assms in \<open>simp_all add: Cancel_workers reconcileOne_workers Cancel_targets reconcileOne_targets
  retire_sweep_core Unsubscribe_def shutdown_seal_def shutdown_force_def split: option.split\<close>)

lemma calls_keep_workers:
  "setRunning cfg io i m = (e, m1) \<Longrightarrow> mn_workers m1 = mn_workers m"
  "beginStopping cfg io i m = (b, m1) \<Longrightarrow> mn_workers m1 = mn_workers m"
  using setRunning_workers [of cfg io i m] beginStopping_workers [of cfg io i m] by simp_all

text \<open>A worker only moves by an action of its own target; a new one starts at its queue.\<close>

lemma worker_moves:
  assumes "mget (mn_workers (perform cfg a m)) t = Some p" and "mget (mn_workers m) t \<noteq> Some p" and "p \<noteq> AtQueue"
  shows "worker_of a = Some t"
proof (rule ccontr)
  assume other: "worker_of a \<noteq> Some t"
  show False
  proof (cases "admission a")
    case True
    then obtain req key retryOf attempt act bld io where a: "a = DoAdmit req key retryOf attempt act bld io"
      by (cases a) simp_all
    have "mget (mn_workers (publish key op e cmd m1)) t \<in> {mget (mn_workers m1) t, Some AtQueue}" for op e cmd m1
      by (simp add: publish_def admitToTarget_def Let_def)
    then show False
      using enqueue_admit_workers [of cfg req key retryOf attempt act bld io m] assms
      by (auto simp: a split: if_splits) (metis insertE option.inject singletonD)+
  next
    case False
    show False
    proof (cases "worker_of a")
      case None
      then show False using pipeline_frame [OF None False, of cfg m] assms by simp
    next
      case (Some t2)
      then have "mget (mn_workers (perform cfg a m)) t = mget (mn_workers m) t"
        using other
        by (cases a) (auto simp: worker_step_def run_pop_def run_check_context_def run_select_def run_check_target_def
            run_start_def run_return_def run_begin_stopping_def run_read_flag_def run_resolve_def run_finish_def
            set_pc_def Let_def finishReconciled_workers split: option.split pc.split sum.split prod.split
            run_error.split bool.split list.split dest!: calls_keep_workers)
      then show False using assms by simp
    qed
  qed
qed

lemma slots_perform:
  assumes maps: "maps_ok m" and max: "0 < cf_maxConcurrent cfg" "int (slots_used m) \<le> cf_maxConcurrent cfg"
  shows "int (slots_used (perform cfg a m)) \<le> cf_maxConcurrent cfg"
proof (cases "\<exists>t pref. a = DoSelect t pref")
  case True
  then show ?thesis
    using slots_run_select [OF maps _ max] max
    by (auto simp: worker_step_def split: option.split pc.split)
next
  case False
  have "slots_used (perform cfg a m) \<le> slots_used m"
  proof (cases a)
    case (DoAdmit req key retryOf attempt act bld io)
    then show ?thesis by (simp add: slots_enqueue_admit)
  next
    case (DoSelect t pref)
    with False show ?thesis by blast
  next
    case (DoPop t)
    then show ?thesis
      by (simp add: worker_step_def slots_run_pop [OF maps] split: option.split pc.split)
  next
    case (DoCheckContext t)
    then show ?thesis
      by (simp add: worker_step_def run_check_context_def slots_set_pc [OF maps]  split: option.split pc.split)
  next
    case (DoCheckTarget t res byId)
    then show ?thesis
      by (simp add: worker_step_def run_check_target_def slots_set_pc [OF maps]
          split: option.split pc.split sum.split)
  next
    case (DoStart t io)
    have "slots_used (run_start cfg io t j m) \<le> slots_used m" if w: "mget (mn_workers m) t = Some (Ready j)" for j
    proof -
      obtain e m1 where r: "setRunning cfg io (jb_id j) m = (e, m1)" by fastforce
      have "mn_workers m1 = mn_workers m" using setRunning_workers [of cfg io "jb_id j" m] r by simp
      with r slots_set_pc [OF maps w this] show ?thesis
        by (cases e) (simp_all add: run_start_def)
    qed
    with DoStart show ?thesis by (simp add: worker_step_def split: option.split pc.split)
  next
    case (DoReturn t ex err)
    then show ?thesis
      by (simp add: worker_step_def run_return_def slots_set_pc [OF maps]  split: option.split pc.split)
  next
    case (DoBeginStopping t io)
    have "slots_used (run_begin_stopping cfg io t j ex m) \<le> slots_used m"
      if w: "mget (mn_workers m) t = Some (Stopping j ex)" for j ex
    proof -
      obtain b m1 where r: "beginStopping cfg io (jb_id j) m = (b, m1)" by fastforce
      have "mn_workers m1 = mn_workers m" using beginStopping_workers [of cfg io "jb_id j" m] r by simp
      with r slots_set_pc [OF maps w this] show ?thesis
        by (cases b) (simp_all add: run_begin_stopping_def)
    qed
    with DoBeginStopping show ?thesis by (simp add: worker_step_def split: option.split pc.split)
  next
    case (DoReadFlag t)
    then show ?thesis
      by (simp add: worker_step_def run_read_flag_def slots_set_pc [OF maps]  split: option.split pc.split)
  next
    case (DoResolve t now answer)
    then show ?thesis
      by (simp add: worker_step_def run_resolve_def slots_set_pc [OF maps]
          split: option.split pc.split prod.split)
  next
    case (DoFinish t io)
    then show ?thesis
      by (simp add: worker_step_def run_finish_def slots_set_pc [OF maps _ finishReconciled_workers]
           split: option.split pc.split)
  qed (use pipeline_frame [of a cfg m] in \<open>simp_all add: slots_used_def\<close>)
  with max show ?thesis by linarith
qed

text \<open>
  C4. The global execution bound. With \<open>MaxConcurrentExecutions\<close> set, no reachable state has
  more workers between taking and releasing an execution slot than that.
\<close>

theorem concurrent_executions_bounded:
  assumes "reachable cfg m" and "0 < cf_maxConcurrent cfg"
  shows "int (slots_used m) \<le> cf_maxConcurrent cfg"
  using assms(1)
proof (induction rule: reachable.induct)
  case (boot io d p m)
  show ?case
    by (rule New_spec [OF boot]) (use assms(2) in \<open>simp add: at_rest_def slots_used_def\<close>)
next
  case (act m a)
  have "maps_ok m" using reachable_inv [OF act.hyps(1)] by (simp add: inv_def)
  then show ?case by (rule slots_perform [OF _ assms(2) act.IH])
qed

theorem concurrent_executions_bounded_witness:
  "slots_used demo_running = 1 \<and> int (slots_used demo_running) \<le> cf_maxConcurrent demo_config"
proof
  show "slots_used demo_running = 1" by code_simp
  have "0 < cf_maxConcurrent demo_config" by code_simp
  then show "int (slots_used demo_running) \<le> cf_maxConcurrent demo_config"
    by (rule concurrent_executions_bounded [OF demo_running_reachable])
qed

end
