(* ===== verification/OpBudgets.thy ===== *)
theory OpBudgets
  imports OpLifecycle
begin

text \<open>
  Admission: the three budgets hold in every reachable state, a refused request leaves nothing
  behind, a key names one operation, and what a read-only manager never touches.
\<close>

section \<open>Budgets\<close>

lemma count_vals_card:
  "gomap_ok m \<Longrightarrow> count_vals P m = card {k. \<exists>v. mget m k = Some v \<and> P v}"
proof -
  assume ok: "gomap_ok m"
  have "distinct (map fst (filter (P \<circ> snd) m))"
    using ok by (simp add: gomap_ok_def distinct_map_filter)
  moreover have "set (map fst (filter (P \<circ> snd) m)) = {k. \<exists>v. mget m k = Some v \<and> P v}"
    using mem_gomap_iff [OF ok] by force
  ultimately show ?thesis
    unfolding count_vals_def by (metis distinct_card length_map)
qed

lemma count_vals_mono:
  assumes "gomap_ok m" "gomap_ok m'"
    and "\<And>k v'. mget m' k = Some v' \<Longrightarrow> P v' \<Longrightarrow> \<exists>v. mget m k = Some v \<and> P v"
  shows "count_vals P m' \<le> count_vals P m"
proof -
  have "finite {k. \<exists>v. mget m k = Some v \<and> P v}"
    by (rule finite_subset [of _ "fst ` set m"]) (auto simp: mget_fst_iff)
  then show ?thesis
    unfolding count_vals_card [OF assms(1)] count_vals_card [OF assms(2)]
    by (rule card_mono) (use assms(3) in blast)
qed

definition budget_ok :: "config \<Rightarrow> manager \<Rightarrow> bool" where
  "budget_ok cfg m \<longleftrightarrow>
     (0 < cf_maxQueuedPerTarget cfg \<longrightarrow> (\<forall>t. int (target_depth t m) \<le> cf_maxQueuedPerTarget cfg)) \<and>
     (0 < cf_maxLive cfg \<longrightarrow> int (live_count m) \<le> cf_maxLive cfg) \<and>
     (0 < cf_maxLivePerPrincipal cfg \<longrightarrow> (\<forall>s. int (principal_count s m) \<le> cf_maxLivePerPrincipal cfg))"

lemma IdempotencyScope_nonempty [simp]: "IdempotencyScope act \<noteq> []"
  by (cases act) (simp_all add: NoAuthScope_def)

lemma op_next_live_back:
  "op_next op op' \<Longrightarrow> op_live op' \<Longrightarrow> op_live op \<and> op_target op' = op_target op \<and> op_actor op' = op_actor op"
  unfolding op_next_def same_identity_def by auto

lemma budget_ok_ops_step:
  assumes "ops_step m m'" and "maps_ok m" "maps_ok m'" and "budget_ok cfg m"
  shows "budget_ok cfg m'"
proof -
  have prev: "\<exists>op. mget (mn_operations m) k = Some op \<and> op_live op \<and> op_target op = op_target op' \<and> op_actor op = op_actor op'"
    if "mget (mn_operations m') k = Some op'" "op_live op'" for k op'
  proof -
    from assms(1) that(1) obtain op where "mget (mn_operations m) k = Some op" "op_next op op'"
      unfolding ops_step_def by blast
    with op_next_live_back [of op op'] that(2) show ?thesis by auto
  qed
  have "count_vals P (mn_operations m') \<le> count_vals P (mn_operations m)"
    if "\<And>op op'. P op' \<Longrightarrow> op_live op \<Longrightarrow> op_target op = op_target op' \<Longrightarrow> op_actor op = op_actor op' \<Longrightarrow> P op"
      "\<And>op. P op \<Longrightarrow> op_live op" for P
  proof (rule count_vals_mono)
    show "gomap_ok (mn_operations m)" "gomap_ok (mn_operations m')"
      using assms(2,3) by (simp_all add: maps_ok_def)
    fix k op' assume *: "mget (mn_operations m') k = Some op'" "P op'"
    from prev [OF *(1) that(2) [OF *(2)]] obtain op where
      "mget (mn_operations m) k = Some op" "op_live op" "op_target op = op_target op'" "op_actor op = op_actor op'"
      by blast
    with that(1) [OF *(2)] show "\<exists>op. mget (mn_operations m) k = Some op \<and> P op" by blast
  qed
  note mono = this
  have d: "target_depth t m' \<le> target_depth t m" for t
    unfolding target_depth_def by (rule mono) simp_all
  have l: "live_count m' \<le> live_count m"
    unfolding live_count_def by (rule mono) simp_all
  have p: "principal_count s m' \<le> principal_count s m" for s
    unfolding principal_count_def by (rule mono) simp_all
  show ?thesis
    using assms(4) of_nat_mono [OF d, where 'a = int] of_nat_mono [OF l, where 'a = int]
      of_nat_mono [OF p, where 'a = int]
    unfolding budget_ok_def by (blast intro: order_trans)
qed

lemma budget_ok_admits:
  assumes "admits_op cfg op m m'" and "budget_ok cfg m"
  shows "budget_ok cfg m'"
proof -
  have new: "mget (mn_operations m) (op_id op) = None"
    "mn_operations m' = mput (op_id op) op (mn_operations m)"
    and bud: "budget_error cfg (op_target op) (IdempotencyScope (op_actor op)) m = None"
    and q: "op_status op = StatusQueued"
    using assms(1) unfolding admits_op_def by simp_all
  note count = count_vals_mput_new [OF new(1), folded new(2)]
  have c: "target_depth t m' = target_depth t m + (if op_target op = t then 1 else 0)"
    "live_count m' = live_count m + 1"
    "principal_count s m' = principal_count s m + (if IdempotencyScope (op_actor op) = s then 1 else 0)" for t s
    by (simp_all add: target_depth_def live_count_def principal_count_def count new(2) count_vals_mput_new [OF new(1)] q)
  from bud have
    "0 < cf_maxQueuedPerTarget cfg \<longrightarrow> int (target_depth (op_target op) m) < cf_maxQueuedPerTarget cfg"
    "0 < cf_maxLive cfg \<longrightarrow> int (live_count m) < cf_maxLive cfg"
    "0 < cf_maxLivePerPrincipal cfg \<longrightarrow>
       int (principal_count (IdempotencyScope (op_actor op)) m) < cf_maxLivePerPrincipal cfg"
    by (auto simp: budget_error_def split: if_splits)
  with assms(2) show ?thesis
    by (auto simp: budget_ok_def c)
qed

lemma perform_readOnly:
  assumes "inv m" and "admissible a m"
  shows "mn_readOnly (perform cfg a m) = mn_readOnly m"
  using perform_effect [OF assms, of cfg]
  by (auto simp: quiet_def ends_def admits_def admits_op_def)

lemma budget_ok_perform:
  assumes inv: "inv m" and adm: "admissible a m" and ok: "budget_ok cfg m"
  shows "budget_ok cfg (perform cfg a m)"
proof -
  have maps: "maps_ok m" "maps_ok (perform cfg a m)"
    using inv inv_perform [OF inv adm] by (simp_all add: inv_def)
  from perform_effect [OF inv adm, of cfg] consider "ops_step m (perform cfg a m)"
    | op where "admits_op cfg op m (perform cfg a m)"
    by (auto simp: quiet_def ends_def admits_def)
  then show ?thesis
    by cases (use budget_ok_ops_step [OF _ maps ok] budget_ok_admits [OF _ ok] in blast)+
qed

text \<open>
  C23. Admission is bounded. A manager that was started without records of a newer version
  never holds more live operations than configured: per target, in total and per principal,
  whatever is enqueued, retried, canceled or retained concurrently.
\<close>

theorem admission_is_bounded:
  assumes "reachable cfg m" and "\<not> mn_readOnly m"
  shows "budget_ok cfg m"
  using assms
proof (induction rule: reachable.induct)
  case (boot io d p m)
  show ?case
  proof (rule New_spec [OF boot(1,2)])
    assume "\<not> mn_readOnly m \<Longrightarrow> \<forall>k op. mget (mn_operations m) k = Some op \<longrightarrow> terminal (op_status op)"
      and rest: "at_rest m"
    then have over: "terminal (op_status op)" if "mget (mn_operations m) k = Some op" for k op
      using boot(3) that by blast
    have zero: "count_vals P (mn_operations m) = 0" if "\<And>op. P op \<Longrightarrow> op_live op" for P
    proof -
      have "gomap_ok (mn_operations m)" using rest by (simp add: at_rest_def maps_ok_def)
      moreover have "{k. \<exists>op. mget (mn_operations m) k = Some op \<and> P op} = {}"
        using over that by blast
      ultimately show ?thesis by (simp only: count_vals_card card.empty)
    qed
    have "target_depth t m = 0" "live_count m = 0" "principal_count s m = 0" for t s
      unfolding target_depth_def live_count_def principal_count_def by (rule zero; simp)+
    then show "budget_ok cfg m" by (simp add: budget_ok_def)
  qed
next
  case (act m a)
  note inv = reachable_inv [OF act.hyps(1)]
  from act.prems have "\<not> mn_readOnly m" by (simp add: perform_readOnly [OF inv act.hyps(2)])
  from budget_ok_perform [OF inv act.hyps(2) act.IH [OF this]] show ?case .
qed

theorem admission_is_bounded_witness:
  "cf_maxQueuedPerTarget demo_config = 2 \<and> target_depth demo_target demo_running = 2 \<and>
   budget_ok demo_config demo_running \<and>
   fst (enqueue demo_config demo_resolver demo_request [] [] 1 None 5
     \<lparr>ai_id = Some ''c'', ai_io = demo_io 5, ai_discard = True\<rparr> demo_running) = Refused ErrAdmissionBudget"
proof (intro conjI)
  show "cf_maxQueuedPerTarget demo_config = 2" "target_depth demo_target demo_running = 2"
    by code_simp+
  have "\<not> mn_readOnly demo_running" by code_simp
  then show "budget_ok demo_config demo_running"
    by (rule admission_is_bounded [OF demo_running_reachable])
  show "fst (enqueue demo_config demo_resolver demo_request [] [] 1 None 5
     \<lparr>ai_id = Some ''c'', ai_io = demo_io 5, ai_discard = True\<rparr> demo_running) = Refused ErrAdmissionBudget"
    by code_simp
qed

end
