(* ===== verification/OpTargets.thy ===== *)
theory OpTargets
  imports OpCommands OpLifecycle
begin

text \<open>
  The identity of the target (\<open>checkTarget\<close>, \<open>retargetCommand\<close>): a job runs only against the
  server it was admitted for, and after a rename its command is the one the builders render
  for the new name, except for the server audit.
\<close>

section \<open>The rewritten argument vector\<close>

text \<open>
  The loop of \<open>retargetCommand\<close> read from left to right: \<open>after_server\<close> says that the previous
  argument is the flag that takes a server name.
\<close>

fun rename_flags :: "string \<Rightarrow> string \<Rightarrow> string \<Rightarrow> string list \<Rightarrow> string list" where
  "rename_flags from' to' prev [] = []"
| "rename_flags from' to' prev (a # as) =
     (if a = from' \<and> prev = ''--server'' then to' else a) # rename_flags from' to' a as"

fun rename_args :: "string \<Rightarrow> string \<Rightarrow> string list \<Rightarrow> string list" where
  "rename_args from' to' (a # b # as) =
     a # (if b = from' \<and> (a = ''deploy'' \<or> a = ''--server'') then to' else b) # rename_flags from' to' b as"
| "rename_args from' to' as = as"

lemma length_rename_flags [simp]: "length (rename_flags from' to' prev as) = length as"
  by (induction as arbitrary: prev) auto

lemma rename_flags_nth:
  "i < length as \<Longrightarrow> rename_flags from' to' prev as ! i =
     (if as ! i = from' \<and> (if i = 0 then prev else as ! (i - 1)) = ''--server'' then to' else as ! i)"
proof (induction as arbitrary: prev i)
  case (Cons a as)
  then show ?case by (cases i) (auto simp: nth_Cons')
qed simp

definition named :: "string \<Rightarrow> string list \<Rightarrow> nat \<Rightarrow> bool" where
  "named from' args i \<longleftrightarrow> args ! i = from' \<and>
     (i = 1 \<and> args ! 0 = ''deploy'' \<or> 0 < i \<and> args ! (i - 1) = ''--server'')"

lemma retarget_fold:
  assumes "from' \<noteq> ''--server''" and "to' \<noteq> ''--server''" and "n \<le> length args"
  shows "fold (\<lambda>i as. retarget_arg as from' to' i) [0..<n] args =
    map (\<lambda>i. if i < n \<and> named from' args i then to' else args ! i) [0..<length args]"
  using assms(3)
proof (induction n)
  case 0
  then show ?case by (simp add: map_nth)
next
  case (Suc n)
  let ?r = "map (\<lambda>i. if i < n \<and> named from' args i then to' else args ! i) [0..<length args]"
  have n: "n < length args" using Suc.prems by simp
  have rn: "?r ! n = args ! n" using n by simp
  have "0 < length args" using n by linarith
  then have r0: "?r ! 0 = args ! 0" by (simp add: named_def)
  have prev: "?r ! (n - 1) = ''--server'' \<longleftrightarrow> args ! (n - 1) = ''--server''" if "0 < n"
    using that n assms(1,2) by (auto simp: named_def)
  have "retarget_arg r from' to' n = (if named from' args n then r[n := to'] else r)"
    if "r ! n = args ! n" "r ! 0 = args ! 0"
      "0 < n \<Longrightarrow> r ! (n - 1) = ''--server'' \<longleftrightarrow> args ! (n - 1) = ''--server''" for r
    using that unfolding retarget_arg_def named_def by auto
  note this [OF rn r0 prev]
  moreover have "?r[n := to'] = map (\<lambda>i. if i < Suc n \<and> named from' args i then to' else args ! i) [0..<length args]"
    if "named from' args n"
    using n that by (intro nth_equalityI) (auto simp: nth_list_update less_Suc_eq)
  moreover have "?r = map (\<lambda>i. if i < Suc n \<and> named from' args i then to' else args ! i) [0..<length args]"
    if "\<not> named from' args n"
    using that by (auto simp: less_Suc_eq)
  ultimately show ?case using Suc.IH n by simp
qed

lemma length_rename_args [simp]: "length (rename_args from' to' as) = length as"
  by (cases "(from', to', as)" rule: rename_args.cases) auto

lemma rename_args_nth:
  assumes "i < length as"
  shows "rename_args from' to' as ! i = (if named from' as i then to' else as ! i)"
proof (cases "(from', to', as)" rule: rename_args.cases)
  case (1 f t a b cs)
  then have as: "as = a # b # cs" and ft: "f = from'" "t = to'" by simp_all
  consider "i = 0" | "i = 1" | k where "i = Suc (Suc k)" by (metis One_nat_def not0_implies_Suc)
  then show ?thesis
  proof cases
    case (3 k)
    with assms as have "k < length cs" by simp
    with 3 show ?thesis
      unfolding as named_def by (cases k) (simp_all add: rename_flags_nth)
  qed (auto simp: as named_def)
qed (use assms in \<open>auto simp: named_def\<close>)

lemma rename_args_same: "rename_args x x as = as"
  by (rule nth_equalityI) (auto simp: rename_args_nth named_def)

lemma retarget_rename:
  assumes "from' \<noteq> ''--server''" and "to' \<noteq> ''--server''" and "from' \<noteq> []"
  shows "retargetCommand cmd from' to' = cmd\<lparr>cmd_args := rename_args from' to' (cmd_args cmd)\<rparr>"
proof -
  let ?as = "cmd_args cmd"
  have "map (\<lambda>i. if i < length ?as \<and> named from' ?as i then to' else ?as ! i) [0..<length ?as]
      = rename_args from' to' ?as"
    by (rule nth_equalityI) (simp_all add: rename_args_nth)
  then have f: "fold (\<lambda>i as. retarget_arg as from' to' i) [0..<length ?as] ?as = rename_args from' to' ?as"
    using retarget_fold [OF assms(1,2), of "length ?as" ?as] by simp
  then show ?thesis
    using assms(3) by (simp add: retargetCommand_def rename_args_same)
qed

section \<open>A rename is a rebuild\<close>

lemma validIdentifier_not_flag:
  assumes "validIdentifier v"
  shows "v \<noteq> []" and "v \<noteq> CHR ''-'' # s" and "CHR ''-'' # s \<noteq> v"
  using assms by (auto simp: validIdentifier_def identifierPattern_def)

lemma resolveRequest_Inr:
  assumes "resolveRequest req resolve b = Inr srv" and "to' \<noteq> []"
  shows "resolveRequest req (Some (\<lambda>_. Inr (srv\<lparr>sv_name := to'\<rparr>))) b = Inr (srv\<lparr>sv_name := to'\<rparr>)"
  using assms resolveRequest_valid(4) [OF assms(1)]
  by (auto simp: resolveRequest_def Let_def split: if_splits)

lemma rename_flags_append:
  "rename_flags f t prev (as @ bs) = rename_flags f t prev as @ rename_flags f t (last (prev # as)) bs"
  by (induction as arbitrary: prev) auto

lemma rename_flags_vars:
  assumes "validIdentifier f" and "prev \<noteq> ''--server''"
  shows "rename_flags f t prev (concat (map (\<lambda>k. [''--var'', k @ ''='' @ g k]) ks)) =
    concat (map (\<lambda>k. [''--var'', k @ ''='' @ g k]) ks)"
proof -
  have no: "k @ ''='' @ x \<noteq> f" for k x
  proof
    assume "k @ ''='' @ x = f"
    then have "list_all ident_char (k @ ''='' @ x)"
      using assms(1) by (simp add: validIdentifier_def identifierPattern_def)
    then show False by (simp add: ident_char_def is_upper_def is_lower_def is_digit_def)
  qed
  have flag: "k @ ''='' @ x \<noteq> ''--server''" for k x
  proof
    assume "k @ ''='' @ x = ''--server''"
    then have "CHR ''='' \<in> set ''--server''" by (metis in_set_conv_decomp append_Cons append_Nil)
    then show False by simp
  qed
  show ?thesis
    using assms(2) by (induction ks arbitrary: prev)
      (use no [simplified] flag [simplified] in \<open>auto simp: validIdentifier_not_flag [OF assms(1)]\<close>)
qed
text \<open>The server of a built command is the one its builder resolved.\<close>

lemma Build_resolved:
  assumes "Build env req resolve = Inr (cmd, srv, target)"
  shows "resolveRequest req resolve (app_scoped (rq_kind req)) = Inr srv"
  using assms
  by (cases "rq_kind req")
    (auto simp: Build_def builder_defs app_scoped_def Let_def split: if_splits sum.splits list.splits)

text \<open>Arguments that a rename never touches: flags and their values, wherever they stand.\<close>

definition inert :: "string \<Rightarrow> string list \<Rightarrow> bool" where
  "inert f as \<longleftrightarrow> (\<forall>t prev. rename_flags f t prev as = as)"

lemma inert_rename: "inert f as \<Longrightarrow> rename_flags f t prev as = as"
  by (simp add: inert_def)

lemma inert_Nil: "inert f []"
  by (simp add: inert_def)

lemma inert_append: "inert f as \<Longrightarrow> inert f bs \<Longrightarrow> inert f (as @ bs)"
  by (simp add: inert_def rename_flags_append)

lemma inert_if: "inert f as \<Longrightarrow> inert f bs \<Longrightarrow> inert f (if c then as else bs)"
  by simp

lemma inert_switch: "validIdentifier f \<Longrightarrow> inert f [CHR ''-'' # s]"
  by (simp add: inert_def validIdentifier_not_flag)

lemma inert_value: "validIdentifier f \<Longrightarrow> CHR ''-'' # s \<noteq> ''--server'' \<Longrightarrow> inert f [CHR ''-'' # s, v]"
  by (simp add: inert_def validIdentifier_not_flag)

lemmas inert_rules = inert_Nil inert_append inert_if inert_switch inert_value

lemma guard_passed: "((if c then Inl e else x) = Inr y) \<longleftrightarrow> \<not> c \<and> x = Inr y"
  by simp

lemma addUser_append: "addUser args u = args @ (if u \<noteq> [] \<and> u \<noteq> ''root'' then [''--user'', u] else [])"
  by (simp add: addUser_def)

lemmas rename_simps = plain_command_def addUser_append Let_def inert_rules inert_rename guard_passed validIdentifier_not_flag

lemma rename_BuildDeploy:
  assumes "BuildDeploy req resolve = Inr (cmd, srv, target)"
    and "resolveRequest req resolve True = Inr srv" and "resolveRequest req resolve' True = Inr (srv\<lparr>sv_name := to'\<rparr>)"
    and "sv_name srv = rq_server req" and "validIdentifier (rq_server req)"
  shows "BuildDeploy req resolve' =
    Inr (cmd\<lparr>cmd_args := rename_args (rq_server req) to' (cmd_args cmd)\<rparr>, srv\<lparr>sv_name := to'\<rparr>, target)"
  using assms
  by (cases "rq_home req = []"; cases "rq_home req = ''teploy''")
    (auto simp: BuildDeploy_def rename_simps split del: if_split)

lemma rename_app_builders:
  assumes "B \<in> {BuildRollback, BuildRemove, BuildAppLifecycle, BuildMaintenance, BuildRedeploy,
      BuildBackupCreate, BuildBackupRestore, BuildRouteRemove, BuildReleasesPrune}"
    and "B req resolve = Inr (cmd, srv, target)"
    and "resolveRequest req resolve True = Inr srv" and "resolveRequest req resolve' True = Inr (srv\<lparr>sv_name := to'\<rparr>)"
    and "validIdentifier (rq_server req)"
  shows "B req resolve' =
    Inr (cmd\<lparr>cmd_args := rename_args (rq_server req) to' (cmd_args cmd)\<rparr>, srv\<lparr>sv_name := to'\<rparr>, target)"
  using assms
  by (elim insertE emptyE)
    (auto simp: app_builder_defs rename_simps lifecycle_actions_def split del: if_split)

lemma inert_vars:
  "validIdentifier f \<Longrightarrow> prev \<noteq> ''--server'' \<Longrightarrow>
   rename_flags f t prev (concat (map (\<lambda>k. [''--var'', k @ ''='' @ g k]) ks)) =
     concat (map (\<lambda>k. [''--var'', k @ ''='' @ g k]) ks)"
  by (rule rename_flags_vars)

definition install_args :: "request \<Rightarrow> string \<Rightarrow> string list \<Rightarrow> string list" where
  "install_args req name rest = [''template'', ''install'', rq_template req, ''--domain'', rq_domain req,
     ''--server'', name] @ (if rq_home req = [] then [] else [''--home'', ''teploy'']) @ rest"

lemma rename_install_args:
  assumes "validIdentifier name" and "\<And>prev. prev \<noteq> ''--server'' \<Longrightarrow> rename_flags name to' prev rest = rest"
    and "to' \<noteq> ''--server''"
  shows "rename_args name to' (install_args req name rest) = install_args req to' rest"
  using assms(2) [of name] assms(2) [of "''teploy''"] validIdentifier_not_flag [OF assms(1)]
  by (simp add: install_args_def)

definition var_args :: "request \<Rightarrow> string list" where
  "var_args req = concat (map (\<lambda>k. [''--var'', k @ ''='' @ mget_text (rq_vars req) k]) (sort (map fst (rq_vars req))))"

lemma BuildTemplateInstall_form:
  assumes "resolveRequest req resolve False = Inr srv"
    and "filter (\<lambda>k. \<not> varNamePattern k) (map fst (rq_vars req)) = []"
  shows "BuildTemplateInstall env req resolve v =
    (let stdin = v \<and> sort (map fst (rq_vars req)) \<noteq> []; values = map (mget_text (rq_vars req)) (sort (map fst (rq_vars req))) in
     if \<not> validIdentifier (rq_template req) then Inl InvalidTemplate
     else if rq_domain req = [] then Inl DomainRequired
     else if rq_home req \<noteq> [] \<and> rq_home req \<noteq> ''teploy'' then Inl HomeInvalid
     else if \<not> stdin \<and> \<not> env_legacy_argv env \<and> (\<exists>x\<in>set values. x \<noteq> []) then Inl LegacySecretArgV
     else Inr (\<lparr>cmd_args = install_args req (sv_name srv) (if stdin then [''--var-stdin''] else var_args req),
          cmd_timeout = KindTimeout KindTemplateInstall, cmd_secrets = filter (\<lambda>x. x \<noteq> []) values,
          cmd_stdin = (if stdin then env_json env (map (\<lambda>k. (k, mget_text (rq_vars req) k)) (sort (map fst (rq_vars req)))) else [])\<rparr>,
        srv, ''server:'' @ rq_server req @ ''/template:'' @ rq_template req))"
  using assms by (simp add: BuildTemplateInstall_def Let_def install_args_def var_args_def)

lemma rename_BuildTemplateInstall:
  assumes b: "BuildTemplateInstall env req resolve v = Inr (cmd, srv, target)"
    and r: "resolveRequest req resolve False = Inr srv" "resolveRequest req resolve' False = Inr (srv\<lparr>sv_name := to'\<rparr>)"
    and n: "sv_name srv = rq_server req" and valid: "validIdentifier (rq_server req)" "to' \<noteq> ''--server''"
  shows "BuildTemplateInstall env req resolve' v =
    Inr (cmd\<lparr>cmd_args := rename_args (rq_server req) to' (cmd_args cmd)\<rparr>, srv\<lparr>sv_name := to'\<rparr>, target)"
proof (cases "filter (\<lambda>k. \<not> varNamePattern k) (map fst (rq_vars req))")
  case (Cons x xs)
  then show ?thesis using b r(1) by (simp add: BuildTemplateInstall_def Let_def guard_passed)
next
  case Nil
  let ?rest = "if v \<and> sort (map fst (rq_vars req)) \<noteq> [] then [''--var-stdin''] else var_args req"
  have "rename_flags (rq_server req) to' prev ?rest = ?rest" if "prev \<noteq> ''--server''" for prev
    using inert_vars [OF valid(1) that] validIdentifier_not_flag [OF valid(1)] by (simp add: var_args_def)
  note args = rename_install_args [OF valid(1) this valid(2), of req]
  note form = BuildTemplateInstall_form [OF r(1) Nil, of env v, unfolded Let_def n]
    BuildTemplateInstall_form [OF r(2) Nil, of env v, unfolded Let_def]
  from b have ok: "validIdentifier (rq_template req)" "rq_domain req \<noteq> []" "\<not> (rq_home req \<noteq> [] \<and> rq_home req \<noteq> ''teploy'')"
    "\<not> (\<not> (v \<and> sort (map fst (rq_vars req)) \<noteq> []) \<and> \<not> env_legacy_argv env \<and>
       (\<exists>x\<in>set (map (mget_text (rq_vars req)) (sort (map fst (rq_vars req)))). x \<noteq> []))"
    unfolding form(1) guard_passed by blast+
  from b have "cmd_args cmd = install_args req (rq_server req) ?rest" "target = ''server:'' @ rq_server req @ ''/template:'' @ rq_template req"
    unfolding form(1) guard_passed by auto
  moreover
  let ?c = "\<lparr>cmd_args = [], cmd_timeout = KindTimeout KindTemplateInstall,
    cmd_secrets = filter (\<lambda>x. x \<noteq> []) (map (mget_text (rq_vars req)) (sort (map fst (rq_vars req)))),
    cmd_stdin = (if v \<and> sort (map fst (rq_vars req)) \<noteq> []
      then env_json env (map (\<lambda>k. (k, mget_text (rq_vars req) k)) (sort (map fst (rq_vars req)))) else [])\<rparr>"
  have "BuildTemplateInstall env req resolve v = Inr (?c\<lparr>cmd_args := install_args req (rq_server req) ?rest\<rparr>, srv,
      ''server:'' @ rq_server req @ ''/template:'' @ rq_template req)"
    unfolding form(1) if_not_P [OF ok(3)] if_not_P [OF ok(4)] using ok(1,2) by simp
  moreover have "BuildTemplateInstall env req resolve' v = Inr (?c\<lparr>cmd_args := install_args req to' ?rest\<rparr>,
      srv\<lparr>sv_name := to'\<rparr>, ''server:'' @ rq_server req @ ''/template:'' @ rq_template req)"
    unfolding form(2) if_not_P [OF ok(3)] if_not_P [OF ok(4)] using ok(1,2) by simp
  ultimately show ?thesis using b args by auto
qed

text \<open>
  A rename is a rebuild. After a verified rename the queued command is the one the
  builders render for the new name, for every kind of operation but the server audit.
\<close>

theorem rename_is_rebuild:
  assumes b: "Build env req resolve = Inr (cmd, srv, target)"
    and name: "sv_name srv = rq_server req" and to: "validIdentifier to'"
    and kind: "rq_kind req \<noteq> KindServerAudit"
  shows "Build env req (Some (\<lambda>_. Inr (srv\<lparr>sv_name := to'\<rparr>))) =
    Inr (retargetCommand cmd (rq_server req) to', srv\<lparr>sv_name := to'\<rparr>, target)"
proof -
  note r = Build_resolved [OF b]
  note valid = resolveRequest_valid(1) [OF r]
  note fr = validIdentifier_not_flag [OF valid] and tn = validIdentifier_not_flag [OF to]
  note r' = resolveRequest_Inr [OF r tn(1)]
  note rt = retarget_rename [OF fr(2) tn(2) fr(1), of cmd]
  show ?thesis
  proof (cases "rq_kind req")
    case KindDeploy
    with b rename_BuildDeploy [OF _ _ _ name valid] r r' rt show ?thesis by (simp add: Build_def app_scoped_def)
  next
    case KindTemplateInstall
    with b rename_BuildTemplateInstall [OF _ _ _ name valid tn(2)] r r' rt show ?thesis
      by (auto simp: Build_def app_scoped_def split: sum.splits if_splits)
  next
    case KindServerPrune
    with b r r' fr rt show ?thesis
      by (auto simp: Build_def app_scoped_def BuildServerPrune_def rename_simps valid split del: if_split)
  next
    case KindServerAudit
    with kind show ?thesis by simp
  next
    case (OtherKind x)
    with b show ?thesis by (simp add: Build_def)
  qed (use b rename_app_builders [OF _ _ _ _ valid] r r' rt in \<open>simp add: Build_def app_scoped_def\<close>)+
qed

theorem rename_is_rebuild_witness:
  "\<exists>cmd srv target. Build example_env install_request web_resolver = Inr (cmd, srv, target) \<and>
     Build example_env install_request (Some (\<lambda>_. Inr (srv\<lparr>sv_name := ''shop''\<rparr>))) =
       Inr (retargetCommand cmd ''web'' ''shop'', srv\<lparr>sv_name := ''shop''\<rparr>, target)"
proof -
  have v: "varNamePattern ''PASS''" by code_simp
  obtain cmd srv t where b: "Build example_env install_request web_resolver = Inr (cmd, srv, t)"
    and n: "sv_name srv = ''web''"
    by (simp add: Build_def BuildTemplateInstall_def resolveRequest_def install_request_def v
        example_request_def example_env_def web_resolver_def validIdentifier_web mget_text_def)
  have f: "rq_server install_request = ''web''" "rq_kind install_request \<noteq> KindServerAudit"
    by (simp_all add: install_request_def example_request_def)
  from rename_is_rebuild [OF b _ validIdentifier_web(2) f(2)] b n f(1) show ?thesis by auto
qed

text \<open>
  The server audit is the exception: its command names the server as a plain argument, which
  \<open>retargetCommand\<close> does not rewrite, so after a verified rename the queued audit still asks
  the CLI for the old name.
\<close>

theorem audit_keeps_the_old_name:
  assumes "Build env req resolve = Inr (cmd, srv, target)" and "rq_kind req = KindServerAudit"
    and "validIdentifier to'"
  shows "cmd_args (retargetCommand cmd (rq_server req) to') = [''server'', ''audit'', sv_name srv, ''--json'']"
proof -
  note valid = resolveRequest_valid(1) [OF Build_resolved [OF assms(1)]]
  note fr = validIdentifier_not_flag [OF valid] and tn = validIdentifier_not_flag [OF assms(3)]
  from assms(1,2) have "cmd_args cmd = [''server'', ''audit'', sv_name srv, ''--json'']"
    by (auto simp: Build_def BuildServerAudit_def plain_command_def split: sum.splits)
  then show ?thesis
    unfolding retarget_rename [OF fr(2) tn(2) fr(1)] using fr by simp
qed

theorem audit_keeps_the_old_name_witness:
  "\<exists>cmd srv target. Build example_env (example_request\<lparr>rq_kind := KindServerAudit\<rparr>) web_resolver = Inr (cmd, srv, target) \<and>
     cmd_args (retargetCommand cmd ''web'' ''shop'') = [''server'', ''audit'', ''web'', ''--json'']"
proof -
  obtain cmd srv t where b: "Build example_env (example_request\<lparr>rq_kind := KindServerAudit\<rparr>) web_resolver = Inr (cmd, srv, t)"
    and n: "sv_name srv = ''web''"
    by (simp add: Build_def BuildServerAudit_def resolveRequest_def example_request_def web_resolver_def validIdentifier_web)
  from audit_keeps_the_old_name [OF b _ validIdentifier_web(2)] b n show ?thesis
    by (auto simp: example_request_def)
qed

text \<open>
  What a passed check says: without a resolver or a recorded snapshot nothing is compared; otherwise
  the server found under the requested name has the host, the user and, if one was recorded, the stable
  identifier of the admitted one, or the name is gone and the recorded identifier names a
  server with that host and user, whose name the command then carries.
\<close>

definition target_verified :: "resolver \<Rightarrow> resolver_by_id \<Rightarrow> operation \<Rightarrow> command \<Rightarrow> command \<Rightarrow> bool" where
  "target_verified resolve byId op cmd cmd' \<longleftrightarrow>
     (case (op_admitted_server op, resolve) of
        (Some admitted, Some res) \<Rightarrow>
          (\<exists>srv. sv_host srv = sv_host admitted \<and> userOf srv = userOf admitted \<and>
             (res (rq_server (op_request op)) = Inr srv \<and> (sv_id admitted \<noteq> [] \<longrightarrow> sv_id srv = sv_id admitted) \<and> cmd' = cmd \<or>
              (\<exists>e look. res (rq_server (op_request op)) = Inl e \<and> byId = Some look \<and> sv_id admitted \<noteq> [] \<and>
                 look (sv_id admitted) = Some srv \<and> cmd' = retargetCommand cmd (rq_server (op_request op)) (sv_name srv))))
      | _ \<Rightarrow> cmd' = cmd)"

lemma checkTarget_verified: "checkTarget resolve byId op cmd = Inr cmd' \<Longrightarrow> target_verified resolve byId op cmd cmd'"
  by (auto simp: checkTarget_def target_verified_def moved_def split: option.splits sum.splits if_splits)

lemma ready_only_verified:
  assumes "mget (mn_workers (perform cfg a m)) t = Some (Ready j')" and "mget (mn_workers m) t \<noteq> Some (Ready j')"
  shows "\<exists>res byId j op. a = DoCheckTarget t res byId \<and> mget (mn_workers m) t = Some (HasSlot j) \<and>
    mget (mn_operations m) (jb_id j) = Some op \<and> jb_id j' = jb_id j \<and>
    target_verified res byId op (jb_command j) (jb_command j')"
proof -
  have w: "worker_of a = Some t" by (rule worker_moves [OF assms]) simp
  show ?thesis
  proof (cases a)
    case (DoCheckTarget t2 res byId)
    with w have t: "t2 = t" by simp
    from assms obtain j op where j: "mget (mn_workers m) t = Some (HasSlot j)" "mget (mn_operations m) (jb_id j) = Some op"
      "checkTarget res byId op (jb_command j) = Inr (jb_command j')" "j' = j\<lparr>jb_command := jb_command j'\<rparr>"
      unfolding DoCheckTarget t
      by (auto simp: worker_step_def run_check_target_def set_pc_def split: option.splits pc.splits sum.splits)
    have "jb_id j' = jb_id j" using arg_cong [OF j(4), of jb_id] by simp
    with j(1,2) checkTarget_verified [OF j(3)] DoCheckTarget t show ?thesis by blast
  qed (use w assms in \<open>auto simp: worker_step_def run_pop_def run_check_context_def run_select_def run_start_def
      run_return_def run_begin_stopping_def run_read_flag_def run_resolve_def run_finish_def set_pc_def Let_def
      finishReconciled_workers dest!: calls_keep_workers
      split: option.splits pc.splits prod.splits run_error.splits bool.splits list.splits if_splits\<close>)
qed

lemma executing_only_ready:
  assumes "mget (mn_workers (perform cfg a m)) t = Some (Executing j')" and "mget (mn_workers m) t \<noteq> Some (Executing j')"
  shows "\<exists>io j op. a = DoStart t io \<and> mget (mn_workers m) t = Some (Ready j) \<and> j' = with_actor_args cfg op j"
proof -
  have w: "worker_of a = Some t" by (rule worker_moves [OF assms]) simp
  show ?thesis
  proof (cases a)
    case (DoStart t2 io)
    with w have t: "t2 = t" by simp
    from assms obtain j where j: "mget (mn_workers m) t = Some (Ready j)"
      unfolding DoStart t by (auto simp: worker_step_def split: option.splits pc.splits)
    obtain e m1 where r: "setRunning cfg io (jb_id j) m = (e, m1)" by fastforce
    with assms j have "j' = with_actor_args cfg (mget (mn_operations m1) (jb_id j)) j"
      unfolding DoStart t by (cases e) (simp_all add: worker_step_def run_start_def set_pc_def)
    with j DoStart t show ?thesis by blast
  qed (use w assms in \<open>auto simp: worker_step_def run_pop_def run_check_context_def run_select_def run_check_target_def
      run_return_def run_begin_stopping_def run_read_flag_def run_resolve_def run_finish_def set_pc_def Let_def
      finishReconciled_workers dest!: calls_keep_workers
      split: option.splits pc.splits prod.splits sum.splits bool.splits list.splits if_splits\<close>)
qed

text \<open>
  C29. No command starts on a server that is not the admitted one. Whatever action the service takes, a worker comes
  to the point before its command only by \<open>checkTarget\<close>, and only if the check passed in the sense of
  \<open>target_verified\<close> for the operation of its job, with the command the check returned; and it begins
  to execute only from that point, with that command (extended by the arguments that name the actor, when configured). The
  check compares at that moment: the CLI resolves the name again when it runs, which is outside this program.
\<close>

theorem target_never_moves:
  "(\<forall>j'. mget (mn_workers (perform cfg a m)) t = Some (Ready j') \<longrightarrow> mget (mn_workers m) t \<noteq> Some (Ready j') \<longrightarrow>
      (\<exists>res byId j op. a = DoCheckTarget t res byId \<and> mget (mn_workers m) t = Some (HasSlot j) \<and>
         mget (mn_operations m) (jb_id j) = Some op \<and> jb_id j' = jb_id j \<and>
         target_verified res byId op (jb_command j) (jb_command j'))) \<and>
   (\<forall>j'. mget (mn_workers (perform cfg a m)) t = Some (Executing j') \<longrightarrow> mget (mn_workers m) t \<noteq> Some (Executing j') \<longrightarrow>
      (\<exists>io j op. a = DoStart t io \<and> mget (mn_workers m) t = Some (Ready j) \<and> j' = with_actor_args cfg op j))"
  using ready_only_verified executing_only_ready by blast

definition renamed_lookup :: "string \<Rightarrow> server option" where
  "renamed_lookup i = (if i = ''s1'' then Some \<lparr>sv_name = ''edge'', sv_id = ''s1'', sv_host = ''10.0.0.5'', sv_user = ''root''\<rparr> else None)"

text \<open>A worker with a slot, before the check of its target.\<close>

definition demo_slot :: manager where
  "demo_slot = fold (perform demo_config)
     [demo_admit ''a'' ''k'' 1, DoPop demo_target, DoCheckContext demo_target, DoSelect demo_target True]
     (empty_manager False 0)"

theorem target_never_moves_witness:
  "\<exists>j op admitted srv. mget (mn_workers (perform demo_config
       (DoCheckTarget demo_target (Some (\<lambda>_. Inl ''unknown server'')) (Some renamed_lookup)) demo_slot)) demo_target = Some (Ready j) \<and>
     mget (mn_operations demo_slot) (jb_id j) = Some op \<and> op_admitted_server op = Some admitted \<and>
     renamed_lookup (sv_id admitted) = Some srv \<and> sv_host srv = sv_host admitted \<and> userOf srv = userOf admitted"
proof -
  let ?res = "\<lambda>_ :: string. Inl ''unknown server'' :: string + server"
  let ?a = "DoCheckTarget demo_target (Some ?res) (Some renamed_lookup)"
  have "(case mget (mn_workers (perform demo_config ?a demo_slot)) demo_target of Some (Ready j) \<Rightarrow>
      map_option (\<lambda>op. op_admitted_server op \<noteq> None) (mget (mn_operations demo_slot) (jb_id j)) = Some True | _ \<Rightarrow> False)"
    "(case mget (mn_workers demo_slot) demo_target of Some (Ready j) \<Rightarrow> False | _ \<Rightarrow> True)"
    by code_simp+
  then obtain j :: job and op :: operation and admitted where j: "mget (mn_workers (perform demo_config ?a demo_slot)) demo_target = Some (Ready j)"
    "mget (mn_workers demo_slot) demo_target \<noteq> Some (Ready j)"
    "mget (mn_operations demo_slot) (jb_id j) = Some op" "op_admitted_server op = Some admitted"
    by (auto split: option.splits pc.splits)
  from target_never_moves [THEN conjunct1, rule_format, OF j(1,2)] obtain r b and j0 :: job and op0 :: operation where
    o: "mget (mn_operations demo_slot) (jb_id j0) = Some op0" "jb_id j = jb_id j0"
    and a: "?a = DoCheckTarget demo_target r b"
    and w: "target_verified r b op0 (jb_command j0) (jb_command j)"
    by blast
  have v: "target_verified (Some ?res) (Some renamed_lookup) op0 (jb_command j0) (jb_command j)"
    using w a by simp
  have "op0 = op" using o j(3) by simp
  with v j show ?thesis by (auto simp: target_verified_def)
qed

end
