(* ===== verification/OpProgress.thy ===== *)
theory OpProgress
  imports OpLifecycle
begin

text \<open>
  Progress of the target workers: a measure that every step of a worker decreases, freedom from
  deadlock, and hence a finite run from every reachable state to one where all work is over.
\<close>

section \<open>The measure\<close>

definition sum_vals :: "('v \<Rightarrow> nat) \<Rightarrow> ('k, 'v) gomap \<Rightarrow> nat" where
  "sum_vals f m = sum_list (map (f \<circ> snd) m)"

lemma sum_vals_Nil [simp]: "sum_vals f [] = 0"
  by (simp add: sum_vals_def)

lemma sum_vals_Cons [simp]: "sum_vals f ((k, v) # m) = f v + sum_vals f m"
  by (simp add: sum_vals_def)

lemma sum_vals_mput:
  "gomap_ok m \<Longrightarrow> mget m k = Some w \<Longrightarrow> sum_vals f (mput k v m) + f w = sum_vals f m + f v"
  by (induction m) (auto simp: gomap_simps split: if_splits)

lemma mdel_absent: "k \<notin> fst ` set m \<Longrightarrow> mdel k m = m"
  by (rule AList.delete_id)

lemma sum_vals_mdel:
  "gomap_ok m \<Longrightarrow> mget m k = Some w \<Longrightarrow> sum_vals f (mdel k m) + f w = sum_vals f m"
  by (induction m) (auto simp: gomap_simps mdel_absent split: if_splits)

text \<open>How many steps a worker has before it is back at its queue.\<close>

fun steps_left :: "pc \<Rightarrow> nat" where
  "steps_left AtQueue = 1"
| "steps_left (Finishing j st ex msg rec slot) = 2"
| "steps_left (Resolving j ex shut) = 3"
| "steps_left (Asking j ex) = 4"
| "steps_left (Stopping j ex) = 5"
| "steps_left (Executing j) = 6"
| "steps_left (Ready j) = 7"
| "steps_left (HasSlot j) = 8"
| "steps_left (Waiting j) = 9"
| "steps_left (Popped j) = 10"

definition work_left :: "manager \<Rightarrow> nat" where
  "work_left m = sum_vals steps_left (mn_workers m) + sum_vals (\<lambda>r. 10 * length (rn_queue r)) (mn_targets m)"

lemma work_set_pc:
  assumes "maps_ok m" and "mget (mn_workers m) t = Some p" and "mn_workers m1 = mn_workers m"
    and "mn_targets m1 = mn_targets m" and "steps_left p' < steps_left p"
  shows "work_left (set_pc t p' m1) < work_left m"
  using sum_vals_mput [of "mn_workers m" t p steps_left p'] assms
  by (simp add: work_left_def set_pc_def maps_ok_def)

section \<open>Steps of the workers\<close>

definition may_proceed :: "config \<Rightarrow> manager \<Rightarrow> job \<Rightarrow> bool" where
  "may_proceed cfg m j \<longleftrightarrow>
     cf_maxConcurrent cfg \<le> 0 \<or> int (slots_used m) < cf_maxConcurrent cfg \<or> canceled j m"

text \<open>The actions of a worker that stands at the place of the action and is not blocked there.\<close>

fun advances :: "config \<Rightarrow> manager \<Rightarrow> action \<Rightarrow> bool" where
  "advances cfg m (DoPop t) = (mget (mn_workers m) t = Some AtQueue)"
| "advances cfg m (DoCheckContext t) = (case mget (mn_workers m) t of Some (Popped j) \<Rightarrow> True | _ \<Rightarrow> False)"
| "advances cfg m (DoSelect t pref) = (case mget (mn_workers m) t of Some (Waiting j) \<Rightarrow> may_proceed cfg m j | _ \<Rightarrow> False)"
| "advances cfg m (DoCheckTarget t res byId) = (case mget (mn_workers m) t of Some (HasSlot j) \<Rightarrow> True | _ \<Rightarrow> False)"
| "advances cfg m (DoStart t io) = (case mget (mn_workers m) t of Some (Ready j) \<Rightarrow> True | _ \<Rightarrow> False)"
| "advances cfg m (DoReturn t ex err) = (case mget (mn_workers m) t of Some (Executing j) \<Rightarrow> True | _ \<Rightarrow> False)"
| "advances cfg m (DoBeginStopping t io) = (case mget (mn_workers m) t of Some (Stopping j ex) \<Rightarrow> True | _ \<Rightarrow> False)"
| "advances cfg m (DoReadFlag t) = (case mget (mn_workers m) t of Some (Asking j ex) \<Rightarrow> True | _ \<Rightarrow> False)"
| "advances cfg m (DoResolve t now answer) =
     (case mget (mn_workers m) t of Some (Resolving j ex shut) \<Rightarrow> True | _ \<Rightarrow> False)"
| "advances cfg m (DoFinish t io) =
     (case mget (mn_workers m) t of Some (Finishing j st ex msg rec slot) \<Rightarrow> True | _ \<Rightarrow> False)"
| "advances cfg m a = False"

lemma setRunning_targets: "mn_targets (snd (setRunning cfg io i m)) = mn_targets m"
proof (cases "mget (mn_operations m) i")
  case (Some op)
  let ?n = "op\<lparr>op_status := StatusRunning, op_started_at := Some (oi_now io)\<rparr>"
  obtain saved m1 where s: "saveOperation (oi_save io) ?n (put_operation ?n m) = (saved, m1)" by fastforce
  have "mn_targets m1 = mn_targets m"
    using save_frame [of "oi_save io" ?n "put_operation ?n m"] s by (simp add: put_operation_def)
  with Some s show ?thesis by (cases saved) (simp_all add: setRunning_def Let_def op_frame)
qed (simp add: setRunning_def)

lemma beginStopping_targets: "mn_targets (snd (beginStopping cfg io i m)) = mn_targets m"
  by (simp add: beginStopping_def Let_def op_frame put_operation_def split: option.split)

lemma finishReconciled_targets: "mn_targets (finishReconciled cfg io i st ex msg rec m) = mn_targets m"
  by (simp add: finishReconciled_def Let_def op_frame put_operation_def closeSubscribersLocked_def split: option.split)

lemma work_run_pop:
  assumes "maps_ok m" and "target_ok m t" and w: "mget (mn_workers m) t = Some AtQueue"
  shows "work_left (run_pop t m) < work_left m"
proof -
  from assms obtain r where r: "mget (mn_targets m) t = Some r" by (auto simp: target_ok_def)
  have g: "gomap_ok (mn_workers m)" "gomap_ok (mn_targets m)" using assms(1) by (simp_all add: maps_ok_def)
  let ?q = "\<lambda>r. 10 * length (rn_queue r)"
  show ?thesis
  proof (cases "rn_queue r")
    case Nil
    with r show ?thesis
      using sum_vals_mdel [OF g(1) w, of steps_left] sum_vals_mdel [OF g(2) r, of ?q]
      by (simp add: run_pop_def work_left_def)
  next
    case (Cons j js)
    with r show ?thesis
      using sum_vals_mput [OF g(1) w, of steps_left "Popped j"]
        sum_vals_mput [OF g(2) r, of ?q "r\<lparr>rn_queue := js\<rparr>"]
      by (simp add: run_pop_def work_left_def set_pc_def)
  qed
qed

lemma work_decreases:
  assumes inv: "inv m" and adv: "advances cfg m a"
  shows "work_left (perform cfg a m) < work_left m"
proof -
  have maps: "maps_ok m" and tgt: "\<And>t. target_ok m t" using inv by (simp_all add: inv_def)
  note step = work_set_pc [OF maps]
  show ?thesis
  proof (cases a)
    case (DoPop t)
    with adv work_run_pop [OF maps tgt] show ?thesis by (simp add: worker_step_def)
  next
    case (DoCheckContext t)
    with adv show ?thesis
      by (auto simp: worker_step_def run_check_context_def intro!: step split: option.splits pc.splits)
  next
    case (DoSelect t pref)
    with adv show ?thesis
      by (auto simp: worker_step_def run_select_def Let_def may_proceed_def intro!: step split: option.splits pc.splits)
  next
    case (DoCheckTarget t res byId)
    with adv show ?thesis
      by (auto simp: worker_step_def run_check_target_def intro!: step split: option.splits pc.splits sum.splits)
  next
    case (DoStart t io)
    with adv obtain j where j: "mget (mn_workers m) t = Some (Ready j)" by (auto split: option.splits pc.splits)
    obtain e m1 where r: "setRunning cfg io (jb_id j) m = (e, m1)" by fastforce
    with setRunning_workers [of cfg io "jb_id j" m] setRunning_targets [of cfg io "jb_id j" m]
    have "mn_workers m1 = mn_workers m" "mn_targets m1 = mn_targets m" by simp_all
    with DoStart j r show ?thesis
      by (cases e) (auto simp: worker_step_def run_start_def intro!: step)
  next
    case (DoReturn t ex err)
    with adv show ?thesis
      by (auto simp: worker_step_def run_return_def intro!: step split: option.splits pc.splits)
  next
    case (DoBeginStopping t io)
    with adv obtain j ex where j: "mget (mn_workers m) t = Some (Stopping j ex)" by (auto split: option.splits pc.splits)
    obtain b m1 where r: "beginStopping cfg io (jb_id j) m = (b, m1)" by fastforce
    with beginStopping_workers [of cfg io "jb_id j" m] beginStopping_targets [of cfg io "jb_id j" m]
    have "mn_workers m1 = mn_workers m" "mn_targets m1 = mn_targets m" by simp_all
    with DoBeginStopping j r show ?thesis
      by (cases b) (auto simp: worker_step_def run_begin_stopping_def intro!: step)
  next
    case (DoReadFlag t)
    with adv show ?thesis
      by (auto simp: worker_step_def run_read_flag_def intro!: step split: option.splits pc.splits)
  next
    case (DoResolve t now answer)
    with adv show ?thesis
      by (auto simp: worker_step_def run_resolve_def intro!: step split: option.splits pc.splits prod.splits)
  next
    case (DoFinish t io)
    with adv show ?thesis
      by (auto simp: worker_step_def run_finish_def finishReconciled_workers finishReconciled_targets
          intro!: step split: option.splits pc.splits)
  qed (use adv in simp_all)
qed

section \<open>No deadlock\<close>

lemma slots_used_0:
  assumes "maps_ok m" and "\<And>t p. mget (mn_workers m) t = Some p \<Longrightarrow> \<not> holds_slot p"
  shows "slots_used m = 0"
proof -
  have "\<not> holds_slot (snd b)" if "b \<in> set (mn_workers m)" for b
    using assms that mem_gomap_iff [of "mn_workers m" "fst b" "snd b"] by (auto simp: maps_ok_def)
  then show ?thesis by (auto simp: slots_used_def count_vals_def filter_empty_conv)
qed

text \<open>A worker that does not wait for a slot can always take its next step.\<close>

lemma worker_advances:
  assumes "mget (mn_workers m) t = Some p" and "\<forall>j. p \<noteq> Waiting j"
  shows "\<exists>a. admissible a m \<and> advances cfg m a"
proof (cases p)
  case AtQueue
  with assms have "admissible (DoPop t) m \<and> advances cfg m (DoPop t)" by simp
  then show ?thesis ..
next
  case (Popped j)
  with assms have "admissible (DoCheckContext t) m \<and> advances cfg m (DoCheckContext t)" by simp
  then show ?thesis ..
next
  case (Waiting j)
  with assms(2) show ?thesis by blast
next
  case (HasSlot j)
  with assms have "admissible (DoCheckTarget t None None) m \<and> advances cfg m (DoCheckTarget t None None)" by simp
  then show ?thesis ..
next
  case (Ready j)
  with assms have "admissible (DoStart t (demo_io 0)) m \<and> advances cfg m (DoStart t (demo_io 0))" by simp
  then show ?thesis ..
next
  case (Executing j)
  with assms have "admissible (DoReturn t 0 None) m \<and> advances cfg m (DoReturn t 0 None)" by simp
  then show ?thesis ..
next
  case (Stopping j ex)
  with assms have "admissible (DoBeginStopping t (demo_io 0)) m \<and> advances cfg m (DoBeginStopping t (demo_io 0))" by simp
  then show ?thesis ..
next
  case (Asking j ex)
  with assms have "admissible (DoReadFlag t) m \<and> advances cfg m (DoReadFlag t)" by simp
  then show ?thesis ..
next
  case (Resolving j ex shut)
  with assms have "admissible (DoResolve t 0 (Inl [])) m \<and> advances cfg m (DoResolve t 0 (Inl []))" by simp
  then show ?thesis ..
next
  case (Finishing j st ex msg rec slot)
  with assms have "admissible (DoFinish t (demo_io 0)) m \<and> advances cfg m (DoFinish t (demo_io 0))" by simp
  then show ?thesis ..
qed

lemma some_worker_advances:
  assumes "maps_ok m" and "mn_workers m \<noteq> []"
  shows "\<exists>a. admissible a m \<and> advances cfg m a"
proof (cases "\<exists>t p. mget (mn_workers m) t = Some p \<and> (\<forall>j. p \<noteq> Waiting j)")
  case True
  then show ?thesis using worker_advances by blast
next
  case False
  from assms(2) obtain t p ws where "mn_workers m = (t, p) # ws" by (cases "mn_workers m") auto
  then have "mget (mn_workers m) t = Some p" by simp
  with False obtain j where j: "mget (mn_workers m) t = Some (Waiting j)" by blast
  have "slots_used m = 0"
  proof (rule slots_used_0 [OF assms(1)])
    fix t' p'
    assume "mget (mn_workers m) t' = Some p'"
    with False show "\<not> holds_slot p'" by (cases p') auto
  qed
  with j have "admissible (DoSelect t True) m \<and> advances cfg m (DoSelect t True)"
    using linorder_not_le [of "cf_maxConcurrent cfg" 0] by (auto simp: may_proceed_def)
  then show ?thesis ..
qed

lemma idle_all_terminal:
  assumes inv: "inv m" and ro: "\<not> mn_readOnly m" and w: "mn_workers m = []"
    and op: "mget (mn_operations m) i = Some op"
  shows "terminal (op_status op)"
proof (rule ccontr)
  assume "\<not> terminal (op_status op)"
  with inv ro op have "i \<in> set (mn_cancels m)" by (auto simp: inv_def cancels_ok_def)
  with inv obtain t where t: "i \<in> jb_id ` set (pending_jobs m t)" unfolding inv_def cancels_ok_def by blast
  from inv have "target_ok m t" by (simp add: inv_def)
  with w t show False
    by (auto simp: target_ok_def pending_jobs_def current_jobs_def queued_jobs_def)
qed

lemma perform_keeps_readOnly:
  assumes "inv m" and "admissible a m"
  shows "mn_readOnly (perform cfg a m) = mn_readOnly m"
  using perform_effect [OF assms, of cfg]
  by (auto simp: quiet_def ends_def admits_def admits_op_def)

text \<open>The finite run to the end, one worker step after the other.\<close>

lemma drain:
  assumes "inv m" and "\<not> mn_readOnly m"
  shows "\<exists>as. length as \<le> work_left m \<and> runs cfg as m \<and> mn_workers (fold (perform cfg) as m) = [] \<and>
    inv (fold (perform cfg) as m) \<and> \<not> mn_readOnly (fold (perform cfg) as m)"
  using assms
proof (induction "work_left m" arbitrary: m rule: less_induct)
  case less
  show ?case
  proof (cases "mn_workers m = []")
    case True
    with less.prems show ?thesis by (intro exI [of _ "[]"]) simp
  next
    case False
    have "maps_ok m" using less.prems(1) by (simp add: inv_def)
    from some_worker_advances [OF this False] obtain a where a: "admissible a m" "advances cfg m a" by blast
    note dec = work_decreases [OF less.prems(1) a(2)]
    have "\<not> mn_readOnly (perform cfg a m)"
      using less.prems(2) perform_keeps_readOnly [OF less.prems(1) a(1)] by simp
    from less.hyps [OF dec inv_perform [OF less.prems(1) a(1)] this] obtain as where
      as: "length as \<le> work_left (perform cfg a m)" "runs cfg as (perform cfg a m)"
        "mn_workers (fold (perform cfg) as (perform cfg a m)) = []"
        "inv (fold (perform cfg) as (perform cfg a m))" "\<not> mn_readOnly (fold (perform cfg) as (perform cfg a m))"
      by blast
    with a(1) dec show ?thesis by (intro exI [of _ "a # as"]) simp
  qed
qed

text \<open>
  An action that admits nothing never adds work: the action of a worker that stands elsewhere, or is
  blocked, does nothing, and no other action touches the queues and the workers.
\<close>

lemma idle_action:
  assumes "worker_of a \<noteq> None" and "\<not> advances cfg m a"
  shows "perform cfg a m = m"
  using assms
  by (cases a) (auto simp: worker_step_def run_select_def Let_def may_proceed_def split: option.splits pc.splits)

lemma work_never_grows:
  assumes "inv m" and "\<not> admission a"
  shows "work_left (perform cfg a m) + (if advances cfg m a then 1 else 0) \<le> work_left m"
proof (cases "advances cfg m a")
  case True
  then show ?thesis using work_decreases [OF assms(1) True] by simp
next
  case False
  then show ?thesis using idle_action [of a cfg m] pipeline_frame [OF _ assms(2), of cfg m]
    by (cases "worker_of a") (simp_all add: work_left_def)
qed

text \<open>The steps of workers in a run.\<close>

fun worker_steps :: "config \<Rightarrow> action list \<Rightarrow> manager \<Rightarrow> nat" where
  "worker_steps cfg [] m = 0"
| "worker_steps cfg (a # as) m = (if advances cfg m a then 1 else 0) + worker_steps cfg as (perform cfg a m)"

text \<open>
  C26. The workers terminate. In every run from a reachable state that admits nothing, whatever is
  canceled, printed, read, retired, reconciled or shut down in between and whatever the calls return, the
  steps taken by workers and \<open>work_left\<close> of the state reached are together at most \<open>work_left\<close> of
  the beginning, in which every queued job counts ten and every worker at most ten: only
  finitely many worker steps remain, and no cancellation or event adds one.
\<close>

theorem worker_steps_terminate:
  assumes "reachable cfg m" and "runs cfg as m" and "list_all (\<lambda>a. \<not> admission a) as"
  shows "worker_steps cfg as m + work_left (fold (perform cfg) as m) \<le> work_left m"
  using assms
proof (induction as arbitrary: m)
  case (Cons a as)
  have "worker_steps cfg as (perform cfg a m) + work_left (fold (perform cfg) as (perform cfg a m)) \<le> work_left (perform cfg a m)"
    using Cons by (auto intro: reachable.act)
  moreover have "work_left (perform cfg a m) + (if advances cfg m a then 1 else 0) \<le> work_left m"
    by (rule work_never_grows [OF reachable_inv [OF Cons.prems(1)]]) (use Cons.prems(3) in simp)
  ultimately show ?case by simp
qed simp

theorem worker_steps_terminate_witness:
  "let as = [DoCancel (demo_io 4) ''a'', DoReturn demo_target 1 None, DoSelect demo_target True, DoSeal,
       DoBeginStopping demo_target (demo_io 5), DoForce] in
   worker_steps demo_config as demo_running = 2 \<and> work_left demo_running = 16 \<and>
   2 + work_left (fold (perform demo_config) as demo_running) \<le> 16"
proof -
  let ?as = "[DoCancel (demo_io 4) ''a'', DoReturn demo_target 1 None, DoSelect demo_target True, DoSeal,
       DoBeginStopping demo_target (demo_io 5), DoForce]"
  have n: "worker_steps demo_config ?as demo_running = 2" "work_left demo_running = 16"
    and r: "runs demo_config ?as demo_running" "list_all (\<lambda>a. \<not> admission a) ?as"
    by code_simp+
  from worker_steps_terminate [OF demo_running_reachable r] n show ?thesis by (simp only: Let_def n)
qed

text \<open>
  C25. No deadlock, and every operation can be brought to its end: as long as a worker runs, one
  of them can take a step, and from every reachable state a run of at most \<open>work_left\<close>
  worker steps leads to a state where no worker is left and every operation is over.
\<close>

theorem every_operation_can_finish:
  assumes r: "reachable cfg m" and ro: "\<not> mn_readOnly m"
  shows "(mn_workers m \<noteq> [] \<longrightarrow> (\<exists>a. admissible a m \<and> advances cfg m a)) \<and>
    (\<exists>as. length as \<le> work_left m \<and> runs cfg as m \<and> mn_workers (fold (perform cfg) as m) = [] \<and>
       (\<forall>i op. mget (mn_operations (fold (perform cfg) as m)) i = Some op \<longrightarrow> terminal (op_status op)))"
proof
  note inv = reachable_inv [OF r]
  then have "maps_ok m" by (simp add: inv_def)
  with some_worker_advances show "mn_workers m \<noteq> [] \<longrightarrow> (\<exists>a. admissible a m \<and> advances cfg m a)" by blast
  from drain [OF inv ro, of cfg] obtain as where as: "length as \<le> work_left m" "runs cfg as m"
    "mn_workers (fold (perform cfg) as m) = []" "inv (fold (perform cfg) as m)" "\<not> mn_readOnly (fold (perform cfg) as m)"
    by blast
  with idle_all_terminal [OF as(4,5,3)]
  show "\<exists>as. length as \<le> work_left m \<and> runs cfg as m \<and> mn_workers (fold (perform cfg) as m) = [] \<and>
       (\<forall>i op. mget (mn_operations (fold (perform cfg) as m)) i = Some op \<longrightarrow> terminal (op_status op))"
    by blast
qed

theorem every_operation_can_finish_witness:
  "mn_workers demo_running \<noteq> [] \<and>
   (\<exists>a. admissible a demo_running \<and> advances demo_config demo_running a) \<and>
   (\<exists>as. length as \<le> 16 \<and> mn_workers (fold (perform demo_config) as demo_running) = [])"
proof -
  have "mn_workers demo_running \<noteq> []" "\<not> mn_readOnly demo_running" "work_left demo_running = 16" by code_simp+
  with every_operation_can_finish [OF demo_running_reachable] show ?thesis by auto
qed

end
