(* ===== verification/OpRecovery.thy ===== *)
theory OpRecovery
  imports OpLifecycle
begin

text \<open>
  Crash and restart of the operation service, and its idempotency keys: what a start on the
  files of a crashed manager finds, what a second request with a key gets, and when
  retention forgets a key that is still in use.
\<close>

section \<open>A crash and the next start\<close>

lemma disk_of_record:
  "mget (fst (disk_of m)) k = map_option Some (mget (mn_records m) k)"
proof -
  have "map_of (map (\<lambda>(n, s). (n, Some s)) rs) k = map_option Some (map_of rs k)" for rs :: "(string \<times> stored) list"
    by (induction rs) auto
  then show ?thesis by (simp add: disk_of_def)
qed

lemma recovered_active:
  assumes "op_active op"
  shows "op_status (recovered cfg now op) = StatusCanceled \<and>
      op_error (recovered cfg now op) = CanceledBeforeRestart \<and> op_status op = StatusCancelRequested \<or>
    op_status (recovered cfg now op) = StatusInterrupted \<and>
      (if cf_reader cfg then is_reconciling (recovered cfg now op)
       else \<exists>r. op_reconciliation (recovered cfg now op) = Some r \<and> rec_state r = ReconcileStateManual)"
  using assms by (auto simp: recovered_def is_reconciling_def)

text \<open>
  C24. A restart loses no acknowledged work and repeats none. When the process dies in any
  reachable state, the next start finds every operation that was not over, ends it as
  canceled (if a cancellation was recorded) or interrupted, hands the interrupted ones to the
  reconciliation against the receipts of the target (or marks them for a manual check when
  there is no reader), and executes nothing.
\<close>

theorem restart_finds_all_work:
  assumes r: "reachable cfg m" and ro: "\<not> mn_readOnly m"
    and op: "mget (mn_operations m) i = Some op" and live: "op_live op"
    and known: "disk_ok (disk_of m)" and new: "New cfg' io (disk_of m) = Some (p, m')"
    and ro': "\<not> mn_readOnly m'"
  shows "mn_workers m' = [] \<and> mn_targets m' = [] \<and>
    (\<exists>op'. mget (mn_operations m') i = Some op' \<and> op_id op' = i \<and>
       (op_status op' = StatusCanceled \<and> op_error op' = CanceledBeforeRestart \<or>
        op_status op' = StatusInterrupted \<and>
          (if cf_reader cfg' then is_reconciling op' \<and> i \<in> set p
           else \<exists>rc. op_reconciliation op' = Some rc \<and> rec_state rc = ReconcileStateManual)))"
proof (rule New_spec [OF new known])
  fix gone
  assume ops: "\<And>k. mget (mn_operations m') k =
      (case mget (fst (disk_of m)) k of
         Some (Some s) \<Rightarrow> if k \<in> gone then None
           else Some (if mn_readOnly m' then fill_mode (st_operation s)
             else recovered cfg' (oi_now (so_recover io k)) (fill_mode (st_operation s)))
       | _ \<Rightarrow> None)"
    and gone: "\<And>k. k \<in> gone \<Longrightarrow> \<exists>s. mget (fst (disk_of m)) k = Some (Some s) \<and> terminal (op_status (st_operation s))"
    and rest: "at_rest m'"
    and p: "\<not> mn_readOnly m' \<Longrightarrow> set p = {k. cf_reader cfg' \<and>
       (\<exists>op. mget (mn_operations m') k = Some op \<and> is_reconciling op)}"
  have inv: "inv m" using r by (rule reachable_inv)
  then have "i \<in> set (mn_cancels m)"
    using ro op live by (auto simp: inv_def cancels_ok_def)
  with inv obtain s where s: "mget (mn_records m) i = Some s" "op_active (st_operation s)"
    unfolding inv_def durable_def by blast
  have "i \<notin> gone"
    using gone [of i] s active_live [OF s(2)] by (auto simp: disk_of_record)
  let ?op' = "recovered cfg' (oi_now (so_recover io i)) (fill_mode (st_operation s))"
  from ops [of i] s(1) \<open>i \<notin> gone\<close> ro' have op': "mget (mn_operations m') i = Some ?op'"
    by (simp add: disk_of_record)
  have "op_active (fill_mode (st_operation s))" using s(2) by simp
  note this [THEN recovered_active, of cfg' "oi_now (so_recover io i)"]
  moreover have "op_id ?op' = i" using rest op' unfolding at_rest_def maps_ok_def by blast
  ultimately show ?thesis
    using rest op' p [OF ro'] by (auto simp: at_rest_def)
qed

definition hex_id :: string where
  "hex_id = replicate 32 CHR ''a''"

definition demo_crashed :: manager where
  "demo_crashed = fold (perform demo_config)
     [demo_admit hex_id ''k'' 1, DoPop demo_target, DoCheckContext demo_target,
      DoSelect demo_target True, DoCheckTarget demo_target demo_resolver None,
      DoStart demo_target (demo_io 3)] (empty_manager False 0)"

lemma demo_crashed_reachable: "reachable demo_config demo_crashed"
  unfolding demo_crashed_def by (rule reachable_runs [OF demo_start_reachable]) code_simp

theorem restart_finds_all_work_witness:
  "\<exists>p m' op'. New demo_config demo_start_io (disk_of demo_crashed) = Some (p, m') \<and>
     mget (mn_operations m') hex_id = Some op' \<and> op_status op' = StatusInterrupted \<and> p = [hex_id]"
proof -
  have "map_option op_status (mget (mn_operations demo_crashed) hex_id) = Some StatusRunning" by code_simp
  then obtain op where op: "mget (mn_operations demo_crashed) hex_id = Some op" "op_live op" by auto
  have ro: "\<not> mn_readOnly demo_crashed" by code_simp+
  have known: "disk_ok (disk_of demo_crashed)"
    unfolding disk_ok_def by code_simp
  have "map_option (\<lambda>(p, m'). (p, mn_readOnly m', map_option op_status (mget (mn_operations m') hex_id)))
      (New demo_config demo_start_io (disk_of demo_crashed)) = Some ([hex_id], False, Some StatusInterrupted)"
    by code_simp
  then obtain m' op' where new: "New demo_config demo_start_io (disk_of demo_crashed) = Some ([hex_id], m')"
    "\<not> mn_readOnly m'" "mget (mn_operations m') hex_id = Some op'" "op_status op' = StatusInterrupted"
    by auto
  from restart_finds_all_work [OF demo_crashed_reachable ro op known new(1,2)] new show ?thesis by auto
qed

section \<open>What an admission changes\<close>

text \<open>
  From \<open>m\<close> to \<open>m'\<close> a request with the index key \<open>ns\<close> left every operation, queue and worker as it
  was; at most an expired entry of the index went.
\<close>

definition untouched :: "idem_key \<Rightarrow> manager \<Rightarrow> manager \<Rightarrow> bool" where
  "untouched ns m m' \<longleftrightarrow>
     mn_operations m' = mn_operations m \<and> mn_events m' = mn_events m \<and>
     mn_targets m' = mn_targets m \<and> mn_workers m' = mn_workers m \<and>
     mn_cancels m' = mn_cancels m \<and> mn_canceled m' = mn_canceled m \<and>
     mn_finished m' = mn_finished m \<and> mn_readOnly m' = mn_readOnly m \<and>
     mn_admissionClosed m' = mn_admissionClosed m \<and>
     (mn_idempotency m' = mn_idempotency m \<or> mn_idempotency m' = mdel ns (mn_idempotency m))"

lemma untouched_refl [simp]: "untouched ns m m"
  by (simp add: untouched_def)

lemma mdel_mdel [simp]: "mdel k (mdel k m) = mdel k m"
  by (rule delete_idem)

lemma untouched_trans: "untouched ns m1 m2 \<Longrightarrow> untouched ns m2 m3 \<Longrightarrow> untouched ns m1 m3"
  unfolding untouched_def by (elim conjE disjE; simp)

lemma untouched_lookup: "lookupReplayLocked cfg ns hash now m = (res, m1) \<Longrightarrow> untouched ns m m1"
  using lookup_frame(1) [of cfg ns hash now m res m1] by (auto simp: untouched_def)

lemma lookup_records: "lookupReplayLocked cfg ns hash now m = (res, m1) \<Longrightarrow> mn_records m1 = mn_records m"
  using lookup_frame(1) [of cfg ns hash now m res m1] by auto

lemma untouched_append: "untouched ns m (snd (store_append cfg io oid e m))"
  by (simp add: untouched_def store_append_def split: prod.split)

lemma untouched_save: "untouched ns m (snd (saveOperation sv op m))"
  by (cases sv) (simp_all add: untouched_def saveOperation_def Let_def)

fun kept :: "enqueue_result \<Rightarrow> bool" where
  "kept (Admitted op) = False"
| "kept _ = True"

text \<open>What the second section of \<open>enqueue\<close> comes to: nothing, or a published operation.\<close>

lemma enqueue_admit_outcome:
  assumes e: "enqueue_admit cfg req key retryOf attempt act bld io m = (res, m')"
  shows "kept res \<and> untouched (IdempotencyScope act, key) m m' \<and>
      (oi_save (ai_io io) \<noteq> SaveUnsynced \<longrightarrow> mn_records m' = mn_records m) \<or>
    (\<exists>nid cmd admitted target sq initial m4. let op = admitted_operation cfg (normalizeMode req) key
        retryOf attempt act cmd admitted target nid (oi_now (ai_io io)) sq in
       res = Admitted op \<and> ai_id io = Some nid \<and> bld = Inr (cmd, admitted, target) \<and>
       m' = publish key op initial cmd m4 \<and>
       untouched (IdempotencyScope act, key) m m4 \<and> \<not> mn_admissionClosed m)"
proof (cases "\<exists>cmd admitted target. bld = Inr (cmd, admitted, target) \<and> \<not> mn_admissionClosed m")
  case False
  with e show ?thesis by (cases bld) (auto simp: enqueue_admit_def Let_def)
next
  case True
  then obtain cmd admitted target where b: "bld = Inr (cmd, admitted, target)" "\<not> mn_admissionClosed m"
    by blast
  let ?req = "normalizeMode req" and ?now = "oi_now (ai_io io)" and ?ns = "(IdempotencyScope act, key)"
  obtain lr m1 where l: "lookupReplayLocked cfg ?ns (cf_hash cfg ?req) ?now m = (lr, m1)"
    by fastforce
  note u1 = untouched_lookup [OF l] and r1 = lookup_records [OF l]
  show ?thesis
  proof (cases "lr = NoReplay \<and> budget_error cfg target (IdempotencyScope act) m1 = None \<and> ai_id io \<noteq> None")
    case False
    then show ?thesis
      using e b l u1 r1 by (cases lr) (auto simp: enqueue_admit_def Let_def split: option.splits)
  next
    case True
    then obtain nid where n: "ai_id io = Some nid" by blast
    let ?m2 = "m1\<lparr>mn_admissionSeq := mn_admissionSeq m1 + 1\<rparr>"
    let ?op = "admitted_operation cfg ?req key retryOf attempt act cmd admitted target nid ?now (mn_admissionSeq ?m2)"
    let ?e = "\<lparr>ev_seq = 1, ev_op = nid, ev_type = EventStatus, ev_data = status_text StatusQueued, ev_at = ?now\<rparr>"
    obtain ok m3 where a: "store_append cfg (oi_event (ai_io io)) nid ?e ?m2 = (ok, m3)" by fastforce
    obtain saved m4 where s: "saveOperation (oi_save (ai_io io)) ?op m3 = (saved, m4)" by fastforce
    have u2: "untouched ?ns m ?m2" using u1 by (simp add: untouched_def)
    have u3: "untouched ?ns m m3"
      using untouched_trans [OF u2 untouched_append [of ?ns ?m2 cfg "oi_event (ai_io io)" nid ?e]] a by simp
    have u4: "untouched ?ns m m4"
      using untouched_trans [OF u3 untouched_save [of ?ns m3 "oi_save (ai_io io)" ?op]] s by simp
    have r3: "mn_records m3 = mn_records m"
      using store_append_only [of ?m2 cfg "oi_event (ai_io io)" nid ?e] a r1 by (simp add: event_only_def)
    have l': "lookupReplayLocked cfg ?ns (cf_hash cfg ?req) ?now m = (NoReplay, m1)"
      using l True by blast
    have bud: "budget_error cfg target (IdempotencyScope act) m1 = None" using True by blast
    note res = e [unfolded enqueue_admit_new [OF b l' bud n refl refl refl a s]]
    consider "\<not> ok" | "ok" "\<not> saved" | "ok" "saved" by blast
    then show ?thesis
    proof cases
      case 1
      with res have "res = Refused PersistEventFailed" "m' = noteEventErrLocked ?now m3" by simp_all
      with u3 r3 show ?thesis by (simp add: untouched_def op_frame noteEventErrLocked_def)
    next
      case 2
      with res have m': "res = Refused PersistRecordFailed"
        "m' = (noteRecordErrLocked ?now m4)\<lparr>mn_journals := mput nid
            (discardJournal (ai_discard io) (mgetd no_journal (mn_journals m4) nid)) (mn_journals m4)\<rparr>" by simp_all
      have "oi_save (ai_io io) \<noteq> SaveUnsynced \<Longrightarrow> mn_records m4 = mn_records m"
        using s 2 r3 by (cases "oi_save (ai_io io)") (auto simp: saveOperation_def Let_def)
      with u4 show ?thesis by (auto simp: m' untouched_def noteRecordErrLocked_def)
    next
      case 3
      with res have "res = Admitted ?op" "m' = publish key ?op ?e cmd m4" by simp_all
      with u4 n b show ?thesis by (auto simp: Let_def)
    qed
  qed
qed

lemma enqueue_lookup_outcome:
  assumes "enqueue_lookup cfg req key act now m = (res, m')"
  shows "untouched (IdempotencyScope act, key) m m' \<and> mn_records m' = mn_records m \<and>
    (case res of None \<Rightarrow> \<not> mn_readOnly m \<and> validKey key \<and> \<not> mn_admissionClosed m | Some r \<Rightarrow> kept r)"
proof -
  obtain lr m1 where l: "lookupReplayLocked cfg (IdempotencyScope act, key)
      (cf_hash cfg (normalizeMode req)) now m = (lr, m1)"
    by fastforce
  from assms untouched_lookup [OF l] lookup_records [OF l] show ?thesis
    by (cases lr) (auto simp: enqueue_lookup_def l split: if_splits)
qed

lemma enqueue_outcome:
  assumes "enqueue cfg resolve req key retryOf attempt act now io m = (res, m')"
  shows "kept res \<and> untouched (IdempotencyScope act, key) m m' \<and>
      (oi_save (ai_io io) \<noteq> SaveUnsynced \<longrightarrow> mn_records m' = mn_records m) \<or>
    (\<exists>nid cmd admitted target sq initial m4. let op = admitted_operation cfg (normalizeMode req) key
        retryOf attempt act cmd admitted target nid (oi_now (ai_io io)) sq in
       res = Admitted op \<and> ai_id io = Some nid \<and>
       Build (cf_build cfg) (normalizeMode req) resolve = Inr (cmd, admitted, target) \<and>
       m' = publish key op initial cmd m4 \<and> untouched (IdempotencyScope act, key) m m4 \<and>
       \<not> mn_admissionClosed m \<and> \<not> mn_readOnly m \<and> validKey key)"
proof -
  obtain lr m1 where l: "enqueue_lookup cfg req key act now m = (lr, m1)" by fastforce
  note lo = enqueue_lookup_outcome [OF l]
  show ?thesis
  proof (cases lr)
    case (Some r)
    with assms l lo show ?thesis by (auto simp: enqueue_def)
  next
    case None
    then have e: "enqueue_admit cfg req key retryOf attempt act
        (Build (cf_build cfg) (normalizeMode req) resolve) io m1 = (res, m')"
      using assms l by (simp add: enqueue_def)
    have t: "untouched (IdempotencyScope act, key) m1 x \<Longrightarrow> untouched (IdempotencyScope act, key) m x" for x
      using lo untouched_trans by blast
    from enqueue_admit_outcome [OF e] show ?thesis
    proof (elim disjE conjE exE)
      assume "kept res" "untouched (IdempotencyScope act, key) m1 m'"
        "oi_save (ai_io io) \<noteq> SaveUnsynced \<longrightarrow> mn_records m' = mn_records m1"
      with t lo show ?thesis by simp
    next
      fix nid cmd admitted target sq initial m4
      assume "let op = admitted_operation cfg (normalizeMode req) key retryOf attempt act cmd admitted target
          nid (oi_now (ai_io io)) sq in
         res = Admitted op \<and> ai_id io = Some nid \<and>
         Build (cf_build cfg) (normalizeMode req) resolve = Inr (cmd, admitted, target) \<and>
         m' = publish key op initial cmd m4 \<and>
         untouched (IdempotencyScope act, key) m1 m4 \<and> \<not> mn_admissionClosed m1"
      moreover have "\<not> mn_admissionClosed m" "\<not> mn_readOnly m" "validKey key"
        using lo None by simp_all
      ultimately show ?thesis using t unfolding Let_def by blast
    qed
  qed
qed

text \<open>
  A request that is not admitted leaves nothing behind: no operation, no event window, no
  queue entry, no worker, no index entry, and no record on disk, unless the record write
  failed after its rename.
\<close>

theorem refusal_leaves_nothing:
  assumes "enqueue cfg resolve req key retryOf attempt act now io m = (res, m')" and "kept res"
  shows "untouched (IdempotencyScope act, key) m m' \<and>
    (oi_save (ai_io io) \<noteq> SaveUnsynced \<longrightarrow> mn_records m' = mn_records m)"
  using enqueue_outcome [OF assms(1)] assms(2) by (elim disjE exE) (simp_all add: Let_def)

definition failing_admit :: "save_outcome \<Rightarrow> admit_io" where
  "failing_admit sv = \<lparr>ai_id = Some hex_id, ai_io = (demo_io 5)\<lparr>oi_save := sv\<rparr>, ai_discard = True\<rparr>"

theorem refusal_leaves_nothing_witness:
  "fst (enqueue demo_config demo_resolver demo_request ''k'' [] 1 None 5 (failing_admit SaveFail) (empty_manager False 0))
     = Refused PersistRecordFailed \<and>
   mn_records (snd (enqueue demo_config demo_resolver demo_request ''k'' [] 1 None 5 (failing_admit SaveFail)
     (empty_manager False 0))) = mn_records (empty_manager False 0)"
proof -
  let ?r = "enqueue demo_config demo_resolver demo_request ''k'' [] 1 None 5 (failing_admit SaveFail) (empty_manager False 0)"
  have f: "fst ?r = Refused PersistRecordFailed" by code_simp
  then have "?r = (Refused PersistRecordFailed, snd ?r)" by (metis prod.collapse)
  from refusal_leaves_nothing [OF this] have "mn_records (snd ?r) = mn_records (empty_manager False 0)"
    by (simp add: failing_admit_def)
  with f show ?thesis by blast
qed

text \<open>
  The exception is real. When the directory sync after the rename fails, the caller is told
  that the request was refused, yet its record stays; a restart resurrects the refused
  request as an interrupted operation.
\<close>

theorem refused_request_resurrected:
  "let (res, m') = enqueue demo_config demo_resolver demo_request ''k'' [] 1 None 5
       (failing_admit SaveUnsynced) (empty_manager False 0) in
   res = Refused PersistRecordFailed \<and> mget (mn_operations m') hex_id = None \<and>
   map_option (\<lambda>(p, m2). (p, map_option op_status (mget (mn_operations m2) hex_id)))
     (New demo_config demo_start_io (disk_of m')) = Some ([hex_id], Some StatusInterrupted)"
  by code_simp

section \<open>A key names one operation of its principal\<close>

text \<open>The entry of the index for a key, and the operation it names.\<close>

definition names_key :: "idem_key \<Rightarrow> operation \<Rightarrow> manager \<Rightarrow> bool" where
  "names_key ns op m \<longleftrightarrow> mget (mn_idempotency m) ns = Some (op_id op) \<and>
     (\<exists>op'. mget (mn_operations m) (op_id op) = Some op' \<and> same_identity op op')"

text \<open>Actions other than a retention pass, whose look-ups happen inside the window of the key.\<close>

fun inside_window :: "config \<Rightarrow> time \<Rightarrow> action \<Rightarrow> bool" where
  "inside_window cfg created (DoLookup req key act now) = idempotencyLive cfg created now"
| "inside_window cfg created (DoAdmit req key retryOf attempt act bld io) =
     idempotencyLive cfg created (oi_now (ai_io io))"
| "inside_window cfg created (DoForget now) = False"
| "inside_window cfg created a = True"

lemma admitted_names_key:
  assumes adm: "enqueue cfg resolve req key retryOf attempt act now io m = (Admitted op, m')" and key: "key \<noteq> []"
  shows "names_key (IdempotencyScope act, key) op m' \<and> validKey key \<and> \<not> mn_readOnly m' \<and>
    op_created_at op = oi_now (ai_io io) \<and> op_request_hash op = cf_hash cfg (normalizeMode req)"
proof -
  from enqueue_outcome [OF adm] obtain nid cmd admitted target sq initial m4 where
    op: "op = admitted_operation cfg (normalizeMode req) key retryOf attempt act cmd admitted target nid
        (oi_now (ai_io io)) sq"
    and m': "m' = publish key op initial cmd m4" and u: "untouched (IdempotencyScope act, key) m m4"
    and gates: "\<not> mn_admissionClosed m" "\<not> mn_readOnly m" "validKey key"
    unfolding Let_def by auto
  have f: "op_created_at op = oi_now (ai_io io)" "op_request_hash op = cf_hash cfg (normalizeMode req)"
    "op_idem_principal op = IdempotencyScope act"
    by (simp_all add: op admitted_operation_def)
  have "mn_operations m' = mput (op_id op) op (mn_operations m)" "\<not> mn_readOnly m'"
    "mn_idempotency m' = mput (IdempotencyScope act, key) (op_id op) (mn_idempotency m4)"
    using u gates key by (auto simp: m' publish_def admitToTarget_def Let_def untouched_def f split: option.split)
  then show ?thesis using f gates by (simp add: names_key_def same_identity_def)
qed

lemma lookup_keeps_key:
  assumes n: "names_key ns op m" and live: "idempotencyLive cfg (op_created_at op) now"
    and l: "lookupReplayLocked cfg ns' hash now m = (res, m1)"
  shows "mget (mn_idempotency m1) ns = Some (op_id op) \<and> mn_operations m1 = mn_operations m \<and>
    (ns' = ns \<longrightarrow> snd ns \<noteq> [] \<longrightarrow> res \<noteq> NoReplay \<and> m1 = m)"
  using assms
  by (auto simp: names_key_def same_identity_def lookupReplayLocked_def Let_def split: if_splits option.splits)

lemma setRunning_index:
  "setRunning cfg io i m = (e, m1) \<Longrightarrow> mn_idempotency m1 = mn_idempotency m \<and>
     (mget (mn_operations m) k \<noteq> None \<longrightarrow> mget (mn_operations m1) k \<noteq> None)"
proof (cases "mget (mn_operations m) i")
  case (Some op)
  let ?n = "op\<lparr>op_status := StatusRunning, op_started_at := Some (oi_now io)\<rparr>"
  assume r: "setRunning cfg io i m = (e, m1)"
  obtain saved m2 where s: "saveOperation (oi_save io) ?n (put_operation ?n m) = (saved, m2)" by fastforce
  have "mn_idempotency m2 = mn_idempotency m" "mn_operations m2 = mput (op_id op) ?n (mn_operations m)"
    using save_frame [of "oi_save io" ?n "put_operation ?n m"] s by (simp_all add: put_operation_def)
  with Some s r show ?thesis by (cases saved) (auto simp: setRunning_def Let_def op_frame split: if_splits)
qed (simp add: setRunning_def)

lemma beginStopping_index:
  "beginStopping cfg io i m = (b, m1) \<Longrightarrow> mn_idempotency m1 = mn_idempotency m \<and>
     (mget (mn_operations m) k \<noteq> None \<longrightarrow> mget (mn_operations m1) k \<noteq> None)"
  by (auto simp: beginStopping_def Let_def op_frame put_operation_def split: option.splits if_splits)

lemma finishReconciled_index:
  "mn_idempotency (finishReconciled cfg io i st ex msg rec m) = mn_idempotency m \<and>
     (mget (mn_operations m) k \<noteq> None \<longrightarrow> mget (mn_operations (finishReconciled cfg io i st ex msg rec m)) k \<noteq> None)"
  by (auto simp: finishReconciled_def Let_def op_frame put_operation_def closeSubscribersLocked_def split: option.split)

lemma Cancel_index:
  "mn_idempotency (snd (Cancel cfg io i m)) = mn_idempotency m \<and>
     (mget (mn_operations m) k \<noteq> None \<longrightarrow> mget (mn_operations (snd (Cancel cfg io i m))) k \<noteq> None)"
proof (cases "mget (mn_operations m) i")
  case (Some op)
  let ?n = "op\<lparr>op_status := StatusCancelRequested\<rparr>"
  obtain saved m1 where s: "saveOperation (oi_save io) ?n m = (saved, m1)" by fastforce
  have "mn_idempotency m1 = mn_idempotency m" "mn_operations m1 = mn_operations m"
    using save_frame [of "oi_save io" ?n m] s by simp_all
  with Some s show ?thesis by (cases saved) (auto simp: Cancel_def Let_def op_frame)
qed (simp add: Cancel_def)

lemma reconcileOne_index:
  "mn_idempotency (reconcileOne cfg io d answer i m) = mn_idempotency m \<and>
     (mget (mn_operations m) k \<noteq> None \<longrightarrow> mget (mn_operations (reconcileOne cfg io d answer i m)) k \<noteq> None)"
proof (cases "mget (mn_operations m) i")
  case (Some op)
  let ?n = "op\<lparr>op_reconciliation := Some (reconcile_answer (oi_now io) (readReceipt (cf_reader cfg) answer))\<rparr>"
  obtain saved m1 where s: "saveOperation (oi_save io) ?n m = (saved, m1)" by fastforce
  have "mn_idempotency m1 = mn_idempotency m" "mn_operations m1 = mn_operations m"
    using save_frame [of "oi_save io" ?n m] s by simp_all
  with Some s show ?thesis
    by (cases saved) (auto simp: reconcileOne_def Let_def op_frame put_operation_def)
qed (simp add: reconcileOne_def)

lemma retire_sweep_index: "mn_idempotency (retire_sweep cfg io now m) = mn_idempotency m"
proof -
  obtain removed m1 where s: "sweepRetention io now (cf_maxHistoryAge cfg) (cf_maxOperations cfg) (m\<lparr>mn_lastSweep := now\<rparr>) = (removed, m1)"
    by fastforce
  have "m1 = (m\<lparr>mn_lastSweep := now\<rparr>)\<lparr>mn_records := mn_records m1, mn_journals := mn_journals m1\<rparr>"
    using swept_sweepRetention [OF s] unfolding swept_def by blast
  then obtain rc jr where "m1 = m\<lparr>mn_lastSweep := now, mn_records := rc, mn_journals := jr\<rparr>" by simp
  with s show ?thesis by (simp add: retire_sweep_def Let_def)
qed

text \<open>Outside admission and retention the index stays and no operation disappears.\<close>

lemma index_frame:
  assumes "inside_window cfg created a" and "\<not> admission a" and "\<forall>req key act now. a \<noteq> DoLookup req key act now"
  shows "mn_idempotency (perform cfg a m) = mn_idempotency m \<and>
    (mget (mn_operations m) k \<noteq> None \<longrightarrow> mget (mn_operations (perform cfg a m)) k \<noteq> None)"
proof (cases a)
  case (DoReplay io i sq)
  then show ?thesis using replayLocked_only [of io i sq m]
    by (cases "replayLocked io i sq m") (auto simp: EventsAfter_def event_only_def split: option.split)
next
  case (DoSubscribe io i sq c)
  then show ?thesis using replayLocked_only [of io i sq m]
    by (cases "replayLocked io i sq m") (auto simp: Subscribe_def event_only_def split: option.split)
next
  case (DoStart t io)
  then show ?thesis using setRunning_index [of cfg io _ m _ _ k]
    by (auto simp: worker_step_def run_start_def set_pc_def split: option.split pc.split prod.split run_error.split)
next
  case (DoBeginStopping t io)
  then show ?thesis using beginStopping_index [of cfg io _ m _ _ k]
    by (auto simp: worker_step_def run_begin_stopping_def set_pc_def split: option.split pc.split prod.split bool.split)
next
  case (DoFinish t io)
  then show ?thesis using finishReconciled_index [of cfg io _ _ _ _ _ m k]
    by (auto simp: worker_step_def run_finish_def set_pc_def split: option.split pc.split)
qed (use assms Cancel_index reconcileOne_index retire_sweep_core in \<open>auto simp: worker_step_def run_pop_def
  run_check_context_def run_select_def run_check_target_def run_output_def run_return_def run_read_flag_def
  run_resolve_def set_pc_def op_frame Let_def retire_sweep_index Unsubscribe_def shutdown_seal_def
  shutdown_force_def split: option.split pc.split sum.split prod.split list.split\<close>)

lemma admit_keeps_key:
  assumes n: "names_key ns op m" and live: "idempotencyLive cfg (op_created_at op) (oi_now (ai_io io))"
    and ns: "snd ns \<noteq> []" and fresh: "ai_id io \<noteq> Some (op_id op)"
  shows "mget (mn_idempotency (snd (enqueue_admit cfg req key retryOf attempt act bld io m))) ns = Some (op_id op) \<and>
    mget (mn_operations (snd (enqueue_admit cfg req key retryOf attempt act bld io m))) (op_id op) =
      mget (mn_operations m) (op_id op)"
proof -
  let ?ns' = "(IdempotencyScope act, key)"
  obtain res m' where e: "enqueue_admit cfg req key retryOf attempt act bld io m = (res, m')" by fastforce
  obtain lr m1 where l: "lookupReplayLocked cfg ?ns' (cf_hash cfg (normalizeMode req)) (oi_now (ai_io io)) m = (lr, m1)"
    by fastforce
  note k = lookup_keeps_key [OF n live l]
  show ?thesis
  proof (cases "?ns' = ns")
    case True
    then have "lr \<noteq> NoReplay" "m1 = m" using k ns by auto
    then have "m' = m" using e l by (cases lr) (auto simp: enqueue_admit_def Let_def split: sum.splits if_splits)
    then show ?thesis using e n by (simp add: names_key_def)
  next
    case False
    have keep: "mget (mn_idempotency x) ns = Some (op_id op) \<and> mn_operations x = mn_operations m"
      if "untouched ?ns' m x" for x
      using that n False by (auto simp: untouched_def names_key_def)
    from enqueue_admit_outcome [OF e] show ?thesis
    proof (elim disjE conjE exE)
      assume "untouched ?ns' m m'"
      note keep [OF this]
      then show ?thesis unfolding e snd_conv by simp
    next
      fix nid cmd admitted target sq initial m4
      let ?o = "admitted_operation cfg (normalizeMode req) key retryOf attempt act cmd admitted target nid (oi_now (ai_io io)) sq"
      assume a: "let op = ?o in
        res = Admitted op \<and> ai_id io = Some nid \<and> bld = Inr (cmd, admitted, target) \<and>
        m' = publish key op initial cmd m4 \<and> untouched ?ns' m m4 \<and> \<not> mn_admissionClosed m"
      then have "nid \<noteq> op_id op" "untouched ?ns' m m4" "m' = publish key ?o initial cmd m4"
        using fresh by (auto simp: Let_def)
      moreover note keep [OF this(2)]
      ultimately show ?thesis
        unfolding e snd_conv using False by (auto simp: publish_def admitToTarget_def Let_def admitted_operation_def)
    qed
  qed
qed

lemma names_key_step:
  assumes "inv m" and "admissible a m" and n: "names_key ns op m" and ns: "snd ns \<noteq> []"
    and win: "inside_window cfg (op_created_at op) a"
  shows "names_key ns op (perform cfg a m)"
proof -
  obtain op1 where op1: "mget (mn_operations m) (op_id op) = Some op1" "same_identity op op1"
    using n by (auto simp: names_key_def)
  have "mget (mn_idempotency (perform cfg a m)) ns = Some (op_id op) \<and> mget (mn_operations (perform cfg a m)) (op_id op) \<noteq> None"
  proof (cases a)
    case (DoAdmit req key retryOf attempt act bld io)
    then have "ai_id io \<noteq> Some (op_id op)" using assms(2) op1 by auto
    from admit_keeps_key [OF n _ ns this] win DoAdmit op1 n show ?thesis by (simp add: names_key_def)
  next
    case (DoLookup req key act now)
    obtain lr m1 where l: "lookupReplayLocked cfg (IdempotencyScope act, key) (cf_hash cfg (normalizeMode req)) now m = (lr, m1)"
      by fastforce
    from lookup_keeps_key [OF n _ l] win DoLookup l op1 n show ?thesis
      by (cases lr) (simp_all add: enqueue_lookup_def names_key_def)
  qed (use index_frame [OF win, of m "op_id op"] n op1 in \<open>simp_all add: names_key_def\<close>)
  moreover have "same_identity op op2" if "mget (mn_operations (perform cfg a m)) (op_id op) = Some op2" for op2
    using perform_ops_step [OF assms(1,2) op1(1) that] op1(2) by (simp add: op_next_def same_identity_def)
  ultimately show ?thesis by (auto simp: names_key_def)
qed

lemma names_key_run:
  assumes "reachable cfg m" and "runs cfg as m" and "names_key ns op m" and "snd ns \<noteq> []"
    and "list_all (inside_window cfg (op_created_at op)) as"
  shows "names_key ns op (fold (perform cfg) as m)"
  using assms
proof (induction as arbitrary: m)
  case (Cons a as)
  have "names_key ns op (perform cfg a m)"
    using Cons.prems by (intro names_key_step reachable_inv) auto
  with Cons show ?case by (auto intro: reachable.act)
qed simp

lemma names_key_answer:
  assumes n: "names_key (IdempotencyScope act, key) op m" and "key \<noteq> []" and "validKey key"
    and "IdempotencyScope act' = IdempotencyScope act" and "idempotencyLive cfg (op_created_at op) now'"
    and "\<not> mn_readOnly m" and "\<not> mn_admissionClosed m"
  shows "\<exists>op'. mget (mn_operations m) (op_id op) = Some op' \<and> same_identity op op' \<and>
    enqueue cfg resolve' req' key retryOf' attempt' act' now' io' m =
      (if cf_hash cfg (normalizeMode req') = op_request_hash op then (Replayed op', m)
       else (Refused ErrIdempotencyConflict, m))"
  using assms
  by (auto simp: names_key_def same_identity_def enqueue_def enqueue_lookup_def lookupReplayLocked_def Let_def)

lemma runs_keep_readOnly:
  assumes "reachable cfg m" and "runs cfg as m"
  shows "mn_readOnly (fold (perform cfg) as m) = mn_readOnly m"
  using assms
proof (induction as arbitrary: m)
  case (Cons a as)
  have "mn_readOnly (perform cfg a m) = mn_readOnly m"
    using perform_effect [OF reachable_inv [OF Cons.prems(1)], of a cfg] Cons.prems(2)
    by (auto simp: quiet_def ends_def admits_def admits_op_def)
  with Cons show ?case by (auto intro: reachable.act)
qed simp

text \<open>
  C27. A key names one operation of its principal for its whole window. Once a request with a key was admitted,
  then after any run of the service (other admissions and look-ups with any keys, workers, cancellations, sweeps,
  failing writes) in which no retention pass drops records from memory and every look-up
  still falls into the window, the same principal gets, with the same key and inside the window: for a request with the same
  hash the admitted operation as it is by then, with the identity it was admitted with; for any other
  request a conflict. Nothing is admitted either way. Admission must not be closed by then.
\<close>

theorem key_is_honored:
  assumes reach: "reachable cfg m'"
    and adm: "enqueue cfg resolve req key retryOf attempt act now io m = (Admitted op, m')"
    and key: "key \<noteq> []"
    and run: "runs cfg as m'" "list_all (inside_window cfg (oi_now (ai_io io))) as"
    and scope: "IdempotencyScope act' = IdempotencyScope act"
    and live: "idempotencyLive cfg (oi_now (ai_io io)) now'"
    and later: "m2 = fold (perform cfg) as m'" "\<not> mn_admissionClosed m2"
  shows "\<exists>op'. mget (mn_operations m2) (op_id op) = Some op' \<and> same_identity op op' \<and>
    enqueue cfg resolve' req' key retryOf' attempt' act' now' io' m2 =
      (if cf_hash cfg (normalizeMode req') = cf_hash cfg (normalizeMode req) then (Replayed op', m2)
       else (Refused ErrIdempotencyConflict, m2))"
proof -
  note a = admitted_names_key [OF adm key]
  have n: "names_key (IdempotencyScope act, key) op m2"
    unfolding later(1) by (rule names_key_run [OF reach run(1)]) (use a key run(2) in auto)
  have "\<not> mn_readOnly m2" using a runs_keep_readOnly [OF reach run(1)] later(1) by simp
  from names_key_answer [OF n key _ scope _ this later(2)] a live show ?thesis by simp
qed

theorem key_is_honored_witness:
  "\<exists>op op' m' m2. enqueue demo_config demo_resolver demo_request ''k'' [] 1 None 5 (failing_admit SaveOk)
       (empty_manager False 0) = (Admitted op, m') \<and>
     m2 = fold (perform demo_config) [DoPop demo_target, demo_admit ''b'' ''k2'' 6, DoCancel (demo_io 6) hex_id] m' \<and>
     enqueue demo_config None demo_request ''k'' [] 1 None 7 (failing_admit SaveFail) m2 = (Replayed op', m2) \<and>
     op_status op' = StatusCancelRequested \<and> op_created_at op' = op_created_at op"
proof -
  let ?e = "empty_manager False 0" and ?io = "failing_admit SaveOk"
  let ?r = "enqueue demo_config demo_resolver demo_request ''k'' [] 1 None 5 ?io ?e"
  let ?as = "[DoPop demo_target, demo_admit ''b'' ''k2'' 6, DoCancel (demo_io 6) hex_id]"
  let ?m2 = "fold (perform demo_config) ?as (snd ?r)"
  have "(case fst ?r of Admitted op \<Rightarrow> op_id op = hex_id | _ \<Rightarrow> False)" by code_simp
  then obtain op where o: "fst ?r = Admitted op" "op_id op = hex_id" by (auto split: enqueue_result.splits)
  then have r: "?r = (Admitted op, snd ?r)" by (metis prod.collapse)
  let ?bs = "[DoLookup demo_request ''k'' None 5, DoAdmit demo_request ''k'' [] 1 None
      (Build (cf_build demo_config) (normalizeMode demo_request) demo_resolver) ?io]"
  have b: "runs demo_config ?bs ?e" by code_simp
  have "snd ?r = fold (perform demo_config) ?bs ?e"
    by (simp add: enqueue_def enqueue_lookup_def lookupReplayLocked_def empty_manager_def validKey_def)
  with reachable_runs [OF demo_start_reachable b] have reach: "reachable demo_config (snd ?r)" by simp
  have w: "runs demo_config ?as (snd ?r)" "list_all (inside_window demo_config (oi_now (ai_io ?io))) ?as"
    "idempotencyLive demo_config (oi_now (ai_io ?io)) 7" "\<not> mn_admissionClosed ?m2"
    and st: "map_option op_status (mget (mn_operations ?m2) hex_id) = Some StatusCancelRequested"
    by code_simp+
  from key_is_honored [OF reach r _ w(1,2) HOL.refl w(3) HOL.refl w(4), where resolve' = None and req' = demo_request
    and retryOf' = "[]" and attempt' = 1 and io' = "failing_admit SaveFail"]
  obtain op' where op': "mget (mn_operations ?m2) (op_id op) = Some op'" "same_identity op op'"
    "enqueue demo_config None demo_request ''k'' [] 1 None 7 (failing_admit SaveFail) ?m2 = (Replayed op', ?m2)"
    by auto
  have "op_status op' = StatusCancelRequested" "op_created_at op' = op_created_at op"
    using op'(1,2) st o(2) by (auto simp: same_identity_def)
  with r op'(3) show ?thesis by blast
qed

text \<open>
  C28. Retention can forget a key that is still in use. After a key expired its principal may
  use it again for a newer operation; when retention then removes the OLDER operation, the
  entry of the newer one goes with it, and a repetition of the newer request inside its
  window is admitted a second time.
\<close>

theorem reused_key_forgotten:
  assumes ret: "mn_retiring m = Some [a]" and maps: "maps_ok m"
    and old: "mget (mn_operations m) a = Some opa" "terminal (op_status opa)"
      "op_idem_principal opa = p" "op_idem_key opa = k" "k \<noteq> []"
    and newer: "mget (mn_idempotency m) (p, k) = Some b" "mget (mn_operations m) b = Some opb"
    and live: "idempotencyLive cfg (op_created_at opb) now"
  shows "fst (lookupReplayLocked cfg (p, k) (op_request_hash opb) now m) = Replay opb \<and>
    fst (lookupReplayLocked cfg (p, k) (op_request_hash opb) now (retire_forget cfg now' m)) = NoReplay"
proof
  show "fst (lookupReplayLocked cfg (p, k) (op_request_hash opb) now m) = Replay opb"
    using newer live old(5) by (simp add: lookupReplayLocked_def Let_def)
  have "mn_idempotency (forget a m) = mdel (p, k) (mn_idempotency m)"
    using old by (simp add: forget_def)
  then have "mget (mn_idempotency (retire_forget cfg now' m)) (p, k) = None"
    using ret maps
    by (simp add: retire_forget_def Let_def mget_filter maps_ok_def split: option.split)
  then show "fst (lookupReplayLocked cfg (p, k) (op_request_hash opb) now (retire_forget cfg now' m)) = NoReplay"
    by (simp add: lookupReplayLocked_def Let_def)
qed

text \<open>
  The run: a key window of an hour and a history of two hours; ''a'' is admitted with the key
  and finishes, the key expires and ''b'' is admitted with it, the sweep then removes ''a''.
\<close>

definition short_config :: config where
  "short_config = demo_config\<lparr>cf_idempotencyWindow := hour, cf_maxHistoryAge := 2 * hour\<rparr>"

definition demo_reused :: manager where
  "demo_reused = fold (perform short_config)
     [demo_admit ''a'' ''k'' 1, DoPop demo_target, DoCheckContext demo_target,
      DoSelect demo_target True, DoCheckTarget demo_target demo_resolver None,
      DoStart demo_target (demo_io 3), DoReturn demo_target 0 None, DoFinish demo_target (demo_io 4),
      demo_admit ''b'' ''k'' (2 * hour), DoSweep (\<lambda>_. (True, True)) (2 * hour + 2)] (empty_manager False 0)"

theorem reused_key_forgotten_witness:
  "\<exists>opb. fst (lookupReplayLocked short_config (NoAuthScope, ''k'') (op_request_hash opb) (2 * hour + 3) demo_reused)
        = Replay opb \<and> op_id opb = ''b'' \<and>
     fst (lookupReplayLocked short_config (NoAuthScope, ''k'') (op_request_hash opb) (2 * hour + 3)
        (retire_forget short_config (2 * hour + 2) demo_reused)) = NoReplay"
proof -
  have ret: "mn_retiring demo_reused = Some [''a'']" by code_simp
  have idx: "mget (mn_idempotency demo_reused) (NoAuthScope, ''k'') = Some ''b''" by code_simp
  have "map_option (\<lambda>o'. (terminal (op_status o'), op_idem_principal o', op_idem_key o')) (mget (mn_operations demo_reused) ''a'')
      = Some (True, NoAuthScope, ''k'')"
    by code_simp
  then obtain opa where a: "mget (mn_operations demo_reused) ''a'' = Some opa" "terminal (op_status opa)"
    "op_idem_principal opa = NoAuthScope" "op_idem_key opa = ''k''" by auto
  have "map_option (\<lambda>o'. (op_id o', idempotencyLive short_config (op_created_at o') (2 * hour + 3)))
      (mget (mn_operations demo_reused) ''b'') = Some (''b'', True)"
    by code_simp
  then obtain opb where b: "mget (mn_operations demo_reused) ''b'' = Some opb" "op_id opb = ''b''"
    "idempotencyLive short_config (op_created_at opb) (2 * hour + 3)" by auto
  have "reachable short_config (empty_manager False 0)"
  proof (rule reachable.boot)
    show "New short_config demo_start_io ([], []) = Some ([], empty_manager False 0)"
      by (simp add: New_def demo_start_io_def sweepRetention_def empty_manager_def Let_def)
    show "disk_ok ([], [])" by (simp add: disk_ok_def)
  qed
  then have "reachable short_config demo_reused"
    unfolding demo_reused_def by (rule reachable_runs) code_simp
  then have "maps_ok demo_reused" using reachable_inv [of short_config demo_reused] by (simp add: inv_def)
  from reused_key_forgotten [OF ret this a _ idx b(1,3), of "2 * hour + 2"] b(2) show ?thesis by auto
qed

end
