(* ===== verification/OpDurability.thy ===== *)
theory OpDurability
  imports OpRecovery
begin

text \<open>
  What the manager does with its files: the accounting of lost events, a manager on records of a
  newer version, and retention.
\<close>

section \<open>Lost events\<close>

definition event_for :: "event list \<Rightarrow> string \<Rightarrow> event_type \<Rightarrow> string \<Rightarrow> time \<Rightarrow> event" where
  "event_for win oid ty txt now = \<lparr>ev_seq = next_sequence win, ev_op = oid, ev_type = ty,
     ev_data = boundedEventData txt, ev_at = now\<rparr>"

text \<open>The debt of an operation, and its window in memory.\<close>

definition debt :: "manager \<Rightarrow> string \<Rightarrow> nat" where
  "debt m oid = mgetd 0 (mn_droppedEvents m) oid"

definition window :: "manager \<Rightarrow> string \<Rightarrow> event list" where
  "window m oid = mgetd [] (mn_events m) oid"

lemma store_append_fields:
  assumes "store_append cfg io oid e m = (ok, m1)"
  shows "mn_droppedEvents m1 = mn_droppedEvents m" and "mn_events m1 = mn_events m"
    and "mn_subscribers m1 = mn_subscribers m"
  using assms by (auto simp: store_append_def split: prod.splits)

lemma wake_fields [simp]:
  "mn_droppedEvents (wake oid m) = mn_droppedEvents m" "mn_events (wake oid m) = mn_events m"
  by (simp_all add: wake_def split: option.split)

lemma mgetd_mput [simp]: "mgetd z (mput k v m) k' = (if k = k' then v else mgetd z m k')"
  by (simp add: mgetd_def)

lemma mgetd_mdel [simp]: "mgetd z (mdel k m) k' = (if k = k' then z else mgetd z m k')"
  by (simp add: mgetd_def)

lemma appendOne_spec:
  assumes "appendOneEventLocked cfg io now oid ty txt m = (ok, m')"
  shows "if ok then debt m' oid = debt m oid \<and>
       window m' oid = last_n (cf_maxEvents cfg) (window m oid @ [event_for (window m oid) oid ty txt now])
     else debt m' oid = (if ty = EventGap then debt m oid else debt m oid + 1) \<and> window m' oid = window m oid"
proof -
  let ?e = "event_for (window m oid) oid ty txt now"
  obtain okw m1 where s: "store_append cfg io oid ?e m = (okw, m1)" by fastforce
  note f = store_append_fields [OF s]
  from assms s show ?thesis
    by (cases okw)
      (auto simp: appendOneEventLocked_def Let_def event_for_def window_def debt_def f
        noteEventErrLocked_def clearEventErrLocked_def)
qed

text \<open>
  C31. Every lost event is accounted for. An output or status event is either appended, right
  behind a marker that states the exact number of events lost before it, or it adds one to
  the debt; the debt is cleared only by a marker that was appended.
\<close>

theorem losses_are_accounted:
  assumes "appendEventLocked cfg io oid ty out m = (ok, m')" and "ty \<noteq> EventGap"
  shows "let lost = debt m oid; n = cf_maxEvents cfg; now = oi_now io;
      w1 = (if 0 < lost then last_n n (window m oid @ [event_for (window m oid) oid EventGap (lost_text lost) now])
            else window m oid)
    in if ok then debt m' oid = 0 \<and> window m' oid = last_n n (w1 @ [event_for w1 oid ty out now])
       else debt m' oid = lost + 1 \<and> window m' oid = window m oid \<or>
            0 < lost \<and> debt m' oid = 1 \<and> window m' oid = w1"
proof (cases "0 < debt m oid")
  case False
  with assms have "appendOneEventLocked cfg (oi_event io) (oi_now io) oid ty out m = (ok, m')"
    by (simp add: appendEventLocked_def debt_def Let_def)
  from appendOne_spec [OF this] False assms(2) show ?thesis by (simp add: Let_def split: if_splits)
next
  case True
  let ?m0 = "m\<lparr>mn_droppedEvents := mdel oid (mn_droppedEvents m)\<rparr>"
  have m0: "debt ?m0 oid = 0" "window ?m0 oid = window m oid" by (simp_all add: debt_def window_def)
  obtain okm m1 where mk: "appendOneEventLocked cfg (oi_marker io) (oi_now io) oid EventGap (lost_text (debt m oid)) ?m0 = (okm, m1)"
    by fastforce
  note M = appendOne_spec [OF mk, unfolded m0]
  show ?thesis
  proof (cases okm)
    case False
    with assms True mk have "ok = False" "m' = m1\<lparr>mn_droppedEvents := mput oid (debt m oid + 1) (mn_droppedEvents m1)\<rparr>"
      by (auto simp: appendEventLocked_def debt_def Let_def)
    with False M show ?thesis by (simp add: debt_def window_def)
  next
    case True': True
    with assms True mk have "appendOneEventLocked cfg (oi_event io) (oi_now io) oid ty out m1 = (ok, m')"
      by (simp add: appendEventLocked_def debt_def Let_def)
    from appendOne_spec [OF this] M True True' assms(2) show ?thesis by (simp add: Let_def split: if_splits)
  qed
qed

definition disk_full :: append_io where
  "disk_full = append_ok\<lparr>io_write := WriteFail\<rparr>"

text \<open>Two lines of output are lost on a full disk; the third one is preceded by the marker.\<close>

theorem losses_are_accounted_witness:
  "\<exists>m1 m2 m3. appendEventLocked demo_config ((demo_io 8)\<lparr>oi_event := disk_full\<rparr>) ''a'' EventStdout ''one'' demo_running
       = (False, m1) \<and> debt m1 ''a'' = 1 \<and>
     appendEventLocked demo_config ((demo_io 8)\<lparr>oi_marker := disk_full\<rparr>) ''a'' EventStdout ''two'' m1 = (False, m2) \<and>
     debt m2 ''a'' = 2 \<and>
     appendEventLocked demo_config (demo_io 9) ''a'' EventStdout ''three'' m2 = (True, m3) \<and> debt m3 ''a'' = 0 \<and>
     map ev_data (window m3 ''a'') =
       [''queued'', ''running'', ''2 event(s) were lost during a storage failure'', ''three'']"
proof -
  let ?x1 = "appendEventLocked demo_config ((demo_io 8)\<lparr>oi_event := disk_full\<rparr>) ''a'' EventStdout ''one'' demo_running"
  let ?x2 = "appendEventLocked demo_config ((demo_io 8)\<lparr>oi_marker := disk_full\<rparr>) ''a'' EventStdout ''two'' (snd ?x1)"
  let ?x3 = "appendEventLocked demo_config (demo_io 9) ''a'' EventStdout ''three'' (snd ?x2)"
  have "fst ?x1 = False" "debt demo_running ''a'' = 0" by code_simp+
  then have x1: "?x1 = (False, snd ?x1)" by (metis prod.collapse)
  from losses_are_accounted [OF x1] \<open>debt demo_running ''a'' = 0\<close> have d1: "debt (snd ?x1) ''a'' = 1" by simp
  have "fst ?x2 = False" "debt (snd ?x2) ''a'' = 2" "fst ?x3 = True" by code_simp+
  then have x2: "?x2 = (False, snd ?x2)" and d2: "debt (snd ?x2) ''a'' = 2" and x3: "?x3 = (True, snd ?x3)"
    by (metis prod.collapse)+
  from losses_are_accounted [OF x3] have d3: "debt (snd ?x3) ''a'' = 0" by (simp add: Let_def)
  have "map ev_data (window (snd ?x3) ''a'') =
       [''queued'', ''running'', ''2 event(s) were lost during a storage failure'', ''three'']"
    by code_simp
  with x1 x2 x3 d1 d2 d3 show ?thesis
    by (intro exI [of _ "snd ?x1"] exI [of _ "snd ?x2"] exI [of _ "snd ?x3"] conjI) assumption+
qed

section \<open>Records of a newer version\<close>

text \<open>
  Nothing a read-only manager keeps or stores differs: its records, its operations, its journal
  files, its index, and it has no worker.
\<close>

definition frozen :: "manager \<Rightarrow> bool" where
  "frozen m \<longleftrightarrow> mn_readOnly m \<and> mn_workers m = [] \<and> mn_retiring m = None"

definition same_data :: "manager \<Rightarrow> manager \<Rightarrow> bool" where
  "same_data m m' \<longleftrightarrow> mn_operations m' = mn_operations m \<and> mn_records m' = mn_records m \<and>
     mn_events m' = mn_events m \<and> mn_idempotency m' = mn_idempotency m \<and> mn_workers m' = [] \<and>
     (\<forall>k. js_file (mgetd no_journal (mn_journals m') k) = js_file (mgetd no_journal (mn_journals m) k))"

lemma replay_frozen:
  assumes "mn_readOnly m" and "replayLocked io oid sq m = (es, m')"
  shows "\<exists>jr. m' = m\<lparr>mn_journals := jr\<rparr> \<and>
    (\<forall>k. js_file (mgetd no_journal jr k) = js_file (mgetd no_journal (mn_journals m) k))"
proof -
  have same: "snd (loadEvents True oid io j) = j" for j
    by (auto simp: loadEvents_def scanLocked_def Let_def split: option.split prod.split)
  let ?j = "mgetd no_journal (mn_journals m) oid"
  obtain res j where l: "loadEvents True oid io ?j = (res, j)" by fastforce
  with same [of ?j] have j: "j = ?j" by simp
  have "m' = m \<or> m' = m\<lparr>mn_journals := mput oid ?j (mn_journals m)\<rparr>"
    using assms l j by (auto simp: replayLocked_def Let_def split: if_splits option.splits list.splits)
  then show ?thesis
  proof
    assume "m' = m"
    then show ?thesis by (intro exI [of _ "mn_journals m"]) simp
  next
    assume "m' = m\<lparr>mn_journals := mput oid ?j (mn_journals m)\<rparr>"
    then show ?thesis by (intro exI [of _ "mput oid ?j (mn_journals m)"]) simp
  qed
qed

lemma frozen_perform:
  assumes f: "frozen m" and a: "admissible a m"
  shows "frozen (perform cfg a m) \<and> same_data m (perform cfg a m)"
proof -
  have ro: "mn_readOnly m" and w: "mn_workers m = []" and nr: "mn_retiring m = None"
    using f by (simp_all add: frozen_def)
  have id: "frozen m \<and> same_data m m" using f by (simp add: same_data_def frozen_def)
  have sub: "frozen (m\<lparr>mn_journals := jr, mn_subscribers := sb\<rparr>) \<and> same_data m (m\<lparr>mn_journals := jr, mn_subscribers := sb\<rparr>)"
    if "\<forall>k. js_file (mgetd no_journal jr k) = js_file (mgetd no_journal (mn_journals m) k)" for jr sb
    using f that by (simp add: same_data_def frozen_def)
  show ?thesis
  proof (cases a)
    case (DoReplay io i sq)
    obtain es m1 where r: "replayLocked io i sq m = (es, m1)" by fastforce
    from replay_frozen [OF ro r] sub [of _ "mn_subscribers m"] id DoReplay r show ?thesis
      by (auto simp: EventsAfter_def split: option.split)
  next
    case (DoSubscribe io i sq c)
    obtain es m1 where r: "replayLocked io i sq m = (es, m1)" by fastforce
    from replay_frozen [OF ro r] obtain jr where m1: "m1 = m\<lparr>mn_journals := jr\<rparr>"
      and jr: "\<forall>k. js_file (mgetd no_journal jr k) = js_file (mgetd no_journal (mn_journals m) k)" by blast
    have "snd (Subscribe io i sq c m) = m \<or> (\<exists>sb. snd (Subscribe io i sq c m) = m\<lparr>mn_journals := jr, mn_subscribers := sb\<rparr>)"
      unfolding Subscribe_def r m1 by (auto split: option.split intro: exI [of _ "mn_subscribers m"])
    with sub [OF jr] id DoSubscribe show ?thesis by auto
  next
    case (DoUnsubscribe i c)
    with sub [of "mn_journals m"] id show ?thesis by (simp add: Unsubscribe_def split: option.split)
  next
    case (DoLookup req key act now)
    with id ro show ?thesis by (simp add: enqueue_lookup_def)
  next
    case (DoReconcile io d answer i)
    with a ro show ?thesis by simp
  next
    case DoForce
    with f show ?thesis by (simp add: shutdown_force_def frozen_def same_data_def)
  next
    case DoSeal
    with f show ?thesis by (simp add: shutdown_seal_def frozen_def same_data_def)
  qed (use id ro w nr in \<open>simp_all add: worker_step_def Cancel_def retire_sweep_def retire_forget_def\<close>)
qed

lemma recover_all_readOnly:
  "recover_all cfg io ids (p, m) = Some (p', m') \<Longrightarrow> mn_readOnly m' = mn_readOnly m"
proof (induction ids arbitrary: p m)
  case (Cons i ids)
  then obtain p1 m1 where o1: "recover_one cfg io i (p, m) = Some (p1, m1)"
    and r: "recover_all cfg io ids (p1, m1) = Some (p', m')"
    by (auto split: option.splits)
  have "mn_readOnly m1 = mn_readOnly m"
    using o1 recover_mark_spec(3) [of cfg "io i" _ m m1]
    by (auto simp: recover_one_def Let_def rest_only_def split: option.splits if_splits)
  with Cons.IH [OF r] show ?case by simp
qed simp

lemma restore_retiring:
  "mn_retiring (fold (restore_one cfg io now) ops m) = mn_retiring m"
  by (induction ops arbitrary: m) (auto simp: restore_one_def Let_def split: prod.split)

lemma New_retiring:
  assumes "New cfg io d = Some (p, m)" and "mn_readOnly m"
  shows "mn_retiring m = None"
proof -
  from assms(1) obtain recs future where l: "loadOperations (fst d) = Some (recs, future)"
    by (auto simp: New_def split: option.splits)
  let ?m0 = "(empty_manager (future \<noteq> []) (so_now io))\<lparr>mn_records := recs, mn_journals := snd d\<rparr>"
  define m1 where "m1 = (if future = [] then snd (sweepRetention (so_delete io) (so_now io)
      (cf_maxHistoryAge cfg) (cf_maxOperations cfg) ?m0) else ?m0)"
  define m2 where "m2 = fold (restore_one cfg (so_scan io) (so_now io)) (map (st_operation \<circ> snd) (mn_records m1)) m1"
  have n: "(if mn_readOnly m2 then Some ([], m2)
      else recover_all cfg (so_recover io) (map fst (mn_operations m2)) ([], m2)) = Some (p, m)"
    using assms(1) unfolding New_def l by (simp only: option.case prod.case Let_def m1_def m2_def)
  with recover_all_readOnly [of cfg "so_recover io" _ "[]" m2 p m] assms(2) have "m = m2" "mn_readOnly m2"
    by (auto split: if_splits)
  moreover have "mn_retiring m2 = mn_retiring m1" by (simp add: m2_def restore_retiring)
  moreover have "mn_retiring m1 = None"
  proof (cases "future = []")
    case True
    obtain removed mx where s: "sweepRetention (so_delete io) (so_now io) (cf_maxHistoryAge cfg) (cf_maxOperations cfg) ?m0 = (removed, mx)"
      by fastforce
    from swept_sweepRetention [OF s] have "mx = ?m0\<lparr>mn_records := mn_records mx, mn_journals := mn_journals mx\<rparr>"
      unfolding swept_def by blast
    then obtain rc jr where "mx = ?m0\<lparr>mn_records := rc, mn_journals := jr\<rparr>" by blast
    with True s show ?thesis by (simp add: m1_def empty_manager_def)
  qed (simp add: m1_def empty_manager_def)
  ultimately show ?thesis by simp
qed

lemma read_only_frozen:
  assumes "reachable cfg m" and "mn_readOnly m"
  shows "frozen m"
  using assms
proof (induction rule: reachable.induct)
  case (boot io d p m)
  note ret = New_retiring [OF boot(1,3)]
  show ?case
    by (rule New_spec [OF boot(1,2)]) (use boot(3) ret in \<open>simp add: frozen_def at_rest_def\<close>)
next
  case (act m a)
  note inv = reachable_inv [OF act.hyps(1)]
  have "mn_readOnly m" using act.prems perform_effect [OF inv act.hyps(2), of cfg]
    by (auto simp: quiet_def ends_def admits_def admits_op_def)
  with act.IH frozen_perform [OF _ act.hyps(2)] show ?case by blast
qed

text \<open>
  Records of a newer version are never touched. A manager that found one stays readable, but
  no request, cancellation, retention sweep, reconciliation or shutdown changes an operation,
  a record, an event history or a journal file, and it never runs a worker.
\<close>

theorem newer_records_are_untouched:
  assumes "reachable cfg m" and "mn_readOnly m" and "admissible a m"
  shows "same_data m (perform cfg a m) \<and> mn_readOnly (perform cfg a m)"
  using frozen_perform [OF read_only_frozen [OF assms(1,2)] assms(3), of cfg] by (simp add: frozen_def)

definition newer_disk :: disk where
  "newer_disk = (map (\<lambda>(n, s). (n, Some (s\<lparr>st_version := 3\<rparr>))) (mn_records demo_crashed), [])"

theorem newer_records_are_untouched_witness:
  "\<exists>m. New demo_config demo_start_io newer_disk = Some ([], m) \<and> mn_readOnly m \<and>
     map_option op_status (mget (mn_operations m) hex_id) = Some StatusRunning \<and>
     mn_records (perform demo_config (DoCancel (demo_io 5) hex_id) m) = mn_records m"
proof -
  have "map_option (\<lambda>(p, m). (p, mn_readOnly m, map_option op_status (mget (mn_operations m) hex_id)))
      (New demo_config demo_start_io newer_disk) = Some ([], True, Some StatusRunning)"
    by code_simp
  then obtain m where m: "New demo_config demo_start_io newer_disk = Some ([], m)" "mn_readOnly m"
    "map_option op_status (mget (mn_operations m) hex_id) = Some StatusRunning" by auto
  have "gomap_ok (fst newer_disk)" unfolding gomap_ok_def by code_simp
  moreover have "list_all (\<lambda>(n, s). case s of None \<Rightarrow> True | Some r \<Rightarrow> currentRecordVersion < st_version r) (fst newer_disk)"
    by code_simp
  ultimately have "disk_ok newer_disk" unfolding disk_ok_def list_all_iff by (fastforce split: option.splits)
  from newer_records_are_untouched [OF reachable.boot [OF m(1) this] m(2), of "DoCancel (demo_io 5) hex_id"] m
  show ?thesis by (auto simp: same_data_def)
qed

section \<open>Retention\<close>

definition expired :: "time \<Rightarrow> duration \<Rightarrow> operation \<Rightarrow> bool" where
  "expired now maxAge r \<longleftrightarrow> terminal (op_status r) \<and> 0 < maxAge \<and> maxAge < time_sub now (op_created_at r)"

definition without :: "string list \<Rightarrow> (string, 'v) gomap \<Rightarrow> (string, 'v) gomap" where
  "without gone m = filter (\<lambda>b. fst b \<notin> set gone) m"

lemma without_mdel: "without gone (mdel k m) = without (k # gone) m"
  by (auto simp: without_def AList.delete_eq intro: filter_cong)

lemma without_append: "without ys (without xs m) = without (xs @ ys) m"
  by (auto simp: without_def intro: filter_cong)

definition deletes_ok :: delete_io where
  "deletes_ok = (\<lambda>_. (True, True))"

lemma delete_ok:
  shows "fst (deleteOperation deletes_ok i m)" and "mn_records (snd (deleteOperation deletes_ok i m)) = mdel i (mn_records m)"
  by (simp_all add: deleteOperation_def deletes_ok_def)

lemma sweep_age_ok:
  shows "fst (sweep_age deletes_ok now maxAge rs m) = map op_id (filter (expired now maxAge) rs) \<and>
    mn_records (snd (sweep_age deletes_ok now maxAge rs m)) = without (map op_id (filter (expired now maxAge) rs)) (mn_records m)"
proof (induction rs arbitrary: m)
  case (Cons r rs)
  obtain ok m1 where d: "deleteOperation deletes_ok (op_id r) m = (ok, m1)" by fastforce
  with delete_ok [of "op_id r" m] have "ok" "mn_records m1 = mdel (op_id r) (mn_records m)" by simp_all
  with d Cons.IH show ?case
    by (cases "sweep_age deletes_ok now maxAge rs m1") (auto simp: expired_def without_mdel dest!: meta_spec [of _ m1])
qed (simp add: without_def)

lemma sweep_count_ok:
  shows "fst (sweep_count deletes_ok maxCount gone remaining rs m) =
      map op_id (take (nat (remaining - maxCount)) (filter (\<lambda>r. op_id r \<notin> set gone) rs)) \<and>
    mn_records (snd (sweep_count deletes_ok maxCount gone remaining rs m)) =
      without (fst (sweep_count deletes_ok maxCount gone remaining rs m)) (mn_records m)"
proof (induction rs arbitrary: m remaining)
  case Nil
  show ?case by (simp add: without_def)
next
  case (Cons r rs)
  obtain ok m1 where d: "deleteOperation deletes_ok (op_id r) m = (ok, m1)" by fastforce
  with delete_ok [of "op_id r" m] have ok: "ok" "mn_records m1 = mdel (op_id r) (mn_records m)" by simp_all
  consider "remaining \<le> maxCount" | "maxCount < remaining" "op_id r \<in> set gone"
    | "maxCount < remaining" "op_id r \<notin> set gone" by linarith
  then show ?case
  proof cases
    case 1
    then show ?thesis by (simp add: without_def)
  next
    case 2
    with Cons.IH show ?thesis by simp
  next
    case 3
    then have "nat (remaining - maxCount) = Suc (nat (remaining - 1 - maxCount))" by simp
    with 3 d ok Cons.IH [of "remaining - 1" m1] show ?thesis
      by (cases "sweep_count deletes_ok maxCount gone (remaining - 1) rs m1") (auto simp: without_mdel)
  qed
qed

lemma without_keyed:
  assumes "\<forall>(k, s)\<in>set m. op_id (st_operation s) = k"
  shows "map (st_operation \<circ> snd) (without gone m) = filter (\<lambda>r. op_id r \<notin> set gone) (map (st_operation \<circ> snd) m)"
  using assms by (induction m) (auto simp: without_def)

lemma length_without:
  assumes "distinct (map f xs)" and "S \<subseteq> f ` set xs"
  shows "length (filter (\<lambda>x. f x \<notin> S) xs) + card S = length xs"
proof -
  have "S = set (map f (filter (\<lambda>x. f x \<in> S) xs))" using assms(2) by auto
  moreover have "distinct (map f (filter (\<lambda>x. f x \<in> S) xs))" using assms(1) by (simp add: distinct_map_filter)
  ultimately have "card S = length (filter (\<lambda>x. f x \<in> S) xs)" by (metis distinct_card length_map)
  then show ?thesis using sum_length_filter_compl [of "\<lambda>x. f x \<in> S" xs] by simp
qed

text \<open>What a sweep whose deletions all succeed removes, as lists.\<close>

lemma sweep_ok:
  fixes m :: manager and now :: time and maxAge :: duration
  defines "rs \<equiv> map (st_operation \<circ> snd) (mn_records m)"
  defines "aged \<equiv> map op_id (filter (expired now maxAge) rs)"
  defines "left \<equiv> filter (\<lambda>r. op_id r \<notin> set aged)
      (sort_key (\<lambda>r. (op_created_at r, op_id r)) (filter (\<lambda>r. terminal (op_status r)) rs))"
  assumes "sweepRetention deletes_ok now maxAge maxCount m = (removed, m')"
  shows "removed = aged @ (if 0 < maxCount then map op_id (take (nat (int (length rs) - int (length aged) - maxCount)) left) else [])"
    and "mn_records m' = without removed (mn_records m)"
proof -
  obtain xs m1 where a: "sweep_age deletes_ok now maxAge rs m = (xs, m1)" by fastforce
  then have xs: "xs = aged" "mn_records m1 = without aged (mn_records m)"
    using sweep_age_ok [of now maxAge rs m] by (simp_all add: aged_def)
  let ?ts = "sort_key (\<lambda>r. (op_created_at r, op_id r)) (filter (\<lambda>r. terminal (op_status r)) rs)"
  obtain ys m2 where c: "sweep_count deletes_ok maxCount aged (int (length rs) - int (length aged)) ?ts m1 = (ys, m2)"
    by fastforce
  then have ys: "ys = map op_id (take (nat (int (length rs) - int (length aged) - maxCount)) left)"
    "mn_records m2 = without ys (mn_records m1)"
    using sweep_count_ok [of maxCount aged "int (length rs) - int (length aged)" ?ts m1] by (simp_all add: left_def)
  have "removed = aged @ (if 0 < maxCount then ys else [])" "m' = (if 0 < maxCount then m2 else m1)"
    using assms(4) a c xs unfolding sweepRetention_def Let_def rs_def [symmetric]
    by (auto split: if_splits)
  then show "removed = aged @ (if 0 < maxCount then map op_id (take (nat (int (length rs) - int (length aged) - maxCount)) left) else [])"
    "mn_records m' = without removed (mn_records m)"
    using xs ys by (auto simp: without_append)
qed

text \<open>
  C30. Retention keeps its promises. A sweep whose deletions succeed never removes an operation
  that is not over, leaves no operation that is over and older than the age limit, brings the
  number of records down to the count limit as far as operations that are over allow, and
  among those that the count removes none is newer than one it keeps.
\<close>

theorem retention_spec:
  fixes m :: manager
  defines "rs \<equiv> map (st_operation \<circ> snd) (mn_records m)"
  assumes ok: "gomap_ok (mn_records m)" "\<forall>(k, s)\<in>set (mn_records m). op_id (st_operation s) = k"
    and sw: "sweepRetention deletes_ok now maxAge maxCount m = (removed, m')"
  defines "rs' \<equiv> map (st_operation \<circ> snd) (mn_records m')"
  shows "rs' = filter (\<lambda>r. op_id r \<notin> set removed) rs \<and>
    (\<forall>r\<in>set rs. \<not> terminal (op_status r) \<longrightarrow> r \<in> set rs') \<and>
    (0 < maxAge \<longrightarrow> (\<forall>r\<in>set rs'. terminal (op_status r) \<longrightarrow> time_sub now (op_created_at r) \<le> maxAge)) \<and>
    (0 < maxCount \<longrightarrow> int (length rs') \<le> max maxCount (int (length (filter (\<lambda>r. \<not> terminal (op_status r)) rs)))) \<and>
    (\<forall>r\<in>set rs. \<forall>r'\<in>set rs'. op_id r \<in> set removed \<longrightarrow> terminal (op_status r') \<longrightarrow>
       expired now maxAge r \<or> op_created_at r \<le> op_created_at r')"
proof -
  define aged where "aged = map op_id (filter (expired now maxAge) rs)"
  define srt where "srt = sort_key (\<lambda>r. (op_created_at r, op_id r)) (filter (\<lambda>r. terminal (op_status r)) rs)"
  define rest where "rest = filter (\<lambda>r. op_id r \<notin> set aged) srt"
  define n where "n = nat (int (length rs) - int (length aged) - maxCount)"
  have rem: "removed = aged @ (if 0 < maxCount then map op_id (take n rest) else [])"
    and recs: "mn_records m' = without removed (mn_records m)"
    using sweep_ok [OF sw] by (simp_all add: rs_def aged_def rest_def n_def srt_def)
  have dist: "distinct (map op_id rs)"
  proof -
    have "map op_id rs = map fst (mn_records m)" using ok(2) by (auto simp: rs_def)
    then show ?thesis using ok(1) by (simp add: gomap_ok_def)
  qed
  have inj: "r = r'" if "r \<in> set rs" "r' \<in> set rs" "op_id r = op_id r'" for r r'
    using dist that by (auto simp: distinct_map inj_on_def)
  have rs': "rs' = filter (\<lambda>r. op_id r \<notin> set removed) rs"
    unfolding rs'_def recs rs_def by (rule without_keyed [OF ok(2)])
  have srt: "set rest \<subseteq> set rs" "\<forall>r\<in>set rest. terminal (op_status r)" "sorted (map (\<lambda>r. (op_created_at r, op_id r)) rest)"
    by (auto simp: rest_def srt_def sorted_filter)
  have aged: "\<forall>r\<in>set rs. op_id r \<in> set aged \<longleftrightarrow> expired now maxAge r"
    using inj by (auto simp: aged_def)
  have taken: "\<exists>r0\<in>set (take n rest). op_id r0 = op_id r" if "op_id r \<in> set removed" "op_id r \<notin> set aged" for r
    using that rem by (auto split: if_splits)
  have removed: "expired now maxAge r \<or> r \<in> set (take n rest)" if "r \<in> set rs" "op_id r \<in> set removed" for r
  proof (cases "op_id r \<in> set aged")
    case False
    from taken [OF that(2) this] obtain r0 where "r0 \<in> set (take n rest)" "op_id r0 = op_id r" by blast
    with inj [of r0 r] that(1) srt(1) set_take_subset [of n rest] show ?thesis by blast
  qed (use aged that in blast)
  show ?thesis
  proof (intro conjI ballI impI)
    show "rs' = filter (\<lambda>r. op_id r \<notin> set removed) rs" by (rule rs')
    show "r \<in> set rs'" if "r \<in> set rs" "\<not> terminal (op_status r)" for r
      using that removed [of r] srt(2) set_take_subset [of n rest] by (auto simp: rs' expired_def)
    show "time_sub now (op_created_at r) \<le> maxAge" if "0 < maxAge" "r \<in> set rs'" "terminal (op_status r)" for r
    proof -
      have "r \<in> set rs" "op_id r \<notin> set aged" using that(2) by (simp_all add: rs' rem)
      then have "\<not> expired now maxAge r" using aged by blast
      with that show ?thesis by (simp add: expired_def)
    qed
    show "expired now maxAge r \<or> op_created_at r \<le> op_created_at r'"
      if "r \<in> set rs" "r' \<in> set rs'" "op_id r \<in> set removed" "terminal (op_status r')" for r r'
    proof (cases "expired now maxAge r")
      case False
      with removed that have r: "r \<in> set (take n rest)" by blast
      have "op_id r \<notin> set aged" using False aged that(1) by blast
      with that(3) have mc: "0 < maxCount" unfolding rem by (cases "0 < maxCount") simp_all
      have r': "r' \<in> set rs" "op_id r' \<notin> set aged" "op_id r' \<notin> op_id ` set (take n rest)"
        using that(2) mc by (simp_all add: rs' rem)
      have "r' \<in> set srt" using r'(1) that(4) by (simp add: srt_def)
      with r'(2) have "r' \<in> set rest" by (simp add: rest_def)
      moreover have "r' \<notin> set (take n rest)" using r'(3) by blast
      moreover have "set rest = set (take n rest) \<union> set (drop n rest)" by (metis append_take_drop_id set_append)
      ultimately have "r' \<in> set (drop n rest)" by blast
      have "(op_created_at r, op_id r) \<le> (op_created_at r', op_id r')"
      proof -
        have "sorted (map (\<lambda>r. (op_created_at r, op_id r)) (take n rest) @ map (\<lambda>r. (op_created_at r, op_id r)) (drop n rest))"
          using srt(3) by (metis append_take_drop_id map_append)
        with r \<open>r' \<in> set (drop n rest)\<close> show ?thesis unfolding sorted_append by simp
      qed
      then show ?thesis by (auto simp: less_eq_prod_def)
    qed simp
    show "int (length rs') \<le> max maxCount (int (length (filter (\<lambda>r. \<not> terminal (op_status r)) rs)))" if "0 < maxCount"
    proof -
      have term_aged: "terminal (op_status r)" if "r \<in> set rs" "op_id r \<in> set aged" for r
        using aged that by (auto simp: expired_def)
      have d1: "distinct (map op_id srt)"
        using dist by (simp add: srt_def distinct_map inj_on_def)
      then have d2: "distinct (map op_id rest)" by (simp add: rest_def distinct_map_filter)
      have d3: "distinct aged" using dist by (simp add: aged_def distinct_map_filter)
      have "set aged \<subseteq> op_id ` set srt" using term_aged by (auto simp: aged_def srt_def expired_def)
      from length_without [OF d1 this] have lr: "length rest + length aged = length srt"
        by (simp add: rest_def distinct_card [OF d3])
      have ls: "length srt + length (filter (\<lambda>r. \<not> terminal (op_status r)) rs) = length rs"
        by (simp add: srt_def sum_length_filter_compl)
      have "set removed \<subseteq> op_id ` set rs"
        using srt(1) set_take_subset [of n rest] rem by (auto simp: aged_def)
      from length_without [OF dist this] have lk: "length rs' + card (set removed) = length rs" by (simp add: rs')
      have "distinct removed"
        using d2 d3 that set_take_subset [of n rest] by (auto simp: rem rest_def distinct_map intro: inj_on_subset)
      then have "card (set removed) = length removed" by (rule distinct_card)
      then have "card (set removed) = length aged + min n (length rest)"
        using that by (simp only: rem if_True length_append length_map length_take min.commute)
      with lr ls lk show ?thesis unfolding n_def by linarith
    qed
  qed
qed

text \<open>Three records that are over and one that is not; the limits are 100 seconds and two records.\<close>

definition kept_operation :: "string \<Rightarrow> status \<Rightarrow> time \<Rightarrow> operation" where
  "kept_operation i st at = \<lparr>op_id = i, op_request = demo_request, op_mode = [], op_target = demo_target,
     op_status = st, op_idem_key = [], op_idem_principal = [], op_retry_of = [], op_attempt = 1,
     op_exit_code = None, op_error = NoMessage, op_created_at = at, op_started_at = None,
     op_finished_at = None, op_has_secrets = False, op_admitted_server = None, op_admission_seq = 0,
     op_actor = None, op_reconciliation = None, op_request_hash = []\<rparr>"

definition full_manager :: manager where
  "full_manager = (empty_manager False 0)\<lparr>mn_records := map (\<lambda>op. (op_id op, \<lparr>st_operation = op, st_version = 2\<rparr>))
     [kept_operation ''d'' StatusSucceeded 300, kept_operation ''a'' StatusFailed 10,
      kept_operation ''c'' StatusCanceled 290, kept_operation ''b'' StatusRunning 5]\<rparr>"

theorem retention_spec_witness:
  "\<exists>removed m'. sweepRetention deletes_ok 310 100 2 full_manager = (removed, m') \<and> removed = [''a'', ''c''] \<and>
     int (length (mn_records m')) \<le> 2"
proof -
  obtain removed m' where s: "sweepRetention deletes_ok 310 100 2 full_manager = (removed, m')" by fastforce
  have ok: "gomap_ok (mn_records full_manager)" unfolding gomap_ok_def by code_simp
  have "list_all (\<lambda>(k, s). op_id (st_operation s) = k) (mn_records full_manager)" by code_simp
  then have key: "\<forall>(k, s)\<in>set (mn_records full_manager). op_id (st_operation s) = k" by (simp add: list_all_iff)
  have n: "length (filter (\<lambda>r. \<not> terminal (op_status r)) (map (st_operation \<circ> snd) (mn_records full_manager))) = 1"
    by code_simp
  have "fst (sweepRetention deletes_ok 310 100 2 full_manager) = [''a'', ''c'']" by code_simp
  with s retention_spec [OF ok key s] n show ?thesis by auto
qed

end
