(* ===== verification/Alerts.thy ===== *)
theory Alerts
  imports Prelude
begin

text \<open>
  \<open>internal/alert/alert.go\<close> and \<open>config.go\<close>: the alert event and its wire projection, the channels,
  the migration of the legacy configuration and the routing of an event. Delivering a message
  over the network and \<open>net/url\<close> parsing are not modelled. Go's typed strings are datatypes with
  a constructor for every constant, one for the empty string and one for any other text.
\<close>

section \<open>Events\<close>

datatype event_kind =
  NoKind | KindOpened | KindRepeat | KindRecovered | KindTest | KindSummary | OtherEventKind string

datatype alert_source =
  NoSource | SourceMonitor | SourceRestoreTest | SourceBackup | SourceDomain | SourceDisk
| SourceOperation | SourceAudit | SourceHeartbeat | OtherSource string

datatype severity = NoSeverity | SeverityCritical | SeverityWarning | SeverityInfo | OtherSeverity string

datatype recovery_reason = ReasonHealthy | ReasonRetired | ReasonSuppressedEnd | OtherReason string

datatype audience = AudienceAll | AudienceHuman | AudienceMachine | OtherAudience string

record alert_event =
  ae_monitorID :: string
  ae_monitorName :: string
  ae_status :: string
  ae_message :: string
  ae_occurredAt :: time
  ae_source :: alert_source
  ae_deliveryID :: string
  ae_version :: int
  ae_kind :: event_kind
  ae_reason :: recovery_reason
  ae_incidentID :: string
  ae_ruleID :: string
  ae_service :: string
  ae_app :: string
  ae_server :: string
  ae_target :: string
  ae_severity :: severity
  ae_startedAt :: time
  ae_durationS :: int
  ae_failures :: int
  ae_url :: string
  ae_onlyChannels :: "string list"
  ae_excludeChannels :: "string list"
  ae_audience :: audience

definition wireKind :: "alert_event \<Rightarrow> event_kind" where
  "wireKind e =
     (if ae_kind e \<noteq> NoKind then ae_kind e
      else if ae_status e = ''up'' then KindRecovered else KindOpened)"

text \<open>The Event v2 body; a time field is \<open>None\<close> where the code writes the empty string.\<close>

record wire_event =
  we_monitorID :: string
  we_monitorName :: string
  we_status :: string
  we_message :: string
  we_occurredAt :: "time option"
  we_source :: alert_source
  we_deliveryID :: string
  we_version :: int
  we_kind :: event_kind
  we_reason :: recovery_reason
  we_incidentID :: string
  we_ruleID :: string
  we_service :: string
  we_app :: string
  we_server :: string
  we_target :: string
  we_severity :: severity
  we_startedAt :: "time option"
  we_durationS :: int
  we_failures :: int
  we_url :: string

definition rfc3339 :: "time \<Rightarrow> time option" where
  "rfc3339 t = (if is_zero_time t then None else Some t)"

definition or_else :: "string \<Rightarrow> string \<Rightarrow> string" where
  "or_else a b = (if a = [] then b else a)"

definition Wire :: "alert_event \<Rightarrow> wire_event" where
  "Wire e =
     \<lparr>we_monitorID = ae_monitorID e, we_monitorName = ae_monitorName e,
      we_status = (if ae_status e \<noteq> ''up'' then ''down'' else ''up''),
      we_message = ae_message e, we_occurredAt = rfc3339 (ae_occurredAt e),
      we_source = (if ae_source e = NoSource then SourceMonitor else ae_source e),
      we_deliveryID = ae_deliveryID e, we_version = 2, we_kind = wireKind e,
      we_reason = ae_reason e, we_incidentID = ae_incidentID e,
      we_ruleID = or_else (ae_ruleID e) (ae_monitorID e),
      we_service = or_else (or_else (ae_service e) (ae_app e)) (ae_monitorName e),
      we_app = ae_app e, we_server = ae_server e, we_target = ae_target e,
      we_severity = (if ae_severity e = NoSeverity
         then (if wireKind e = KindTest then SeverityInfo else SeverityCritical) else ae_severity e),
      we_startedAt = rfc3339 (if is_zero_time (ae_startedAt e) then ae_occurredAt e else ae_startedAt e),
      we_durationS = ae_durationS e, we_failures = ae_failures e, we_url = ae_url e\<rparr>"

section \<open>Channels\<close>

datatype channel_type =
  TypeWebhook | TypeSlack | TypeDiscord | TypeNtfy | TypeEmail | TypeShip | OtherChannelType string

record channel =
  ch_id :: string
  ch_type :: channel_type
  ch_name :: string
  ch_url :: string
  ch_secret :: string
  ch_token :: string
  ch_kinds :: "event_kind list"
  ch_smtpHost :: string
  ch_smtpPort :: int
  ch_smtpUser :: string
  ch_smtpPass :: string
  ch_emailTo :: string
  ch_emailFrom :: string
  ch_smtpAllowInsecure :: bool
  ch_allowInternal :: bool

definition zero_channel :: channel where
  "zero_channel = \<lparr>ch_id = [], ch_type = OtherChannelType [], ch_name = [], ch_url = [], ch_secret = [],
     ch_token = [], ch_kinds = [], ch_smtpHost = [], ch_smtpPort = 0, ch_smtpUser = [], ch_smtpPass = [],
     ch_emailTo = [], ch_emailFrom = [], ch_smtpAllowInsecure = False, ch_allowInternal = False\<rparr>"

definition ChannelWebhook :: string where "ChannelWebhook = ''webhook''"
definition ChannelEmail :: string where "ChannelEmail = ''email''"

definition Human :: "channel \<Rightarrow> bool" where
  "Human c \<longleftrightarrow> ch_type c \<in> {TypeSlack, TypeDiscord, TypeNtfy, TypeEmail}"

definition Usable :: "channel \<Rightarrow> bool" where
  "Usable c =
     (case ch_type c of
        TypeEmail \<Rightarrow> ch_smtpHost c \<noteq> [] \<and> ch_emailTo c \<noteq> []
      | TypeShip \<Rightarrow> ch_url c \<noteq> [] \<and> ch_secret c \<noteq> []
      | OtherChannelType _ \<Rightarrow> False
      | _ \<Rightarrow> ch_url c \<noteq> [])"

record heartbeat_target =
  ht_id :: string
  ht_name :: string
  ht_url :: string
  ht_allowInternal :: bool

record alert_config =
  al_channels :: "channel list"
  al_publicURL :: string
  al_heartbeats :: "heartbeat_target list"
  al_heartbeatMinutes :: int
  al_webhookURL :: string
  al_webhookSecret :: string
  al_smtpHost :: string
  al_smtpPort :: int
  al_smtpUser :: string
  al_smtpPass :: string
  al_emailTo :: string
  al_emailFrom :: string
  al_smtpAllowInsecure :: bool

definition HasLegacy :: "alert_config \<Rightarrow> bool" where
  "HasLegacy c \<longleftrightarrow> al_webhookURL c \<noteq> [] \<or> al_webhookSecret c \<noteq> [] \<or> al_smtpHost c \<noteq> [] \<or>
     al_smtpPort c \<noteq> 0 \<or> al_smtpUser c \<noteq> [] \<or> al_smtpPass c \<noteq> [] \<or> al_emailTo c \<noteq> [] \<or>
     al_emailFrom c \<noteq> [] \<or> al_smtpAllowInsecure c"

definition Migrate :: "alert_config \<Rightarrow> alert_config" where
  "Migrate c =
     (let has = (\<lambda>i. \<exists>ch\<in>set (al_channels c). ch_id ch = i);
          webhook = (if al_webhookURL c \<noteq> [] \<and> \<not> has ChannelWebhook
            then [zero_channel\<lparr>ch_id := ChannelWebhook, ch_type := TypeWebhook, ch_name := ''Webhook'',
                    ch_url := al_webhookURL c, ch_secret := al_webhookSecret c\<rparr>] else []);
          email = (if (al_smtpHost c \<noteq> [] \<or> al_emailTo c \<noteq> []) \<and> \<not> has ChannelEmail
            then [zero_channel\<lparr>ch_id := ChannelEmail, ch_type := TypeEmail, ch_name := ''Email'',
                    ch_smtpHost := al_smtpHost c, ch_smtpPort := al_smtpPort c, ch_smtpUser := al_smtpUser c,
                    ch_smtpPass := al_smtpPass c, ch_emailTo := al_emailTo c, ch_emailFrom := al_emailFrom c,
                    ch_smtpAllowInsecure := al_smtpAllowInsecure c\<rparr>] else [])
      in c\<lparr>al_channels := webhook @ email @ al_channels c,
           al_webhookURL := [], al_webhookSecret := [], al_smtpHost := [], al_smtpPort := 0,
           al_smtpUser := [], al_smtpPass := [], al_emailTo := [], al_emailFrom := [],
           al_smtpAllowInsecure := False\<rparr>)"

definition Channel :: "alert_config \<Rightarrow> string \<Rightarrow> channel option" where
  "Channel c i = find (\<lambda>ch. ch_id ch = i) (al_channels (Migrate c))"

definition ConfiguredChannels :: "alert_config \<Rightarrow> string list" where
  "ConfiguredChannels c = map ch_id (filter Usable (al_channels (Migrate c)))"

section \<open>Routing\<close>

definition audience_ok :: "audience \<Rightarrow> channel \<Rightarrow> bool" where
  "audience_ok a ch =
     (case a of AudienceHuman \<Rightarrow> Human ch | AudienceMachine \<Rightarrow> \<not> Human ch | _ \<Rightarrow> True)"

definition kind_ok :: "event_kind \<Rightarrow> channel \<Rightarrow> bool" where
  "kind_ok k ch \<longleftrightarrow> k = KindTest \<or> ch_kinds ch = [] \<or>
     (if k = KindSummary then KindOpened else k) \<in> set (ch_kinds ch)"

definition routed :: "alert_event \<Rightarrow> channel \<Rightarrow> bool" where
  "routed ev ch \<longleftrightarrow> Usable ch \<and>
     (ae_onlyChannels ev = [] \<or> ch_id ch \<in> set (ae_onlyChannels ev)) \<and>
     ch_id ch \<notin> set (ae_excludeChannels ev) \<and>
     audience_ok (ae_audience ev) ch \<and> kind_ok (wireKind ev) ch"

definition ChannelsFor :: "alert_config \<Rightarrow> alert_event \<Rightarrow> string list" where
  "ChannelsFor c ev = map ch_id (filter (routed ev) (al_channels (Migrate c)))"

text \<open>
  \<open>SendChannel\<close> up to the send itself: the channel it delivers through, or why it does not.
\<close>

datatype channel_error = UnknownChannel string | ChannelNotConfigured channel_type | UnknownType string string

definition SendChannel :: "alert_config \<Rightarrow> string \<Rightarrow> channel_error + channel" where
  "SendChannel c i =
     (case Channel c i of
        None \<Rightarrow> Inl (UnknownChannel i)
      | Some ch \<Rightarrow>
          if \<not> Usable ch then Inl (ChannelNotConfigured (ch_type ch))
          else (case ch_type ch of OtherChannelType t \<Rightarrow> Inl (UnknownType i t) | _ \<Rightarrow> Inr ch))"

text \<open>\<open>ValidateChannel\<close>; \<open>url_ok\<close> is \<open>ValidateURL\<close>, which rests on \<open>net/url\<close>.\<close>

definition ValidChannelID :: "string \<Rightarrow> bool" where
  "ValidChannelID i \<longleftrightarrow>
     (case i of [] \<Rightarrow> False
      | c # cs \<Rightarrow> (is_lower c \<or> is_digit c) \<and> length cs \<le> 47 \<and>
          list_all (\<lambda>d. is_lower d \<or> is_digit d \<or> d = CHR ''_'' \<or> d = CHR ''-'') cs)"

definition ValidKind :: "event_kind \<Rightarrow> bool" where
  "ValidKind k \<longleftrightarrow> k \<in> {KindOpened, KindRepeat, KindRecovered}"

datatype channel_invalid =
  BadChannelID | NameTooLong | UnknownEventKind event_kind | EmailIncomplete | SMTPPortRange
| UnknownChannelType | BadURL | ShipNeedsSecret

definition ValidateChannel :: "(string \<Rightarrow> bool) \<Rightarrow> channel \<Rightarrow> channel_invalid option" where
  "ValidateChannel url_ok ch =
     (if \<not> ValidChannelID (ch_id ch) then Some BadChannelID
      else if 80 < length (ch_name ch) then Some NameTooLong
      else case filter (\<lambda>k. \<not> ValidKind k) (ch_kinds ch) of
        k # _ \<Rightarrow> Some (UnknownEventKind k)
      | [] \<Rightarrow>
        (case ch_type ch of
           TypeEmail \<Rightarrow>
             if ch_smtpHost ch = [] \<or> ch_emailTo ch = [] then Some EmailIncomplete
             else if ch_smtpPort ch < 0 \<or> 65535 < ch_smtpPort ch then Some SMTPPortRange
             else None
         | OtherChannelType _ \<Rightarrow> Some UnknownChannelType
         | _ \<Rightarrow>
             if \<not> url_ok (ch_url ch) then Some BadURL
             else if ch_type ch = TypeShip \<and> ch_secret ch = [] then Some ShipNeedsSecret
             else None))"

definition sanitizeHeader :: "string \<Rightarrow> string" where
  "sanitizeHeader s = filter (\<lambda>c. c \<noteq> CHR 0x0D \<and> c \<noteq> CHR 0x0A) s"

section \<open>Routing facts\<close>

lemma Migrate_fields [simp]:
  "al_webhookURL (Migrate c) = []" "al_smtpHost (Migrate c) = []" "al_emailTo (Migrate c) = []"
  "al_webhookSecret (Migrate c) = []" "al_smtpPort (Migrate c) = 0" "al_smtpUser (Migrate c) = []"
  "al_smtpPass (Migrate c) = []" "al_emailFrom (Migrate c) = []" "\<not> al_smtpAllowInsecure (Migrate c)"
  "al_publicURL (Migrate c) = al_publicURL c" "al_heartbeats (Migrate c) = al_heartbeats c"
  by (simp_all add: Migrate_def Let_def)

lemma Migrate_no_legacy: "\<not> HasLegacy (Migrate c)"
  by (simp add: HasLegacy_def)

lemma Migrate_id: "\<not> HasLegacy c \<Longrightarrow> Migrate c = c"
  by (cases c) (simp add: HasLegacy_def Migrate_def Let_def)

lemma Migrate_idem [simp]: "Migrate (Migrate c) = Migrate c"
  by (rule Migrate_id [OF Migrate_no_legacy])

text \<open>The channel list of a configuration in use: every id names one channel.\<close>

definition channels_ok :: "alert_config \<Rightarrow> bool" where
  "channels_ok c \<longleftrightarrow> distinct (map ch_id (al_channels c))"

lemma channels_ok_Migrate:
  assumes "channels_ok c"
  shows "channels_ok (Migrate c)"
proof -
  have "ChannelWebhook \<noteq> ChannelEmail" by (simp add: ChannelWebhook_def ChannelEmail_def)
  with assms show ?thesis
    by (auto simp: channels_ok_def Migrate_def Let_def image_iff)
qed

lemma find_distinct:
  "distinct (map f xs) \<Longrightarrow> x \<in> set xs \<Longrightarrow> find (\<lambda>y. f y = f x) xs = Some x"
  by (induction xs) (auto simp: image_iff)

lemma Channel_of_routed:
  assumes "channels_ok c" and "i \<in> set (ChannelsFor c ev)"
  shows "\<exists>ch. Channel c i = Some ch \<and> routed ev ch \<and> ch_id ch = i"
proof -
  from assms(2) obtain ch where ch: "ch \<in> set (al_channels (Migrate c))" "routed ev ch" "ch_id ch = i"
    by (auto simp: ChannelsFor_def)
  have "distinct (map ch_id (al_channels (Migrate c)))"
    using channels_ok_Migrate [OF assms(1)] by (simp add: channels_ok_def)
  from find_distinct [OF this ch(1)] ch show ?thesis by (auto simp: Channel_def)
qed

text \<open>
  Routing only names channels that can deliver. Every channel an event is routed to is a
  configured channel that is allowed by the routing of the event, \<open>SendChannel\<close> delivers
  through exactly that channel, and the migration of a legacy configuration changes neither
  the routing nor the identifiers.
\<close>

theorem routed_channels_deliver:
  assumes "channels_ok c" and "i \<in> set (ChannelsFor c ev)"
  shows "(\<exists>ch. SendChannel c i = Inr ch \<and> ch_id ch = i \<and> routed ev ch) \<and>
    i \<in> set (ConfiguredChannels c) \<and> i \<notin> set (ae_excludeChannels ev) \<and>
    (ae_onlyChannels ev \<noteq> [] \<longrightarrow> i \<in> set (ae_onlyChannels ev)) \<and>
    distinct (ChannelsFor c ev) \<and> ChannelsFor (Migrate c) ev = ChannelsFor c ev"
proof -
  from Channel_of_routed [OF assms] obtain ch where ch: "Channel c i = Some ch" "routed ev ch" "ch_id ch = i"
    by blast
  then have "SendChannel c i = Inr ch"
    by (auto simp: SendChannel_def routed_def Usable_def split: channel_type.splits)
  moreover have "i \<in> set (ConfiguredChannels c)"
    using assms(2) by (auto simp: ChannelsFor_def ConfiguredChannels_def routed_def)
  moreover have "distinct (ChannelsFor c ev)"
    using channels_ok_Migrate [OF assms(1)] by (simp add: channels_ok_def ChannelsFor_def distinct_map_filter)
  ultimately show ?thesis
    using ch by (auto simp: routed_def ChannelsFor_def)
qed

definition sample_config :: alert_config where
  "sample_config = \<lparr>al_channels = [zero_channel\<lparr>ch_id := ''ops'', ch_type := TypeSlack, ch_url := ''https://hooks''\<rparr>],
     al_publicURL = [], al_heartbeats = [], al_heartbeatMinutes = 0, al_webhookURL = ''https://in'',
     al_webhookSecret = ''s3'', al_smtpHost = [], al_smtpPort = 0, al_smtpUser = [], al_smtpPass = [],
     al_emailTo = [], al_emailFrom = [], al_smtpAllowInsecure = False\<rparr>"

definition sample_alert :: alert_event where
  "sample_alert = \<lparr>ae_monitorID = ''m1'', ae_monitorName = ''Shop'', ae_status = ''down'', ae_message = [],
     ae_occurredAt = 7, ae_source = NoSource, ae_deliveryID = [], ae_version = 0, ae_kind = NoKind,
     ae_reason = ReasonHealthy, ae_incidentID = [], ae_ruleID = [], ae_service = [], ae_app = [],
     ae_server = [], ae_target = [], ae_severity = NoSeverity, ae_startedAt = 0, ae_durationS = 0,
     ae_failures = 0, ae_url = [], ae_onlyChannels = [], ae_excludeChannels = [], ae_audience = AudienceAll\<rparr>"

theorem routed_channels_deliver_witness:
  "ChannelsFor sample_config sample_alert = [''webhook'', ''ops''] \<and>
   (\<exists>ch. SendChannel sample_config ''webhook'' = Inr ch \<and> ch_id ch = ''webhook'' \<and> routed sample_alert ch)"
proof
  show c: "ChannelsFor sample_config sample_alert = [''webhook'', ''ops'']" by code_simp
  have "channels_ok sample_config" unfolding channels_ok_def by code_simp
  from routed_channels_deliver [OF this, of "''webhook''" sample_alert] c
  show "\<exists>ch. SendChannel sample_config ''webhook'' = Inr ch \<and> ch_id ch = ''webhook'' \<and> routed sample_alert ch"
    by simp
qed

end
