(* ===== verification/Incidents.thy ===== *)
theory Incidents
  imports Alerts
begin

text \<open>
  \<open>internal/incident/incident.go\<close>: the policy state machine between the observations of the rules
  and the alert outbox. Every operation is one critical section of the tracker's mutex; it
  returns what \<open>flushLocked\<close> hands to the alerter, in order. The clock, the hold and silence
  lookups, the channel check, the random identifiers and whether the new
  \<open>incidents.json\<close> is in place after a write are the record \<open>tracker_env\<close>. \<open>tk_file\<close> is that file.
\<close>

section \<open>Rules and incidents\<close>

record policy =
  po_failAfter :: int
  po_recoverAfter :: int
  po_repeatEvery :: duration
  po_autoResolveAfter :: duration

definition normalized :: "policy \<Rightarrow> policy" where
  "normalized p = p\<lparr>po_failAfter := (if po_failAfter p < 1 then 1 else po_failAfter p),
     po_recoverAfter := (if po_recoverAfter p < 1 then 1 else po_recoverAfter p)\<rparr>"

record rule =
  ru_key :: string
  ru_source :: alert_source
  ru_source_text :: string
  ru_id :: string
  ru_name :: string
  ru_app :: string
  ru_server :: string
  ru_target :: string
  ru_severity :: severity
  ru_path :: string
  ru_policy :: policy
  ru_noHold :: bool
  ru_excludeChannels :: "string list"

definition rule_key :: "rule \<Rightarrow> string" where
  "rule_key r = (if ru_key r \<noteq> [] then ru_key r else ru_source_text r @ '':'' @ ru_id r)"

record incident =
  ic_key :: string
  ic_id :: string
  ic_source :: alert_source
  ic_ruleID :: string
  ic_name :: string
  ic_app :: string
  ic_server :: string
  ic_target :: string
  ic_severity :: severity
  ic_path :: string
  ic_message :: string
  ic_startedAt :: time
  ic_openedAt :: time
  ic_notified :: bool
  ic_lastNotifiedAt :: time
  ic_failures :: int
  ic_autoResolveAt :: time
  ic_excludeChannels :: "string list"

record held_rule =
  he_key :: string
  he_source :: alert_source
  he_ruleID :: string
  he_name :: string
  he_app :: string
  he_reason :: string
  he_since :: time
  he_failures :: int

record rule_state =
  rs_fails :: int
  rs_oks :: int
  rs_firstFailAt :: time
  rs_held :: "held_rule option"
  rs_rule :: rule
  rs_lastMessage :: string

record outgoing =
  og_event :: alert_event
  og_note :: string

record tracker =
  tk_states :: "(string, rule_state) gomap"
  tk_incidents :: "(string, incident) gomap"
  tk_adopting :: bool
  tk_file :: "incident list option"

record tracker_env =
  te_now :: time
  te_channels :: bool
  te_silenced :: "rule \<Rightarrow> time \<Rightarrow> string option"
  te_hold :: "rule \<Rightarrow> time \<Rightarrow> string option"
  te_publicURL :: "string option"
  te_newID :: "string \<Rightarrow> string"
  te_dir :: bool
  te_saved :: bool

definition zero_rule :: rule where
  "zero_rule = \<lparr>ru_key = [], ru_source = NoSource, ru_source_text = [], ru_id = [], ru_name = [], ru_app = [],
     ru_server = [], ru_target = [], ru_severity = NoSeverity, ru_path = [],
     ru_policy = \<lparr>po_failAfter = 0, po_recoverAfter = 0, po_repeatEvery = 0, po_autoResolveAfter = 0\<rparr>,
     ru_noHold = False, ru_excludeChannels = []\<rparr>"

definition zero_state :: rule_state where
  "zero_state = \<lparr>rs_fails = 0, rs_oks = 0, rs_firstFailAt = 0, rs_held = None, rs_rule = zero_rule,
     rs_lastMessage = []\<rparr>"

definition zero_incident :: incident where
  "zero_incident = \<lparr>ic_key = [], ic_id = [], ic_source = NoSource, ic_ruleID = [], ic_name = [], ic_app = [],
     ic_server = [], ic_target = [], ic_severity = NoSeverity, ic_path = [], ic_message = [],
     ic_startedAt = 0, ic_openedAt = 0, ic_notified = False, ic_lastNotifiedAt = 0, ic_failures = 0,
     ic_autoResolveAt = 0, ic_excludeChannels = []\<rparr>"

definition get_state :: "string \<Rightarrow> tracker \<Rightarrow> rule_state" where
  "get_state key t = (case mget (tk_states t) key of None \<Rightarrow> zero_state | Some st \<Rightarrow> st)"

definition describe :: "rule \<Rightarrow> incident \<Rightarrow> incident" where
  "describe rule inc = inc\<lparr>
     ic_source := ru_source rule, ic_ruleID := ru_id rule, ic_name := ru_name rule,
     ic_app := ru_app rule, ic_server := ru_server rule, ic_target := ru_target rule,
     ic_path := ru_path rule,
     ic_severity := (if ru_severity rule = NoSeverity then SeverityCritical else ru_severity rule),
     ic_excludeChannels := ru_excludeChannels rule\<rparr>"

fun severityRank :: "severity \<Rightarrow> nat" where
  "severityRank SeverityCritical = 3"
| "severityRank SeverityWarning = 2"
| "severityRank SeverityInfo = 1"
| "severityRank _ = 0"

text \<open>The reason an open is held now; the empty string when it is not.\<close>

definition holdFor :: "tracker_env \<Rightarrow> rule \<Rightarrow> time \<Rightarrow> string" where
  "holdFor env rule at =
     (case te_silenced env rule at of Some why \<Rightarrow> ''silenced: '' @ why
      | None \<Rightarrow>
          if \<not> ru_noHold rule
          then (case te_hold env rule at of Some why \<Rightarrow> ''held: '' @ why | None \<Rightarrow> [])
          else [])"

definition base_url :: "tracker_env \<Rightarrow> string" where
  "base_url env = (case te_publicURL env of None \<Rightarrow> [] | Some u \<Rightarrow> trim_right CHR ''/'' u)"

definition tracker_event ::
    "tracker_env \<Rightarrow> incident \<Rightarrow> event_kind \<Rightarrow> recovery_reason \<Rightarrow> string \<Rightarrow> time \<Rightarrow> alert_event" where
  "tracker_event env inc kind reason message at =
     \<lparr>ae_monitorID = ic_ruleID inc, ae_monitorName = ic_name inc,
      ae_status = (if kind = KindRecovered then ''up'' else ''down''), ae_message = message,
      ae_occurredAt = at, ae_source = ic_source inc, ae_deliveryID = [], ae_version = 2,
      ae_kind = kind, ae_reason = reason, ae_incidentID = ic_id inc, ae_ruleID = ic_ruleID inc,
      ae_service = (if ic_app inc = [] then ic_name inc else ic_app inc), ae_app = ic_app inc,
      ae_server = ic_server inc, ae_target = ic_target inc, ae_severity = ic_severity inc,
      ae_startedAt = ic_startedAt inc,
      ae_durationS = (if kind \<noteq> KindOpened \<and> \<not> is_zero_time (ic_startedAt inc) \<and> after_time at (ic_startedAt inc)
        then time_sub at (ic_startedAt inc) div second else 0),
      ae_failures = ic_failures inc,
      ae_url = (if ic_path inc \<noteq> [] \<and> base_url env \<noteq> [] then base_url env @ ic_path inc else []),
      ae_onlyChannels = [], ae_excludeChannels = ic_excludeChannels inc, ae_audience = AudienceAll\<rparr>"

definition persistLocked :: "tracker_env \<Rightarrow> tracker \<Rightarrow> tracker" where
  "persistLocked env t =
     (if te_dir env \<and> te_saved env
      then t\<lparr>tk_file := Some (sort_key ic_key (map snd (tk_incidents t)))\<rparr> else t)"

definition persist_if :: "tracker_env \<Rightarrow> bool \<Rightarrow> tracker \<Rightarrow> tracker" where
  "persist_if env changed t = (if changed then persistLocked env t else t)"

definition put_incident :: "string \<Rightarrow> incident \<Rightarrow> tracker \<Rightarrow> tracker" where
  "put_incident key inc t = t\<lparr>tk_incidents := mput key inc (tk_incidents t)\<rparr>"

definition del_incident :: "string \<Rightarrow> tracker \<Rightarrow> tracker" where
  "del_incident key t = t\<lparr>tk_incidents := mdel key (tk_incidents t)\<rparr>"

definition put_state :: "string \<Rightarrow> rule_state \<Rightarrow> tracker \<Rightarrow> tracker" where
  "put_state key st t = t\<lparr>tk_states := mput key st (tk_states t)\<rparr>"

definition sending :: "alert_event \<Rightarrow> outgoing" where
  "sending ev = \<lparr>og_event = ev, og_note = []\<rparr>"

section \<open>Starting and adopting\<close>

text \<open>\<open>New\<close> with a directory: no file, a file that does not decode (\<open>None\<close> inside), or its incidents.\<close>

definition New_tracker :: "incident list option option \<Rightarrow> tracker" where
  "New_tracker file =
     (case file of
        None \<Rightarrow> \<lparr>tk_states = [], tk_incidents = [], tk_adopting = True, tk_file = None\<rparr>
      | Some None \<Rightarrow> \<lparr>tk_states = [], tk_incidents = [], tk_adopting = True, tk_file = None\<rparr>
      | Some (Some incs) \<Rightarrow>
          \<lparr>tk_states = [],
           tk_incidents = fold (\<lambda>inc m. if ic_key inc \<noteq> [] then mput (ic_key inc) inc m else m) incs [],
           tk_adopting = False, tk_file = Some incs\<rparr>)"

definition new_incident :: "tracker_env \<Rightarrow> string \<Rightarrow> rule \<Rightarrow> time \<Rightarrow> time \<Rightarrow> int \<Rightarrow> string \<Rightarrow> incident" where
  "new_incident env key rule startedAt openedAt fails message =
     describe rule (zero_incident\<lparr>ic_key := key, ic_id := te_newID env key, ic_startedAt := startedAt,
       ic_openedAt := openedAt, ic_failures := fails, ic_message := message\<rparr>)"

definition normalize_rule :: "rule \<Rightarrow> rule" where
  "normalize_rule rule = rule\<lparr>ru_policy := normalized (ru_policy rule)\<rparr>"

definition AdoptOpen :: "tracker_env \<Rightarrow> rule \<Rightarrow> time \<Rightarrow> int \<Rightarrow> string \<Rightarrow> tracker \<Rightarrow> tracker" where
  "AdoptOpen env rule0 startedAt fails message t =
     (let rule = normalize_rule rule0; key = rule_key rule
      in if \<not> tk_adopting t \<or> mget (tk_incidents t) key \<noteq> None \<or> fails < po_failAfter (ru_policy rule) then t
         else persistLocked env
           (put_incident key (new_incident env key rule startedAt (te_now env) fails message) t))"

definition AdoptFailing :: "tracker_env \<Rightarrow> rule \<Rightarrow> time \<Rightarrow> string \<Rightarrow> tracker \<Rightarrow> bool \<times> tracker" where
  "AdoptFailing env rule0 startedAt message t =
     (let rule = normalize_rule rule0; key = rule_key rule; now = te_now env
      in if mget (tk_incidents t) key \<noteq> None then (False, t)
         else if holdFor env rule now \<noteq> [] then (False, t)
         else
           let fails = po_failAfter (ru_policy rule);
               st = (get_state key t)\<lparr>rs_rule := rule, rs_lastMessage := message, rs_oks := 0,
                      rs_fails := fails, rs_firstFailAt := startedAt\<rparr>
           in (True, persistLocked env
                (put_incident key (new_incident env key rule startedAt now fails message) (put_state key st t))))"

section \<open>Observations\<close>

text \<open>Opening an incident: announced unless the tracker adopts or no channel is configured.\<close>

definition open_incident ::
    "tracker_env \<Rightarrow> string \<Rightarrow> rule \<Rightarrow> time \<Rightarrow> time \<Rightarrow> int \<Rightarrow> string \<Rightarrow> tracker \<Rightarrow> outgoing list \<times> tracker" where
  "open_incident env key rule startedAt at fails message t =
     (let inc0 = new_incident env key rule startedAt at fails message;
          inc1 = (if 0 < po_autoResolveAfter (ru_policy rule)
            then inc0\<lparr>ic_autoResolveAt := at + po_autoResolveAfter (ru_policy rule)\<rparr> else inc0)
      in if \<not> tk_adopting t \<and> te_channels env then
           (let inc2 = inc1\<lparr>ic_notified := True, ic_lastNotifiedAt := at\<rparr>
            in ([sending (tracker_event env inc2 KindOpened ReasonHealthy message at)], put_incident key inc2 t))
         else ([], put_incident key inc1 t))"

definition hold_open ::
    "tracker_env \<Rightarrow> string \<Rightarrow> rule \<Rightarrow> string \<Rightarrow> time \<Rightarrow> string \<Rightarrow> rule_state \<Rightarrow> outgoing list \<times> rule_state" where
  "hold_open env key rule why at message st =
     (let fresh = \<lparr>he_key = key, he_source = ru_source rule, he_ruleID = ru_id rule, he_name = ru_name rule,
            he_app = ru_app rule, he_reason = why, he_since = at, he_failures = 0\<rparr>;
          probe = describe rule (zero_incident\<lparr>ic_id := ''held_'' @ key, ic_startedAt := rs_firstFailAt st,
            ic_failures := rs_fails st\<rparr>);
          ev = (tracker_event env probe KindOpened ReasonHealthy message at)\<lparr>ae_incidentID := []\<rparr>
      in case rs_held st of
           Some h \<Rightarrow> ([], st\<lparr>rs_held := Some (h\<lparr>he_reason := why, he_failures := rs_fails st\<rparr>)\<rparr>)
         | None \<Rightarrow> ([\<lparr>og_event = ev, og_note = why\<rparr>],
             st\<lparr>rs_held := Some (fresh\<lparr>he_failures := rs_fails st\<rparr>)\<rparr>))"

text \<open>A failing observation of a rule that has an incident: the updated incident, the alerts, whether to save.\<close>

definition keep_open ::
    "tracker_env \<Rightarrow> rule \<Rightarrow> time \<Rightarrow> string \<Rightarrow> int \<Rightarrow> incident \<Rightarrow> outgoing list \<times> incident \<times> bool" where
  "keep_open env rule at message fails inc =
     (let inc1 = (describe rule inc)\<lparr>ic_failures := fails, ic_message := message\<rparr>;
          may = ic_notified inc1 \<and> holdFor env rule at = [] \<and> te_channels env;
          auto' = 0 < po_autoResolveAfter (ru_policy rule);
          inc2 = (if auto' then inc1\<lparr>ic_autoResolveAt := at + po_autoResolveAfter (ru_policy rule)\<rparr> else inc1);
          repeat' = (\<lambda>i. (i\<lparr>ic_lastNotifiedAt := at\<rparr>,
            [sending (tracker_event env (i\<lparr>ic_lastNotifiedAt := at\<rparr>) KindRepeat ReasonHealthy message at)]))
      in if severityRank (ic_severity inc) < severityRank (ic_severity inc1) \<and> may
         then (case repeat' inc1 of (i, out) \<Rightarrow> (out, i, True))
         else if 0 < po_repeatEvery (ru_policy rule) \<and>
             po_repeatEvery (ru_policy rule) \<le> time_sub at (ic_lastNotifiedAt inc2) \<and> may
         then (case repeat' inc2 of (i, out) \<Rightarrow> (out, i, True))
         else ([], inc2, auto'))"

definition note_failure :: "rule \<Rightarrow> string \<Rightarrow> time \<Rightarrow> rule_state \<Rightarrow> rule_state" where
  "note_failure rule message at st =
     st\<lparr>rs_rule := rule, rs_lastMessage := message, rs_oks := 0,
        rs_firstFailAt := (if rs_fails st = 0 then at else rs_firstFailAt st), rs_fails := rs_fails st + 1\<rparr>"

definition note_success :: "rule \<Rightarrow> string \<Rightarrow> rule_state \<Rightarrow> rule_state" where
  "note_success rule message st =
     st\<lparr>rs_rule := rule, rs_lastMessage := message, rs_fails := 0, rs_firstFailAt := 0, rs_held := None,
        rs_oks := rs_oks st + 1\<rparr>"

definition Observe ::
    "tracker_env \<Rightarrow> rule \<Rightarrow> bool \<Rightarrow> time \<Rightarrow> string \<Rightarrow> tracker \<Rightarrow> outgoing list \<times> tracker" where
  "Observe env rule0 ok at message t =
     (let rule = normalize_rule rule0; key = rule_key rule;
          st = get_state key t; pol = ru_policy rule
      in if \<not> ok then
           (let st1 = note_failure rule message at st
            in case mget (tk_incidents t) key of
                 Some inc \<Rightarrow>
                   (case keep_open env rule at message (rs_fails st1) inc of
                      (out, inc', changed) \<Rightarrow>
                        (out, persist_if env changed (put_incident key inc' (put_state key st1 t))))
               | None \<Rightarrow>
                   if po_failAfter pol \<le> rs_fails st1 then
                     (let why = holdFor env rule at
                      in if why \<noteq> [] then
                           (case hold_open env key rule why at message st1 of
                              (out, st2) \<Rightarrow> (out, put_state key st2 t))
                         else
                           (case open_incident env key rule (rs_firstFailAt st1) at (rs_fails st1) message
                               (put_state key (st1\<lparr>rs_held := None\<rparr>) t) of
                              (out, t') \<Rightarrow> (out, persistLocked env t')))
                   else ([], put_state key st1 t))
         else
           (let st1 = note_success rule message st;
                t1 = put_state key st1 t
            in case mget (tk_incidents t) key of
                 None \<Rightarrow> ([], t1)
               | Some inc \<Rightarrow>
                   if po_recoverAfter pol \<le> rs_oks st1 then
                     (let inc' = describe rule inc;
                          msg = (if message = [] then ''recovered'' else message)
                      in ((if ic_notified inc'
                           then [sending (tracker_event env inc' KindRecovered ReasonHealthy msg at)] else []),
                          persistLocked env (del_incident key t1)))
                   else ([], t1)))"

text \<open>\<open>Seed\<close>: the streak of a history, newest observation first.\<close>

record sample =
  sm_ok :: bool
  sm_at :: time

definition Seed :: "rule \<Rightarrow> sample list \<Rightarrow> tracker \<Rightarrow> tracker" where
  "Seed rule history t =
     (let key = rule_key rule;
          st = (get_state key t)\<lparr>rs_fails := 0, rs_oks := 0, rs_firstFailAt := 0\<rparr>
      in put_state key
           (case history of
              [] \<Rightarrow> st
            | s # _ \<Rightarrow>
                (let streak = takeWhile (\<lambda>x. sm_ok x = sm_ok s) history
                 in if sm_ok s then st\<lparr>rs_oks := int (length streak)\<rparr>
                    else st\<lparr>rs_fails := int (length streak), rs_firstFailAt := sm_at (last streak)\<rparr>)) t)"

section \<open>Holds that end\<close>

definition release_one :: "tracker_env \<Rightarrow> string \<Rightarrow> outgoing list \<times> nat \<times> tracker \<Rightarrow> outgoing list \<times> nat \<times> tracker" where
  "release_one env key acc =
     (case acc of (out, n, t) \<Rightarrow>
       (case mget (tk_states t) key of
          None \<Rightarrow> acc
        | Some st \<Rightarrow>
            if rs_held st = None \<or> mget (tk_incidents t) key \<noteq> None \<or>
               rs_fails st < po_failAfter (normalized (ru_policy (rs_rule st))) then acc
            else if holdFor env (rs_rule st) (te_now env) \<noteq> [] then acc
            else
              (case open_incident env key (rs_rule st) (rs_firstFailAt st) (te_now env) (rs_fails st)
                  (rs_lastMessage st) (put_state key (st\<lparr>rs_held := None\<rparr>) t) of
                 (o1, t1) \<Rightarrow> (out @ o1, Suc n, t1))))"

definition ReleaseHolds :: "tracker_env \<Rightarrow> tracker \<Rightarrow> nat \<times> outgoing list \<times> tracker" where
  "ReleaseHolds env t =
     (case fold (release_one env) (map fst (tk_states t)) ([], 0, t) of
        (out, n, t1) \<Rightarrow> (n, out, persist_if env (0 < n) t1))"

section \<open>Closing\<close>

definition Retire :: "tracker_env \<Rightarrow> string \<Rightarrow> string \<Rightarrow> tracker \<Rightarrow> outgoing list \<times> tracker" where
  "Retire env key message t =
     (let t1 = t\<lparr>tk_states := mdel key (tk_states t)\<rparr>;
          msg = (if message = [] then ''no longer monitored'' else message)
      in case mget (tk_incidents t) key of
           None \<Rightarrow> ([], t1)
         | Some inc \<Rightarrow>
             ((if ic_notified inc then [sending (tracker_event env inc KindRecovered ReasonRetired msg (te_now env))]
               else []),
              persistLocked env (del_incident key t1)))"

text \<open>One round of the loops that close incidents; \<open>forget\<close> says that the rule's state goes as well.\<close>

definition close_one ::
    "tracker_env \<Rightarrow> (incident \<Rightarrow> bool) \<Rightarrow> bool \<Rightarrow> recovery_reason \<Rightarrow> string \<Rightarrow> string \<Rightarrow>
     outgoing list \<times> nat \<times> tracker \<Rightarrow> outgoing list \<times> nat \<times> tracker" where
  "close_one env pred forget_state reason message key acc =
     (case acc of (out, n, t) \<Rightarrow>
       (case mget (tk_incidents t) key of
          None \<Rightarrow> acc
        | Some inc \<Rightarrow>
            if \<not> pred inc then acc
            else
              (out @ (if ic_notified inc
                 then [sending (tracker_event env inc KindRecovered reason message (te_now env))] else []),
               Suc n,
               (if forget_state then (del_incident key t)\<lparr>tk_states := mdel key (tk_states t)\<rparr>
                else del_incident key t))))"

definition CloseMatching ::
    "tracker_env \<Rightarrow> (incident \<Rightarrow> bool) \<Rightarrow> recovery_reason \<Rightarrow> string \<Rightarrow> tracker \<Rightarrow> nat \<times> outgoing list \<times> tracker" where
  "CloseMatching env pred reason message t =
     (case fold (close_one env pred False reason message) (map fst (tk_incidents t)) ([], 0, t) of
        (out, n, t1) \<Rightarrow> (n, out, persist_if env (0 < n) t1))"

definition resolve_due :: "time \<Rightarrow> incident \<Rightarrow> bool" where
  "resolve_due now inc \<longleftrightarrow> \<not> is_zero_time (ic_autoResolveAt inc) \<and> \<not> before_time now (ic_autoResolveAt inc)"

definition Sweep :: "tracker_env \<Rightarrow> tracker \<Rightarrow> outgoing list \<times> tracker" where
  "Sweep env t =
     (case fold (close_one env (resolve_due (te_now env)) True ReasonRetired
         ''closed automatically: no further attempt since the failure'') (map fst (tk_incidents t)) ([], 0, t) of
        (out, n, t1) \<Rightarrow> (out, persist_if env (0 < n) t1))"

section \<open>Announcing\<close>

record summary =
  su_intro :: string
  su_path :: string
  su_source :: alert_source

text \<open>The text of the summary's list is \<open>lines\<close>; how a line is worded is a parameter.\<close>

definition summary_event ::
    "tracker_env \<Rightarrow> (incident \<Rightarrow> string) \<Rightarrow> summary \<Rightarrow> incident list \<Rightarrow> alert_event" where
  "summary_event env line wording pending =
     \<lparr>ae_monitorID = ''teploy-dash-summary'',
      ae_monitorName = show_nat (length pending) @ '' problems already open'',
      ae_status = ''down'',
      ae_message = su_intro wording @ [CHR 0x0A] @
        concat (map (\<lambda>(i, inc). (if i = 0 then [] else [CHR 0x0A]) @ line inc) (enumerate 0 pending)),
      ae_occurredAt = te_now env, ae_source = su_source wording, ae_deliveryID = [], ae_version = 2,
      ae_kind = KindSummary, ae_reason = ReasonHealthy, ae_incidentID = [], ae_ruleID = [],
      ae_service = [], ae_app = [], ae_server = [], ae_target = [], ae_severity = SeverityCritical,
      ae_startedAt = (case pending of [] \<Rightarrow> 0 | inc # _ \<Rightarrow> ic_startedAt inc), ae_durationS = 0,
      ae_failures = 0, ae_url = (if base_url env \<noteq> [] then base_url env @ su_path wording else []),
      ae_onlyChannels = [], ae_excludeChannels = [], ae_audience = AudienceHuman\<rparr>"

definition announce_out ::
    "tracker_env \<Rightarrow> (incident \<Rightarrow> string) \<Rightarrow> summary \<Rightarrow> incident list \<Rightarrow> outgoing list" where
  "announce_out env line wording pending =
     (let opened = (\<lambda>inc. tracker_event env inc KindOpened ReasonHealthy (ic_message inc) (te_now env))
      in case pending of
           [] \<Rightarrow> []
         | [inc] \<Rightarrow> [sending (opened inc)]
         | _ \<Rightarrow> sending (summary_event env line wording pending) #
               map (\<lambda>inc. sending ((opened inc)\<lparr>ae_audience := AudienceMachine\<rparr>)) pending)"

definition AnnounceWith ::
    "tracker_env \<Rightarrow> (incident \<Rightarrow> string) \<Rightarrow> summary \<Rightarrow> tracker \<Rightarrow> nat \<times> outgoing list \<times> tracker" where
  "AnnounceWith env line wording t =
     (if \<not> te_channels env then (0, [], t)
      else
        let pending = sort_key ic_startedAt (filter (\<lambda>inc. \<not> ic_notified inc) (map snd (tk_incidents t)));
            mark = (\<lambda>inc. if ic_notified inc then inc
                     else inc\<lparr>ic_notified := True, ic_lastNotifiedAt := te_now env\<rparr>)
        in (length pending, announce_out env line wording pending,
            persist_if env (pending \<noteq> [])
              (t\<lparr>tk_incidents := map (\<lambda>(k, inc). (k, mark inc)) (tk_incidents t)\<rparr>)))"

definition AnnounceUnannounced ::
    "tracker_env \<Rightarrow> (incident \<Rightarrow> string) \<Rightarrow> tracker \<Rightarrow> nat \<times> outgoing list \<times> tracker" where
  "AnnounceUnannounced env line t =
     AnnounceWith env line \<lparr>su_intro = ''Alerts are now configured. Currently open:'', su_path = ''/monitors'',
       su_source = SourceMonitor\<rparr> t"

definition EndAdoption :: "tracker_env \<Rightarrow> (incident \<Rightarrow> string) \<Rightarrow> tracker \<Rightarrow> nat \<times> outgoing list \<times> tracker" where
  "EndAdoption env line t = AnnounceUnannounced env line (persistLocked env (t\<lparr>tk_adopting := False\<rparr>))"

section \<open>Reads\<close>

definition Open :: "tracker \<Rightarrow> incident list" where
  "Open t = sort_key ic_startedAt (map snd (tk_incidents t))"

definition HeldRules :: "tracker \<Rightarrow> held_rule list" where
  "HeldRules t = sort_key he_since (List.map_filter (\<lambda>b. rs_held (snd b)) (tk_states t))"

definition Counts :: "string \<Rightarrow> tracker \<Rightarrow> int \<times> int" where
  "Counts key t = (case mget (tk_states t) key of None \<Rightarrow> (0, 0) | Some st \<Rightarrow> (rs_fails st, rs_oks st))"

end
