(* ===== verification/IncidentTraces.thy ===== *)
theory IncidentTraces
  imports Incidents "HOL-Library.Code_Target_Nat"
begin

text \<open>
  What the alert receivers see of the tracker (\<open>internal/incident/incident.go\<close>): for every
  incident one open, then reminders, then at most one recovery, in this order and only if it was
  opened, through any sequence of operations and restarts; and what holds and debouncing do.
\<close>

section \<open>The tracker as a transition system\<close>

datatype tracker_action =
  TAdoptOpen tracker_env rule time int string
| TAdoptFailing tracker_env rule time string
| TObserve tracker_env rule bool time string
| TSeed rule "sample list"
| TRelease tracker_env
| TRetire tracker_env string string
| TClose tracker_env "incident \<Rightarrow> bool" recovery_reason string
| TSweep tracker_env
| TAnnounce tracker_env "incident \<Rightarrow> string" summary
| TEndAdoption tracker_env "incident \<Rightarrow> string"
| TRestart

fun track :: "tracker_action \<Rightarrow> tracker \<Rightarrow> outgoing list \<times> tracker" where
  "track (TAdoptOpen env r s f msg) t = ([], AdoptOpen env r s f msg t)"
| "track (TAdoptFailing env r s msg) t = ([], snd (AdoptFailing env r s msg t))"
| "track (TObserve env r ok at msg) t = Observe env r ok at msg t"
| "track (TSeed r hist) t = ([], Seed r hist t)"
| "track (TRelease env) t = snd (ReleaseHolds env t)"
| "track (TRetire env k msg) t = Retire env k msg t"
| "track (TClose env pred reason msg) t = snd (CloseMatching env pred reason msg t)"
| "track (TSweep env) t = Sweep env t"
| "track (TAnnounce env line wording) t = snd (AnnounceWith env line wording t)"
| "track (TEndAdoption env line) t = snd (EndAdoption env line t)"
| "track TRestart t = ([], New_tracker (map_option Some (tk_file t)))"

fun env_of :: "tracker_action \<Rightarrow> tracker_env option" where
  "env_of (TAdoptOpen env r s f msg) = Some env"
| "env_of (TAdoptFailing env r s msg) = Some env"
| "env_of (TObserve env r ok at msg) = Some env"
| "env_of (TRelease env) = Some env"
| "env_of (TRetire env k msg) = Some env"
| "env_of (TClose env pred reason msg) = Some env"
| "env_of (TSweep env) = Some env"
| "env_of (TAnnounce env line wording) = Some env"
| "env_of (TEndAdoption env line) = Some env"
| "env_of _ = None"

section \<open>The legs of an incident\<close>

definition legs :: "string \<Rightarrow> outgoing list \<Rightarrow> event_kind list" where
  "legs i tr = map (\<lambda>og. ae_kind (og_event og))
     (filter (\<lambda>og. og_note og = [] \<and> ae_incidentID (og_event og) = i) tr)"

lemma legs_simps [simp]:
  "legs i [] = []"
  "legs i (a @ b) = legs i a @ legs i b"
  "legs i (og # tr) =
     (if og_note og = [] \<and> ae_incidentID (og_event og) = i then [ae_kind (og_event og)] else []) @ legs i tr"
  by (simp_all add: legs_def)

lemma tracker_event_fields [simp]:
  "ae_kind (tracker_event env inc k r msg at) = k"
  "ae_incidentID (tracker_event env inc k r msg at) = ic_id inc"
  by (simp_all add: tracker_event_def)

lemma sending_fields [simp]: "og_event (sending ev) = ev" "og_note (sending ev) = []"
  by (simp_all add: sending_def)

definition open_legs :: "event_kind list \<Rightarrow> bool" where
  "open_legs ls \<longleftrightarrow> (\<exists>n. ls = KindOpened # replicate n KindRepeat)"

definition over_legs :: "event_kind list \<Rightarrow> bool" where
  "over_legs ls \<longleftrightarrow> ls = [] \<or> (\<exists>n. ls = KindOpened # replicate n KindRepeat @ [KindRecovered])"

lemma open_legs_intros:
  "open_legs [KindOpened]"
  "open_legs ls \<Longrightarrow> open_legs (ls @ replicate n KindRepeat)"
  "open_legs ls \<Longrightarrow> over_legs (ls @ [KindRecovered])"
  "over_legs []"
proof -
  show "open_legs [KindOpened]" unfolding open_legs_def by (rule exI [of _ 0]) simp
  show "open_legs ls \<Longrightarrow> open_legs (ls @ replicate n KindRepeat)"
    unfolding open_legs_def by (auto simp: replicate_add [symmetric])
  show "open_legs ls \<Longrightarrow> over_legs (ls @ [KindRecovered])"
    unfolding open_legs_def over_legs_def by auto
  show "over_legs []" by (simp add: over_legs_def)
qed

definition incident_ids :: "tracker \<Rightarrow> string set" where
  "incident_ids t = ic_id ` snd ` set (tk_incidents t)"

definition legs_ok :: "incident \<Rightarrow> outgoing list \<Rightarrow> bool" where
  "legs_ok inc tr \<longleftrightarrow> (if ic_notified inc then open_legs (legs (ic_id inc) tr) else legs (ic_id inc) tr = [])"

definition paired :: "tracker \<Rightarrow> outgoing list \<Rightarrow> bool" where
  "paired t tr \<longleftrightarrow> distinct (map fst (tk_incidents t)) \<and> distinct (map (ic_id \<circ> snd) (tk_incidents t)) \<and>
     (\<forall>(k, inc)\<in>set (tk_incidents t). ic_key inc = k \<and> k \<noteq> [] \<and> ic_id inc \<noteq> [] \<and> legs_ok inc tr) \<and>
     (\<forall>i. i \<noteq> [] \<longrightarrow> i \<notin> incident_ids t \<longrightarrow> over_legs (legs i tr))"

lemma pairedD:
  assumes "paired t tr"
  shows "gomap_ok (tk_incidents t)"
    and "mget (tk_incidents t) k = Some inc \<Longrightarrow> ic_key inc = k \<and> k \<noteq> [] \<and> ic_id inc \<noteq> [] \<and> legs_ok inc tr"
    and "i \<noteq> [] \<Longrightarrow> i \<notin> incident_ids t \<Longrightarrow> over_legs (legs i tr)"
  using assms by (auto simp: paired_def gomap_ok_def dest!: mget_SomeD)

text \<open>The rest of the state does not matter.\<close>

lemma paired_cong: "tk_incidents t' = tk_incidents t \<Longrightarrow> paired t' tr = paired t tr"
  by (simp add: paired_def incident_ids_def)

lemma paired_quiet:
  "paired t tr \<Longrightarrow> (\<And>i. i \<noteq> [] \<Longrightarrow> legs i out = []) \<Longrightarrow> paired t (tr @ out)"
  unfolding paired_def legs_ok_def by (auto split: if_splits)

lemma map_snd_mput_same:
  "gomap_ok m \<Longrightarrow> mget m k = Some v \<Longrightarrow> f v' = f v \<Longrightarrow> map (f \<circ> snd) (mput k v' m) = map (f \<circ> snd) m"
  by (induction m) (auto simp: gomap_simps split: if_splits)

lemma paired_update:
  assumes p: "paired t tr" and k: "mget (tk_incidents t) k = Some inc"
    and same: "ic_key inc' = ic_key inc" "ic_id inc' = ic_id inc" "ic_notified inc' = ic_notified inc"
    and out: "\<And>i. legs i out = (if i = ic_id inc then replicate n KindRepeat else [])"
    and n: "n \<noteq> 0 \<Longrightarrow> ic_notified inc"
  shows "paired (put_incident k inc' t) (tr @ out)"
proof -
  note g = pairedD(1) [OF p]
  have ids: "map (ic_id \<circ> snd) (mput k inc' (tk_incidents t)) = map (ic_id \<circ> snd) (tk_incidents t)"
    by (rule map_snd_mput_same [OF g k]) (simp add: same)
  then have idset: "incident_ids (put_incident k inc' t) = incident_ids t"
    unfolding incident_ids_def put_incident_def by (metis image_comp list.set_map tracker.select_convs(2) tracker.surjective tracker.update_convs(2))
  have one: "legs (ic_id x) out = []" if "(k', x) \<in> set (tk_incidents t)" "k' \<noteq> k" for k' x
  proof -
    have "distinct (map (ic_id \<circ> snd) (tk_incidents t))" using p by (simp add: paired_def)
    moreover have "(k, inc) \<in> set (tk_incidents t)" using k by (rule mget_SomeD)
    ultimately have "ic_id x \<noteq> ic_id inc" using that unfolding distinct_map inj_on_def by fastforce
    with out show ?thesis by simp
  qed
  have legs': "legs_ok inc' (tr @ out)"
    using pairedD(2) [OF p k] n out by (auto simp: legs_ok_def same open_legs_intros split: if_splits)
  have old: "ic_key x = k' \<and> k' \<noteq> [] \<and> ic_id x \<noteq> [] \<and> legs_ok x (tr @ out)"
    if "(k', x) \<in> set (tk_incidents t)" "k' \<noteq> k" for k' x
    using p that one [OF that] by (auto simp: paired_def legs_ok_def)
  have out0: "legs i out = []" if "i \<notin> incident_ids t" for i
    using out that k by (force simp: incident_ids_def dest: mget_SomeD)
  show ?thesis
    unfolding paired_def idset
  proof (intro conjI)
    show "distinct (map fst (tk_incidents (put_incident k inc' t)))"
      using g by (simp add: put_incident_def gomap_ok_def distinct_update)
    show "distinct (map (ic_id \<circ> snd) (tk_incidents (put_incident k inc' t)))"
      using p ids by (simp add: put_incident_def paired_def)
    show "\<forall>(k', x)\<in>set (tk_incidents (put_incident k inc' t)). ic_key x = k' \<and> k' \<noteq> [] \<and> ic_id x \<noteq> [] \<and> legs_ok x (tr @ out)"
      using legs' old pairedD(2) [OF p k] same by (auto simp: put_incident_def set_mput [OF g])
    show "\<forall>i. i \<noteq> [] \<longrightarrow> i \<notin> incident_ids t \<longrightarrow> over_legs (legs i (tr @ out))"
      using pairedD(3) [OF p] out0 by simp
  qed
qed

lemma mput_new: "mget m k = None \<Longrightarrow> mput k v m = m @ [(k, v)]"
  by (induction m) (auto split: if_splits)

lemma paired_open:
  assumes p: "paired t tr" and k: "mget (tk_incidents t) k = None"
    and inc: "ic_key inc = k" "k \<noteq> []" "ic_id inc \<noteq> []" "ic_id inc \<notin> incident_ids t" "legs (ic_id inc) tr = []"
    and out: "\<And>i. legs i out = (if i = ic_id inc \<and> ic_notified inc then [KindOpened] else [])"
  shows "paired (put_incident k inc t) (tr @ out)"
proof -
  note g = pairedD(1) [OF p]
  have e: "tk_incidents (put_incident k inc t) = tk_incidents t @ [(k, inc)]"
    by (simp add: put_incident_def mput_new [OF k])
  have ids: "incident_ids (put_incident k inc t) = insert (ic_id inc) (incident_ids t)"
    by (auto simp: incident_ids_def e)
  have "k \<notin> set (map fst (tk_incidents t))" using k mget_fst_iff [of k "tk_incidents t"] by auto
  moreover have "ic_id inc \<notin> set (map (ic_id \<circ> snd) (tk_incidents t))" using inc(4) by (force simp: incident_ids_def)
  moreover have "legs_ok inc (tr @ out)" using inc(5) out open_legs_intros(1) by (simp add: legs_ok_def)
  moreover have "legs_ok x (tr @ out)" if "(k', x) \<in> set (tk_incidents t)" for k' x
  proof -
    have "ic_id x \<in> incident_ids t" using that by (force simp: incident_ids_def)
    with inc(4) have "ic_id x \<noteq> ic_id inc" by metis
    with p that out show ?thesis by (auto simp: paired_def legs_ok_def)
  qed
  ultimately show ?thesis
    using p inc out unfolding paired_def ids e by auto
qed

lemma paired_close:
  assumes p: "paired t tr" and k: "mget (tk_incidents t) k = Some inc"
    and out: "\<And>i. legs i out = (if i = ic_id inc \<and> ic_notified inc then [KindRecovered] else [])"
  shows "paired (del_incident k t) (tr @ out)"
proof -
  note g = pairedD(1) [OF p]
  have e: "tk_incidents (del_incident k t) = filter (\<lambda>b. fst b \<noteq> k) (tk_incidents t)"
    by (auto simp: del_incident_def AList.delete_eq intro: filter_cong)
  have dist: "distinct (map (ic_id \<circ> snd) (tk_incidents t))" using p by (simp add: paired_def)
  have mem: "(k, inc) \<in> set (tk_incidents t)" using k by (rule mget_SomeD)
  have other: "ic_id x \<noteq> ic_id inc" if "(k', x) \<in> set (tk_incidents t)" "k' \<noteq> k" for k' x
    using dist mem that unfolding distinct_map inj_on_def by fastforce
  have ids: "incident_ids (del_incident k t) = incident_ids t - {ic_id inc}"
  proof -
    have "x = inc" if "(k, x) \<in> set (tk_incidents t)" for x using that mem g by (auto simp: mem_gomap_iff)
    then show ?thesis using other by (force simp: incident_ids_def e)
  qed
  have closed: "over_legs (legs (ic_id inc) (tr @ out))"
    using pairedD(2) [OF p k] out by (auto simp: legs_ok_def open_legs_intros split: if_splits)
  have gone: "over_legs (legs i (tr @ out))" if "i \<noteq> []" "i \<notin> incident_ids t - {ic_id inc}" for i
    using closed pairedD(3) [OF p that(1)] that out by (cases "i = ic_id inc") auto
  have rest: "ic_key x = k' \<and> k' \<noteq> [] \<and> ic_id x \<noteq> [] \<and> legs_ok x (tr @ out)"
    if "(k', x) \<in> set (tk_incidents t)" "k' \<noteq> k" for k' x
    using p that other [OF that] out by (auto simp: paired_def legs_ok_def)
  show ?thesis
    using p gone rest unfolding paired_def ids e by (auto simp: distinct_map_filter)
qed

section \<open>Every operation keeps the pairing\<close>

text \<open>The random identifiers of one call are new and differ from each other.\<close>

definition fresh_ids :: "tracker_env \<Rightarrow> tracker \<Rightarrow> outgoing list \<Rightarrow> bool" where
  "fresh_ids env t tr \<longleftrightarrow> inj (te_newID env) \<and>
     (\<forall>k. mget (tk_incidents t) k = None \<longrightarrow>
        te_newID env k \<noteq> [] \<and> te_newID env k \<notin> incident_ids t \<and> legs (te_newID env k) tr = [])"

definition state_keys_ok :: "tracker \<Rightarrow> bool" where
  "state_keys_ok t \<longleftrightarrow> [] \<notin> fst ` set (tk_states t)"

lemma rule_key_nonempty [simp]: "rule_key r \<noteq> []"
  by (simp add: rule_key_def)

lemma normalize_rule_key [simp]: "rule_key (normalize_rule r) = rule_key r"
  by (simp add: rule_key_def normalize_rule_def)

lemma describe_fields [simp]:
  "ic_key (describe r inc) = ic_key inc" "ic_id (describe r inc) = ic_id inc"
  "ic_notified (describe r inc) = ic_notified inc"
  by (simp_all add: describe_def)

lemma new_incident_fields [simp]:
  "ic_key (new_incident env k r s a f m) = k" "ic_id (new_incident env k r s a f m) = te_newID env k"
  "\<not> ic_notified (new_incident env k r s a f m)"
  by (simp_all add: new_incident_def zero_incident_def)

lemma persist_incidents [simp]:
  "tk_incidents (persistLocked env t) = tk_incidents t" "tk_states (persistLocked env t) = tk_states t"
  "tk_incidents (persist_if env b t) = tk_incidents t" "tk_states (persist_if env b t) = tk_states t"
  by (simp_all add: persistLocked_def persist_if_def)

lemma put_fields [simp]:
  "tk_incidents (put_state k st t) = tk_incidents t"
  "tk_states (put_incident k inc t) = tk_states t" "tk_states (del_incident k t) = tk_states t"
  "tk_states (put_state k st t) = mput k st (tk_states t)"
  "tk_incidents (put_incident k inc t) = mput k inc (tk_incidents t)"
  "tk_incidents (del_incident k t) = mdel k (tk_incidents t)"
  "tk_adopting (put_incident k inc t) = tk_adopting t" "tk_adopting (put_state k st t) = tk_adopting t"
  by (simp_all add: put_state_def put_incident_def del_incident_def)

lemma state_keys_simps [simp]:
  "state_keys_ok (put_incident k inc t) = state_keys_ok t" "state_keys_ok (del_incident k t) = state_keys_ok t"
  "state_keys_ok (persistLocked env t) = state_keys_ok t" "state_keys_ok (persist_if env b t) = state_keys_ok t"
  by (simp_all add: state_keys_ok_def)

lemma fst_set_mput: "fst ` set (mput k v m) = insert k (fst ` set m)"
  by (simp add: dom_update [unfolded dom_map_of_conv_image_fst, symmetric] AList.dom_update)

lemma state_keys_put: "state_keys_ok t \<Longrightarrow> k \<noteq> [] \<Longrightarrow> state_keys_ok (put_state k st t)"
  by (simp add: state_keys_ok_def fst_set_mput)

lemma paired_open_incident:
  assumes p: "paired t tr" and f: "fresh_ids env t tr" and k: "mget (tk_incidents t) key = None" "key \<noteq> []"
    and o: "open_incident env key rule s at fails msg t = (out, t')"
  shows "paired t' (tr @ out)" and "fresh_ids env t' (tr @ out)" and "tk_states t' = tk_states t"
    and "mget (tk_incidents t') key \<noteq> None"
proof -
  obtain inc where t': "t' = put_incident key inc t" and inc: "ic_key inc = key" "ic_id inc = te_newID env key"
    and out: "\<And>i. legs i out = (if i = ic_id inc \<and> ic_notified inc then [KindOpened] else [])"
    using o by (auto simp: open_incident_def Let_def split: if_splits)
  have new: "te_newID env key \<noteq> []" "te_newID env key \<notin> incident_ids t" "legs (te_newID env key) tr = []"
    using f k by (simp_all add: fresh_ids_def)
  show "paired t' (tr @ out)"
    unfolding t' by (rule paired_open [OF p k(1) inc(1) k(2) _ _ _ out]) (simp_all add: inc new)
  have ids: "incident_ids t' = insert (ic_id inc) (incident_ids t)"
    by (auto simp: incident_ids_def t' mput_new [OF k(1)])
  have "te_newID env k' \<noteq> te_newID env key" if "k' \<noteq> key" for k'
    using f that by (auto simp: fresh_ids_def inj_def)
  then show "fresh_ids env t' (tr @ out)"
    using f out inc unfolding fresh_ids_def ids by (auto simp: t')
  show "tk_states t' = tk_states t" "mget (tk_incidents t') key \<noteq> None" by (simp_all add: t')
qed

lemma keep_open_spec:
  assumes "keep_open env rule at msg fails inc = (out, inc', changed)"
  shows "ic_key inc' = ic_key inc" and "ic_id inc' = ic_id inc" and "ic_notified inc' = ic_notified inc"
    and "\<exists>n. (\<forall>i. legs i out = (if i = ic_id inc then replicate n KindRepeat else [])) \<and> (n \<noteq> 0 \<longrightarrow> ic_notified inc)"
proof -
  have cases: "out = [] \<or> (ic_notified inc \<and> (\<exists>i. out = [sending (tracker_event env i KindRepeat ReasonHealthy msg at)] \<and> ic_id i = ic_id inc))"
    and same: "ic_key inc' = ic_key inc \<and> ic_id inc' = ic_id inc \<and> ic_notified inc' = ic_notified inc"
    using assms by (auto simp: keep_open_def Let_def split: if_splits)
  from same show "ic_key inc' = ic_key inc" "ic_id inc' = ic_id inc" "ic_notified inc' = ic_notified inc" by simp_all
  from cases show "\<exists>n. (\<forall>i. legs i out = (if i = ic_id inc then replicate n KindRepeat else [])) \<and> (n \<noteq> 0 \<longrightarrow> ic_notified inc)"
  proof (elim disjE conjE exE)
    assume "out = []"
    then show ?thesis by (intro exI [of _ 0]) simp
  next
    fix i
    assume "ic_notified inc" "out = [sending (tracker_event env i KindRepeat ReasonHealthy msg at)]" "ic_id i = ic_id inc"
    then show ?thesis by (intro exI [of _ 1]) auto
  qed
qed

lemma paired_Observe:
  assumes p: "paired t tr" and f: "fresh_ids env t tr" and o: "Observe env rule ok at msg t = (out, t')"
    and keys: "state_keys_ok t"
  shows "paired t' (tr @ out) \<and> state_keys_ok t'"
proof -
  let ?r = "normalize_rule rule" and ?k = "rule_key rule"
  have ps: "paired (put_state k st t) tr" "fresh_ids env (put_state k st t) tr" for k st
    using p f paired_cong [of "put_state k st t" t] by (simp_all add: fresh_ids_def incident_ids_def)
  have pc: "paired (persist_if env b x) y = paired x y" "paired (persistLocked env x) y = paired x y" for b x y
    by (rule paired_cong; simp)+
  note sk = state_keys_put [OF keys rule_key_nonempty, of rule]
  show ?thesis
  proof (cases ok)
    case False
    let ?st = "note_failure ?r msg at (get_state ?k t)"
    show ?thesis
    proof (cases "mget (tk_incidents t) ?k")
      case (Some inc)
      obtain o1 inc' ch where ko: "keep_open env ?r at msg (rs_fails ?st) inc = (o1, inc', ch)"
        using prod_cases3 by blast
      with False Some o have r: "out = o1" "t' = persist_if env ch (put_incident ?k inc' (put_state ?k ?st t))"
        by (simp_all add: Observe_def Let_def)
      from keep_open_spec(4) [OF ko] obtain n where n: "\<And>i. legs i o1 = (if i = ic_id inc then replicate n KindRepeat else [])"
        "n \<noteq> 0 \<Longrightarrow> ic_notified inc" by blast
      have "paired (put_incident ?k inc' (put_state ?k ?st t)) (tr @ o1)"
        by (rule paired_update [OF ps(1) _ keep_open_spec(1-3) [OF ko] n]) (simp add: Some)
      then show ?thesis using sk by (simp add: r pc)
    next
      case None
      consider "rs_fails ?st < po_failAfter (ru_policy ?r)"
        | "po_failAfter (ru_policy ?r) \<le> rs_fails ?st" "holdFor env ?r at \<noteq> []"
        | "po_failAfter (ru_policy ?r) \<le> rs_fails ?st" "holdFor env ?r at = []" by linarith
      then show ?thesis
      proof cases
        case 1
        with False None o have "out = []" "t' = put_state ?k ?st t" by (simp_all add: Observe_def Let_def)
        with ps sk show ?thesis by simp
      next
        case 2
        obtain o1 st2 where h: "hold_open env ?k ?r (holdFor env ?r at) at msg ?st = (o1, st2)" by fastforce
        with False None o 2 have r: "out = o1" "t' = put_state ?k st2 t" by (simp_all add: Observe_def Let_def)
        have "legs i o1 = []" for i
          using h 2 by (auto simp: hold_open_def Let_def split: option.splits)
        with paired_quiet [OF ps(1), of o1] r sk show ?thesis by simp
      next
        case 3
        let ?t = "put_state ?k (?st\<lparr>rs_held := None\<rparr>) t"
        obtain o1 t1 where oi: "open_incident env ?k ?r (rs_firstFailAt ?st) at (rs_fails ?st) msg ?t = (o1, t1)"
          by fastforce
        with False None o 3 have r: "out = o1" "t' = persistLocked env t1" by (simp_all add: Observe_def Let_def)
        have none: "mget (tk_incidents ?t) ?k = None" using None by simp
        note oi' = paired_open_incident [OF ps none rule_key_nonempty oi]
        have "state_keys_ok t1" using sk oi'(3) by (simp add: state_keys_ok_def)
        with oi'(1) show ?thesis by (simp add: r pc)
      qed
    qed
  next
    case True
    let ?st = "note_success ?r msg (get_state ?k t)"
    show ?thesis
    proof (cases "\<exists>inc. mget (tk_incidents t) ?k = Some inc \<and> po_recoverAfter (ru_policy ?r) \<le> rs_oks ?st")
      case False
      with True o have "out = []" "t' = put_state ?k ?st t"
        by (auto simp: Observe_def Let_def split: option.splits if_splits)
      with ps sk show ?thesis by simp
    next
      case True': True
      then obtain inc where inc: "mget (tk_incidents t) ?k = Some inc" "po_recoverAfter (ru_policy ?r) \<le> rs_oks ?st"
        by blast
      let ?out = "if ic_notified inc then [sending (tracker_event env (describe ?r inc) KindRecovered ReasonHealthy
          (if msg = [] then ''recovered'' else msg) at)] else []"
      have r: "out = ?out" "t' = persistLocked env (del_incident ?k (put_state ?k ?st t))"
        using True inc o by (simp_all add: Observe_def Let_def)
      have "paired (del_incident ?k (put_state ?k ?st t)) (tr @ ?out)"
        by (rule paired_close [OF ps(1)]) (auto simp: inc)
      then show ?thesis using sk by (simp add: r pc)
    qed
  qed
qed

text \<open>The loops: each round keeps the pairing of what was sent before and in the loop.\<close>

lemma paired_release_one:
  assumes "paired t (tr @ out)" and "fresh_ids env t (tr @ out)" and "state_keys_ok t"
    and r: "release_one env key (out, n, t) = (out', n', t')"
  shows "paired t' (tr @ out') \<and> fresh_ids env t' (tr @ out') \<and> state_keys_ok t'"
proof (cases "mget (tk_states t) key")
  case None
  with assms show ?thesis by (simp add: release_one_def)
next
  case (Some st)
  let ?t = "put_state key (st\<lparr>rs_held := None\<rparr>) t"
  show ?thesis
  proof (cases "rs_held st = None \<or> mget (tk_incidents t) key \<noteq> None \<or>
      rs_fails st < po_failAfter (normalized (ru_policy (rs_rule st))) \<or> holdFor env (rs_rule st) (te_now env) \<noteq> []")
    case True
    with Some assms show ?thesis by (auto simp: release_one_def split: if_splits)
  next
    case False
    obtain o1 t1 where oi: "open_incident env key (rs_rule st) (rs_firstFailAt st) (te_now env) (rs_fails st)
        (rs_lastMessage st) ?t = (o1, t1)" by fastforce
    with False Some r have e: "out' = out @ o1" "t' = t1" by (auto simp: release_one_def)
    have key: "key \<noteq> []" using assms(3) Some by (auto simp: state_keys_ok_def mget_fst_iff)
    have pt: "paired ?t (tr @ out)" by (subst paired_cong [of ?t t]) (simp_all add: assms)
    have ft: "fresh_ids env ?t (tr @ out)" using assms(2) by (simp add: fresh_ids_def incident_ids_def)
    have none: "mget (tk_incidents ?t) key = None" using False by simp
    note res = paired_open_incident [OF pt ft none key oi]
    have "state_keys_ok t1" using res(3) state_keys_put [OF assms(3) key] by (simp add: state_keys_ok_def)
    with res(1,2) show ?thesis by (simp add: e)
  qed
qed

lemma paired_release:
  "paired t (tr @ out) \<Longrightarrow> fresh_ids env t (tr @ out) \<Longrightarrow> state_keys_ok t \<Longrightarrow>
   fold (release_one env) ks (out, n, t) = (out', n', t') \<Longrightarrow> paired t' (tr @ out') \<and> state_keys_ok t'"
proof (induction ks arbitrary: out n t)
  case (Cons k ks)
  obtain o1 n1 t1 where r: "release_one env k (out, n, t) = (o1, n1, t1)" using prod_cases3 by blast
  have "fold (release_one env) ks (o1, n1, t1) = (out', n', t')" using Cons.prems(4) r by simp
  with paired_release_one [OF Cons.prems(1-3) r] Cons.IH [of t1 o1 n1] show ?case by blast
qed simp

lemma paired_close_one:
  assumes "paired t (tr @ out)" and "state_keys_ok t"
    and r: "close_one env pred fs reason msg key (out, n, t) = (out', n', t')"
  shows "paired t' (tr @ out') \<and> state_keys_ok t'"
proof (cases "\<exists>inc. mget (tk_incidents t) key = Some inc \<and> pred inc")
  case False
  with assms show ?thesis by (auto simp: close_one_def split: option.splits)
next
  case True
  then obtain inc where inc: "mget (tk_incidents t) key = Some inc" "pred inc" by blast
  let ?o = "if ic_notified inc then [sending (tracker_event env inc KindRecovered reason msg (te_now env))] else []"
  have e: "out' = out @ ?o" "tk_incidents t' = tk_incidents (del_incident key t)"
    "state_keys_ok t'"
    using inc r assms(2)
    by (auto simp: close_one_def state_keys_ok_def set_mdel split: if_splits)
  have "paired (del_incident key t) ((tr @ out) @ ?o)"
    by (rule paired_close [OF assms(1) inc(1)]) auto
  with e paired_cong [OF e(2)] show ?thesis by simp
qed

lemma paired_close_loop:
  "paired t (tr @ out) \<Longrightarrow> state_keys_ok t \<Longrightarrow>
   fold (close_one env pred fs reason msg) ks (out, n, t) = (out', n', t') \<Longrightarrow> paired t' (tr @ out') \<and> state_keys_ok t'"
proof (induction ks arbitrary: out n t)
  case (Cons k ks)
  obtain o1 n1 t1 where r: "close_one env pred fs reason msg k (out, n, t) = (o1, n1, t1)" using prod_cases3 by blast
  have "fold (close_one env pred fs reason msg) ks (o1, n1, t1) = (out', n', t')" using Cons.prems(3) r by simp
  with paired_close_one [OF Cons.prems(1,2) r] Cons.IH [of t1 o1 n1] show ?case by blast
qed simp

lemma legs_announce:
  assumes "distinct (map ic_id pending)" and "i \<noteq> []"
  shows "legs i (announce_out env line wording pending) = (if i \<in> ic_id ` set pending then [KindOpened] else [])"
proof -
  have single: "legs i (map (\<lambda>inc. sending ((tracker_event env inc KindOpened ReasonHealthy (ic_message inc) (te_now env))
      \<lparr>ae_audience := AudienceMachine\<rparr>)) xs) = (if i \<in> ic_id ` set xs then [KindOpened] else [])"
    if "distinct (map ic_id xs)" for xs
    using that by (induction xs) auto
  have summary: "legs i [sending (summary_event env line wording pending)] = []"
    using assms(2) by (simp add: summary_event_def)
  show ?thesis
  proof (cases pending rule: list.exhaust)
    case Nil
    then show ?thesis by (simp add: announce_out_def)
  next
    case (Cons x xs)
    then show ?thesis
      using single [OF assms(1)] summary by (cases xs) (auto simp: announce_out_def)
  qed
qed

lemma paired_announce:
  assumes p: "paired t tr" and keys: "state_keys_ok t" and a: "AnnounceWith env line wording t = (n, out, t')"
  shows "paired t' (tr @ out) \<and> state_keys_ok t'"
proof (cases "te_channels env")
  case False
  with assms show ?thesis by (simp add: AnnounceWith_def)
next
  case True
  let ?m = "tk_incidents t"
  define mark where "mark = (\<lambda>inc :: incident. if ic_notified inc then inc
    else inc\<lparr>ic_notified := True, ic_lastNotifiedAt := te_now env\<rparr>)"
  have mark: "ic_key (mark inc) = ic_key inc" "ic_id (mark inc) = ic_id inc" "ic_notified (mark inc)" for inc :: incident
    by (simp_all add: mark_def)
  define pending where "pending = sort_key ic_startedAt (filter (\<lambda>inc. \<not> ic_notified inc) (map snd ?m))"
  have out: "out = announce_out env line wording pending"
    and inc': "tk_incidents t' = map (\<lambda>(k, inc). (k, mark inc)) ?m" and st: "tk_states t' = tk_states t"
    using a True by (auto simp: AnnounceWith_def pending_def mark_def Let_def)
  have dist: "distinct (map (ic_id \<circ> snd) ?m)" using p by (simp add: paired_def)
  have "distinct (map ic_id pending)"
  proof -
    have "distinct (map ic_id (map snd ?m))" using dist by simp
    then have "distinct (map ic_id (filter (\<lambda>inc. \<not> ic_notified inc) (map snd ?m)))"
      by (rule distinct_map_filter)
    then show ?thesis by (simp add: pending_def distinct_map)
  qed
  note L = legs_announce [OF this, of _ env line wording, folded out]
  have pend: "ic_id ` set pending = {ic_id inc |k inc. (k, inc) \<in> set ?m \<and> \<not> ic_notified inc}"
    by (force simp: pending_def)
  have uniq: "inc = inc2" if "(k, inc) \<in> set ?m" "(k2, inc2) \<in> set ?m" "ic_id inc = ic_id inc2" for k k2 inc inc2
    using dist that unfolding distinct_map inj_on_def by fastforce
  have mem: "\<And>k inc. (k, inc) \<in> set ?m \<Longrightarrow> ic_key inc = k \<and> k \<noteq> [] \<and> ic_id inc \<noteq> [] \<and> legs_ok inc tr"
    using p by (auto simp: paired_def)
  have ids: "incident_ids t' = incident_ids t"
    by (force simp: incident_ids_def inc' image_iff mark)
  have mark_ok: "legs_ok (mark inc) (tr @ out)" if "(k, inc) \<in> set ?m" for k inc
  proof (cases "ic_notified inc")
    case True
    have "ic_id inc \<notin> ic_id ` set pending" using uniq [OF that] True unfolding pend by blast
    with L [of "ic_id inc"] mem [OF that] True show ?thesis by (simp add: legs_ok_def mark)
  next
    case False
    then have "ic_id inc \<in> ic_id ` set pending" using that unfolding pend by blast
    with L [of "ic_id inc"] mem [OF that] False open_legs_intros(1) show ?thesis by (simp add: legs_ok_def mark)
  qed
  have gone: "over_legs (legs i (tr @ out))" if "i \<noteq> []" "i \<notin> incident_ids t" for i
  proof -
    have "i \<notin> ic_id ` set pending" using that(2) unfolding pend incident_ids_def by force
    with L [OF that(1)] pairedD(3) [OF p that] show ?thesis by simp
  qed
  have "paired t' (tr @ out)"
    unfolding paired_def ids
  proof (intro conjI)
    show "distinct (map fst (tk_incidents t'))"
      using p by (simp add: paired_def inc' comp_def case_prod_unfold)
    have "map (ic_id \<circ> snd) (tk_incidents t') = map (ic_id \<circ> snd) ?m" by (auto simp: inc' mark)
    with dist show "distinct (map (ic_id \<circ> snd) (tk_incidents t'))" by simp
    show "\<forall>(k, inc)\<in>set (tk_incidents t'). ic_key inc = k \<and> k \<noteq> [] \<and> ic_id inc \<noteq> [] \<and> legs_ok inc (tr @ out)"
      using mem mark_ok by (auto simp: inc' mark)
    show "\<forall>i. i \<noteq> [] \<longrightarrow> i \<notin> incident_ids t \<longrightarrow> over_legs (legs i (tr @ out))" using gone by blast
  qed
  then show ?thesis using keys st by (simp add: state_keys_ok_def)
qed

section \<open>The file and restarts\<close>

definition marks :: "incident list \<Rightarrow> (string \<times> string \<times> bool) set" where
  "marks incs = (\<lambda>inc. (ic_key inc, ic_id inc, ic_notified inc)) ` set incs"

definition synced :: "tracker \<Rightarrow> bool" where
  "synced t \<longleftrightarrow>
     (case tk_file t of None \<Rightarrow> tk_incidents t = []
      | Some fs \<Rightarrow> distinct (map ic_key fs) \<and> marks fs = marks (map snd (tk_incidents t)))"

definition durable_env :: "tracker_env \<Rightarrow> bool" where
  "durable_env env \<longleftrightarrow> te_dir env \<and> te_saved env"

lemma paired_keys: "paired t tr \<Longrightarrow> map (ic_key \<circ> snd) (tk_incidents t) = map fst (tk_incidents t)"
  by (auto simp: paired_def)

lemma synced_persist:
  assumes "paired t tr" and "durable_env env"
  shows "synced (persistLocked env t)"
proof -
  have "distinct (map (ic_key \<circ> snd) (tk_incidents t))"
    unfolding paired_keys [OF assms(1)] using assms(1) by (simp only: paired_def)
  then have "distinct (map ic_key (map snd (tk_incidents t)))" by (simp only: map_map)
  then have "distinct (map ic_key (sort_key ic_key (map snd (tk_incidents t))))"
    by (simp add: distinct_map del: map_map)
  then show ?thesis
    using assms(2) by (simp add: synced_def persistLocked_def durable_env_def marks_def)
qed

lemma synced_same:
  "synced t \<Longrightarrow> tk_file t' = tk_file t \<Longrightarrow> marks (map snd (tk_incidents t')) = marks (map snd (tk_incidents t)) \<Longrightarrow>
   synced t'"
  by (auto simp: synced_def marks_def split: option.splits)

lemma synced_persist_if:
  assumes "paired t tr" and "durable_env env" and "\<not> b \<Longrightarrow> synced t"
  shows "synced (persist_if env b t)"
  using assms synced_persist [OF assms(1,2)] by (simp add: persist_if_def)

lemma marks_mput_same:
  assumes "gomap_ok m" and "mget m k = Some inc"
    and "ic_key inc' = ic_key inc" "ic_id inc' = ic_id inc" "ic_notified inc' = ic_notified inc"
  shows "marks (map snd (mput k inc' m)) = marks (map snd m)"
proof -
  let ?f = "\<lambda>inc. (ic_key inc, ic_id inc, ic_notified inc)"
  have "map (?f \<circ> snd) (mput k inc' m) = map (?f \<circ> snd) m"
    by (rule map_snd_mput_same [OF assms(1,2)]) (simp only: assms(3-5))
  then have "map ?f (map snd (mput k inc' m)) = map ?f (map snd m)" by (simp only: map_map)
  then have "set (map ?f (map snd (mput k inc' m))) = set (map ?f (map snd m))" by (rule arg_cong)
  then show ?thesis by (simp only: marks_def set_map)
qed

lemma fold_load:
  "distinct (map ic_key fs) \<Longrightarrow> [] \<notin> ic_key ` set fs \<Longrightarrow> fst ` set m \<inter> ic_key ` set fs = {} \<Longrightarrow>
   fold (\<lambda>inc m. if ic_key inc \<noteq> [] then mput (ic_key inc) inc m else m) fs m = m @ map (\<lambda>inc. (ic_key inc, inc)) fs"
proof (induction fs arbitrary: m)
  case (Cons f fs)
  have "mget m (ic_key f) = None" using Cons.prems(3) mget_fst_iff [of "ic_key f" m] by auto
  then have "mput (ic_key f) f m = m @ [(ic_key f, f)]" by (rule mput_new)
  with Cons show ?case by auto
qed simp

lemma paired_restart:
  assumes p: "paired t tr" and s: "synced t"
  shows "paired (New_tracker (map_option Some (tk_file t))) tr \<and> synced (New_tracker (map_option Some (tk_file t))) \<and>
    state_keys_ok (New_tracker (map_option Some (tk_file t)))"
proof (cases "tk_file t")
  case None
  with s p show ?thesis by (simp add: New_tracker_def synced_def paired_def incident_ids_def state_keys_ok_def)
next
  case (Some fs)
  with s have fs: "distinct (map ic_key fs)" "marks fs = marks (map snd (tk_incidents t))" by (simp_all add: synced_def)
  have same: "\<exists>k inc'. (k, inc') \<in> set (tk_incidents t) \<and> ic_key inc' = ic_key inc \<and> ic_id inc' = ic_id inc \<and>
      ic_notified inc' = ic_notified inc" if "inc \<in> set fs" for inc
  proof -
    have "(ic_key inc, ic_id inc, ic_notified inc) \<in> marks (map snd (tk_incidents t))"
      using that fs(2) [symmetric] by (simp add: marks_def)
    then show ?thesis by (force simp: marks_def)
  qed
  have ok: "ic_key inc \<noteq> [] \<and> ic_id inc \<noteq> [] \<and> legs_ok inc tr" if "inc \<in> set fs" for inc
    using same [OF that] p by (auto simp: paired_def legs_ok_def)
  have "[] \<notin> ic_key ` set fs" using ok by (metis imageE)
  then have inc': "tk_incidents (New_tracker (Some (Some fs))) = map (\<lambda>inc. (ic_key inc, inc)) fs"
    using fold_load [OF fs(1), of "[]"] by (simp add: New_tracker_def)
  have inj: "inc = inc2" if "inc \<in> set fs" "inc2 \<in> set fs" "ic_id inc = ic_id inc2" for inc inc2
  proof -
    from same [OF that(1)] obtain k x where x: "(k, x) \<in> set (tk_incidents t)" "ic_key x = ic_key inc" "ic_id x = ic_id inc" by blast
    from same [OF that(2)] obtain k2 y where y: "(k2, y) \<in> set (tk_incidents t)" "ic_key y = ic_key inc2" "ic_id y = ic_id inc2" by blast
    have "distinct (map (ic_id \<circ> snd) (tk_incidents t))" using p by (simp add: paired_def)
    then have "x = y" using x y that(3) unfolding distinct_map inj_on_def by fastforce
    with x y have "ic_key inc = ic_key inc2" by simp
    with fs(1) that(1,2) show ?thesis by (auto simp: distinct_map inj_on_def)
  qed
  have "distinct (map ic_id fs)" using fs(1) inj by (auto simp: distinct_map inj_on_def)
  moreover have "incident_ids (New_tracker (Some (Some fs))) = incident_ids t"
  proof -
    have "ic_id ` set xs = (\<lambda>b. fst (snd b)) ` marks xs" for xs
      by (simp add: marks_def image_image)
    from this [of fs] this [of "map snd (tk_incidents t)"] fs(2) show ?thesis
      by (simp add: incident_ids_def inc' image_image)
  qed
  moreover have C: "fst \<circ> (\<lambda>inc. (ic_key inc, inc)) = ic_key" and C2: "(ic_id \<circ> snd) \<circ> (\<lambda>inc. (ic_key inc, inc)) = ic_id"
    by (simp_all add: fun_eq_iff)
  moreover have "\<forall>i. i \<noteq> [] \<longrightarrow> i \<notin> incident_ids t \<longrightarrow> over_legs (legs i tr)" using pairedD(3) [OF p] by blast
  ultimately have "paired (New_tracker (Some (Some fs))) tr"
    unfolding paired_def inc' map_map C C2 using fs(1) ok by simp
  moreover have "synced (New_tracker (Some (Some fs)))"
    using fs(1) inc' by (simp add: synced_def marks_def New_tracker_def comp_def)
  moreover have "state_keys_ok (New_tracker (Some (Some fs)))" by (simp add: New_tracker_def state_keys_ok_def)
  ultimately show ?thesis by (simp add: Some)
qed


section \<open>Reachable trackers\<close>

lemma put_file [simp]:
  "tk_file (put_state k st t) = tk_file t" "tk_file (put_incident k inc t) = tk_file t"
  "tk_file (del_incident k t) = tk_file t"
  by (simp_all add: put_state_def put_incident_def del_incident_def)

lemma paired_persist [simp]:
  "paired (persist_if env b t) tr = paired t tr" "paired (persistLocked env t) tr = paired t tr"
  by (rule paired_cong; simp)+

lemma synced_quiet: "synced t \<Longrightarrow> tk_file t' = tk_file t \<Longrightarrow> tk_incidents t' = tk_incidents t \<Longrightarrow> synced t'"
  by (simp add: synced_def cong: option.case_cong)

lemma synced_Observe:
  assumes o: "Observe env rule ok at msg t = (out, t')" and p: "paired t tr" "paired t' tr'"
    and d: "durable_env env" and s: "synced t"
  shows "synced t'"
proof -
  let ?r = "normalize_rule rule" and ?k = "rule_key rule"
  have "(\<exists>x. t' = persistLocked env x) \<or> (tk_file t' = tk_file t \<and> marks (map snd (tk_incidents t')) = marks (map snd (tk_incidents t)))"
  proof (cases "ok \<or> mget (tk_incidents t) ?k = None")
    case True
    with o show ?thesis
      by (auto simp: Observe_def Let_def split: option.splits if_splits prod.splits)
  next
    case False
    then obtain inc where inc: "mget (tk_incidents t) ?k = Some inc" "\<not> ok" by auto
    let ?st = "note_failure ?r msg at (get_state ?k t)"
    obtain o1 inc' ch where ko: "keep_open env ?r at msg (rs_fails ?st) inc = (o1, inc', ch)"
      using prod_cases3 by blast
    with inc o have "t' = persist_if env ch (put_incident ?k inc' (put_state ?k ?st t))"
      by (simp add: Observe_def Let_def)
    with marks_mput_same [OF pairedD(1) [OF p(1)] inc(1) keep_open_spec(1-3) [OF ko]] show ?thesis
      by (cases ch) (auto simp: persist_if_def)
  qed
  then show ?thesis using synced_persist [OF _ d] p(2) synced_same [OF s] by fastforce
qed

lemma release_loop_count:
  "fold (release_one env) ks (out, n, t) = (out', n', t') \<Longrightarrow> n \<le> n' \<and> (n' = n \<longrightarrow> t' = t \<and> out' = out)"
proof (induction ks arbitrary: out n t)
  case (Cons k ks)
  obtain o1 n1 t1 where r: "release_one env k (out, n, t) = (o1, n1, t1)" using prod_cases3 by blast
  have "n \<le> n1 \<and> (n1 = n \<longrightarrow> t1 = t \<and> o1 = out)"
    using r by (auto simp: release_one_def split: option.splits if_splits prod.splits)
  moreover have "fold (release_one env) ks (o1, n1, t1) = (out', n', t')" using Cons.prems r by simp
  ultimately show ?case using Cons.IH [of o1 n1 t1] by fastforce
qed simp

lemma close_loop_count:
  "fold (close_one env pred fs reason msg) ks (out, n, t) = (out', n', t') \<Longrightarrow> n \<le> n' \<and> (n' = n \<longrightarrow> t' = t \<and> out' = out)"
proof (induction ks arbitrary: out n t)
  case (Cons k ks)
  obtain o1 n1 t1 where r: "close_one env pred fs reason msg k (out, n, t) = (o1, n1, t1)" using prod_cases3 by blast
  have "n \<le> n1 \<and> (n1 = n \<longrightarrow> t1 = t \<and> o1 = out)"
    using r by (auto simp: close_one_def split: option.splits if_splits prod.splits)
  moreover have "fold (close_one env pred fs reason msg) ks (o1, n1, t1) = (out', n', t')" using Cons.prems r by simp
  ultimately show ?case using Cons.IH [of o1 n1 t1] by fastforce
qed simp

lemma synced_announce:
  assumes a: "AnnounceWith env line wording t = (n, out, t')" and p: "paired t' tr'"
    and d: "durable_env env" and s: "synced t"
  shows "synced t'"
proof (cases "te_channels env \<and> filter (\<lambda>inc. \<not> ic_notified inc) (map snd (tk_incidents t)) \<noteq> []")
  case True
  moreover have "sort_key ic_startedAt (filter (\<lambda>inc. \<not> ic_notified inc) (map snd (tk_incidents t))) \<noteq> []"
    using True by (metis set_empty set_sort)
  ultimately have "\<exists>x. t' = persistLocked env x" using a by (auto simp: AnnounceWith_def Let_def persist_if_def)
  with p d synced_persist show ?thesis by fastforce
next
  case False
  have id: "map (\<lambda>(k, inc). (k, if ic_notified inc then inc else f inc)) m = m"
    if "filter (\<lambda>inc. \<not> ic_notified inc) (map snd m) = []" for m :: "(string, incident) gomap" and f
    using that by (induction m) (auto split: if_splits)
  have "tk_incidents t' = tk_incidents t \<and> tk_file t' = tk_file t"
  proof (cases "te_channels env")
    case True
    with False have e: "filter (\<lambda>inc. \<not> ic_notified inc) (map snd (tk_incidents t)) = []" by simp
    with True a id [OF e] show ?thesis by (auto simp: AnnounceWith_def Let_def persist_if_def)
  qed (use a in \<open>simp add: AnnounceWith_def\<close>)
  with s show ?thesis by (metis synced_quiet)
qed

definition tracker_inv :: "tracker \<Rightarrow> outgoing list \<Rightarrow> bool" where
  "tracker_inv t tr \<longleftrightarrow> paired t tr \<and> synced t \<and> state_keys_ok t"

lemma tracker_inv_adopted:
  assumes i: "tracker_inv t tr" and f: "fresh_ids env t tr" and d: "durable_env env"
    and k: "mget (tk_incidents t) key = None" "key \<noteq> []"
  shows "tracker_inv (persistLocked env (put_incident key (new_incident env key r s a n m) t)) tr"
proof -
  have "paired (put_incident key (new_incident env key r s a n m) t) (tr @ [])"
    by (rule paired_open) (use i f k in \<open>auto simp: tracker_inv_def fresh_ids_def\<close>)
  then have p: "paired (put_incident key (new_incident env key r s a n m) t) tr" by simp
  then show ?thesis using i synced_persist [OF p d] by (simp add: tracker_inv_def)
qed

lemma tracker_inv_put_state:
  "tracker_inv t tr \<Longrightarrow> k \<noteq> [] \<Longrightarrow> tracker_inv (put_state k st t) tr"
  using paired_cong [of "put_state k st t" t tr] synced_quiet [of t "put_state k st t"]
  by (simp add: tracker_inv_def state_keys_put)

definition tracker_admissible :: "tracker_action \<Rightarrow> tracker \<Rightarrow> outgoing list \<Rightarrow> bool" where
  "tracker_admissible a t tr \<longleftrightarrow> (case env_of a of None \<Rightarrow> True | Some env \<Rightarrow> durable_env env \<and> fresh_ids env t tr)"

lemma tracker_inv_close_loop:
  assumes i: "tracker_inv t tr" and d: "durable_env env"
    and l: "fold (close_one env pred fs reason msg) ks ([], 0, t) = (out, n, t1)"
  shows "tracker_inv (persist_if env (0 < n) t1) (tr @ out)"
proof -
  have p: "paired t1 (tr @ out) \<and> state_keys_ok t1"
    by (rule paired_close_loop [OF _ _ l]) (use i in \<open>simp_all add: tracker_inv_def\<close>)
  have "synced (persist_if env (0 < n) t1)"
    by (rule synced_persist_if [OF _ d]) (use p i close_loop_count [OF l] in \<open>auto simp: tracker_inv_def\<close>)
  with p show ?thesis by (simp add: tracker_inv_def)
qed

lemma tracker_inv_release:
  assumes i: "tracker_inv t tr" and d: "durable_env env" and f: "fresh_ids env t tr"
    and l: "fold (release_one env) ks ([], 0, t) = (out, n, t1)"
  shows "tracker_inv (persist_if env (0 < n) t1) (tr @ out)"
proof -
  have p: "paired t1 (tr @ out) \<and> state_keys_ok t1"
    by (rule paired_release [OF _ _ _ l]) (use i f in \<open>simp_all add: tracker_inv_def\<close>)
  have "synced (persist_if env (0 < n) t1)"
    by (rule synced_persist_if [OF _ d]) (use p i release_loop_count [OF l] in \<open>auto simp: tracker_inv_def\<close>)
  with p show ?thesis by (simp add: tracker_inv_def)
qed

lemma tracker_inv_announce:
  assumes i: "tracker_inv t tr" and d: "durable_env env" and a: "AnnounceWith env line wording t = (n, out, t')"
  shows "tracker_inv t' (tr @ out)"
proof -
  have p: "paired t' (tr @ out) \<and> state_keys_ok t'"
    by (rule paired_announce [OF _ _ a]) (use i in \<open>simp_all add: tracker_inv_def\<close>)
  with synced_announce [OF a _ d] i show ?thesis by (auto simp: tracker_inv_def)
qed

lemma tracker_inv_retire:
  assumes i: "tracker_inv t tr" and d: "durable_env env" and r: "Retire env key msg t = (out, t')"
  shows "tracker_inv t' (tr @ out)"
proof -
  let ?t = "t\<lparr>tk_states := mdel key (tk_states t)\<rparr>"
  have t: "paired ?t tr" "state_keys_ok ?t" "synced ?t"
    using i paired_cong [of ?t t tr] synced_quiet [of t ?t]
    by (auto simp: tracker_inv_def state_keys_ok_def set_mdel)
  show ?thesis
  proof (cases "mget (tk_incidents t) key")
    case None
    with r t show ?thesis by (simp add: Retire_def tracker_inv_def)
  next
    case (Some inc)
    let ?out = "if ic_notified inc then [sending (tracker_event env inc KindRecovered ReasonRetired
        (if msg = [] then ''no longer monitored'' else msg) (te_now env))] else []"
    have e: "out = ?out" "t' = persistLocked env (del_incident key ?t)" using Some r by (auto simp: Retire_def)
    have p: "paired (del_incident key ?t) (tr @ ?out)"
      by (rule paired_close [OF t(1)]) (auto simp: Some)
    then have "paired t' (tr @ out)" by (simp add: e)
    moreover have "synced t'" using synced_persist [OF p d] by (simp add: e)
    moreover have "state_keys_ok t'" using t(2) by (simp add: e)
    ultimately show ?thesis by (simp add: tracker_inv_def)
  qed
qed


inductive tracked :: "tracker \<Rightarrow> outgoing list \<Rightarrow> bool" where
  tracked_start: "tracked (New_tracker None) []"
| tracked_step: "tracked t tr \<Longrightarrow> tracker_admissible a t tr \<Longrightarrow> track a t = (out, t') \<Longrightarrow> tracked t' (tr @ out)"

lemma tracker_inv_step:
  assumes i: "tracker_inv t tr" and ad: "tracker_admissible a t tr" and tr: "track a t = (out, t')"
  shows "tracker_inv t' (tr @ out)"
proof (cases a)
  case (TAdoptOpen env r s f msg)
  with ad tr i show ?thesis by (auto simp: tracker_admissible_def AdoptOpen_def Let_def intro!: tracker_inv_adopted)
next
  case (TAdoptFailing env r s msg)
  have "tracker_inv (put_state k st t) tr \<and> fresh_ids env (put_state k st t) tr" if "k \<noteq> []" for k st
    using i ad that TAdoptFailing by (simp add: tracker_inv_put_state tracker_admissible_def fresh_ids_def incident_ids_def)
  with ad tr i TAdoptFailing show ?thesis
    by (auto simp: tracker_admissible_def AdoptFailing_def Let_def intro!: tracker_inv_adopted)
next
  case (TObserve env r ok at msg)
  with tr ad have o: "Observe env r ok at msg t = (out, t')" and d: "durable_env env" and f: "fresh_ids env t tr"
    by (auto simp: tracker_admissible_def)
  have "paired t' (tr @ out) \<and> state_keys_ok t'"
    by (rule paired_Observe [OF _ f o]) (use i in \<open>simp_all add: tracker_inv_def\<close>)
  with synced_Observe [OF o _ _ d] i show ?thesis by (auto simp: tracker_inv_def)
next
  case (TSeed r hist)
  with tr i show ?thesis by (auto simp: Seed_def Let_def intro!: tracker_inv_put_state)
next
  case (TRelease env)
  obtain o1 n t1 where l: "fold (release_one env) (map fst (tk_states t)) ([], 0, t) = (o1, n, t1)"
    using prod_cases3 by blast
  with tr TRelease have "out = o1" "t' = persist_if env (0 < n) t1" by (auto simp: ReleaseHolds_def)
  with tracker_inv_release [OF i _ _ l] ad TRelease show ?thesis by (simp add: tracker_admissible_def)
next
  case (TRetire env k msg)
  with tr ad tracker_inv_retire [OF i] show ?thesis by (auto simp: tracker_admissible_def)
next
  case (TClose env pred reason msg)
  obtain o1 n t1 where l: "fold (close_one env pred False reason msg) (map fst (tk_incidents t)) ([], 0, t) = (o1, n, t1)"
    using prod_cases3 by blast
  with tr TClose have "out = o1" "t' = persist_if env (0 < n) t1" by (auto simp: CloseMatching_def)
  with tracker_inv_close_loop [OF i _ l] ad TClose show ?thesis by (simp add: tracker_admissible_def)
next
  case (TSweep env)
  obtain o1 n t1 where l: "fold (close_one env (resolve_due (te_now env)) True ReasonRetired
      ''closed automatically: no further attempt since the failure'') (map fst (tk_incidents t)) ([], 0, t) = (o1, n, t1)"
    using prod_cases3 by blast
  with tr TSweep have "out = o1" "t' = persist_if env (0 < n) t1" by (auto simp: Sweep_def)
  with tracker_inv_close_loop [OF i _ l] ad TSweep show ?thesis by (simp add: tracker_admissible_def)
next
  case (TAnnounce env line wording)
  with tr ad tracker_inv_announce [OF i, of env line wording] show ?thesis
    by (cases "AnnounceWith env line wording t") (auto simp: tracker_admissible_def)
next
  case (TEndAdoption env line)
  let ?t = "t\<lparr>tk_adopting := False\<rparr>"
  have p: "paired ?t tr" "state_keys_ok ?t"
    using i paired_cong [of ?t t tr] by (auto simp: tracker_inv_def state_keys_ok_def)
  have d: "durable_env env" using ad TEndAdoption by (simp add: tracker_admissible_def)
  have "tracker_inv (persistLocked env ?t) tr"
    using p synced_persist [OF p(1) d] by (simp add: tracker_inv_def)
  from tracker_inv_announce [OF this d] tr TEndAdoption show ?thesis
    by (cases "AnnounceUnannounced env line (persistLocked env ?t)")
      (auto simp: EndAdoption_def AnnounceUnannounced_def)
next
  case TRestart
  with tr i paired_restart [of t tr] show ?thesis by (auto simp: tracker_inv_def)
qed

lemma tracked_inv: "tracked t tr \<Longrightarrow> tracker_inv t tr"
proof (induction rule: tracked.induct)
  case tracked_start
  then show ?case
    by (simp add: tracker_inv_def New_tracker_def paired_def incident_ids_def synced_def state_keys_ok_def open_legs_intros)
qed (rule tracker_inv_step)

text \<open>
  C35. Through any sequence of tracker operations, with restarts between them, as long as every write of
  \<open>incidents.json\<close> succeeds and the identifiers of new incidents are fresh (\<open>tracked\<close>), each incident is
  announced as one open, then any number of repeats, then at most one recovery: nothing else is sent
  for it, no recovery without an open, nothing after the recovery. An incident that is open and announced
  has exactly its open and its repeats on record, one that is gone is closed for the receivers.
  Without the writes it is false: a restart after a failed one brings a closed incident back.
\<close>
theorem incident_alerts_are_paired:
  assumes "tracked t tr" and "i \<noteq> []"
  shows "if \<exists>inc\<in>set (Open t). ic_id inc = i \<and> ic_notified inc then open_legs (legs i tr) else over_legs (legs i tr)"
proof (cases "i \<in> incident_ids t")
  case True
  then obtain k inc where inc: "(k, inc) \<in> set (tk_incidents t)" "ic_id inc = i" by (auto simp: incident_ids_def)
  have p: "paired t tr" using tracked_inv [OF assms(1)] by (simp add: tracker_inv_def)
  then have l: "legs_ok inc tr" using inc by (auto simp: paired_def)
  have uniq: "inc2 = inc" if "inc2 \<in> set (Open t)" "ic_id inc2 = i" for inc2
  proof -
    from that obtain k2 where k2: "(k2, inc2) \<in> set (tk_incidents t)" by (auto simp: Open_def)
    have "inj_on (ic_id \<circ> snd) (set (tk_incidents t))" using p by (simp add: paired_def distinct_map)
    from inj_onD [OF this _ k2 inc(1)] inc that show ?thesis by simp
  qed
  have "inc \<in> set (Open t)" using inc by (force simp: Open_def)
  with uniq inc have "(\<exists>x\<in>set (Open t). ic_id x = i \<and> ic_notified x) = ic_notified inc" by blast
  with l inc show ?thesis by (auto simp: legs_ok_def over_legs_def)
next
  case False
  then have "\<not> (\<exists>inc\<in>set (Open t). ic_id inc = i)" by (force simp: Open_def incident_ids_def)
  with pairedD(3) [OF _ assms(2) False, of tr] tracked_inv [OF assms(1)] show ?thesis
    by (auto simp: tracker_inv_def)
qed

definition demo_env :: "string \<Rightarrow> time \<Rightarrow> tracker_env" where
  "demo_env pre now = \<lparr>te_now = now, te_channels = True, te_silenced = (\<lambda>_ _. None), te_hold = (\<lambda>_ _. None),
     te_publicURL = None, te_newID = (\<lambda>k. pre @ k), te_dir = True, te_saved = True\<rparr>"

definition demo_rule :: rule where
  "demo_rule = zero_rule\<lparr>ru_source := SourceMonitor, ru_source_text := ''monitor'', ru_id := ''web'',
     ru_name := ''web'', ru_policy := \<lparr>po_failAfter = 2, po_recoverAfter = 1, po_repeatEvery = 60,
       po_autoResolveAfter = 0\<rparr>\<rparr>"

text \<open>A monitor that fails three times, with the dashboard restarted before it recovers.\<close>

definition demo_script :: "tracker_action list" where
  "demo_script = [TEndAdoption (demo_env ''i1-'' 5) (\<lambda>_. []),
     TObserve (demo_env ''i2-'' 10) demo_rule False 10 ''refused'',
     TObserve (demo_env ''i3-'' 20) demo_rule False 20 ''refused'',
     TObserve (demo_env ''i4-'' 90) demo_rule False 90 ''refused'',
     TRestart,
     TObserve (demo_env ''i5-'' 100) demo_rule True 100 []]"

fun run_script :: "tracker_action list \<Rightarrow> tracker \<Rightarrow> outgoing list \<Rightarrow> tracker \<times> outgoing list" where
  "run_script [] t tr = (t, tr)"
| "run_script (a # as) t tr = (case track a t of (out, t') \<Rightarrow> run_script as t' (tr @ out))"

fun admissible_script :: "tracker_action list \<Rightarrow> tracker \<Rightarrow> outgoing list \<Rightarrow> bool" where
  "admissible_script [] t tr = True"
| "admissible_script (a # as) t tr \<longleftrightarrow>
     tracker_admissible a t tr \<and> (case track a t of (out, t') \<Rightarrow> admissible_script as t' (tr @ out))"

lemma run_script_tracked:
  "tracked t tr \<Longrightarrow> admissible_script as t tr \<Longrightarrow> tracked (fst (run_script as t tr)) (snd (run_script as t tr))"
  by (induction as arbitrary: t tr) (auto split: prod.splits intro: tracked_step)


lemma demo_run:
  "legs ''i3-monitor:web'' (snd (run_script demo_script (New_tracker None) [])) = [KindOpened, KindRepeat, KindRecovered]"
  by code_simp

lemma demo_admissible: "admissible_script demo_script (New_tracker None) []"
  unfolding demo_script_def
  by (simp add: demo_env_def demo_rule_def tracker_admissible_def durable_env_def fresh_ids_def inj_def incident_ids_def
      New_tracker_def EndAdoption_def AnnounceUnannounced_def AnnounceWith_def persistLocked_def announce_out_def
      persist_if_def Observe_def Let_def normalize_rule_def normalized_def rule_key_def zero_rule_def get_state_def
      zero_state_def note_failure_def note_success_def put_state_def put_incident_def open_incident_def holdFor_def
      new_incident_def zero_incident_def describe_def keep_open_def time_sub_def)

theorem incident_alerts_are_paired_witness:
  "over_legs (legs ''i3-monitor:web'' (snd (run_script demo_script (New_tracker None) [])))"
proof -
  have "\<not> (\<exists>inc\<in>set (Open (fst (run_script demo_script (New_tracker None) []))). ic_id inc = ''i3-monitor:web'' \<and> ic_notified inc)"
    by code_simp
  with incident_alerts_are_paired [OF run_script_tracked [OF tracked_start demo_admissible], of "''i3-monitor:web''"]
  show ?thesis by simp
qed

end
