(* ===== verification/IncidentPolicy.thy ===== *)
theory IncidentPolicy
  imports IncidentTraces
begin

text \<open>
  What the policy of \<open>internal/incident/incident.go\<close> decides: when an incident opens and what it
  records, what a hold keeps back and what its end releases, what the closing loops close, and
  that seeding from a history is the same as having observed it.
\<close>

section \<open>Runs of observations of one rule\<close>

record observation =
  ob_env :: tracker_env
  ob_sample :: sample
  ob_message :: string

definition observe1 :: "rule \<Rightarrow> observation \<Rightarrow> tracker \<Rightarrow> tracker" where
  "observe1 rule ob t = snd (Observe (ob_env ob) rule (sm_ok (ob_sample ob)) (sm_at (ob_sample ob)) (ob_message ob) t)"

definition observe_run :: "rule \<Rightarrow> observation list \<Rightarrow> tracker \<Rightarrow> tracker" where
  "observe_run rule obs t = fold (observe1 rule) obs t"

definition streak_of :: "string \<Rightarrow> tracker \<Rightarrow> int \<times> int \<times> time" where
  "streak_of key t = (rs_fails (get_state key t), rs_oks (get_state key t), rs_firstFailAt (get_state key t))"

fun streak_step :: "sample \<Rightarrow> int \<times> int \<times> time \<Rightarrow> int \<times> int \<times> time" where
  "streak_step s (fails, oks, since) =
     (if sm_ok s then (0, oks + 1, 0) else (fails + 1, 0, if fails = 0 then sm_at s else since))"

lemma get_state_put [simp]: "get_state k (put_state k st t) = st"
  by (simp add: get_state_def)

lemma get_state_same: "tk_states t = tk_states t' \<Longrightarrow> get_state k t = get_state k t'"
  by (simp add: get_state_def)

lemma open_incident_states:
  "open_incident env key rule s at fails msg t = (out, t') \<Longrightarrow> tk_states t' = tk_states t"
  by (auto simp: open_incident_def Let_def split: if_splits)

lemma get_state_mput: "tk_states t' = mput k st m \<Longrightarrow> get_state k t' = st"
  by (simp add: get_state_def)

lemma hold_open_state:
  "hold_open env key rule why at msg st = (out, st') \<Longrightarrow> \<exists>h. st' = st\<lparr>rs_held := h\<rparr>"
  by (auto simp: hold_open_def Let_def split: option.splits)

lemma Observe_states:
  "\<exists>h. tk_states (snd (Observe env rule ok at msg t)) = mput (rule_key rule)
     ((if ok then note_success (normalize_rule rule) msg (get_state (rule_key rule) t)
       else note_failure (normalize_rule rule) msg at (get_state (rule_key rule) t))\<lparr>rs_held := h\<rparr>) (tk_states t)"
proof -
  let ?r = "normalize_rule rule" and ?k = "rule_key rule"
  let ?f = "note_failure ?r msg at (get_state ?k t)" and ?s = "note_success ?r msg (get_state ?k t)"
  have self: "st = st\<lparr>rs_held := rs_held st\<rparr>" for st :: rule_state by simp
  show ?thesis
  proof (cases ok)
    case True
    have "tk_states (snd (Observe env rule ok at msg t)) = mput ?k ?s (tk_states t)"
      using True by (simp add: Observe_def Let_def split: option.split)
    with True self [of ?s] show ?thesis by metis
  next
    case fail: False
    show ?thesis
    proof (cases "mget (tk_incidents t) ?k")
      case (Some inc)
      then have "tk_states (snd (Observe env rule ok at msg t)) = mput ?k ?f (tk_states t)"
        using fail by (simp add: Observe_def Let_def split: prod.split)
      with fail self [of ?f] show ?thesis by metis
    next
      case None
      obtain o1 st2 where h: "hold_open env ?k ?r (holdFor env ?r at) at msg ?f = (o1, st2)" by fastforce
      obtain o2 t1 where oi: "open_incident env ?k ?r (rs_firstFailAt ?f) at (rs_fails ?f) msg
          (put_state ?k (?f\<lparr>rs_held := None\<rparr>) t) = (o2, t1)" by fastforce
      have "tk_states (snd (Observe env rule ok at msg t)) \<in>
          {mput ?k ?f (tk_states t), mput ?k st2 (tk_states t), mput ?k (?f\<lparr>rs_held := None\<rparr>) (tk_states t)}"
        using None fail h oi open_incident_states [OF oi] by (simp add: Observe_def Let_def)
      moreover obtain hh where "st2 = ?f\<lparr>rs_held := hh\<rparr>" using hold_open_state [OF h] by blast
      ultimately have "\<exists>h. tk_states (snd (Observe env rule ok at msg t)) = mput ?k (?f\<lparr>rs_held := h\<rparr>) (tk_states t)"
        using self [of ?f] by (metis empty_iff insert_iff)
      with fail show ?thesis by simp
    qed
  qed
qed

lemma streak_observe1: "streak_of (rule_key rule) (observe1 rule ob t) = streak_step (ob_sample ob) (streak_of (rule_key rule) t)"
proof -
  from Observe_states [of "ob_env ob" rule "sm_ok (ob_sample ob)" "sm_at (ob_sample ob)" "ob_message ob" t] obtain h
    where "tk_states (observe1 rule ob t) = mput (rule_key rule)
     ((if sm_ok (ob_sample ob) then note_success (normalize_rule rule) (ob_message ob) (get_state (rule_key rule) t)
       else note_failure (normalize_rule rule) (ob_message ob) (sm_at (ob_sample ob)) (get_state (rule_key rule) t))\<lparr>rs_held := h\<rparr>)
     (tk_states t)"
    unfolding observe1_def by blast
  then have g: "get_state (rule_key rule) (observe1 rule ob t) =
     (if sm_ok (ob_sample ob) then note_success (normalize_rule rule) (ob_message ob) (get_state (rule_key rule) t)
       else note_failure (normalize_rule rule) (ob_message ob) (sm_at (ob_sample ob)) (get_state (rule_key rule) t))\<lparr>rs_held := h\<rparr>"
    by (rule get_state_mput)
  show ?thesis unfolding streak_of_def g by (simp add: note_success_def note_failure_def)
qed

lemma streak_run:
  "streak_of (rule_key rule) (observe_run rule obs t) = fold (streak_step \<circ> ob_sample) obs (streak_of (rule_key rule) t)"
  unfolding observe_run_def by (induction obs arbitrary: t) (simp_all add: streak_observe1)

text \<open>The streak of a history, newest first.\<close>

definition streak :: "sample list \<Rightarrow> int \<times> int \<times> time" where
  "streak hist = (case hist of [] \<Rightarrow> (0, 0, 0)
     | s # _ \<Rightarrow> (let run = takeWhile (\<lambda>x. sm_ok x = sm_ok s) hist
        in if sm_ok s then (0, int (length run), 0) else (int (length run), 0, sm_at (last run))))"

lemma streak_Cons: "streak (s # hist) = streak_step s (streak hist)"
proof (cases hist)
  case (Cons s' h)
  then show ?thesis by (cases "sm_ok s"; cases "sm_ok s'") (simp_all add: streak_def Let_def)
qed (simp add: streak_def)

lemma streak_replay: "fold streak_step (rev hist) (0, 0, 0) = streak hist"
proof (induction hist)
  case (Cons s hist)
  then show ?case by (simp add: streak_Cons del: streak_step.simps)
qed (simp add: streak_def)

lemma streak_Seed: "streak_of (rule_key rule) (Seed rule hist t) = streak hist"
  by (cases hist) (simp_all add: Seed_def streak_of_def streak_def Let_def)

text \<open>
  Seeding a rule from its stored history (newest observation first) leaves the same counters
  and the same start of the streak as observing that history in order, from a rule without a
  streak, under whatever holds, silences and channels the observations met.
\<close>
theorem seed_is_replay:
  assumes "streak_of (rule_key rule) t0 = (0, 0, 0)"
  shows "streak_of (rule_key rule) (Seed rule (map ob_sample obs) t) = streak_of (rule_key rule) (observe_run rule (rev obs) t0)"
proof -
  have "fold (streak_step \<circ> ob_sample) (rev obs) (0, 0, 0) = fold streak_step (rev (map ob_sample obs)) (0, 0, 0)"
    by (simp add: rev_map fold_map)
  then show ?thesis unfolding streak_run assms streak_Seed streak_replay by simp
qed

definition fail_at :: "time \<Rightarrow> observation" where
  "fail_at at = \<lparr>ob_env = demo_env ''i-'' at, ob_sample = \<lparr>sm_ok = False, sm_at = at\<rparr>, ob_message = ''refused''\<rparr>"

definition pass_at :: "time \<Rightarrow> observation" where
  "pass_at at = \<lparr>ob_env = demo_env ''i-'' at, ob_sample = \<lparr>sm_ok = True, sm_at = at\<rparr>, ob_message = []\<rparr>"

theorem seed_is_replay_witness:
  "streak_of (rule_key demo_rule) (observe_run demo_rule (rev [fail_at 40, fail_at 30, pass_at 20, fail_at 10]) (New_tracker None))
     = (2, 0, 30)"
proof -
  have z: "streak_of (rule_key demo_rule) (New_tracker None) = (0, 0, 0)"
    by (simp add: streak_of_def get_state_def New_tracker_def zero_state_def)
  show ?thesis
    unfolding seed_is_replay [OF z, of "[fail_at 40, fail_at 30, pass_at 20, fail_at 10]" "New_tracker None", symmetric]
    by (simp add: streak_Seed streak_def fail_at_def pass_at_def Let_def)
qed

section \<open>Opening at the threshold\<close>

definition failing_run :: "rule \<Rightarrow> observation list \<Rightarrow> bool" where
  "failing_run rule obs \<longleftrightarrow> list_all (\<lambda>ob. \<not> sm_ok (ob_sample ob) \<and>
     holdFor (ob_env ob) (normalize_rule rule) (sm_at (ob_sample ob)) = []) obs"

definition opened_as_due :: "rule \<Rightarrow> observation list \<Rightarrow> tracker \<Rightarrow> bool" where
  "opened_as_due rule obs t \<longleftrightarrow>
     (let due = po_failAfter (ru_policy (normalize_rule rule)); n = int (length obs)
      in case mget (tk_incidents t) (rule_key rule) of
           None \<Rightarrow> n < due
         | Some inc \<Rightarrow> due \<le> n \<and> ic_startedAt inc = sm_at (ob_sample (hd obs)) \<and>
             ic_openedAt inc = sm_at (ob_sample (obs ! (nat due - 1))) \<and> ic_failures inc = n)"

lemma normalize_due: "0 < po_failAfter (ru_policy (normalize_rule rule))"
  by (simp add: normalize_rule_def normalized_def)

lemma fails_of_failing_run:
  "failing_run rule obs \<Longrightarrow> streak_of (rule_key rule) t = (0, n, z) \<Longrightarrow>
   streak_of (rule_key rule) (observe_run rule obs t) =
     (int (length obs), if obs = [] then n else 0, if obs = [] then z else sm_at (ob_sample (hd obs)))"
proof (induction obs rule: rev_induct)
  case (snoc ob obs)
  then have "streak_of (rule_key rule) (observe_run rule obs t) =
     (int (length obs), if obs = [] then n else 0, if obs = [] then z else sm_at (ob_sample (hd obs)))"
    by (simp add: failing_run_def)
  with snoc.prems show ?case by (auto simp: observe_run_def streak_observe1 failing_run_def)
qed (simp add: observe_run_def)

lemma keep_open_fields:
  assumes "keep_open env rule at msg fails inc = (out, inc', ch)"
  shows "ic_startedAt inc' = ic_startedAt inc" "ic_openedAt inc' = ic_openedAt inc" "ic_failures inc' = fails"
  using assms by (auto simp: keep_open_def describe_def Let_def split: if_splits)

lemma open_incident_fields:
  assumes "open_incident env key rule s at fails msg t = (out, t')"
  shows "\<exists>inc. mget (tk_incidents t') key = Some inc \<and> ic_startedAt inc = s \<and> ic_openedAt inc = at \<and> ic_failures inc = fails"
  using assms by (auto simp: open_incident_def new_incident_def describe_def Let_def split: if_splits)

lemma opened_as_due_step:
  assumes o: "opened_as_due rule obs (observe_run rule obs t)" and f: "failing_run rule (obs @ [ob])"
    and z: "streak_of (rule_key rule) t = (0, n, z)"
  shows "opened_as_due rule (obs @ [ob]) (observe_run rule (obs @ [ob]) t)"
proof -
  let ?r = "normalize_rule rule" and ?k = "rule_key rule" and ?t = "observe_run rule obs t"
  let ?at = "sm_at (ob_sample ob)" and ?env = "ob_env ob" and ?msg = "ob_message ob"
  let ?st = "note_failure ?r ?msg ?at (get_state ?k ?t)" and ?due = "po_failAfter (ru_policy ?r)"
  have fo: "failing_run rule obs" and ob: "\<not> sm_ok (ob_sample ob)" "holdFor ?env ?r ?at = []"
    using f by (simp_all add: failing_run_def)
  note s = fails_of_failing_run [OF fo z]
  have fails: "rs_fails ?st = int (length obs) + 1" "rs_firstFailAt ?st = sm_at (ob_sample (hd (obs @ [ob])))"
    using s by (auto simp: note_failure_def streak_of_def hd_append)
  have run: "observe_run rule (obs @ [ob]) t = snd (Observe ?env rule False ?at ?msg ?t)"
    using ob by (simp add: observe_run_def observe1_def)
  show ?thesis
  proof (cases "mget (tk_incidents ?t) ?k")
    case (Some inc)
    obtain o1 inc' ch where ko: "keep_open ?env ?r ?at ?msg (rs_fails ?st) inc = (o1, inc', ch)"
      using prod_cases3 by blast
    with Some have "mget (tk_incidents (observe_run rule (obs @ [ob]) t)) ?k = Some inc'"
      by (simp add: run Observe_def Let_def)
    moreover have "obs \<noteq> []" "nat ?due - 1 < length obs"
      using o Some normalize_due [of rule] by (auto simp: opened_as_due_def Let_def)
    then have "hd (obs @ [ob]) = hd obs" "(obs @ [ob]) ! (nat ?due - 1) = obs ! (nat ?due - 1)"
      by (simp_all add: nth_append)
    ultimately show ?thesis using o Some keep_open_fields [OF ko] fails by (auto simp: opened_as_due_def Let_def)
  next
    case None
    then have lt: "int (length obs) < ?due" using o by (simp add: opened_as_due_def Let_def)
    show ?thesis
    proof (cases "?due \<le> int (length obs) + 1")
      case False
      with None fails ob have "mget (tk_incidents (observe_run rule (obs @ [ob]) t)) ?k = None"
        by (simp add: run Observe_def Let_def)
      with False show ?thesis by (simp add: opened_as_due_def Let_def)
    next
      case True
      obtain o1 t1 where oi: "open_incident ?env ?k ?r (rs_firstFailAt ?st) ?at (rs_fails ?st) ?msg
          (put_state ?k (?st\<lparr>rs_held := None\<rparr>) ?t) = (o1, t1)" by fastforce
      with None True fails ob have "tk_incidents (observe_run rule (obs @ [ob]) t) = tk_incidents t1"
        by (simp add: run Observe_def Let_def)
      moreover have "nat ?due - 1 = length obs" using lt True by linarith
      ultimately show ?thesis
        using open_incident_fields [OF oi] fails True by (auto simp: opened_as_due_def Let_def)
    qed
  qed
qed

text \<open>
  C36. Debouncing: in a run of failures that no hold and no silence covers, of a rule with no incident and
  a failure count of zero, the incident appears exactly with the \<open>FailAfter\<close>-th failure (one when the
  policy has no positive count). It says it started with the first failure of the run, opened with the one that reached
  the count, and counts every failure since.
\<close>
theorem opens_at_the_threshold:
  assumes "mget (tk_incidents t) (rule_key rule) = None" and "streak_of (rule_key rule) t = (0, n, z)"
    and "failing_run rule obs"
  shows "opened_as_due rule obs (observe_run rule obs t)"
  using assms(3)
proof (induction obs rule: rev_induct)
  case Nil
  show ?case using assms(1) normalize_due [of rule] by (simp add: opened_as_due_def Let_def observe_run_def)
next
  case (snoc ob obs)
  then show ?case using opened_as_due_step [OF _ _ assms(2)] by (simp add: failing_run_def)
qed

theorem opens_at_the_threshold_witness:
  "opened_as_due demo_rule [fail_at 10, fail_at 20, fail_at 30] (observe_run demo_rule [fail_at 10, fail_at 20, fail_at 30] (New_tracker None))"
proof (rule opens_at_the_threshold)
  show "mget (tk_incidents (New_tracker None)) (rule_key demo_rule) = None" by (simp add: New_tracker_def)
  show "streak_of (rule_key demo_rule) (New_tracker None) = (0, 0, 0)"
    by (simp add: streak_of_def get_state_def New_tracker_def zero_state_def)
  show "failing_run demo_rule [fail_at 10, fail_at 20, fail_at 30]"
    by (simp add: failing_run_def fail_at_def holdFor_def demo_env_def)
qed


section \<open>Holds\<close>

text \<open>
  While a hold or a silence covers a rule, an observation of it opens nothing and pages
  nobody: what it emits is a recovery, or the note of the suppressed open, which is not sent.
\<close>
theorem hold_sends_no_page:
  assumes "holdFor env (normalize_rule rule) at \<noteq> []" and "Observe env rule ok at msg t = (out, t')"
  shows "fst ` set (tk_incidents t') \<subseteq> fst ` set (tk_incidents t) \<and>
    list_all (\<lambda>og. og_note og \<noteq> [] \<or> ae_kind (og_event og) = KindRecovered) out"
proof -
  let ?r = "normalize_rule rule" and ?k = "rule_key rule"
  let ?f = "note_failure ?r msg at (get_state ?k t)"
  show ?thesis
  proof (cases "ok \<or> mget (tk_incidents t) ?k = None")
    case True
    with assms show ?thesis
      by (auto simp: Observe_def Let_def hold_open_def set_mdel split: option.splits if_splits prod.splits)
  next
    case False
    then obtain inc where inc: "mget (tk_incidents t) ?k = Some inc" "\<not> ok" by auto
    obtain o1 inc' ch where ko: "keep_open env ?r at msg (rs_fails ?f) inc = (o1, inc', ch)"
      using prod_cases3 by blast
    have "o1 = []" using ko assms(1) by (auto simp: keep_open_def Let_def split: if_splits)
    with ko inc assms(2) have "out = []" "tk_incidents t' = mput ?k inc' (tk_incidents t)"
      by (auto simp: Observe_def Let_def)
    moreover have "?k \<in> fst ` set (tk_incidents t)" using inc mget_SomeD by force
    ultimately show ?thesis by (auto simp: fst_set_mput)
  qed
qed

definition held_env :: "time \<Rightarrow> tracker_env" where
  "held_env now = (demo_env ''h-'' now)\<lparr>te_hold := (\<lambda>_ _. Some ''deploy running'')\<rparr>"

definition held_demo :: tracker where
  "held_demo = snd (Observe (held_env 20) demo_rule False 20 ''refused'' (observe_run demo_rule [fail_at 10] (New_tracker None)))"

theorem hold_sends_no_page_witness:
  "list_all (\<lambda>og. og_note og \<noteq> [] \<or> ae_kind (og_event og) = KindRecovered)
     (fst (Observe (held_env 20) demo_rule False 20 ''refused'' (observe_run demo_rule [fail_at 10] (New_tracker None))))"
proof -
  have h: "holdFor (held_env 20) (normalize_rule demo_rule) 20 \<noteq> []" by code_simp
  show ?thesis using hold_sends_no_page [OF h prod.collapse [symmetric]] by blast
qed

lemma release_one_keeps:
  assumes r: "release_one env k' (out, n, t) = (out', n', t')"
  shows "mget (tk_incidents t) k \<noteq> None \<longrightarrow> mget (tk_incidents t') k \<noteq> None"
    and "k \<noteq> k' \<longrightarrow> mget (tk_states t') k = mget (tk_states t) k"
proof -
  consider "t' = t" | st where "open_incident env k' (rs_rule st) (rs_firstFailAt st) (te_now env) (rs_fails st)
        (rs_lastMessage st) (put_state k' (st\<lparr>rs_held := None\<rparr>) t) = (drop (length out) out', t')"
    using r by (auto simp: release_one_def split: option.splits if_splits prod.splits)
  then have "(mget (tk_incidents t) k \<noteq> None \<longrightarrow> mget (tk_incidents t') k \<noteq> None) \<and>
      (k \<noteq> k' \<longrightarrow> mget (tk_states t') k = mget (tk_states t) k)"
  proof cases
    case 2
    then show ?thesis by (auto simp: open_incident_def Let_def split: if_splits)
  qed simp
  then show "mget (tk_incidents t) k \<noteq> None \<longrightarrow> mget (tk_incidents t') k \<noteq> None"
    and "k \<noteq> k' \<longrightarrow> mget (tk_states t') k = mget (tk_states t) k" by blast+
qed

definition due_open :: "tracker_env \<Rightarrow> rule_state \<Rightarrow> bool" where
  "due_open env st \<longleftrightarrow> rs_held st \<noteq> None \<and> po_failAfter (normalized (ru_policy (rs_rule st))) \<le> rs_fails st \<and>
     holdFor env (rs_rule st) (te_now env) = []"

lemma release_one_opens:
  assumes "mget (tk_states t) k = Some st" and "due_open env st" and "release_one env k (out, n, t) = (out', n', t')"
  shows "mget (tk_incidents t') k \<noteq> None"
proof (cases "mget (tk_incidents t) k")
  case None
  obtain o1 t1 where oi: "open_incident env k (rs_rule st) (rs_firstFailAt st) (te_now env) (rs_fails st)
      (rs_lastMessage st) (put_state k (st\<lparr>rs_held := None\<rparr>) t) = (o1, t1)" by fastforce
  with None assms have "t' = t1" by (auto simp: release_one_def due_open_def)
  with open_incident_fields [OF oi] show ?thesis by auto
next
  case (Some inc)
  with release_one_keeps(1) [OF assms(3)] show ?thesis by blast
qed

lemma release_loop_keeps:
  "fold (release_one env) ks (out, n, t) = (out', n', t') \<Longrightarrow> mget (tk_incidents t) k \<noteq> None \<Longrightarrow> mget (tk_incidents t') k \<noteq> None"
proof (induction ks arbitrary: out n t)
  case (Cons k' ks)
  obtain o1 n1 t1 where r: "release_one env k' (out, n, t) = (o1, n1, t1)" using prod_cases3 by blast
  moreover have "fold (release_one env) ks (o1, n1, t1) = (out', n', t')" using Cons.prems(1) r by simp
  ultimately show ?case using Cons.IH release_one_keeps(1) [OF r] Cons.prems(2) by blast
qed simp

lemma release_loop_opens:
  "fold (release_one env) ks (out, n, t) = (out', n', t') \<Longrightarrow> k \<in> set ks \<Longrightarrow> mget (tk_states t) k = Some st \<Longrightarrow>
   due_open env st \<Longrightarrow> mget (tk_incidents t') k \<noteq> None"
proof (induction ks arbitrary: out n t)
  case (Cons k' ks)
  obtain o1 n1 t1 where r: "release_one env k' (out, n, t) = (o1, n1, t1)" using prod_cases3 by blast
  have l: "fold (release_one env) ks (o1, n1, t1) = (out', n', t')" using Cons.prems(1) r by simp
  show ?case
  proof (cases "k = k'")
    case True
    with release_one_opens [OF Cons.prems(3,4)] r have "mget (tk_incidents t1) k \<noteq> None" by blast
    with release_loop_keeps [OF l] show ?thesis by blast
  next
    case False
    with Cons.prems(3) release_one_keeps(2) [OF r] have "mget (tk_states t1) k = Some st" by metis
    with Cons.IH [OF l] Cons.prems(2,4) False show ?thesis by simp
  qed
qed simp

text \<open>
  The end of a hold loses no failure: after \<open>ReleaseHolds\<close>, every rule whose open a hold kept
  back, that still fails often enough and that nothing holds any more, has an incident.
\<close>
theorem release_opens_what_was_held:
  assumes "mget (tk_states t) k = Some st" and "due_open env st"
  shows "mget (tk_incidents (snd (snd (ReleaseHolds env t)))) k \<noteq> None"
proof -
  obtain o1 n1 t1 where l: "fold (release_one env) (map fst (tk_states t)) ([], 0, t) = (o1, n1, t1)"
    using prod_cases3 by blast
  have "k \<in> set (map fst (tk_states t))" using assms(1) mget_SomeD by force
  from release_loop_opens [OF l this assms] l show ?thesis by (simp add: ReleaseHolds_def)
qed

theorem release_opens_what_was_held_witness:
  "mget (tk_incidents (snd (snd (ReleaseHolds (demo_env ''r-'' 30) held_demo)))) ''monitor:web'' \<noteq> None"
proof -
  have s: "mget (tk_states held_demo) ''monitor:web'' = Some (get_state ''monitor:web'' held_demo)" by code_simp
  have d: "due_open (demo_env ''r-'' 30) (get_state ''monitor:web'' held_demo)" by code_simp
  show ?thesis by (rule release_opens_what_was_held [OF s d])
qed

section \<open>Severity\<close>

text \<open>
  An incident that was announced as a lesser problem and gets worse while a hold or silence
  covers the rule is not announced as the worse one, also not with the observations after the
  hold: \<open>Observe\<close> overwrites the severity it compares with.
\<close>
theorem escalation_lost_in_hold:
  assumes "mget (tk_incidents t) (rule_key rule) = Some inc" and "severityRank (ic_severity inc) < severityRank (ru_severity rule)"
    and "holdFor env1 (normalize_rule rule) at1 \<noteq> []" and "po_repeatEvery (ru_policy rule) = 0"
    and "Observe env1 rule False at1 msg1 t = (out1, t1)" and "Observe env2 rule False at2 msg2 t1 = (out2, t2)"
  shows "out1 = [] \<and> out2 = []"
proof -
  let ?r = "normalize_rule rule" and ?k = "rule_key rule"
  have sev: "ru_severity ?r = ru_severity rule" "ru_severity rule \<noteq> NoSeverity" "po_repeatEvery (ru_policy ?r) = 0"
    using assms(2,4) by (auto simp: normalize_rule_def normalized_def)
  obtain o1 i1 c1 where k1: "keep_open env1 ?r at1 msg1 (rs_fails (note_failure ?r msg1 at1 (get_state ?k t))) inc = (o1, i1, c1)"
    using prod_cases3 by blast
  then have "o1 = []" "ic_severity i1 = ru_severity rule"
    using assms(3) sev by (auto simp: keep_open_def describe_def Let_def split: if_splits)
  moreover have e1: "out1 = o1" "mget (tk_incidents t1) ?k = Some i1"
    using assms(1,5) k1 by (auto simp: Observe_def Let_def)
  obtain o2 i2 c2 where k2: "keep_open env2 ?r at2 msg2 (rs_fails (note_failure ?r msg2 at2 (get_state ?k t1))) i1 = (o2, i2, c2)"
    using prod_cases3 by blast
  ultimately have "o2 = []"
    using sev by (auto simp: keep_open_def describe_def Let_def split: if_splits)
  moreover have "out2 = o2" using e1(2) assms(6) k2 by (auto simp: Observe_def Let_def)
  ultimately show ?thesis using e1 \<open>o1 = []\<close> by simp
qed

definition cert_rule :: "severity \<Rightarrow> rule" where
  "cert_rule sev = demo_rule\<lparr>ru_severity := sev,
     ru_policy := \<lparr>po_failAfter = 1, po_recoverAfter = 1, po_repeatEvery = 0, po_autoResolveAfter = 0\<rparr>\<rparr>"

definition cert_warned :: tracker where
  "cert_warned = snd (Observe (demo_env ''i-'' 10) (cert_rule SeverityWarning) False 10 ''expires'' (New_tracker (Some (Some []))))"

theorem escalation_lost_in_hold_witness:
  "fst (Observe (demo_env ''j-'' 30) (cert_rule SeverityCritical) False 30 ''expired''
     (snd (Observe (held_env 20) (cert_rule SeverityCritical) False 20 ''expired'' cert_warned))) = []"
proof -
  have i: "mget (tk_incidents cert_warned) (rule_key (cert_rule SeverityCritical)) =
      Some (the (mget (tk_incidents cert_warned) (rule_key (cert_rule SeverityCritical))))" by code_simp
  have s: "severityRank (ic_severity (the (mget (tk_incidents cert_warned) (rule_key (cert_rule SeverityCritical)))))
      < severityRank (ru_severity (cert_rule SeverityCritical))" by code_simp
  have h: "holdFor (held_env 20) (normalize_rule (cert_rule SeverityCritical)) 20 \<noteq> []" by code_simp
  have r: "po_repeatEvery (ru_policy (cert_rule SeverityCritical)) = 0" by (simp add: cert_rule_def)
  show ?thesis
    using escalation_lost_in_hold [OF i s h r prod.collapse [symmetric] prod.collapse [symmetric]] by blast
qed

section \<open>Closing\<close>

definition closing_events ::
    "tracker_env \<Rightarrow> (incident \<Rightarrow> bool) \<Rightarrow> recovery_reason \<Rightarrow> string \<Rightarrow> incident list \<Rightarrow> outgoing list" where
  "closing_events env pred reason msg incs =
     map (\<lambda>inc. sending (tracker_event env inc KindRecovered reason msg (te_now env)))
       (filter (\<lambda>inc. pred inc \<and> ic_notified inc) incs)"

lemma mdel_filter: "mdel k m = filter (\<lambda>b. fst b \<noteq> k) m"
  by (auto simp: AList.delete_eq intro: filter_cong)

lemma close_loop:
  assumes "gomap_ok (seen @ rest)" and "tk_incidents t = filter (\<lambda>b. \<not> pred (snd b)) seen @ rest"
  shows "\<exists>t'. fold (close_one env pred fs reason msg) (map fst rest) (out, n, t) =
      (out @ closing_events env pred reason msg (map snd rest), n + length (filter pred (map snd rest)), t') \<and>
    tk_incidents t' = filter (\<lambda>b. \<not> pred (snd b)) (seen @ rest)"
  using assms
proof (induction rest arbitrary: seen out n t)
  case Nil
  then show ?case by (simp add: closing_events_def)
next
  case (Cons b rest)
  obtain k inc where b: "b = (k, inc)" by (cases b)
  have k: "k \<notin> fst ` set seen" "k \<notin> fst ` set rest" "distinct (map fst (seen @ rest))"
    using Cons.prems(1) by (auto simp: gomap_ok_def b)
  have "map_of (filter (\<lambda>b. \<not> pred (snd b)) seen) k = None"
    using k(1) unfolding map_of_eq_None_iff by auto
  then have get: "mget (tk_incidents t) k = Some inc"
    unfolding Cons.prems(2) by (simp add: b map_add_def)
  have keep: "filter (\<lambda>b. fst b \<noteq> k) xs = xs" if "k \<notin> fst ` set xs" for xs :: "(string, incident) gomap"
    using that by (induction xs) auto
  have "k \<notin> fst ` set (filter (\<lambda>b. \<not> pred (snd b)) seen)" using k(1) by auto
  note kept = keep [OF this] keep [OF k(2)]
  have del: "mdel k (tk_incidents t) = filter (\<lambda>b. \<not> pred (snd b)) seen @ rest"
    unfolding mdel_filter Cons.prems(2) filter_append kept(1) by (simp add: b kept(2))
  have ok: "gomap_ok ((seen @ [b]) @ rest)" using Cons.prems(1) by simp
  show ?case
  proof (cases "pred inc")
    case False
    have "tk_incidents t = filter (\<lambda>b. \<not> pred (snd b)) (seen @ [b]) @ rest"
      using Cons.prems(2) False by (simp add: b)
    from Cons.IH [OF ok this, of out n] get False show ?thesis
      by (simp add: close_one_def b closing_events_def)
  next
    case True
    let ?t = "if fs then (del_incident k t)\<lparr>tk_states := mdel k (tk_states t)\<rparr> else del_incident k t"
    let ?o = "if ic_notified inc then [sending (tracker_event env inc KindRecovered reason msg (te_now env))] else []"
    have "tk_incidents ?t = filter (\<lambda>b. \<not> pred (snd b)) (seen @ [b]) @ rest"
      using del True by (simp add: b)
    from Cons.IH [OF ok this, of "out @ ?o" "Suc n"] get True show ?thesis
      by (auto simp: close_one_def b closing_events_def)
  qed
qed

text \<open>
  \<open>CloseMatching\<close> closes exactly the incidents of the predicate: the others stay as they are,
  the count is theirs, and each closed one that was announced, and no other, is recovered once.
\<close>
theorem close_matching_exact:
  assumes "gomap_ok (tk_incidents t)" and "CloseMatching env pred reason msg t = (n, out, t')"
  shows "tk_incidents t' = filter (\<lambda>b. \<not> pred (snd b)) (tk_incidents t) \<and>
    n = length (filter pred (map snd (tk_incidents t))) \<and>
    out = closing_events env pred reason msg (map snd (tk_incidents t))"
  using close_loop [of "[]" "tk_incidents t" t pred env False reason msg "[]" 0] assms
  by (auto simp: CloseMatching_def)

theorem close_matching_exact_witness:
  "tk_incidents (snd (snd (CloseMatching (demo_env ''c-'' 40) (\<lambda>inc. ic_source inc = SourceMonitor) ReasonRetired ''removed'' cert_warned))) = []"
proof -
  have g: "gomap_ok (tk_incidents cert_warned)" by code_simp
  have f: "filter (\<lambda>b. \<not> ic_source (snd b) = SourceMonitor) (tk_incidents cert_warned) = []" by code_simp
  obtain n out t' where c: "CloseMatching (demo_env ''c-'' 40) (\<lambda>inc. ic_source inc = SourceMonitor) ReasonRetired ''removed'' cert_warned
      = (n, out, t')" using prod_cases3 by blast
  from close_matching_exact [OF g c] f show ?thesis by (simp add: c)
qed


section \<open>A crash between the file and the outbox\<close>

text \<open>The process stops after \<open>persistLocked\<close> and before \<open>flushLocked\<close>: the file has the change, nobody has the alerts.\<close>

definition crash_before_flush :: "tracker_action \<Rightarrow> tracker \<Rightarrow> tracker" where
  "crash_before_flush a t = New_tracker (map_option Some (tk_file (snd (track a t))))"

definition kinds_of :: "outgoing list \<Rightarrow> (event_kind \<times> string) list" where
  "kinds_of out = map (\<lambda>og. (ae_kind (og_event og), ae_incidentID (og_event og))) out"

definition after_adoption :: tracker where
  "after_adoption = snd (track (TEndAdoption (demo_env ''i1-'' 5) (\<lambda>_. [])) (New_tracker None))"

definition failing_once :: tracker_action where
  "failing_once = TObserve (demo_env ''i2-'' 10) (cert_rule SeverityCritical) False 10 ''refused''"

text \<open>
  A crash between the write of \<open>incidents.json\<close> and the outbox loses the open for good: the file
  says it was announced, so after the restart the receivers only get the recovery of an incident
  they were never told about.
\<close>
theorem recovery_without_open:
  "kinds_of (fst (track failing_once after_adoption)) = [(KindOpened, ''i2-monitor:web'')] \<and>
   kinds_of (fst (track (TObserve (demo_env ''i3-'' 20) (cert_rule SeverityCritical) True 20 [])
     (crash_before_flush failing_once after_adoption))) = [(KindRecovered, ''i2-monitor:web'')]"
  by code_simp

end
