(* ===== verification/Outbox.thy ===== *)
theory Outbox
  imports Alerts
begin

text \<open>
  \<open>internal/outbox/outbox.go\<close>: the durable queue between the alert producers and the channels.
  Every function below is one critical section of the outbox's mutex, or a read-only helper.
  The journal file is its complete lines and what stands behind the last newline; a short
  write, a write whose \<open>fsync\<close> fails and a failed replacement are outcomes chosen by the caller.
  \<open>crypto/sha256\<close> with the hex encoding is the argument \<open>digest\<close>, the length of an encoded
  line \<open>enclen\<close>, sending through a channel the record \<open>attempt_io\<close>.
\<close>

section \<open>Records\<close>

datatype delivery_status =
  NoStatus | StatusPending | StatusDelivered | StatusDeadLettered | StatusSuppressed | StatusSuperseded

record leg =
  lg_status :: delivery_status
  lg_attempts :: int
  lg_lastError :: string
  lg_lastAttemptAt :: time

record delivery =
  dr_id :: string
  dr_event :: alert_event
  dr_status :: delivery_status
  dr_attempts :: int
  dr_nextAttemptAt :: time
  dr_lastError :: string
  dr_lastAttemptAt :: time
  dr_createdAt :: time
  dr_channels :: "(string, leg) gomap option"
  dr_note :: string

record outbox_options =
  oo_pollInterval :: duration
  oo_maxAttempts :: int
  oo_backoffBase :: duration
  oo_backoffMax :: duration
  oo_maxRetained :: int
  oo_redact :: "(string \<Rightarrow> string) option"

definition withDefaults :: "outbox_options \<Rightarrow> outbox_options" where
  "withDefaults o' = o'\<lparr>
     oo_pollInterval := (if oo_pollInterval o' \<le> 0 then 5 * second else oo_pollInterval o'),
     oo_maxAttempts := (if oo_maxAttempts o' \<le> 0 then 5 else oo_maxAttempts o'),
     oo_backoffBase := (if oo_backoffBase o' \<le> 0 then 30 * second else oo_backoffBase o'),
     oo_backoffMax := (if oo_backoffMax o' \<le> 0 then 30 * minute else oo_backoffMax o'),
     oo_maxRetained := (if oo_maxRetained o' \<le> 0 then 250 else oo_maxRetained o')\<rparr>"

definition redact_error :: "outbox_options \<Rightarrow> string \<Rightarrow> string" where
  "redact_error opts s = (case oo_redact opts of None \<Rightarrow> s | Some f \<Rightarrow> f s)"

section \<open>The journal file\<close>

datatype frame = Frame delivery | Corrupt

text \<open>What stands behind the last newline: nothing, part of a record, a record without its newline.\<close>

datatype tail = NoTail | Torn | Whole delivery

record outbox_file =
  fi_frames :: "frame list"
  fi_tail :: tail

datatype append_outcome = AppendNothing | AppendTorn | AppendNoNewline | AppendUnsynced | AppendOk

definition end_line :: "delivery \<Rightarrow> outbox_file \<Rightarrow> outbox_file" where
  "end_line d f =
     \<lparr>fi_frames = fi_frames f @ [if fi_tail f = NoTail then Frame d else Corrupt], fi_tail = NoTail\<rparr>"

fun append_frame :: "append_outcome \<Rightarrow> delivery \<Rightarrow> outbox_file \<Rightarrow> bool \<times> outbox_file" where
  "append_frame AppendNothing d f = (False, f)"
| "append_frame AppendTorn d f = (False, f\<lparr>fi_tail := Torn\<rparr>)"
| "append_frame AppendNoNewline d f =
     (False, f\<lparr>fi_tail := (if fi_tail f = NoTail then Whole d else Torn)\<rparr>)"
| "append_frame AppendUnsynced d f = (False, end_line d f)"
| "append_frame AppendOk d f = (True, end_line d f)"

text \<open>\<open>durable.ReadJSONL\<close>: repairs the end of the file, refuses a corrupt line before it.\<close>

definition ReadJSONL :: "outbox_file \<Rightarrow> (delivery list \<times> outbox_file) option" where
  "ReadJSONL f =
     (if Corrupt \<in> set (fi_frames f) then None
      else
        let ds = List.map_filter (\<lambda>x. case x of Frame d \<Rightarrow> Some d | Corrupt \<Rightarrow> None) (fi_frames f)
               @ (case fi_tail f of Whole d \<Rightarrow> [d] | _ \<Rightarrow> [])
        in Some (ds, \<lparr>fi_frames = map Frame ds, fi_tail = NoTail\<rparr>))"

section \<open>The outbox\<close>

record outbox =
  ob_records :: "(string, delivery) gomap"
  ob_order :: "string list"
  ob_lines :: nat
  ob_file :: outbox_file

definition load_one :: "delivery \<Rightarrow> outbox \<Rightarrow> outbox" where
  "load_one d o' =
     o'\<lparr>ob_order := (if mget (ob_records o') (dr_id d) = None then ob_order o' @ [dr_id d] else ob_order o'),
        ob_records := mput (dr_id d) d (ob_records o'), ob_lines := ob_lines o' + 1\<rparr>"

definition max_line :: nat where "max_line = 2 ^ 20"

text \<open>\<open>New\<close>: \<open>None\<close> is the error of a corrupt line or of one longer than the scanner's buffer.\<close>

definition New_outbox :: "(delivery \<Rightarrow> nat) \<Rightarrow> outbox_file \<Rightarrow> outbox option" where
  "New_outbox enclen f =
     (case ReadJSONL f of
        None \<Rightarrow> None
      | Some (ds, f') \<Rightarrow>
          if list_ex (\<lambda>d. max_line \<le> enclen d) ds then None
          else Some (fold load_one ds \<lparr>ob_records = [], ob_order = [], ob_lines = 0, ob_file = f'\<rparr>))"

datatype replace_outcome = Replaced | NotReplaced | ReplacedUnsynced

fun compact_loop ::
    "int \<Rightarrow> string list \<Rightarrow> (string, delivery) gomap \<Rightarrow> string list \<times> (string, delivery) gomap" where
  "compact_loop n [] m = ([], m)"
| "compact_loop n (i # is) m =
     (case mget m i of
        None \<Rightarrow> compact_loop n is m
      | Some d \<Rightarrow>
          if 0 < n \<and> dr_status d \<noteq> StatusPending then compact_loop (n - 1) is (mdel i m)
          else (case compact_loop n is m of (kept, m') \<Rightarrow> (i # kept, m')))"

definition compactLocked_outbox :: "outbox_options \<Rightarrow> replace_outcome \<Rightarrow> outbox \<Rightarrow> outbox" where
  "compactLocked_outbox opts r o' =
     (case compact_loop (int (length (ob_records o')) - oo_maxRetained opts) (ob_order o') (ob_records o') of
        (kept, m) \<Rightarrow>
          (let o1 = o'\<lparr>ob_records := m, ob_order := kept\<rparr>;
               f = \<lparr>fi_frames = map (\<lambda>i. Frame (the (mget m i))) kept, fi_tail = NoTail\<rparr>
           in case r of
                Replaced \<Rightarrow> o1\<lparr>ob_file := f, ob_lines := length kept\<rparr>
              | ReplacedUnsynced \<Rightarrow> o1\<lparr>ob_file := f\<rparr>
              | NotReplaced \<Rightarrow> o1))"

definition persistLocked_outbox ::
    "outbox_options \<Rightarrow> append_outcome \<Rightarrow> replace_outcome \<Rightarrow> delivery \<Rightarrow> outbox \<Rightarrow> outbox" where
  "persistLocked_outbox opts a r d o' =
     (case append_frame a d (ob_file o') of
        (False, f) \<Rightarrow> o'\<lparr>ob_file := f\<rparr>
      | (True, f) \<Rightarrow>
          (let o1 = o'\<lparr>ob_file := f, ob_lines := ob_lines o' + 1\<rparr>
           in if oo_maxRetained opts < int (length (ob_records o1)) then compactLocked_outbox opts r o1 else o1))"

section \<open>Identifiers\<close>

fun source_text :: "alert_source \<Rightarrow> string" where
  "source_text NoSource = []"
| "source_text SourceMonitor = ''monitor''"
| "source_text SourceRestoreTest = ''restore-test''"
| "source_text SourceBackup = ''backup''"
| "source_text SourceDomain = ''domain''"
| "source_text SourceDisk = ''disk''"
| "source_text SourceOperation = ''operation''"
| "source_text SourceAudit = ''audit''"
| "source_text SourceHeartbeat = ''heartbeat''"
| "source_text (OtherSource s) = s"

fun kind_text :: "event_kind \<Rightarrow> string" where
  "kind_text NoKind = []"
| "kind_text KindOpened = ''incident_opened''"
| "kind_text KindRepeat = ''incident_repeat''"
| "kind_text KindRecovered = ''incident_recovered''"
| "kind_text KindTest = ''test''"
| "kind_text KindSummary = ''summary''"
| "kind_text (OtherEventKind s) = s"

fun reason_text :: "recovery_reason \<Rightarrow> string" where
  "reason_text ReasonHealthy = []"
| "reason_text ReasonRetired = ''retired''"
| "reason_text ReasonSuppressedEnd = ''suppressed_end''"
| "reason_text (OtherReason s) = s"

fun audience_text :: "audience \<Rightarrow> string" where
  "audience_text AudienceAll = []"
| "audience_text AudienceHuman = ''human''"
| "audience_text AudienceMachine = ''machine''"
| "audience_text (OtherAudience s) = s"

text \<open>\<open>%v\<close> of a string slice.\<close>

definition show_slice :: "string list \<Rightarrow> string" where
  "show_slice xs = ''['' @ concat (map (\<lambda>(i, x). (if i = 0 then [] else '' '') @ x) (enumerate 0 xs)) @ '']''"

text \<open>\<open>t.UnixNano()\<close> with the wrap-around of its multiplication.\<close>

definition unix_nano :: "time \<Rightarrow> int" where
  "unix_nano t = i64 (t - 62135596800 * second)"

definition delivery_key :: "alert_event \<Rightarrow> string" where
  "delivery_key ev =
     (let bar = ''|''
      in if 2 \<le> ae_version ev then
           ''v2|'' @ source_text (ae_source ev) @ bar @ ae_monitorID ev @ bar @ kind_text (ae_kind ev) @ bar @
           reason_text (ae_reason ev) @ bar @ ae_incidentID ev @ bar @ show_int (unix_nano (ae_occurredAt ev)) @ bar @
           show_slice (ae_onlyChannels ev) @ bar @ show_slice (ae_excludeChannels ev) @ bar @
           audience_text (ae_audience ev)
         else ae_monitorID ev @ bar @ ae_status ev @ bar @ show_int (unix_nano (ae_occurredAt ev)))"

definition deliveryID :: "(string \<Rightarrow> string) \<Rightarrow> alert_event \<Rightarrow> string" where
  "deliveryID digest ev = digest (delivery_key ev)"

section \<open>Enqueueing\<close>

definition new_delivery :: "string \<Rightarrow> alert_event \<Rightarrow> time \<Rightarrow> delivery" where
  "new_delivery i ev now =
     \<lparr>dr_id = i, dr_event = ev, dr_status = StatusPending, dr_attempts = 0, dr_nextAttemptAt = now,
      dr_lastError = [], dr_lastAttemptAt = 0, dr_createdAt = now, dr_channels = None, dr_note = []\<rparr>"

definition supersedes :: "alert_event \<Rightarrow> string \<Rightarrow> delivery \<Rightarrow> bool" where
  "supersedes ev i d \<longleftrightarrow>
     ae_kind ev = KindRecovered \<and> ae_incidentID ev \<noteq> [] \<and> dr_id d \<noteq> i \<and> dr_status d = StatusPending \<and>
     ae_incidentID (dr_event d) = ae_incidentID ev \<and> ae_kind (dr_event d) \<in> {KindOpened, KindRepeat}"

definition supersede :: "delivery \<Rightarrow> delivery" where
  "supersede d = d\<lparr>dr_status := StatusSuperseded, dr_nextAttemptAt := 0,
     dr_note := ''superseded: the incident recovered before this alert was delivered''\<rparr>"

text \<open>The part of \<open>Send\<close> under the lock: the superseded snapshots and the new record; both are persisted after it.\<close>

definition Send_lock ::
    "(string \<Rightarrow> string) \<Rightarrow> time \<Rightarrow> alert_event \<Rightarrow> outbox \<Rightarrow> (delivery list \<times> delivery) option \<times> outbox" where
  "Send_lock digest now ev o' =
     (let i = deliveryID digest ev; d = new_delivery i ev now
      in if mget (ob_records o') i \<noteq> None then (None, o')
         else
           let m = mput i d (ob_records o')
           in (Some (map (supersede \<circ> snd) (filter (supersedes ev i \<circ> snd) m), d),
               o'\<lparr>ob_records := map (\<lambda>(k, x). (k, if supersedes ev i x then supersede x else x)) m,
                  ob_order := ob_order o' @ [i]\<rparr>))"

text \<open>The check of \<open>Send\<close> before the lock; the configuration may not be readable.\<close>

definition undeliverable :: "(string + alert_config) \<Rightarrow> alert_event \<Rightarrow> bool" where
  "undeliverable cfg ev = (case cfg of Inl _ \<Rightarrow> False | Inr c \<Rightarrow> ChannelsFor c ev = [])"

definition RecordSuppressed_lock ::
    "(string \<Rightarrow> string) \<Rightarrow> time \<Rightarrow> alert_event \<Rightarrow> string \<Rightarrow> outbox \<Rightarrow> delivery option \<times> outbox" where
  "RecordSuppressed_lock digest now ev note o' =
     (let i = deliveryID digest ev;
          d = (new_delivery i ev now)\<lparr>dr_status := StatusSuppressed, dr_nextAttemptAt := 0, dr_note := note\<rparr>
      in if mget (ob_records o') i \<noteq> None then (None, o')
         else (Some d, o'\<lparr>ob_records := mput i d (ob_records o'), ob_order := ob_order o' @ [i]\<rparr>))"

section \<open>Attempts\<close>

definition due_at :: "time \<Rightarrow> delivery \<Rightarrow> bool" where
  "due_at now d \<longleftrightarrow> dr_status d = StatusPending \<and> \<not> after_time (dr_nextAttemptAt d) now"

text \<open>\<open>deliverDue\<close>: the snapshots to attempt, oldest first.\<close>

definition deliverDue :: "time \<Rightarrow> outbox \<Rightarrow> delivery list" where
  "deliverDue now o' = sort_key dr_createdAt (filter (due_at now) (map snd (ob_records o')))"

text \<open>An error of a send and the delay its receiver asked for (\<open>alert.RetryAfter\<close>).\<close>

type_synonym send_error = "string \<times> duration"

record attempt_io =
  at_config :: "string + alert_config"
  at_now :: time
  at_perChannel :: bool
  at_sendChannel :: "alert_event \<Rightarrow> string \<Rightarrow> send_error option"
  at_sendSync :: "alert_event \<Rightarrow> send_error option"

text \<open>What an attempt learned before it takes the lock: the outcome of every leg, and the error of the whole.\<close>

record attempted =
  ad_channels :: "string list"
  ad_configErr :: bool
  ad_outcomes :: "(string \<times> send_error option) list"
  ad_deliveryErr :: "send_error option"

definition leg_of :: "delivery \<Rightarrow> string \<Rightarrow> leg" where
  "leg_of d c =
     (case mget (case dr_channels d of None \<Rightarrow> [] | Some m \<Rightarrow> m) c of
        Some l \<Rightarrow> l
      | None \<Rightarrow> \<lparr>lg_status = NoStatus, lg_attempts = 0, lg_lastError = [], lg_lastAttemptAt = 0\<rparr>)"

definition attempt_send :: "attempt_io \<Rightarrow> delivery \<Rightarrow> attempted" where
  "attempt_send io snap =
     (let ev = (dr_event snap)\<lparr>ae_deliveryID := dr_id snap\<rparr>
      in case at_config io of
           Inl e \<Rightarrow> \<lparr>ad_channels = [], ad_configErr = True, ad_outcomes = [],
                     ad_deliveryErr = Some (''config: '' @ e, 0)\<rparr>
         | Inr c \<Rightarrow>
             if at_perChannel io then
               \<lparr>ad_channels = ChannelsFor c (dr_event snap), ad_configErr = False,
                ad_outcomes = map (\<lambda>ch. (ch, at_sendChannel io ev ch))
                  (filter (\<lambda>ch. lg_status (leg_of snap ch) \<noteq> StatusDelivered) (ChannelsFor c (dr_event snap))),
                ad_deliveryErr = None\<rparr>
             else \<lparr>ad_channels = ChannelsFor c (dr_event snap), ad_configErr = False, ad_outcomes = [],
                   ad_deliveryErr = at_sendSync io ev\<rparr>)"

fun backoff_loop :: "nat \<Rightarrow> duration \<Rightarrow> duration \<Rightarrow> duration" where
  "backoff_loop 0 mx d = d"
| "backoff_loop (Suc n) mx d = (if d < mx then backoff_loop n mx (i64 (d * 2)) else d)"

definition backoff :: "outbox_options \<Rightarrow> int \<Rightarrow> duration" where
  "backoff opts attempts =
     (let d = backoff_loop (nat (attempts - 1)) (oo_backoffMax opts) (oo_backoffBase opts)
      in if oo_backoffMax opts < d then oo_backoffMax opts else d)"

definition retry_of :: "send_error option \<Rightarrow> duration" where
  "retry_of e = (case e of None \<Rightarrow> 0 | Some (_, d) \<Rightarrow> d)"

definition note_outcome ::
    "outbox_options \<Rightarrow> time \<Rightarrow> string \<times> send_error option \<Rightarrow> (string, leg) gomap \<Rightarrow> (string, leg) gomap" where
  "note_outcome opts now out m =
     (case out of (ch, err) \<Rightarrow>
        (let st = (case mget m ch of Some l \<Rightarrow> l
               | None \<Rightarrow> \<lparr>lg_status = NoStatus, lg_attempts = 0, lg_lastError = [], lg_lastAttemptAt = 0\<rparr>);
             st1 = st\<lparr>lg_attempts := lg_attempts st + 1, lg_lastAttemptAt := now\<rparr>
         in mput ch
              (case err of
                 None \<Rightarrow> st1\<lparr>lg_status := StatusDelivered, lg_lastError := []\<rparr>
               | Some (msg, _) \<Rightarrow> st1\<lparr>lg_status := StatusPending, lg_lastError := redact_error opts msg\<rparr>) m))"

definition delivered_record :: "delivery \<Rightarrow> delivery" where
  "delivered_record d = d\<lparr>dr_status := StatusDelivered, dr_lastError := [], dr_nextAttemptAt := 0\<rparr>"

definition dead_leg :: "leg \<Rightarrow> leg" where
  "dead_leg l = (if lg_status l = StatusPending then l\<lparr>lg_status := StatusDeadLettered\<rparr> else l)"

definition give_up_or_wait :: "outbox_options \<Rightarrow> time \<Rightarrow> duration \<Rightarrow> delivery \<Rightarrow> delivery" where
  "give_up_or_wait opts now retryAfter d =
     (if oo_maxAttempts opts \<le> dr_attempts d then
        d\<lparr>dr_status := StatusDeadLettered, dr_nextAttemptAt := 0,
          dr_channels := map_option (map (\<lambda>(c, l). (c, dead_leg l))) (dr_channels d)\<rparr>
      else
        let wait = backoff opts (dr_attempts d)
        in d\<lparr>dr_nextAttemptAt := now + (if wait < retryAfter then retryAfter else wait)\<rparr>)"

text \<open>The record after one attempt.\<close>

definition attempt_result :: "outbox_options \<Rightarrow> time \<Rightarrow> attempted \<Rightarrow> delivery \<Rightarrow> delivery" where
  "attempt_result opts now ad d =
     (let chans = (if ad_outcomes ad \<noteq> [] \<and> dr_channels d = None then Some [] else dr_channels d);
          chans1 = map_option (fold (note_outcome opts now) (ad_outcomes ad)) chans;
          d1 = d\<lparr>dr_attempts := dr_attempts d + 1, dr_lastAttemptAt := now, dr_channels := chans1\<rparr>;
          retryAfter = fold (\<lambda>x r. max (retry_of x) r) (ad_deliveryErr ad # map snd (ad_outcomes ad)) 0;
          open_legs = filter (\<lambda>ch. lg_status (leg_of d1 ch) \<noteq> StatusDelivered) (ad_channels ad)
      in if ad_configErr ad then
           give_up_or_wait opts now retryAfter
             (d1\<lparr>dr_lastError := redact_error opts (case ad_deliveryErr ad of None \<Rightarrow> [] | Some (e, _) \<Rightarrow> e)\<rparr>)
         else case chans1 of
           Some _ \<Rightarrow>
             (case open_legs of
                [] \<Rightarrow> delivered_record d1
              | ch # _ \<Rightarrow> give_up_or_wait opts now retryAfter
                  (d1\<lparr>dr_lastError := ch @ '': '' @ lg_lastError (leg_of d1 ch)\<rparr>))
         | None \<Rightarrow>
             (case ad_deliveryErr ad of
                None \<Rightarrow> delivered_record d1
              | Some (e, _) \<Rightarrow> give_up_or_wait opts now retryAfter (d1\<lparr>dr_lastError := redact_error opts e\<rparr>)))"

text \<open>The part of \<open>attempt\<close> under the lock, which re-checks the record; the snapshot to persist.\<close>

definition attempt_lock ::
    "outbox_options \<Rightarrow> time \<Rightarrow> attempted \<Rightarrow> delivery \<Rightarrow> outbox \<Rightarrow> delivery option \<times> outbox" where
  "attempt_lock opts now ad snap o' =
     (case mget (ob_records o') (dr_id snap) of
        None \<Rightarrow> (None, o')
      | Some d \<Rightarrow>
          if dr_status d \<noteq> StatusPending then (None, o')
          else (let d' = attempt_result opts now ad d
                in (Some d', o'\<lparr>ob_records := mput (dr_id snap) d' (ob_records o')\<rparr>)))"

text \<open>The calls of \<open>OnDelivered\<close> and, in the order of the channels' names, of \<open>OnDeadLetter\<close>.\<close>

definition notify :: "attempted \<Rightarrow> delivery \<Rightarrow> string list \<times> (string \<times> string) list" where
  "notify ad d' =
     (map fst (filter (\<lambda>out. snd out = None) (ad_outcomes ad)),
      if dr_status d' = StatusDeadLettered
      then sort_key fst (map (\<lambda>(c, l). (c, lg_lastError l))
        (filter (\<lambda>(c, l). lg_status l = StatusDeadLettered) (case dr_channels d' of None \<Rightarrow> [] | Some m \<Rightarrow> m)))
      else [])"

section \<open>Reads\<close>

definition recordSource :: "delivery \<Rightarrow> alert_source" where
  "recordSource d = (if ae_source (dr_event d) = NoSource then SourceMonitor else ae_source (dr_event d))"

record delivery_view =
  dv_id :: string
  dv_status :: delivery_status
  dv_attempts :: int
  dv_lastError :: string
  dv_lastAttemptAt :: time
  dv_nextAttemptAt :: time
  dv_eventStatus :: string
  dv_occurredAt :: time
  dv_channels :: "(string \<times> leg) list option"
  dv_kind :: event_kind
  dv_source :: alert_source
  dv_ruleID :: string
  dv_ruleName :: string
  dv_incidentID :: string
  dv_note :: string
  dv_createdAt :: time

definition statusOf :: "outbox_options \<Rightarrow> delivery \<Rightarrow> delivery_view" where
  "statusOf opts d =
     \<lparr>dv_id = dr_id d, dv_status = dr_status d, dv_attempts = dr_attempts d,
      dv_lastError = redact_error opts (dr_lastError d), dv_lastAttemptAt = dr_lastAttemptAt d,
      dv_nextAttemptAt = dr_nextAttemptAt d, dv_eventStatus = ae_status (dr_event d),
      dv_occurredAt = ae_occurredAt (dr_event d),
      dv_channels = (case dr_channels d of None \<Rightarrow> None | Some [] \<Rightarrow> None
        | Some m \<Rightarrow> Some (map (\<lambda>(c, l). (c, l\<lparr>lg_lastError := redact_error opts (lg_lastError l)\<rparr>)) m)),
      dv_kind = we_kind (Wire (dr_event d)), dv_source = recordSource d, dv_ruleID = ae_monitorID (dr_event d),
      dv_ruleName = ae_monitorName (dr_event d), dv_incidentID = ae_incidentID (dr_event d),
      dv_note = dr_note d, dv_createdAt = dr_createdAt d\<rparr>"

definition latest :: "outbox_options \<Rightarrow> string \<Rightarrow> (alert_source \<Rightarrow> bool) \<Rightarrow> outbox \<Rightarrow> delivery_view option" where
  "latest opts i sourceOK o' =
     map_option (statusOf opts)
       (fold (\<lambda>d best.
           if \<not> sourceOK (recordSource d) \<or> ae_monitorID (dr_event d) \<noteq> i then best
           else case best of
             None \<Rightarrow> Some d
           | Some b \<Rightarrow> if after_time (dr_createdAt d) (dr_createdAt b) then Some d else best)
         (map snd (ob_records o')) None)"

definition LatestForMonitor :: "outbox_options \<Rightarrow> string \<Rightarrow> outbox \<Rightarrow> delivery_view option" where
  "LatestForMonitor opts i = latest opts i (\<lambda>s. s = SourceMonitor \<or> s = SourceHeartbeat)"

definition LatestForSource :: "outbox_options \<Rightarrow> alert_source \<Rightarrow> string \<Rightarrow> outbox \<Rightarrow> delivery_view option" where
  "LatestForSource opts source i = latest opts i (\<lambda>s. s = source)"

definition LatestForRestoreTest :: "outbox_options \<Rightarrow> string \<Rightarrow> outbox \<Rightarrow> delivery_view option" where
  "LatestForRestoreTest opts = LatestForSource opts SourceRestoreTest"

definition History :: "outbox_options \<Rightarrow> int \<Rightarrow> outbox \<Rightarrow> delivery_view list" where
  "History opts limit o' =
     (let all = map (statusOf opts) (List.map_filter (mget (ob_records o')) (rev (ob_order o')))
      in if 0 < limit then take (nat limit) all else all)"

record channel_health =
  hh_delivered :: int
  hh_pending :: int
  hh_deadLettered :: int
  hh_lastDeliveredAt :: time
  hh_lastDeadLetterAt :: time
  hh_lastError :: string

definition health_leg :: "outbox_options \<Rightarrow> string \<times> leg \<Rightarrow> (string, channel_health) gomap \<Rightarrow> (string, channel_health) gomap" where
  "health_leg opts cl out =
     (case cl of (c, l) \<Rightarrow>
       (let h = (case mget out c of Some h \<Rightarrow> h
              | None \<Rightarrow> \<lparr>hh_delivered = 0, hh_pending = 0, hh_deadLettered = 0, hh_lastDeliveredAt = 0,
                         hh_lastDeadLetterAt = 0, hh_lastError = []\<rparr>)
        in mput c
          (case lg_status l of
             StatusDelivered \<Rightarrow> h\<lparr>hh_delivered := hh_delivered h + 1,
               hh_lastDeliveredAt := (if after_time (lg_lastAttemptAt l) (hh_lastDeliveredAt h)
                 then lg_lastAttemptAt l else hh_lastDeliveredAt h)\<rparr>
           | StatusDeadLettered \<Rightarrow>
               (let h1 = h\<lparr>hh_deadLettered := hh_deadLettered h + 1\<rparr>
                in if before_time (lg_lastAttemptAt l) (hh_lastDeadLetterAt h) then h1
                   else h1\<lparr>hh_lastDeadLetterAt := lg_lastAttemptAt l,
                           hh_lastError := redact_error opts (lg_lastError l)\<rparr>)
           | _ \<Rightarrow> h\<lparr>hh_pending := hh_pending h + 1\<rparr>) out))"

definition ChannelHealth :: "outbox_options \<Rightarrow> outbox \<Rightarrow> (string, channel_health) gomap" where
  "ChannelHealth opts o' =
     fold (\<lambda>d out. fold (health_leg opts) (case dr_channels d of None \<Rightarrow> [] | Some m \<Rightarrow> m) out)
       (List.map_filter (mget (ob_records o')) (ob_order o')) []"

end
