(* ===== verification/OutboxRuns.thy ===== *)
theory OutboxRuns
  imports Outbox "HOL-Library.Multiset" "HOL-Library.Code_Target_Nat"
begin

text \<open>
  The outbox of \<open>internal/outbox/outbox.go\<close> under concurrency. A step is one critical section: a
  \<open>Send\<close> or \<open>RecordSuppressed\<close> of a producer, one of the writes it still owes, or a move of the one
  delivery worker (scan, send, record, write). Sends are logged as the receivers see them.
\<close>

section \<open>Steps\<close>

text \<open>A write a producer owes: of a copied record, or of the record object itself as it will be then.\<close>

datatype owed = Copy delivery | Object string

datatype delivery_worker =
  WIdle
| WDue "delivery list"
| WSent time delivery attempted "delivery list"
| WWrite delivery "delivery list"

record sending_log =
  sl_id :: string
  sl_event :: alert_event
  sl_channel :: string
  sl_ok :: bool

record relay =
  rl_box :: outbox
  rl_owed :: "owed list list"
  rl_worker :: delivery_worker
  rl_log :: "sending_log list"
  rl_queued :: "alert_event list"

datatype relay_action =
  ASend time "string + alert_config" alert_event
| ASuppress time alert_event string
| AWrite nat append_outcome replace_outcome
| AScan time "delivery list"
| ATry attempt_io
| ALock
| APersist append_outcome replace_outcome

definition owed_record :: "outbox \<Rightarrow> owed \<Rightarrow> delivery option" where
  "owed_record b w = (case w of Copy d \<Rightarrow> Some d | Object i \<Rightarrow> mget (ob_records b) i)"

text \<open>A record object that compaction removes from the map keeps its last contents.\<close>

definition keep_object :: "outbox \<Rightarrow> outbox \<Rightarrow> owed \<Rightarrow> owed" where
  "keep_object b b' w =
     (case w of
        Copy d \<Rightarrow> Copy d
      | Object i \<Rightarrow> (case (mget (ob_records b) i, mget (ob_records b') i) of
          (Some d, None) \<Rightarrow> Copy d | _ \<Rightarrow> Object i))"

definition persist_step ::
    "outbox_options \<Rightarrow> append_outcome \<Rightarrow> replace_outcome \<Rightarrow> delivery \<Rightarrow> relay \<Rightarrow> relay" where
  "persist_step opts a r d w =
     (let b' = persistLocked_outbox opts a r d (rl_box w)
      in w\<lparr>rl_box := b', rl_owed := map (map (keep_object (rl_box w) b')) (rl_owed w)\<rparr>)"

definition log_of :: "delivery \<Rightarrow> attempted \<Rightarrow> sending_log list" where
  "log_of snap ad =
     map (\<lambda>(ch, err). \<lparr>sl_id = dr_id snap, sl_event = dr_event snap, sl_channel = ch, sl_ok = (err = None)\<rparr>)
       (ad_outcomes ad)"

text \<open>\<open>None\<close>: the step is not enabled. The scan names its order, since \<open>sort.Slice\<close> is not stable.\<close>

fun relay_step :: "outbox_options \<Rightarrow> (string \<Rightarrow> string) \<Rightarrow> relay_action \<Rightarrow> relay \<Rightarrow> relay option" where
  "relay_step opts digest (ASend now cfg ev) w =
     (if undeliverable cfg ev then Some w
      else (case Send_lock digest now ev (rl_box w) of
        (None, b) \<Rightarrow> Some w
      | (Some (sups, d), b) \<Rightarrow>
          Some (w\<lparr>rl_box := b, rl_owed := rl_owed w @ [map Copy sups @ [Object (dr_id d)]],
                  rl_queued := rl_queued w @ [ev]\<rparr>)))"
| "relay_step opts digest (ASuppress now ev note) w =
     (case RecordSuppressed_lock digest now ev note (rl_box w) of
        (None, b) \<Rightarrow> Some w
      | (Some d, b) \<Rightarrow> Some (w\<lparr>rl_box := b, rl_owed := rl_owed w @ [[Object (dr_id d)]]\<rparr>))"
| "relay_step opts digest (AWrite k a r) w =
     (if k < length (rl_owed w) then
        (case rl_owed w ! k of
           [] \<Rightarrow> None
         | x # xs \<Rightarrow>
             map_option (\<lambda>d. persist_step opts a r d (w\<lparr>rl_owed := (rl_owed w)[k := xs]\<rparr>))
               (owed_record (rl_box w) x))
      else None)"
| "relay_step opts digest (AScan now due) w =
     (if rl_worker w = WIdle \<and> mset due = mset (deliverDue now (rl_box w)) \<and> sorted (map dr_createdAt due)
      then Some (w\<lparr>rl_worker := WDue due\<rparr>) else None)"
| "relay_step opts digest (ATry io) w =
     (case rl_worker w of
        WDue [] \<Rightarrow> Some (w\<lparr>rl_worker := WIdle\<rparr>)
      | WDue (snap # rest) \<Rightarrow>
          (let ad = attempt_send io snap
           in Some (w\<lparr>rl_worker := WSent (at_now io) snap ad rest, rl_log := rl_log w @ log_of snap ad\<rparr>))
      | _ \<Rightarrow> None)"
| "relay_step opts digest ALock w =
     (case rl_worker w of
        WSent now snap ad rest \<Rightarrow>
          (case attempt_lock opts now ad snap (rl_box w) of
             (None, b) \<Rightarrow> Some (w\<lparr>rl_worker := WDue rest\<rparr>)
           | (Some d, b) \<Rightarrow> Some (w\<lparr>rl_box := b, rl_worker := WWrite d rest\<rparr>))
      | _ \<Rightarrow> None)"
| "relay_step opts digest (APersist a r) w =
     (case rl_worker w of
        WWrite d rest \<Rightarrow> Some (persist_step opts a r d (w\<lparr>rl_worker := WDue rest\<rparr>))
      | _ \<Rightarrow> None)"

section \<open>Well-formed outboxes\<close>

definition leg_ok :: "delivery_status \<Rightarrow> leg \<Rightarrow> bool" where
  "leg_ok st l \<longleftrightarrow> 0 < lg_attempts l \<and>
     (lg_status l = StatusDelivered \<or> lg_status l = StatusPending \<and> st \<noteq> StatusDeadLettered \<or>
      lg_status l = StatusDeadLettered \<and> st = StatusDeadLettered)"

definition delivery_ok :: "delivery \<Rightarrow> bool" where
  "delivery_ok d \<longleftrightarrow> dr_status d \<noteq> NoStatus \<and> 0 \<le> dr_attempts d \<and>
     (case dr_channels d of None \<Rightarrow> True
      | Some m \<Rightarrow> m \<noteq> [] \<and> gomap_ok m \<and> list_all (\<lambda>b. leg_ok (dr_status d) (snd b)) m) \<and>
     (dr_status d \<noteq> StatusPending \<longrightarrow> dr_nextAttemptAt d = 0)"

definition outbox_ok :: "outbox \<Rightarrow> bool" where
  "outbox_ok b \<longleftrightarrow> distinct (ob_order b) \<and> gomap_ok (ob_records b) \<and>
     set (ob_order b) = fst ` set (ob_records b) \<and>
     (\<forall>i d. mget (ob_records b) i = Some d \<longrightarrow> dr_id d = i \<and> delivery_ok d)"


section \<open>Compaction\<close>

definition finished_in :: "(string, delivery) gomap \<Rightarrow> string \<Rightarrow> bool" where
  "finished_in m i \<longleftrightarrow> (case mget m i of None \<Rightarrow> False | Some d \<Rightarrow> dr_status d \<noteq> StatusPending)"

lemma compact_loop_spec:
  assumes "distinct is" and "\<And>i. i \<in> set is \<Longrightarrow> mget m i \<noteq> None"
  shows "compact_loop n is m =
    (filter (\<lambda>i. i \<notin> set (take (nat n) (filter (finished_in m) is))) is,
     filter (\<lambda>b. fst b \<notin> set (take (nat n) (filter (finished_in m) is))) m)"
  using assms
proof (induction "is" arbitrary: n m)
  case (Cons i "is")
  obtain d where d: "mget m i = Some d" using Cons.prems(2) [of i] by auto
  show ?case
  proof (cases "0 < n \<and> dr_status d \<noteq> StatusPending")
    case True
    have "finished_in (mdel i m) j = finished_in m j" if "j \<in> set is" for j
      using Cons.prems(1) that by (auto simp: finished_in_def)
    then have same: "filter (finished_in (mdel i m)) is = filter (finished_in m) is" by (simp cong: filter_cong)
    have "nat n = Suc (nat (n - 1))" using True by linarith
    then have t: "take (nat n) (filter (finished_in m) (i # is)) = i # take (nat (n - 1)) (filter (finished_in m) is)"
      using True d by (simp add: finished_in_def)
    have "compact_loop (n - 1) is (mdel i m) =
      (filter (\<lambda>j. j \<notin> set (take (nat (n - 1)) (filter (finished_in m) is))) is,
       filter (\<lambda>b. fst b \<notin> set (take (nat (n - 1)) (filter (finished_in m) is))) (mdel i m))"
    proof -
      have "distinct is" using Cons.prems(1) by simp
      moreover have "mget (mdel i m) j \<noteq> None" if "j \<in> set is" for j
        using Cons.prems that by auto
      ultimately show ?thesis by (rule Cons.IH [of "mdel i m" "n - 1", unfolded same])
    qed
    moreover have "mdel i m = filter (\<lambda>b. fst b \<noteq> i) m" by (auto simp: AList.delete_eq intro: filter_cong)
    moreover have "filter (\<lambda>j. j \<notin> set (i # xs)) is = filter (\<lambda>j. j \<notin> set xs) is" for xs
      using Cons.prems(1) by (auto intro: filter_cong)
    ultimately show ?thesis using d True unfolding t by (auto simp: conj_commute intro: filter_cong)
  next
    case False
    have eq: "take (nat n) (filter (finished_in m) (i # is)) = take (nat n) (filter (finished_in m) is)"
      using False d by (auto simp: finished_in_def)
    have "i \<notin> set (take (nat n) (filter (finished_in m) is))"
      using Cons.prems(1) by (meson distinct.simps(2) filter_is_subset in_set_takeD subsetD)
    with Cons.IH [of m n] Cons.prems d False show ?thesis unfolding eq by auto
  qed
qed simp

definition dropped :: "outbox_options \<Rightarrow> outbox \<Rightarrow> string list" where
  "dropped opts b = take (nat (int (length (ob_records b)) - oo_maxRetained opts)) (filter (finished_in (ob_records b)) (ob_order b))"

lemma outbox_okD:
  assumes "outbox_ok b"
  shows "distinct (ob_order b)" "gomap_ok (ob_records b)" "set (ob_order b) = fst ` set (ob_records b)"
    and "mget (ob_records b) i = Some d \<Longrightarrow> dr_id d = i \<and> delivery_ok d"
    and "i \<in> set (ob_order b) \<longleftrightarrow> mget (ob_records b) i \<noteq> None"
    and "length (ob_order b) = length (ob_records b)"
proof -
  show d: "distinct (ob_order b)" "gomap_ok (ob_records b)" "set (ob_order b) = fst ` set (ob_records b)"
    using assms unfolding outbox_ok_def by blast+
  show "mget (ob_records b) i = Some d \<Longrightarrow> dr_id d = i \<and> delivery_ok d"
    using assms unfolding outbox_ok_def by blast
  show "i \<in> set (ob_order b) \<longleftrightarrow> mget (ob_records b) i \<noteq> None" unfolding d(3) mget_fst_iff by simp
  have "length (ob_order b) = card (set (ob_order b))" using d(1) by (simp add: distinct_card)
  also have "\<dots> = card (set (map fst (ob_records b)))" by (simp add: d(3))
  also have "\<dots> = length (ob_records b)" using d(2) distinct_card [of "map fst (ob_records b)"] by (simp add: gomap_ok_def)
  finally show "length (ob_order b) = length (ob_records b)" .
qed

lemma compactLocked_maps:
  assumes "outbox_ok b"
  shows "ob_order (compactLocked_outbox opts r b) = filter (\<lambda>i. i \<notin> set (dropped opts b)) (ob_order b)"
    and "ob_records (compactLocked_outbox opts r b) = filter (\<lambda>x. fst x \<notin> set (dropped opts b)) (ob_records b)"
proof -
  note D = outbox_okD [OF assms]
  have "compact_loop (int (length (ob_records b)) - oo_maxRetained opts) (ob_order b) (ob_records b) =
    (filter (\<lambda>i. i \<notin> set (dropped opts b)) (ob_order b), filter (\<lambda>x. fst x \<notin> set (dropped opts b)) (ob_records b))"
    unfolding dropped_def by (rule compact_loop_spec) (use D in simp_all)
  then show "ob_order (compactLocked_outbox opts r b) = filter (\<lambda>i. i \<notin> set (dropped opts b)) (ob_order b)"
    and "ob_records (compactLocked_outbox opts r b) = filter (\<lambda>x. fst x \<notin> set (dropped opts b)) (ob_records b)"
    by (cases r; simp add: compactLocked_outbox_def Let_def)+
qed

lemma mget_compactLocked:
  "outbox_ok b \<Longrightarrow> mget (ob_records (compactLocked_outbox opts r b)) i = (if i \<in> set (dropped opts b) then None else mget (ob_records b) i)"
  using outbox_okD(2) [of b] by (auto simp: compactLocked_maps mget_filter split: option.splits)

lemma dropped_finished:
  "i \<in> set (dropped opts b) \<Longrightarrow> finished_in (ob_records b) i"
  by (auto simp: dropped_def dest: in_set_takeD)

lemma outbox_ok_compactLocked:
  assumes "outbox_ok b"
  shows "outbox_ok (compactLocked_outbox opts r b)"
proof -
  note D = outbox_okD [OF assms]
  have "fst ` set (filter (\<lambda>x. fst x \<notin> A) m) = {k \<in> fst ` set m. k \<notin> A}" for A and m :: "(string, delivery) gomap"
    by force
  then show ?thesis
    unfolding outbox_ok_def mget_compactLocked [OF assms]
    using D(1-4) by (simp add: compactLocked_maps [OF assms] Collect_conj_eq)
qed

lemma length_remove_distinct:
  "distinct xs \<Longrightarrow> distinct ys \<Longrightarrow> set ys \<subseteq> set xs \<Longrightarrow> length (filter (\<lambda>x. x \<notin> set ys) xs) = length xs - length ys"
proof -
  assume a: "distinct xs" "distinct ys" "set ys \<subseteq> set xs"
  have "length (filter (\<lambda>x. x \<notin> set ys) xs) = card ({x. x \<notin> set ys} \<inter> set xs)"
    using a(1) by (rule distinct_length_filter)
  also have "{x. x \<notin> set ys} \<inter> set xs = set xs - set ys" by auto
  also have "card \<dots> = length xs - length ys" using a by (simp add: card_Diff_subset distinct_card)
  finally show ?thesis .
qed


lemma dropped_all_or_enough:
  assumes "outbox_ok b" and "0 \<le> oo_maxRetained opts"
  shows "int (length (ob_order (compactLocked_outbox opts r b))) \<le> oo_maxRetained opts \<or>
    list_all (\<lambda>i. \<not> finished_in (ob_records b) i) (ob_order (compactLocked_outbox opts r b))"
proof (cases "nat (int (length (ob_records b)) - oo_maxRetained opts) \<le> length (filter (finished_in (ob_records b)) (ob_order b))")
  case True
  note D = outbox_okD [OF assms(1)]
  have len: "length (dropped opts b) = nat (int (length (ob_records b)) - oo_maxRetained opts)"
    using True by (simp add: dropped_def)
  have "distinct (dropped opts b)" "set (dropped opts b) \<subseteq> set (ob_order b)"
    using D(1) by (auto simp: dropped_def dest: in_set_takeD)
  then have "length (ob_order (compactLocked_outbox opts r b)) = length (ob_order b) - length (dropped opts b)"
    unfolding compactLocked_maps [OF assms(1)] by (rule length_remove_distinct [OF D(1)])
  with len D(6) assms(2) show ?thesis by linarith
next
  case False
  then have "dropped opts b = filter (finished_in (ob_records b)) (ob_order b)" by (simp add: dropped_def)
  then show ?thesis by (simp add: compactLocked_maps [OF assms(1)] list_all_iff)
qed

text \<open>
  Compaction keeps every undelivered record and the order of the rest. It drops the oldest
  finished records, no more than needed to come down to \<open>MaxRetained\<close>, and what is left is at
  most that many or all of it undelivered. A journal it replaced holds exactly the records kept.
\<close>
theorem compaction_keeps_the_work:
  assumes "outbox_ok b" and "0 \<le> oo_maxRetained opts"
  shows "(\<forall>i. \<not> finished_in (ob_records b) i \<longrightarrow> mget (ob_records (compactLocked_outbox opts r b)) i = mget (ob_records b) i) \<and>
    prefix (dropped opts b) (filter (finished_in (ob_records b)) (ob_order b)) \<and>
    int (length (dropped opts b)) \<le> max 0 (int (length (ob_order b)) - oo_maxRetained opts) \<and>
    ob_order (compactLocked_outbox opts r b) = filter (\<lambda>i. i \<notin> set (dropped opts b)) (ob_order b) \<and>
    (int (length (ob_order (compactLocked_outbox opts r b))) \<le> oo_maxRetained opts \<or>
     list_all (\<lambda>i. \<not> finished_in (ob_records b) i) (ob_order (compactLocked_outbox opts r b))) \<and>
    (r \<noteq> NotReplaced \<longrightarrow> ob_file (compactLocked_outbox opts r b) =
       \<lparr>fi_frames = map (\<lambda>i. Frame (the (mget (ob_records (compactLocked_outbox opts r b)) i))) (ob_order (compactLocked_outbox opts r b)),
        fi_tail = NoTail\<rparr>)"
proof (intro conjI)
  let ?fin = "filter (finished_in (ob_records b)) (ob_order b)"
  show "\<forall>i. \<not> finished_in (ob_records b) i \<longrightarrow> mget (ob_records (compactLocked_outbox opts r b)) i = mget (ob_records b) i"
    using dropped_finished by (auto simp: mget_compactLocked [OF assms(1)])
  show "prefix (dropped opts b) ?fin" by (simp add: dropped_def take_is_prefix)
  show "int (length (dropped opts b)) \<le> max 0 (int (length (ob_order b)) - oo_maxRetained opts)"
    using outbox_okD(6) [OF assms(1)] by (simp add: dropped_def)
  show "ob_order (compactLocked_outbox opts r b) = filter (\<lambda>i. i \<notin> set (dropped opts b)) (ob_order b)"
    by (rule compactLocked_maps(1) [OF assms(1)])
  show "int (length (ob_order (compactLocked_outbox opts r b))) \<le> oo_maxRetained opts \<or>
     list_all (\<lambda>i. \<not> finished_in (ob_records b) i) (ob_order (compactLocked_outbox opts r b))"
    by (rule dropped_all_or_enough [OF assms])
  show "r \<noteq> NotReplaced \<longrightarrow> ob_file (compactLocked_outbox opts r b) =
       \<lparr>fi_frames = map (\<lambda>i. Frame (the (mget (ob_records (compactLocked_outbox opts r b)) i))) (ob_order (compactLocked_outbox opts r b)),
        fi_tail = NoTail\<rparr>"
    by (cases r) (auto simp: compactLocked_outbox_def Let_def split: prod.splits)
qed

definition demo_options :: outbox_options where
  "demo_options = (withDefaults \<lparr>oo_pollInterval = 0, oo_maxAttempts = 3, oo_backoffBase = 0, oo_backoffMax = 0,
     oo_maxRetained = 1, oo_redact = None\<rparr>)"

definition demo_open :: alert_event where
  "demo_open = sample_alert\<lparr>ae_version := 2, ae_kind := KindOpened, ae_incidentID := ''inc_1'', ae_occurredAt := 62135596800 * second + 10\<rparr>"

definition demo_recovered :: alert_event where
  "demo_recovered = sample_alert\<lparr>ae_version := 2, ae_kind := KindRecovered, ae_status := ''up'', ae_incidentID := ''inc_1'',
     ae_occurredAt := 62135596800 * second + 20\<rparr>"

definition empty_outbox :: outbox where
  "empty_outbox = \<lparr>ob_records = [], ob_order = [], ob_lines = 0, ob_file = \<lparr>fi_frames = [], fi_tail = NoTail\<rparr>\<rparr>"

text \<open>An outbox with a delivered record and a pending one.\<close>

definition demo_outbox :: outbox where
  "demo_outbox = empty_outbox\<lparr>
     ob_records := [(''d1'', delivered_record (new_delivery ''d1'' demo_open 10)), (''d2'', new_delivery ''d2'' demo_recovered 20)],
     ob_order := [''d1'', ''d2'']\<rparr>"

lemma demo_outbox_ok: "outbox_ok demo_outbox"
  by (auto simp: outbox_ok_def demo_outbox_def empty_outbox_def gomap_ok_def delivery_ok_def delivered_record_def
      new_delivery_def split: if_splits)

theorem compaction_keeps_the_work_witness:
  "ob_order (compactLocked_outbox demo_options Replaced demo_outbox) = [''d2''] \<and>
   ob_order (compactLocked_outbox demo_options Replaced demo_outbox) = filter (\<lambda>i. i \<notin> set (dropped demo_options demo_outbox)) (ob_order demo_outbox)"
proof
  show "ob_order (compactLocked_outbox demo_options Replaced demo_outbox) = [''d2'']" by code_simp
  have "0 \<le> oo_maxRetained demo_options" by code_simp
  from compaction_keeps_the_work [OF demo_outbox_ok this]
  show "ob_order (compactLocked_outbox demo_options Replaced demo_outbox) = filter (\<lambda>i. i \<notin> set (dropped demo_options demo_outbox)) (ob_order demo_outbox)"
    by blast
qed

section \<open>Backoff\<close>

lemma backoff_loop_min:
  "0 < d \<Longrightarrow> d < 2 ^ 63 \<Longrightarrow> mx \<le> 2 ^ 62 \<Longrightarrow> min (backoff_loop k mx d) mx = min (d * 2 ^ k) mx"
proof (induction k arbitrary: d)
  case (Suc k)
  show ?case
  proof (cases "d < mx")
    case True
    then have "i64 (d * 2) = d * 2" using Suc.prems by (intro i64_id) auto
    with Suc.IH [of "d * 2"] Suc.prems True show ?thesis by (simp add: mult.assoc)
  next
    case False
    have "d * 1 \<le> d * 2 ^ Suc k" using Suc.prems(1) by (intro mult_left_mono one_le_power) simp_all
    with False show ?thesis by simp
  qed
qed simp

text \<open>
  The wait before the next attempt doubles with every failed one, starting at \<open>BackoffBase\<close> and
  capped at \<open>BackoffMax\<close>; the doubling in the loop never overflows the 64 bits of a duration.
\<close>
theorem backoff_is_exponential:
  assumes "0 < oo_backoffBase opts" and "oo_backoffBase opts < 2 ^ 63" and "oo_backoffMax opts \<le> 2 ^ 62" and "1 \<le> n"
  shows "backoff opts n = min (oo_backoffBase opts * 2 ^ nat (n - 1)) (oo_backoffMax opts)"
  using backoff_loop_min [OF assms(1-3), of "nat (n - 1)"]
  by (simp add: backoff_def Let_def min_def split: if_splits)

theorem backoff_is_exponential_witness: "backoff (withDefaults demo_options) 3 = 2 * minute"
proof -
  have a: "0 < oo_backoffBase (withDefaults demo_options)" "oo_backoffBase (withDefaults demo_options) < 2 ^ 63"
    "oo_backoffMax (withDefaults demo_options) \<le> 2 ^ 62"
    by code_simp+
  have "backoff (withDefaults demo_options) 3 = min (oo_backoffBase (withDefaults demo_options) * 2 ^ nat (3 - 1))
      (oo_backoffMax (withDefaults demo_options))"
    by (rule backoff_is_exponential [OF a]) simp
  also have "\<dots> = 2 * minute" by code_simp
  finally show ?thesis .
qed

end
