(* ===== verification/OutboxSafety.thy ===== *)
theory OutboxSafety
  imports OutboxRuns
begin

text \<open>
  What the outbox of \<open>internal/outbox/outbox.go\<close> guarantees under every interleaving of its
  producers and its worker: the records stay well-formed, an acknowledged leg is never sent
  again, no leg is sent more than \<open>MaxAttempts\<close> times.
\<close>

section \<open>Records stay well-formed\<close>

lemma outbox_okI:
  assumes "distinct (ob_order b)" "gomap_ok (ob_records b)" "set (ob_order b) = fst ` set (ob_records b)"
    and "\<And>i d. mget (ob_records b) i = Some d \<Longrightarrow> dr_id d = i \<and> delivery_ok d"
  shows "outbox_ok b"
  using assms unfolding outbox_ok_def by blast

lemma mget_map_vals: "mget (map (\<lambda>(k, x). (k, f x)) m) i = map_option f (mget m i)"
  by (simp add: map_of_map)

lemma gomap_ok_map_vals: "gomap_ok m \<Longrightarrow> gomap_ok (map (\<lambda>(k, x). (k, f x)) m)"
  by (simp add: gomap_ok_def comp_def case_prod_unfold)

lemma fst_map_vals: "fst ` set (map (\<lambda>(k, x). (k, f x)) m) = fst ` set m"
  by force

lemma fst_mput: "fst ` set (mput k v m) = insert k (fst ` set m)"
  by (simp add: dom_update [unfolded dom_map_of_conv_image_fst, symmetric] AList.dom_update)

lemma delivery_ok_new [simp]: "delivery_ok (new_delivery i ev now)"
  by (simp add: delivery_ok_def new_delivery_def)

lemma delivery_ok_supersede: "delivery_ok d \<Longrightarrow> dr_status d = StatusPending \<Longrightarrow> delivery_ok (supersede d)"
  by (auto simp: delivery_ok_def supersede_def leg_ok_def list_all_iff split: option.splits)

lemma supersede_fields [simp]:
  "dr_id (supersede d) = dr_id d" "dr_status (supersede d) = StatusSuperseded" "dr_event (supersede d) = dr_event d"
  by (simp_all add: supersede_def)

lemma new_delivery_fields [simp]:
  "dr_id (new_delivery i ev now) = i" "dr_event (new_delivery i ev now) = ev"
  "dr_status (new_delivery i ev now) = StatusPending" "dr_attempts (new_delivery i ev now) = 0"
  "dr_channels (new_delivery i ev now) = None"
  by (simp_all add: new_delivery_def)

text \<open>What a successful \<open>Send\<close> does to the records.\<close>

lemma Send_lock_records:
  assumes "Send_lock digest now ev b = (Some (sups, d), b')"
  shows "mget (ob_records b) (deliveryID digest ev) = None" and "d = new_delivery (deliveryID digest ev) ev now"
    and "ob_order b' = ob_order b @ [dr_id d]" and "ob_file b' = ob_file b"
    and "mget (ob_records b') i = (if i = dr_id d then Some (if supersedes ev (dr_id d) d then supersede d else d)
      else map_option (\<lambda>x. if supersedes ev (dr_id d) x then supersede x else x) (mget (ob_records b) i))"
    and "gomap_ok (ob_records b) \<Longrightarrow> gomap_ok (ob_records b')"
    and "fst ` set (ob_records b') = insert (dr_id d) (fst ` set (ob_records b))"
proof -
  have e: "mget (ob_records b) (deliveryID digest ev) = None" "d = new_delivery (deliveryID digest ev) ev now"
    "b' = b\<lparr>ob_records := map (\<lambda>(k, x). (k, if supersedes ev (dr_id d) x then supersede x else x)) (mput (dr_id d) d (ob_records b)),
          ob_order := ob_order b @ [dr_id d]\<rparr>"
    using assms by (auto simp: Send_lock_def Let_def split: if_splits)
  show "mget (ob_records b) (deliveryID digest ev) = None" "d = new_delivery (deliveryID digest ev) ev now" by (fact e)+
  show "ob_order b' = ob_order b @ [dr_id d]" "ob_file b' = ob_file b" by (simp_all add: e(3))
  show "mget (ob_records b') i = (if i = dr_id d then Some (if supersedes ev (dr_id d) d then supersede d else d)
      else map_option (\<lambda>x. if supersedes ev (dr_id d) x then supersede x else x) (mget (ob_records b) i))"
    unfolding e(3) by (simp add: mget_map_vals)
  show "gomap_ok (ob_records b')" if "gomap_ok (ob_records b)"
    using that unfolding e(3) by (simp add: gomap_ok_map_vals)
  show "fst ` set (ob_records b') = insert (dr_id d) (fst ` set (ob_records b))"
  proof -
    have "ob_records b' = map (\<lambda>(k, x). (k, if supersedes ev (dr_id d) x then supersede x else x)) (mput (dr_id d) d (ob_records b))"
      by (simp add: e(3))
    then show ?thesis by (simp only: fst_map_vals fst_mput)
  qed
qed

lemma not_supersedes_self [simp]: "\<not> supersedes ev (dr_id d) d"
  by (simp add: supersedes_def)

lemma outbox_ok_Send_lock:
  assumes "outbox_ok b" and "Send_lock digest now ev b = (Some (sups, d), b')"
  shows "outbox_ok b'"
proof -
  note D = outbox_okD [OF assms(1)] and S = Send_lock_records [OF assms(2)]
  show ?thesis
  proof (rule outbox_okI)
    have "dr_id d \<notin> set (ob_order b)" using S(1,2) D(5) by simp
    then show "distinct (ob_order b')" using D(1) S(3) by simp
    show "gomap_ok (ob_records b')" by (rule S(6) [OF D(2)])
    show "set (ob_order b') = fst ` set (ob_records b')" using S(3,7) D(3) by simp
    fix i x
    assume "mget (ob_records b') i = Some x"
    then show "dr_id x = i \<and> delivery_ok x"
      using D(4) S(2) delivery_ok_supersede by (auto simp: S(5) supersedes_def split: if_splits)
  qed
qed

lemma RecordSuppressed_lock_records:
  assumes "RecordSuppressed_lock digest now ev note b = (Some d, b')"
  shows "mget (ob_records b) (dr_id d) = None" and "dr_status d = StatusSuppressed" and "delivery_ok d"
    and "b' = b\<lparr>ob_records := mput (dr_id d) d (ob_records b), ob_order := ob_order b @ [dr_id d]\<rparr>"
  using assms by (auto simp: RecordSuppressed_lock_def Let_def new_delivery_def delivery_ok_def split: if_splits)

lemma outbox_ok_put_new:
  assumes "outbox_ok b" and "mget (ob_records b) (dr_id d) = None" and "delivery_ok d"
  shows "outbox_ok (b\<lparr>ob_records := mput (dr_id d) d (ob_records b), ob_order := ob_order b @ [dr_id d]\<rparr>)"
proof -
  note D = outbox_okD [OF assms(1)]
  have "dr_id d \<notin> set (ob_order b)" using assms(2) D(5) by simp
  then show ?thesis
    by (intro outbox_okI) (use D(1-4) assms(3) in \<open>auto simp: fst_mput split: if_splits\<close>)
qed

lemma outbox_ok_put_old:
  assumes "outbox_ok b" and "mget (ob_records b) (dr_id d) = Some d0" and "delivery_ok d"
  shows "outbox_ok (b\<lparr>ob_records := mput (dr_id d) d (ob_records b)\<rparr>)"
proof -
  note D = outbox_okD [OF assms(1)]
  have "dr_id d \<in> set (ob_order b)" using assms(2) D(5) by simp
  then show ?thesis
    by (intro outbox_okI) (use D(1-4) assms(3) in \<open>auto simp: fst_mput split: if_splits\<close>)
qed

text \<open>A write changes the file, and the records only by compaction.\<close>

lemma persist_records:
  "ob_records (persistLocked_outbox opts a r d b) = ob_records b \<and> ob_order (persistLocked_outbox opts a r d b) = ob_order b \<or>
   (\<exists>b1. ob_records b1 = ob_records b \<and> ob_order b1 = ob_order b \<and> persistLocked_outbox opts a r d b = compactLocked_outbox opts r b1)"
proof (cases "append_frame a d (ob_file b)")
  case (Pair ok f)
  show ?thesis
  proof (cases "ok \<and> oo_maxRetained opts < int (length (ob_records b))")
    case True
    then have "persistLocked_outbox opts a r d b = compactLocked_outbox opts r (b\<lparr>ob_file := f, ob_lines := ob_lines b + 1\<rparr>)"
      using Pair by (simp add: persistLocked_outbox_def Let_def)
    then show ?thesis by (intro disjI2 exI [of _ "b\<lparr>ob_file := f, ob_lines := ob_lines b + 1\<rparr>"]) simp
  next
    case False
    then show ?thesis using Pair by (cases ok) (simp_all add: persistLocked_outbox_def Let_def)
  qed
qed

lemma outbox_ok_cong: "ob_records b' = ob_records b \<Longrightarrow> ob_order b' = ob_order b \<Longrightarrow> outbox_ok b' = outbox_ok b"
  by (simp add: outbox_ok_def)

lemma outbox_ok_persist: "outbox_ok b \<Longrightarrow> outbox_ok (persistLocked_outbox opts a r d b)"
  using persist_records [of opts a r d b] outbox_ok_cong outbox_ok_compactLocked by metis

lemma mget_persist:
  assumes "outbox_ok b"
  shows "mget (ob_records (persistLocked_outbox opts a r d b)) i = mget (ob_records b) i \<or>
    mget (ob_records (persistLocked_outbox opts a r d b)) i = None \<and> finished_in (ob_records b) i"
  using persist_records [of opts a r d b]
proof (elim disjE exE conjE)
  fix b1
  assume b1: "ob_records b1 = ob_records b" "ob_order b1 = ob_order b" "persistLocked_outbox opts a r d b = compactLocked_outbox opts r b1"
  then have "outbox_ok b1" using assms outbox_ok_cong by metis
  from mget_compactLocked [OF this, of opts r i] dropped_finished [of i opts b1] b1 show ?thesis by (auto split: if_splits)
qed simp

section \<open>The result of an attempt\<close>

definition noted :: "outbox_options \<Rightarrow> time \<Rightarrow> send_error option \<Rightarrow> leg \<Rightarrow> leg" where
  "noted opts now err st =
     (case err of
        None \<Rightarrow> st\<lparr>lg_attempts := lg_attempts st + 1, lg_lastAttemptAt := now, lg_status := StatusDelivered, lg_lastError := []\<rparr>
      | Some (msg, _) \<Rightarrow> st\<lparr>lg_attempts := lg_attempts st + 1, lg_lastAttemptAt := now, lg_status := StatusPending,
          lg_lastError := redact_error opts msg\<rparr>)"

definition zero_leg :: leg where
  "zero_leg = \<lparr>lg_status = NoStatus, lg_attempts = 0, lg_lastError = [], lg_lastAttemptAt = 0\<rparr>"

lemma note_outcome_eq:
  "note_outcome opts now (ch, err) m = mput ch (noted opts now err (case mget m ch of None \<Rightarrow> zero_leg | Some l \<Rightarrow> l)) m"
  by (auto simp: note_outcome_def noted_def zero_leg_def Let_def split: option.splits)

lemma note_outcomes_other:
  "c \<notin> fst ` set outs \<Longrightarrow> mget (fold (note_outcome opts now) outs m) c = mget m c"
  by (induction outs arbitrary: m) (auto simp: note_outcome_eq)

lemma note_outcomes_one:
  "distinct (map fst outs) \<Longrightarrow> (c, err) \<in> set outs \<Longrightarrow>
   \<exists>l. mget (fold (note_outcome opts now) outs m) c = Some (noted opts now err l)"
proof (induction outs arbitrary: m)
  case (Cons o1 outs)
  show ?case
  proof (cases "o1 = (c, err)")
    case True
    then have "c \<notin> fst ` set outs" using Cons.prems(1) by auto
    with True show ?thesis by (simp add: note_outcomes_other note_outcome_eq) blast
  next
    case False
    with Cons show ?thesis by (auto simp del: mget_mput)
  qed
qed simp

lemma gomap_ok_note_outcomes: "gomap_ok m \<Longrightarrow> gomap_ok (fold (note_outcome opts now) outs m)"
  by (induction outs arbitrary: m) (auto simp: note_outcome_eq split_paired_all)

lemma mput_nonempty [simp]: "mput k v m \<noteq> []"
  by (cases m) auto

lemma note_outcomes_nonempty: "m \<noteq> [] \<or> outs \<noteq> [] \<Longrightarrow> fold (note_outcome opts now) outs m \<noteq> []"
proof (induction outs arbitrary: m)
  case (Cons o1 outs)
  then show ?case by (cases o1) (simp add: note_outcome_eq)
qed simp

lemma leg_ok_noted: "0 \<le> lg_attempts l \<Longrightarrow> leg_ok StatusPending (noted opts now err l)"
  by (auto simp: noted_def leg_ok_def split: option.splits)

lemma legs_ok_note_outcomes:
  "gomap_ok m \<Longrightarrow> list_all (\<lambda>b. leg_ok StatusPending (snd b)) m \<Longrightarrow>
   list_all (\<lambda>b. leg_ok StatusPending (snd b)) (fold (note_outcome opts now) outs m)"
proof (induction outs arbitrary: m)
  case (Cons o1 outs)
  obtain c err where o1: "o1 = (c, err)" by (cases o1)
  have "0 \<le> lg_attempts (case mget m c of None \<Rightarrow> zero_leg | Some l \<Rightarrow> l)"
    using Cons.prems(2) by (force simp: zero_leg_def list_all_iff leg_ok_def split: option.splits dest: mget_SomeD)
  then have "list_all (\<lambda>b. leg_ok StatusPending (snd b)) (note_outcome opts now o1 m)"
    using Cons.prems by (auto simp: o1 note_outcome_eq list_all_iff set_mput leg_ok_noted)
  moreover have "gomap_ok (note_outcome opts now o1 m)" using Cons.prems(1) by (simp add: o1 note_outcome_eq)
  ultimately show ?case using Cons.IH by simp
qed simp

definition noted_channels :: "outbox_options \<Rightarrow> time \<Rightarrow> attempted \<Rightarrow> delivery \<Rightarrow> (string, leg) gomap option" where
  "noted_channels opts now ad d =
     map_option (fold (note_outcome opts now) (ad_outcomes ad))
       (if ad_outcomes ad \<noteq> [] \<and> dr_channels d = None then Some [] else dr_channels d)"

text \<open>An attempt delivers the record, gives it up, or leaves it pending with a later date.\<close>

lemma attempt_result_cases:
  obtains (delivered) e where "attempt_result opts now ad d =
      delivered_record (d\<lparr>dr_attempts := dr_attempts d + 1, dr_lastAttemptAt := now, dr_channels := noted_channels opts now ad d,
        dr_lastError := e\<rparr>)"
  | (dead) e where "oo_maxAttempts opts \<le> dr_attempts d + 1" and "attempt_result opts now ad d =
      d\<lparr>dr_attempts := dr_attempts d + 1, dr_lastAttemptAt := now, dr_lastError := e, dr_status := StatusDeadLettered,
        dr_nextAttemptAt := 0, dr_channels := map_option (map (\<lambda>(c, l). (c, dead_leg l))) (noted_channels opts now ad d)\<rparr>"
  | (waits) e t where "dr_attempts d + 1 < oo_maxAttempts opts" and "attempt_result opts now ad d =
      d\<lparr>dr_attempts := dr_attempts d + 1, dr_lastAttemptAt := now, dr_lastError := e,
        dr_nextAttemptAt := t, dr_channels := noted_channels opts now ad d\<rparr>"
proof -
  define chans where "chans = noted_channels opts now ad d"
  define d1 where "d1 = d\<lparr>dr_attempts := dr_attempts d + 1, dr_lastAttemptAt := now, dr_channels := chans\<rparr>"
  have r: "(\<exists>x e. attempt_result opts now ad d = give_up_or_wait opts now x (d1\<lparr>dr_lastError := e\<rparr>)) \<or>
      attempt_result opts now ad d = delivered_record d1"
    unfolding attempt_result_def Let_def d1_def chans_def noted_channels_def
    by (auto split: option.splits list.splits prod.splits)
  show ?thesis
  proof (cases "attempt_result opts now ad d = delivered_record d1")
    case True
    show ?thesis by (rule delivered [of "[]"]) (simp add: True d1_def chans_def delivered_record_def)
  next
    case False
    with r obtain x e where g: "attempt_result opts now ad d = give_up_or_wait opts now x (d1\<lparr>dr_lastError := e\<rparr>)" by blast
    show ?thesis
    proof (cases "oo_maxAttempts opts \<le> dr_attempts d + 1")
      case True
      then show ?thesis by (intro dead [of e]) (simp_all add: g give_up_or_wait_def d1_def chans_def)
    next
      case False
      then show ?thesis
        by (intro waits [of "now + (if backoff opts (dr_attempts d + 1) < x then x else backoff opts (dr_attempts d + 1))" e])
          (simp_all add: g give_up_or_wait_def d1_def chans_def Let_def)
    qed
  qed
qed

lemma delivery_ok_attempt_result:
  assumes ok: "delivery_ok d" and p: "dr_status d = StatusPending"
  shows "delivery_ok (attempt_result opts now ad d)"
proof -
  let ?m = "noted_channels opts now ad d"
  have m: "case ?m of None \<Rightarrow> True | Some m \<Rightarrow> m \<noteq> [] \<and> gomap_ok m \<and> list_all (\<lambda>b. leg_ok StatusPending (snd b)) m"
    using ok p note_outcomes_nonempty gomap_ok_note_outcomes legs_ok_note_outcomes
    by (auto simp: noted_channels_def delivery_ok_def split: option.splits)
  have deliv: "leg_ok StatusPending l \<Longrightarrow> leg_ok StatusDelivered l" for l by (auto simp: leg_ok_def)
  have dead: "leg_ok StatusPending l \<Longrightarrow> leg_ok StatusDeadLettered (dead_leg l)" for l
    by (auto simp: leg_ok_def dead_leg_def)
  show ?thesis
  proof (cases rule: attempt_result_cases [of opts now ad d])
    case (delivered e)
    then show ?thesis using m ok deliv
      by (auto simp: delivered_record_def delivery_ok_def list_all_iff split: option.splits)
  next
    case (dead e)
    have "case ?m of None \<Rightarrow> True | Some m \<Rightarrow>
        map (\<lambda>(c, l). (c, dead_leg l)) m \<noteq> [] \<and> gomap_ok (map (\<lambda>(c, l). (c, dead_leg l)) m) \<and>
        list_all (\<lambda>b. leg_ok StatusDeadLettered (snd b)) (map (\<lambda>(c, l). (c, dead_leg l)) m)"
      using m \<open>\<And>l. leg_ok StatusPending l \<Longrightarrow> leg_ok StatusDeadLettered (dead_leg l)\<close>
      by (auto simp: list_all_iff gomap_ok_map_vals split: option.splits)
    then show ?thesis using ok dead by (auto simp: delivery_ok_def split: option.splits)
  next
    case (waits e t)
    then show ?thesis using m ok p by (auto simp: delivery_ok_def split: option.splits)
  qed
qed

lemma attempt_lock_records:
  assumes "outbox_ok b" and "attempt_lock opts now ad snap b = (Some d', b')"
  obtains d where "mget (ob_records b) (dr_id snap) = Some d" "dr_status d = StatusPending"
    "d' = attempt_result opts now ad d" "dr_id d' = dr_id snap" "delivery_ok d'"
    "b' = b\<lparr>ob_records := mput (dr_id snap) d' (ob_records b)\<rparr>"
proof -
  obtain d where d: "mget (ob_records b) (dr_id snap) = Some d" "dr_status d = StatusPending"
    "d' = attempt_result opts now ad d" "b' = b\<lparr>ob_records := mput (dr_id snap) d' (ob_records b)\<rparr>"
    using assms(2) by (auto simp: attempt_lock_def Let_def split: option.splits if_splits)
  note ok = outbox_okD(4) [OF assms(1) d(1)]
  have "dr_id (attempt_result opts now ad d) = dr_id d"
    by (cases rule: attempt_result_cases [of opts now ad d]) (simp_all add: delivered_record_def)
  with that [OF d(1-3) _ _ d(4)] ok d(2,3) delivery_ok_attempt_result show ?thesis by simp
qed


section \<open>The type of the outbox\<close>

definition frame_ok :: "frame \<Rightarrow> bool" where
  "frame_ok x = (case x of Frame d \<Rightarrow> delivery_ok d | Corrupt \<Rightarrow> True)"

definition file_ok :: "outbox_file \<Rightarrow> bool" where
  "file_ok f \<longleftrightarrow> list_all frame_ok (fi_frames f) \<and> (case fi_tail f of Whole d \<Rightarrow> delivery_ok d | _ \<Rightarrow> True)"

definition owed_ok :: "owed \<Rightarrow> bool" where
  "owed_ok w = (case w of Copy d \<Rightarrow> delivery_ok d | Object i \<Rightarrow> True)"

definition relay_ok :: "relay \<Rightarrow> bool" where
  "relay_ok w \<longleftrightarrow> outbox_ok (rl_box w) \<and> file_ok (ob_file (rl_box w)) \<and>
     list_all (list_all owed_ok) (rl_owed w) \<and>
     (case rl_worker w of WWrite d rest \<Rightarrow> delivery_ok d | _ \<Rightarrow> True)"

definition fresh_relay :: "outbox \<Rightarrow> relay" where
  "fresh_relay b = \<lparr>rl_box = b, rl_owed = [], rl_worker = WIdle, rl_log = [],
     rl_queued = map (dr_event \<circ> snd) (ob_records b)\<rparr>"

lemma file_ok_append: "file_ok f \<Longrightarrow> delivery_ok d \<Longrightarrow> append_frame a d f = (ok, f') \<Longrightarrow> file_ok f'"
  by (cases a) (auto simp: file_ok_def frame_ok_def end_line_def split: tail.splits)

lemma file_ok_persist:
  assumes "outbox_ok b" and "file_ok (ob_file b)" and "delivery_ok d"
  shows "file_ok (ob_file (persistLocked_outbox opts a r d b))"
proof (cases "append_frame a d (ob_file b)")
  case (Pair ok f)
  have f: "file_ok f" by (rule file_ok_append [OF assms(2,3) Pair])
  let ?b = "b\<lparr>ob_file := f, ob_lines := ob_lines b + 1\<rparr>"
  have ok': "outbox_ok ?b" using assms(1) by (simp add: outbox_ok_def)
  have "frame_ok (Frame (the (mget (ob_records (compactLocked_outbox opts r ?b)) i)))"
    if "i \<in> set (ob_order (compactLocked_outbox opts r ?b))" for i
  proof -
    from outbox_ok_compactLocked [OF ok'] have c: "outbox_ok (compactLocked_outbox opts r ?b)" .
    from outbox_okD(5) [OF c, of i] that obtain x where "mget (ob_records (compactLocked_outbox opts r ?b)) i = Some x" by auto
    with outbox_okD(4) [OF c this] show ?thesis by (simp add: frame_ok_def)
  qed
  moreover have "ob_file (compactLocked_outbox opts r ?b) = f \<or> ob_file (compactLocked_outbox opts r ?b) =
      \<lparr>fi_frames = map (\<lambda>i. Frame (the (mget (ob_records (compactLocked_outbox opts r ?b)) i))) (ob_order (compactLocked_outbox opts r ?b)),
       fi_tail = NoTail\<rparr>"
    by (cases r) (auto simp: compactLocked_outbox_def Let_def split: prod.splits)
  ultimately have "file_ok (ob_file (compactLocked_outbox opts r ?b))"
    using f by (auto simp: file_ok_def list_all_iff)
  with f Pair show ?thesis by (auto simp: persistLocked_outbox_def Let_def split: bool.splits)
qed

lemma relay_ok_persist_step:
  assumes "relay_ok w" and "delivery_ok d" and "rl_worker w' = rl_worker w \<or> (\<exists>rest. rl_worker w' = WDue rest)"
    and "rl_box w' = rl_box w" and "list_all (list_all owed_ok) (rl_owed w')"
  shows "relay_ok (persist_step opts a r d w')"
proof -
  let ?b = "persistLocked_outbox opts a r d (rl_box w)"
  have ok: "outbox_ok (rl_box w)" "file_ok (ob_file (rl_box w))" using assms(1) by (simp_all add: relay_ok_def)
  have "owed_ok (keep_object (rl_box w) b' x)" if "owed_ok x" for x b'
    using that outbox_okD(4) [OF ok(1)] by (auto simp: keep_object_def owed_ok_def split: owed.splits option.splits)
  then have "list_all (list_all owed_ok) (map (map (keep_object (rl_box w) ?b)) (rl_owed w'))"
    using assms(5) by (auto simp: list_all_iff)
  moreover have "case rl_worker w' of WWrite d rest \<Rightarrow> delivery_ok d | _ \<Rightarrow> True"
    using assms(1,3) by (auto simp: relay_ok_def)
  ultimately show ?thesis
    using outbox_ok_persist [OF ok(1)] file_ok_persist [OF ok assms(2)]
    by (simp add: relay_ok_def persist_step_def Let_def assms(4))
qed

lemma relay_ok_step:
  assumes ok: "relay_ok w" and st: "relay_step opts digest a w = Some w'"
  shows "relay_ok w'"
proof -
  have b: "outbox_ok (rl_box w)" "file_ok (ob_file (rl_box w))" "list_all (list_all owed_ok) (rl_owed w)"
    using ok by (simp_all add: relay_ok_def)
  show ?thesis
  proof (cases a)
    case (ASend now cfg ev)
    show ?thesis
    proof (cases "undeliverable cfg ev \<or> fst (Send_lock digest now ev (rl_box w)) = None")
      case True
      then have "w' = w" using st ASend by (auto split: prod.splits if_splits)
      with ok show ?thesis by simp
    next
      case False
      then obtain sups d b' where s: "Send_lock digest now ev (rl_box w) = (Some (sups, d), b')"
        by (metis fst_conv not_None_eq surj_pair)
      have w': "w' = w\<lparr>rl_box := b', rl_owed := rl_owed w @ [map Copy sups @ [Object (dr_id d)]], rl_queued := rl_queued w @ [ev]\<rparr>"
        using st ASend False s by auto
      have "list_all delivery_ok sups"
      proof -
        from s have e: "sups = map (supersede \<circ> snd) (filter (supersedes ev (deliveryID digest ev) \<circ> snd)
            (mput (deliveryID digest ev) (new_delivery (deliveryID digest ev) ev now) (ob_records (rl_box w))))"
          by (auto simp: Send_lock_def Let_def split: if_splits)
        have "delivery_ok x \<and> dr_status x = StatusPending" if "(k, x) \<in> set (mput i (new_delivery i ev now) (ob_records (rl_box w)))"
          and "supersedes ev (deliveryID digest ev) x" for k x i
          using that outbox_okD(2,4) [OF b(1)] by (auto simp: set_mput supersedes_def mem_gomap_iff)
        then show ?thesis unfolding e by (force simp: list_all_iff intro: delivery_ok_supersede)
      qed
      then show ?thesis
        using b outbox_ok_Send_lock [OF b(1) s] Send_lock_records(4) [OF s] ok
        by (auto simp: relay_ok_def w' owed_ok_def list_all_iff)
    qed
  next
    case (ASuppress now ev why)
    show ?thesis
    proof (cases "RecordSuppressed_lock digest now ev why (rl_box w)")
      case (Pair o1 b')
      show ?thesis
      proof (cases o1)
        case None
        with st ASuppress Pair ok show ?thesis by auto
      next
        case (Some d)
        note R = RecordSuppressed_lock_records [OF Pair [unfolded Some]]
        from st ASuppress Pair Some have "w' = w\<lparr>rl_box := b', rl_owed := rl_owed w @ [[Object (dr_id d)]]\<rparr>" by auto
        with ok b outbox_ok_put_new [OF b(1) R(1,3)] R(4) show ?thesis by (auto simp: relay_ok_def owed_ok_def)
      qed
    qed
  next
    case (AWrite k o1 r)
    from st AWrite obtain x xs d where k: "k < length (rl_owed w)" "rl_owed w ! k = x # xs"
      and d: "owed_record (rl_box w) x = Some d" and w': "w' = persist_step opts o1 r d (w\<lparr>rl_owed := (rl_owed w)[k := xs]\<rparr>)"
      by (auto split: if_splits list.splits)
    have "list_all owed_ok (x # xs)" using b(3) k nth_mem [OF k(1)] by (simp add: list_all_iff)
    then have xs: "owed_ok x" "list_all owed_ok xs" by simp_all
    then have "delivery_ok d" using d outbox_okD(4) [OF b(1)] by (auto simp: owed_record_def owed_ok_def split: owed.splits)
    moreover have "list_all (list_all owed_ok) ((rl_owed w)[k := xs])"
      using b(3) xs(2) by (auto simp: list_all_iff dest: set_update_subset_insert [THEN subsetD])
    ultimately show ?thesis unfolding w' by (intro relay_ok_persist_step [OF ok]) simp_all
  next
    case (AScan now due)
    with st ok show ?thesis by (auto simp: relay_ok_def split: if_splits)
  next
    case (ATry io)
    with st ok show ?thesis by (auto simp: relay_ok_def Let_def split: delivery_worker.splits list.splits)
  next
    case ALock
    from st ALock obtain now snap ad rest where p: "rl_worker w = WSent now snap ad rest" by (auto split: delivery_worker.splits)
    show ?thesis
    proof (cases "attempt_lock opts now ad snap (rl_box w)")
      case (Pair o1 b')
      show ?thesis
      proof (cases o1)
        case None
        with st ALock p Pair ok show ?thesis by (auto simp: relay_ok_def)
      next
        case (Some d')
        from attempt_lock_records [OF b(1) Pair [unfolded Some]] obtain d where d: "mget (ob_records (rl_box w)) (dr_id snap) = Some d"
          "dr_id d' = dr_id snap" "delivery_ok d'" "b' = (rl_box w)\<lparr>ob_records := mput (dr_id snap) d' (ob_records (rl_box w))\<rparr>" by metis
        have "outbox_ok b'" unfolding d(4) by (rule outbox_ok_put_old [OF b(1), of d', unfolded d(2), OF d(1,3)])
        with st ALock p Pair Some ok d show ?thesis by (auto simp: relay_ok_def)
      qed
    qed
  next
    case (APersist o1 r)
    from st APersist obtain d rest where p: "rl_worker w = WWrite d rest"
      and w': "w' = persist_step opts o1 r d (w\<lparr>rl_worker := WDue rest\<rparr>)" by (auto split: delivery_worker.splits)
    show ?thesis unfolding w'
      by (rule relay_ok_persist_step [OF ok]) (use ok p b in \<open>simp_all add: relay_ok_def\<close>)
  qed
qed


lemma load_one_ok:
  assumes "outbox_ok b" and "delivery_ok d"
  shows "outbox_ok (load_one d b)"
proof (cases "mget (ob_records b) (dr_id d)")
  case None
  from outbox_ok_put_new [OF assms(1) None assms(2)] None show ?thesis
    by (auto simp: load_one_def elim: outbox_ok_cong [THEN iffD1, rotated 2])
next
  case (Some d0)
  from outbox_ok_put_old [OF assms(1) Some assms(2)] Some show ?thesis
    by (auto simp: load_one_def elim: outbox_ok_cong [THEN iffD1, rotated 2])
qed

lemma load_all_ok: "outbox_ok b \<Longrightarrow> list_all delivery_ok ds \<Longrightarrow> outbox_ok (fold load_one ds b)"
  by (induction ds arbitrary: b) (auto simp: load_one_ok)

lemma ReadJSONL_ok: "file_ok f \<Longrightarrow> ReadJSONL f = Some (ds, f') \<Longrightarrow> list_all delivery_ok ds \<and> file_ok f'"
  by (fastforce simp: ReadJSONL_def Let_def file_ok_def frame_ok_def list_all_iff List.map_filter_def
      split: if_splits tail.splits frame.splits)

lemma ob_file_load: "ob_file (fold load_one ds b) = ob_file b"
  by (induction ds arbitrary: b) (simp_all add: load_one_def)

lemma relay_ok_fresh:
  assumes "file_ok f" and "New_outbox enclen f = Some b"
  shows "relay_ok (fresh_relay b)"
proof -
  from assms(2) obtain ds f' where r: "ReadJSONL f = Some (ds, f')"
    and b: "b = fold load_one ds \<lparr>ob_records = [], ob_order = [], ob_lines = 0, ob_file = f'\<rparr>"
    by (auto simp: New_outbox_def split: option.splits if_splits)
  have "outbox_ok \<lparr>ob_records = [], ob_order = [], ob_lines = 0, ob_file = f'\<rparr>" by (simp add: outbox_ok_def)
  from load_all_ok [OF this] ReadJSONL_ok [OF assms(1) r] show ?thesis
    by (simp add: relay_ok_def fresh_relay_def b ob_file_load)
qed

text \<open>Any number of processes after each other on one journal, each stopped at any moment.\<close>

inductive lifetimes :: "outbox_options \<Rightarrow> (string \<Rightarrow> string) \<Rightarrow> (delivery \<Rightarrow> nat) \<Rightarrow> relay \<Rightarrow> bool"
  for opts digest enclen where
  first_start: "lifetimes opts digest enclen (fresh_relay empty_outbox)"
| one_step: "lifetimes opts digest enclen w \<Longrightarrow> relay_step opts digest a w = Some w' \<Longrightarrow> lifetimes opts digest enclen w'"
| next_start: "lifetimes opts digest enclen w \<Longrightarrow> New_outbox enclen (ob_file (rl_box w)) = Some b \<Longrightarrow>
    lifetimes opts digest enclen (fresh_relay b)"

text \<open>
  C40. The outbox is well-formed in every process, after every step and every restart, whatever
  writes fail: its order lists the identifiers of its records once each, a record is filed under
  its own identifier, no finished record has a next attempt, a leg of the ledger was attempted
  and is dead exactly when it was not delivered by a record that is given up.
\<close>
theorem outbox_well_formed:
  assumes "lifetimes opts digest enclen w"
  shows "relay_ok w"
  using assms
proof (induction rule: lifetimes.induct)
  case first_start
  show ?case by (simp add: relay_ok_def fresh_relay_def empty_outbox_def outbox_ok_def file_ok_def)
next
  case (one_step w a w')
  then show ?case using relay_ok_step by blast
next
  case (next_start w b)
  then show ?case using relay_ok_fresh by (auto simp: relay_ok_def)
qed

theorem outbox_well_formed_witness:
  "relay_ok (the (relay_step demo_options rev (ASuppress 5 demo_open ''held: deploy'') (fresh_relay empty_outbox)))"
proof -
  have "relay_step demo_options rev (ASuppress 5 demo_open ''held: deploy'') (fresh_relay empty_outbox) \<noteq> None"
    by (simp split: prod.split option.split)
  then have "lifetimes demo_options rev (\<lambda>_. 1)
      (the (relay_step demo_options rev (ASuppress 5 demo_open ''held: deploy'') (fresh_relay empty_outbox)))"
    using one_step [OF first_start, of demo_options rev "ASuppress 5 demo_open ''held: deploy''" _ "\<lambda>_. 1"]
    by (metis option.collapse)
  then show ?thesis by (rule outbox_well_formed)
qed

end
