(* ===== verification/OutboxLegs.thy ===== *)
theory OutboxLegs
  imports OutboxSafety
begin

text \<open>
  What the receivers see of one process of the outbox (\<open>internal/outbox/outbox.go\<close>): a leg that
  acknowledged is never sent again, and no leg is sent more than \<open>MaxAttempts\<close> times.
\<close>

section \<open>One process\<close>

text \<open>Runs of one process from a loaded journal, with a condition on the actions of its surroundings.\<close>

inductive relayed ::
    "outbox_options \<Rightarrow> (string \<Rightarrow> string) \<Rightarrow> (relay_action \<Rightarrow> relay \<Rightarrow> bool) \<Rightarrow> outbox \<Rightarrow> relay \<Rightarrow> bool"
  for opts digest ok b0 where
  relayed_start: "relayed opts digest ok b0 (fresh_relay b0)"
| relayed_step: "relayed opts digest ok b0 w \<Longrightarrow> ok a w \<Longrightarrow> relay_step opts digest a w = Some w' \<Longrightarrow>
    relayed opts digest ok b0 w'"

lemma relayed_outbox_ok:
  assumes "relayed opts digest ok b0 w" and "outbox_ok b0" and "file_ok (ob_file b0)"
  shows "relay_ok w"
  using assms(1)
proof (induction rule: relayed.induct)
  case relayed_start
  with assms(2,3) show ?case by (simp add: relay_ok_def fresh_relay_def)
qed (rule relay_ok_step)

text \<open>The sends of one leg, in order.\<close>

definition sends :: "sending_log list \<Rightarrow> string \<Rightarrow> string \<Rightarrow> bool list" where
  "sends log i c = map sl_ok (filter (\<lambda>e. sl_id e = i \<and> sl_channel e = c) log)"

lemma sends_simps [simp]: "sends [] i c = []" "sends (a @ b) i c = sends a i c @ sends b i c"
  by (simp_all add: sends_def)

definition acked :: "sending_log list \<Rightarrow> string \<Rightarrow> string \<Rightarrow> bool" where
  "acked log i c \<longleftrightarrow> True \<in> set (sends log i c)"

text \<open>At most \<open>n\<close> sends, none after an acknowledgement.\<close>

definition leg_history_ok :: "int \<Rightarrow> bool list \<Rightarrow> bool" where
  "leg_history_ok n xs \<longleftrightarrow> True \<notin> set (butlast xs) \<and> int (length xs) \<le> n"

text \<open>
  The condition: no event is enqueued again after its record was sent and then forgotten by
  compaction, and the channels of a configuration have different identifiers.
\<close>

definition calm :: "(string \<Rightarrow> string) \<Rightarrow> relay_action \<Rightarrow> relay \<Rightarrow> bool" where
  "calm digest a w =
     (case a of
        ASend now cfg ev \<Rightarrow> mget (ob_records (rl_box w)) (deliveryID digest ev) \<noteq> None \<or>
          list_all (\<lambda>e. sl_id e \<noteq> deliveryID digest ev) (rl_log w)
      | ATry io \<Rightarrow> (case at_config io of Inl e \<Rightarrow> True | Inr c \<Rightarrow> channels_ok c)
      | _ \<Rightarrow> True)"

lemma distinct_ChannelsFor: "channels_ok c \<Longrightarrow> distinct (ChannelsFor c ev)"
  using channels_ok_Migrate [of c] by (simp add: channels_ok_def ChannelsFor_def distinct_map_filter)

section \<open>The ledger and the log agree\<close>

definition settled :: "outbox_options \<Rightarrow> sending_log list \<Rightarrow> delivery \<Rightarrow> bool" where
  "settled opts log d \<longleftrightarrow> dr_attempts d < oo_maxAttempts opts \<and>
     (\<forall>c. (acked log (dr_id d) c \<longrightarrow> lg_status (leg_of d c) = StatusDelivered) \<and>
          int (length (sends log (dr_id d) c)) \<le> dr_attempts d)"

definition in_flight :: "outbox_options \<Rightarrow> sending_log list \<Rightarrow> delivery \<Rightarrow> attempted \<Rightarrow> bool" where
  "in_flight opts log d ad \<longleftrightarrow> dr_attempts d < oo_maxAttempts opts \<and> distinct (map fst (ad_outcomes ad)) \<and>
     (\<forall>c. (acked log (dr_id d) c \<longrightarrow> (c, None) \<in> set (ad_outcomes ad) \<or>
              c \<notin> fst ` set (ad_outcomes ad) \<and> lg_status (leg_of d c) = StatusDelivered) \<and>
          int (length (sends log (dr_id d) c)) \<le> dr_attempts d + 1)"

definition legs_inv :: "outbox_options \<Rightarrow> relay \<Rightarrow> bool" where
  "legs_inv opts w \<longleftrightarrow>
     (\<forall>i c. leg_history_ok (oo_maxAttempts opts) (sends (rl_log w) i c)) \<and>
     (\<forall>i d. mget (ob_records (rl_box w)) i = Some d \<longrightarrow> dr_status d = StatusPending \<longrightarrow>
        (case rl_worker w of
           WSent now snap ad rest \<Rightarrow>
             if dr_id snap = i then in_flight opts (rl_log w) d ad else settled opts (rl_log w) d
         | _ \<Rightarrow> settled opts (rl_log w) d)) \<and>
     (case rl_worker w of
        WDue ds \<Rightarrow> distinct (map dr_id ds) \<and> list_all (settled opts (rl_log w)) ds
      | WSent now snap ad ds \<Rightarrow> distinct (map dr_id (snap # ds)) \<and> list_all (settled opts (rl_log w)) ds
      | WWrite d ds \<Rightarrow> distinct (map dr_id ds) \<and> list_all (settled opts (rl_log w)) ds
      | WIdle \<Rightarrow> True)"

lemma legs_inv_weaken:
  assumes "legs_inv opts w" and "rl_log w' = rl_log w" and "rl_worker w' = rl_worker w"
    and "\<And>i d. mget (ob_records (rl_box w')) i = Some d \<Longrightarrow> dr_status d = StatusPending \<Longrightarrow>
      mget (ob_records (rl_box w)) i = Some d \<or>
      list_all (\<lambda>e. sl_id e \<noteq> i) (rl_log w) \<and> dr_id d = i \<and> dr_attempts d = 0 \<and> 0 < oo_maxAttempts opts \<and>
        (\<forall>now snap ad rest. rl_worker w = WSent now snap ad rest \<longrightarrow> dr_id snap = i \<longrightarrow> ad_outcomes ad = [])"
  shows "legs_inv opts w'"
proof -
  have new: "settled opts (rl_log w) d \<and> (ad_outcomes ad = [] \<longrightarrow> in_flight opts (rl_log w) d ad)"
    if "list_all (\<lambda>e. sl_id e \<noteq> i) (rl_log w)" "dr_id d = i" "dr_attempts d = 0" "0 < oo_maxAttempts opts" for i d ad
  proof -
    have "sends (rl_log w) i c = []" for c using that(1) by (auto simp: sends_def list_all_iff filter_empty_conv)
    with that show ?thesis by (simp add: settled_def in_flight_def acked_def)
  qed
  have "case rl_worker w of WSent now snap ad rest \<Rightarrow>
        if dr_id snap = i then in_flight opts (rl_log w) d ad else settled opts (rl_log w) d
      | _ \<Rightarrow> settled opts (rl_log w) d"
    if "mget (ob_records (rl_box w')) i = Some d" "dr_status d = StatusPending" for i d
    using assms(4) [OF that]
  proof (elim disjE conjE)
    assume "mget (ob_records (rl_box w)) i = Some d"
    with assms(1) that show ?thesis unfolding legs_inv_def by blast
  next
    assume "list_all (\<lambda>e. sl_id e \<noteq> i) (rl_log w)" "dr_id d = i" "dr_attempts d = 0" "0 < oo_maxAttempts opts"
      "\<forall>now snap ad rest. rl_worker w = WSent now snap ad rest \<longrightarrow> dr_id snap = i \<longrightarrow> ad_outcomes ad = []"
    with new [of i d] show ?thesis by (auto split: delivery_worker.split)
  qed
  then show ?thesis using assms(1) unfolding legs_inv_def assms(2,3) by blast
qed

lemma mget_persist_step:
  assumes "outbox_ok (rl_box w)" and "mget (ob_records (rl_box (persist_step opts a r d w))) i = Some x"
  shows "mget (ob_records (rl_box w)) i = Some x"
  using mget_persist [OF assms(1), of opts a r d i] assms(2) by (auto simp: persist_step_def Let_def)

lemma persist_step_fields [simp]:
  "rl_worker (persist_step opts a r d w) = rl_worker w" "rl_log (persist_step opts a r d w) = rl_log w"
  "rl_queued (persist_step opts a r d w) = rl_queued w"
  by (simp_all add: persist_step_def Let_def)

lemma sends_log_of:
  "sends (log_of snap ad) i c =
     (if i = dr_id snap then map (\<lambda>out. snd out = None) (filter (\<lambda>out. fst out = c) (ad_outcomes ad)) else [])"
proof -
  have "sends (map (\<lambda>(ch, err). \<lparr>sl_id = dr_id snap, sl_event = dr_event snap, sl_channel = ch, sl_ok = (err = None)\<rparr>) outs) i c =
     (if i = dr_id snap then map (\<lambda>out. snd out = None) (filter (\<lambda>out. fst out = c) outs) else [])" for outs
    by (induction outs) (auto simp: sends_def)
  then show ?thesis unfolding log_of_def .
qed

lemma filter_distinct_key:
  "distinct (map fst xs) \<Longrightarrow> (c, v) \<in> set xs \<Longrightarrow> filter (\<lambda>x. fst x = c) xs = [(c, v)]"
proof (induction xs)
  case (Cons x xs)
  show ?case
  proof (cases "x = (c, v)")
    case True
    then have "c \<notin> fst ` set xs" using Cons.prems(1) by auto
    then have "filter (\<lambda>x. fst x = c) xs = []" by (force simp: filter_empty_conv)
    with True show ?thesis by simp
  next
    case False
    with Cons.prems(2) have m: "(c, v) \<in> set xs" by simp
    then have "c \<in> fst ` set xs" by force
    with Cons.prems(1) have "fst x \<noteq> c" by auto
    with Cons m show ?thesis by simp
  qed
qed simp

lemma attempt_send_outcomes:
  assumes "case at_config io of Inl e \<Rightarrow> True | Inr c \<Rightarrow> channels_ok c"
  shows "distinct (map fst (ad_outcomes (attempt_send io snap)))"
    and "(c, err) \<in> set (ad_outcomes (attempt_send io snap)) \<Longrightarrow> lg_status (leg_of snap c) \<noteq> StatusDelivered"
  using assms distinct_ChannelsFor
  by (auto simp: attempt_send_def Let_def comp_def distinct_filter split: sum.splits if_splits)

lemma sends_after_try:
  assumes "distinct (map fst (ad_outcomes ad))"
  shows "sends (log @ log_of snap ad) i c = sends log i c @
    (if i = dr_id snap then (case map_of (ad_outcomes ad) c of None \<Rightarrow> [] | Some err \<Rightarrow> [err = None]) else [])"
proof (cases "map_of (ad_outcomes ad) c")
  case None
  then have "filter (\<lambda>out. fst out = c) (ad_outcomes ad) = []"
    by (force simp: filter_empty_conv map_of_eq_None_iff)
  with None show ?thesis by (simp add: sends_log_of)
next
  case (Some err)
  with filter_distinct_key [OF assms map_of_SomeD [OF Some]] show ?thesis by (simp add: sends_log_of)
qed

text \<open>A send: the log grows by the outcomes, the record waits for them.\<close>

lemma settled_try:
  assumes s: "settled opts log snap" and d: "distinct (map fst (ad_outcomes ad))"
    and new: "\<And>c err. (c, err) \<in> set (ad_outcomes ad) \<Longrightarrow> lg_status (leg_of snap c) \<noteq> StatusDelivered"
    and h: "leg_history_ok (oo_maxAttempts opts) (sends log i c)"
  shows "leg_history_ok (oo_maxAttempts opts) (sends (log @ log_of snap ad) i c)"
proof (cases "i = dr_id snap \<and> map_of (ad_outcomes ad) c \<noteq> None")
  case False
  then show ?thesis using h unfolding sends_after_try [OF d] by (auto split: option.splits)
next
  case True
  then obtain err where err: "map_of (ad_outcomes ad) c = Some err" by auto
  from new [OF map_of_SomeD [OF err]] s have "\<not> acked log (dr_id snap) c" by (auto simp: settled_def)
  moreover have "int (length (sends log (dr_id snap) c)) < oo_maxAttempts opts"
    using s by (auto simp: settled_def intro: le_less_trans)
  ultimately show ?thesis
    using True err unfolding sends_after_try [OF d] by (auto simp: leg_history_ok_def acked_def)
qed

lemma settled_other:
  "settled opts log d \<Longrightarrow> dr_id d \<noteq> dr_id snap \<Longrightarrow> settled opts (log @ log_of snap ad) d"
  by (simp add: settled_def acked_def sends_log_of)

lemma settled_in_flight:
  assumes s: "settled opts log d" and i: "dr_id d = dr_id snap" and di: "distinct (map fst (ad_outcomes ad))"
    and sn: "settled opts log snap"
    and new: "\<And>c err. (c, err) \<in> set (ad_outcomes ad) \<Longrightarrow> lg_status (leg_of snap c) \<noteq> StatusDelivered"
  shows "in_flight opts (log @ log_of snap ad) d ad"
  unfolding in_flight_def
proof (intro conjI allI impI)
  show "dr_attempts d < oo_maxAttempts opts" "distinct (map fst (ad_outcomes ad))" using s di by (simp_all add: settled_def)
  fix c
  show "int (length (sends (log @ log_of snap ad) (dr_id d) c)) \<le> dr_attempts d + 1"
  proof -
    have "int (length (sends log (dr_id d) c)) \<le> dr_attempts d" using s by (simp add: settled_def)
    then show ?thesis unfolding sends_after_try [OF di] i by (simp split: option.split)
  qed
  assume a: "acked (log @ log_of snap ad) (dr_id d) c"
  show "(c, None) \<in> set (ad_outcomes ad) \<or> c \<notin> fst ` set (ad_outcomes ad) \<and> lg_status (leg_of d c) = StatusDelivered"
  proof (cases "map_of (ad_outcomes ad) c")
    case None
    then have "acked log (dr_id d) c" using a i unfolding acked_def sends_after_try [OF di] by simp
    with s None show ?thesis by (simp add: settled_def map_of_eq_None_iff)
  next
    case (Some err)
    have m: "(c, err) \<in> set (ad_outcomes ad)" by (rule map_of_SomeD [OF Some])
    have "\<not> acked log (dr_id snap) c" using new [OF m] sn by (auto simp: settled_def)
    then have "err = None" using a Some i unfolding acked_def sends_after_try [OF di] by auto
    with m show ?thesis by blast
  qed
qed


lemma leg_of_noted:
  assumes "dr_channels d' = noted_channels opts now ad d" and "distinct (map fst (ad_outcomes ad))"
  shows "(c, None) \<in> set (ad_outcomes ad) \<Longrightarrow> lg_status (leg_of d' c) = StatusDelivered"
    and "c \<notin> fst ` set (ad_outcomes ad) \<Longrightarrow> leg_of d' c = leg_of d c"
proof -
  assume m: "(c, None) \<in> set (ad_outcomes ad)"
  then have "ad_outcomes ad \<noteq> []" by auto
  then obtain m0 where "noted_channels opts now ad d = Some (fold (note_outcome opts now) (ad_outcomes ad) m0)"
    by (cases "dr_channels d") (auto simp: noted_channels_def)
  with note_outcomes_one [OF assms(2) m, of opts now m0] assms(1) show "lg_status (leg_of d' c) = StatusDelivered"
    by (auto simp: leg_of_def noted_def)
next
  assume "c \<notin> fst ` set (ad_outcomes ad)"
  then show "leg_of d' c = leg_of d c"
    using assms(1) by (auto simp: leg_of_def noted_channels_def note_outcomes_other split: option.splits)
qed

lemma settled_result:
  assumes f: "in_flight opts log d ad" and p: "dr_status d = StatusPending" and i: "dr_id d = i"
    and p': "dr_status (attempt_result opts now ad d) = StatusPending"
  shows "settled opts log (attempt_result opts now ad d)"
proof (cases rule: attempt_result_cases [of opts now ad d])
  case (delivered e)
  with p' show ?thesis by (simp add: delivered_record_def)
next
  case (dead e)
  with p' show ?thesis by simp
next
  case (waits e t)
  have d: "distinct (map fst (ad_outcomes ad))" using f by (simp add: in_flight_def)
  have ch: "dr_channels (attempt_result opts now ad d) = noted_channels opts now ad d" using waits by simp
  have "lg_status (leg_of (attempt_result opts now ad d) c) = StatusDelivered" if "acked log (dr_id d) c" for c
  proof -
    from f that consider "(c, None) \<in> set (ad_outcomes ad)"
      | "c \<notin> fst ` set (ad_outcomes ad)" "lg_status (leg_of d c) = StatusDelivered"
      by (auto simp: in_flight_def)
    then show ?thesis using leg_of_noted [OF ch d] by cases simp_all
  qed
  with f waits show ?thesis by (simp add: settled_def in_flight_def)
qed

lemma legs_inv_parts:
  assumes "legs_inv opts w"
  shows "leg_history_ok (oo_maxAttempts opts) (sends (rl_log w) i c)"
    and "mget (ob_records (rl_box w)) i = Some d \<Longrightarrow> dr_status d = StatusPending \<Longrightarrow>
        (case rl_worker w of
           WSent now snap ad rest \<Rightarrow>
             if dr_id snap = i then in_flight opts (rl_log w) d ad else settled opts (rl_log w) d
         | _ \<Rightarrow> settled opts (rl_log w) d)"
    and "case rl_worker w of
        WDue ds \<Rightarrow> distinct (map dr_id ds) \<and> list_all (settled opts (rl_log w)) ds
      | WSent now snap ad ds \<Rightarrow> distinct (map dr_id (snap # ds)) \<and> list_all (settled opts (rl_log w)) ds
      | WWrite d ds \<Rightarrow> distinct (map dr_id ds) \<and> list_all (settled opts (rl_log w)) ds
      | WIdle \<Rightarrow> True"
  using assms unfolding legs_inv_def by blast+

lemma legs_inv_scan:
  assumes i: "legs_inv opts w" and ok: "outbox_ok (rl_box w)" and w: "rl_worker w = WIdle"
    and due: "mset due = mset (deliverDue now (rl_box w))"
  shows "legs_inv opts (w\<lparr>rl_worker := WDue due\<rparr>)"
proof -
  note D = outbox_okD [OF ok]
  let ?f = "filter (\<lambda>b. due_at now (snd b)) (ob_records (rl_box w))"
  have ids: "dr_id d = k" if "(k, d) \<in> set (ob_records (rl_box w))" for k d
    using that D(2,4) by (auto simp: mem_gomap_iff)
  have eq: "map dr_id (map snd ?f) = map fst ?f" using ids by (auto simp: map_eq_conv)
  have dis: "distinct (map dr_id (map snd ?f))"
    unfolding eq using D(2) distinct_map_filter [of fst "ob_records (rl_box w)" "\<lambda>b. due_at now (snd b)"] by (simp add: gomap_ok_def)
  have ms: "mset due = mset (map snd ?f)"
    using due by (simp add: deliverDue_def filter_map comp_def)
  then have "mset (map dr_id due) = mset (map dr_id (map snd ?f))" by (metis mset_map)
  then have dist: "distinct (map dr_id due)" using dis mset_eq_imp_distinct_iff by blast
  have "settled opts (rl_log w) d" if "d \<in> set due" for d
  proof -
    from that ms have "d \<in> snd ` set ?f" by (metis image_set mset_eq_setD)
    then obtain k where "(k, d) \<in> set (ob_records (rl_box w))" "due_at now d" by auto
    with D(2) legs_inv_parts(2) [OF i, of k d] w show ?thesis by (simp add: mem_gomap_iff due_at_def)
  qed
  with dist i w show ?thesis by (auto simp: legs_inv_def list_all_iff)
qed

lemma legs_inv_try:
  assumes i: "legs_inv opts w" and ok: "outbox_ok (rl_box w)" and w: "rl_worker w = WDue (snap # rest)"
    and c: "case at_config io of Inl e \<Rightarrow> True | Inr c \<Rightarrow> channels_ok c"
  shows "legs_inv opts (w\<lparr>rl_worker := WSent (at_now io) snap (attempt_send io snap) rest,
      rl_log := rl_log w @ log_of snap (attempt_send io snap)\<rparr>)"
proof -
  let ?ad = "attempt_send io snap"
  note A = attempt_send_outcomes [OF c, where snap = snap]
  from legs_inv_parts(3) [OF i] w have r: "distinct (map dr_id (snap # rest))" "settled opts (rl_log w) snap"
    "list_all (settled opts (rl_log w)) rest" by simp_all
  have "leg_history_ok (oo_maxAttempts opts) (sends (rl_log w @ log_of snap ?ad) i c)" for i c
    by (rule settled_try [OF r(2) A legs_inv_parts(1) [OF i]])
  moreover have "if dr_id snap = k then in_flight opts (rl_log w @ log_of snap ?ad) d ?ad
      else settled opts (rl_log w @ log_of snap ?ad) d"
    if d: "mget (ob_records (rl_box w)) k = Some d" "dr_status d = StatusPending" for k d
  proof -
    have s: "settled opts (rl_log w) d" using legs_inv_parts(2) [OF i d] w by simp
    have "dr_id d = k" using outbox_okD(4) [OF ok d(1)] by blast
    with settled_in_flight [OF s _ A(1) r(2) A(2)] settled_other [OF s, of snap ?ad] show ?thesis by auto
  qed
  moreover have "settled opts (rl_log w @ log_of snap ?ad) d" if "d \<in> set rest" for d
  proof (rule settled_other)
    show "settled opts (rl_log w) d" using r(3) that by (simp add: list_all_iff)
    show "dr_id d \<noteq> dr_id snap" using r(1) that by (metis distinct.simps(2) image_eqI list.set_map list.simps(9))
  qed
  then have "list_all (settled opts (rl_log w @ log_of snap ?ad)) rest" by (simp add: list_all_iff)
  ultimately show ?thesis using r(1) unfolding legs_inv_def by simp
qed

lemma legs_inv_lock:
  assumes i: "legs_inv opts w" and ok: "outbox_ok (rl_box w)" and w: "rl_worker w = WSent now snap ad rest"
    and st: "relay_step opts digest ALock w = Some w'"
  shows "legs_inv opts w'"
proof -
  from legs_inv_parts(3) [OF i] w have r: "distinct (map dr_id (snap # rest))" "list_all (settled opts (rl_log w)) rest"
    by simp_all
  have rec: "if dr_id snap = k then in_flight opts (rl_log w) d ad else settled opts (rl_log w) d"
    if "mget (ob_records (rl_box w)) k = Some d" "dr_status d = StatusPending" for k d
    using legs_inv_parts(2) [OF i that] w by simp
  show ?thesis
  proof (cases "attempt_lock opts now ad snap (rl_box w)")
    case (Pair o1 b')
    show ?thesis
    proof (cases o1)
      case None
      then have gone: "mget (ob_records (rl_box w)) (dr_id snap) = None \<or>
          (\<exists>d. mget (ob_records (rl_box w)) (dr_id snap) = Some d \<and> dr_status d \<noteq> StatusPending)"
        using Pair by (auto simp: attempt_lock_def Let_def split: option.splits if_splits)
      have "settled opts (rl_log w) d" if "mget (ob_records (rl_box w)) k = Some d" "dr_status d = StatusPending" for k d
        using rec [OF that] gone that by (auto split: if_splits)
      moreover have "w' = w\<lparr>rl_worker := WDue rest\<rparr>" using st w Pair None by simp
      ultimately show ?thesis using i r unfolding legs_inv_def by simp
    next
      case (Some d')
      from attempt_lock_records [OF ok Pair [unfolded Some]] obtain d where d: "mget (ob_records (rl_box w)) (dr_id snap) = Some d"
        "dr_status d = StatusPending" "d' = attempt_result opts now ad d" "dr_id d' = dr_id snap"
        "b' = (rl_box w)\<lparr>ob_records := mput (dr_id snap) d' (ob_records (rl_box w))\<rparr>" by metis
      have fl: "in_flight opts (rl_log w) d ad" using rec [OF d(1,2)] by simp
      have "settled opts (rl_log w) x" if x: "mget (ob_records b') k = Some x" "dr_status x = StatusPending" for k x
      proof (cases "k = dr_id snap")
        case True
        with x d(5) have "x = d'" by simp
        with settled_result [OF fl d(2) refl] d(3) x(2) show ?thesis by simp
      next
        case False
        with x d(5) have "mget (ob_records (rl_box w)) k = Some x" by simp
        with rec [of k x] x(2) False show ?thesis by auto
      qed
      moreover have "w' = w\<lparr>rl_box := b', rl_worker := WWrite d' rest\<rparr>" using st w Pair Some by simp
      ultimately show ?thesis using i r unfolding legs_inv_def by simp
    qed
  qed
qed


lemma legs_inv_enqueue:
  assumes i: "legs_inv opts w" and ok: "outbox_ok (rl_box w)" and mx: "0 < oo_maxAttempts opts"
    and f: "list_all (\<lambda>e. sl_id e \<noteq> dr_id d) (rl_log w)" and lw: "rl_log w' = rl_log w" "rl_worker w' = rl_worker w"
    and fl: "\<And>now snap ad rest. rl_worker w = WSent now snap ad rest \<Longrightarrow> dr_id snap = dr_id d \<Longrightarrow> ad_outcomes ad = []"
    and s: "Send_lock digest now ev (rl_box w) = (Some (sups, d), rl_box w')"
  shows "legs_inv opts w'"
proof (rule legs_inv_weaken [OF i lw])
  fix k x
  assume x: "mget (ob_records (rl_box w')) k = Some x" "dr_status x = StatusPending"
  note S = Send_lock_records [OF s]
  show "mget (ob_records (rl_box w)) k = Some x \<or>
      list_all (\<lambda>e. sl_id e \<noteq> k) (rl_log w) \<and> dr_id x = k \<and> dr_attempts x = 0 \<and> 0 < oo_maxAttempts opts \<and>
        (\<forall>now snap ad rest. rl_worker w = WSent now snap ad rest \<longrightarrow> dr_id snap = k \<longrightarrow> ad_outcomes ad = [])"
  proof (cases "k = dr_id d")
    case True
    then have "x = d" using x(1) unfolding S(5) by simp
    moreover have "dr_attempts d = 0" unfolding S(2) by simp
    ultimately show ?thesis using True f mx fl by auto
  next
    case False
    then show ?thesis using x unfolding S(5) by (auto split: if_splits)
  qed
qed

lemma log_of_in_flight:
  assumes "list_all (\<lambda>e. sl_id e \<noteq> dr_id snap) (log @ log_of snap ad)"
  shows "ad_outcomes ad = []"
  using assms by (cases "ad_outcomes ad") (auto simp: log_of_def)

text \<open>The sends of the attempt in flight are in the log.\<close>

definition flight_logged :: "relay \<Rightarrow> bool" where
  "flight_logged w = (case rl_worker w of WSent now snap ad rest \<Rightarrow> (\<exists>log. rl_log w = log @ log_of snap ad) | _ \<Rightarrow> True)"

lemma flight_logged_step:
  assumes "flight_logged w" and "relay_step opts digest a w = Some w'"
  shows "flight_logged w'"
  using assms
  by (cases a) (auto simp: flight_logged_def Let_def split: if_splits option.splits prod.splits list.splits delivery_worker.splits)

lemma legs_inv_step:
  assumes i: "legs_inv opts w" and ok: "relay_ok w" and fl: "flight_logged w" and mx: "0 < oo_maxAttempts opts"
    and calm: "calm digest a w" and st: "relay_step opts digest a w = Some w'"
  shows "legs_inv opts w'"
proof -
  have b: "outbox_ok (rl_box w)" using ok by (simp add: relay_ok_def)
  have persisted: "legs_inv opts (persist_step opts x r d w1)"
    if "rl_box w1 = rl_box w" "rl_log w1 = rl_log w" "rl_worker w1 = rl_worker w" for x r d w1
    by (rule legs_inv_weaken [OF i]) (use that mget_persist_step [of w1 opts x r d] b in auto)
  show ?thesis
  proof (cases a)
    case (ASend now cfg ev)
    show ?thesis
    proof (cases "undeliverable cfg ev \<or> fst (Send_lock digest now ev (rl_box w)) = None")
      case True
      then have "w' = w" using st ASend by (auto split: prod.splits if_splits)
      with i show ?thesis by simp
    next
      case False
      then obtain sups d b' where s: "Send_lock digest now ev (rl_box w) = (Some (sups, d), b')"
        by (metis fst_conv not_None_eq surj_pair)
      have w': "w' = w\<lparr>rl_box := b', rl_owed := rl_owed w @ [map Copy sups @ [Object (dr_id d)]], rl_queued := rl_queued w @ [ev]\<rparr>"
        using st ASend False s by auto
      have id: "dr_id d = deliveryID digest ev" using Send_lock_records(2) [OF s] by simp
      have new: "list_all (\<lambda>e. sl_id e \<noteq> dr_id d) (rl_log w)"
        using calm ASend Send_lock_records(1) [OF s] by (simp add: calm_def id)
      have "ad_outcomes ad = []" if "rl_worker w = WSent n snap ad rest" "dr_id snap = dr_id d" for n snap ad rest
      proof -
        from fl that(1) obtain log where "rl_log w = log @ log_of snap ad" by (auto simp: flight_logged_def)
        with new that(2) show ?thesis using log_of_in_flight by metis
      qed
      then show ?thesis
        by (intro legs_inv_enqueue [OF i b mx new, of w' digest now ev sups]) (use s in \<open>auto simp: w'\<close>)
    qed
  next
    case (ASuppress now ev why)
    show ?thesis
    proof (cases "RecordSuppressed_lock digest now ev why (rl_box w)")
      case (Pair o1 b')
      show ?thesis
      proof (cases o1)
        case None
        with st ASuppress Pair i show ?thesis by auto
      next
        case (Some d)
        note R = RecordSuppressed_lock_records [OF Pair [unfolded Some]]
        from st ASuppress Pair Some have "w' = w\<lparr>rl_box := b', rl_owed := rl_owed w @ [[Object (dr_id d)]]\<rparr>" by auto
        then show ?thesis
          by (intro legs_inv_weaken [OF i]) (use R in \<open>auto split: if_splits\<close>)
      qed
    qed
  next
    case (AWrite k o1 r)
    with st persisted show ?thesis by (auto split: if_splits list.splits)
  next
    case (AScan now due)
    with st legs_inv_scan [OF i b] show ?thesis by (auto split: if_splits)
  next
    case (ATry io)
    have c: "case at_config io of Inl e \<Rightarrow> True | Inr c \<Rightarrow> channels_ok c" using calm ATry by (simp add: calm_def)
    from st ATry consider "rl_worker w = WDue []" "w' = w\<lparr>rl_worker := WIdle\<rparr>"
      | snap rest where "rl_worker w = WDue (snap # rest)" "w' = w\<lparr>rl_worker := WSent (at_now io) snap (attempt_send io snap) rest,
          rl_log := rl_log w @ log_of snap (attempt_send io snap)\<rparr>"
      by (auto simp: Let_def split: delivery_worker.splits list.splits)
    then show ?thesis
    proof cases
      case 1
      then show ?thesis using i by (auto simp: legs_inv_def)
    next
      case 2
      then show ?thesis using legs_inv_try [OF i b _ c] by simp
    qed
  next
    case ALock
    from st ALock obtain now snap ad rest where "rl_worker w = WSent now snap ad rest" by (auto split: delivery_worker.splits)
    from legs_inv_lock [OF i b this] st ALock show ?thesis by simp
  next
    case (APersist o1 r)
    from st APersist obtain d rest where p: "rl_worker w = WWrite d rest"
      and w': "w' = persist_step opts o1 r d (w\<lparr>rl_worker := WDue rest\<rparr>)" by (auto split: delivery_worker.splits)
    have "legs_inv opts (w\<lparr>rl_worker := WDue rest\<rparr>)" using i p by (auto simp: legs_inv_def)
    then show ?thesis unfolding w'
      by (rule legs_inv_weaken) (use mget_persist_step [of "w\<lparr>rl_worker := WDue rest\<rparr>" opts o1 r d] b in auto)
  qed
qed

text \<open>A process starts with every pending record below the attempt limit.\<close>

definition attempts_left :: "outbox_options \<Rightarrow> outbox \<Rightarrow> bool" where
  "attempts_left opts b \<longleftrightarrow> list_all (\<lambda>x. dr_status (snd x) = StatusPending \<longrightarrow> dr_attempts (snd x) < oo_maxAttempts opts) (ob_records b)"

text \<open>
  C38. Per-channel accounting. In one process of the outbox, under every interleaving of its
  producers and its worker, with every outcome of the sends and the writes, a leg (one channel of
  one delivery) that acknowledged is never sent again, and no leg is sent more than \<open>MaxAttempts\<close>
  times.
\<close>
theorem acknowledged_leg_is_never_resent:
  assumes "relayed opts digest (calm digest) b0 w" and "outbox_ok b0" and "file_ok (ob_file b0)"
    and "0 < oo_maxAttempts opts" and "attempts_left opts b0"
  shows "leg_history_ok (oo_maxAttempts opts) (sends (rl_log w) i c)"
proof -
  have "legs_inv opts w \<and> relay_ok w \<and> flight_logged w"
    using assms(1)
  proof (induction rule: relayed.induct)
    case relayed_start
    have "dr_attempts d < oo_maxAttempts opts \<and> 0 \<le> dr_attempts d"
      if "mget (ob_records b0) k = Some d" "dr_status d = StatusPending" for k d
      using assms(5) that outbox_okD(4) [OF assms(2) that(1)] mget_SomeD [OF that(1)]
      by (force simp: attempts_left_def list_all_iff delivery_ok_def)
    then show ?case
      using assms(2-4)
      by (auto simp: legs_inv_def fresh_relay_def relay_ok_def flight_logged_def settled_def acked_def leg_history_ok_def)
  next
    case (relayed_step w a w')
    then show ?case using legs_inv_step [OF _ _ _ assms(4)] relay_ok_step flight_logged_step by blast
  qed
  then show ?thesis using legs_inv_parts(1) by blast
qed


section \<open>A run\<close>

fun run_relay :: "outbox_options \<Rightarrow> (string \<Rightarrow> string) \<Rightarrow> relay_action list \<Rightarrow> relay \<Rightarrow> relay option" where
  "run_relay opts digest [] w = Some w"
| "run_relay opts digest (a # as) w =
     (case relay_step opts digest a w of None \<Rightarrow> None | Some w' \<Rightarrow> run_relay opts digest as w')"

fun run_allowed ::
    "outbox_options \<Rightarrow> (string \<Rightarrow> string) \<Rightarrow> (relay_action \<Rightarrow> relay \<Rightarrow> bool) \<Rightarrow> relay_action list \<Rightarrow> relay \<Rightarrow> bool" where
  "run_allowed opts digest ok [] w = True"
| "run_allowed opts digest ok (a # as) w \<longleftrightarrow> ok a w \<and>
     (case relay_step opts digest a w of None \<Rightarrow> True | Some w' \<Rightarrow> run_allowed opts digest ok as w')"

lemma relayed_run:
  "relayed opts digest ok b0 w \<Longrightarrow> run_allowed opts digest ok as w \<Longrightarrow> run_relay opts digest as w = Some w' \<Longrightarrow>
   relayed opts digest ok b0 w'"
  by (induction as arbitrary: w) (auto split: option.splits intro: relayed_step)

definition demo_digest :: "string \<Rightarrow> string" where
  "demo_digest k = show_nat (length k)"

text \<open>The webhook refuses the first attempt and accepts the second; the other channel accepts at once.\<close>

definition demo_attempt :: "time \<Rightarrow> bool \<Rightarrow> attempt_io" where
  "demo_attempt now up = \<lparr>at_config = Inr sample_config, at_now = now, at_perChannel = True,
     at_sendChannel = (\<lambda>ev ch. if ch = ''webhook'' \<and> \<not> up then Some (''refused'', 0) else None),
     at_sendSync = (\<lambda>ev. None)\<rparr>"

definition first_scan :: "relay_action list" where
  "first_scan = [ASend 10 (Inr sample_config) demo_open, AWrite 0 AppendOk Replaced]"

definition after_send :: relay where
  "after_send = the (run_relay demo_options demo_digest first_scan (fresh_relay empty_outbox))"

definition after_first :: relay where
  "after_first = the (run_relay demo_options demo_digest
     [AScan 10 (deliverDue 10 (rl_box after_send)), ATry (demo_attempt 12 False), ALock, APersist AppendOk Replaced, ATry (demo_attempt 12 False)] after_send)"

definition demo_relay_script :: "relay_action list" where
  "demo_relay_script = first_scan @
     [AScan 10 (deliverDue 10 (rl_box after_send)), ATry (demo_attempt 12 False), ALock, APersist AppendOk Replaced, ATry (demo_attempt 12 False),
      AScan (minute + 12) (deliverDue (minute + 12) (rl_box after_first)), ATry (demo_attempt (minute + 13) True), ALock]"

theorem acknowledged_leg_is_never_resent_witness:
  "(case run_relay demo_options demo_digest demo_relay_script (fresh_relay empty_outbox) of
      None \<Rightarrow> False
    | Some w \<Rightarrow> map (sends (rl_log w) (deliveryID demo_digest demo_open)) [''webhook'', ''ops''] = [[False, True], [True]] \<and>
        leg_history_ok 3 (sends (rl_log w) (deliveryID demo_digest demo_open) ''webhook''))"
proof -
  have run: "run_relay demo_options demo_digest demo_relay_script (fresh_relay empty_outbox) \<noteq> None" by code_simp
  then obtain w where w: "run_relay demo_options demo_digest demo_relay_script (fresh_relay empty_outbox) = Some w" by auto
  have log: "map_option (\<lambda>w. map (sends (rl_log w) (deliveryID demo_digest demo_open)) [''webhook'', ''ops''])
      (run_relay demo_options demo_digest demo_relay_script (fresh_relay empty_outbox)) = Some [[False, True], [True]]" by code_simp
  have "run_allowed demo_options demo_digest (calm demo_digest) demo_relay_script (fresh_relay empty_outbox)"
    by code_simp
  from relayed_run [OF relayed_start this w] have r: "relayed demo_options demo_digest (calm demo_digest) empty_outbox w" .
  have e: "outbox_ok empty_outbox" "file_ok (ob_file empty_outbox)" "0 < oo_maxAttempts demo_options" "attempts_left demo_options empty_outbox"
    by (simp_all add: outbox_ok_def empty_outbox_def file_ok_def demo_options_def withDefaults_def attempts_left_def)
  have "oo_maxAttempts demo_options = 3" by code_simp
  with acknowledged_leg_is_never_resent [OF r e, of "deliveryID demo_digest demo_open" "''webhook''"] log w show ?thesis
    by simp
qed

end
