(* ===== verification/OutboxOrder.thy ===== *)
theory OutboxOrder
  imports OutboxLegs
begin

text \<open>
  The order of the alerts of one incident at the receivers, for one process of the outbox
  (\<open>internal/outbox/outbox.go\<close>): superseding keeps a retried open behind its recovery away from them.
\<close>

section \<open>Opens and recoveries\<close>

definition closes :: "string \<Rightarrow> alert_event \<Rightarrow> bool" where
  "closes j ev \<longleftrightarrow> ae_incidentID ev = j \<and> ae_kind ev = KindRecovered"

definition opens :: "string \<Rightarrow> alert_event \<Rightarrow> bool" where
  "opens j ev \<longleftrightarrow> ae_incidentID ev = j \<and> ae_kind ev \<in> {KindOpened, KindRepeat}"

lemma not_opens_and_closes: "opens j ev \<Longrightarrow> \<not> closes j ev"
  by (auto simp: opens_def closes_def)

fun no_reopen :: "string \<Rightarrow> alert_event list \<Rightarrow> bool" where
  "no_reopen j [] = True"
| "no_reopen j (ev # evs) \<longleftrightarrow> (closes j ev \<longrightarrow> list_all (\<lambda>x. \<not> opens j x) evs) \<and> no_reopen j evs"

lemma no_reopen_append:
  "no_reopen j (xs @ ys) \<longleftrightarrow> no_reopen j xs \<and> no_reopen j ys \<and>
     (list_ex (closes j) xs \<longrightarrow> list_all (\<lambda>x. \<not> opens j x) ys)"
  by (induction xs) auto

lemma no_reopen_same: "list_all (\<lambda>x. x = ev) xs \<Longrightarrow> no_reopen j xs"
  by (induction xs) (auto simp: list_all_iff opens_def closes_def)

text \<open>The producers: no open or reminder of an incident behind its recovery.\<close>

definition ordered :: "relay_action \<Rightarrow> relay \<Rightarrow> bool" where
  "ordered a w =
     (case a of
        ASend now cfg ev \<Rightarrow> ae_incidentID ev = [] \<or> \<not> opens (ae_incidentID ev) ev \<or>
          \<not> list_ex (closes (ae_incidentID ev)) (rl_queued w)
      | _ \<Rightarrow> True)"

text \<open>No pending open or reminder next to a recovery of its incident: what a complete journal leaves.\<close>

definition reopen_free :: "alert_event list \<Rightarrow> outbox \<Rightarrow> bool" where
  "reopen_free known b \<longleftrightarrow>
     list_all (\<lambda>x. dr_status (snd x) = StatusPending \<longrightarrow> dr_event (snd x) \<in> set known \<and>
         (ae_incidentID (dr_event (snd x)) = [] \<or> \<not> opens (ae_incidentID (dr_event (snd x))) (dr_event (snd x)) \<or>
          \<not> list_ex (closes (ae_incidentID (dr_event (snd x)))) known)) (ob_records b)"

lemma reopen_freeD:
  assumes "reopen_free known b" and "mget (ob_records b) i = Some d" and "dr_status d = StatusPending"
  shows "dr_event d \<in> set known" and "j \<noteq> [] \<Longrightarrow> opens j (dr_event d) \<Longrightarrow> \<not> list_ex (closes j) known"
  using assms(1,3) mget_SomeD [OF assms(2)] by (auto simp: reopen_free_def list_all_iff opens_def)

lemma reopen_freeI:
  assumes "gomap_ok (ob_records b)"
    and "\<And>i d. mget (ob_records b) i = Some d \<Longrightarrow> dr_status d = StatusPending \<Longrightarrow>
      dr_event d \<in> set known \<and> (\<forall>j. j \<noteq> [] \<longrightarrow> opens j (dr_event d) \<longrightarrow> \<not> list_ex (closes j) known)"
  shows "reopen_free known b"
  using assms by (fastforce simp: reopen_free_def list_all_iff mem_gomap_iff)

definition waiting :: "delivery_worker \<Rightarrow> delivery list" where
  "waiting p = (case p of WIdle \<Rightarrow> [] | WDue ds \<Rightarrow> ds | WSent now snap ad ds \<Rightarrow> ds | WWrite d ds \<Rightarrow> ds)"

definition order_inv :: "relay \<Rightarrow> bool" where
  "order_inv w \<longleftrightarrow> reopen_free (rl_queued w) (rl_box w) \<and>
     (\<forall>j. j \<noteq> [] \<longrightarrow>
        no_reopen j (map sl_event (rl_log w)) \<and>
        (list_ex (closes j \<circ> sl_event) (rl_log w) \<longrightarrow>
           list_ex (closes j) (rl_queued w) \<and> list_all (\<lambda>d. \<not> opens j (dr_event d)) (waiting (rl_worker w))) \<and>
        (list_ex (closes j \<circ> dr_event) (waiting (rl_worker w)) \<longrightarrow>
           list_ex (closes j) (rl_queued w) \<and> list_all (\<lambda>d. \<not> opens j (dr_event d)) (waiting (rl_worker w))))"

lemma order_inv_box:
  assumes "order_inv w" and "rl_log w' = rl_log w" and "waiting (rl_worker w') = waiting (rl_worker w)"
    and "reopen_free (rl_queued w') (rl_box w')" and "set (rl_queued w) \<subseteq> set (rl_queued w')"
  shows "order_inv w'"
proof -
  have "list_ex P (rl_queued w')" if "list_ex P (rl_queued w)" for P
    using that assms(5) by (auto simp: list_ex_iff)
  then show ?thesis using assms(1,4) unfolding order_inv_def assms(2,3) by blast
qed

lemma reopen_free_sub:
  assumes "reopen_free known b" and "gomap_ok (ob_records b')"
    and "\<And>i d. mget (ob_records b') i = Some d \<Longrightarrow> dr_status d = StatusPending \<Longrightarrow>
      \<exists>d0. mget (ob_records b) i = Some d0 \<and> dr_status d0 = StatusPending \<and> dr_event d0 = dr_event d"
  shows "reopen_free known b'"
proof (rule reopen_freeI [OF assms(2)])
  fix i d
  assume d: "mget (ob_records b') i = Some d" "dr_status d = StatusPending"
  from assms(3) [OF d] obtain d0 where "mget (ob_records b) i = Some d0" "dr_status d0 = StatusPending" "dr_event d0 = dr_event d"
    by blast
  with reopen_freeD [OF assms(1)] show "dr_event d \<in> set known \<and> (\<forall>j. j \<noteq> [] \<longrightarrow> opens j (dr_event d) \<longrightarrow> \<not> list_ex (closes j) known)"
    by metis
qed

lemma reopen_free_Send:
  assumes r: "reopen_free known b" and ok: "outbox_ok b" and s: "Send_lock digest now ev b = (Some (sups, d), b')"
    and o: "ae_incidentID ev = [] \<or> \<not> opens (ae_incidentID ev) ev \<or> \<not> list_ex (closes (ae_incidentID ev)) known"
  shows "reopen_free (known @ [ev]) b'"
proof (rule reopen_freeI)
  note S = Send_lock_records [OF s]
  show "gomap_ok (ob_records b')" by (rule S(6) [OF outbox_okD(2) [OF ok]])
  fix i x
  assume x: "mget (ob_records b') i = Some x" "dr_status x = StatusPending"
  show "dr_event x \<in> set (known @ [ev]) \<and> (\<forall>j. j \<noteq> [] \<longrightarrow> opens j (dr_event x) \<longrightarrow> \<not> list_ex (closes j) (known @ [ev]))"
  proof (cases "i = dr_id d")
    case True
    then have "x = d" using x(1) unfolding S(5) by simp
    then have "dr_event x = ev" unfolding S(2) by simp
    with o show ?thesis by (auto simp: opens_def closes_def)
  next
    case False
    with x obtain x0 where x0': "mget (ob_records b) i = Some x0" "x = (if supersedes ev (dr_id d) x0 then supersede x0 else x0)"
      unfolding S(5) by auto
    then have "\<not> supersedes ev (dr_id d) x0" using x(2) by auto
    with x0' have x0: "mget (ob_records b) i = Some x0" "x = x0" "\<not> supersedes ev (dr_id d) x0" by simp_all
    have id: "dr_id x0 \<noteq> dr_id d" using outbox_okD(4) [OF ok x0(1)] False by simp
    note R = reopen_freeD [OF r x0(1)]
    have "\<not> closes j ev" if "j \<noteq> []" "opens j (dr_event x)" for j
      using that x0 x(2) id by (auto simp: supersedes_def opens_def closes_def)
    with R x(2) x0(2) show ?thesis by auto
  qed
qed

lemma order_inv_step:
  assumes i: "order_inv w" and ok: "outbox_ok (rl_box w)" and o: "ordered a w" and st: "relay_step opts digest a w = Some w'"
  shows "order_inv w'"
proof -
  note D = outbox_okD [OF ok]
  have r: "reopen_free (rl_queued w) (rl_box w)" using i by (simp add: order_inv_def)
  have persisted: "order_inv (persist_step opts x rr d w1)"
    if "rl_box w1 = rl_box w" "rl_log w1 = rl_log w" "waiting (rl_worker w1) = waiting (rl_worker w)" "rl_queued w1 = rl_queued w" for x rr d w1
  proof (rule order_inv_box [OF i])
    have "outbox_ok (rl_box (persist_step opts x rr d w1))" using outbox_ok_persist ok that(1) by (simp add: persist_step_def Let_def)
    then show "reopen_free (rl_queued (persist_step opts x rr d w1)) (rl_box (persist_step opts x rr d w1))"
      unfolding persist_step_fields that(4)
      by (intro reopen_free_sub [OF r]) (use mget_persist_step [of w1 opts x rr d] ok that(1) outbox_okD(2) in auto)
  qed (use that in simp_all)
  show ?thesis
  proof (cases a)
    case (ASend now cfg ev)
    show ?thesis
    proof (cases "undeliverable cfg ev \<or> fst (Send_lock digest now ev (rl_box w)) = None")
      case True
      then have "w' = w" using st ASend by (auto split: prod.splits if_splits)
      with i show ?thesis by simp
    next
      case False
      then obtain sups d b' where s: "Send_lock digest now ev (rl_box w) = (Some (sups, d), b')"
        by (metis fst_conv not_None_eq surj_pair)
      have w': "w' = w\<lparr>rl_box := b', rl_owed := rl_owed w @ [map Copy sups @ [Object (dr_id d)]], rl_queued := rl_queued w @ [ev]\<rparr>"
        using st ASend False s by auto
      show ?thesis
        by (rule order_inv_box [OF i]) (use reopen_free_Send [OF r ok s] o ASend in \<open>auto simp: w' ordered_def\<close>)
    qed
  next
    case (ASuppress now ev why)
    show ?thesis
    proof (cases "RecordSuppressed_lock digest now ev why (rl_box w)")
      case (Pair o1 b')
      show ?thesis
      proof (cases o1)
        case None
        with st ASuppress Pair i show ?thesis by auto
      next
        case (Some d)
        note R = RecordSuppressed_lock_records [OF Pair [unfolded Some]]
        from st ASuppress Pair Some have w': "w' = w\<lparr>rl_box := b', rl_owed := rl_owed w @ [[Object (dr_id d)]]\<rparr>" by auto
        have "reopen_free (rl_queued w) b'"
          by (rule reopen_free_sub [OF r]) (use R D(2) in \<open>auto split: if_splits\<close>)
        then show ?thesis by (intro order_inv_box [OF i]) (simp_all add: w')
      qed
    qed
  next
    case (AWrite k o1 rr)
    with st persisted show ?thesis by (auto split: if_splits list.splits)
  next
    case (AScan now due)
    with st have w: "rl_worker w = WIdle" "mset due = mset (deliverDue now (rl_box w))" "w' = w\<lparr>rl_worker := WDue due\<rparr>"
      by (auto split: if_splits)
    have pend: "\<exists>k. mget (ob_records (rl_box w)) k = Some d \<and> dr_status d = StatusPending" if "d \<in> set due" for d
    proof -
      have "d \<in> set (deliverDue now (rl_box w))" using that w(2) by (metis mset_eq_setD)
      then obtain k where "(k, d) \<in> set (ob_records (rl_box w))" "dr_status d = StatusPending"
        by (auto simp: deliverDue_def due_at_def)
      then show ?thesis using D(2) by (auto simp: mem_gomap_iff)
    qed
    have known: "list_ex (closes j) (rl_queued w)" if "d \<in> set due" "closes j (dr_event d)" for j d
      using pend [OF that(1)] reopen_freeD(1) [OF r] that(2) by (auto simp: list_ex_iff)
    have fresh: "list_all (\<lambda>d. \<not> opens j (dr_event d)) due" if "j \<noteq> []" "list_ex (closes j) (rl_queued w)" for j
      using pend reopen_freeD(2) [OF r _ _ that(1)] that(2) by (auto simp: list_all_iff)
    show ?thesis
      using i known fresh unfolding order_inv_def w(3) by (fastforce simp: waiting_def list_ex_iff)
  next
    case (ATry io)
    from st ATry consider "rl_worker w = WDue []" "w' = w\<lparr>rl_worker := WIdle\<rparr>"
      | snap rest where "rl_worker w = WDue (snap # rest)" "w' = w\<lparr>rl_worker := WSent (at_now io) snap (attempt_send io snap) rest,
          rl_log := rl_log w @ log_of snap (attempt_send io snap)\<rparr>"
      by (auto simp: Let_def split: delivery_worker.splits list.splits)
    then show ?thesis
    proof cases
      case 1
      then show ?thesis using i r by (intro order_inv_box [OF i]) (simp_all add: waiting_def)
    next
      case 2
      let ?new = "log_of snap (attempt_send io snap)"
      have same: "list_all (\<lambda>x. x = dr_event snap) (map sl_event ?new)" by (auto simp: log_of_def list_all_iff)
      have new: "\<And>P. list_ex (P \<circ> sl_event) ?new \<Longrightarrow> P (dr_event snap)"
        "\<And>P. P (dr_event snap) \<Longrightarrow> list_all P (map sl_event ?new)"
        using same by (auto simp: list_ex_iff list_all_iff)
      have "no_reopen j (map sl_event (rl_log w @ ?new)) \<and>
          (list_ex (closes j \<circ> sl_event) (rl_log w @ ?new) \<longrightarrow>
             list_ex (closes j) (rl_queued w) \<and> list_all (\<lambda>d. \<not> opens j (dr_event d)) rest) \<and>
          (list_ex (closes j \<circ> dr_event) rest \<longrightarrow>
             list_ex (closes j) (rl_queued w) \<and> list_all (\<lambda>d. \<not> opens j (dr_event d)) rest)" if j: "j \<noteq> []" for j
      proof -
        from i j 2(1) have I: "no_reopen j (map sl_event (rl_log w))"
          "list_ex (closes j \<circ> sl_event) (rl_log w) \<longrightarrow>
             list_ex (closes j) (rl_queued w) \<and> list_all (\<lambda>d. \<not> opens j (dr_event d)) (snap # rest)"
          "list_ex (closes j \<circ> dr_event) (snap # rest) \<longrightarrow>
             list_ex (closes j) (rl_queued w) \<and> list_all (\<lambda>d. \<not> opens j (dr_event d)) (snap # rest)"
          by (simp_all add: order_inv_def waiting_def)
        have "list_ex (closes j) (map sl_event (rl_log w)) = list_ex (closes j \<circ> sl_event) (rl_log w)"
          by (auto simp: list_ex_iff)
        then have "no_reopen j (map sl_event (rl_log w @ ?new))"
          using I(1,2) new(2) [of "\<lambda>x. \<not> opens j x"] no_reopen_same [OF same] by (auto simp: no_reopen_append)
        with I(2,3) new(1) [of "closes j"] show ?thesis by auto
      qed
      with r show ?thesis unfolding order_inv_def by (simp add: 2(2) waiting_def)
    qed
  next
    case ALock
    from st ALock obtain now snap ad rest where p: "rl_worker w = WSent now snap ad rest" by (auto split: delivery_worker.splits)
    show ?thesis
    proof (cases "attempt_lock opts now ad snap (rl_box w)")
      case (Pair o1 b')
      show ?thesis
      proof (cases o1)
        case None
        with st ALock p Pair have "w' = w\<lparr>rl_worker := WDue rest\<rparr>" by simp
        then show ?thesis using r p by (intro order_inv_box [OF i]) (simp_all add: waiting_def)
      next
        case (Some d')
        from attempt_lock_records [OF ok Pair [unfolded Some]] obtain d where d: "mget (ob_records (rl_box w)) (dr_id snap) = Some d"
          "dr_status d = StatusPending" "d' = attempt_result opts now ad d" "b' = (rl_box w)\<lparr>ob_records := mput (dr_id snap) d' (ob_records (rl_box w))\<rparr>" by metis
        have "dr_event d' = dr_event d"
          unfolding d(3) by (cases rule: attempt_result_cases [of opts now ad d]) (simp_all add: delivered_record_def)
        then have "reopen_free (rl_queued w) b'"
          by (intro reopen_free_sub [OF r]) (use d D(2) in \<open>auto split: if_splits\<close>)
        moreover have "w' = w\<lparr>rl_box := b', rl_worker := WWrite d' rest\<rparr>" using st ALock p Pair Some by simp
        ultimately show ?thesis using p by (intro order_inv_box [OF i]) (simp_all add: waiting_def)
      qed
    qed
  next
    case (APersist o1 rr)
    with st persisted show ?thesis by (auto simp: waiting_def split: delivery_worker.splits)
  qed
qed

lemma relayed_order_inv:
  assumes "relayed opts digest ordered b0 w" and "outbox_ok b0" and "file_ok (ob_file b0)"
    and "reopen_free (map (dr_event \<circ> snd) (ob_records b0)) b0"
  shows "order_inv w"
proof -
  have "order_inv w \<and> relay_ok w"
    using assms(1)
  proof (induction rule: relayed.induct)
    case relayed_start
    show ?case using assms(2-4) by (simp add: order_inv_def fresh_relay_def waiting_def relay_ok_def)
  next
    case (relayed_step w a w')
    then show ?case using order_inv_step relay_ok_step by (metis relay_ok_def)
  qed
  then show ?thesis by blast
qed

end
