(* ===== verification/AlertPath.thy ===== *)
theory AlertPath
  imports IncidentPolicy OutboxOrder
begin

text \<open>
  The whole path of an incident alert in one process: the tracker (\<open>internal/incident\<close>) hands the
  alerts of each operation to the outbox (\<open>internal/outbox\<close>) under its lock and in order
  (\<open>flushLocked\<close>), while other producers and the delivery worker move in between.
\<close>

section \<open>What the tracker relies on\<close>

text \<open>An alerter takes offered events in the order of the offers: it may drop one, never reorder or invent.\<close>

locale alerter =
  fixes move :: "'a \<Rightarrow> 's \<Rightarrow> 's option" and queued :: "'s \<Rightarrow> alert_event list" and offers :: "'a \<Rightarrow> alert_event option"
  assumes move_queues: "move a s = Some s' \<Longrightarrow>
    queued s' = queued s \<or> (\<exists>ev. offers a = Some ev \<and> queued s' = queued s @ [ev])"
begin

lemma queued_grows: "move a s = Some s' \<Longrightarrow> prefix (queued s) (queued s')"
  using move_queues [of a s s'] by auto

text \<open>What is queued of a class of events stays a subsequence of what was offered of it.\<close>

lemma queue_tracks:
  assumes "subseq (filter P (queued s)) (filter P xs)" and "move a s = Some s'"
    and "\<And>ev. offers a = Some ev \<Longrightarrow> P ev \<Longrightarrow> filter P ys = [ev]"
  shows "subseq (filter P (queued s')) (filter P (xs @ ys))"
proof -
  have grow: "subseq (filter P (queued s)) (filter P (xs @ ys))"
    using list_emb_prefix [OF assms(1)] by simp
  from move_queues [OF assms(2)] show ?thesis
  proof (elim disjE exE conjE)
    assume "queued s' = queued s"
    with grow show ?thesis by simp
  next
    fix ev
    assume ev: "offers a = Some ev" "queued s' = queued s @ [ev]"
    show ?thesis
    proof (cases "P ev")
      case True
      with ev assms(3) have "filter P (xs @ ys) = filter P xs @ [ev]" by simp
      with True ev(2) list_emb_append_mono [OF assms(1), of "[ev]" "[ev]"] show ?thesis by simp
    next
      case False
      with grow ev(2) show ?thesis by simp
    qed
  qed
qed

end

fun offered :: "relay_action \<Rightarrow> alert_event option" where
  "offered (ASend now cfg ev) = Some ev"
| "offered _ = None"

interpretation relay_alerter: alerter "relay_step opts digest" rl_queued offered for opts digest
proof
  fix a s s'
  assume "relay_step opts digest a s = Some s'"
  then show "rl_queued s' = rl_queued s \<or> (\<exists>ev. offered a = Some ev \<and> rl_queued s' = rl_queued s @ [ev])"
    by (cases a) (auto simp: Let_def split: if_splits option.splits prod.splits list.splits delivery_worker.splits)
qed

section \<open>The composed system\<close>

record alert_path =
  ap_tracker :: tracker
  ap_emitted :: "outgoing list"
  ap_unsent :: "outgoing list"
  ap_relay :: relay

text \<open>\<open>flushLocked\<close> for one alert.\<close>

fun flush_one :: "time \<Rightarrow> string + alert_config \<Rightarrow> outgoing \<Rightarrow> relay_action" where
  "flush_one now cfg og =
     (if og_note og \<noteq> [] then ASuppress now (og_event og) (og_note og) else ASend now cfg (og_event og))"

definition other_producer :: "relay_action \<Rightarrow> bool" where
  "other_producer a = (case offered a of None \<Rightarrow> True | Some ev \<Rightarrow> ae_incidentID ev = [])"

definition start_path :: alert_path where
  "start_path = \<lparr>ap_tracker = New_tracker None, ap_emitted = [], ap_unsent = [], ap_relay = fresh_relay empty_outbox\<rparr>"

inductive alert_path_run :: "outbox_options \<Rightarrow> (string \<Rightarrow> string) \<Rightarrow> alert_path \<Rightarrow> bool" for opts digest where
  path_start: "alert_path_run opts digest start_path"
| path_track: "alert_path_run opts digest p \<Longrightarrow> ap_unsent p = [] \<Longrightarrow> tracker_admissible a (ap_tracker p) (ap_emitted p) \<Longrightarrow>
    a \<noteq> TRestart \<Longrightarrow> track a (ap_tracker p) = (out, t) \<Longrightarrow>
    alert_path_run opts digest (p\<lparr>ap_tracker := t, ap_emitted := ap_emitted p @ out, ap_unsent := out\<rparr>)"
| path_flush: "alert_path_run opts digest p \<Longrightarrow> ap_unsent p = og # rest \<Longrightarrow>
    relay_step opts digest (flush_one now cfg og) (ap_relay p) = Some w \<Longrightarrow>
    alert_path_run opts digest (p\<lparr>ap_unsent := rest, ap_relay := w\<rparr>)"
| path_other: "alert_path_run opts digest p \<Longrightarrow> other_producer a \<Longrightarrow>
    relay_step opts digest a (ap_relay p) = Some w \<Longrightarrow>
    alert_path_run opts digest (p\<lparr>ap_relay := w\<rparr>)"

definition sent_events :: "outgoing list \<Rightarrow> alert_event list" where
  "sent_events tr = map og_event (filter (\<lambda>og. og_note og = []) tr)"

lemma sent_events_simps [simp]:
  "sent_events [] = []" "sent_events (a @ b) = sent_events a @ sent_events b"
  "sent_events (og # tr) = (if og_note og = [] then [og_event og] else []) @ sent_events tr"
  by (simp_all add: sent_events_def)

lemma legs_of_sent: "ev \<in> set (sent_events tr) \<Longrightarrow> ae_kind ev \<in> set (legs (ae_incidentID ev) tr)"
  by (auto simp: sent_events_def legs_def)

text \<open>The shape of the legs: nothing behind a recovery.\<close>

lemma legs_end_with_recovery:
  assumes "open_legs ls \<or> over_legs ls" and "ls = xs @ ys" and "KindRecovered \<in> set xs"
  shows "ys = []"
proof -
  have "KindRecovered \<notin> set (butlast ls)"
    using assms(1) by (auto simp: open_legs_def over_legs_def butlast_append dest: in_set_butlastD)
  moreover have "KindRecovered \<in> set (butlast ls)" if "ys \<noteq> []"
    using assms(2,3) that by (simp add: butlast_append)
  ultimately show ?thesis by blast
qed

definition path_inv :: "outbox_options \<Rightarrow> (string \<Rightarrow> string) \<Rightarrow> alert_path \<Rightarrow> bool" where
  "path_inv opts digest p \<longleftrightarrow> tracked (ap_tracker p) (ap_emitted p) \<and>
     relayed opts digest ordered empty_outbox (ap_relay p) \<and>
     (\<exists>flushed. ap_emitted p = flushed @ ap_unsent p \<and>
        subseq (filter (\<lambda>ev. ae_incidentID ev \<noteq> []) (rl_queued (ap_relay p)))
          (filter (\<lambda>ev. ae_incidentID ev \<noteq> []) (sent_events flushed)))"

lemma tracked_legs: "tracked t tr \<Longrightarrow> i \<noteq> [] \<Longrightarrow> open_legs (legs i tr) \<or> over_legs (legs i tr)"
proof -
  assume t: "tracked t tr" and i: "i \<noteq> []"
  have p: "paired t tr" using tracked_inv [OF t] by (simp add: tracker_inv_def)
  show ?thesis
  proof (cases "i \<in> incident_ids t")
    case True
    with p show ?thesis by (auto simp: paired_def incident_ids_def legs_ok_def open_legs_intros(4) split: if_splits)
  next
    case False
    with pairedD(3) [OF p i] show ?thesis by blast
  qed
qed

lemma flush_is_ordered:
  assumes t: "tracked t (flushed @ og # rest)"
    and q: "subseq (filter (\<lambda>ev. ae_incidentID ev \<noteq> []) (rl_queued w)) (filter (\<lambda>ev. ae_incidentID ev \<noteq> []) (sent_events flushed))"
  shows "ordered (flush_one now cfg og) w"
proof (rule ccontr)
  let ?ev = "og_event og"
  assume "\<not> ordered (flush_one now cfg og) w"
  then have o: "og_note og = []" "ae_incidentID ?ev \<noteq> []" "opens (ae_incidentID ?ev) ?ev"
    "list_ex (closes (ae_incidentID ?ev)) (rl_queued w)"
    by (auto simp: ordered_def split: if_splits)
  then obtain ev where ev: "ev \<in> set (rl_queued w)" "closes (ae_incidentID ?ev) ev" by (auto simp: list_ex_iff)
  with o(2) have "ev \<in> set (filter (\<lambda>ev. ae_incidentID ev \<noteq> []) (rl_queued w))" by (simp add: closes_def)
  from list_emb_set [OF q this] obtain ev2 where "ev2 \<in> set (filter (\<lambda>ev. ae_incidentID ev \<noteq> []) (sent_events flushed))" "ev = ev2" .
  then have "ev \<in> set (sent_events flushed)" by simp
  with legs_of_sent [of ev flushed] ev(2) have "KindRecovered \<in> set (legs (ae_incidentID ?ev) flushed)"
    by (simp add: closes_def)
  from legs_end_with_recovery [OF tracked_legs [OF t o(2)] _ this] o(1) show False by auto
qed

lemma path_inv_run: "alert_path_run opts digest p \<Longrightarrow> path_inv opts digest p"
proof (induction rule: alert_path_run.induct)
  case path_start
  show ?case
    using tracked_start relayed_start [of opts digest ordered empty_outbox]
    by (auto simp: path_inv_def start_path_def fresh_relay_def empty_outbox_def)
next
  case (path_track p a out t)
  then have "tracked t (ap_emitted p @ out)" by (auto simp: path_inv_def intro: tracked_step)
  with path_track show ?case by (auto simp: path_inv_def)
next
  case (path_flush p og rest now cfg w)
  let ?P = "\<lambda>ev. ae_incidentID ev \<noteq> ([] :: string)"
  from path_flush.IH obtain flushed where f: "ap_emitted p = flushed @ og # rest"
    "subseq (filter ?P (rl_queued (ap_relay p))) (filter ?P (sent_events flushed))"
    and t: "tracked (ap_tracker p) (ap_emitted p)" and r: "relayed opts digest ordered empty_outbox (ap_relay p)"
    using path_flush.hyps by (auto simp: path_inv_def)
  have o: "ordered (flush_one now cfg og) (ap_relay p)" by (rule flush_is_ordered [OF t [unfolded f(1)] f(2)])
  have "subseq (filter ?P (rl_queued w)) (filter ?P (sent_events flushed @ sent_events [og]))"
    by (rule relay_alerter.queue_tracks [OF f(2) path_flush.hyps(3)]) (auto split: if_splits)
  moreover have "relayed opts digest ordered empty_outbox w" by (rule relayed_step [OF r o path_flush.hyps(3)])
  ultimately show ?case
    using f(1) t by (auto simp: path_inv_def intro!: exI [of _ "flushed @ [og]"])
next
  case (path_other p a w)
  let ?P = "\<lambda>ev. ae_incidentID ev \<noteq> ([] :: string)"
  from path_other.IH obtain flushed where f: "ap_emitted p = flushed @ ap_unsent p"
    "subseq (filter ?P (rl_queued (ap_relay p))) (filter ?P (sent_events flushed))"
    and t: "tracked (ap_tracker p) (ap_emitted p)" and r: "relayed opts digest ordered empty_outbox (ap_relay p)"
    by (auto simp: path_inv_def)
  have o: "ordered a (ap_relay p)" using path_other.hyps(2) by (cases a) (auto simp: ordered_def other_producer_def)
  have "subseq (filter ?P (rl_queued w)) (filter ?P (sent_events flushed @ []))"
    by (rule relay_alerter.queue_tracks [OF f(2) path_other.hyps(3)])
      (use path_other.hyps(2) in \<open>auto simp: other_producer_def\<close>)
  then show ?case using f(1) t relayed_step [OF r o path_other.hyps(3)] by (auto simp: path_inv_def)
qed

text \<open>
  C37. No receiver sees a closed incident reopen: in the composed system of tracker, outbox and
  channels, under every interleaving, retry, failed send and failed write of one process, no open
  and no reminder of an incident is sent, through whatever channel, after the incident's recovery
  was sent.
\<close>
theorem receivers_never_see_a_reopen:
  assumes "alert_path_run opts digest p" and "j \<noteq> []"
  shows "no_reopen j (map sl_event (rl_log (ap_relay p)))"
proof -
  have r: "relayed opts digest ordered empty_outbox (ap_relay p)" using path_inv_run [OF assms(1)] by (simp add: path_inv_def)
  have "outbox_ok empty_outbox" "file_ok (ob_file empty_outbox)"
    "reopen_free (map (dr_event \<circ> snd) (ob_records empty_outbox)) empty_outbox"
    by (simp_all add: outbox_ok_def empty_outbox_def file_ok_def reopen_free_def)
  from relayed_order_inv [OF r this] assms(2) show ?thesis by (simp add: order_inv_def)
qed


section \<open>A run of the path\<close>

datatype path_action = PTrack tracker_action | PFlush time "string + alert_config" | PRelay relay_action | PScan time

fun path_step :: "outbox_options \<Rightarrow> (string \<Rightarrow> string) \<Rightarrow> path_action \<Rightarrow> alert_path \<Rightarrow> alert_path option" where
  "path_step opts digest (PTrack a) p =
     (case a of TRestart \<Rightarrow> None
      | _ \<Rightarrow> if ap_unsent p = [] then
            (case track a (ap_tracker p) of (out, t) \<Rightarrow>
              Some (p\<lparr>ap_tracker := t, ap_emitted := ap_emitted p @ out, ap_unsent := out\<rparr>))
          else None)"
| "path_step opts digest (PFlush now cfg) p =
     (case ap_unsent p of [] \<Rightarrow> None
      | og # rest \<Rightarrow> map_option (\<lambda>w. p\<lparr>ap_unsent := rest, ap_relay := w\<rparr>)
          (relay_step opts digest (flush_one now cfg og) (ap_relay p)))"
| "path_step opts digest (PRelay a) p =
     (if other_producer a then map_option (\<lambda>w. p\<lparr>ap_relay := w\<rparr>) (relay_step opts digest a (ap_relay p)) else None)"
| "path_step opts digest (PScan now) p =
     map_option (\<lambda>w. p\<lparr>ap_relay := w\<rparr>)
       (relay_step opts digest (AScan now (deliverDue now (rl_box (ap_relay p)))) (ap_relay p))"

fun path_exec :: "outbox_options \<Rightarrow> (string \<Rightarrow> string) \<Rightarrow> path_action list \<Rightarrow> alert_path \<Rightarrow> alert_path option" where
  "path_exec opts digest [] p = Some p"
| "path_exec opts digest (a # as) p =
     (case path_step opts digest a p of None \<Rightarrow> None | Some p' \<Rightarrow> path_exec opts digest as p')"

fun tracks :: "path_action list \<Rightarrow> tracker_action list" where
  "tracks [] = []"
| "tracks (PTrack a # as) = a # tracks as"
| "tracks (_ # as) = tracks as"

lemma path_exec_run:
  "alert_path_run opts digest p \<Longrightarrow> admissible_script (tracks as) (ap_tracker p) (ap_emitted p) \<Longrightarrow>
   path_exec opts digest as p = Some p' \<Longrightarrow> alert_path_run opts digest p'"
proof (induction "as" arbitrary: p)
  case (Cons a "as")
  from Cons.prems(3) obtain q where q: "path_step opts digest a p = Some q" "path_exec opts digest as q = Some p'"
    by (auto split: option.splits)
  show ?case
  proof (cases a)
    case (PTrack x)
    from q(1) PTrack obtain out t where o: "x \<noteq> TRestart" "ap_unsent p = []" "track x (ap_tracker p) = (out, t)"
      "q = p\<lparr>ap_tracker := t, ap_emitted := ap_emitted p @ out, ap_unsent := out\<rparr>"
      by (cases x) (auto split: if_splits prod.splits)
    have ad: "tracker_admissible x (ap_tracker p) (ap_emitted p)" "admissible_script (tracks as) t (ap_emitted p @ out)"
      using Cons.prems(2) PTrack o(3) by simp_all
    have "alert_path_run opts digest q" unfolding o(4) by (rule path_track [OF Cons.prems(1) o(2) ad(1) o(1,3)])
    with Cons.IH [of q] q(2) ad(2) o(4) show ?thesis by simp
  next
    case (PFlush now cfg)
    with q(1) obtain og rest w where o: "ap_unsent p = og # rest"
      "relay_step opts digest (flush_one now cfg og) (ap_relay p) = Some w" "q = p\<lparr>ap_unsent := rest, ap_relay := w\<rparr>"
      by (auto split: list.splits)
    have "alert_path_run opts digest q" unfolding o(3) by (rule path_flush [OF Cons.prems(1) o(1,2)])
    with Cons.IH [of q] Cons.prems(2) PFlush q(2) o(3) show ?thesis by simp
  next
    case (PRelay x)
    with q(1) obtain w where o: "other_producer x" "relay_step opts digest x (ap_relay p) = Some w" "q = p\<lparr>ap_relay := w\<rparr>"
      by (auto split: if_splits)
    have "alert_path_run opts digest q" unfolding o(3) by (rule path_other [OF Cons.prems(1) o(1,2)])
    with Cons.IH [of q] Cons.prems(2) PRelay q(2) o(3) show ?thesis by simp
  next
    case (PScan now)
    with q(1) obtain w where o: "relay_step opts digest (AScan now (deliverDue now (rl_box (ap_relay p)))) (ap_relay p) = Some w"
      "q = p\<lparr>ap_relay := w\<rparr>" by (auto simp del: relay_step.simps)
    have "alert_path_run opts digest q" unfolding o(2) by (rule path_other [OF Cons.prems(1) _ o(1)]) (simp add: other_producer_def)
    with Cons.IH [of q] Cons.prems(2) PScan q(2) o(2) show ?thesis by simp
  qed
qed simp

text \<open>A monitor goes down, one channel refuses the open; the recovery supersedes the retry of the open.\<close>

definition path_time :: "int \<Rightarrow> time" where
  "path_time n = 62135596800 * second + n"

definition path_rule :: rule where
  "path_rule = demo_rule\<lparr>ru_policy := \<lparr>po_failAfter = 1, po_recoverAfter = 1, po_repeatEvery = 0, po_autoResolveAfter = 0\<rparr>\<rparr>"

definition path_script :: "path_action list" where
  "path_script =
     [PTrack (TEndAdoption (demo_env ''i1-'' 5) (\<lambda>_. [])),
      PTrack (TObserve (demo_env ''i2-'' 10) path_rule False (path_time 10) ''refused''),
      PFlush (path_time 10) (Inr sample_config),
      PScan (path_time 11), PRelay (ATry (demo_attempt (path_time 12) False)), PRelay ALock, PRelay (APersist AppendOk Replaced),
      PRelay (ATry (demo_attempt (path_time 12) False)),
      PTrack (TObserve (demo_env ''i3-'' 20) path_rule True (path_time 20) []),
      PFlush (path_time 20) (Inr sample_config),
      PScan (path_time (2 * minute)), PRelay (ATry (demo_attempt (path_time (2 * minute)) True))]"

lemma path_admissible: "admissible_script (tracks path_script) (New_tracker None) []"
  unfolding path_script_def
  by (simp add: demo_env_def path_rule_def demo_rule_def tracker_admissible_def durable_env_def fresh_ids_def inj_def incident_ids_def
      New_tracker_def EndAdoption_def AnnounceUnannounced_def AnnounceWith_def persistLocked_def announce_out_def
      persist_if_def Observe_def Let_def normalize_rule_def normalized_def rule_key_def zero_rule_def get_state_def
      zero_state_def note_failure_def note_success_def put_state_def put_incident_def open_incident_def holdFor_def
      new_incident_def zero_incident_def describe_def keep_open_def time_sub_def)

theorem receivers_never_see_a_reopen_witness:
  "case path_exec demo_options demo_digest path_script start_path of None \<Rightarrow> False
   | Some p \<Rightarrow> map (\<lambda>e. (ae_kind (sl_event e), sl_channel e, sl_ok e)) (rl_log (ap_relay p)) =
         [(KindOpened, ''webhook'', False), (KindOpened, ''ops'', True), (KindRecovered, ''webhook'', True), (KindRecovered, ''ops'', True)] \<and>
       no_reopen ''i2-monitor:web'' (map sl_event (rl_log (ap_relay p)))"
proof -
  have log: "map_option (\<lambda>p. map (\<lambda>e. (ae_kind (sl_event e), sl_channel e, sl_ok e)) (rl_log (ap_relay p)))
      (path_exec demo_options demo_digest path_script start_path) =
    Some [(KindOpened, ''webhook'', False), (KindOpened, ''ops'', True), (KindRecovered, ''webhook'', True), (KindRecovered, ''ops'', True)]"
    by code_simp
  then obtain p where p: "path_exec demo_options demo_digest path_script start_path = Some p" by auto
  have "alert_path_run demo_options demo_digest p"
    by (rule path_exec_run [OF path_start _ p]) (use path_admissible in \<open>simp add: start_path_def\<close>)
  from receivers_never_see_a_reopen [OF this, of "''i2-monitor:web''"] p log show ?thesis by simp
qed

end
