(* ===== verification/OutboxRestart.thy ===== *)
theory OutboxRestart
  imports OutboxOrder
begin

text \<open>
  The journal of the outbox (\<open>internal/outbox/outbox.go\<close>) across restarts: what a complete journal
  gives back, and what a stale snapshot and a short write do to it.
\<close>

section \<open>Replay\<close>

definition last_lines :: "delivery list \<Rightarrow> (string, delivery) gomap" where
  "last_lines ds = rev (map (\<lambda>d. (dr_id d, d)) ds)"

lemma mget_last_lines_snoc [simp]: "mget (last_lines (ds @ [d])) i = (if dr_id d = i then Some d else mget (last_lines ds) i)"
  by (simp add: last_lines_def)

lemma mget_load:
  "mget (ob_records (fold load_one ds b)) i = (case mget (last_lines ds) i of Some d \<Rightarrow> Some d | None \<Rightarrow> mget (ob_records b) i)"
proof (induction ds rule: rev_induct)
  case Nil
  then show ?case by (simp add: last_lines_def)
next
  case (snoc d ds)
  then show ?case by (auto simp: load_one_def split: option.split)
qed

definition clean_lines :: "outbox_file \<Rightarrow> delivery list \<Rightarrow> bool" where
  "clean_lines f ds \<longleftrightarrow> fi_frames f = map Frame ds \<and> fi_tail f = NoTail"

lemma ReadJSONL_clean: "clean_lines f ds \<Longrightarrow> ReadJSONL f = Some (ds, f)"
proof -
  assume c: "clean_lines f ds"
  have "List.map_filter (\<lambda>x. case x of Frame d \<Rightarrow> Some d | Corrupt \<Rightarrow> None) (map Frame ds) = ds"
    by (induction ds) (simp_all add: List.map_filter_simps)
  moreover have "Corrupt \<notin> set (map Frame ds)" by auto
  ultimately show ?thesis using c by (cases f) (simp add: clean_lines_def ReadJSONL_def Let_def)
qed

text \<open>No line of the journal reaches the limit of the scanner that loads it.\<close>

definition short_lines :: "(delivery \<Rightarrow> nat) \<Rightarrow> outbox_file \<Rightarrow> bool" where
  "short_lines enclen f \<longleftrightarrow>
     list_all (\<lambda>x. case x of Frame d \<Rightarrow> enclen d < max_line | Corrupt \<Rightarrow> True) (fi_frames f)"

lemma New_outbox_clean:
  assumes "clean_lines f ds"
  shows "if short_lines enclen f
    then \<exists>b. New_outbox enclen f = Some b \<and> (\<forall>i. mget (ob_records b) i = mget (last_lines ds) i)
    else New_outbox enclen f = None"
proof -
  have "short_lines enclen f \<longleftrightarrow> \<not> list_ex (\<lambda>d. max_line \<le> enclen d) ds"
    using assms by (auto simp: short_lines_def clean_lines_def list_ex_iff list_all_iff not_le)
  then show ?thesis
    using ReadJSONL_clean [OF assms] by (simp add: New_outbox_def mget_load split: option.split)
qed

section \<open>Runs that write before they go on\<close>

definition owes_nothing :: "relay \<Rightarrow> bool" where
  "owes_nothing w \<longleftrightarrow> list_all (\<lambda>xs. xs = []) (rl_owed w) \<and> (case rl_worker w of WWrite d ds \<Rightarrow> False | _ \<Rightarrow> True)"

text \<open>Every write succeeds, and no lock is taken while a write is owed.\<close>

definition writes_first :: "relay_action \<Rightarrow> relay \<Rightarrow> bool" where
  "writes_first a w =
     (case a of
        AWrite k x r \<Rightarrow> x = AppendOk \<and> r \<noteq> NotReplaced
      | APersist x r \<Rightarrow> x = AppendOk \<and> r \<noteq> NotReplaced
      | ASend now cfg ev \<Rightarrow> owes_nothing w
      | ASuppress now ev why \<Rightarrow> owes_nothing w
      | ALock \<Rightarrow> owes_nothing w
      | _ \<Rightarrow> True)"

definition owed_id :: "owed \<Rightarrow> string" where
  "owed_id x = (case x of Copy d \<Rightarrow> dr_id d | Object i \<Rightarrow> i)"

text \<open>All writes owed, the worker's one as a copy.\<close>

definition all_owed :: "relay \<Rightarrow> owed set" where
  "all_owed w = \<Union> (set ` set (rl_owed w)) \<union> (case rl_worker w of WWrite d ds \<Rightarrow> {Copy d} | _ \<Rightarrow> {})"

definition current :: "outbox \<Rightarrow> owed \<Rightarrow> bool" where
  "current b x = (case x of
      Copy d \<Rightarrow> mget (ob_records b) (dr_id d) = Some d \<or> mget (ob_records b) (dr_id d) = None \<and> dr_status d \<noteq> StatusPending
    | Object i \<Rightarrow> mget (ob_records b) i \<noteq> None)"

definition journal_inv :: "relay \<Rightarrow> bool" where
  "journal_inv w \<longleftrightarrow> (\<exists>ds. clean_lines (ob_file (rl_box w)) ds \<and>
     (\<forall>x\<in>all_owed w. current (rl_box w) x) \<and>
     (\<forall>i. i \<notin> owed_id ` all_owed w \<longrightarrow>
        (\<forall>d. mget (ob_records (rl_box w)) i = Some d \<longrightarrow> mget (last_lines ds) i = Some d) \<and>
        (\<forall>d. mget (last_lines ds) i = Some d \<longrightarrow> dr_status d = StatusPending \<longrightarrow> mget (ob_records (rl_box w)) i = Some d)))"

lemma owes_nothing_all_owed: "owes_nothing w \<Longrightarrow> all_owed w = {}"
  by (auto simp: owes_nothing_def all_owed_def list_all_iff split: delivery_worker.splits)

lemma journal_inv_same:
  assumes "journal_inv w" and "rl_box w' = rl_box w" and "all_owed w' = all_owed w"
  shows "journal_inv w'"
  using assms by (simp add: journal_inv_def)

text \<open>A change of the records whose changed ones are all owed.\<close>

lemma journal_inv_change:
  assumes i: "journal_inv w" and e: "all_owed w = {}" and f: "ob_file (rl_box w') = ob_file (rl_box w)"
    and c: "\<And>x. x \<in> all_owed w' \<Longrightarrow> current (rl_box w') x"
    and same: "\<And>i. i \<notin> owed_id ` all_owed w' \<Longrightarrow> mget (ob_records (rl_box w')) i = mget (ob_records (rl_box w)) i"
  shows "journal_inv w'"
proof -
  obtain ds where ds: "clean_lines (ob_file (rl_box w)) ds"
    "\<And>k d. mget (ob_records (rl_box w)) k = Some d \<Longrightarrow> mget (last_lines ds) k = Some d"
    "\<And>k d. mget (last_lines ds) k = Some d \<Longrightarrow> dr_status d = StatusPending \<Longrightarrow> mget (ob_records (rl_box w)) k = Some d"
  proof -
    from i obtain ds where ds: "clean_lines (ob_file (rl_box w)) ds"
      "\<And>k. k \<notin> owed_id ` all_owed w \<Longrightarrow>
        (\<forall>d. mget (ob_records (rl_box w)) k = Some d \<longrightarrow> mget (last_lines ds) k = Some d) \<and>
        (\<forall>d. mget (last_lines ds) k = Some d \<longrightarrow> dr_status d = StatusPending \<longrightarrow> mget (ob_records (rl_box w)) k = Some d)"
      unfolding journal_inv_def by blast
    have none: "k \<notin> owed_id ` all_owed w" for k unfolding e by simp
    show ?thesis by (rule that [OF ds(1)]) (use ds(2) [OF none] in blast)+
  qed
  show ?thesis
    unfolding journal_inv_def f
  proof (intro exI [of _ ds] conjI allI impI ballI)
    show "clean_lines (ob_file (rl_box w)) ds" by (fact ds(1))
    show "current (rl_box w') x" if "x \<in> all_owed w'" for x by (rule c [OF that])
    fix k d
    assume k: "k \<notin> owed_id ` all_owed w'"
    show "mget (last_lines ds) k = Some d" if "mget (ob_records (rl_box w')) k = Some d"
      using that unfolding same [OF k] by (rule ds(2))
    show "mget (ob_records (rl_box w')) k = Some d" if "mget (last_lines ds) k = Some d" "dr_status d = StatusPending"
      using that unfolding same [OF k] by (rule ds(3))
  qed
qed

lemma mget_all_last:
  "distinct (map dr_id ds) \<Longrightarrow> mget (last_lines ds) i = find (\<lambda>d. dr_id d = i) ds"
proof (induction ds)
  case (Cons d ds)
  show ?case
  proof (cases "dr_id d = i")
    case True
    then have "i \<notin> dr_id ` set ds" using Cons.prems by auto
    then have "map_of (rev (map (\<lambda>d. (dr_id d, d)) ds)) i = None" by (auto simp: map_of_eq_None_iff)
    with True show ?thesis by (simp add: last_lines_def map_add_def)
  next
    case False
    with Cons show ?thesis by (auto simp: last_lines_def map_add_def split: option.split)
  qed
qed (simp add: last_lines_def)

lemma compacted_file:
  assumes "outbox_ok b" and "r \<noteq> NotReplaced"
  shows "\<exists>ds. clean_lines (ob_file (compactLocked_outbox opts r b)) ds \<and>
    (\<forall>i. mget (last_lines ds) i = mget (ob_records (compactLocked_outbox opts r b)) i)"
proof -
  let ?c = "compactLocked_outbox opts r b"
  have ok: "outbox_ok ?c" by (rule outbox_ok_compactLocked [OF assms(1)])
  note D = outbox_okD [OF ok]
  let ?ds = "map (\<lambda>i. the (mget (ob_records ?c) i)) (ob_order ?c)"
  have ids: "dr_id (the (mget (ob_records ?c) i)) = i" if "i \<in> set (ob_order ?c)" for i
    using that D(4,5) by fastforce
  then have "map dr_id ?ds = ob_order ?c" by (simp add: map_idI)
  then have dist: "distinct (map dr_id ?ds)" using D(1) by simp
  have "find (\<lambda>d. dr_id d = i) ?ds = mget (ob_records ?c) i" for i
  proof (cases "i \<in> set (ob_order ?c)")
    case True
    have "find (\<lambda>d. dr_id d = dr_id (the (mget (ob_records ?c) i))) ?ds = Some (the (mget (ob_records ?c) i))"
      by (rule find_distinct [OF dist]) (use True in auto)
    with True ids D(5) show ?thesis by auto
  next
    case False
    then have "find (\<lambda>d. dr_id d = i) ?ds = None" using ids by (auto simp: find_None_iff)
    with False D(5) [of i] show ?thesis by simp
  qed
  moreover have "clean_lines (ob_file ?c) ?ds"
    using assms(2) by (cases r) (auto simp: clean_lines_def compactLocked_outbox_def Let_def split: prod.splits)
  ultimately show ?thesis using mget_all_last [OF dist] by metis
qed


section \<open>Every write catches the journal up\<close>

lemma persistLocked_ok_cases:
  assumes "clean_lines (ob_file b) ds"
  obtains (plain) b' where "persistLocked_outbox opts AppendOk r d b = b'" "ob_records b' = ob_records b"
      "clean_lines (ob_file b') (ds @ [d])"
  | (compacts) b1 where "persistLocked_outbox opts AppendOk r d b = compactLocked_outbox opts r b1"
      "ob_records b1 = ob_records b" "ob_order b1 = ob_order b"
proof (cases "oo_maxRetained opts < int (length (ob_records b))")
  case True
  show ?thesis
    by (rule compacts [of "b\<lparr>ob_file := end_line d (ob_file b), ob_lines := ob_lines b + 1\<rparr>"])
      (simp_all add: True persistLocked_outbox_def Let_def)
next
  case False
  show ?thesis
    by (rule plain [of "b\<lparr>ob_file := end_line d (ob_file b), ob_lines := ob_lines b + 1\<rparr>"])
      (use assms in \<open>simp_all add: False persistLocked_outbox_def Let_def clean_lines_def end_line_def\<close>)
qed

lemma all_owed_persist: "all_owed (persist_step opts a r d w) =
    keep_object (rl_box w) (rl_box (persist_step opts a r d w)) ` all_owed w"
  by (auto simp: all_owed_def persist_step_def Let_def keep_object_def image_Union image_image split: delivery_worker.splits)

lemma owed_id_keep: "outbox_ok b \<Longrightarrow> owed_id (keep_object b b' x) = owed_id x"
  using outbox_okD(4) [of b] by (auto simp: keep_object_def owed_id_def split: owed.split option.split)

lemma current_keep:
  assumes "current b x" and "\<And>i. mget (ob_records b') i = mget (ob_records b) i \<or>
      mget (ob_records b') i = None \<and> finished_in (ob_records b) i" and "outbox_ok b"
  shows "current b' (keep_object b b' x)"
proof (cases x)
  case (Copy d)
  with assms(1) assms(2) [of "dr_id d"] show ?thesis by (auto simp: current_def keep_object_def finished_in_def)
next
  case (Object i)
  with assms(1) obtain d where d: "mget (ob_records b) i = Some d" by (auto simp: current_def)
  then have "dr_id d = i" using outbox_okD(4) [OF assms(3)] by blast
  with Object d assms(2) [of i] show ?thesis by (auto simp: current_def keep_object_def finished_in_def)
qed

lemma journal_inv_write:
  assumes i: "journal_inv w" and ok: "outbox_ok (rl_box w)" and b: "rl_box w1 = rl_box w"
    and owed: "all_owed w = insert x (all_owed w1)" and d: "owed_record (rl_box w) x = Some d" and r: "r \<noteq> NotReplaced"
  shows "journal_inv (persist_step opts AppendOk r d w1)"
proof -
  let ?w = "persist_step opts AppendOk r d w1" and ?b = "rl_box w"
  let ?b' = "rl_box ?w"
  have b': "?b' = persistLocked_outbox opts AppendOk r d ?b" by (simp add: persist_step_def Let_def b)
  from i obtain ds where ds: "clean_lines (ob_file ?b) ds" and cur: "\<And>y. y \<in> all_owed w \<Longrightarrow> current ?b y"
    and old: "\<And>k. k \<notin> owed_id ` all_owed w \<Longrightarrow>
        (\<forall>d. mget (ob_records ?b) k = Some d \<longrightarrow> mget (last_lines ds) k = Some d) \<and>
        (\<forall>d. mget (last_lines ds) k = Some d \<longrightarrow> dr_status d = StatusPending \<longrightarrow> mget (ob_records ?b) k = Some d)"
    unfolding journal_inv_def by blast
  have id: "owed_id x = dr_id d"
    using d outbox_okD(4) [OF ok] by (auto simp: owed_record_def owed_id_def split: owed.splits)
  have now: "mget (ob_records ?b) (dr_id d) = Some d \<or> mget (ob_records ?b) (dr_id d) = None \<and> dr_status d \<noteq> StatusPending"
    using cur [of x] d id owed by (auto simp: current_def owed_record_def owed_id_def split: owed.splits)
  have ids: "owed_id ` all_owed ?w = owed_id ` all_owed w1"
    unfolding all_owed_persist b image_image by (rule image_cong [OF refl]) (rule owed_id_keep [OF ok])
  have keeps: "mget (ob_records ?b') k = mget (ob_records ?b) k \<or> mget (ob_records ?b') k = None \<and> finished_in (ob_records ?b) k" for k
    unfolding b' by (rule mget_persist [OF ok])
  have cur': "current ?b' y" if y: "y \<in> all_owed ?w" for y
  proof -
    from y obtain z where z: "z \<in> all_owed w1" "y = keep_object ?b ?b' z" unfolding all_owed_persist b by blast
    from z(1) owed have "current ?b z" by (intro cur) simp
    from current_keep [OF this keeps ok] z(2) show ?thesis by simp
  qed
  from ds show ?thesis
  proof (cases rule: persistLocked_ok_cases [of ?b ds opts r d])
    case (plain c)
    then have c: "ob_records ?b' = ob_records ?b" "clean_lines (ob_file ?b') (ds @ [d])" using b' by simp_all
    have F: "(\<forall>e. mget (ob_records ?b') k = Some e \<longrightarrow> mget (last_lines (ds @ [d])) k = Some e) \<and>
        (\<forall>e. mget (last_lines (ds @ [d])) k = Some e \<longrightarrow> dr_status e = StatusPending \<longrightarrow> mget (ob_records ?b') k = Some e)"
      if k: "k \<notin> owed_id ` all_owed ?w" for k
    proof (cases "k = dr_id d")
      case True
      with now show ?thesis unfolding c(1) by auto
    next
      case False
      with k have "k \<notin> owed_id ` all_owed w" unfolding ids owed by (simp add: id)
      from old [OF this] False show ?thesis unfolding c(1) mget_last_lines_snoc by metis
    qed
    show ?thesis unfolding journal_inv_def
    proof (intro exI [of _ "ds @ [d]"] conjI ballI allI impI)
      show "clean_lines (ob_file ?b') (ds @ [d])" by (fact c(2))
      show "current ?b' y" if "y \<in> all_owed ?w" for y by (rule cur' [OF that])
      fix k e
      assume k: "k \<notin> owed_id ` all_owed ?w"
      show "mget (last_lines (ds @ [d])) k = Some e" if "mget (ob_records ?b') k = Some e"
        using F [OF k] that by blast
      show "mget (ob_records ?b') k = Some e" if "mget (last_lines (ds @ [d])) k = Some e" "dr_status e = StatusPending"
        using F [OF k] that by blast
    qed
  next
    case (compacts b1)
    have "outbox_ok b1" using ok compacts(2,3) outbox_ok_cong by metis
    from compacted_file [OF this r, of opts] obtain es where es: "clean_lines (ob_file ?b') es"
      "\<And>k. mget (last_lines es) k = mget (ob_records ?b') k" using b' compacts(1) by auto
    show ?thesis unfolding journal_inv_def
      by (rule exI [of _ es]) (use es cur' in simp)
  qed
qed


lemma Send_lock_sups:
  assumes "Send_lock digest now ev b = (Some (sups, d), b')" and "gomap_ok (ob_records b)"
  shows "y \<in> set sups \<longleftrightarrow> (\<exists>k x. mget (ob_records b) k = Some x \<and> supersedes ev (dr_id d) x \<and> y = supersede x)"
proof -
  note S = Send_lock_records [OF assms(1)]
  have e: "sups = map (supersede \<circ> snd) (filter (supersedes ev (dr_id d) \<circ> snd) (mput (dr_id d) d (ob_records b)))"
    using assms(1) by (auto simp: Send_lock_def Let_def split: if_splits)
  have i: "dr_id d = deliveryID digest ev" unfolding S(2) by simp
  have "(k, x) \<in> set (ob_records b) \<Longrightarrow> k \<noteq> dr_id d" for k x
    using S(1) i assms(2) by (auto simp: mem_gomap_iff)
  then show ?thesis
    unfolding e using assms(2) by (auto simp: set_mput mem_gomap_iff image_iff)
qed

lemma Union_list_update:
  assumes "k < length L" and "L ! k = x # xs"
  shows "\<Union> (set ` set L) = insert x (\<Union> (set ` set (L[k := xs])))"
proof -
  have L: "L = take k L @ (x # xs) # drop (Suc k) L" using id_take_nth_drop [OF assms(1)] assms(2) by simp
  have U: "L[k := xs] = take k L @ xs # drop (Suc k) L" by (rule upd_conv_take_nth_drop [OF assms(1)])
  have "\<Union> (set ` set (take k L @ (x # xs) # drop (Suc k) L)) = insert x (\<Union> (set ` set (take k L @ xs # drop (Suc k) L)))"
    by auto
  with L U show ?thesis by metis
qed

lemma journal_inv_send:
  assumes i: "journal_inv w" and ok: "outbox_ok (rl_box w)" and e: "all_owed w = {}"
    and s: "Send_lock digest now ev (rl_box w) = (Some (sups, d), b')"
  shows "journal_inv (w\<lparr>rl_box := b', rl_owed := rl_owed w @ [map Copy sups @ [Object (dr_id d)]], rl_queued := q\<rparr>)"
    (is "journal_inv ?w'")
proof (rule journal_inv_change [OF i e])
  note S = Send_lock_records [OF s] and D = outbox_okD [OF ok]
  note sups = Send_lock_sups [OF s D(2)]
  have "all_owed ?w' = all_owed w \<union> Copy ` set sups \<union> {Object (dr_id d)}" by (auto simp: all_owed_def)
  then have owed: "all_owed ?w' = Copy ` set sups \<union> {Object (dr_id d)}" unfolding e by simp
  show "ob_file (rl_box ?w') = ob_file (rl_box w)" using S(4) by simp
  show "current (rl_box ?w') x" if "x \<in> all_owed ?w'" for x
    using that unfolding owed
  proof
    assume "x \<in> Copy ` set sups"
    then obtain y k z where x: "x = Copy y" "mget (ob_records (rl_box w)) k = Some z" "supersedes ev (dr_id d) z" "y = supersede z"
      using sups by auto
    have k: "dr_id z = k" using D(4) [OF x(2)] by blast
    have "k \<noteq> dr_id d" using x(3) k by (auto simp: supersedes_def)
    then have "mget (ob_records b') k = Some y" unfolding S(5) using x by simp
    with x k show ?thesis by (simp add: current_def)
  next
    assume "x \<in> {Object (dr_id d)}"
    then show ?thesis using S(5) [of "dr_id d"] by (simp add: current_def)
  qed
  show "mget (ob_records (rl_box ?w')) k = mget (ob_records (rl_box w)) k" if k: "k \<notin> owed_id ` all_owed ?w'" for k
  proof -
    have nd: "k \<noteq> dr_id d" using k unfolding owed by (auto simp: owed_id_def)
    have ns: "\<not> supersedes ev (dr_id d) z" if z: "mget (ob_records (rl_box w)) k = Some z" for z
    proof
      assume "supersedes ev (dr_id d) z"
      then have "supersede z \<in> set sups" using sups z by blast
      then have "owed_id (Copy (supersede z)) \<in> owed_id ` all_owed ?w'" unfolding owed by blast
      with k D(4) [OF z] show False by (simp add: owed_id_def)
    qed
    show ?thesis using nd ns by (cases "mget (ob_records (rl_box w)) k") (simp_all add: S(5))
  qed
qed

lemma journal_inv_step:
  assumes i: "journal_inv w" and ok: "outbox_ok (rl_box w)" and wf: "writes_first a w" and st: "relay_step opts digest a w = Some w'"
  shows "journal_inv w'"
proof (cases a)
  case (ASend now cfg ev)
  show ?thesis
  proof (cases "undeliverable cfg ev \<or> fst (Send_lock digest now ev (rl_box w)) = None")
    case True
    then have "w' = w" using st ASend by (auto split: prod.splits if_splits)
    with i show ?thesis by simp
  next
    case False
    then obtain sups d b' where s: "Send_lock digest now ev (rl_box w) = (Some (sups, d), b')"
      by (metis fst_conv not_None_eq surj_pair)
    have "w' = w\<lparr>rl_box := b', rl_owed := rl_owed w @ [map Copy sups @ [Object (dr_id d)]], rl_queued := rl_queued w @ [ev]\<rparr>"
      using st ASend False s by auto
    moreover have "all_owed w = {}" using wf ASend by (simp add: writes_first_def owes_nothing_all_owed)
    ultimately show ?thesis using journal_inv_send [OF i ok _ s] by simp
  qed
next
  case (ASuppress now ev why)
  have e: "all_owed w = {}" using wf ASuppress by (simp add: writes_first_def owes_nothing_all_owed)
  show ?thesis
  proof (cases "RecordSuppressed_lock digest now ev why (rl_box w)")
    case (Pair o1 b')
    show ?thesis
    proof (cases o1)
      case None
      with st ASuppress Pair i show ?thesis by auto
    next
      case (Some d)
      note R = RecordSuppressed_lock_records [OF Pair [unfolded Some]]
      from st ASuppress Pair Some have w': "w' = w\<lparr>rl_box := b', rl_owed := rl_owed w @ [[Object (dr_id d)]]\<rparr>" by auto
      have "all_owed w' = all_owed w \<union> {Object (dr_id d)}" by (auto simp: all_owed_def w')
      then have owed: "all_owed w' = {Object (dr_id d)}" unfolding e by simp
      show ?thesis
      proof (rule journal_inv_change [OF i e])
        show "ob_file (rl_box w') = ob_file (rl_box w)" by (simp add: w' R(4))
        show "current (rl_box w') x" if "x \<in> all_owed w'" for x
          using that unfolding owed by (simp add: w' R(4) current_def)
        show "mget (ob_records (rl_box w')) k = mget (ob_records (rl_box w)) k" if "k \<notin> owed_id ` all_owed w'" for k
          using that unfolding owed by (simp add: w' R(4) owed_id_def)
      qed
    qed
  qed
next
  case (AWrite k o1 r)
  from st AWrite obtain x xs d where k: "k < length (rl_owed w)" "rl_owed w ! k = x # xs"
    and d: "owed_record (rl_box w) x = Some d" and w': "w' = persist_step opts o1 r d (w\<lparr>rl_owed := (rl_owed w)[k := xs]\<rparr>)"
    by (auto split: if_splits list.splits)
  have o: "o1 = AppendOk" "r \<noteq> NotReplaced" using wf AWrite by (simp_all add: writes_first_def)
  have "all_owed w = insert x (all_owed (w\<lparr>rl_owed := (rl_owed w)[k := xs]\<rparr>))"
    unfolding all_owed_def using Union_list_update [OF k] by simp
  from journal_inv_write [OF i ok _ this d o(2)] show ?thesis unfolding w' o(1) by simp
next
  case (AScan now due)
  with st show ?thesis by (intro journal_inv_same [OF i]) (auto simp: all_owed_def split: if_splits)
next
  case (ATry io)
  with st show ?thesis
    by (intro journal_inv_same [OF i]) (auto simp: all_owed_def Let_def split: delivery_worker.splits list.splits)
next
  case ALock
  from st ALock obtain now snap ad rest where p: "rl_worker w = WSent now snap ad rest" by (auto split: delivery_worker.splits)
  have e: "all_owed w = {}" using wf ALock by (simp add: writes_first_def owes_nothing_all_owed)
  show ?thesis
  proof (cases "attempt_lock opts now ad snap (rl_box w)")
    case (Pair o1 b')
    show ?thesis
    proof (cases o1)
      case None
      with st ALock p Pair show ?thesis by (intro journal_inv_same [OF i]) (auto simp: all_owed_def)
    next
      case (Some d')
      from attempt_lock_records [OF ok Pair [unfolded Some]] obtain d where d: "dr_id d' = dr_id snap"
        "b' = (rl_box w)\<lparr>ob_records := mput (dr_id snap) d' (ob_records (rl_box w))\<rparr>" by metis
      have w': "w' = w\<lparr>rl_box := b', rl_worker := WWrite d' rest\<rparr>" using st ALock p Pair Some by simp
      have owed: "all_owed w' = {Copy d'}" using e p by (auto simp: all_owed_def w')
      show ?thesis
      proof (rule journal_inv_change [OF i e])
        show "ob_file (rl_box w') = ob_file (rl_box w)" by (simp add: w' d)
        show "current (rl_box w') x" if "x \<in> all_owed w'" for x
          using that unfolding owed by (simp add: w' d current_def)
        show "mget (ob_records (rl_box w')) k = mget (ob_records (rl_box w)) k" if "k \<notin> owed_id ` all_owed w'" for k
          using that unfolding owed by (simp add: w' d owed_id_def)
      qed
    qed
  qed
next
  case (APersist o1 r)
  from st APersist obtain d rest where p: "rl_worker w = WWrite d rest"
    and w': "w' = persist_step opts o1 r d (w\<lparr>rl_worker := WDue rest\<rparr>)" by (auto split: delivery_worker.splits)
  have o: "o1 = AppendOk" "r \<noteq> NotReplaced" using wf APersist by (simp_all add: writes_first_def)
  have "all_owed w = insert (Copy d) (all_owed (w\<lparr>rl_worker := WDue rest\<rparr>))" using p by (simp add: all_owed_def)
  from journal_inv_write [OF i ok _ this _ o(2), of d] show ?thesis unfolding w' o(1) by (simp add: owed_record_def)
qed

lemma journal_inv_fresh:
  assumes "clean_lines f ds" and "New_outbox enclen f = Some b"
  shows "journal_inv (fresh_relay b)"
proof -
  from assms have b: "b = fold load_one ds \<lparr>ob_records = [], ob_order = [], ob_lines = 0, ob_file = f\<rparr>"
    using ReadJSONL_clean [OF assms(1)] by (auto simp: New_outbox_def split: if_splits)
  have "mget (ob_records b) i = mget (last_lines ds) i" for i unfolding b by (simp add: mget_load split: option.split)
  moreover have "ob_file b = f" unfolding b by (simp add: ob_file_load)
  ultimately show ?thesis
    using assms(1) unfolding journal_inv_def by (intro exI [of _ ds]) (simp add: fresh_relay_def all_owed_def)
qed

text \<open>
  C39. A restart resumes exactly the undelivered work. After any run in which every write succeeded and was
  made before the next change of the records: if no line of the journal reaches the megabyte the loading
  scanner allows, the journal loads, gives back every record of the stopped process as it was,
  has no other record pending, and is clean again, so that the statement applies to the next run; if one line
  is that long, the outbox refuses to start.
\<close>
theorem restart_resumes_the_queue:
  assumes "clean_lines f ds" and "file_ok f" and "New_outbox enclen f = Some b0"
    and "relayed opts digest writes_first b0 w" and "owes_nothing w"
  shows "if short_lines enclen (ob_file (rl_box w))
    then \<exists>b es. New_outbox enclen (ob_file (rl_box w)) = Some b \<and> clean_lines (ob_file (rl_box w)) es \<and>
      (\<forall>i d. mget (ob_records (rl_box w)) i = Some d \<longrightarrow> mget (ob_records b) i = Some d) \<and>
      (\<forall>i d. mget (ob_records b) i = Some d \<longrightarrow> dr_status d = StatusPending \<longrightarrow> mget (ob_records (rl_box w)) i = Some d)
    else New_outbox enclen (ob_file (rl_box w)) = None"
proof -
  have "journal_inv w \<and> relay_ok w"
    using assms(4)
  proof (induction rule: relayed.induct)
    case relayed_start
    show ?case using journal_inv_fresh [OF assms(1,3)] relay_ok_fresh [OF assms(2,3)] by blast
  next
    case (relayed_step w a w')
    then show ?case using journal_inv_step relay_ok_step by (metis relay_ok_def)
  qed
  then obtain es where es: "clean_lines (ob_file (rl_box w)) es"
    "\<And>i. i \<notin> owed_id ` all_owed w \<Longrightarrow>
        (\<forall>d. mget (ob_records (rl_box w)) i = Some d \<longrightarrow> mget (last_lines es) i = Some d) \<and>
        (\<forall>d. mget (last_lines es) i = Some d \<longrightarrow> dr_status d = StatusPending \<longrightarrow> mget (ob_records (rl_box w)) i = Some d)"
    unfolding journal_inv_def by blast
  have none: "i \<notin> owed_id ` all_owed w" for i using owes_nothing_all_owed [OF assms(5)] by simp
  note load = New_outbox_clean [OF es(1), of enclen]
  show ?thesis
  proof (cases "short_lines enclen (ob_file (rl_box w))")
    case False
    then show ?thesis using load by simp
  next
    case True
    with load obtain b where b: "New_outbox enclen (ob_file (rl_box w)) = Some b"
      "\<And>i. mget (ob_records b) i = mget (last_lines es) i"
      by auto
    have "mget (ob_records b) i = Some d" if "mget (ob_records (rl_box w)) i = Some d" for i d
      using es(2) [OF none, of i] that unfolding b(2) by blast
    moreover have "mget (ob_records (rl_box w)) i = Some d"
      if "mget (ob_records b) i = Some d" "dr_status d = StatusPending" for i d
      using es(2) [OF none, of i] that unfolding b(2) by blast
    ultimately have "New_outbox enclen (ob_file (rl_box w)) = Some b \<and> clean_lines (ob_file (rl_box w)) es \<and>
      (\<forall>i d. mget (ob_records (rl_box w)) i = Some d \<longrightarrow> mget (ob_records b) i = Some d) \<and>
      (\<forall>i d. mget (ob_records b) i = Some d \<longrightarrow> dr_status d = StatusPending \<longrightarrow> mget (ob_records (rl_box w)) i = Some d)"
      using b(1) es(1) by blast
    then show ?thesis unfolding if_P [OF True] by blast
  qed
qed

definition roomy_options :: outbox_options where
  "roomy_options = withDefaults \<lparr>oo_pollInterval = 0, oo_maxAttempts = 3, oo_backoffBase = 0, oo_backoffMax = 0,
     oo_maxRetained = 0, oo_redact = None\<rparr>"

text \<open>An open whose first attempt fails on one channel, with every write made at once.\<close>

definition attempt_round :: "time \<Rightarrow> bool \<Rightarrow> relay \<Rightarrow> relay_action list" where
  "attempt_round now up w = [AScan now (deliverDue now (rl_box w)), ATry (demo_attempt now up), ALock]"

definition enqueued :: relay where
  "enqueued = the (run_relay roomy_options demo_digest
     [ASend 10 (Inr sample_config) demo_open, AWrite 0 AppendOk Replaced] (fresh_relay empty_outbox))"

definition tidy_script :: "relay_action list" where
  "tidy_script = [ASend 10 (Inr sample_config) demo_open, AWrite 0 AppendOk Replaced] @
     attempt_round 12 False enqueued @ [APersist AppendOk Replaced, ATry (demo_attempt 12 False)]"

theorem restart_resumes_the_queue_witness:
  "case run_relay roomy_options demo_digest tidy_script (fresh_relay empty_outbox) of None \<Rightarrow> False
   | Some w \<Rightarrow> (case New_outbox (\<lambda>_. 100) (ob_file (rl_box w)) of None \<Rightarrow> False
       | Some b \<Rightarrow> mget (ob_records b) (deliveryID demo_digest demo_open) = mget (ob_records (rl_box w)) (deliveryID demo_digest demo_open) \<and>
           mget (ob_records b) (deliveryID demo_digest demo_open) \<noteq> None)"
proof -
  let ?f = "\<lparr>fi_frames = [], fi_tail = NoTail\<rparr>" and ?i = "deliveryID demo_digest demo_open"
  have c: "clean_lines ?f []" "file_ok ?f" by (simp_all add: clean_lines_def file_ok_def)
  have n: "New_outbox (\<lambda>_. 100) ?f = Some empty_outbox"
    by (simp add: New_outbox_def ReadJSONL_def empty_outbox_def List.map_filter_simps)
  have st: "map_option (\<lambda>w. owes_nothing w \<and> mget (ob_records (rl_box w)) ?i \<noteq> None)
      (run_relay roomy_options demo_digest tidy_script (fresh_relay empty_outbox)) = Some True"
    by code_simp
  then obtain w where w: "run_relay roomy_options demo_digest tidy_script (fresh_relay empty_outbox) = Some w"
    and o: "owes_nothing w" "mget (ob_records (rl_box w)) ?i \<noteq> None" by auto
  have "run_allowed roomy_options demo_digest writes_first tidy_script (fresh_relay empty_outbox)" by code_simp
  from relayed_run [OF relayed_start this w]
  have r: "relayed roomy_options demo_digest writes_first empty_outbox w" .
  obtain d where d: "mget (ob_records (rl_box w)) ?i = Some d" using o(2) by auto
  have short: "short_lines (\<lambda>_. 100) f" for f
    by (auto simp: short_lines_def max_line_def list_all_iff split: frame.splits)
  from restart_resumes_the_queue [OF c n r o(1)] obtain b where
    b: "New_outbox (\<lambda>_. 100) (ob_file (rl_box w)) = Some b" "mget (ob_records b) ?i = Some d"
    using d short by auto
  with w d show ?thesis by simp
qed


section \<open>A stale snapshot\<close>

text \<open>Scripts whose actions may look at the state.\<close>

fun run_live ::
    "outbox_options \<Rightarrow> (string \<Rightarrow> string) \<Rightarrow> (relay_action \<Rightarrow> relay \<Rightarrow> bool) \<Rightarrow> (relay \<Rightarrow> relay_action) list \<Rightarrow> relay \<Rightarrow> relay option" where
  "run_live opts digest ok [] w = Some w"
| "run_live opts digest ok (f # fs) w =
     (let a = f w in if ok a w then (case relay_step opts digest a w of None \<Rightarrow> None | Some w' \<Rightarrow> run_live opts digest ok fs w') else None)"

lemma relayed_live:
  "relayed opts digest ok b0 w \<Longrightarrow> run_live opts digest ok fs w = Some w' \<Longrightarrow> relayed opts digest ok b0 w'"
  by (induction fs arbitrary: w) (auto simp: Let_def split: option.splits if_splits intro: relayed_step)

definition scan_now :: "time \<Rightarrow> relay \<Rightarrow> relay_action" where
  "scan_now now w = AScan now (deliverDue now (rl_box w))"

text \<open>
  The worker has recorded a failed attempt of an open and not yet written its snapshot when the
  recovery is enqueued: the superseded record and the recovery reach the journal first, the
  snapshot, in which the open is still pending, comes last.
\<close>

definition stale_script :: "(relay \<Rightarrow> relay_action) list" where
  "stale_script =
     [\<lambda>_. ASend 10 (Inr sample_config) demo_open, \<lambda>_. AWrite 0 AppendOk Replaced,
      scan_now 12, \<lambda>_. ATry (demo_attempt 12 False), \<lambda>_. ALock,
      \<lambda>_. ASend 20 (Inr sample_config) demo_recovered, \<lambda>_. AWrite 1 AppendOk Replaced, \<lambda>_. AWrite 1 AppendOk Replaced,
      \<lambda>_. APersist AppendOk Replaced, \<lambda>_. ATry (demo_attempt 21 True),
      scan_now 22, \<lambda>_. ATry (demo_attempt 23 True), \<lambda>_. ALock, \<lambda>_. APersist AppendOk Replaced]"

text \<open>
  Every write succeeds and nothing is owed any more, the recovery of the incident was
  acknowledged, and still the next process finds the superseded open pending and sends it: the
  receivers see the closed incident reopen.
\<close>
theorem superseded_open_is_resent:
  "\<exists>w b w2. relayed roomy_options demo_digest ordered empty_outbox w \<and> owes_nothing w \<and>
     list_ex (\<lambda>e. closes ''inc_1'' (sl_event e) \<and> sl_ok e) (rl_log w) \<and>
     New_outbox (\<lambda>_. 100) (ob_file (rl_box w)) = Some b \<and>
     relayed roomy_options demo_digest ordered b w2 \<and>
     list_ex (\<lambda>e. opens ''inc_1'' (sl_event e) \<and> sl_ok e) (rl_log w2)"
proof -
  let ?run = "run_live roomy_options demo_digest ordered stale_script (fresh_relay empty_outbox)"
  let ?again = "\<lambda>b. run_live roomy_options demo_digest ordered [scan_now (hour), \<lambda>_. ATry (demo_attempt hour True)] (fresh_relay b)"
  have all: "(case ?run of None \<Rightarrow> False
      | Some w \<Rightarrow> owes_nothing w \<and> list_ex (\<lambda>e. closes ''inc_1'' (sl_event e) \<and> sl_ok e) (rl_log w) \<and>
          (case New_outbox (\<lambda>_. 100) (ob_file (rl_box w)) of None \<Rightarrow> False
           | Some b \<Rightarrow> (case ?again b of None \<Rightarrow> False
               | Some w2 \<Rightarrow> list_ex (\<lambda>e. opens ''inc_1'' (sl_event e) \<and> sl_ok e) (rl_log w2))))"
    by code_simp
  then obtain w where w: "?run = Some w" "owes_nothing w" "list_ex (\<lambda>e. closes ''inc_1'' (sl_event e) \<and> sl_ok e) (rl_log w)"
    "case New_outbox (\<lambda>_. 100) (ob_file (rl_box w)) of None \<Rightarrow> False
           | Some b \<Rightarrow> (case ?again b of None \<Rightarrow> False
               | Some w2 \<Rightarrow> list_ex (\<lambda>e. opens ''inc_1'' (sl_event e) \<and> sl_ok e) (rl_log w2))"
    by (auto split: option.splits)
  from w(4) obtain b where b: "New_outbox (\<lambda>_. 100) (ob_file (rl_box w)) = Some b"
    "case ?again b of None \<Rightarrow> False | Some w2 \<Rightarrow> list_ex (\<lambda>e. opens ''inc_1'' (sl_event e) \<and> sl_ok e) (rl_log w2)"
    by (auto split: option.splits)
  from b(2) obtain w2 where w2: "?again b = Some w2" "list_ex (\<lambda>e. opens ''inc_1'' (sl_event e) \<and> sl_ok e) (rl_log w2)"
    by (auto split: option.splits)
  show ?thesis
    using relayed_live [OF relayed_start w(1)] w(2,3) b(1) relayed_live [OF relayed_start w2(1)] w2(2) by blast
qed

section \<open>A short write\<close>

text \<open>
  After one short write of a journal line, the next append that succeeds joins its line to the torn
  one: the dashboard refuses to start again, unless a compaction rewrote the journal before.
\<close>
theorem short_write_refuses_the_next_start:
  assumes "int (length (ob_records b)) \<le> oo_maxRetained opts"
  shows "New_outbox enclen (ob_file (persistLocked_outbox opts AppendOk r2 d2 (persistLocked_outbox opts AppendTorn r1 d1 b))) = None"
  using assms
  by (simp add: persistLocked_outbox_def Let_def end_line_def New_outbox_def ReadJSONL_def)

theorem short_write_refuses_the_next_start_witness:
  "New_outbox (\<lambda>_. 100) (ob_file (persistLocked_outbox roomy_options AppendOk Replaced (new_delivery ''d4'' demo_recovered 40)
     (persistLocked_outbox roomy_options AppendTorn Replaced (new_delivery ''d3'' demo_open 30) demo_outbox))) = None"
proof (rule short_write_refuses_the_next_start)
  show "int (length (ob_records demo_outbox)) \<le> oo_maxRetained roomy_options" by code_simp
qed

end
