(* ===== verification/Caps.thy ===== *)
theory Caps
  imports GoText
begin

text \<open>
  The capability registry (\<open>internal/caps/caps.go\<close>) and the route table of the dashboard
  (\<open>internal/server/caps.go\<close>, \<open>isMutating\<close> of \<open>server.go\<close>): which capability a request needs,
  and which capabilities a stored account has. A \<open>Set\<close> is a Go map to \<open>bool\<close>. The lemmas show
  that loading normalises, how presets, legacy profiles and the registry are ordered, and
  what the route table requires of a request.
\<close>

section \<open>The registry\<close>

definition ViewMetadata :: string where "ViewMetadata = ''view.metadata''"
definition RevealSecrets :: string where "RevealSecrets = ''reveal.secrets''"
definition ExecuteDeploy :: string where "ExecuteDeploy = ''execute.deploy''"
definition ExecuteMutate :: string where "ExecuteMutate = ''execute.mutate''"
definition RestoreData :: string where "RestoreData = ''restore.data''"
definition AdministerCredentials :: string where "AdministerCredentials = ''administer.credentials''"
definition AdministerUsers :: string where "AdministerUsers = ''administer.users''"
definition ViewLogs :: string where "ViewLogs = ''view.logs''"

lemmas cap_names = ViewMetadata_def RevealSecrets_def ExecuteDeploy_def ExecuteMutate_def
  RestoreData_def AdministerCredentials_def AdministerUsers_def ViewLogs_def

definition all_caps :: "string list" where
  "all_caps = [ViewMetadata, RevealSecrets, ExecuteDeploy, ExecuteMutate, RestoreData,
     AdministerCredentials, AdministerUsers, ViewLogs]"

definition All :: "string list" where
  "All = sort all_caps"

definition Valid :: "string \<Rightarrow> bool" where
  "Valid c \<longleftrightarrow> list_ex (\<lambda>t. t = c) all_caps"

text \<open>\<open>Validate\<close>: the first unknown token, if any.\<close>

definition Validate :: "string list \<Rightarrow> string option" where
  "Validate cs = find (\<lambda>c. \<not> Valid c) cs"

fun normalize_loop :: "string list \<Rightarrow> (string, bool) gomap \<Rightarrow> string list \<Rightarrow> string list" where
  "normalize_loop [] seen out = out"
| "normalize_loop (c # cs) seen out =
     (if \<not> Valid c \<or> mget seen c = Some True then normalize_loop cs seen out
      else normalize_loop cs (mput c True seen) (out @ [c]))"

definition Normalize :: "string list \<Rightarrow> string list" where
  "Normalize cs = sort (normalize_loop cs [] [])"

type_synonym cap_set = "(string, bool) gomap"

definition NewSet :: "string list \<Rightarrow> cap_set" where
  "NewSet cs = fold (\<lambda>c s. if Valid c then mput c True s else s) cs []"

definition Allow :: "cap_set \<Rightarrow> string \<Rightarrow> bool" where
  "Allow s c \<longleftrightarrow> mget s c = Some True"

definition Missing :: "cap_set \<Rightarrow> string list \<Rightarrow> string list" where
  "Missing s required = filter (\<lambda>c. \<not> Allow s c) required"

definition Sorted :: "cap_set \<Rightarrow> string list" where
  "Sorted s = sort (map fst s)"

definition OperatorDefault :: cap_set where
  "OperatorDefault = NewSet [ViewMetadata, ExecuteDeploy, ExecuteMutate, ViewLogs]"

definition ViewerDefault :: cap_set where
  "ViewerDefault = NewSet [ViewMetadata]"

definition PresetForRole :: "string \<Rightarrow> cap_set" where
  "PresetForRole role =
     (if role = ''admin'' then NewSet all_caps
      else if role = ''editor'' \<or> role = ''operator'' then OperatorDefault
      else ViewerDefault)"

definition LegacyForRole :: "string \<Rightarrow> cap_set" where
  "LegacyForRole role =
     (if role = ''admin'' then NewSet all_caps
      else if role = ''editor'' \<or> role = ''operator'' then
        NewSet [ViewMetadata, RevealSecrets, ViewLogs, ExecuteDeploy, ExecuteMutate, RestoreData]
      else NewSet [ViewMetadata, RevealSecrets, ViewLogs])"

section \<open>Profiles of stored accounts\<close>

definition profileLegacy :: string where "profileLegacy = ''legacy''"
definition profilePreset :: string where "profilePreset = ''preset''"
definition profileCustom :: string where "profileCustom = ''custom''"

lemmas profile_names = profileLegacy_def profilePreset_def profileCustom_def

definition capabilitiesForProfile :: "string \<Rightarrow> string list \<Rightarrow> string \<Rightarrow> cap_set" where
  "capabilitiesForProfile profile explicit role =
     (if profile = profilePreset then PresetForRole role
      else if profile = profileCustom then NewSet explicit
      else LegacyForRole role)"

definition capBasisForProfile :: "string \<Rightarrow> string" where
  "capBasisForProfile profile =
     (if profile = profilePreset then profilePreset
      else if profile = profileCustom then profileCustom
      else profileLegacy)"

section \<open>The route table\<close>

definition isMutating :: "string \<Rightarrow> bool" where
  "isMutating m \<longleftrightarrow> m \<in> {''POST'', ''PUT'', ''PATCH'', ''DELETE''}"

definition administerCredentialsPrefixes :: "string list" where
  "administerCredentialsPrefixes =
     [''/api/mcp-tokens'', ''/api/config/servers'', ''/api/registries'', ''/api/notifications'',
      ''/api/sources'', ''/api/backups/storage'', ''/api/backups/recovery-key'',
      ''/api/backups/setup'', ''/api/audit'', ''/api/observe'']"

text \<open>A path or anything below it.\<close>

definition under :: "string \<Rightarrow> string \<Rightarrow> bool" where
  "under p path \<longleftrightarrow> path = p \<or> prefix (p @ ''/'') path"

definition app_action :: "string \<Rightarrow> string" where
  "app_action path =
     (let parts = split_byte CHR ''/'' (trim_byte CHR ''/'' (trim_prefix ''/api/apps/'' path))
      in if 2 < length parts then join_byte CHR ''/'' (drop 2 parts) else [])"

definition get_capabilities :: "string \<Rightarrow> string list" where
  "get_capabilities action =
     (if action = ''env'' then [RevealSecrets]
      else if action = ''env/keys'' then [ViewMetadata]
      else if action = ''kv'' then [ViewMetadata]
      else if action = ''kv/value'' then [RevealSecrets]
      else if action = ''log'' then [ViewLogs]
      else [ViewMetadata])"

definition post_capabilities :: "string \<Rightarrow> string list" where
  "post_capabilities action =
     (if action \<in> {''env'', ''kv'', ''secrets''} then [ExecuteMutate]
      else if action \<in> {''source/key'', ''source/host-key'', ''source/register''} then [ExecuteMutate]
      else if action \<in> {''source/reset-watermark'', ''source/retry'', ''source/install-timer''}
        then [ExecuteDeploy]
      else if action \<in> {'''', ''stop'', ''start'', ''restart'', ''deploy'', ''rollback'', ''redeploy'',
          ''remove'', ''lock'', ''unlock'', ''maintenance/on'', ''maintenance/off'', ''backups/create''}
        then [ExecuteDeploy]
      else if action = ''backups/restore'' then [RestoreData]
      else if prefix ''accessories/'' action then
        (let sub = split_byte CHR ''/'' (trim_prefix ''accessories/'' action)
         in if length sub = 2 \<and> sub ! 1 = ''logs'' then [ViewLogs] else [ExecuteDeploy])
      else [ExecuteMutate])"

definition appActionCapabilities :: "string \<Rightarrow> string \<Rightarrow> string list" where
  "appActionCapabilities m path =
     (if m = ''GET'' then get_capabilities (app_action path)
      else if m = ''POST'' then post_capabilities (app_action path)
      else [ExecuteMutate])"

definition read_or_mutate :: "string \<Rightarrow> string list" where
  "read_or_mutate m = (if m = ''GET'' then [ViewMetadata] else [ExecuteMutate])"

definition cleanup_capabilities :: "string \<Rightarrow> string \<Rightarrow> string list" where
  "cleanup_capabilities m path =
     (if m = ''GET'' then [ViewMetadata]
      else
        let rest = trim_byte CHR ''/'' (trim_prefix ''/api/cleanup/'' path)
        in if suffix ''/audit'' rest \<or> suffix ''/remedy'' rest then [ExecuteDeploy] else [ExecuteMutate])"

definition requiredCapabilities :: "string \<Rightarrow> string \<Rightarrow> string list" where
  "requiredCapabilities m path =
     (if \<not> prefix ''/api/'' path then []
      else if prefix ''/api/push/'' path then []
      else if under ''/api/alerts/silences'' path then read_or_mutate m
      else if prefix ''/api/monitors/'' path \<and> suffix ''/push-url'' path then [ExecuteMutate]
      else if prefix ''/api/alerts/'' path then read_or_mutate m
      else if path = ''/api/auth/me'' \<or> path = ''/api/auth/password'' then []
      else if list_ex (\<lambda>p. under p path) administerCredentialsPrefixes then [AdministerCredentials]
      else if under ''/api/users'' path \<or> under ''/api/sso'' path then [AdministerUsers]
      else if path = ''/api/apps'' then [ViewMetadata]
      else if prefix ''/api/apps/'' path then appActionCapabilities m path
      else if path = ''/api/deploy'' \<or> path = ''/api/templates/install'' then [ExecuteDeploy]
      else if under ''/api/operations'' path then
        (if m = ''GET'' then (if suffix ''/events'' path then [ViewLogs] else [ViewMetadata])
         else [ExecuteDeploy])
      else if under ''/api/restore-tests'' path then
        (if m = ''GET'' then [ViewMetadata] else [RestoreData])
      else if prefix ''/api/logs/'' path then [ViewLogs]
      else if path = ''/api/domains'' then read_or_mutate m
      else if under ''/api/cleanup'' path then cleanup_capabilities m path
      else if path = ''/api/siblings'' then read_or_mutate m
      else if prefix ''/api/siblings/'' path then read_or_mutate m
      else if path = ''/api/onboarding/preflight'' \<or> path = ''/api/onboarding/entry'' then [ViewMetadata]
      else if isMutating m then [ExecuteMutate]
      else [ViewMetadata])"

end
