(* ===== verification/CapsLaws.thy ===== *)
theory CapsLaws
  imports Caps
begin

text \<open>
  Laws of the registry and of the route table: what a set built from a list allows, that
  normalising is a retraction onto sorted lists of known tokens, how the role presets and the
  legacy profiles compare, and which capability each class of request needs.
\<close>

section \<open>Sets and lists of tokens\<close>

lemma Valid_iff: "Valid c \<longleftrightarrow> c \<in> set all_caps"
  by (auto simp: Valid_def list_ex_iff)

lemma Validate_None_iff: "Validate cs = None \<longleftrightarrow> (\<forall>c \<in> set cs. Valid c)"
  by (auto simp: Validate_def find_None_iff)

lemma NewSet_fold:
  "mget (fold (\<lambda>c s. if Valid c then mput c True s else s) cs s) c =
     (if c \<in> set cs \<and> Valid c then Some True else mget s c)"
  by (induction cs arbitrary: s) auto

lemma Allow_NewSet [simp]: "Allow (NewSet cs) c \<longleftrightarrow> c \<in> set cs \<and> Valid c"
  by (simp add: Allow_def NewSet_def NewSet_fold)

lemma gomap_ok_NewSet_fold:
  "gomap_ok s \<Longrightarrow> gomap_ok (fold (\<lambda>c s. if Valid c then mput c True s else s) cs s)"
  by (induction cs arbitrary: s) auto

lemma gomap_ok_NewSet [simp, intro]: "gomap_ok (NewSet cs)"
  by (simp add: NewSet_def gomap_ok_NewSet_fold)

lemma keys_NewSet: "fst ` set (NewSet cs) = {c \<in> set cs. Valid c}"
proof -
  have "c \<in> fst ` set (NewSet cs) \<longleftrightarrow> c \<in> set cs \<and> Valid c" for c
    by (auto simp: mget_fst_iff NewSet_def NewSet_fold split: if_splits)
  then show ?thesis by auto
qed

lemma set_Sorted_NewSet: "set (Sorted (NewSet cs)) = {c \<in> set cs. Valid c}"
  by (simp add: Sorted_def keys_NewSet)

lemma sorted_Sorted: "sorted (Sorted s)"
  by (simp add: Sorted_def)

lemma distinct_Sorted: "gomap_ok s \<Longrightarrow> distinct (Sorted s)"
  by (simp add: Sorted_def gomap_ok_def)

lemma normalize_loop_spec:
  assumes "\<And>c. mget seen c = Some True \<longleftrightarrow> c \<in> set out" and "distinct out"
  shows "set (normalize_loop cs seen out) = set out \<union> {c \<in> set cs. Valid c} \<and>
    distinct (normalize_loop cs seen out)"
  using assms
proof (induction cs arbitrary: seen out)
  case (Cons c cs)
  show ?case
  proof (cases "\<not> Valid c \<or> mget seen c = Some True")
    case True
    with Cons.IH [OF Cons.prems] Cons.prems(1) show ?thesis by auto
  next
    case False
    have "mget (mput c True seen) d = Some True \<longleftrightarrow> d \<in> set (out @ [c])" for d
      using Cons.prems(1) by auto
    moreover have "distinct (out @ [c])" using False Cons.prems by auto
    ultimately show ?thesis using Cons.IH [of "mput c True seen" "out @ [c]"] False by auto
  qed
qed auto

lemma set_Normalize [simp]: "set (Normalize cs) = {c \<in> set cs. Valid c}"
  using normalize_loop_spec [of "[]" "[]" cs] by (simp add: Normalize_def)

lemma distinct_Normalize: "distinct (Normalize cs)"
  using normalize_loop_spec [of "[]" "[]" cs] by (simp add: Normalize_def)

lemma sorted_Normalize: "sorted (Normalize cs)"
  by (simp add: Normalize_def)

lemma Normalize_idem [simp]: "Normalize (Normalize cs) = Normalize cs"
  by (rule sorted_distinct_set_unique)
    (simp_all only: sorted_Normalize distinct_Normalize set_Normalize, auto)

lemma Normalize_Sorted: "Normalize cs = Sorted (NewSet cs)"
  by (rule sorted_distinct_set_unique)
    (auto simp only: sorted_Normalize distinct_Normalize sorted_Sorted set_Normalize set_Sorted_NewSet
      intro: distinct_Sorted)

text \<open>Loading a stored list does not change what it grants.\<close>

lemma Allow_Normalize: "Allow (NewSet (Normalize cs)) c \<longleftrightarrow> Allow (NewSet cs) c"
  by auto

lemma Missing_empty_iff: "Missing s req = [] \<longleftrightarrow> (\<forall>c \<in> set req. Allow s c)"
  by (auto simp: Missing_def filter_empty_conv)

section \<open>Presets and legacy profiles\<close>

definition within :: "cap_set \<Rightarrow> cap_set \<Rightarrow> bool" where
  "within s t \<longleftrightarrow> list_all (\<lambda>c. \<not> Allow s c \<or> Allow t c) all_caps"

lemma within_Allow: "within s t \<Longrightarrow> Valid c \<Longrightarrow> Allow s c \<Longrightarrow> Allow t c"
  by (auto simp: within_def list_all_iff Valid_iff)

lemma Allow_all_caps [simp]: "Allow (NewSet all_caps) c \<longleftrightarrow> Valid c"
  by (auto simp: Valid_iff)

lemma Allow_Valid:
  "Allow (PresetForRole role) c \<Longrightarrow> Valid c" "Allow (LegacyForRole role) c \<Longrightarrow> Valid c"
  "Allow (capabilitiesForProfile p e role) c \<Longrightarrow> Valid c"
  by (auto simp: PresetForRole_def LegacyForRole_def capabilitiesForProfile_def OperatorDefault_def
      ViewerDefault_def split: if_splits)

lemma preset_within_legacy: "within (PresetForRole role) (LegacyForRole role)"
  by (auto simp: within_def list_all_iff PresetForRole_def LegacyForRole_def OperatorDefault_def
      ViewerDefault_def)

lemma roles_are_ordered:
  "within (PresetForRole ''viewer'') (PresetForRole ''editor'')"
  "within (PresetForRole ''editor'') (PresetForRole ''admin'')"
  "within (LegacyForRole ''viewer'') (LegacyForRole ''editor'')"
  "within (LegacyForRole ''editor'') (LegacyForRole ''admin'')"
  by code_simp+

lemma preset_secrets_only_admin:
  "Allow (PresetForRole role) c \<Longrightarrow>
   c \<in> {RevealSecrets, RestoreData, AdministerCredentials, AdministerUsers} \<Longrightarrow> role = ''admin''"
  by (auto simp: PresetForRole_def OperatorDefault_def ViewerDefault_def cap_names split: if_splits)

section \<open>Requests and capabilities\<close>

lemma read_or_mutate_mutating: "isMutating m \<Longrightarrow> read_or_mutate m = [ExecuteMutate]"
  by (auto simp: read_or_mutate_def isMutating_def)

lemma post_capabilities_cases:
  "post_capabilities a \<in> {[ExecuteMutate], [ExecuteDeploy], [RestoreData], [ViewLogs]}"
  by (simp add: post_capabilities_def Let_def)

lemma get_capabilities_cases:
  "get_capabilities a \<in> {[RevealSecrets], [ViewMetadata], [ViewLogs]}"
  by (simp add: get_capabilities_def)

lemma appActionCapabilities_cases:
  "appActionCapabilities m path \<in>
     {[ExecuteMutate], [ExecuteDeploy], [RestoreData], [ViewLogs], [RevealSecrets], [ViewMetadata]}"
  using post_capabilities_cases get_capabilities_cases
  by (auto simp: appActionCapabilities_def)

lemma cleanup_capabilities_cases:
  "cleanup_capabilities m path \<in> {[ViewMetadata], [ExecuteDeploy], [ExecuteMutate]}"
  by (simp add: cleanup_capabilities_def Let_def)

lemma mem_if: "x \<in> A \<Longrightarrow> y \<in> A \<Longrightarrow> (if b then x else y) \<in> A"
  by simp

lemma read_or_mutate_cases: "read_or_mutate m \<in> {[ViewMetadata], [ExecuteMutate]}"
  by (simp add: read_or_mutate_def)

definition one_cap :: "string list set" where
  "one_cap = insert [] ((\<lambda>c. [c]) ` set all_caps)"

lemma one_cap_simps [simp]:
  "[] \<in> one_cap" "[ViewMetadata] \<in> one_cap" "[RevealSecrets] \<in> one_cap" "[ExecuteDeploy] \<in> one_cap"
  "[ExecuteMutate] \<in> one_cap" "[RestoreData] \<in> one_cap" "[AdministerCredentials] \<in> one_cap"
  "[AdministerUsers] \<in> one_cap" "[ViewLogs] \<in> one_cap"
  by (simp_all add: one_cap_def all_caps_def)

lemma class_one_cap [simp]:
  "appActionCapabilities m path \<in> one_cap" "cleanup_capabilities m path \<in> one_cap"
  "read_or_mutate m \<in> one_cap"
  using appActionCapabilities_cases [of m path] cleanup_capabilities_cases [of m path]
    read_or_mutate_cases [of m]
  by auto

lemma requiredCapabilities_cases: "requiredCapabilities m path \<in> one_cap"
  unfolding requiredCapabilities_def by (intro mem_if class_one_cap one_cap_simps)

text \<open>An administrator misses nothing.\<close>

lemma admin_misses_nothing: "Missing (NewSet all_caps) (requiredCapabilities m path) = []"
  using requiredCapabilities_cases [of m path] by (auto simp: Missing_empty_iff Valid_iff one_cap_def)

text \<open>
  The mutating requests that need no more than a reading capability: push tokens, the
  account's own identity and password, and four routes whose handlers only read.
\<close>

definition reading_route :: "string \<Rightarrow> bool" where
  "reading_route path \<longleftrightarrow>
     prefix ''/api/push/'' path \<or> path \<in> {''/api/auth/me'', ''/api/auth/password'', ''/api/apps'',
       ''/api/onboarding/preflight'', ''/api/onboarding/entry''} \<or> prefix ''/api/logs/'' path \<or>
     prefix ''/api/apps/'' path \<and> post_capabilities (app_action path) = [ViewLogs]"

definition writing_caps :: "string list" where
  "writing_caps = [ExecuteMutate, ExecuteDeploy, RestoreData, AdministerCredentials, AdministerUsers]"

definition writes :: "string list \<Rightarrow> bool" where
  "writes cs \<longleftrightarrow> list_ex (\<lambda>c. cs = [c]) writing_caps"

lemma writes_simps [simp]:
  "writes [ExecuteMutate]" "writes [ExecuteDeploy]" "writes [RestoreData]"
  "writes [AdministerCredentials]" "writes [AdministerUsers]"
  by (simp_all add: writes_def writing_caps_def)

lemma writes_if: "(b \<Longrightarrow> writes x) \<Longrightarrow> (\<not> b \<Longrightarrow> writes y) \<Longrightarrow> writes (if b then x else y)"
  by simp

lemma mutation_writes:
  assumes m: "isMutating m" and api: "prefix ''/api/'' path" and r: "\<not> reading_route path"
  shows "writes (requiredCapabilities m path)"
proof -
  have get: "m \<noteq> ''GET''" using m by (auto simp: isMutating_def)
  have app: "writes (appActionCapabilities m path)" if "prefix ''/api/apps/'' path"
    using that r get post_capabilities_cases [of "app_action path"]
    by (auto simp: appActionCapabilities_def reading_route_def)
  have cl: "writes (cleanup_capabilities m path)"
    using get by (auto simp: cleanup_capabilities_def Let_def)
  have rm: "writes (read_or_mutate m)" by (simp add: read_or_mutate_mutating [OF m])
  have no: "\<not> prefix ''/api/push/'' path" "\<not> (path = ''/api/auth/me'' \<or> path = ''/api/auth/password'')"
    "path \<noteq> ''/api/apps''" "\<not> prefix ''/api/logs/'' path"
    "\<not> (path = ''/api/onboarding/preflight'' \<or> path = ''/api/onboarding/entry'')"
    using r by (auto simp: reading_route_def)
  show ?thesis
    unfolding requiredCapabilities_def
    by (intro writes_if app cl rm writes_simps; (use api no get m in \<open>simp only: not_True_eq_False\<close>)?)
qed

lemma viewer_lacks_writing_caps:
  "c \<in> set writing_caps \<Longrightarrow> \<not> Allow ViewerDefault c"
  "c \<in> set writing_caps \<Longrightarrow> \<not> Allow (LegacyForRole ''viewer'') c"
  by (auto simp: writing_caps_def ViewerDefault_def LegacyForRole_def cap_names)

lemma credential_path:
  assumes "p \<in> set administerCredentialsPrefixes"
  shows "prefix ''/api/'' (p @ r)" "\<not> prefix ''/api/push/'' (p @ r)" "\<not> prefix ''/api/alerts/'' (p @ r)"
    "\<not> prefix ''/api/monitors/'' (p @ r)" "\<not> prefix ''/api/auth/'' (p @ r)"
  using assms by (auto simp: administerCredentialsPrefixes_def)

lemma under_iff: "under p path \<longleftrightarrow> (\<exists>r. path = p @ r \<and> (r = [] \<or> prefix ''/'' r))"
  by (auto simp: under_def prefix_def)

lemma credential_routes:
  assumes "list_ex (\<lambda>p. under p path) administerCredentialsPrefixes"
  shows "requiredCapabilities m path = [AdministerCredentials]"
proof -
  obtain p where p: "p \<in> set administerCredentialsPrefixes" and "under p path"
    using assms by (auto simp: list_ex_iff)
  then obtain r where path: "path = p @ r" by (auto simp: under_iff)
  note c = credential_path [OF p, of r, folded path]
  have "\<not> under ''/api/alerts/silences'' path" using c(3) by (auto simp: under_iff)
  moreover have "path \<noteq> ''/api/auth/me'' \<and> path \<noteq> ''/api/auth/password''" using c(5) by auto
  ultimately show ?thesis using c assms by (simp add: requiredCapabilities_def)
qed

end
