(* ===== verification/Accounts.thy ===== *)
theory Accounts
  imports CapsLaws OpJournal
begin

text \<open>
  The account store of the dashboard (\<open>internal/server/users.go\<close> and the state of \<open>authGate\<close>
  in \<open>server.go\<close>): local accounts, single-sign-on principals, the store-wide epoch counter,
  and the two files they are written to. Every mutation builds a candidate, writes it with
  \<open>saveUsersFile\<close> and publishes it only if the write is reported as done; a write can fail
  before or after the rename (\<open>save_outcome\<close>). The bcrypt functions are parameters.
\<close>

section \<open>State\<close>

record dash_user =
  us_name :: string
  us_hash :: string
  us_role :: string
  us_epoch :: "64 word"
  us_profile :: string
  us_caps :: "string list"

record dash_principal =
  pr_subject :: string
  pr_username :: string
  pr_email :: string
  pr_role :: string
  pr_epoch :: "64 word"
  pr_last :: string
  pr_profile :: string
  pr_caps :: "string list"

record users_file =
  uf_users :: "dash_user list"
  uf_epoch :: "64 word"
  uf_principals :: "dash_principal list"

record session =
  se_sub :: string
  se_user :: string
  se_role :: string
  se_exp :: time
  se_epoch :: "64 word"
  se_local :: bool
  se_caps :: cap_set
  se_basis :: string

record fail_info =
  fl_count :: int
  fl_until :: time

text \<open>
  The files beside each other: \<open>users.json\<close>, \<open>auth.json\<close> (name and hash of the single-user
  version) and \<open>sessions.json\<close>. A file is absent, cannot be read or parsed, or holds a value.
\<close>

datatype 'a stored_file = Absent | Broken | Holds 'a

record auth_disk =
  ad_users :: "users_file stored_file"
  ad_legacy :: "(string \<times> string) stored_file"
  ad_sessions :: "(string, session) gomap stored_file"

text \<open>\<open>authGate\<close>; \<open>g_disk\<close> is what its files hold.\<close>

record auth_gate =
  g_env_user :: string
  g_env_pass :: string
  g_users :: "(string, dash_user) gomap"
  g_principals :: "(string, dash_principal) gomap"
  g_epoch :: "64 word"
  g_setup :: bool
  g_fails :: "(string, fail_info) gomap"
  g_sessions :: "(string, session) gomap"
  g_boot_token :: string
  g_boot_expiry :: time
  g_init_err :: bool
  g_sso :: bool
  g_disk :: auth_disk

datatype account_error =
  UsernameRequired | InvalidUsername | PasswordTooShort | PasswordTooLong | HashFailed
| UserExists | UserNotFound | ErrStaleEpoch | CannotDemoteLastAdmin | CannotRemoveLastAdmin
| UnknownCapability string | PrincipalNotFound | PrincipalIncomplete | SaveFailed

definition RoleAdmin :: string where "RoleAdmin = ''admin''"
definition RoleEditor :: string where "RoleEditor = ''editor''"
definition RoleViewer :: string where "RoleViewer = ''viewer''"

lemmas role_names = RoleAdmin_def RoleEditor_def RoleViewer_def

definition validRole :: "string \<Rightarrow> bool" where
  "validRole r \<longleftrightarrow> r \<in> {RoleAdmin, RoleEditor, RoleViewer}"

definition normalizeRole :: "string \<Rightarrow> string" where
  "normalizeRole r = (if r \<in> {RoleAdmin, RoleEditor, RoleViewer} then r else RoleViewer)"

definition validateUsername :: "string \<Rightarrow> bool" where
  "validateUsername name \<longleftrightarrow>
     (case name of [] \<Rightarrow> False
      | c # cs \<Rightarrow> name_char c \<and> length cs \<le> 63 \<and>
          list_all (\<lambda>d. name_char d \<or> d \<in> {CHR ''_'', CHR ''.'', CHR ''@'', CHR ''-''}) cs)"

definition maxPasswordBytes :: nat where "maxPasswordBytes = 72"

section \<open>Writing the store\<close>

definition users_image ::
    "(string, dash_user) gomap \<Rightarrow> (string, dash_principal) gomap \<Rightarrow> 64 word \<Rightarrow> users_file" where
  "users_image us ps e =
     \<lparr>uf_users = sort_key us_name (map snd us), uf_epoch = e,
      uf_principals = sort_key pr_subject (map snd ps)\<rparr>"

definition saveUsersFile ::
    "save_outcome \<Rightarrow> (string, dash_user) gomap \<Rightarrow> (string, dash_principal) gomap \<Rightarrow> 64 word \<Rightarrow>
     auth_gate \<Rightarrow> bool \<times> auth_gate" where
  "saveUsersFile sv us ps e g =
     (let written = g\<lparr>g_disk := (g_disk g)\<lparr>ad_users := Holds (users_image us ps e)\<rparr>\<rparr>
      in case sv of SaveOk \<Rightarrow> (True, written) | SaveFail \<Rightarrow> (False, g) | SaveUnsynced \<Rightarrow> (False, written))"

text \<open>What every change of a local account does: write the candidate, then publish it.\<close>

definition commit_users ::
    "save_outcome \<Rightarrow> (string, dash_user) gomap \<Rightarrow> 64 word \<Rightarrow> auth_gate \<Rightarrow>
     account_error option \<times> auth_gate" where
  "commit_users sv us e g =
     (case saveUsersFile sv us (g_principals g) e g of
        (False, g1) \<Rightarrow> (Some SaveFailed, g1)
      | (True, g1) \<Rightarrow> (None, g1\<lparr>g_epoch := e, g_users := us\<rparr>))"

definition commit_principals ::
    "save_outcome \<Rightarrow> (string, dash_principal) gomap \<Rightarrow> 64 word \<Rightarrow> auth_gate \<Rightarrow>
     account_error option \<times> auth_gate" where
  "commit_principals sv ps e g =
     (case saveUsersFile sv (g_users g) ps e g of
        (False, g1) \<Rightarrow> (Some SaveFailed, g1)
      | (True, g1) \<Rightarrow> (None, g1\<lparr>g_principals := ps, g_epoch := e\<rparr>))"

section \<open>Local accounts\<close>

definition check_password :: "string \<Rightarrow> string option \<Rightarrow> account_error option" where
  "check_password password hash =
     (if length password < 8 then Some PasswordTooShort
      else if maxPasswordBytes < length password then Some PasswordTooLong
      else if hash = None then Some HashFailed else None)"

definition createUser ::
    "string option \<Rightarrow> save_outcome \<Rightarrow> string \<Rightarrow> string \<Rightarrow> string \<Rightarrow> auth_gate \<Rightarrow>
     account_error option \<times> auth_gate" where
  "createUser hash sv name0 password role g =
     (let name = trim_space name0 in
      if name = [] then (Some UsernameRequired, g)
      else if \<not> validateUsername name then (Some InvalidUsername, g)
      else case check_password password hash of Some e \<Rightarrow> (Some e, g)
      | None \<Rightarrow>
        if mget (g_users g) name \<noteq> None then (Some UserExists, g)
        else
          let epoch = g_epoch g + 1;
              u = \<lparr>us_name = name, us_hash = the hash, us_role = normalizeRole role, us_epoch = epoch,
                us_profile = profilePreset, us_caps = []\<rparr>
          in case commit_users sv (mput name u (g_users g)) epoch g of
            (None, g1) \<Rightarrow> (None, g1\<lparr>g_setup := False\<rparr>)
          | (Some e, g1) \<Rightarrow> (Some e, g1))"

definition setPasswordCAS ::
    "string option \<Rightarrow> save_outcome \<Rightarrow> string \<Rightarrow> 64 word \<Rightarrow> string \<Rightarrow> bool \<Rightarrow> auth_gate \<Rightarrow>
     account_error option \<times> auth_gate" where
  "setPasswordCAS hash sv name expected password checkEpoch g =
     (case check_password password hash of Some e \<Rightarrow> (Some e, g)
      | None \<Rightarrow>
        (case mget (g_users g) name of None \<Rightarrow> (Some UserNotFound, g)
         | Some u \<Rightarrow>
           if checkEpoch \<and> us_epoch u \<noteq> expected then (Some ErrStaleEpoch, g)
           else
             let epoch = g_epoch g + 1
             in commit_users sv (mput name (u\<lparr>us_hash := the hash, us_epoch := epoch\<rparr>) (g_users g)) epoch g))"

definition setPassword ::
    "string option \<Rightarrow> save_outcome \<Rightarrow> string \<Rightarrow> string \<Rightarrow> auth_gate \<Rightarrow> account_error option \<times> auth_gate" where
  "setPassword hash sv name password g = setPasswordCAS hash sv name 0 password False g"

definition env_name :: "auth_gate \<Rightarrow> string" where
  "env_name g = (if g_env_user g = [] then ''admin'' else g_env_user g)"

definition setPasswordMigratingEnv ::
    "string option \<Rightarrow> save_outcome \<Rightarrow> string \<Rightarrow> string \<Rightarrow> auth_gate \<Rightarrow> account_error option \<times> auth_gate" where
  "setPasswordMigratingEnv hash sv name password g =
     (if g_env_pass g = [] \<or> name \<noteq> env_name g then (Some UserNotFound, g)
      else case check_password password hash of Some e \<Rightarrow> (Some e, g)
      | None \<Rightarrow>
        let epoch = g_epoch g + 1
        in case mget (g_users g) name of
          Some u \<Rightarrow> commit_users sv (mput name (u\<lparr>us_hash := the hash, us_epoch := epoch\<rparr>) (g_users g)) epoch g
        | None \<Rightarrow>
            let u = \<lparr>us_name = name, us_hash = the hash, us_role = RoleAdmin, us_epoch = epoch,
                  us_profile = [], us_caps = []\<rparr>
            in case commit_users sv (mput name u (g_users g)) epoch g of
              (None, g1) \<Rightarrow> (None, g1\<lparr>g_setup := False\<rparr>)
            | (Some e, g1) \<Rightarrow> (Some e, g1))"

definition countAdminsLocked :: "auth_gate \<Rightarrow> nat" where
  "countAdminsLocked g = count_vals (\<lambda>u. us_role u = RoleAdmin) (g_users g)"

definition setRole :: "save_outcome \<Rightarrow> string \<Rightarrow> string \<Rightarrow> auth_gate \<Rightarrow> account_error option \<times> auth_gate" where
  "setRole sv name role0 g =
     (let role = normalizeRole role0 in
      case mget (g_users g) name of None \<Rightarrow> (Some UserNotFound, g)
      | Some u \<Rightarrow>
        if us_role u = RoleAdmin \<and> role \<noteq> RoleAdmin \<and> countAdminsLocked g \<le> 1
        then (Some CannotDemoteLastAdmin, g)
        else
          let epoch = g_epoch g + 1
          in commit_users sv (mput name (u\<lparr>us_role := role, us_epoch := epoch\<rparr>) (g_users g)) epoch g)"

definition deleteUser :: "save_outcome \<Rightarrow> string \<Rightarrow> auth_gate \<Rightarrow> account_error option \<times> auth_gate" where
  "deleteUser sv name g =
     (case mget (g_users g) name of None \<Rightarrow> (Some UserNotFound, g)
      | Some u \<Rightarrow>
        if us_role u = RoleAdmin \<and> countAdminsLocked g \<le> 1 then (Some CannotRemoveLastAdmin, g)
        else commit_users sv (mdel name (g_users g)) (g_epoch g + 1) g)"

definition narrowToPreset :: "save_outcome \<Rightarrow> string \<Rightarrow> auth_gate \<Rightarrow> account_error option \<times> auth_gate" where
  "narrowToPreset sv name g =
     (case mget (g_users g) name of None \<Rightarrow> (Some UserNotFound, g)
      | Some u \<Rightarrow> commit_users sv (mput name (u\<lparr>us_profile := profilePreset, us_caps := []\<rparr>) (g_users g))
          (g_epoch g) g)"

definition setCapabilities ::
    "save_outcome \<Rightarrow> string \<Rightarrow> string list \<Rightarrow> auth_gate \<Rightarrow> account_error option \<times> auth_gate" where
  "setCapabilities sv name cs g =
     (case Validate cs of Some c \<Rightarrow> (Some (UnknownCapability c), g)
      | None \<Rightarrow>
        (case mget (g_users g) name of None \<Rightarrow> (Some UserNotFound, g)
         | Some u \<Rightarrow> commit_users sv
             (mput name (u\<lparr>us_profile := profileCustom, us_caps := Normalize cs\<rparr>) (g_users g)) (g_epoch g) g))"

definition revokeSessions :: "save_outcome \<Rightarrow> string \<Rightarrow> auth_gate \<Rightarrow> account_error option \<times> auth_gate" where
  "revokeSessions sv name g =
     (case mget (g_users g) name of None \<Rightarrow> (Some UserNotFound, g)
      | Some u \<Rightarrow>
        let epoch = g_epoch g + 1
        in commit_users sv (mput name (u\<lparr>us_epoch := epoch\<rparr>) (g_users g)) epoch g)"

text \<open>
  \<open>authenticate\<close>: what the password check proves is a name, a role and the epoch read with the
  hash. \<open>verify\<close> is \<open>bcrypt.CompareHashAndPassword\<close>.
\<close>

record proof_of =
  pf_sub :: string
  pf_user :: string
  pf_role :: string
  pf_epoch :: "64 word"
  pf_local :: bool

definition authenticate ::
    "(string \<Rightarrow> string \<Rightarrow> bool) \<Rightarrow> string \<Rightarrow> string \<Rightarrow> auth_gate \<Rightarrow> proof_of option" where
  "authenticate verify name0 password g =
     (let name = (if name0 = [] then env_name g else name0)
      in case mget (g_users g) name of None \<Rightarrow> None
         | Some u \<Rightarrow>
           if verify (us_hash u) password
           then Some \<lparr>pf_sub = us_name u, pf_user = us_name u, pf_role = normalizeRole (us_role u),
             pf_epoch = us_epoch u, pf_local = True\<rparr>
           else None)"

definition hasStoredUser :: "string \<Rightarrow> auth_gate \<Rightarrow> bool" where
  "hasStoredUser name g \<longleftrightarrow> mget (g_users g) name \<noteq> None"

section \<open>Single-sign-on principals\<close>

definition upsertOIDCPrincipal ::
    "save_outcome \<Rightarrow> string \<Rightarrow> string \<Rightarrow> string \<Rightarrow> string \<Rightarrow> string \<Rightarrow> auth_gate \<Rightarrow>
     (account_error + proof_of) \<times> auth_gate" where
  "upsertOIDCPrincipal sv today subject name email role0 g =
     (if subject = [] \<or> name = [] then (Inl PrincipalIncomplete, g)
      else
        let role = normalizeRole role0;
            proof = (\<lambda>e. \<lparr>pf_sub = subject, pf_user = name, pf_role = role, pf_epoch = e, pf_local = False\<rparr>)
        in case mget (g_principals g) subject of
          Some p \<Rightarrow>
            (let p1 = p\<lparr>pr_username := name, pr_email := email, pr_role := role, pr_last := today\<rparr>
             in case saveUsersFile sv (g_users g) (mput subject p1 (g_principals g)) (g_epoch g) g of
               (False, g1) \<Rightarrow> (Inl SaveFailed, g1)
             | (True, g1) \<Rightarrow> (Inr (proof (pr_epoch p)), g1\<lparr>g_principals := mput subject p1 (g_principals g)\<rparr>))
        | None \<Rightarrow>
            (let epoch = g_epoch g + 1;
                 p = \<lparr>pr_subject = subject, pr_username = name, pr_email = email, pr_role = role,
                   pr_epoch = epoch, pr_last = today, pr_profile = profilePreset, pr_caps = []\<rparr>
             in case commit_principals sv (mput subject p (g_principals g)) epoch g of
               (Some e, g1) \<Rightarrow> (Inl e, g1)
             | (None, g1) \<Rightarrow> (Inr (proof epoch), g1)))"

definition revokePrincipalSessions :: "save_outcome \<Rightarrow> string \<Rightarrow> auth_gate \<Rightarrow> account_error option \<times> auth_gate" where
  "revokePrincipalSessions sv subject g =
     (case mget (g_principals g) subject of None \<Rightarrow> (Some PrincipalNotFound, g)
      | Some p \<Rightarrow>
        let epoch = g_epoch g + 1
        in commit_principals sv (mput subject (p\<lparr>pr_epoch := epoch\<rparr>) (g_principals g)) epoch g)"

end
