(* ===== verification/McpTokens.thy ===== *)
theory McpTokens
  imports Accounts
begin

text \<open>
  The bearer tokens of the MCP endpoint (\<open>internal/mcp/tokens.go\<close>): their capability sets, their
  file, creation, revocation and verification. Only the digest of a token is stored
  (\<open>digest\<close>, SHA-256 in hexadecimal). A token of an older version has no capability list; the
  list is omitted from the file when it is empty, which is why an empty one is refused.
\<close>

section \<open>Tokens\<close>

record token =
  tk_id :: string
  tk_name :: string
  tk_hash :: string
  tk_readOnly :: bool
  tk_caps :: "string list option"
  tk_created :: time
  tk_lastUsed :: time

definition CapabilitySet :: "token \<Rightarrow> cap_set" where
  "CapabilitySet t =
     (case tk_caps t of
        None \<Rightarrow> if tk_readOnly t then ViewerDefault else OperatorDefault
      | Some cs \<Rightarrow> NewSet cs)"

text \<open>The file: a missing list of capabilities and an empty one are the same bytes.\<close>

definition encode_token :: "token \<Rightarrow> token" where
  "encode_token t = t\<lparr>tk_caps := (if tk_caps t = Some [] then None else tk_caps t)\<rparr>"

record token_store =
  ts_tokens :: "token list"
  ts_flush :: time
  ts_file :: "token list stored_file"

definition NewTokenStore :: "token list stored_file \<Rightarrow> token_store option" where
  "NewTokenStore file =
     (case file of
        Absent \<Rightarrow> Some \<lparr>ts_tokens = [], ts_flush = 0, ts_file = file\<rparr>
      | Broken \<Rightarrow> None
      | Holds ts \<Rightarrow> Some \<lparr>ts_tokens = ts, ts_flush = 0, ts_file = file\<rparr>)"

definition saveLocked :: "save_outcome \<Rightarrow> token list \<Rightarrow> token_store \<Rightarrow> bool \<times> token_store" where
  "saveLocked sv ts s =
     (case sv of
        SaveOk \<Rightarrow> (True, s\<lparr>ts_file := Holds (map encode_token ts)\<rparr>)
      | SaveFail \<Rightarrow> (False, s)
      | SaveUnsynced \<Rightarrow> (False, s\<lparr>ts_file := Holds (map encode_token ts)\<rparr>))"

definition tokenPrefix :: string where "tokenPrefix = ''tpd_''"
definition lastUsedFlushInterval :: duration where "lastUsedFlushInterval = minute"

text \<open>What \<open>crypto/rand\<close> gives to a creation: the encoded secret and the identifier.\<close>

record mint =
  mi_secret :: "string option"
  mi_id :: "string option"

datatype token_error = NameRequired | NoCapability | UnknownToken string | NoRandom | TokenSaveFailed | TokenNotFound

definition CreateWithCapabilities ::
    "(string \<Rightarrow> string) \<Rightarrow> mint \<Rightarrow> save_outcome \<Rightarrow> time \<Rightarrow> string \<Rightarrow> string list \<Rightarrow> token_store \<Rightarrow>
     (token_error + string \<times> token) \<times> token_store" where
  "CreateWithCapabilities digest rnd sv now name cs s =
     (if name = [] then (Inl NameRequired, s)
      else if cs = [] then (Inl NoCapability, s)
      else case Validate cs of Some c \<Rightarrow> (Inl (UnknownToken c), s)
      | None \<Rightarrow>
        (case (mi_secret rnd, mi_id rnd) of
           (Some secret, Some tid) \<Rightarrow>
             let plaintext = tokenPrefix @ secret; granted = NewSet cs;
                 t = \<lparr>tk_id = tid, tk_name = name, tk_hash = digest plaintext,
                   tk_readOnly = (\<not> Allow granted ExecuteDeploy \<and> \<not> Allow granted ExecuteMutate),
                   tk_caps = Some (Normalize cs), tk_created = now, tk_lastUsed = 0\<rparr>
             in (case saveLocked sv (ts_tokens s @ [t]) s of
                   (False, s1) \<Rightarrow> (Inl TokenSaveFailed, s1)
                 | (True, s1) \<Rightarrow> (Inr (plaintext, t), s1\<lparr>ts_tokens := ts_tokens s @ [t]\<rparr>))
         | _ \<Rightarrow> (Inl NoRandom, s)))"

definition Create_token ::
    "(string \<Rightarrow> string) \<Rightarrow> mint \<Rightarrow> save_outcome \<Rightarrow> time \<Rightarrow> string \<Rightarrow> bool \<Rightarrow> token_store \<Rightarrow>
     (token_error + string \<times> token) \<times> token_store" where
  "Create_token digest rnd sv now name readOnly s =
     CreateWithCapabilities digest rnd sv now name (Sorted (if readOnly then ViewerDefault else OperatorDefault)) s"

definition List_tokens :: "token_store \<Rightarrow> token list" where
  "List_tokens s = sort_key tk_created (ts_tokens s)"

text \<open>The loop of \<open>Delete\<close> removes the first token with the identifier.\<close>

fun without_token :: "string \<Rightarrow> token list \<Rightarrow> token list" where
  "without_token tid [] = []"
| "without_token tid (t # ts) = (if tk_id t = tid then ts else t # without_token tid ts)"

definition Delete_token :: "save_outcome \<Rightarrow> string \<Rightarrow> token_store \<Rightarrow> token_error option \<times> token_store" where
  "Delete_token sv tid s =
     (if \<not> list_ex (\<lambda>t. tk_id t = tid) (ts_tokens s) then (Some TokenNotFound, s)
      else case saveLocked sv (without_token tid (ts_tokens s)) s of
             (False, s1) \<Rightarrow> (Some TokenSaveFailed, s1)
           | (True, s1) \<Rightarrow> (None, s1\<lparr>ts_tokens := without_token tid (ts_tokens s)\<rparr>))"

text \<open>\<open>Verify\<close>: the first token with the digest is marked as used; the file is written at most once a minute.\<close>

fun mark_used :: "string \<Rightarrow> time \<Rightarrow> token list \<Rightarrow> token option \<times> token list" where
  "mark_used h now [] = (None, [])"
| "mark_used h now (t # ts) =
     (if tk_hash t = h then (Some (t\<lparr>tk_lastUsed := now\<rparr>), t\<lparr>tk_lastUsed := now\<rparr> # ts)
      else case mark_used h now ts of (r, us) \<Rightarrow> (r, t # us))"

definition Verify ::
    "(string \<Rightarrow> string) \<Rightarrow> save_outcome \<Rightarrow> time \<Rightarrow> string \<Rightarrow> token_store \<Rightarrow> token option \<times> token_store" where
  "Verify digest sv now plaintext s =
     (case mark_used (digest plaintext) now (ts_tokens s) of
        (None, _) \<Rightarrow> (None, s)
      | (Some t, ts) \<Rightarrow>
          let s1 = s\<lparr>ts_tokens := ts\<rparr>
          in if lastUsedFlushInterval \<le> time_sub now (ts_flush s)
             then (Some t, snd (saveLocked sv ts (s1\<lparr>ts_flush := now\<rparr>))) else (Some t, s1))"

section \<open>Steps\<close>

datatype token_op =
  MintToken mint save_outcome time string "string list"
| RevokeToken save_outcome string
| UseToken save_outcome time string
| RestartStore

definition token_step :: "(string \<Rightarrow> string) \<Rightarrow> token_op \<Rightarrow> token_store \<Rightarrow> token_store" where
  "token_step digest a s =
     (case a of
        MintToken rnd sv now name cs \<Rightarrow> snd (CreateWithCapabilities digest rnd sv now name cs s)
      | RevokeToken sv tid \<Rightarrow> snd (Delete_token sv tid s)
      | UseToken sv now plaintext \<Rightarrow> snd (Verify digest sv now plaintext s)
      | RestartStore \<Rightarrow> (case NewTokenStore (ts_file s) of None \<Rightarrow> s | Some s1 \<Rightarrow> s1))"

section \<open>Where the tokens come from\<close>

text \<open>The tokens of the memory and of the file.\<close>

definition held :: "token_store \<Rightarrow> token list" where
  "held s = ts_tokens s @ (case ts_file s of Holds ts \<Rightarrow> ts | _ \<Rightarrow> [])"

text \<open>The same token, used or stored since; a missing and an empty list of capabilities are one in the file.\<close>

definition same_token :: "token \<Rightarrow> token \<Rightarrow> bool" where
  "same_token u t \<longleftrightarrow> tk_hash t = tk_hash u \<and> tk_readOnly t = tk_readOnly u \<and>
     (tk_caps u = Some [] \<or> tk_caps t = tk_caps u)"

fun mints :: "(string \<Rightarrow> string) \<Rightarrow> token_op \<Rightarrow> token \<Rightarrow> bool" where
  "mints digest (MintToken rnd sv now name cs) t =
     (case mi_secret rnd of None \<Rightarrow> False
      | Some secret \<Rightarrow> tk_hash t = digest (tokenPrefix @ secret) \<and> cs \<noteq> [] \<and> Validate cs = None \<and>
          tk_caps t = Some (Normalize cs))"
| "mints digest a t = False"

lemma same_token_refl [simp]: "same_token t t" "same_token t (encode_token t)"
  "same_token t (t\<lparr>tk_lastUsed := now\<rparr>)"
  by (simp_all add: same_token_def encode_token_def)

lemma encode_hash: "tk_hash (encode_token t) = tk_hash t"
  by (simp add: encode_token_def)

lemma same_token_encode: "same_token u t \<Longrightarrow> same_token u (encode_token t)"
  by (auto simp: same_token_def encode_token_def)

lemma saveLocked_held:
  assumes "saveLocked sv ts s = (b, s1)"
  shows "ts_tokens s1 = ts_tokens s" and "b \<Longrightarrow> ts_file s1 = Holds (map encode_token ts)"
    and "set (held s1) \<subseteq> set (held s) \<union> encode_token ` set ts"
  using assms by (auto simp: saveLocked_def held_def split: save_outcome.splits)

lemma held_put: "set (held (s\<lparr>ts_tokens := ts\<rparr>)) \<subseteq> set ts \<union> set (held s)"
  by (auto simp: held_def)

lemma held_flush [simp]: "held (s\<lparr>ts_flush := x\<rparr>) = held s"
  by (simp add: held_def)

lemma tokens_held: "set (ts_tokens s) \<subseteq> set (held s)"
  by (simp add: held_def)

lemma without_token_subset: "set (without_token tid ts) \<subseteq> set ts"
  by (induction ts) auto

lemma without_token_ids: "distinct (map tk_id ts) \<Longrightarrow> t \<in> set (without_token tid ts) \<Longrightarrow> tk_id t \<noteq> tid"
  by (induction ts) (auto simp: image_iff split: if_splits)

lemma held_cover:
  assumes "t \<in> set (held s) \<union> set us \<union> encode_token ` set us"
    and "\<And>t. t \<in> set us \<Longrightarrow> \<exists>u \<in> set (held s). same_token u t"
  shows "\<exists>u \<in> set (held s). same_token u t"
  using assms same_token_refl(1) same_token_encode by blast

lemma mark_used_tokens: "\<exists>u \<in> set ts. same_token u t" if "t \<in> set (snd (mark_used h now ts))"
  using that by (induction ts) (auto intro: same_token_refl split: if_splits prod.splits)

lemma mark_used_hit:
  "fst (mark_used h now ts) = Some v \<Longrightarrow> v \<in> set (snd (mark_used h now ts)) \<and> tk_hash v = h"
  by (induction ts) (auto split: if_splits prod.splits)

lemma mark_used_miss: "fst (mark_used h now ts) = None \<longleftrightarrow> (\<forall>t \<in> set ts. tk_hash t \<noteq> h)"
  by (induction ts) (auto split: if_splits prod.splits)

lemma mint_held:
  assumes "t \<in> set (held (snd (CreateWithCapabilities digest rnd sv now name cs s)))"
  shows "(\<exists>u \<in> set (held s). same_token u t) \<or> mints digest (MintToken rnd sv now name cs) t"
proof (cases "name = [] \<or> cs = [] \<or> Validate cs \<noteq> None \<or> mi_secret rnd = None \<or> mi_id rnd = None")
  case True
  then have "snd (CreateWithCapabilities digest rnd sv now name cs s) = s"
    by (auto simp: CreateWithCapabilities_def split: option.splits)
  then show ?thesis using assms same_token_refl(1) by metis
next
  case False
  then obtain secret tid where r: "mi_secret rnd = Some secret" "mi_id rnd = Some tid" by auto
  define n where "n = \<lparr>tk_id = tid, tk_name = name, tk_hash = digest (tokenPrefix @ secret),
    tk_readOnly = (\<not> Allow (NewSet cs) ExecuteDeploy \<and> \<not> Allow (NewSet cs) ExecuteMutate),
    tk_caps = Some (Normalize cs), tk_created = now, tk_lastUsed = 0\<rparr>"
  obtain b s1 where sv: "saveLocked sv (ts_tokens s @ [n]) s = (b, s1)" by force
  have e: "snd (CreateWithCapabilities digest rnd sv now name cs s) =
      (if b then s1\<lparr>ts_tokens := ts_tokens s @ [n]\<rparr> else s1)"
    unfolding CreateWithCapabilities_def Let_def using False sv by (cases b) (simp_all add: r n_def)
  have "cs \<noteq> []" "\<forall>c \<in> set cs. Valid c" using False by (auto simp: Validate_None_iff)
  then have "Normalize cs \<noteq> []" by (metis (mono_tags, lifting) set_Normalize empty_set Collect_empty_eq list.set_intros(1) list.exhaust)
  then have en: "encode_token n = n" by (simp add: encode_token_def n_def)
  have mn: "mints digest (MintToken rnd sv now name cs) n" using False by (simp add: n_def r)
  have "set (held s1) \<subseteq> set (held s) \<union> encode_token ` set (ts_tokens s) \<union> {n}"
    using saveLocked_held(3) [OF sv] en by simp
  then have "set (held (if b then s1\<lparr>ts_tokens := ts_tokens s @ [n]\<rparr> else s1)) \<subseteq>
      (set (held s) \<union> set (ts_tokens s) \<union> encode_token ` set (ts_tokens s)) \<union> {n}"
    using held_put [of "ts_tokens s @ [n]" s1] by (cases b) (simp_all, blast+)
  then have "t \<in> set (held s) \<union> set (ts_tokens s) \<union> encode_token ` set (ts_tokens s) \<or> t = n"
    using assms unfolding e by blast
  then show ?thesis using held_cover [of t s "ts_tokens s"] tokens_held [of s] mn same_token_refl(1) by blast
qed

lemma revoke_held:
  assumes "t \<in> set (held (snd (Delete_token sv tid s)))"
  shows "\<exists>u \<in> set (held s). same_token u t"
proof -
  obtain b s1 where sv: "saveLocked sv (without_token tid (ts_tokens s)) s = (b, s1)" by force
  have "set (held s1) \<subseteq> set (held s) \<union> encode_token ` set (ts_tokens s)"
    using saveLocked_held(3) [OF sv] without_token_subset [of tid "ts_tokens s"] by blast
  then have "set (held (snd (Delete_token sv tid s))) \<subseteq>
      set (held s) \<union> set (ts_tokens s) \<union> encode_token ` set (ts_tokens s)"
    using without_token_subset [of tid "ts_tokens s"] held_put [of "without_token tid (ts_tokens s)" s1]
    by (cases b) (simp_all add: Delete_token_def sv, blast+)
  then show ?thesis using held_cover [of t s "ts_tokens s"] assms tokens_held [of s] same_token_refl(1) by blast
qed

lemma use_held:
  assumes "t \<in> set (held (snd (Verify digest sv now p s)))"
  shows "\<exists>u \<in> set (held s). same_token u t"
proof -
  obtain r ts where m: "mark_used (digest p) now (ts_tokens s) = (r, ts)" by force
  define s2 where "s2 = s\<lparr>ts_tokens := ts, ts_flush := now\<rparr>"
  obtain b s1 where sv: "saveLocked sv ts s2 = (b, s1)" by force
  have ts: "\<exists>u \<in> set (held s). same_token u t" if "t \<in> set ts" for t
    using mark_used_tokens [where t = t and ts = "ts_tokens s" and h = "digest p" and now = now] that tokens_held [of s] m by auto
  have "set (held s2) \<subseteq> set ts \<union> set (held s)" by (auto simp: s2_def held_def)
  then have h1: "set (held s1) \<subseteq> set (held s) \<union> set ts \<union> encode_token ` set ts"
    using saveLocked_held(3) [OF sv] by blast
  have "set (held (snd (Verify digest sv now p s))) \<subseteq> set (held s) \<union> set ts \<union> encode_token ` set ts"
  proof (cases r)
    case None
    then show ?thesis by (auto simp: Verify_def m)
  next
    case (Some v)
    then show ?thesis using h1 held_put [of ts s] by (simp add: Verify_def m Let_def sv [unfolded s2_def]) blast
  qed
  then show ?thesis using held_cover [of t s ts] ts assms by blast
qed

lemma held_step:
  assumes "t \<in> set (held (token_step digest a s))"
  shows "(\<exists>u \<in> set (held s). same_token u t) \<or> mints digest a t"
proof (cases a)
  case RestartStore
  then show ?thesis using assms
    by (auto simp: token_step_def NewTokenStore_def held_def intro!: bexI [of _ t] split: stored_file.splits)
qed (use assms mint_held revoke_held use_held in \<open>simp_all add: token_step_def\<close>)

section \<open>Runs\<close>

definition token_run :: "(string \<Rightarrow> string) \<Rightarrow> token_op list \<Rightarrow> token_store \<Rightarrow> token_store" where
  "token_run digest ops s = fold (token_step digest) ops s"

lemma token_run_simps [simp]:
  "token_run digest [] s = s"
  "token_run digest (a # ops) s = token_run digest ops (token_step digest a s)"
  by (simp_all add: token_run_def)

lemma mints_cases:
  assumes "mints digest a t"
  shows "\<exists>rnd sv now name cs x. a = MintToken rnd sv now name cs \<and> mi_secret rnd = Some x \<and>
    tk_hash t = digest (tokenPrefix @ x) \<and> tk_caps t = Some (Normalize cs)"
  using assms by (cases a) (auto split: option.splits)

lemma mints_caps: "mints digest a t \<Longrightarrow> tk_caps t \<noteq> Some []"
proof (cases a)
  case (MintToken rnd sv now name cs)
  assume m: "mints digest a t"
  then have "cs \<noteq> []" "\<forall>c \<in> set cs. Valid c" "tk_caps t = Some (Normalize cs)"
    by (auto simp: MintToken Validate_None_iff split: option.splits)
  moreover then have "Normalize cs \<noteq> []"
    by (metis (mono_tags, lifting) set_Normalize empty_set Collect_empty_eq list.set_intros(1) list.exhaust)
  ultimately show ?thesis by simp
qed simp_all

text \<open>Every token of a run was there at its beginning or was minted in it.\<close>

lemma held_run:
  assumes "t \<in> set (held (token_run digest ops s))"
  shows "(\<exists>u \<in> set (held s). tk_hash t = tk_hash u \<and> (tk_caps u \<noteq> Some [] \<longrightarrow> same_token u t)) \<or>
    (\<exists>a \<in> set ops. \<exists>u. mints digest a u \<and> same_token u t)"
  using assms
proof (induction ops arbitrary: s)
  case Nil
  then show ?case using same_token_refl(1) by auto
next
  case (Cons a ops)
  have tr: "same_token v t" if "same_token v u" "same_token u t" "tk_caps v \<noteq> Some []" for u v
    using that by (auto simp: same_token_def)
  from Cons.IH [of "token_step digest a s"] Cons.prems
  consider (before) u where "u \<in> set (held (token_step digest a s))" "tk_hash t = tk_hash u"
      "tk_caps u \<noteq> Some [] \<longrightarrow> same_token u t"
    | (later) b u where "b \<in> set ops" "mints digest b u" "same_token u t"
    by auto
  then show ?case
  proof cases
    case before
    from held_step [OF before(1)] consider v where "v \<in> set (held s)" "same_token v u" | "mints digest a u" by blast
    then show ?thesis
    proof cases
      case (1 v)
      have "tk_hash t = tk_hash v" using before(2) 1(2) by (simp add: same_token_def)
      moreover have "same_token v t" if "tk_caps v \<noteq> Some []"
        using tr 1(2) before(3) that by (metis same_token_def)
      ultimately show ?thesis using 1(1) by blast
    next
      case 2
      then show ?thesis using before(3) mints_caps by auto
    qed
  next
    case later
    then show ?thesis by auto
  qed
qed

section \<open>Revocation is final, and no restart widens a token\<close>

lemma Verify_absent:
  assumes "\<forall>t \<in> set (ts_tokens s). tk_hash t \<noteq> digest p"
  shows "fst (Verify digest sv now p s) = None"
  using assms mark_used_miss [of "digest p" now "ts_tokens s"]
  by (cases "mark_used (digest p) now (ts_tokens s)") (simp add: Verify_def)

lemma Delete_held:
  assumes "Delete_token sv tid s = (None, s1)"
  shows "set (held s1) \<subseteq> set (without_token tid (ts_tokens s)) \<union> encode_token ` set (without_token tid (ts_tokens s))"
proof -
  obtain b s2 where sv: "saveLocked sv (without_token tid (ts_tokens s)) s = (b, s2)" by force
  from assms have "b" "s1 = s2\<lparr>ts_tokens := without_token tid (ts_tokens s)\<rparr>"
    by (auto simp: Delete_token_def sv split: if_splits bool.splits)
  with saveLocked_held(2) [OF sv] show ?thesis by (auto simp: held_def)
qed

text \<open>
  C13. A revoked token is dead. Once the deletion of a token has been answered with success, its
  secret is never verified again, whatever tokens are created, deleted and used afterwards, whatever
  writes of the file fail, and however often the dashboard restarts. The identifiers of the tokens
  are assumed distinct and their digests to belong to one secret each, as random values are.
\<close>

theorem deleted_token_never_returns:
  assumes "distinct (map tk_id (ts_tokens s))"
    and "list_all (\<lambda>t. tk_hash t = digest p \<longrightarrow> tk_id t = tid) (ts_tokens s)"
    and "Delete_token sv tid s = (None, s1)"
    and "list_all (\<lambda>a. case a of MintToken rnd _ _ _ _ \<Rightarrow>
           mi_secret rnd \<noteq> None \<longrightarrow> digest (tokenPrefix @ the (mi_secret rnd)) \<noteq> digest p | _ \<Rightarrow> True) ops"
  shows "fst (Verify digest sv' now p (token_run digest ops s1)) = None"
proof (rule Verify_absent, rule ballI, rule notI)
  fix t assume t: "t \<in> set (ts_tokens (token_run digest ops s1))" and h: "tk_hash t = digest p"
  have gone: "tk_hash u \<noteq> digest p" if uin: "u \<in> set (held s1)" for u
  proof -
    obtain v where v: "v \<in> set (without_token tid (ts_tokens s))" "tk_hash u = tk_hash v"
      using subsetD [OF Delete_held [OF assms(3)] uin] by (auto simp: encode_hash)
    then have "tk_id v \<noteq> tid" "v \<in> set (ts_tokens s)"
      using without_token_ids [OF assms(1)] without_token_subset by blast+
    then show ?thesis using assms(2) v(2) by (auto simp: list_all_iff)
  qed
  have "t \<in> set (held (token_run digest ops s1))" using t tokens_held by blast
  from held_run [OF this] consider u where "u \<in> set (held s1)" "tk_hash t = tk_hash u"
    | a u where "a \<in> set ops" "mints digest a u" "same_token u t"
    by blast
  then show False
  proof cases
    case (1 u)
    from gone [OF 1(1)] h 1(2) show ?thesis by simp
  next
    case (2 a u)
    from mints_cases [OF 2(2)] obtain rnd sv now name cs x where "a = MintToken rnd sv now name cs"
      "mi_secret rnd = Some x" "tk_hash u = digest (tokenPrefix @ x)"
      by blast
    moreover have "tk_hash u = digest p" using 2(3) h by (simp add: same_token_def)
    ultimately show ?thesis using bspec [OF assms(4) [unfolded list_all_iff] 2(1)] by simp
  qed
qed

definition demo_secret :: "string \<Rightarrow> mint" where
  "demo_secret x = \<lparr>mi_secret = Some x, mi_id = Some x\<rparr>"

definition two_tokens :: token_store where
  "two_tokens = token_run (\<lambda>x. x)
     [MintToken (demo_secret ''a'') SaveOk 1 ''ci'' [ExecuteDeploy],
      MintToken (demo_secret ''b'') SaveOk 2 ''bot'' [ViewMetadata]]
     \<lparr>ts_tokens = [], ts_flush = 0, ts_file = Absent\<rparr>"

definition revocation_script :: "token_op list" where
  "revocation_script = [UseToken SaveOk (minute * 5) ''tpd_b'', RestartStore,
     MintToken (demo_secret ''c'') SaveFail 9 ''new'' [ViewLogs], UseToken SaveUnsynced 9 ''tpd_a'', RestartStore]"

theorem deleted_token_never_returns_witness:
  "fst (Verify (\<lambda>x. x) SaveOk 3 ''tpd_a'' two_tokens) \<noteq> None \<and>
   fst (Delete_token SaveOk ''a'' two_tokens) = None \<and>
   fst (Verify (\<lambda>x. x) SaveOk 3 ''tpd_a''
     (token_run (\<lambda>x. x) revocation_script (snd (Delete_token SaveOk ''a'' two_tokens)))) = None"
proof (intro conjI)
  show "fst (Verify (\<lambda>x. x) SaveOk 3 ''tpd_a'' two_tokens) \<noteq> None" by code_simp
  show d: "fst (Delete_token SaveOk ''a'' two_tokens) = None" by code_simp
  have "distinct (map tk_id (ts_tokens two_tokens))"
    "list_all (\<lambda>t. tk_hash t = ''tpd_a'' \<longrightarrow> tk_id t = ''a'') (ts_tokens two_tokens)"
    "list_all (\<lambda>a. case a of MintToken rnd _ _ _ _ \<Rightarrow>
       mi_secret rnd \<noteq> None \<longrightarrow> tokenPrefix @ the (mi_secret rnd) \<noteq> ''tpd_a'' | _ \<Rightarrow> True) revocation_script"
    by code_simp+
  note f = deleted_token_never_returns [where digest = "\<lambda>x. x" and p = "''tpd_a''", OF this(1,2) _ this(3)]
  show "fst (Verify (\<lambda>x. x) SaveOk 3 ''tpd_a''
     (token_run (\<lambda>x. x) revocation_script (snd (Delete_token SaveOk ''a'' two_tokens)))) = None"
    by (rule f [of SaveOk]) (use d in \<open>metis prod.collapse\<close>)
qed

text \<open>
  A token keeps its grant. From a file in which no token has an explicitly empty list of
  capabilities, whatever is created, deleted and used, and however often the dashboard restarts:
  a token that verifies has exactly the capabilities of the token of the start with its digest, or
  exactly those it was minted with. No failed write and no restart widens or narrows it.
\<close>

theorem tokens_keep_their_grant:
  assumes "NewTokenStore file = Some s" and "list_all (\<lambda>t. tk_caps t \<noteq> Some []) (ts_tokens s)"
    and "fst (Verify digest sv now p (token_run digest ops s)) = Some t"
  shows "list_ex (\<lambda>u. tk_hash u = digest p \<and> CapabilitySet t = CapabilitySet u) (ts_tokens s) \<or>
    list_ex (\<lambda>a. case a of MintToken rnd _ _ _ cs \<Rightarrow>
      map_option (\<lambda>x. digest (tokenPrefix @ x)) (mi_secret rnd) = Some (digest p) \<and>
      Sorted (CapabilitySet t) = Normalize cs | _ \<Rightarrow> False) ops"
proof -
  let ?s = "token_run digest ops s"
  obtain r us where m: "mark_used (digest p) now (ts_tokens ?s) = (r, us)" by force
  have r: "r = Some t" using assms(3) by (auto simp: Verify_def m Let_def split: option.splits if_splits)
  have h: "tk_hash t = digest p" and "t \<in> set us" using mark_used_hit [of "digest p" now "ts_tokens ?s" t] m r by simp_all
  then obtain v where v: "v \<in> set (held ?s)" "same_token v t"
    using mark_used_tokens [where t = t and ts = "ts_tokens ?s" and h = "digest p" and now = now] m tokens_held by fastforce
  have hs: "set (held s) = set (ts_tokens s)"
    using assms(1) by (auto simp: NewTokenStore_def held_def split: stored_file.splits)
  have same: "CapabilitySet t = CapabilitySet u" if "same_token u v" "tk_caps u \<noteq> Some []" for u
    using that v(2) by (auto simp: same_token_def CapabilitySet_def)
  from held_run [OF v(1)] show ?thesis
  proof (elim disjE bexE exE conjE)
    fix u assume u: "u \<in> set (held s)" "tk_hash v = tk_hash u" "tk_caps u \<noteq> Some [] \<longrightarrow> same_token u v"
    then have "CapabilitySet t = CapabilitySet u" "tk_hash u = digest p"
      using same assms(2) hs h v(2) by (auto simp: list_all_iff same_token_def)
    then show ?thesis using u(1) hs by (auto simp: list_ex_iff)
  next
    fix a u assume a: "a \<in> set ops" "mints digest a u" "same_token u v"
    have c: "CapabilitySet t = CapabilitySet u" using same a(3) mints_caps [OF a(2)] by blast
    have hu: "tk_hash u = digest p" using h v(2) a(3) by (simp add: same_token_def)
    from mints_cases [OF a(2)] obtain rnd sv now name cs x where mt: "a = MintToken rnd sv now name cs" "mi_secret rnd = Some x"
      "tk_hash u = digest (tokenPrefix @ x)" "tk_caps u = Some (Normalize cs)"
      by blast
    then have "Sorted (CapabilitySet t) = Normalize cs"
      using c by (simp add: CapabilitySet_def Normalize_Sorted [symmetric])
    then show ?thesis using a(1) mt hu by (auto simp: list_ex_iff intro!: bexI [of _ a])
  qed
qed

theorem tokens_keep_their_grant_witness:
  "map_option (\<lambda>t. Sorted (CapabilitySet t))
     (fst (Verify (\<lambda>x. x) SaveOk 9 ''tpd_b'' (token_run (\<lambda>x. x) revocation_script two_tokens))) = Some [ViewMetadata]"
proof -
  let ?t = "the (fst (Verify (\<lambda>x. x) SaveOk 9 ''tpd_b'' (token_run (\<lambda>x. x) revocation_script two_tokens)))"
  have n: "NewTokenStore (ts_file two_tokens) = Some two_tokens" by code_simp
  have c: "list_all (\<lambda>t. tk_caps t \<noteq> Some []) (ts_tokens two_tokens)" by code_simp
  have v: "fst (Verify (\<lambda>x. x) SaveOk 9 ''tpd_b'' (token_run (\<lambda>x. x) revocation_script two_tokens)) = Some ?t"
    by code_simp
  have a: "list_all (\<lambda>u. tk_hash u = ''tpd_b'' \<longrightarrow> Sorted (CapabilitySet u) = [ViewMetadata]) (ts_tokens two_tokens)"
    "\<not> list_ex (\<lambda>a. case a of MintToken rnd _ _ _ cs \<Rightarrow>
      map_option (\<lambda>x. tokenPrefix @ x) (mi_secret rnd) = Some ''tpd_b'' \<and> Sorted (CapabilitySet ?t) = Normalize cs
      | _ \<Rightarrow> False) revocation_script"
    by code_simp+
  have "Sorted (CapabilitySet ?t) = [ViewMetadata]"
    using tokens_keep_their_grant [OF n c v] a by (auto simp: list_ex_iff list_all_iff)
  then show ?thesis by (subst v) simp
qed

end
