(* ===== verification/AuthGate.thy ===== *)
theory AuthGate
  imports Accounts
begin

text \<open>
  The authentication gate (\<open>authGate\<close> in \<open>internal/server/server.go\<close>, \<open>sessions.go\<close>,
  \<open>users.go\<close>, \<open>stream_auth.go\<close>): sessions and their file, loading the stores at start, the
  lockout of addresses, and \<open>wrap\<close>, the middleware every request passes. A session is keyed by
  the digest of its cookie (\<open>digest\<close>, SHA-256 in hexadecimal). The clock is an argument.
\<close>

definition sessionTTL :: duration where "sessionTTL = 30 * 24 * hour"
definition sessionRenewAfter :: duration where "sessionRenewAfter = 24 * hour"
definition authMaxFails :: int where "authMaxFails = 5"
definition authLockWindow :: duration where "authLockWindow = minute"
definition bootstrapTokenTTL :: duration where "bootstrapTokenTTL = 30 * minute"

section \<open>Sessions\<close>

text \<open>What \<open>sessions.json\<close> keeps of a session: identity, epoch and expiry, never capabilities.\<close>

definition persisted_session :: "session \<Rightarrow> session" where
  "persisted_session s = s\<lparr>se_caps := [], se_basis := []\<rparr>"

definition saveSessionsLocked :: "save_outcome \<Rightarrow> time \<Rightarrow> auth_gate \<Rightarrow> auth_gate" where
  "saveSessionsLocked sv now g =
     (let live = filter (\<lambda>(k, s). before_time now (se_exp s)) (g_sessions g);
          image = map (\<lambda>(k, s). (k, persisted_session s)) live
      in if sv = SaveFail then g
         else g\<lparr>g_disk := (g_disk g)\<lparr>ad_sessions := Holds image\<rparr>\<rparr>)"

definition loadSessions :: "time \<Rightarrow> auth_gate \<Rightarrow> auth_gate" where
  "loadSessions now g =
     (case ad_sessions (g_disk g) of
        Absent \<Rightarrow> g | Broken \<Rightarrow> g
      | Holds f \<Rightarrow>
          g\<lparr>g_sessions := fold (\<lambda>(k, p) m.
              if length k \<noteq> 64 \<or> \<not> before_time now (se_exp p) then m
              else mput k (p\<lparr>se_role := normalizeRole (se_role p), se_caps := [], se_basis := []\<rparr>) m)
            f (g_sessions g)\<rparr>)"

definition newSessionFor ::
    "(string \<Rightarrow> string) \<Rightarrow> save_outcome \<Rightarrow> time \<Rightarrow> string \<Rightarrow> proof_of \<Rightarrow> auth_gate \<Rightarrow> auth_gate" where
  "newSessionFor digest sv now token pf g =
     (let s = \<lparr>se_sub = pf_sub pf, se_user = pf_user pf, se_role = normalizeRole (pf_role pf),
            se_exp = now + sessionTTL, se_epoch = pf_epoch pf, se_local = pf_local pf,
            se_caps = [], se_basis = []\<rparr>
      in saveSessionsLocked sv now
           (g\<lparr>g_sessions := mput (digest token) s
               (filter (\<lambda>(k, s). \<not> after_time now (se_exp s)) (g_sessions g))\<rparr>))"

definition lookupSession ::
    "(string \<Rightarrow> string) \<Rightarrow> time \<Rightarrow> string \<Rightarrow> auth_gate \<Rightarrow> session option \<times> auth_gate" where
  "lookupSession digest now token g =
     (if token = [] then (None, g)
      else case mget (g_sessions g) (digest token) of
        None \<Rightarrow> (None, g)
      | Some s \<Rightarrow>
          if after_time now (se_exp s)
          then (None, g\<lparr>g_sessions := mdel (digest token) (g_sessions g)\<rparr>)
          else (Some s, g))"

definition deleteSession :: "(string \<Rightarrow> string) \<Rightarrow> save_outcome \<Rightarrow> time \<Rightarrow> string \<Rightarrow> auth_gate \<Rightarrow> auth_gate" where
  "deleteSession digest sv now token g =
     (if mget (g_sessions g) (digest token) \<noteq> None
      then saveSessionsLocked sv now (g\<lparr>g_sessions := mdel (digest token) (g_sessions g)\<rparr>)
      else g)"

definition deleteUserSessions :: "save_outcome \<Rightarrow> time \<Rightarrow> string \<Rightarrow> auth_gate \<Rightarrow> auth_gate" where
  "deleteUserSessions sv now sub g =
     (let kept = filter (\<lambda>(k, s). se_sub s \<noteq> sub) (g_sessions g)
      in if length kept < length (g_sessions g)
         then saveSessionsLocked sv now (g\<lparr>g_sessions := kept\<rparr>) else g)"

definition renewSession ::
    "(string \<Rightarrow> string) \<Rightarrow> save_outcome \<Rightarrow> time \<Rightarrow> string \<Rightarrow> auth_gate \<Rightarrow> bool \<times> auth_gate" where
  "renewSession digest sv now token g =
     (case mget (g_sessions g) (digest token) of
        None \<Rightarrow> (False, g)
      | Some s \<Rightarrow>
          if \<not> before_time now (se_exp s) \<or> sessionTTL - sessionRenewAfter \<le> time_sub (se_exp s) now
          then (False, g)
          else (True, saveSessionsLocked sv now
            (g\<lparr>g_sessions := mput (digest token) (s\<lparr>se_exp := now + sessionTTL\<rparr>) (g_sessions g)\<rparr>)))"

text \<open>
  The revalidation of a session against the current account: role, capabilities and basis
  are those of the row, not of the session.
\<close>

definition live_session :: "auth_gate \<Rightarrow> session \<Rightarrow> session option" where
  "live_session g s =
     (if se_local s then
        (case mget (g_users g) (se_sub s) of None \<Rightarrow> None
         | Some u \<Rightarrow>
            if us_epoch u = se_epoch s
            then Some (s\<lparr>se_role := normalizeRole (us_role u),
              se_caps := capabilitiesForProfile (us_profile u) (us_caps u) (us_role u),
              se_basis := capBasisForProfile (us_profile u)\<rparr>)
            else None)
      else
        (case mget (g_principals g) (se_sub s) of None \<Rightarrow> None
         | Some p \<Rightarrow>
            if pr_epoch p = se_epoch s
            then Some (s\<lparr>se_role := normalizeRole (pr_role p),
              se_caps := capabilitiesForProfile (pr_profile p) (pr_caps p) (pr_role p),
              se_basis := capBasisForProfile (pr_profile p)\<rparr>)
            else None))"

text \<open>\<open>streamAuthorized\<close>: an open event stream is checked again like a request for logs.\<close>

definition streamAuthorized ::
    "(string \<Rightarrow> string) \<Rightarrow> time \<Rightarrow> string option \<Rightarrow> auth_gate option \<Rightarrow> bool" where
  "streamAuthorized digest now cookie gate =
     (case gate of None \<Rightarrow> True
      | Some g \<Rightarrow>
        (case cookie of None \<Rightarrow> False
         | Some token \<Rightarrow>
           (case fst (lookupSession digest now token g) of None \<Rightarrow> False
            | Some s \<Rightarrow>
              (case live_session g s of None \<Rightarrow> False | Some l \<Rightarrow> Allow (se_caps l) ViewLogs))))"

section \<open>Lockout\<close>

definition lockedOut :: "time \<Rightarrow> string \<Rightarrow> auth_gate \<Rightarrow> bool" where
  "lockedOut now ip g =
     (case mget (g_fails g) ip of None \<Rightarrow> False
      | Some fi \<Rightarrow> authMaxFails \<le> fl_count fi \<and> before_time now (fl_until fi))"

definition recordFail :: "time \<Rightarrow> string \<Rightarrow> auth_gate \<Rightarrow> auth_gate" where
  "recordFail now ip g =
     (let kept = filter (\<lambda>(k, v). \<not> (k \<noteq> ip \<and> after_time now (fl_until v))) (g_fails g);
          fi = (case mget kept ip of None \<Rightarrow> \<lparr>fl_count = 0, fl_until = 0\<rparr>
                | Some f \<Rightarrow> if after_time now (fl_until f) then \<lparr>fl_count = 0, fl_until = 0\<rparr> else f)
      in g\<lparr>g_fails := mput ip \<lparr>fl_count = fl_count fi + 1, fl_until = now + authLockWindow\<rparr> kept\<rparr>)"

definition recordSuccess :: "string \<Rightarrow> auth_gate \<Rightarrow> auth_gate" where
  "recordSuccess ip g = g\<lparr>g_fails := mdel ip (g_fails g)\<rparr>"

section \<open>Start\<close>

text \<open>The rows of \<open>users.json\<close>, in order; an empty or repeated name stops the load.\<close>

fun load_users :: "dash_user list \<Rightarrow> (string, dash_user) gomap \<Rightarrow> bool \<times> (string, dash_user) gomap" where
  "load_users [] m = (True, m)"
| "load_users (u # us) m =
     (if us_name u = [] \<or> mget m (us_name u) \<noteq> None then (False, m)
      else load_users us
        (mput (us_name u) (u\<lparr>us_role := normalizeRole (us_role u), us_caps := Normalize (us_caps u)\<rparr>) m))"

fun load_principals ::
    "dash_principal list \<Rightarrow> (string, dash_principal) gomap \<Rightarrow> bool \<times> (string, dash_principal) gomap" where
  "load_principals [] m = (True, m)"
| "load_principals (p # ps) m =
     (if pr_subject p = [] \<or> mget m (pr_subject p) \<noteq> None then (False, m)
      else load_principals ps
        (mput (pr_subject p) (p\<lparr>pr_role := normalizeRole (pr_role p), pr_caps := Normalize (pr_caps p)\<rparr>) m))"

datatype load_result = Loaded | NoUsers | LoadFailed

definition load_file :: "users_file \<Rightarrow> auth_gate \<Rightarrow> load_result \<times> auth_gate" where
  "load_file f g =
     (case load_users (uf_users f) [] of
        (False, us) \<Rightarrow> (LoadFailed, g\<lparr>g_users := us\<rparr>)
      | (True, us) \<Rightarrow>
        (case load_principals (uf_principals f) [] of
           (False, ps) \<Rightarrow> (LoadFailed, g\<lparr>g_users := us, g_principals := ps\<rparr>)
         | (True, ps) \<Rightarrow>
             let g1 = g\<lparr>g_users := us, g_principals := ps, g_epoch := uf_epoch f, g_setup := False\<rparr>
             in if us = [] \<and> ps = [] then (LoadFailed, g1) else (Loaded, g1)))"

definition loadUsers :: "save_outcome \<Rightarrow> auth_gate \<Rightarrow> load_result \<times> auth_gate" where
  "loadUsers sv g =
     (case ad_users (g_disk g) of
        Holds f \<Rightarrow> load_file f g
      | Broken \<Rightarrow> (LoadFailed, g)
      | Absent \<Rightarrow>
        (case ad_legacy (g_disk g) of
           Absent \<Rightarrow> (NoUsers, g)
         | Broken \<Rightarrow> (LoadFailed, g)
         | Holds (name0, hash) \<Rightarrow>
           if hash = [] then (LoadFailed, g)
           else
             let name = (if name0 = [] then ''admin'' else name0);
                 u = \<lparr>us_name = name, us_hash = hash, us_role = RoleAdmin, us_epoch = 0,
                   us_profile = [], us_caps = []\<rparr>;
                 g1 = g\<lparr>g_users := [(name, u)], g_setup := False\<rparr>
             in (Loaded, snd (saveUsersFile sv (g_users g1) (g_principals g1) (g_epoch g1) g1))))"

definition materializeEnvBootstrap ::
    "string option \<Rightarrow> save_outcome \<Rightarrow> string \<Rightarrow> auth_gate \<Rightarrow> bool \<times> auth_gate" where
  "materializeEnvBootstrap hash sv name g =
     (case hash of None \<Rightarrow> (False, g)
      | Some h \<Rightarrow>
        let u = \<lparr>us_name = name, us_hash = h, us_role = RoleAdmin, us_epoch = 1, us_profile = [], us_caps = []\<rparr>
        in case commit_users sv (mput name u (g_users g)) 1 g of
          (Some e, g1) \<Rightarrow> (False, g1)
        | (None, g1) \<Rightarrow> (True, g1\<lparr>g_setup := False\<rparr>))"

definition empty_gate :: "string \<Rightarrow> string \<Rightarrow> auth_disk \<Rightarrow> auth_gate" where
  "empty_gate user pass d =
     \<lparr>g_env_user = user, g_env_pass = pass, g_users = [], g_principals = [], g_epoch = 0,
      g_setup = False, g_fails = [], g_sessions = [], g_boot_token = [], g_boot_expiry = 0,
      g_init_err = False, g_sso = False, g_disk = d\<rparr>"

record boot_io =
  bi_now :: time
  bi_token :: string
  bi_hash :: "string option"
  bi_save :: save_outcome

definition newAuthGate :: "boot_io \<Rightarrow> string \<Rightarrow> string \<Rightarrow> auth_disk \<Rightarrow> auth_gate" where
  "newAuthGate io user pass d =
     (let g0 = loadSessions (bi_now io) (empty_gate user pass d)
      in case loadUsers (bi_save io) g0 of
        (Loaded, g1) \<Rightarrow> g1
      | (LoadFailed, g1) \<Rightarrow> g1\<lparr>g_init_err := True\<rparr>
      | (NoUsers, g1) \<Rightarrow>
          if pass = [] then
            g1\<lparr>g_setup := True, g_boot_token := bi_token io, g_boot_expiry := bi_now io + bootstrapTokenTTL\<rparr>
          else
            let trimmed = trim_space user;
                name = (if trimmed = [] then ''admin'' else trimmed)
            in case materializeEnvBootstrap (bi_hash io) (bi_save io) name g1 of
              (True, g2) \<Rightarrow> g2 | (False, g2) \<Rightarrow> g2\<lparr>g_init_err := True\<rparr>)"

text \<open>\<open>server.New\<close>: configured single sign-on clears the setup mode.\<close>

definition start_gate :: "bool \<Rightarrow> boot_io \<Rightarrow> string \<Rightarrow> string \<Rightarrow> auth_disk \<Rightarrow> auth_gate" where
  "start_gate sso io user pass d =
     (let g = newAuthGate io user pass d
      in if sso then g\<lparr>g_sso := True, g_setup := False\<rparr> else g)"

definition checkBootstrapToken :: "time \<Rightarrow> string \<Rightarrow> auth_gate \<Rightarrow> bool" where
  "checkBootstrapToken now supplied g \<longleftrightarrow>
     \<not> (g_boot_token g = [] \<or> supplied = [] \<or> after_time now (g_boot_expiry g)) \<and> supplied = g_boot_token g"

section \<open>The middleware\<close>

text \<open>
  What the gate reads of a request; \<open>hr_same_origin\<close> and \<open>hr_ip\<close> are the results of
  \<open>sameOrigin\<close> and \<open>clientIP\<close>.
\<close>

record http_request =
  hr_method :: string
  hr_path :: string
  hr_query :: string
  hr_cookie :: "string option"
  hr_ip :: string
  hr_same_origin :: bool

datatype gate_answer = Reply nat | RedirectTo string | PassAnonymous | PassAs session

definition setup_paths :: "string list" where
  "setup_paths = [''/api/health'', ''/healthz'', ''/readyz'', ''/setup'', ''/api/setup'']"

definition public_paths :: "string list" where
  "public_paths = [''/api/health'', ''/healthz'', ''/readyz'', ''/login'', ''/api/login'', ''/api/logout'',
     ''/api/login/methods'', ''/api/setup'', ''/status'', ''/api/status'', ''/api/mcp'',
     ''/favicon.svg'', ''/favicon.ico'']"

text \<open>\<open>url.QueryEscape\<close> of the standard library; only the login page reads its result.\<close>

definition login_redirect :: "(string \<Rightarrow> string) \<Rightarrow> http_request \<Rightarrow> string" where
  "login_redirect escape r =
     ''/login?next='' @ escape (hr_path r @ (if hr_query r = [] then [] else ''?'' @ hr_query r))"

definition unauthenticated :: "(string \<Rightarrow> string) \<Rightarrow> time \<Rightarrow> http_request \<Rightarrow> auth_gate \<Rightarrow> gate_answer" where
  "unauthenticated escape now r g =
     (if lockedOut now (hr_ip r) g then Reply 429
      else if prefix ''/api/'' (hr_path r) then Reply 401
      else RedirectTo (login_redirect escape r))"

definition csrf_guard :: "http_request \<Rightarrow> gate_answer \<Rightarrow> gate_answer" where
  "csrf_guard r a = (if isMutating (hr_method r) \<and> \<not> hr_same_origin r then Reply 403 else a)"

definition authorize :: "http_request \<Rightarrow> session \<Rightarrow> gate_answer" where
  "authorize r s =
     csrf_guard r
       (if Missing (se_caps s) (requiredCapabilities (hr_method r) (hr_path r)) \<noteq> [] then Reply 403
        else PassAs s)"

record wrap_env =
  we_digest :: "string \<Rightarrow> string"
  we_escape :: "string \<Rightarrow> string"

definition wrap_session ::
    "wrap_env \<Rightarrow> save_outcome \<Rightarrow> time \<Rightarrow> http_request \<Rightarrow> auth_gate \<Rightarrow> session option \<times> bool \<times> auth_gate" where
  "wrap_session env sv now r g =
     (case hr_cookie r of None \<Rightarrow> (None, False, g)
      | Some token \<Rightarrow>
        (case lookupSession (we_digest env) now token g of
           (None, g1) \<Rightarrow> (None, False, g1)
         | (Some s, g1) \<Rightarrow>
           (case live_session g1 s of
              None \<Rightarrow> (None, False, deleteSession (we_digest env) sv now token g1)
            | Some l \<Rightarrow>
                (case renewSession (we_digest env) sv now token g1 of (renewed, g2) \<Rightarrow> (Some l, renewed, g2)))))"

text \<open>\<open>wrap\<close>: the answer, whether the session cookie is set again, and the gate.\<close>

definition wrap ::
    "wrap_env \<Rightarrow> save_outcome \<Rightarrow> time \<Rightarrow> http_request \<Rightarrow> auth_gate \<Rightarrow> gate_answer \<times> bool \<times> auth_gate" where
  "wrap env sv now r g =
     (let path = hr_path r in
      if g_init_err g \<and> path \<noteq> ''/api/health'' \<and> path \<noteq> ''/healthz'' \<and> path \<noteq> ''/readyz''
        then (Reply 503, False, g)
      else if g_setup g then
        (if path \<in> set setup_paths then (csrf_guard r PassAnonymous, False, g)
         else if prefix ''/api/'' path then (Reply 503, False, g)
         else (RedirectTo ''/setup'', False, g))
      else if path \<in> set public_paths then (csrf_guard r PassAnonymous, False, g)
      else if path = ''/oidc/login'' \<or> path = ''/oidc/callback'' then
        (if lockedOut now (hr_ip r) g then (Reply 429, False, g) else (PassAnonymous, False, g))
      else if prefix ''/api/push/'' path then (PassAnonymous, False, g)
      else if prefix ''/hooks/sources/'' path then (csrf_guard r PassAnonymous, False, g)
      else
        case wrap_session env sv now r g of
          (None, c, g1) \<Rightarrow> (unauthenticated (we_escape env) now r g1, c, g1)
        | (Some s, c, g1) \<Rightarrow> (authorize r s, c, g1))"

end
