(* ===== verification/AccessSystem.thy ===== *)
theory AccessSystem
  imports AuthGate
begin

text \<open>
  The access system as a whole: every operation on accounts and sessions as one step of a
  transition system, with sign-ins split where the code releases its lock (the password or
  the identity token is verified in one critical section, the session is issued in a later
  one), crashes and restarts at any point, and every write of the two files succeeding,
  failing, or failing after the rename. The invariant \<open>access_ok\<close> is kept by all steps:
  nothing that proves an identity is newer than the epoch counter, and the files never fall
  behind the memory.
\<close>

section \<open>Steps\<close>

record access =
  ax_gate :: auth_gate
  ax_proofs :: "proof_of list"

record access_cfg =
  xc_verify :: "string \<Rightarrow> string \<Rightarrow> bool"
  xc_env :: wrap_env

datatype account_op =
  CreateUser "string option" string string string
| SetPassword "string option" string "64 word" string bool
| MigrateEnv "string option" string string
| SetRole string string
| DeleteUser string
| NarrowToPreset string
| SetCapabilities string "string list"
| RevokeSessions string
| RevokePrincipal string

fun run_account :: "account_op \<Rightarrow> save_outcome \<Rightarrow> auth_gate \<Rightarrow> account_error option \<times> auth_gate" where
  "run_account (CreateUser h n p r) sv g = createUser h sv n p r g"
| "run_account (SetPassword h n e p c) sv g = setPasswordCAS h sv n e p c g"
| "run_account (MigrateEnv h n p) sv g = setPasswordMigratingEnv h sv n p g"
| "run_account (SetRole n r) sv g = setRole sv n r g"
| "run_account (DeleteUser n) sv g = deleteUser sv n g"
| "run_account (NarrowToPreset n) sv g = narrowToPreset sv n g"
| "run_account (SetCapabilities n cs) sv g = setCapabilities sv n cs g"
| "run_account (RevokeSessions n) sv g = revokeSessions sv n g"
| "run_account (RevokePrincipal s) sv g = revokePrincipalSessions sv s g"

datatype access_act =
  Account account_op save_outcome
| SignIn string string
| SsoSignIn save_outcome string string string string string
| Issue save_outcome time string proof_of
| Request save_outcome time http_request
| Logout save_outcome time string
| WipeSessions save_outcome time string
| Attempt time string bool
| Restart bool boot_io string string

fun perform_access :: "access_cfg \<Rightarrow> access_act \<Rightarrow> access \<Rightarrow> access" where
  "perform_access cfg (Account oper sv) w = w\<lparr>ax_gate := snd (run_account oper sv (ax_gate w))\<rparr>"
| "perform_access cfg (SignIn n p) w =
     (case authenticate (xc_verify cfg) n p (ax_gate w) of None \<Rightarrow> w
      | Some pf \<Rightarrow> w\<lparr>ax_proofs := pf # ax_proofs w\<rparr>)"
| "perform_access cfg (SsoSignIn sv today sub n e r) w =
     (case upsertOIDCPrincipal sv today sub n e r (ax_gate w) of
        (Inl err, g) \<Rightarrow> w\<lparr>ax_gate := g\<rparr>
      | (Inr pf, g) \<Rightarrow> w\<lparr>ax_gate := g, ax_proofs := pf # ax_proofs w\<rparr>)"
| "perform_access cfg (Issue sv now token pf) w =
     w\<lparr>ax_gate := newSessionFor (we_digest (xc_env cfg)) sv now token pf (ax_gate w)\<rparr>"
| "perform_access cfg (Request sv now r) w =
     (case wrap (xc_env cfg) sv now r (ax_gate w) of (a, c, g) \<Rightarrow> w\<lparr>ax_gate := g\<rparr>)"
| "perform_access cfg (Logout sv now token) w =
     w\<lparr>ax_gate := deleteSession (we_digest (xc_env cfg)) sv now token (ax_gate w)\<rparr>"
| "perform_access cfg (WipeSessions sv now sub) w = w\<lparr>ax_gate := deleteUserSessions sv now sub (ax_gate w)\<rparr>"
| "perform_access cfg (Attempt now ip ok) w =
     w\<lparr>ax_gate := (if ok then recordSuccess ip (ax_gate w) else recordFail now ip (ax_gate w))\<rparr>"
| "perform_access cfg (Restart sso io user pass) w =
     \<lparr>ax_gate = start_gate sso io user pass (g_disk (ax_gate w)), ax_proofs = []\<rparr>"

text \<open>
  A session is issued for a proof that was given; a gate whose store could not be loaded
  refuses everything but restarts; the counter has not reached the end of \<open>uint64\<close>.
\<close>

fun admissible_access :: "access_act \<Rightarrow> access \<Rightarrow> bool" where
  "admissible_access (Restart sso io user pass) w \<longleftrightarrow> True"
| "admissible_access (Request sv now r) w \<longleftrightarrow> True"
| "admissible_access (Issue sv now token pf) w \<longleftrightarrow> pf \<in> set (ax_proofs w) \<and> \<not> g_init_err (ax_gate w)"
| "admissible_access a w \<longleftrightarrow> \<not> g_init_err (ax_gate w) \<and> g_epoch (ax_gate w) < - 1"

inductive access_steps :: "access_cfg \<Rightarrow> access \<Rightarrow> access \<Rightarrow> bool" for cfg where
  stay: "access_steps cfg w w"
| onward: "access_steps cfg w w1 \<Longrightarrow> admissible_access a w1 \<Longrightarrow> access_steps cfg w (perform_access cfg a w1)"

section \<open>Well-formed stores\<close>

definition keyed_users :: "(string, dash_user) gomap \<Rightarrow> bool" where
  "keyed_users us \<longleftrightarrow> gomap_ok us \<and> (\<forall>k u. mget us k = Some u \<longrightarrow> us_name u = k \<and> k \<noteq> [])"

definition keyed_principals :: "(string, dash_principal) gomap \<Rightarrow> bool" where
  "keyed_principals ps \<longleftrightarrow> gomap_ok ps \<and> (\<forall>k p. mget ps k = Some p \<longrightarrow> pr_subject p = k \<and> k \<noteq> [])"

definition rows_ok :: "users_file \<Rightarrow> bool" where
  "rows_ok f \<longleftrightarrow>
     distinct (map us_name (uf_users f)) \<and> distinct (map pr_subject (uf_principals f)) \<and>
     (\<forall>u\<in>set (uf_users f). us_name u \<noteq> [] \<and> us_epoch u \<le> uf_epoch f) \<and>
     (\<forall>p\<in>set (uf_principals f). pr_subject p \<noteq> [] \<and> pr_epoch p \<le> uf_epoch f)"

definition disk_sessions :: "auth_disk \<Rightarrow> session list" where
  "disk_sessions d = (case ad_sessions d of Holds f \<Rightarrow> map snd f | _ \<Rightarrow> [])"

definition auth_disk_ok :: "auth_disk \<Rightarrow> bool" where
  "auth_disk_ok d \<longleftrightarrow>
     (case ad_users d of
        Absent \<Rightarrow> (\<forall>s\<in>set (disk_sessions d). se_epoch s = 0)
      | Broken \<Rightarrow> False
      | Holds f \<Rightarrow> rows_ok f \<and> (\<forall>s\<in>set (disk_sessions d). se_epoch s \<le> uf_epoch f))"

definition memory_ok :: "auth_gate \<Rightarrow> bool" where
  "memory_ok g \<longleftrightarrow>
     keyed_users (g_users g) \<and> keyed_principals (g_principals g) \<and>
     (\<forall>k u. mget (g_users g) k = Some u \<longrightarrow> us_epoch u \<le> g_epoch g) \<and>
     (\<forall>k p. mget (g_principals g) k = Some p \<longrightarrow> pr_epoch p \<le> g_epoch g) \<and>
     (\<forall>s\<in>snd ` set (g_sessions g). se_epoch s \<le> g_epoch g) \<and>
     (\<forall>s\<in>set (disk_sessions (g_disk g)). se_epoch s \<le> g_epoch g) \<and>
     (case ad_users (g_disk g) of Absent \<Rightarrow> g_epoch g = 0 | Broken \<Rightarrow> False
      | Holds f \<Rightarrow> g_epoch g \<le> uf_epoch f)"

definition access_ok :: "access \<Rightarrow> bool" where
  "access_ok w \<longleftrightarrow> auth_disk_ok (g_disk (ax_gate w)) \<and>
     (\<not> g_init_err (ax_gate w) \<longrightarrow>
        memory_ok (ax_gate w) \<and> (\<forall>pf\<in>set (ax_proofs w). pf_epoch pf \<le> g_epoch (ax_gate w)))"

section \<open>Account operations as one kind of change\<close>

text \<open>A candidate row keeps its epoch or takes the next one.\<close>

definition candidate ::
    "auth_gate \<Rightarrow> (string, dash_user) gomap \<Rightarrow> (string, dash_principal) gomap \<Rightarrow> 64 word \<Rightarrow> bool" where
  "candidate g us ps e \<longleftrightarrow>
     (e = g_epoch g \<or> e = g_epoch g + 1) \<and>
     (keyed_users (g_users g) \<longrightarrow> keyed_users us) \<and> (keyed_principals (g_principals g) \<longrightarrow> keyed_principals ps) \<and>
     (\<forall>k u. mget us k = Some u \<longrightarrow> (us_epoch u = g_epoch g + 1 \<and> e = g_epoch g + 1) \<or>
        (\<exists>u0. mget (g_users g) k = Some u0 \<and> us_epoch u = us_epoch u0)) \<and>
     (\<forall>k p. mget ps k = Some p \<longrightarrow> (pr_epoch p = g_epoch g + 1 \<and> e = g_epoch g + 1) \<or>
        (\<exists>p0. mget (g_principals g) k = Some p0 \<and> pr_epoch p = pr_epoch p0))"

text \<open>Nothing, only the file, or the file and the memory take the candidate.\<close>

definition account_step :: "auth_gate \<Rightarrow> auth_gate \<Rightarrow> bool" where
  "account_step g g' \<longleftrightarrow>
     g_sessions g' = g_sessions g \<and> g_init_err g' = g_init_err g \<and>
     ad_sessions (g_disk g') = ad_sessions (g_disk g) \<and>
     (\<exists>us ps e. candidate g us ps e \<and>
        ((g_users g' = g_users g \<and> g_principals g' = g_principals g \<and> g_epoch g' = g_epoch g \<and>
            (ad_users (g_disk g') = ad_users (g_disk g) \<or>
             ad_users (g_disk g') = Holds (users_image us ps e))) \<or>
         (g_users g' = us \<and> g_principals g' = ps \<and> g_epoch g' = e \<and>
            ad_users (g_disk g') = Holds (users_image us ps e))))"

lemma candidate_refl: "candidate g (g_users g) (g_principals g) (g_epoch g)"
  by (auto simp: candidate_def)

lemma account_step_refl [simp, intro]: "account_step g g"
  unfolding account_step_def using candidate_refl by blast

lemma commit_users_step:
  assumes "candidate g us (g_principals g) e"
  shows "account_step g (snd (commit_users sv us e g))"
  unfolding account_step_def
  by (rule conjI [OF _ conjI [OF _ conjI [OF _ exI [of _ us, OF exI [of _ "g_principals g", OF exI [of _ e]]]]]])
    (use assms in \<open>auto simp: commit_users_def saveUsersFile_def Let_def split: save_outcome.splits\<close>)

lemma commit_principals_step:
  assumes "candidate g (g_users g) ps e"
  shows "account_step g (snd (commit_principals sv ps e g))"
  unfolding account_step_def
  by (rule conjI [OF _ conjI [OF _ conjI [OF _ exI [of _ "g_users g", OF exI [of _ ps, OF exI [of _ e]]]]]])
    (use assms in \<open>auto simp: commit_principals_def saveUsersFile_def Let_def split: save_outcome.splits\<close>)

lemma account_step_setup: "account_step g g' \<Longrightarrow> account_step g (g'\<lparr>g_setup := b\<rparr>)"
  by (simp add: account_step_def)

lemma candidate_put_user:
  assumes "us_name u = k" "k \<noteq> []" "us_epoch u = g_epoch g + 1"
  shows "candidate g (mput k u (g_users g)) (g_principals g) (g_epoch g + 1)"
  using assms by (auto simp: candidate_def keyed_users_def)

lemma candidate_edit_user:
  assumes "mget (g_users g) k = Some u" "us_name u' = us_name u"
    and "us_epoch u' = us_epoch u \<and> e = g_epoch g \<or> us_epoch u' = g_epoch g + 1 \<and> e = g_epoch g + 1"
  shows "candidate g (mput k u' (g_users g)) (g_principals g) e"
  using assms by (auto simp: candidate_def keyed_users_def)

lemma candidate_del_user: "candidate g (mdel k (g_users g)) (g_principals g) (g_epoch g + 1)"
  by (auto simp: candidate_def keyed_users_def)

lemma candidate_put_principal:
  assumes "pr_subject p = k" "k \<noteq> []" "pr_epoch p = g_epoch g + 1"
  shows "candidate g (g_users g) (mput k p (g_principals g)) (g_epoch g + 1)"
  using assms by (auto simp: candidate_def keyed_principals_def)

lemma candidate_edit_principal:
  assumes "mget (g_principals g) k = Some p" "pr_subject p' = pr_subject p"
    and "pr_epoch p' = pr_epoch p \<and> e = g_epoch g \<or> pr_epoch p' = g_epoch g + 1 \<and> e = g_epoch g + 1"
  shows "candidate g (g_users g) (mput k p' (g_principals g)) e"
  using assms by (auto simp: candidate_def keyed_principals_def)

end
