(* ===== verification/AccessSafety.thy ===== *)
theory AccessSafety
  imports AccessSystem
begin

text \<open>
  The invariant of the access system and what follows from it: revocation is final, through
  crashes, restarts and failing writes, and what the gate lets through is always a current
  account with the capabilities the route needs.
\<close>

section \<open>Every account operation is one account step\<close>

lemma trim_validated: "validateUsername n \<Longrightarrow> n \<noteq> []"
  by (auto simp: validateUsername_def)

lemma createUser_step: "account_step g (snd (createUser h sv n p r g))"
proof -
  let ?n = "trim_space n"
  let ?u = "\<lparr>us_name = ?n, us_hash = the h, us_role = normalizeRole r, us_epoch = g_epoch g + 1,
    us_profile = profilePreset, us_caps = []\<rparr>"
  have "account_step g (snd (commit_users sv (mput ?n ?u (g_users g)) (g_epoch g + 1) g))" if "?n \<noteq> []"
    by (rule commit_users_step, rule candidate_put_user) (use that in auto)
  then show ?thesis
    by (auto simp: createUser_def Let_def intro: account_step_setup split: option.splits prod.splits)
qed

lemma edit_step:
  assumes "mget (g_users g) n = Some u" "us_name u' = us_name u"
    and "us_epoch u' = us_epoch u \<and> e = g_epoch g \<or> us_epoch u' = g_epoch g + 1 \<and> e = g_epoch g + 1"
  shows "account_step g (snd (commit_users sv (mput n u' (g_users g)) e g))"
  by (rule commit_users_step, rule candidate_edit_user) (use assms in auto)

lemma setPasswordCAS_step: "account_step g (snd (setPasswordCAS h sv n e p c g))"
  by (auto simp: setPasswordCAS_def Let_def split: option.splits intro!: edit_step)

lemma setPasswordMigratingEnv_step: "account_step g (snd (setPasswordMigratingEnv h sv n p g))"
proof -
  let ?u = "\<lparr>us_name = n, us_hash = the h, us_role = RoleAdmin, us_epoch = g_epoch g + 1,
    us_profile = [], us_caps = []\<rparr>"
  have "account_step g (snd (commit_users sv (mput n ?u (g_users g)) (g_epoch g + 1) g))" if "n = env_name g"
    by (rule commit_users_step, rule candidate_put_user) (use that in \<open>auto simp: env_name_def\<close>)
  then show ?thesis
    by (auto simp: setPasswordMigratingEnv_def Let_def intro!: account_step_setup edit_step
        split: option.splits prod.splits dest: sym)
qed

lemma setRole_step: "account_step g (snd (setRole sv n r g))"
  by (auto simp: setRole_def Let_def split: option.splits intro!: edit_step)

lemma deleteUser_step: "account_step g (snd (deleteUser sv n g))"
  by (auto simp: deleteUser_def split: option.splits intro!: commit_users_step candidate_del_user)

lemma narrowToPreset_step: "account_step g (snd (narrowToPreset sv n g))"
  by (auto simp: narrowToPreset_def split: option.splits intro!: edit_step)

lemma setCapabilities_step: "account_step g (snd (setCapabilities sv n cs g))"
  by (auto simp: setCapabilities_def split: option.splits intro!: edit_step)

lemma revokeSessions_step: "account_step g (snd (revokeSessions sv n g))"
  by (auto simp: revokeSessions_def Let_def split: option.splits intro!: edit_step)

lemma revokePrincipalSessions_step: "account_step g (snd (revokePrincipalSessions sv s g))"
proof -
  have "account_step g (snd (commit_principals sv (mput s (p\<lparr>pr_epoch := g_epoch g + 1\<rparr>) (g_principals g))
      (g_epoch g + 1) g))" if "mget (g_principals g) s = Some p" for p
    by (rule commit_principals_step, rule candidate_edit_principal [OF that]) auto
  then show ?thesis by (auto simp: revokePrincipalSessions_def Let_def split: option.splits)
qed

lemma account_op_step: "account_step g (snd (run_account oper sv g))"
  by (cases oper)
    (simp_all add: createUser_step setPasswordCAS_step setPasswordMigratingEnv_step setRole_step
      deleteUser_step narrowToPreset_step setCapabilities_step revokeSessions_step
      revokePrincipalSessions_step)

lemma upsert_step: "account_step g (snd (upsertOIDCPrincipal sv today s n em r g))"
proof -
  have edit: "account_step g (snd (case saveUsersFile sv (g_users g) (mput s p1 (g_principals g)) (g_epoch g) g of
      (False, g1) \<Rightarrow> (Inl SaveFailed, g1)
    | (True, g1) \<Rightarrow> (Inr x, g1\<lparr>g_principals := mput s p1 (g_principals g)\<rparr>)))"
    if p: "mget (g_principals g) s = Some p" "pr_subject p1 = pr_subject p" "pr_epoch p1 = pr_epoch p"
    for p p1 and x :: proof_of
  proof -
    have "candidate g (g_users g) (mput s p1 (g_principals g)) (g_epoch g)"
      by (rule candidate_edit_principal [OF p(1,2)]) (use p in auto)
    then show ?thesis
      unfolding account_step_def
      by (intro conjI exI [of _ "g_users g"] exI [of _ "mput s p1 (g_principals g)"] exI [of _ "g_epoch g"])
        (auto simp: saveUsersFile_def Let_def split: save_outcome.splits)
  qed
  have new: "account_step g (snd (case commit_principals sv (mput s p (g_principals g)) (g_epoch g + 1) g of
      (Some e, g1) \<Rightarrow> (Inl e, g1) | (None, g1) \<Rightarrow> (Inr x, g1)))"
    if "pr_subject p = s" "s \<noteq> []" "pr_epoch p = g_epoch g + 1" for p and x :: proof_of
    using commit_principals_step [OF candidate_put_principal [OF that], of sv]
    by (auto split: prod.splits option.splits)
  show ?thesis
    unfolding upsertOIDCPrincipal_def Let_def
    by (cases "mget (g_principals g) s") (auto intro: edit new)
qed

section \<open>Session operations leave the accounts alone\<close>

definition same_accounts :: "auth_gate \<Rightarrow> auth_gate \<Rightarrow> bool" where
  "same_accounts g g' \<longleftrightarrow> g_users g' = g_users g \<and> g_principals g' = g_principals g \<and>
     g_epoch g' = g_epoch g \<and> g_init_err g' = g_init_err g \<and> g_setup g' = g_setup g \<and>
     ad_users (g_disk g') = ad_users (g_disk g) \<and> ad_legacy (g_disk g') = ad_legacy (g_disk g)"

lemma same_accounts_refl [simp]: "same_accounts g g"
  by (simp add: same_accounts_def)

lemma same_accounts_trans: "same_accounts g g1 \<Longrightarrow> same_accounts g1 g2 \<Longrightarrow> same_accounts g g2"
  by (simp add: same_accounts_def)

text \<open>The epochs a session operation can leave in memory and in the file.\<close>

definition epochs :: "auth_gate \<Rightarrow> 64 word set" where
  "epochs g = se_epoch ` (snd ` set (g_sessions g) \<union> set (disk_sessions (g_disk g)))"

definition session_step :: "64 word set \<Rightarrow> auth_gate \<Rightarrow> auth_gate \<Rightarrow> bool" where
  "session_step new g g' \<longleftrightarrow> same_accounts g g' \<and> epochs g' \<subseteq> epochs g \<union> new"

lemma session_step_refl [simp]: "session_step new g g"
  by (simp add: session_step_def)

lemma session_step_trans: "session_step A g g1 \<Longrightarrow> session_step A g1 g2 \<Longrightarrow> session_step A g g2"
  by (auto simp: session_step_def dest: same_accounts_trans)

lemma save_sessions_step:
  assumes "same_accounts g g1" and "g_disk g1 = g_disk g"
    and "se_epoch ` snd ` set (g_sessions g1) \<subseteq> epochs g \<union> new"
  shows "session_step new g (saveSessionsLocked sv now g1)"
proof -
  have e: "epochs (saveSessionsLocked sv now g1) \<subseteq>
      se_epoch ` snd ` set (g_sessions g1) \<union> se_epoch ` set (disk_sessions (g_disk g1))"
    by (auto simp: epochs_def saveSessionsLocked_def Let_def disk_sessions_def persisted_session_def
        image_iff split: if_splits; force)
  have "se_epoch ` set (disk_sessions (g_disk g)) \<subseteq> epochs g \<union> new" by (auto simp: epochs_def)
  then have "epochs (saveSessionsLocked sv now g1) \<subseteq> epochs g \<union> new"
    using order_trans [OF e Un_least] assms(2,3) by simp
  moreover have "same_accounts g (saveSessionsLocked sv now g1)"
    using assms(1) by (simp add: same_accounts_def saveSessionsLocked_def Let_def)
  ultimately show ?thesis by (simp add: session_step_def)
qed

lemma set_mput_snd: "snd ` set (mput k v m) \<subseteq> insert v (snd ` set m)"
  by (induction m) auto

lemma mget_epoch: "mget (g_sessions g) k = Some s \<Longrightarrow> se_epoch s \<in> epochs g"
  by (auto simp: epochs_def dest!: mget_SomeD intro!: image_eqI [of _ se_epoch s] image_eqI [of _ snd "(k, s)"])

lemma epochs_mem: "se_epoch ` snd ` set (g_sessions g) \<subseteq> epochs g"
  by (auto simp: epochs_def)

lemma newSessionFor_step: "session_step {pf_epoch pf} g (newSessionFor d sv now token pf g)"
proof -
  let ?s = "\<lparr>se_sub = pf_sub pf, se_user = pf_user pf, se_role = normalizeRole (pf_role pf),
            se_exp = now + sessionTTL, se_epoch = pf_epoch pf, se_local = pf_local pf,
            se_caps = [], se_basis = []\<rparr>"
  let ?m = "filter (\<lambda>(k, s). \<not> after_time now (se_exp s)) (g_sessions g)"
  have "se_epoch ` snd ` set (mput (d token) ?s ?m) \<subseteq> se_epoch ` insert ?s (snd ` set ?m)"
    using set_mput_snd by (rule image_mono)
  also have "\<dots> \<subseteq> epochs g \<union> {pf_epoch pf}" by (auto simp: epochs_def)
  finally show ?thesis
    unfolding newSessionFor_def Let_def
    by (intro save_sessions_step) (simp_all add: same_accounts_def)
qed

lemma mdel_subset: "snd ` set (mdel k m) \<subseteq> snd ` set m"
  by (auto simp: set_mdel)

lemma lookupSession_step: "session_step new g (snd (lookupSession d now token g))"
proof -
  have "epochs (g\<lparr>g_sessions := mdel (d token) (g_sessions g)\<rparr>) \<subseteq> epochs g"
    using image_mono [OF mdel_subset, of se_epoch "d token" "g_sessions g"]
    unfolding epochs_def image_Un by simp blast
  then have "session_step new g (g\<lparr>g_sessions := mdel (d token) (g_sessions g)\<rparr>)"
    by (auto simp: session_step_def same_accounts_def)
  then show ?thesis by (simp add: lookupSession_def split: option.splits)
qed

lemma deleteSession_step: "session_step new g (deleteSession d sv now token g)"
proof (cases "mget (g_sessions g) (d token) = None")
  case False
  have "se_epoch ` snd ` set (mdel (d token) (g_sessions g)) \<subseteq> epochs g \<union> new"
    using subset_trans [OF image_mono [OF mdel_subset] epochs_mem] by (rule le_supI1)
  with False show ?thesis
    unfolding deleteSession_def by (simp add: save_sessions_step same_accounts_def)
qed (simp add: deleteSession_def)

lemma deleteUserSessions_step: "session_step new g (deleteUserSessions sv now sub g)"
proof -
  have "se_epoch ` snd ` set (filter (\<lambda>(k, s). se_sub s \<noteq> sub) (g_sessions g)) \<subseteq> epochs g \<union> new"
    by (auto simp: epochs_def)
  then show ?thesis
    unfolding deleteUserSessions_def by (simp add: Let_def save_sessions_step same_accounts_def)
qed

lemma renewSession_step: "session_step new g (snd (renewSession d sv now token g))"
proof (cases "mget (g_sessions g) (d token)")
  case (Some s)
  let ?s = "s\<lparr>se_exp := now + sessionTTL\<rparr>"
  have "se_epoch ` snd ` set (mput (d token) ?s (g_sessions g)) \<subseteq> se_epoch ` insert ?s (snd ` set (g_sessions g))"
    using set_mput_snd by (rule image_mono)
  also have "\<dots> \<subseteq> epochs g \<union> new" using mget_epoch [OF Some] epochs_mem by auto
  finally have sub: "se_epoch ` snd ` set (mput (d token) ?s (g_sessions g)) \<subseteq> epochs g \<union> new" .
  then show ?thesis
    unfolding renewSession_def using Some by (simp add: save_sessions_step same_accounts_def)
qed (simp add: renewSession_def)

lemma wrap_session_step: "session_step new g (snd (snd (wrap_session env sv now r g)))"
proof (cases "hr_cookie r")
  case (Some token)
  obtain o1 g1 where l: "lookupSession (we_digest env) now token g = (o1, g1)" by force
  have g1: "session_step new g g1" using lookupSession_step [of new g "we_digest env" now token] l by simp
  show ?thesis
  proof (cases o1)
    case None
    then show ?thesis using Some l g1 by (simp add: wrap_session_def)
  next
    case (Some s)
    show ?thesis
    proof (cases "live_session g1 s")
      case None
      then show ?thesis
        using Some \<open>hr_cookie r = Some token\<close> l session_step_trans [OF g1 deleteSession_step]
        by (simp add: wrap_session_def)
    next
      case (Some lv)
      obtain b g2 where rn: "renewSession (we_digest env) sv now token g1 = (b, g2)" by force
      have "session_step new g1 g2"
        using renewSession_step [of new g1 "we_digest env" sv now token] rn by simp
      from session_step_trans [OF g1 this] show ?thesis
        using Some \<open>o1 = Some s\<close> \<open>hr_cookie r = Some token\<close> l rn by (simp add: wrap_session_def)
    qed
  qed
qed (simp add: wrap_session_def)

lemma wrap_step: "session_step new g (snd (snd (wrap env sv now r g)))"
proof -
  obtain a c g1 where w: "wrap_session env sv now r g = (a, c, g1)" by (metis prod.exhaust)
  have "session_step new g g1" using wrap_session_step [of new g env sv now r] w by simp
  then show ?thesis by (auto simp: wrap_def Let_def w split: option.splits)
qed

end
