(* ===== verification/AccessRevocation.thy ===== *)
theory AccessRevocation
  imports AccessSafety
begin

text \<open>
  The invariant of the access system is kept by account operations, session operations and
  restarts, and a revocation is final: what was issued, written or verified before it never
  authorises anything again.
\<close>

section \<open>The image in the file\<close>

lemma next_epoch: "(c :: 64 word) < - 1 \<Longrightarrow> e \<le> c \<Longrightarrow> e < c + 1"
proof -
  assume a: "c < - 1" "e \<le> c"
  then have "1 + c \<noteq> 0" by (metis add.commute eq_neg_iff_add_eq_0 order_less_irrefl)
  then have "unat (c + 1) = Suc (unat c)" using unatSuc [of c] by (simp add: add.commute)
  with a show ?thesis by (simp add: word_less_nat_alt word_le_nat_alt)
qed

lemma keyed_names: "keyed_users us \<Longrightarrow> map us_name (map snd us) = map fst us"
  by (auto simp: keyed_users_def mem_gomap_iff [symmetric])

lemma keyed_subjects: "keyed_principals ps \<Longrightarrow> map pr_subject (map snd ps) = map fst ps"
  by (auto simp: keyed_principals_def mem_gomap_iff [symmetric])

lemma keyed_usersD: "keyed_users us \<Longrightarrow> (k, u) \<in> set us \<Longrightarrow> us_name u = k \<and> k \<noteq> [] \<and> mget us k = Some u"
  by (simp add: keyed_users_def mem_gomap_iff)

lemma keyed_principalsD:
  "keyed_principals ps \<Longrightarrow> (k, p) \<in> set ps \<Longrightarrow> pr_subject p = k \<and> k \<noteq> [] \<and> mget ps k = Some p"
  by (simp add: keyed_principals_def mem_gomap_iff)

lemma distinct_map_sort_key: "distinct (map f (sort_key g xs)) = distinct (map f xs)"
  by (simp add: distinct_map)

lemma image_rows_ok:
  assumes us: "keyed_users us" and ps: "keyed_principals ps"
    and "\<And>k u. mget us k = Some u \<Longrightarrow> us_epoch u \<le> e" and "\<And>k p. mget ps k = Some p \<Longrightarrow> pr_epoch p \<le> e"
  shows "rows_ok (users_image us ps e)"
proof -
  have "distinct (map us_name (map snd us))" "distinct (map pr_subject (map snd ps))"
    using us ps unfolding keyed_names [OF us] keyed_subjects [OF ps]
    by (simp_all add: keyed_users_def keyed_principals_def gomap_ok_def)
  moreover have "us_name u \<noteq> [] \<and> us_epoch u \<le> e" if "u \<in> snd ` set us" for u
    using that keyed_usersD [OF us] assms(3) by fastforce
  moreover have "pr_subject p \<noteq> [] \<and> pr_epoch p \<le> e" if "p \<in> snd ` set ps" for p
    using that keyed_principalsD [OF ps] assms(4) by fastforce
  ultimately show ?thesis
    by (auto simp: rows_ok_def users_image_def distinct_map_sort_key)
qed

section \<open>Account steps\<close>

definition intact :: "auth_gate \<Rightarrow> bool" where
  "intact g \<longleftrightarrow> auth_disk_ok (g_disk g) \<and> memory_ok g"

lemma candidate_bounds:
  assumes m: "memory_ok g" and lt: "g_epoch g < - 1" and c: "candidate g us ps e"
  shows "g_epoch g \<le> e" "rows_ok (users_image us ps e)" "keyed_users us" "keyed_principals ps"
    "mget us k = Some u \<Longrightarrow> us_epoch u \<le> e" "mget ps k = Some p \<Longrightarrow> pr_epoch p \<le> e"
proof -
  note up = next_epoch [OF lt]
  show le: "g_epoch g \<le> e" using c up [of "g_epoch g"] by (auto simp: candidate_def)
  show k: "keyed_users us" "keyed_principals ps" using c m by (simp_all add: candidate_def memory_ok_def)
  have u: "us_epoch u \<le> e" if "mget us k = Some u" for k u
  proof -
    from c that consider "us_epoch u = e"
      | u0 where "mget (g_users g) k = Some u0" "us_epoch u = us_epoch u0"
      unfolding candidate_def by metis
    then show ?thesis
    proof cases
      case 2
      then have "us_epoch u0 \<le> g_epoch g" using m by (simp add: memory_ok_def)
      with 2 le show ?thesis by simp
    qed simp
  qed
  have p: "pr_epoch p \<le> e" if "mget ps k = Some p" for k p
  proof -
    from c that consider "pr_epoch p = e"
      | p0 where "mget (g_principals g) k = Some p0" "pr_epoch p = pr_epoch p0"
      unfolding candidate_def by metis
    then show ?thesis
    proof cases
      case 2
      then have "pr_epoch p0 \<le> g_epoch g" using m by (simp add: memory_ok_def)
      with 2 le show ?thesis by simp
    qed simp
  qed
  show "rows_ok (users_image us ps e)" by (rule image_rows_ok [OF k u p])
  show "mget us k = Some u \<Longrightarrow> us_epoch u \<le> e" "mget ps k = Some p \<Longrightarrow> pr_epoch p \<le> e" by (fact u, fact p)
qed

lemma disk_sessions_cong: "ad_sessions d' = ad_sessions d \<Longrightarrow> disk_sessions d' = disk_sessions d"
  by (simp add: disk_sessions_def)

lemma uf_epoch_image [simp]: "uf_epoch (users_image us ps e) = e"
  by (simp add: users_image_def)

lemma account_step_intact:
  assumes g: "intact g" and lt: "g_epoch g < - 1" and st: "account_step g g'"
  shows "intact g'" "g_epoch g \<le> g_epoch g'"
proof -
  from st obtain us ps e where c: "candidate g us ps e"
    and same: "g_sessions g' = g_sessions g" "disk_sessions (g_disk g') = disk_sessions (g_disk g)"
    and alt: "(g_users g' = g_users g \<and> g_principals g' = g_principals g \<and> g_epoch g' = g_epoch g \<and>
            (ad_users (g_disk g') = ad_users (g_disk g) \<or> ad_users (g_disk g') = Holds (users_image us ps e))) \<or>
         (g_users g' = us \<and> g_principals g' = ps \<and> g_epoch g' = e \<and>
            ad_users (g_disk g') = Holds (users_image us ps e))"
    unfolding account_step_def by (metis disk_sessions_cong)
  have m: "memory_ok g" using g by (simp add: intact_def)
  note b = candidate_bounds [OF m lt c]
  have ses: "\<forall>s\<in>snd ` set (g_sessions g'). se_epoch s \<le> g_epoch g"
    "\<forall>s\<in>set (disk_sessions (g_disk g')). se_epoch s \<le> g_epoch g"
    using m same by (auto simp: memory_ok_def)
  show mono: "g_epoch g \<le> g_epoch g'" using alt b(1) by auto
  have up: "x \<le> g_epoch g \<Longrightarrow> x \<le> e" for x using b(1) by (rule order_trans [rotated])
  consider (written) "ad_users (g_disk g') = Holds (users_image us ps e)" | (old) "ad_users (g_disk g') = ad_users (g_disk g)"
      "g_users g' = g_users g" "g_principals g' = g_principals g" "g_epoch g' = g_epoch g"
    using alt by blast
  then have d: "auth_disk_ok (g_disk g')"
  proof cases
    case written
    then show ?thesis using b(2) ses(2) up by (auto simp: auth_disk_ok_def)
  next
    case old
    then show ?thesis using g same unfolding intact_def auth_disk_ok_def by (auto split: stored_file.splits)
  qed
  have "memory_ok g'"
  proof (cases "g_users g' = us \<and> g_principals g' = ps \<and> g_epoch g' = e \<and>
      ad_users (g_disk g') = Holds (users_image us ps e)")
    case True
    then show ?thesis using b(3-6) ses up by (auto simp: memory_ok_def)
  next
    case False
    with alt have o: "g_users g' = g_users g" "g_principals g' = g_principals g" "g_epoch g' = g_epoch g"
      "ad_users (g_disk g') = ad_users (g_disk g) \<or> ad_users (g_disk g') = Holds (users_image us ps e)"
      by auto
    have "case ad_users (g_disk g') of Absent \<Rightarrow> g_epoch g = 0 | Broken \<Rightarrow> False | Holds f \<Rightarrow> g_epoch g \<le> uf_epoch f"
      using o(4) m b(1) by (auto simp: memory_ok_def)
    then show ?thesis using m ses o(1-3) unfolding memory_ok_def by (auto split: stored_file.splits)
  qed
  with d show "intact g'" by (simp add: intact_def)
qed

section \<open>Session steps\<close>

lemma epochs_bound: "intact g \<Longrightarrow> x \<in> epochs g \<Longrightarrow> x \<le> g_epoch g"
  by (auto simp: intact_def memory_ok_def epochs_def)

lemma session_step_intact:
  assumes g: "intact g" and st: "session_step new g g'" and new: "\<And>x. x \<in> new \<Longrightarrow> x \<le> g_epoch g"
  shows "intact g'" "g_epoch g' = g_epoch g" "g_init_err g' = g_init_err g"
proof -
  have sa: "same_accounts g g'" and ep: "epochs g' \<subseteq> epochs g \<union> new" using st by (auto simp: session_step_def)
  show "g_epoch g' = g_epoch g" "g_init_err g' = g_init_err g" using sa by (simp_all add: same_accounts_def)
  have b: "x \<in> epochs g' \<Longrightarrow> x \<le> g_epoch g" for x using ep epochs_bound [OF g] new by auto
  have s: "\<forall>s\<in>snd ` set (g_sessions g'). se_epoch s \<le> g_epoch g"
    "\<forall>s\<in>set (disk_sessions (g_disk g')). se_epoch s \<le> g_epoch g"
    using b by (auto simp: epochs_def image_Un)
  have m: "memory_ok g'" using g s sa unfolding intact_def memory_ok_def same_accounts_def
    by (auto split: stored_file.splits)
  have "auth_disk_ok (g_disk g')"
  proof (cases "ad_users (g_disk g)")
    case Absent
    then have "g_epoch g = 0" using g by (simp add: intact_def memory_ok_def)
    then show ?thesis using s(2) sa Absent by (simp add: auth_disk_ok_def same_accounts_def)
  next
    case (Holds f)
    then have "g_epoch g \<le> uf_epoch f" and "rows_ok f" using g by (auto simp: intact_def memory_ok_def auth_disk_ok_def)
    then show ?thesis using s(2) sa Holds by (auto simp: auth_disk_ok_def same_accounts_def intro: order_trans)
  qed (use g in \<open>simp add: intact_def auth_disk_ok_def\<close>)
  with m show "intact g'" by (simp add: intact_def)
qed

section \<open>Restarts\<close>

definition norm_user :: "dash_user \<Rightarrow> dash_user" where
  "norm_user u = u\<lparr>us_role := normalizeRole (us_role u), us_caps := Normalize (us_caps u)\<rparr>"

definition norm_principal :: "dash_principal \<Rightarrow> dash_principal" where
  "norm_principal p = p\<lparr>pr_role := normalizeRole (pr_role p), pr_caps := Normalize (pr_caps p)\<rparr>"

lemma norm_user_simps [simp]:
  "us_name (norm_user u) = us_name u" "us_epoch (norm_user u) = us_epoch u"
  by (simp_all add: norm_user_def)

lemma norm_principal_simps [simp]:
  "pr_subject (norm_principal p) = pr_subject p" "pr_epoch (norm_principal p) = pr_epoch p"
  by (simp_all add: norm_principal_def)

lemma load_users_spec:
  assumes "distinct (map us_name us)" and "\<forall>u\<in>set us. us_name u \<noteq> [] \<and> mget m (us_name u) = None"
    and "keyed_users m"
  shows "\<exists>m'. load_users us m = (True, m') \<and> keyed_users m' \<and>
    (\<forall>k u. mget m' k = Some u \<longleftrightarrow> mget m k = Some u \<or> (\<exists>u0\<in>set us. us_name u0 = k \<and> u = norm_user u0))"
  using assms
proof (induction us arbitrary: m)
  case (Cons u us)
  let ?m = "mput (us_name u) (norm_user u) m"
  have p: "us_name u \<noteq> []" "mget m (us_name u) = None" using Cons.prems by simp_all
  have "\<forall>v\<in>set us. us_name v \<noteq> [] \<and> mget ?m (us_name v) = None"
    using Cons.prems by (auto simp: image_iff)
  moreover have "keyed_users ?m" using Cons.prems(3) p by (auto simp: keyed_users_def)
  ultimately obtain m' where m': "load_users us ?m = (True, m')" "keyed_users m'"
    "\<forall>k v. mget m' k = Some v \<longleftrightarrow> mget ?m k = Some v \<or> (\<exists>u0\<in>set us. us_name u0 = k \<and> v = norm_user u0)"
    using Cons.IH [of ?m] Cons.prems(1) by auto
  have "load_users (u # us) m = (True, m')" using p m'(1) by (simp add: norm_user_def)
  moreover have "mget m' k = Some v \<longleftrightarrow> mget m k = Some v \<or> (\<exists>u0\<in>set (u # us). us_name u0 = k \<and> v = norm_user u0)"
    for k v
    using m'(3) p by auto
  ultimately show ?case using m'(2) by blast
qed auto

lemma load_principals_spec:
  assumes "distinct (map pr_subject ps)" and "\<forall>p\<in>set ps. pr_subject p \<noteq> [] \<and> mget m (pr_subject p) = None"
    and "keyed_principals m"
  shows "\<exists>m'. load_principals ps m = (True, m') \<and> keyed_principals m' \<and>
    (\<forall>k p. mget m' k = Some p \<longleftrightarrow> mget m k = Some p \<or> (\<exists>p0\<in>set ps. pr_subject p0 = k \<and> p = norm_principal p0))"
  using assms
proof (induction ps arbitrary: m)
  case (Cons u us)
  let ?m = "mput (pr_subject u) (norm_principal u) m"
  have p: "pr_subject u \<noteq> []" "mget m (pr_subject u) = None" using Cons.prems by simp_all
  have "\<forall>v\<in>set us. pr_subject v \<noteq> [] \<and> mget ?m (pr_subject v) = None"
    using Cons.prems by (auto simp: image_iff)
  moreover have "keyed_principals ?m" using Cons.prems(3) p by (auto simp: keyed_principals_def)
  ultimately obtain m' where m': "load_principals us ?m = (True, m')" "keyed_principals m'"
    "\<forall>k v. mget m' k = Some v \<longleftrightarrow> mget ?m k = Some v \<or> (\<exists>u0\<in>set us. pr_subject u0 = k \<and> v = norm_principal u0)"
    using Cons.IH [of ?m] Cons.prems(1) by auto
  have "load_principals (u # us) m = (True, m')" using p m'(1) by (simp add: norm_principal_def)
  moreover have "mget m' k = Some v \<longleftrightarrow> mget m k = Some v \<or>
      (\<exists>u0\<in>set (u # us). pr_subject u0 = k \<and> v = norm_principal u0)" for k v
    using m'(3) p by auto
  ultimately show ?case using m'(2) by blast
qed auto

lemma keyed_Nil [simp]: "keyed_users []" "keyed_principals []"
  by (simp_all add: keyed_users_def keyed_principals_def)

lemma load_file_spec:
  assumes "rows_ok f"
  obtains us ps where "keyed_users us" "keyed_principals ps"
    "\<And>k u. mget us k = Some u \<Longrightarrow> \<exists>u0\<in>set (uf_users f). us_name u0 = k \<and> u = norm_user u0"
    "\<And>k p. mget ps k = Some p \<Longrightarrow> \<exists>p0\<in>set (uf_principals f). pr_subject p0 = k \<and> p = norm_principal p0"
    "load_file f g = (if us = [] \<and> ps = [] then LoadFailed else Loaded,
       g\<lparr>g_users := us, g_principals := ps, g_epoch := uf_epoch f, g_setup := False\<rparr>)"
proof -
  obtain us where us: "load_users (uf_users f) [] = (True, us)" "keyed_users us"
    "\<forall>k u. mget us k = Some u \<longleftrightarrow> (\<exists>u0\<in>set (uf_users f). us_name u0 = k \<and> u = norm_user u0)"
    using load_users_spec [of "uf_users f" "[]"] assms by (auto simp: rows_ok_def)
  obtain ps where ps: "load_principals (uf_principals f) [] = (True, ps)" "keyed_principals ps"
    "\<forall>k p. mget ps k = Some p \<longleftrightarrow> (\<exists>p0\<in>set (uf_principals f). pr_subject p0 = k \<and> p = norm_principal p0)"
    using load_principals_spec [of "uf_principals f" "[]"] assms by (auto simp: rows_ok_def)
  show ?thesis
  proof (rule that [of us ps])
    show "load_file f g = (if us = [] \<and> ps = [] then LoadFailed else Loaded,
       g\<lparr>g_users := us, g_principals := ps, g_epoch := uf_epoch f, g_setup := False\<rparr>)"
      using us(1) ps(1) by (simp add: load_file_def Let_def)
  qed (use us ps in auto)
qed

lemma load_sessions_fold:
  "snd ` set (fold (\<lambda>(k, p) m. if length k \<noteq> 64 \<or> \<not> before_time now (se_exp p) then m
       else mput k (p\<lparr>se_role := normalizeRole (se_role p), se_caps := [], se_basis := []\<rparr>) m) f m)
   \<subseteq> snd ` set m \<union> (\<lambda>p. p\<lparr>se_role := normalizeRole (se_role p), se_caps := [], se_basis := []\<rparr>) ` snd ` set f"
proof (induction f arbitrary: m)
  case (Cons kp f)
  obtain k p where kp: "kp = (k, p)" by force
  let ?q = "p\<lparr>se_role := normalizeRole (se_role p), se_caps := [], se_basis := []\<rparr>"
  have "snd ` set (mput k ?q m) \<subseteq> insert ?q (snd ` set m)" by (rule set_mput_snd)
  with Cons.IH [of "mput k ?q m"]
  have "snd ` set (fold (\<lambda>(k, p) m. if length k \<noteq> 64 \<or> \<not> before_time now (se_exp p) then m
       else mput k (p\<lparr>se_role := normalizeRole (se_role p), se_caps := [], se_basis := []\<rparr>) m) f (mput k ?q m))
    \<subseteq> insert ?q (snd ` set m) \<union>
      (\<lambda>p. p\<lparr>se_role := normalizeRole (se_role p), se_caps := [], se_basis := []\<rparr>) ` snd ` set f"
    by blast
  with Cons.IH [of m] show ?case
    unfolding kp by (cases "length k \<noteq> 64 \<or> \<not> before_time now (se_exp p)") (simp_all, blast+)
qed simp

lemma loadSessions_spec:
  assumes "g_sessions g = []"
  obtains ss where "loadSessions now g = g\<lparr>g_sessions := ss\<rparr>"
    "se_epoch ` snd ` set ss \<subseteq> se_epoch ` set (disk_sessions (g_disk g))"
proof (cases "ad_sessions (g_disk g)")
  case (Holds f)
  let ?n = "\<lambda>p. p\<lparr>se_role := normalizeRole (se_role p), se_caps := [], se_basis := []\<rparr>"
  let ?ss = "fold (\<lambda>(k, p) m. if length k \<noteq> 64 \<or> \<not> before_time now (se_exp p) then m else mput k (?n p) m) f []"
  have "snd ` set ?ss \<subseteq> ?n ` snd ` set f"
    using load_sessions_fold [of now f "[]"] by simp
  then have "se_epoch ` snd ` set ?ss \<subseteq> se_epoch ` ?n ` snd ` set f" by (rule image_mono)
  also have "\<dots> = se_epoch ` snd ` set f" by (simp add: image_image)
  finally show ?thesis
    using that [of ?ss] Holds assms by (simp add: loadSessions_def disk_sessions_def)
qed (use that [of "[]"] assms in \<open>simp_all add: loadSessions_def\<close>)

text \<open>After a restart the memory is what the file says, or the gate refuses everything.\<close>

definition reloaded :: "users_file \<Rightarrow> auth_gate \<Rightarrow> bool" where
  "reloaded f g \<longleftrightarrow> g_epoch g = uf_epoch f \<and>
     (\<forall>k u. mget (g_users g) k = Some u \<longrightarrow> (\<exists>u0\<in>set (uf_users f). us_name u0 = k \<and> us_epoch u = us_epoch u0)) \<and>
     (\<forall>k p. mget (g_principals g) k = Some p \<longrightarrow>
        (\<exists>p0\<in>set (uf_principals f). pr_subject p0 = k \<and> pr_epoch p = pr_epoch p0))"

lemma empty_gate_simps [simp]:
  "g_users (empty_gate user pass d) = []" "g_principals (empty_gate user pass d) = []"
  "g_epoch (empty_gate user pass d) = 0" "g_sessions (empty_gate user pass d) = []"
  "g_init_err (empty_gate user pass d) = False" "g_disk (empty_gate user pass d) = d"
  by (simp_all add: empty_gate_def)

lemma newAuthGate_Holds:
  fixes io user pass
  assumes d: "auth_disk_ok d" and h: "ad_users d = Holds h"
  defines "g \<equiv> newAuthGate io user pass d"
  shows "g_disk g = d \<and> (\<not> g_init_err g \<longrightarrow> memory_ok g \<and> reloaded h g)"
proof -
  obtain ss where ss: "loadSessions (bi_now io) (empty_gate user pass d) = (empty_gate user pass d)\<lparr>g_sessions := ss\<rparr>"
    "se_epoch ` snd ` set ss \<subseteq> se_epoch ` set (disk_sessions d)"
    using loadSessions_spec [of "empty_gate user pass d" "bi_now io"] by auto
  let ?g0 = "(empty_gate user pass d)\<lparr>g_sessions := ss\<rparr>"
  have rows: "rows_ok h" and ds: "\<forall>s\<in>set (disk_sessions d). se_epoch s \<le> uf_epoch h"
    using d h by (auto simp: auth_disk_ok_def)
  obtain us ps where f: "keyed_users us" "keyed_principals ps"
    "\<And>k u. mget us k = Some u \<Longrightarrow> \<exists>u0\<in>set (uf_users h). us_name u0 = k \<and> u = norm_user u0"
    "\<And>k p. mget ps k = Some p \<Longrightarrow> \<exists>p0\<in>set (uf_principals h). pr_subject p0 = k \<and> p = norm_principal p0"
    "load_file h ?g0 = (if us = [] \<and> ps = [] then LoadFailed else Loaded,
       ?g0\<lparr>g_users := us, g_principals := ps, g_epoch := uf_epoch h, g_setup := False\<rparr>)"
    using load_file_spec [OF rows] by metis
  let ?g1 = "?g0\<lparr>g_users := us, g_principals := ps, g_epoch := uf_epoch h, g_setup := False\<rparr>"
  have g: "g = (if us = [] \<and> ps = [] then ?g1\<lparr>g_init_err := True\<rparr> else ?g1)"
    using h f(5) by (simp add: g_def newAuthGate_def ss(1) loadUsers_def)
  have u: "us_epoch u \<le> uf_epoch h \<and> (\<exists>u0\<in>set (uf_users h). us_name u0 = k \<and> us_epoch u = us_epoch u0)"
    if "mget us k = Some u" for k u
    using f(3) [OF that] rows by (auto simp: rows_ok_def)
  have p: "pr_epoch p \<le> uf_epoch h \<and> (\<exists>p0\<in>set (uf_principals h). pr_subject p0 = k \<and> pr_epoch p = pr_epoch p0)"
    if "mget ps k = Some p" for k p
    using f(4) [OF that] rows by (auto simp: rows_ok_def)
  have se: "\<forall>s\<in>snd ` set ss. se_epoch s \<le> uf_epoch h" using ss(2) ds by fastforce
  have "memory_ok ?g1" using f(1,2) u p se ds h by (auto simp: memory_ok_def)
  moreover have "reloaded h ?g1" using u p by (simp add: reloaded_def)
  ultimately show ?thesis unfolding g by simp
qed

lemma fresh_memory_ok:
  assumes "ad_users (g_disk g) = Absent" "g_epoch g = 0" "keyed_users (g_users g)" "g_principals g = []"
    and "\<forall>k u. mget (g_users g) k = Some u \<longrightarrow> us_epoch u = 0"
    and "\<forall>s\<in>snd ` set (g_sessions g). se_epoch s = 0" "\<forall>s\<in>set (disk_sessions (g_disk g)). se_epoch s = 0"
  shows "intact g"
  using assms by (auto simp: intact_def auth_disk_ok_def memory_ok_def)

lemma first_save_intact:
  assumes g: "intact g" and e: "g_epoch g \<le> e" and us: "keyed_users (g_users g')" "g_principals g' = []"
    and le: "\<forall>k u. mget (g_users g') k = Some u \<longrightarrow> us_epoch u \<le> e" and e': "g_epoch g' = e"
    and s: "g_sessions g' = g_sessions g" "disk_sessions (g_disk g') = disk_sessions (g_disk g)"
    and d: "ad_users (g_disk g') = Holds (users_image (g_users g') [] e)"
  shows "intact g'"
proof -
  have r: "rows_ok (users_image (g_users g') [] e)" by (rule image_rows_ok) (use us le in auto)
  have "\<forall>s\<in>snd ` set (g_sessions g'). se_epoch s \<le> e" "\<forall>s\<in>set (disk_sessions (g_disk g')). se_epoch s \<le> e"
    using g s e by (auto simp: intact_def memory_ok_def intro: order_trans)
  with r us le e' d show ?thesis by (auto simp: intact_def auth_disk_ok_def memory_ok_def)
qed

lemma newAuthGate_Absent:
  fixes io user pass
  assumes d: "auth_disk_ok d" and a: "ad_users d = Absent"
  defines "g \<equiv> newAuthGate io user pass d"
  shows "auth_disk_ok (g_disk g) \<and> (\<not> g_init_err g \<longrightarrow> memory_ok g)"
proof -
  obtain ss where ss: "loadSessions (bi_now io) (empty_gate user pass d) = (empty_gate user pass d)\<lparr>g_sessions := ss\<rparr>"
    "se_epoch ` snd ` set ss \<subseteq> se_epoch ` set (disk_sessions d)"
    using loadSessions_spec [of "empty_gate user pass d" "bi_now io"] by auto
  let ?g0 = "(empty_gate user pass d)\<lparr>g_sessions := ss\<rparr>"
  have z: "\<forall>s\<in>set (disk_sessions d). se_epoch s = 0" using d a by (simp add: auth_disk_ok_def)
  then have zs: "\<forall>s\<in>snd ` set ss. se_epoch s = 0" using ss(2) by fastforce
  have i0: "intact ?g0" by (rule fresh_memory_ok) (use a z zs in auto)
  show ?thesis
  proof (cases "ad_legacy d")
    case Absent
    show ?thesis
    proof (cases "pass = []")
      case True
      then have "g = ?g0\<lparr>g_setup := True, g_boot_token := bi_token io, g_boot_expiry := bi_now io + bootstrapTokenTTL\<rparr>"
        using a Absent ss(1) by (simp add: g_def newAuthGate_def loadUsers_def Let_def)
      then show ?thesis using i0 a by (auto simp: intact_def memory_ok_def)
    next
      case False
      let ?n = "if trim_space user = [] then ''admin'' else trim_space user"
      have g: "g = (case materializeEnvBootstrap (bi_hash io) (bi_save io) ?n ?g0 of
          (True, g2) \<Rightarrow> g2 | (False, g2) \<Rightarrow> g2\<lparr>g_init_err := True\<rparr>)"
        using a Absent False by (simp add: g_def newAuthGate_def ss(1) loadUsers_def Let_def)
      show ?thesis
      proof (cases "bi_hash io")
        case None
        then show ?thesis using i0 g by (simp add: materializeEnvBootstrap_def intact_def)
      next
        case (Some h)
        let ?u = "\<lparr>us_name = ?n, us_hash = h, us_role = RoleAdmin, us_epoch = 1, us_profile = [], us_caps = []\<rparr>"
        let ?d = "d\<lparr>ad_users := Holds (users_image [(?n, ?u)] [] 1)\<rparr>"
        let ?g1 = "?g0\<lparr>g_disk := ?d, g_epoch := 1, g_users := [(?n, ?u)], g_setup := False\<rparr>"
        have "intact ?g1"
          by (rule first_save_intact [OF i0, of 1])
            (auto simp: keyed_users_def gomap_ok_Cons disk_sessions_def)
        then have "auth_disk_ok ?d \<and> memory_ok ?g1" by (simp add: intact_def)
        then show ?thesis using i0 g Some
          by (cases "bi_save io")
            (auto simp: materializeEnvBootstrap_def commit_users_def saveUsersFile_def Let_def intact_def)
      qed
    qed
  next
    case Broken
    then show ?thesis using i0 a by (simp add: g_def newAuthGate_def ss(1) loadUsers_def intact_def)
  next
    case (Holds lc)
    obtain n h where lc: "lc = (n, h)" by force
    show ?thesis
    proof (cases "h = []")
      case True
      then show ?thesis using i0 a Holds lc by (simp add: g_def newAuthGate_def ss(1) loadUsers_def intact_def)
    next
      case False
      let ?n = "if n = [] then ''admin'' else n"
      let ?u = "\<lparr>us_name = ?n, us_hash = h, us_role = RoleAdmin, us_epoch = 0, us_profile = [], us_caps = []\<rparr>"
      let ?g1 = "?g0\<lparr>g_users := [(?n, ?u)], g_setup := False\<rparr>"
      have g: "g = snd (saveUsersFile (bi_save io) (g_users ?g1) (g_principals ?g1) (g_epoch ?g1) ?g1)"
        using a Holds lc False by (simp add: g_def newAuthGate_def ss(1) loadUsers_def Let_def)
      have k: "keyed_users [(?n, ?u)]" by (auto simp: keyed_users_def gomap_ok_Cons)
      have i1: "intact ?g1" by (rule fresh_memory_ok) (use a z zs k in auto)
      have "intact (?g1\<lparr>g_disk := d\<lparr>ad_users := Holds (users_image (g_users ?g1) [] 0)\<rparr>\<rparr>)"
        by (rule first_save_intact [OF i1, of 0]) (use k in \<open>auto simp: disk_sessions_def\<close>)
      with i1 show ?thesis unfolding g
        by (cases "bi_save io") (auto simp: saveUsersFile_def Let_def intact_def)
    qed
  qed
qed

lemma start_gate_ok:
  assumes "auth_disk_ok d"
  shows "auth_disk_ok (g_disk (start_gate sso io user pass d)) \<and>
    (\<not> g_init_err (start_gate sso io user pass d) \<longrightarrow> memory_ok (start_gate sso io user pass d))"
proof -
  have "auth_disk_ok (g_disk (newAuthGate io user pass d)) \<and>
      (\<not> g_init_err (newAuthGate io user pass d) \<longrightarrow> memory_ok (newAuthGate io user pass d))"
  proof (cases "ad_users d")
    case (Holds h)
    with newAuthGate_Holds [OF assms this, of io user pass] assms show ?thesis by simp
  next
    case Absent
    with newAuthGate_Absent [OF assms this, of io user pass] show ?thesis by simp
  qed (use assms in \<open>simp add: auth_disk_ok_def\<close>)
  then show ?thesis by (auto simp: start_gate_def Let_def memory_ok_def split: stored_file.splits)
qed

section \<open>The invariant\<close>

lemma authenticate_bound:
  assumes "memory_ok g" and "authenticate verify n p g = Some pf"
  shows "pf_epoch pf \<le> g_epoch g"
  using assms by (auto simp: authenticate_def Let_def memory_ok_def split: option.splits if_splits)

lemma upsert_bound:
  assumes m: "memory_ok g" and lt: "g_epoch g < - 1"
    and u: "upsertOIDCPrincipal sv today s n em r g = (Inr pf, g')"
  shows "pf_epoch pf \<le> g_epoch g'"
proof (cases "mget (g_principals g) s")
  case (Some p)
  then have "pr_epoch p \<le> g_epoch g" using m by (simp add: memory_ok_def)
  with u Some show ?thesis
    by (auto simp: upsertOIDCPrincipal_def Let_def saveUsersFile_def split: if_splits save_outcome.splits)
next
  case None
  with u show ?thesis
    by (auto simp: upsertOIDCPrincipal_def commit_principals_def saveUsersFile_def Let_def
        split: if_splits save_outcome.splits)
qed

lemma access_ok_intact: "access_ok w \<Longrightarrow> \<not> g_init_err (ax_gate w) \<Longrightarrow> intact (ax_gate w)"
  by (simp add: access_ok_def intact_def)

lemma access_ok_session_step:
  assumes w: "access_ok w" and ok: "\<not> g_init_err (ax_gate w)" and st: "session_step new (ax_gate w) g'"
    and new: "\<And>x. x \<in> new \<Longrightarrow> x \<le> g_epoch (ax_gate w)"
  shows "access_ok (w\<lparr>ax_gate := g'\<rparr>)"
  using session_step_intact [OF access_ok_intact [OF w ok] st new] w ok
  by (simp add: access_ok_def intact_def)

lemma access_ok_account_step:
  assumes w: "access_ok w" and ok: "\<not> g_init_err (ax_gate w)" and lt: "g_epoch (ax_gate w) < - 1"
    and st: "account_step (ax_gate w) g'" and pf: "\<And>pf. pf \<in> set new \<Longrightarrow> pf_epoch pf \<le> g_epoch g'"
  shows "access_ok (w\<lparr>ax_gate := g', ax_proofs := new @ ax_proofs w\<rparr>)"
  using account_step_intact [OF access_ok_intact [OF w ok] lt st] w ok pf
  by (auto simp: access_ok_def intact_def intro: order_trans)

lemma wrap_init_err:
  assumes "g_init_err g" "\<not> g_setup g"
  shows "snd (snd (wrap env sv now r g)) = g"
  using assms by (auto simp: wrap_def Let_def public_paths_def)

text \<open>A gate that refuses everything is left as it is by requests, whatever its mode.\<close>

lemma wrap_broken: "g_init_err g \<Longrightarrow> snd (snd (wrap env sv now r g)) = g"
  by (cases "g_setup g") (auto simp: wrap_init_err, auto simp: wrap_def Let_def)

lemma perform_access_ok:
  assumes w: "access_ok w" and a: "admissible_access act w"
  shows "access_ok (perform_access cfg act w)"
proof (cases act)
  case (Account oper sv)
  then show ?thesis
    using a access_ok_account_step [OF w _ _ account_op_step [of "ax_gate w" oper sv], of "[]"] by simp
next
  case (SignIn n p)
  show ?thesis
  proof (cases "authenticate (xc_verify cfg) n p (ax_gate w)")
    case (Some pf)
    have "memory_ok (ax_gate w)" using w a SignIn by (simp add: access_ok_def)
    from authenticate_bound [OF this Some] w Some SignIn show ?thesis by (auto simp: access_ok_def)
  qed (use w SignIn in simp)
next
  case (SsoSignIn sv today s n em r)
  obtain res g where u: "upsertOIDCPrincipal sv today s n em r (ax_gate w) = (res, g)" by force
  have st: "account_step (ax_gate w) g" using upsert_step [of "ax_gate w" sv today s n em r] u by simp
  have ok: "\<not> g_init_err (ax_gate w)" "g_epoch (ax_gate w) < - 1" using a SsoSignIn by simp_all
  show ?thesis
  proof (cases res)
    case (Inl e)
    then show ?thesis using access_ok_account_step [OF w ok st, of "[]"] u SsoSignIn by simp
  next
    case (Inr pf)
    have "memory_ok (ax_gate w)" using w ok by (simp add: access_ok_def)
    from upsert_bound [OF this ok(2)] u Inr have "pf_epoch pf \<le> g_epoch g" by blast
    then show ?thesis using access_ok_account_step [OF w ok st, of "[pf]"] u Inr SsoSignIn by simp
  qed
next
  case (Issue sv now token pf)
  then have pf: "pf_epoch pf \<le> g_epoch (ax_gate w)" and ok: "\<not> g_init_err (ax_gate w)"
    using w a by (simp_all add: access_ok_def)
  from access_ok_session_step [OF w ok newSessionFor_step] pf Issue show ?thesis by simp
next
  case (Request sv now r)
  obtain an c g where u: "wrap (xc_env cfg) sv now r (ax_gate w) = (an, c, g)" by (metis prod.exhaust)
  show ?thesis
  proof (cases "g_init_err (ax_gate w)")
    case True
    then show ?thesis using wrap_broken [of "ax_gate w" "xc_env cfg" sv now r] u w Request by simp
  next
    case False
    have "session_step {} (ax_gate w) g" using wrap_step [of "{}" "ax_gate w" "xc_env cfg" sv now r] u by simp
    from access_ok_session_step [OF w False this] u Request show ?thesis by simp
  qed
next
  case (Logout sv now token)
  then show ?thesis using a access_ok_session_step [OF w _ deleteSession_step [of "{}"]] by simp
next
  case (WipeSessions sv now sub)
  then show ?thesis using a access_ok_session_step [OF w _ deleteUserSessions_step [of "{}"]] by simp
next
  case (Attempt now ip ok)
  have "session_step {} (ax_gate w) (if ok then recordSuccess ip (ax_gate w) else recordFail now ip (ax_gate w))"
    by (simp add: session_step_def same_accounts_def epochs_def recordSuccess_def recordFail_def Let_def)
  from access_ok_session_step [OF w _ this] a Attempt show ?thesis by simp
next
  case (Restart sso io user pass)
  then show ?thesis using w start_gate_ok [of "g_disk (ax_gate w)" sso io user pass] by (simp add: access_ok_def)
qed

lemma access_steps_ok: "access_steps cfg w w' \<Longrightarrow> access_ok w \<Longrightarrow> access_ok w'"
  by (induction rule: access_steps.induct) (auto intro: perform_access_ok)

section \<open>Revocation\<close>

text \<open>Which account an operation retires: whose sessions it means to end.\<close>

fun retires :: "account_op \<Rightarrow> (bool \<times> string) option" where
  "retires (SetPassword h n e p c) = Some (True, n)"
| "retires (MigrateEnv h n p) = Some (True, n)"
| "retires (SetRole n r) = Some (True, n)"
| "retires (DeleteUser n) = Some (True, n)"
| "retires (RevokeSessions n) = Some (True, n)"
| "retires (RevokePrincipal s) = Some (False, s)"
| "retires (CreateUser h n p r) = None"
| "retires (NarrowToPreset n) = None"
| "retires (SetCapabilities n cs) = None"

definition row_epoch :: "bool \<Rightarrow> string \<Rightarrow> auth_gate \<Rightarrow> 64 word option" where
  "row_epoch l a g =
     (if l then map_option us_epoch (mget (g_users g) a) else map_option pr_epoch (mget (g_principals g) a))"

definition file_epochs :: "bool \<Rightarrow> string \<Rightarrow> users_file \<Rightarrow> 64 word set" where
  "file_epochs l a f =
     (if l then us_epoch ` {u \<in> set (uf_users f). us_name u = a}
      else pr_epoch ` {p \<in> set (uf_principals f). pr_subject p = a})"

text \<open>Neither the memory nor the file knows the account \<open>(l, a)\<close> with an epoch up to \<open>c\<close>.\<close>

definition retired :: "bool \<Rightarrow> string \<Rightarrow> 64 word \<Rightarrow> auth_gate \<Rightarrow> bool" where
  "retired l a c g \<longleftrightarrow>
     (\<exists>f. ad_users (g_disk g) = Holds f \<and> c < uf_epoch f \<and> (\<forall>e\<in>file_epochs l a f. c < e)) \<and>
     (\<not> g_init_err g \<longrightarrow> c < g_epoch g \<and> (\<forall>e. row_epoch l a g = Some e \<longrightarrow> c < e))"

lemma file_epochs_image:
  assumes "keyed_users us" "keyed_principals ps"
  shows "file_epochs l a (users_image us ps e) =
    (if l then us_epoch ` {u. mget us a = Some u} else pr_epoch ` {p. mget ps a = Some p})"
proof -
  have "u \<in> snd ` set us \<and> us_name u = a \<longleftrightarrow> mget us a = Some u" for u
    using keyed_usersD [OF assms(1)] by (force dest: mget_SomeD)
  moreover have "p \<in> snd ` set ps \<and> pr_subject p = a \<longleftrightarrow> mget ps a = Some p" for p
    using keyed_principalsD [OF assms(2)] by (force dest: mget_SomeD)
  ultimately show ?thesis by (simp add: file_epochs_def users_image_def)
qed

lemma candidate_row:
  assumes "candidate g us ps e"
    and "(if l then map_option us_epoch (mget us a) else map_option pr_epoch (mget ps a)) = Some x"
  shows "x = g_epoch g + 1 \<or> row_epoch l a g = Some x"
  using assms unfolding candidate_def row_epoch_def by (auto split: if_splits; metis)

lemma retired_account_step:
  assumes g: "intact g" and ok: "\<not> g_init_err g" and lt: "g_epoch g < - 1" and st: "account_step g g'"
    and r: "retired l a c g"
  shows "retired l a c g'"
proof -
  from st obtain us ps e where c: "candidate g us ps e" and ie: "g_init_err g' = g_init_err g"
    and alt: "(g_users g' = g_users g \<and> g_principals g' = g_principals g \<and> g_epoch g' = g_epoch g \<and>
            (ad_users (g_disk g') = ad_users (g_disk g) \<or> ad_users (g_disk g') = Holds (users_image us ps e))) \<or>
         (g_users g' = us \<and> g_principals g' = ps \<and> g_epoch g' = e \<and>
            ad_users (g_disk g') = Holds (users_image us ps e))"
    unfolding account_step_def by metis
  have m: "memory_ok g" using g by (simp add: intact_def)
  note b = candidate_bounds [OF m lt c]
  have old: "c < g_epoch g" "\<And>x. row_epoch l a g = Some x \<Longrightarrow> c < x" using r ok by (auto simp: retired_def)
  have ce: "c < e" using old(1) b(1) by (rule less_le_trans)
  have new: "c < x" if "(if l then map_option us_epoch (mget us a) else map_option pr_epoch (mget ps a)) = Some x" for x
    using candidate_row [OF c that] old next_epoch [OF lt less_imp_le [OF old(1)]] by auto
  have written: "\<forall>x\<in>file_epochs l a (users_image us ps e). c < x"
    using new by (auto simp: file_epochs_image [OF b(3,4)] split: if_splits)
  from alt show ?thesis
  proof (elim disjE conjE)
    assume "g_users g' = g_users g" "g_principals g' = g_principals g" "g_epoch g' = g_epoch g"
      "ad_users (g_disk g') = ad_users (g_disk g)"
    then show ?thesis using r ie by (simp add: retired_def row_epoch_def)
  next
    assume "g_users g' = g_users g" "g_principals g' = g_principals g" "g_epoch g' = g_epoch g"
      "ad_users (g_disk g') = Holds (users_image us ps e)"
    then show ?thesis using r ie written ce by (simp add: retired_def row_epoch_def)
  next
    assume "g_users g' = us" "g_principals g' = ps" "g_epoch g' = e"
      "ad_users (g_disk g') = Holds (users_image us ps e)"
    then show ?thesis using written ce new by (simp add: retired_def row_epoch_def split: if_splits)
  qed
qed

lemma retired_session_step: "session_step new g g' \<Longrightarrow> retired l a c g \<Longrightarrow> retired l a c g'"
  by (simp add: session_step_def same_accounts_def retired_def row_epoch_def)

lemma retired_restart:
  assumes d: "auth_disk_ok (g_disk g)" and r: "retired l a c g"
  shows "retired l a c (start_gate sso io user pass (g_disk g))"
proof -
  obtain f where f: "ad_users (g_disk g) = Holds f" "c < uf_epoch f" "\<forall>e\<in>file_epochs l a f. c < e"
    using r by (auto simp: retired_def)
  let ?g = "newAuthGate io user pass (g_disk g)"
  have n: "g_disk ?g = g_disk g" "\<not> g_init_err ?g \<Longrightarrow> reloaded f ?g"
    using newAuthGate_Holds [OF d f(1)] by auto
  have row: "c < e" if "\<not> g_init_err ?g" "row_epoch l a ?g = Some e" for e
  proof -
    have "e \<in> file_epochs l a f"
      using n(2) [OF that(1)] that(2) unfolding reloaded_def row_epoch_def file_epochs_def
      by (auto split: if_splits; blast)
    with f(3) show ?thesis by blast
  qed
  have "\<not> g_init_err ?g \<Longrightarrow> c < g_epoch ?g" using n(2) f(2) by (simp add: reloaded_def)
  with row have "retired l a c ?g" using f n(1) by (auto simp: retired_def)
  then show ?thesis by (auto simp: start_gate_def Let_def retired_def row_epoch_def)
qed

lemma retired_perform:
  assumes w: "access_ok w" and a: "admissible_access act w" and r: "retired l n c (ax_gate w)"
  shows "retired l n c (ax_gate (perform_access cfg act w))"
proof (cases act)
  case (Account oper sv)
  with a have ok: "\<not> g_init_err (ax_gate w)" "g_epoch (ax_gate w) < - 1" by simp_all
  from retired_account_step [OF access_ok_intact [OF w ok(1)] ok account_op_step r] Account show ?thesis by simp
next
  case (SsoSignIn sv today s na em ro)
  with a have ok: "\<not> g_init_err (ax_gate w)" "g_epoch (ax_gate w) < - 1" by simp_all
  from retired_account_step [OF access_ok_intact [OF w ok(1)] ok upsert_step [of _ sv today s na em ro] r]
  show ?thesis using SsoSignIn by (auto split: prod.splits sum.splits)
next
  case (Issue sv now token pf)
  then show ?thesis using retired_session_step [OF newSessionFor_step r] by simp
next
  case (Request sv now q)
  obtain an b g where u: "wrap (xc_env cfg) sv now q (ax_gate w) = (an, b, g)" by (metis prod.exhaust)
  have "session_step {} (ax_gate w) g" using wrap_step [of "{}" "ax_gate w" "xc_env cfg" sv now q] u by simp
  from retired_session_step [OF this r] Request u show ?thesis by simp
next
  case (Restart sso io user pass)
  then show ?thesis using retired_restart [OF _ r] w by (simp add: access_ok_def)
next
  case (Attempt now ip ok)
  then show ?thesis using r
    by (simp add: retired_def row_epoch_def recordSuccess_def recordFail_def Let_def)
qed (use r in \<open>simp_all split: option.split add: retired_session_step [OF deleteSession_step [of "{}"]]
    retired_session_step [OF deleteUserSessions_step [of "{}"]]\<close>)

lemma retired_steps:
  "access_steps cfg w w' \<Longrightarrow> access_ok w \<Longrightarrow> retired l n c (ax_gate w) \<Longrightarrow> retired l n c (ax_gate w')"
  by (induction rule: access_steps.induct) (auto intro: retired_perform dest: access_steps_ok)

end
