(* ===== verification/AccessControl.thy ===== *)
theory AccessControl
  imports AccessRevocation
begin

text \<open>
  The properties of the access system: revocation is final, the gate mediates completely and
  by the current account, viewers only read, and the last administrator stays (though its
  capabilities need not).
\<close>

section \<open>Reachable states\<close>

definition access_reachable :: "access_cfg \<Rightarrow> access \<Rightarrow> bool" where
  "access_reachable cfg w \<longleftrightarrow>
     (\<exists>sso io user pass d. auth_disk_ok d \<and>
        access_steps cfg \<lparr>ax_gate = start_gate sso io user pass d, ax_proofs = []\<rparr> w)"

lemma access_reachable_ok: "access_reachable cfg w \<Longrightarrow> access_ok w"
proof -
  assume "access_reachable cfg w"
  then obtain sso io user pass d where "auth_disk_ok d"
    "access_steps cfg \<lparr>ax_gate = start_gate sso io user pass d, ax_proofs = []\<rparr> w"
    by (auto simp: access_reachable_def)
  then show ?thesis using start_gate_ok [of d sso io user pass] by (auto elim!: access_steps_ok simp: access_ok_def [of "\<lparr>ax_gate = _, ax_proofs = _\<rparr>"])
qed

lemma access_reachable_step:
  "access_reachable cfg w \<Longrightarrow> admissible_access a w \<Longrightarrow> access_reachable cfg (perform_access cfg a w)"
  unfolding access_reachable_def by (blast intro: access_steps.onward)

lemma commit_users_retires:
  assumes m: "memory_ok g" and lt: "g_epoch g < - 1" and k: "keyed_users us"
    and row: "\<And>u. mget us a = Some u \<Longrightarrow> us_epoch u = g_epoch g + 1"
    and c: "commit_users sv us (g_epoch g + 1) g = (None, g')"
  shows "retired True a (g_epoch g) g'"
proof -
  have up: "g_epoch g < g_epoch g + 1" using next_epoch [OF lt order_refl] .
  have p: "keyed_principals (g_principals g)" using m by (simp add: memory_ok_def)
  from c show ?thesis
    using up row by (cases sv)
      (auto simp: commit_users_def saveUsersFile_def Let_def retired_def row_epoch_def file_epochs_image [OF k p])
qed

lemma keyed_edit:
  "keyed_users us \<Longrightarrow> mget us n = Some u \<Longrightarrow> us_name u' = us_name u \<Longrightarrow> keyed_users (mput n u' us)"
  by (auto simp: keyed_users_def)

lemma retires_success:
  assumes g: "intact g" and lt: "g_epoch g < - 1" and r: "retires oper = Some (l, a)"
    and s: "run_account oper sv g = (None, g')"
  shows "retired l a (g_epoch g) g'"
proof -
  have m: "memory_ok g" and k: "keyed_users (g_users g)" and p: "keyed_principals (g_principals g)"
    using g by (simp_all add: intact_def memory_ok_def)
  have edit: "retired True n (g_epoch g) g'"
    if "mget (g_users g) n = Some u" "us_name u' = us_name u" "us_epoch u' = g_epoch g + 1"
      "commit_users sv (mput n u' (g_users g)) (g_epoch g + 1) g = (None, g')" for n u u'
    by (rule commit_users_retires [OF m lt keyed_edit [OF k that(1,2)] _ that(4)]) (use that in auto)
  show ?thesis
  proof (cases oper)
    case (SetPassword h n e pw c)
    with r s show ?thesis
      by (auto simp: setPasswordCAS_def Let_def split: option.splits if_splits dest: edit [rotated 3])
  next
    case (MigrateEnv h n pw)
    show ?thesis
    proof (cases "mget (g_users g) n")
      case (Some u)
      with MigrateEnv r s show ?thesis
        by (auto simp: setPasswordMigratingEnv_def Let_def split: option.splits if_splits dest: edit [rotated 3])
    next
      case None
      let ?u = "\<lparr>us_name = n, us_hash = the h, us_role = RoleAdmin, us_epoch = g_epoch g + 1,
        us_profile = [], us_caps = []\<rparr>"
      from MigrateEnv None s obtain g1 where n: "n = env_name g" and
        c: "commit_users sv (mput n ?u (g_users g)) (g_epoch g + 1) g = (None, g1)" "g' = g1\<lparr>g_setup := False\<rparr>"
        by (auto simp: setPasswordMigratingEnv_def Let_def split: option.splits if_splits prod.splits)
      have "keyed_users (mput n ?u (g_users g))" using k n by (auto simp: keyed_users_def env_name_def)
      from commit_users_retires [OF m lt this _ c(1), of n] have "retired True n (g_epoch g) g1" by simp
      with c(2) MigrateEnv r show ?thesis by (simp add: retired_def row_epoch_def)
    qed
  next
    case (SetRole n ro)
    with r s show ?thesis by (auto simp: setRole_def Let_def split: option.splits if_splits dest: edit [rotated 3])
  next
    case (DeleteUser n)
    have "keyed_users (mdel n (g_users g))" using k by (auto simp: keyed_users_def)
    from commit_users_retires [OF m lt this, of n sv g'] DeleteUser r s show ?thesis
      by (auto simp: deleteUser_def split: option.splits if_splits)
  next
    case (RevokeSessions n)
    with r s show ?thesis by (auto simp: revokeSessions_def Let_def split: option.splits dest: edit [rotated 3])
  next
    case (RevokePrincipal n)
    then obtain q where q: "mget (g_principals g) n = Some q"
      and c: "commit_principals sv (mput n (q\<lparr>pr_epoch := g_epoch g + 1\<rparr>) (g_principals g)) (g_epoch g + 1) g = (None, g')"
      using s by (auto simp: revokePrincipalSessions_def Let_def split: option.splits)
    have kp: "keyed_principals (mput n (q\<lparr>pr_epoch := g_epoch g + 1\<rparr>) (g_principals g))"
      using p q by (auto simp: keyed_principals_def)
    have up: "g_epoch g < g_epoch g + 1" using next_epoch [OF lt order_refl] .
    have na: "n = a" "\<not> l" using RevokePrincipal r by simp_all
    from c up na show ?thesis
      by (cases sv) (auto simp: commit_principals_def saveUsersFile_def Let_def retired_def row_epoch_def
          file_epochs_image [OF k kp [unfolded na(1)]])
  qed (use r in simp_all)
qed

section \<open>What the gate lets through\<close>

lemma lookupSession_Some:
  "lookupSession d now token g = (Some s, g') \<Longrightarrow>
     mget (g_sessions g) (d token) = Some s \<and> now \<le> se_exp s \<and> g' = g"
  by (auto simp: lookupSession_def split: if_splits option.splits)

lemma wrap_session_Some:
  assumes "wrap_session env sv now r g = (Some s, ck, g')"
  obtains token stored where "hr_cookie r = Some token"
    "mget (g_sessions g) (we_digest env token) = Some stored" "now \<le> se_exp stored"
    "live_session g stored = Some s"
  using assms
  by (auto simp: wrap_session_def split: option.splits prod.splits dest!: lookupSession_Some)

lemma csrf_PassAs: "csrf_guard r a = PassAs s \<longleftrightarrow> a = PassAs s \<and> (isMutating (hr_method r) \<longrightarrow> hr_same_origin r)"
  by (auto simp: csrf_guard_def)

lemma wrap_PassAs:
  assumes "wrap env sv now r g = (PassAs s, ck, g')"
  shows "\<not> g_setup g" "\<exists>c1. wrap_session env sv now r g = (Some s, c1, g')" "authorize r s = PassAs s"
  using assms
  by (auto simp: wrap_def Let_def csrf_guard_def authorize_def unauthenticated_def
      split: if_splits option.splits prod.splits)

lemma live_session_same: "live_session g stored = Some s \<Longrightarrow>
    se_sub s = se_sub stored \<and> se_local s = se_local stored \<and> se_epoch s = se_epoch stored \<and>
    row_epoch (se_local s) (se_sub s) g = Some (se_epoch s)"
  by (auto simp: live_session_def row_epoch_def split: if_splits option.splits)

lemma wrap_init_err_PassAs: "wrap env sv now r g = (PassAs s, ck, g') \<Longrightarrow> \<not> g_init_err g"
  by (auto simp: wrap_def Let_def csrf_guard_def public_paths_def split: if_splits)

text \<open>
  C5. Revocation is final. Once a password change, a role change, a deletion or a revocation
  has reported success, a request is let through under that account only with a session whose
  epoch is newer than every session in memory, every session in the file and every verified
  but not yet issued sign-in that existed before it. This holds after any sequence of account
  changes, sign-ins, crashes and restarts, whichever later writes fail.
\<close>

theorem revocation_is_final:
  assumes "access_reachable cfg w" and "admissible_access (Account oper sv) w"
    and "run_account oper sv (ax_gate w) = (None, g')" and "retires oper = Some (l, a)"
    and "access_steps cfg (w\<lparr>ax_gate := g'\<rparr>) w'"
    and "wrap (xc_env cfg) sv' now r (ax_gate w') = (PassAs s, ck, g'')" and "se_local s = l" and "se_sub s = a"
  shows "\<forall>e \<in> epochs (ax_gate w) \<union> pf_epoch ` set (ax_proofs w). e < se_epoch s"
proof -
  have w: "access_ok w" by (rule access_reachable_ok) fact
  have ok: "\<not> g_init_err (ax_gate w)" "g_epoch (ax_gate w) < - 1" using assms(2) by simp_all
  have "retired l a (g_epoch (ax_gate w)) g'"
    by (rule retires_success [OF access_ok_intact [OF w ok(1)] ok(2) assms(4,3)])
  moreover have "access_ok (w\<lparr>ax_gate := g'\<rparr>)"
    using perform_access_ok [OF w assms(2)] assms(3) by simp
  ultimately have "retired l a (g_epoch (ax_gate w)) (ax_gate w')"
    using retired_steps [OF assms(5)] by simp
  moreover have "row_epoch l a (ax_gate w') = Some (se_epoch s)"
    using wrap_PassAs(2) [OF assms(6)] assms(7,8) by (auto elim!: wrap_session_Some dest: live_session_same)
  moreover have "\<not> g_init_err (ax_gate w')" by (rule wrap_init_err_PassAs) fact
  ultimately have lt: "g_epoch (ax_gate w) < se_epoch s" by (simp add: retired_def)
  have "e \<le> g_epoch (ax_gate w)" if "e \<in> epochs (ax_gate w) \<union> pf_epoch ` set (ax_proofs w)" for e
    using that epochs_bound [OF access_ok_intact [OF w ok(1)]] w ok(1) by (auto simp: access_ok_def)
  with lt show ?thesis by (blast intro: order_le_less_trans)
qed

text \<open>A run: an account is created, signs in, is revoked, the dashboard crashes, it signs in again.\<close>

definition gate_env :: wrap_env where
  "gate_env = \<lparr>we_digest = (\<lambda>t. take 64 (t @ replicate 64 CHR ''0'')), we_escape = (\<lambda>s. s)\<rparr>"

definition demo_access_cfg :: access_cfg where
  "demo_access_cfg = \<lparr>xc_verify = (\<lambda>h p. h = p), xc_env = gate_env\<rparr>"

definition demo_boot :: "int \<Rightarrow> boot_io" where
  "demo_boot t = \<lparr>bi_now = t, bi_token = ''setup'', bi_hash = Some ''password'', bi_save = SaveOk\<rparr>"

definition empty_disk :: auth_disk where
  "empty_disk = \<lparr>ad_users = Absent, ad_legacy = Absent, ad_sessions = Absent\<rparr>"

definition demo_start :: access where
  "demo_start = \<lparr>ax_gate = start_gate False (demo_boot 0) ''root'' ''password'' empty_disk, ax_proofs = []\<rparr>"

definition web_request :: "string \<Rightarrow> string \<Rightarrow> string \<Rightarrow> http_request" where
  "web_request m path token =
     \<lparr>hr_method = m, hr_path = path, hr_query = [], hr_cookie = Some token, hr_ip = ''10.0.0.9'', hr_same_origin = True\<rparr>"

definition eve_proof :: "64 word \<Rightarrow> proof_of" where
  "eve_proof e = \<lparr>pf_sub = ''eve'', pf_user = ''eve'', pf_role = ''editor'', pf_epoch = e, pf_local = True\<rparr>"

definition run_access :: "access_act list \<Rightarrow> access \<Rightarrow> access" where
  "run_access acts w = fold (perform_access demo_access_cfg) acts w"

fun admissible_run :: "access_act list \<Rightarrow> access \<Rightarrow> bool" where
  "admissible_run [] w \<longleftrightarrow> True"
| "admissible_run (a # as) w \<longleftrightarrow> admissible_access a w \<and> admissible_run as (perform_access demo_access_cfg a w)"

lemma run_access_steps:
  "access_steps demo_access_cfg w w1 \<Longrightarrow> admissible_run as w1 \<Longrightarrow> access_steps demo_access_cfg w (run_access as w1)"
proof (induction as arbitrary: w1)
  case (Cons a as)
  have "access_steps demo_access_cfg w (perform_access demo_access_cfg a w1)"
    using Cons.prems by (auto intro: access_steps.onward)
  with Cons show ?case by (simp add: run_access_def)
qed (simp add: run_access_def)

definition demo_before :: access where
  "demo_before = run_access
     [Account (CreateUser (Some ''evepassword'') ''eve'' ''evepassword'' ''editor'') SaveOk,
      SignIn ''eve'' ''evepassword'', Issue SaveOk 1 ''t1'' (eve_proof 2)] demo_start"

definition demo_after :: access where
  "demo_after = run_access
     [Restart False (demo_boot 2) ''root'' ''password'', SignIn ''eve'' ''evepassword'',
      Issue SaveOk 3 ''t2'' (eve_proof 3)]
     (demo_before\<lparr>ax_gate := snd (revokeSessions SaveOk ''eve'' (ax_gate demo_before))\<rparr>)"

lemma demo_before_reachable: "access_reachable demo_access_cfg demo_before"
proof -
  have "admissible_run [Account (CreateUser (Some ''evepassword'') ''eve'' ''evepassword'' ''editor'') SaveOk,
      SignIn ''eve'' ''evepassword'', Issue SaveOk 1 ''t1'' (eve_proof 2)] demo_start"
    by code_simp
  from run_access_steps [OF access_steps.stay this]
  have "access_steps demo_access_cfg demo_start demo_before" by (simp add: demo_before_def)
  moreover have "auth_disk_ok empty_disk" by (simp add: auth_disk_ok_def empty_disk_def disk_sessions_def)
  ultimately show ?thesis unfolding access_reachable_def demo_start_def by blast
qed

lemma demo_after_steps:
  "access_steps demo_access_cfg
     (demo_before\<lparr>ax_gate := snd (revokeSessions SaveOk ''eve'' (ax_gate demo_before))\<rparr>) demo_after"
proof -
  have "admissible_run [Restart False (demo_boot 2) ''root'' ''password'', SignIn ''eve'' ''evepassword'',
      Issue SaveOk 3 ''t2'' (eve_proof 3)]
     (demo_before\<lparr>ax_gate := snd (revokeSessions SaveOk ''eve'' (ax_gate demo_before))\<rparr>)"
    by code_simp
  from run_access_steps [OF access_steps.stay this] show ?thesis by (simp add: demo_after_def)
qed

definition answer_of :: "http_request \<Rightarrow> access \<Rightarrow> gate_answer" where
  "answer_of r w = fst (wrap gate_env SaveOk 4 r (ax_gate w))"

theorem revocation_is_final_witness:
  "case answer_of (web_request ''POST'' ''/api/deploy'' ''t2'') demo_after of
     PassAs s \<Rightarrow> list_all (\<lambda>pf. pf_epoch pf < se_epoch s) (ax_proofs demo_before) \<and>
       answer_of (web_request ''POST'' ''/api/deploy'' ''t1'') demo_before \<noteq> Reply 401 \<and>
       answer_of (web_request ''POST'' ''/api/deploy'' ''t1'') demo_after = Reply 401
   | _ \<Rightarrow> False"
proof -
  let ?r = "web_request ''POST'' ''/api/deploy'' ''t2''"
  have p: "case answer_of ?r demo_after of PassAs s \<Rightarrow> se_local s \<and> se_sub s = ''eve'' | _ \<Rightarrow> False"
    by code_simp
  then obtain s where s: "answer_of ?r demo_after = PassAs s" "se_local s = True" "se_sub s = ''eve''"
    by (auto split: gate_answer.splits)
  then obtain ck g'' where wr: "wrap (xc_env demo_access_cfg) SaveOk 4 ?r (ax_gate demo_after) = (PassAs s, ck, g'')"
    unfolding answer_of_def demo_access_cfg_def by (metis access_cfg.select_convs(2) fst_conv prod.exhaust)
  have adm: "admissible_access (Account (RevokeSessions ''eve'') SaveOk) demo_before" by code_simp
  have "fst (run_account (RevokeSessions ''eve'') SaveOk (ax_gate demo_before)) = None" by code_simp
  then have op: "run_account (RevokeSessions ''eve'') SaveOk (ax_gate demo_before) =
      (None, snd (revokeSessions SaveOk ''eve'' (ax_gate demo_before)))"
    by (metis prod.collapse run_account.simps(8))
  have ret: "retires (RevokeSessions ''eve'') = Some (True, ''eve'')" by simp
  note fin = revocation_is_final [OF demo_before_reachable adm op ret demo_after_steps wr s(2,3)]
  have "answer_of (web_request ''POST'' ''/api/deploy'' ''t1'') demo_before \<noteq> Reply 401 \<and>
       answer_of (web_request ''POST'' ''/api/deploy'' ''t1'') demo_after = Reply 401"
    by code_simp
  with fin s(1) show ?thesis by (simp add: list_all_iff)
qed

end
