(* ===== verification/AccessRoles.thy ===== *)
theory AccessRoles
  imports AccessControl
begin

text \<open>
  What does not depend on epochs: roles are normal in memory, and the last administrator stays
  through every operation, failing write and restart. From both: a viewer only reads, and the
  dashboard cannot lose its last administrator, though it can lose its capabilities.
\<close>

section \<open>Roles are normal\<close>

definition roles_ok :: "auth_gate \<Rightarrow> bool" where
  "roles_ok g \<longleftrightarrow> (\<forall>u\<in>snd ` set (g_users g). validRole (us_role u)) \<and>
     (\<forall>p\<in>snd ` set (g_principals g). validRole (pr_role p))"

lemma validRole_normalize [simp]: "validRole (normalizeRole r)" "validRole RoleAdmin"
  by (auto simp: validRole_def normalizeRole_def)

lemma normalize_valid: "validRole r \<Longrightarrow> normalizeRole r = r"
  by (auto simp: validRole_def normalizeRole_def)

lemma roles_commit_users:
  assumes "roles_ok g" and "\<forall>u\<in>snd ` set us. validRole (us_role u)"
  shows "roles_ok (snd (commit_users sv us e g))"
  using assms by (auto simp: commit_users_def saveUsersFile_def Let_def roles_ok_def split: save_outcome.splits)

lemma roles_commit_principals:
  assumes "roles_ok g" and "\<forall>p\<in>snd ` set ps. validRole (pr_role p)"
  shows "roles_ok (snd (commit_principals sv ps e g))"
  using assms by (auto simp: commit_principals_def saveUsersFile_def Let_def roles_ok_def split: save_outcome.splits)

lemma roles_okD:
  "roles_ok g \<Longrightarrow> \<forall>u\<in>snd ` set (g_users g). validRole (us_role u)"
  "roles_ok g \<Longrightarrow> \<forall>p\<in>snd ` set (g_principals g). validRole (pr_role p)"
  by (simp_all add: roles_ok_def)

lemma roles_put:
  "roles_ok g \<Longrightarrow> validRole (us_role u) \<Longrightarrow> \<forall>v\<in>snd ` set (mput n u (g_users g)). validRole (us_role v)"
proof
  fix v assume r: "roles_ok g" "validRole (us_role u)" and "v \<in> snd ` set (mput n u (g_users g))"
  then have "v = u \<or> v \<in> snd ` set (g_users g)" using subsetD [OF set_mput_snd] by fast
  with r roles_okD(1) show "validRole (us_role v)" by blast
qed

lemma roles_put_principal:
  "roles_ok g \<Longrightarrow> validRole (pr_role p) \<Longrightarrow> \<forall>v\<in>snd ` set (mput n p (g_principals g)). validRole (pr_role v)"
proof
  fix v assume r: "roles_ok g" "validRole (pr_role p)" and "v \<in> snd ` set (mput n p (g_principals g))"
  then have "v = p \<or> v \<in> snd ` set (g_principals g)" using subsetD [OF set_mput_snd] by fast
  with r roles_okD(2) show "validRole (pr_role v)" by blast
qed

lemma roles_row: "roles_ok g \<Longrightarrow> mget (g_users g) n = Some u \<Longrightarrow> validRole (us_role u)"
  "roles_ok g \<Longrightarrow> mget (g_principals g) n = Some p \<Longrightarrow> validRole (pr_role p)"
  by (force simp: roles_ok_def dest: mget_SomeD)+

lemma roles_put_commit:
  "roles_ok g \<Longrightarrow> validRole (us_role u) \<Longrightarrow> roles_ok (snd (commit_users sv (mput n u (g_users g)) e g))"
  by (rule roles_commit_users [OF _ roles_put])

lemma roles_put_commit_principal:
  "roles_ok g \<Longrightarrow> validRole (pr_role p) \<Longrightarrow>
   roles_ok (snd (commit_principals sv (mput n p (g_principals g)) e g))"
  by (rule roles_commit_principals [OF _ roles_put_principal])

lemma roles_put_commitD:
  "commit_users sv (mput n u (g_users g)) e g = (x, g1) \<Longrightarrow> roles_ok g \<Longrightarrow> validRole (us_role u) \<Longrightarrow> roles_ok g1"
  using roles_put_commit [of g u sv n e] by simp

lemma roles_setup [simp]: "roles_ok (g\<lparr>g_setup := b\<rparr>) = roles_ok g"
  by (simp add: roles_ok_def)

lemma roles_account: "roles_ok g \<Longrightarrow> roles_ok (snd (run_account oper sv g))"
proof (cases oper)
  case (DeleteUser n)
  assume "roles_ok g"
  then have "\<forall>v\<in>snd ` set (mdel n (g_users g)). validRole (us_role v)"
    using roles_okD(1) subsetD [OF mdel_subset, of _ n "g_users g"] by blast
  then show ?thesis using \<open>roles_ok g\<close> DeleteUser
    by (auto simp: deleteUser_def split: option.splits intro: roles_commit_users)
next
  case (CreateUser h n p r)
  assume g: "roles_ok g"
  let ?u = "\<lparr>us_name = trim_space n, us_hash = the h, us_role = normalizeRole r, us_epoch = g_epoch g + 1,
    us_profile = profilePreset, us_caps = []\<rparr>"
  have "roles_ok (snd (commit_users sv (mput (trim_space n) ?u (g_users g)) (g_epoch g + 1) g))"
    using g by (rule roles_put_commit) simp
  then show ?thesis using g CreateUser
    by (auto simp: createUser_def Let_def split: option.splits prod.splits dest: roles_put_commitD)
next
  case (MigrateEnv h n p)
  assume g: "roles_ok g"
  let ?u = "\<lparr>us_name = n, us_hash = the h, us_role = RoleAdmin, us_epoch = g_epoch g + 1,
    us_profile = [], us_caps = []\<rparr>"
  have "roles_ok (snd (commit_users sv (mput n ?u (g_users g)) (g_epoch g + 1) g))"
    using g by (rule roles_put_commit) simp
  then show ?thesis using g MigrateEnv roles_row(1) [OF g]
    by (auto simp: setPasswordMigratingEnv_def Let_def roles_put_commit split: option.splits prod.splits
        dest: roles_put_commitD)
next
  case (RevokePrincipal s)
  assume g: "roles_ok g"
  then show ?thesis using RevokePrincipal roles_row(2) [OF g]
    by (auto simp: revokePrincipalSessions_def Let_def split: option.splits
        intro!: roles_put_commit_principal)
qed (auto simp: setPasswordCAS_def setRole_def narrowToPreset_def setCapabilities_def revokeSessions_def Let_def
    roles_put_commit roles_row split: option.splits)

lemma roles_upsert: "roles_ok g \<Longrightarrow> roles_ok (snd (upsertOIDCPrincipal sv today s n em r g))"
proof -
  assume g: "roles_ok g"
  have new: "roles_ok (snd (commit_principals sv (mput s p (g_principals g)) e g))" if "validRole (pr_role p)" for p e
    by (rule roles_commit_principals [OF g roles_put_principal [OF g that]])
  have edit: "roles_ok (g\<lparr>g_disk := d, g_principals := mput s p (g_principals g)\<rparr>)" if "validRole (pr_role p)" for p d
    using roles_put_principal [OF g that] g by (simp add: roles_ok_def)
  have disk: "roles_ok (g\<lparr>g_disk := d\<rparr>)" for d using g by (simp add: roles_ok_def)
  show ?thesis
  proof (cases "mget (g_principals g) s")
    case (Some p)
    then show ?thesis using g edit disk
      by (auto simp: upsertOIDCPrincipal_def saveUsersFile_def Let_def split: save_outcome.splits)
  next
    case None
    let ?p = "\<lparr>pr_subject = s, pr_username = n, pr_email = em, pr_role = normalizeRole r, pr_epoch = g_epoch g + 1,
      pr_last = today, pr_profile = profilePreset, pr_caps = []\<rparr>"
    obtain e1 g1 where c: "commit_principals sv (mput s ?p (g_principals g)) (g_epoch g + 1) g = (e1, g1)" by force
    have "roles_ok g1" using new [of ?p "g_epoch g + 1"] c by simp
    then show ?thesis using g None c
      by (cases e1) (simp_all add: upsertOIDCPrincipal_def Let_def)
  qed
qed

lemma roles_session_step: "session_step new g g' \<Longrightarrow> roles_ok g \<Longrightarrow> roles_ok g'"
  by (simp add: session_step_def same_accounts_def roles_ok_def)

lemma load_users_roles:
  "\<forall>u\<in>snd ` set m. validRole (us_role u) \<Longrightarrow> load_users us m = (b, m') \<Longrightarrow> \<forall>u\<in>snd ` set m'. validRole (us_role u)"
proof (induction us m rule: load_users.induct)
  case (2 u us m)
  have "\<forall>v\<in>snd ` set (mput (us_name u)
      (u\<lparr>us_role := normalizeRole (us_role u), us_caps := Normalize (us_caps u)\<rparr>) m). validRole (us_role v)"
    using set_mput_snd 2(2) by fastforce
  with 2 show ?case by (auto split: if_splits)
qed auto

lemma load_principals_roles:
  "\<forall>u\<in>snd ` set m. validRole (pr_role u) \<Longrightarrow> load_principals us m = (b, m') \<Longrightarrow>
   \<forall>u\<in>snd ` set m'. validRole (pr_role u)"
proof (induction us m rule: load_principals.induct)
  case (2 u us m)
  have "\<forall>v\<in>snd ` set (mput (pr_subject u)
      (u\<lparr>pr_role := normalizeRole (pr_role u), pr_caps := Normalize (pr_caps u)\<rparr>) m). validRole (pr_role v)"
    using set_mput_snd 2(2) by fastforce
  with 2 show ?case by (auto split: if_splits)
qed auto

lemma roles_loadUsers:
  assumes "g_users g = []" "g_principals g = []"
  shows "roles_ok (snd (loadUsers sv g))"
proof (cases "ad_users (g_disk g)")
  case (Holds f)
  obtain b us where u: "load_users (uf_users f) [] = (b, us)" by force
  obtain c ps where p: "load_principals (uf_principals f) [] = (c, ps)" by force
  have "\<forall>v\<in>snd ` set us. validRole (us_role v)" "\<forall>v\<in>snd ` set ps. validRole (pr_role v)"
    using load_users_roles [OF _ u] load_principals_roles [OF _ p] by simp_all
  then show ?thesis using assms Holds u p
    by (cases b; cases c) (simp_all add: loadUsers_def load_file_def roles_ok_def Let_def)
qed (use assms in \<open>auto simp: loadUsers_def saveUsersFile_def roles_ok_def Let_def
    split: stored_file.splits save_outcome.splits prod.splits\<close>)

lemma roles_start: "roles_ok (start_gate sso io user pass d)"
proof -
  obtain ss where ss: "loadSessions (bi_now io) (empty_gate user pass d) = (empty_gate user pass d)\<lparr>g_sessions := ss\<rparr>"
    by (rule loadSessions_spec [of "empty_gate user pass d" "bi_now io"]) simp_all
  obtain res g1 where l: "loadUsers (bi_save io) ((empty_gate user pass d)\<lparr>g_sessions := ss\<rparr>) = (res, g1)" by force
  have g1: "roles_ok g1"
    using roles_loadUsers [of "(empty_gate user pass d)\<lparr>g_sessions := ss\<rparr>" "bi_save io"] l by simp
  have m: "roles_ok (snd (materializeEnvBootstrap h sv n g1))" for h sv n
  proof (cases h)
    case (Some k)
    let ?u = "\<lparr>us_name = n, us_hash = k, us_role = RoleAdmin, us_epoch = 1, us_profile = [], us_caps = []\<rparr>"
    obtain e2 g2 where c: "commit_users sv (mput n ?u (g_users g1)) 1 g1 = (e2, g2)" by force
    have "roles_ok g2" using roles_put_commit [OF g1, of ?u sv n 1] c by simp
    then show ?thesis using Some c by (cases e2) (simp_all add: materializeEnvBootstrap_def Let_def)
  qed (use g1 in \<open>simp add: materializeEnvBootstrap_def\<close>)
  have "roles_ok (newAuthGate io user pass d)"
  proof (cases "res = NoUsers \<and> pass \<noteq> []")
    case True
    let ?n = "if trim_space user = [] then ''admin'' else trim_space user"
    obtain b g2 where c: "materializeEnvBootstrap (bi_hash io) (bi_save io) ?n g1 = (b, g2)" by force
    have "roles_ok g2" using m [of "bi_hash io" "bi_save io" ?n] c by simp
    then show ?thesis using True c
      by (cases b) (simp_all add: newAuthGate_def ss l Let_def roles_ok_def)
  next
    case False
    then show ?thesis using g1 ss l by (cases res) (simp_all add: newAuthGate_def Let_def roles_ok_def)
  qed
  then show ?thesis by (simp add: start_gate_def Let_def roles_ok_def)
qed

lemma roles_perform: "roles_ok (ax_gate w) \<Longrightarrow> roles_ok (ax_gate (perform_access cfg a w))"
proof (cases a)
  case (Account oper sv)
  then show "roles_ok (ax_gate w) \<Longrightarrow> ?thesis" by (simp add: roles_account)
next
  case (SsoSignIn sv today s n em r)
  then show "roles_ok (ax_gate w) \<Longrightarrow> ?thesis"
    using roles_upsert [of "ax_gate w" sv today s n em r] by (auto split: prod.splits sum.splits)
next
  case (Issue sv now token pf)
  then show "roles_ok (ax_gate w) \<Longrightarrow> ?thesis" using roles_session_step [OF newSessionFor_step] by simp
next
  case (Request sv now q)
  obtain an b g where u: "wrap (xc_env cfg) sv now q (ax_gate w) = (an, b, g)" by (metis prod.exhaust)
  have "session_step {} (ax_gate w) g" using wrap_step [of "{}" "ax_gate w" "xc_env cfg" sv now q] u by simp
  from roles_session_step [OF this] Request u show "roles_ok (ax_gate w) \<Longrightarrow> ?thesis" by simp
next
  case (Restart sso io user pass)
  then show "roles_ok (ax_gate w) \<Longrightarrow> ?thesis" by (simp add: roles_start)
qed (simp_all split: option.split
    add: roles_session_step [OF deleteSession_step [of "{}"]] roles_session_step [OF deleteUserSessions_step [of "{}"]],
    simp_all add: roles_ok_def recordSuccess_def recordFail_def Let_def)

lemma roles_reachable: "access_reachable cfg w \<Longrightarrow> roles_ok (ax_gate w)"
proof -
  have "access_steps cfg w0 w \<Longrightarrow> roles_ok (ax_gate w0) \<Longrightarrow> roles_ok (ax_gate w)" for w0
    by (induction rule: access_steps.induct) (auto intro: roles_perform)
  then show "access_reachable cfg w \<Longrightarrow> ?thesis" by (auto simp: access_reachable_def roles_start)
qed

section \<open>Mediation\<close>

text \<open>The capabilities an account has now, if it exists with that epoch.\<close>

definition current_caps :: "auth_gate \<Rightarrow> session \<Rightarrow> cap_set option" where
  "current_caps g s =
     (if se_local s then
        (case mget (g_users g) (se_sub s) of None \<Rightarrow> None
         | Some u \<Rightarrow> if us_epoch u = se_epoch s
             then Some (capabilitiesForProfile (us_profile u) (us_caps u) (us_role u)) else None)
      else
        (case mget (g_principals g) (se_sub s) of None \<Rightarrow> None
         | Some p \<Rightarrow> if pr_epoch p = se_epoch s
             then Some (capabilitiesForProfile (pr_profile p) (pr_caps p) (pr_role p)) else None))"

lemma live_session_caps: "live_session g stored = Some s \<Longrightarrow> current_caps g s = Some (se_caps s)"
  by (auto simp: live_session_def current_caps_def split: if_splits option.splits)

definition open_path :: "auth_gate \<Rightarrow> string \<Rightarrow> bool" where
  "open_path g path \<longleftrightarrow>
     (if g_setup g then path \<in> set setup_paths
      else path \<in> set public_paths \<or> path \<in> {''/oidc/login'', ''/oidc/callback''} \<or>
        prefix ''/api/push/'' path \<or> prefix ''/hooks/sources/'' path)"

lemma authorize_allows:
  "authorize r s = PassAs s' \<Longrightarrow> Missing (se_caps s) (requiredCapabilities (hr_method r) (hr_path r)) = [] \<and>
     (hr_same_origin r \<or> \<not> isMutating (hr_method r))"
  by (auto simp: authorize_def csrf_guard_def split: if_splits)

text \<open>
  C6. The gate mediates completely. A request reaches its handler only on the public paths
  without an identity, or with the identity of a session that is stored under the digest of
  its cookie and has not expired, whose account exists now with the session's epoch, and whose
  capabilities, derived from that account now, contain everything the route requires; and a
  mutating one only from the same origin. While the store could not be loaded nothing but the
  liveness probes is served.
\<close>

theorem gate_mediates_completely:
  "case fst (wrap env sv now r g) of
     PassAs s \<Rightarrow>
       (\<exists>token stored. hr_cookie r = Some token \<and> mget (g_sessions g) (we_digest env token) = Some stored \<and>
          now \<le> se_exp stored \<and> se_sub s = se_sub stored \<and> se_local s = se_local stored \<and>
          se_epoch s = se_epoch stored) \<and>
       current_caps g s = Some (se_caps s) \<and>
       list_all (Allow (se_caps s)) (requiredCapabilities (hr_method r) (hr_path r)) \<and>
       (hr_same_origin r \<or> \<not> isMutating (hr_method r)) \<and> \<not> g_init_err g \<and> \<not> g_setup g
   | PassAnonymous \<Rightarrow> open_path g (hr_path r) \<and>
       (g_init_err g \<longrightarrow> hr_path r \<in> {''/api/health'', ''/healthz'', ''/readyz''})
   | _ \<Rightarrow> True"
proof -
  obtain a ck g' where w: "wrap env sv now r g = (a, ck, g')" by (metis prod.exhaust)
  show ?thesis
  proof (cases a)
    case (PassAs s)
    note p = w [unfolded PassAs]
    obtain c1 where ws: "wrap_session env sv now r g = (Some s, c1, g')" using wrap_PassAs(2) [OF p] by blast
    obtain token stored where t: "hr_cookie r = Some token" "mget (g_sessions g) (we_digest env token) = Some stored"
      "now \<le> se_exp stored" "live_session g stored = Some s"
      by (rule wrap_session_Some [OF ws])
    from authorize_allows [OF wrap_PassAs(3) [OF p]] show ?thesis
      using w PassAs t live_session_same [OF t(4)] live_session_caps [OF t(4)] wrap_PassAs(1) [OF p]
        wrap_init_err_PassAs [OF p]
      by (auto simp: Missing_empty_iff list_all_iff)
  next
    case PassAnonymous
    then have "open_path g (hr_path r) \<and> (g_init_err g \<longrightarrow> hr_path r \<in> {''/api/health'', ''/healthz'', ''/readyz''})"
      using w by (auto simp: wrap_def Let_def open_path_def csrf_guard_def unauthenticated_def authorize_def
          split: if_splits option.splits prod.splits)
    then show ?thesis using w PassAnonymous by simp
  qed (use w in simp_all)
qed

theorem gate_mediates_completely_witness:
  "case answer_of (web_request ''POST'' ''/api/deploy'' ''t2'') demo_after of
     PassAs s \<Rightarrow> current_caps (ax_gate demo_after) s = Some OperatorDefault \<and>
       list_all (Allow (se_caps s)) [ExecuteDeploy] \<and> \<not> g_setup (ax_gate demo_after)
   | _ \<Rightarrow> False"
proof -
  let ?r = "web_request ''POST'' ''/api/deploy'' ''t2''"
  have e: "case answer_of ?r demo_after of PassAs s \<Rightarrow> se_caps s = OperatorDefault | _ \<Rightarrow> False" by code_simp
  then obtain s where s: "answer_of ?r demo_after = PassAs s" "se_caps s = OperatorDefault"
    by (auto split: gate_answer.splits)
  have q: "requiredCapabilities (hr_method ?r) (hr_path ?r) = [ExecuteDeploy]" by code_simp
  from gate_mediates_completely [where env = gate_env and sv = SaveOk and now = 4 and r = ?r and
      g = "ax_gate demo_after"] s q show ?thesis
    by (simp add: answer_of_def)
qed

text \<open>
  C10. Viewers only read. In every reachable state a mutating request under an account of the
  role viewer whose capabilities were not granted one by one (the preset of the role, or the
  legacy profile of an old account) passes the gate only on the routes whose handlers read
  and on the account's own password.
\<close>

theorem viewers_only_read:
  assumes "access_reachable cfg w"
    and "wrap (xc_env cfg) sv now r (ax_gate w) = (PassAs s, ck, g')"
    and "isMutating (hr_method r)" and "prefix ''/api/'' (hr_path r)"
    and "se_role s = RoleViewer" and "se_basis s \<noteq> profileCustom"
  shows "reading_route (hr_path r)"
proof (rule ccontr)
  assume n: "\<not> reading_route (hr_path r)"
  let ?g = "ax_gate w"
  have "writes (requiredCapabilities (hr_method r) (hr_path r))" by (rule mutation_writes [OF assms(3,4) n])
  then obtain c where c: "c \<in> set writing_caps" "requiredCapabilities (hr_method r) (hr_path r) = [c]"
    by (auto simp: writes_def list_ex_iff)
  obtain c1 where ws: "wrap_session (xc_env cfg) sv now r ?g = (Some s, c1, g')"
    using wrap_PassAs(2) [OF assms(2)] by blast
  obtain token stored where t: "live_session ?g stored = Some s" by (rule wrap_session_Some [OF ws])
  have ro: "roles_ok ?g" by (rule roles_reachable [OF assms(1)])
  have "se_caps s = ViewerDefault \<or> se_caps s = LegacyForRole ''viewer''"
    using t assms(5,6) roles_row [OF ro]
    by (auto simp: live_session_def capBasisForProfile_def capabilitiesForProfile_def normalize_valid
        PresetForRole_def role_names profile_names split: if_splits option.splits)
  then have "\<not> Allow (se_caps s) c" using viewer_lacks_writing_caps [OF c(1)] by auto
  moreover have "Allow (se_caps s) c"
    using authorize_allows [OF wrap_PassAs(3) [OF assms(2)]] c(2) by (simp add: Missing_empty_iff)
  ultimately show False ..
qed

definition viewer_run :: "access_act list" where
  "viewer_run = [Account (CreateUser (Some ''vicpassword'') ''vic'' ''vicpassword'' ''viewer'') SaveOk,
      SignIn ''vic'' ''vicpassword'',
      Issue SaveOk 1 ''t3'' \<lparr>pf_sub = ''vic'', pf_user = ''vic'', pf_role = ''viewer'', pf_epoch = 2, pf_local = True\<rparr>]"

lemma demo_access_reachable: "access_reachable demo_access_cfg demo_start"
proof -
  have "auth_disk_ok empty_disk" by (simp add: auth_disk_ok_def empty_disk_def disk_sessions_def)
  then show ?thesis unfolding access_reachable_def demo_start_def by (blast intro: access_steps.stay)
qed

lemma run_access_reachable:
  assumes "access_reachable demo_access_cfg w" and "admissible_run as w"
  shows "access_reachable demo_access_cfg (run_access as w)"
  using assms(1) run_access_steps [OF _ assms(2)] unfolding access_reachable_def by blast

theorem viewers_only_read_witness:
  "(case answer_of (web_request ''POST'' ''/api/auth/password'' ''t3'') (run_access viewer_run demo_start) of
      PassAs s \<Rightarrow> se_role s = RoleViewer | _ \<Rightarrow> False) \<and>
   reading_route ''/api/auth/password'' \<and>
   answer_of (web_request ''POST'' ''/api/deploy'' ''t3'') (run_access viewer_run demo_start) = Reply 403"
proof -
  let ?w = "run_access viewer_run demo_start" and ?r = "web_request ''POST'' ''/api/auth/password'' ''t3''"
  have e: "case answer_of ?r ?w of PassAs s \<Rightarrow> se_role s = RoleViewer \<and> se_basis s \<noteq> profileCustom | _ \<Rightarrow> False"
    by code_simp
  then obtain s where s: "answer_of ?r ?w = PassAs s" "se_role s = RoleViewer" "se_basis s \<noteq> profileCustom"
    by (auto split: gate_answer.splits)
  then obtain ck g' where wr: "wrap (xc_env demo_access_cfg) SaveOk 4 ?r (ax_gate ?w) = (PassAs s, ck, g')"
    unfolding answer_of_def demo_access_cfg_def by (metis access_cfg.select_convs(2) fst_conv prod.exhaust)
  have "admissible_run viewer_run demo_start" by code_simp
  from run_access_reachable [OF demo_access_reachable this]
  have re: "access_reachable demo_access_cfg ?w" .
  have m: "isMutating (hr_method ?r)" "prefix ''/api/'' (hr_path ?r)" by code_simp+
  have "reading_route ''/api/auth/password''"
    using viewers_only_read [OF re wr m s(2,3)] by (simp add: web_request_def)
  moreover have "answer_of (web_request ''POST'' ''/api/deploy'' ''t3'') ?w = Reply 403" by code_simp
  ultimately show ?thesis using s by simp
qed

section \<open>The last administrator\<close>

definition has_admin :: "(string, dash_user) gomap \<Rightarrow> bool" where
  "has_admin us \<longleftrightarrow> (\<exists>k u. mget us k = Some u \<and> us_role u = RoleAdmin)"

text \<open>What a start would load: a file with an administrator, or the single user of old versions.\<close>

definition admin_on_disk :: "auth_disk \<Rightarrow> bool" where
  "admin_on_disk d \<longleftrightarrow>
     (case ad_users d of Holds f \<Rightarrow> (\<exists>u\<in>set (uf_users f). us_role u = RoleAdmin) | Broken \<Rightarrow> False
      | Absent \<Rightarrow> (\<exists>n h. ad_legacy d = Holds (n, h) \<and> h \<noteq> []))"

definition admin_kept :: "auth_gate \<Rightarrow> bool" where
  "admin_kept g \<longleftrightarrow> has_admin (g_users g) \<and> admin_on_disk (g_disk g) \<and> \<not> g_init_err g"

lemma admin_on_disk_simps [simp]:
  "admin_on_disk (d\<lparr>ad_users := Holds (users_image us ps e)\<rparr>) \<longleftrightarrow> (\<exists>u\<in>snd ` set us. us_role u = RoleAdmin)"
  "admin_on_disk (d\<lparr>ad_sessions := s\<rparr>) = admin_on_disk d"
  by (auto simp: admin_on_disk_def users_image_def split: stored_file.splits)

lemma has_admin_row: "has_admin us \<Longrightarrow> \<exists>u\<in>snd ` set us. us_role u = RoleAdmin"
  by (force simp: has_admin_def dest: mget_SomeD)

lemma kept_commit_users: "admin_kept g \<Longrightarrow> has_admin us \<Longrightarrow> admin_kept (snd (commit_users sv us e g))"
  by (cases sv) (auto simp: commit_users_def saveUsersFile_def Let_def admin_kept_def dest: has_admin_row)

lemma kept_commit_usersD:
  "commit_users sv us e g = (x, g1) \<Longrightarrow> admin_kept g \<Longrightarrow> has_admin us \<Longrightarrow> admin_kept g1"
  using kept_commit_users [of g us sv e] by simp

lemma kept_commit_principals: "admin_kept g \<Longrightarrow> admin_kept (snd (commit_principals sv ps e g))"
  by (cases sv) (auto simp: commit_principals_def saveUsersFile_def Let_def admin_kept_def dest: has_admin_row)

lemma has_admin_put: "has_admin us \<Longrightarrow> us_role u = RoleAdmin \<or> mget us n = None \<Longrightarrow> has_admin (mput n u us)"
  unfolding has_admin_def by (metis mget_mput option.distinct(1))

lemma has_admin_edit:
  "has_admin us \<Longrightarrow> mget us n = Some u \<Longrightarrow> us_role u' = us_role u \<Longrightarrow> has_admin (mput n u' us)"
  unfolding has_admin_def by (metis mget_mput option.inject)

text \<open>With two administrators one of them is somebody else.\<close>

lemma other_admin:
  assumes "1 < count_vals (\<lambda>u. us_role u = RoleAdmin) us" and "gomap_ok us"
  shows "\<exists>k u. k \<noteq> n \<and> mget us k = Some u \<and> us_role u = RoleAdmin"
proof (rule ccontr)
  assume no: "\<not> ?thesis"
  let ?as = "filter ((\<lambda>u. us_role u = RoleAdmin) \<circ> snd) us"
  have "fst b = n" if "b \<in> set ?as" for b
    using that no assms(2) mem_gomap_iff [OF assms(2), of "fst b" "snd b"] by auto
  moreover have "distinct (map fst ?as)" using assms(2) by (simp add: gomap_ok_def distinct_map_filter)
  ultimately have "length ?as \<le> 1"
    by (cases ?as rule: list.exhaust; cases "tl ?as"; auto)
  with assms(1) show False by (simp add: count_vals_def)
qed

lemma kept_edit:
  "admin_kept g \<Longrightarrow> mget (g_users g) n = Some u \<Longrightarrow> us_role u' = us_role u \<Longrightarrow>
   admin_kept (snd (commit_users sv (mput n u' (g_users g)) e g))"
  by (rule kept_commit_users, assumption, rule has_admin_edit) (auto simp: admin_kept_def)

lemma kept_account:
  assumes g: "admin_kept g" and ok: "gomap_ok (g_users g)"
  shows "admin_kept (snd (run_account oper sv g))"
proof (cases oper)
  case (CreateUser h n p r)
  then show ?thesis using g
    by (auto simp: createUser_def Let_def split: option.splits prod.splits
        dest!: kept_commit_usersD [OF _ g has_admin_put])
      (auto simp: admin_kept_def)
next
  case (SetRole n r)
  have "has_admin (mput n (u\<lparr>us_role := normalizeRole r, us_epoch := e\<rparr>) (g_users g))"
    if u: "mget (g_users g) n = Some u"
      and no: "\<not> (us_role u = RoleAdmin \<and> normalizeRole r \<noteq> RoleAdmin \<and> countAdminsLocked g \<le> 1)" for u e
  proof (cases "us_role u = RoleAdmin \<and> normalizeRole r \<noteq> RoleAdmin")
    case True
    then have "1 < count_vals (\<lambda>u. us_role u = RoleAdmin) (g_users g)"
      using no by (simp add: countAdminsLocked_def)
    from other_admin [OF this ok, of n] show ?thesis by (auto simp: has_admin_def)
  next
    case False
    then consider "normalizeRole r = RoleAdmin" | "us_role u \<noteq> RoleAdmin" by blast
    then show ?thesis
    proof cases
      case 1
      then show ?thesis by (auto simp: has_admin_def intro!: exI [of _ n])
    next
      case 2
      obtain k v where "mget (g_users g) k = Some v" "us_role v = RoleAdmin"
        using g by (auto simp: admin_kept_def has_admin_def)
      with 2 u show ?thesis by (auto simp: has_admin_def intro!: exI [of _ k])
    qed
  qed
  then show ?thesis using g SetRole
    by (auto simp: setRole_def Let_def split: option.splits intro!: kept_commit_users)
next
  case (DeleteUser n)
  have "has_admin (mdel n (g_users g))"
    if u: "mget (g_users g) n = Some u" and no: "\<not> (us_role u = RoleAdmin \<and> countAdminsLocked g \<le> 1)" for u
  proof (cases "us_role u = RoleAdmin")
    case True
    then have "1 < count_vals (\<lambda>u. us_role u = RoleAdmin) (g_users g)" using no by (simp add: countAdminsLocked_def)
    from other_admin [OF this ok, of n] show ?thesis by (auto simp: has_admin_def)
  next
    case False
    obtain k v where "mget (g_users g) k = Some v" "us_role v = RoleAdmin"
      using g by (auto simp: admin_kept_def has_admin_def)
    with False u show ?thesis by (auto simp: has_admin_def intro!: exI [of _ k])
  qed
  then show ?thesis using g DeleteUser
    by (auto simp: deleteUser_def split: option.splits intro!: kept_commit_users)
next
  case (MigrateEnv h n p)
  have su: "admin_kept (g1\<lparr>g_setup := b\<rparr>) = admin_kept g1" for g1 b by (simp add: admin_kept_def)
  have new: "admin_kept (snd (commit_users sv (mput n u (g_users g)) e g))" if "us_role u = RoleAdmin" for u e
    by (rule kept_commit_users [OF g]) (use that in \<open>auto simp: has_admin_def intro!: exI [of _ n]\<close>)
  show ?thesis
  proof (cases "mget (g_users g) n")
    case None
    let ?u = "\<lparr>us_name = n, us_hash = the h, us_role = RoleAdmin, us_epoch = g_epoch g + 1,
      us_profile = [], us_caps = []\<rparr>"
    obtain x g1 where c: "commit_users sv (mput n ?u (g_users g)) (g_epoch g + 1) g = (x, g1)" by force
    have "admin_kept g1" using new [of ?u "g_epoch g + 1"] c by simp
    then show ?thesis using g MigrateEnv None c
      by (cases x) (auto simp: setPasswordMigratingEnv_def Let_def su split: option.splits)
  next
    case (Some u)
    then show ?thesis using g MigrateEnv
      by (auto simp: setPasswordMigratingEnv_def Let_def split: option.splits intro!: kept_edit)
  qed
next
  case (RevokePrincipal s)
  then show ?thesis using g
    by (auto simp: revokePrincipalSessions_def Let_def kept_commit_principals split: option.splits)
qed (use g in \<open>auto simp: setPasswordCAS_def narrowToPreset_def setCapabilities_def revokeSessions_def Let_def
    split: option.splits intro!: kept_edit\<close>)

lemma kept_upsert: "admin_kept g \<Longrightarrow> admin_kept (snd (upsertOIDCPrincipal sv today s n em r g))"
proof (cases "mget (g_principals g) s")
  case (Some p)
  then show "admin_kept g \<Longrightarrow> ?thesis"
    by (cases sv) (auto simp: upsertOIDCPrincipal_def saveUsersFile_def Let_def admin_kept_def dest: has_admin_row)
next
  case None
  let ?p = "\<lparr>pr_subject = s, pr_username = n, pr_email = em, pr_role = normalizeRole r, pr_epoch = g_epoch g + 1,
      pr_last = today, pr_profile = profilePreset, pr_caps = []\<rparr>"
  assume g: "admin_kept g"
  obtain e1 g1 where c: "commit_principals sv (mput s ?p (g_principals g)) (g_epoch g + 1) g = (e1, g1)" by force
  have "admin_kept g1" using kept_commit_principals [OF g, of sv "mput s ?p (g_principals g)" "g_epoch g + 1"] c by simp
  then show ?thesis using g None c by (cases e1) (simp_all add: upsertOIDCPrincipal_def Let_def)
qed

lemma admin_on_disk_cong:
  "ad_users d' = ad_users d \<Longrightarrow> ad_legacy d' = ad_legacy d \<Longrightarrow> admin_on_disk d' = admin_on_disk d"
  by (auto simp: admin_on_disk_def split: stored_file.splits)

lemma kept_session_step: "session_step new g g' \<Longrightarrow> admin_kept g \<Longrightarrow> admin_kept g'"
  by (simp add: session_step_def same_accounts_def admin_kept_def admin_on_disk_cong [of "g_disk g'" "g_disk g"])

lemma kept_restart:
  assumes d: "auth_disk_ok d" and a: "admin_on_disk d"
  shows "admin_kept (start_gate sso io user pass d)"
proof -
  obtain ss where ss: "loadSessions (bi_now io) (empty_gate user pass d) = (empty_gate user pass d)\<lparr>g_sessions := ss\<rparr>"
    by (rule loadSessions_spec [of "empty_gate user pass d" "bi_now io"]) simp_all
  let ?g0 = "(empty_gate user pass d)\<lparr>g_sessions := ss\<rparr>"
  have "admin_kept (newAuthGate io user pass d)"
  proof (cases "ad_users d")
    case (Holds h)
    then have rows: "rows_ok h" using d by (simp add: auth_disk_ok_def)
    obtain u0 where u0: "u0 \<in> set (uf_users h)" "us_role u0 = RoleAdmin" using a Holds by (auto simp: admin_on_disk_def)
    obtain us where us: "load_users (uf_users h) [] = (True, us)"
      "\<forall>k u. mget us k = Some u \<longleftrightarrow> (\<exists>u0\<in>set (uf_users h). us_name u0 = k \<and> u = norm_user u0)"
      using load_users_spec [of "uf_users h" "[]"] rows by (auto simp: rows_ok_def)
    obtain ps where ps: "load_principals (uf_principals h) [] = (True, ps)"
      using load_principals_spec [of "uf_principals h" "[]"] rows by (auto simp: rows_ok_def)
    have row: "mget us (us_name u0) = Some (norm_user u0)" using us(2) u0(1) by blast
    moreover have "us_role (norm_user u0) = RoleAdmin" using u0(2) by (simp add: norm_user_def normalizeRole_def)
    ultimately have ha: "has_admin us" by (auto simp: has_admin_def)
    have "us \<noteq> []" using row by auto
    then show ?thesis using Holds us(1) ps ha a
      by (simp add: newAuthGate_def ss loadUsers_def load_file_def Let_def admin_kept_def)
  next
    case Absent
    obtain n h where l: "ad_legacy d = Holds (n, h)" "h \<noteq> []" using a Absent by (auto simp: admin_on_disk_def)
    then show ?thesis using Absent a
      by (cases "bi_save io")
        (auto simp: newAuthGate_def ss loadUsers_def saveUsersFile_def Let_def admin_kept_def has_admin_def)
  qed (use a in \<open>simp add: admin_on_disk_def\<close>)
  then show ?thesis by (simp add: start_gate_def Let_def admin_kept_def)
qed

lemma kept_perform:
  assumes w: "access_ok w" and k: "admin_kept (ax_gate w)"
  shows "admin_kept (ax_gate (perform_access cfg a w))"
proof (cases a)
  case (Account oper sv)
  have "gomap_ok (g_users (ax_gate w))"
    using w k by (simp add: access_ok_def admin_kept_def memory_ok_def keyed_users_def)
  from kept_account [OF k this] Account show ?thesis by simp
next
  case (SsoSignIn sv today s n em r)
  then show ?thesis using kept_upsert [OF k, of sv today s n em r] by (auto split: prod.splits sum.splits)
next
  case (Issue sv now token pf)
  then show ?thesis using kept_session_step [OF newSessionFor_step k] by simp
next
  case (Request sv now q)
  obtain an b g where u: "wrap (xc_env cfg) sv now q (ax_gate w) = (an, b, g)" by (metis prod.exhaust)
  have "session_step {} (ax_gate w) g" using wrap_step [of "{}" "ax_gate w" "xc_env cfg" sv now q] u by simp
  from kept_session_step [OF this k] Request u show ?thesis by simp
next
  case (Restart sso io user pass)
  then show ?thesis using kept_restart w k by (simp add: access_ok_def admin_kept_def)
next
  case (Attempt now ip ok)
  then show ?thesis using k by (simp add: admin_kept_def recordSuccess_def recordFail_def Let_def)
qed (use k in \<open>simp_all split: option.split add: kept_session_step [OF deleteSession_step [of "{}"]]
    kept_session_step [OF deleteUserSessions_step [of "{}"]]\<close>)

lemma kept_steps: "access_steps cfg w w' \<Longrightarrow> access_ok w \<Longrightarrow> admin_kept (ax_gate w) \<Longrightarrow> admin_kept (ax_gate w')"
  by (induction rule: access_steps.induct) (auto intro: kept_perform dest: access_steps_ok)

lemma has_admin_count: "has_admin us \<Longrightarrow> 1 \<le> count_vals (\<lambda>u. us_role u = RoleAdmin) us"
  by (auto simp: has_admin_def count_vals_def Suc_le_eq length_greater_0_conv filter_empty_conv dest!: mget_SomeD
      intro: bexI [of _ "(_, _)"])

text \<open>
  C8. An administrator stays. Once a gate with an administrator in memory and in its file has
  come up, every later state, through any changes of accounts, crashes, restarts and failing
  writes, has one too, and every later start finds a store it can load.
\<close>

theorem an_administrator_stays:
  assumes "access_reachable cfg w" and "admin_kept (ax_gate w)" and "access_steps cfg w w'"
  shows "1 \<le> countAdminsLocked (ax_gate w') \<and> \<not> g_init_err (ax_gate w') \<and>
    \<not> g_init_err (start_gate sso io user pass (g_disk (ax_gate w')))"
proof -
  have ok: "access_ok w" by (rule access_reachable_ok) fact
  have k: "admin_kept (ax_gate w')" by (rule kept_steps [OF assms(3) ok assms(2)])
  have "auth_disk_ok (g_disk (ax_gate w'))" using access_steps_ok [OF assms(3) ok] by (simp add: access_ok_def)
  then have "admin_kept (start_gate sso io user pass (g_disk (ax_gate w')))"
    by (rule kept_restart) (use k in \<open>simp add: admin_kept_def\<close>)
  with k show ?thesis by (simp add: admin_kept_def countAdminsLocked_def has_admin_count [simplified])
qed

definition demoted :: access where
  "demoted = run_access [Account (SetRole ''root'' ''viewer'') SaveOk, Account (DeleteUser ''root'') SaveUnsynced] demo_start"

theorem an_administrator_stays_witness:
  "map (us_role \<circ> snd) (g_users (ax_gate demoted)) = [RoleAdmin] \<and> 1 \<le> countAdminsLocked (ax_gate demoted)"
proof -
  have "has_admin (g_users (ax_gate demo_start))"
  proof -
    have "map_option us_role (mget (g_users (ax_gate demo_start)) ''root'') = Some RoleAdmin" by code_simp
    then show ?thesis by (auto simp: has_admin_def)
  qed
  moreover have "case ad_users (g_disk (ax_gate demo_start)) of
      Holds f \<Rightarrow> list_ex (\<lambda>u. us_role u = RoleAdmin) (uf_users f) | _ \<Rightarrow> False" "\<not> g_init_err (ax_gate demo_start)"
    by code_simp+
  ultimately have k: "admin_kept (ax_gate demo_start)"
    by (auto simp: admin_kept_def admin_on_disk_def list_ex_iff split: stored_file.splits)
  have "admissible_run [Account (SetRole ''root'' ''viewer'') SaveOk, Account (DeleteUser ''root'') SaveUnsynced] demo_start"
    by code_simp
  from run_access_steps [OF access_steps.stay this]
  have st: "access_steps demo_access_cfg demo_start demoted" by (simp add: demoted_def)
  have "map (us_role \<circ> snd) (g_users (ax_gate demoted)) = [RoleAdmin]" by code_simp
  then show ?thesis using an_administrator_stays [OF demo_access_reachable k st] by blast
qed

definition may_administer :: "auth_gate \<Rightarrow> (bool \<times> string) list" where
  "may_administer g =
     map (\<lambda>b. (True, fst b)) (filter (\<lambda>(n, u).
       Allow (capabilitiesForProfile (us_profile u) (us_caps u) (us_role u)) AdministerUsers) (g_users g)) @
     map (\<lambda>b. (False, fst b)) (filter (\<lambda>(s, p).
       Allow (capabilitiesForProfile (pr_profile p) (pr_caps p) (pr_role p)) AdministerUsers) (g_principals g))"

lemma may_administerI:
  "mget (g_users g) n = Some u \<Longrightarrow>
     Allow (capabilitiesForProfile (us_profile u) (us_caps u) (us_role u)) AdministerUsers \<Longrightarrow>
     (True, n) \<in> set (may_administer g)"
  "mget (g_principals g) s = Some p \<Longrightarrow>
     Allow (capabilitiesForProfile (pr_profile p) (pr_caps p) (pr_role p)) AdministerUsers \<Longrightarrow>
     (False, s) \<in> set (may_administer g)"
  by (force simp: may_administer_def dest!: mget_SomeD)+

lemma users_routes: "under ''/api/users'' path \<Longrightarrow> requiredCapabilities m path = [AdministerUsers]"
proof -
  assume u: "under ''/api/users'' path"
  then obtain r where path: "path = ''/api/users'' @ r" by (auto simp: under_iff)
  have "\<not> list_ex (\<lambda>p. under p path) administerCredentialsPrefixes"
    unfolding path by (simp add: administerCredentialsPrefixes_def under_def)
  moreover have "\<not> under ''/api/alerts/silences'' path" "\<not> prefix ''/api/monitors/'' path"
    "\<not> prefix ''/api/alerts/'' path" "prefix ''/api/'' path" "\<not> prefix ''/api/push/'' path"
    "path \<noteq> ''/api/auth/me''" "path \<noteq> ''/api/auth/password''"
    unfolding path by (simp_all add: under_def)
  ultimately show ?thesis using u by (simp add: requiredCapabilities_def)
qed

text \<open>No account has the capability to administer users now.\<close>

definition nobody_administers :: "auth_gate \<Rightarrow> bool" where
  "nobody_administers g \<longleftrightarrow>
     (\<forall>n u. mget (g_users g) n = Some u \<longrightarrow>
        \<not> Allow (capabilitiesForProfile (us_profile u) (us_caps u) (us_role u)) AdministerUsers) \<and>
     (\<forall>s p. mget (g_principals g) s = Some p \<longrightarrow>
        \<not> Allow (capabilitiesForProfile (pr_profile p) (pr_caps p) (pr_role p)) AdministerUsers)"

lemma nobody_refused:
  assumes "nobody_administers g" and "under ''/api/users'' (hr_path r)"
  shows "\<not> (\<exists>s ck g'. wrap env sv now r g = (PassAs s, ck, g'))"
proof
  assume "\<exists>s ck g'. wrap env sv now r g = (PassAs s, ck, g')"
  then obtain s ck g' where w: "wrap env sv now r g = (PassAs s, ck, g')" by blast
  obtain c1 where ws: "wrap_session env sv now r g = (Some s, c1, g')" using wrap_PassAs(2) [OF w] by blast
  obtain stored where l: "live_session g stored = Some s" by (rule wrap_session_Some [OF ws])
  have allow: "Allow (se_caps s) AdministerUsers"
    using authorize_allows [OF wrap_PassAs(3) [OF w]] users_routes [OF assms(2)] by (simp add: Missing_empty_iff)
  have cc: "current_caps g s = Some (se_caps s)" by (rule live_session_caps [OF l])
  show False
  proof (cases "se_local s")
    case True
    then obtain u where "mget (g_users g) (se_sub s) = Some u"
      "se_caps s = capabilitiesForProfile (us_profile u) (us_caps u) (us_role u)"
      using cc by (auto simp: current_caps_def split: option.splits if_splits)
    then show False using assms(1) allow unfolding nobody_administers_def by metis
  next
    case False
    then obtain p where "mget (g_principals g) (se_sub s) = Some p"
      "se_caps s = capabilitiesForProfile (pr_profile p) (pr_caps p) (pr_role p)"
      using cc by (auto simp: current_caps_def split: option.splits if_splits)
    then show False using assms(1) allow unfolding nobody_administers_def by metis
  qed
qed

text \<open>What anybody can do who may not administer users: sign in, use sessions, change a password.\<close>

fun everyday :: "access_act \<Rightarrow> bool" where
  "everyday (SignIn n p) = True"
| "everyday (Issue sv now token pf) = True"
| "everyday (Request sv now r) = True"
| "everyday (Logout sv now token) = True"
| "everyday (WipeSessions sv now sub) = True"
| "everyday (Attempt now ip ok) = True"
| "everyday (Account (SetPassword h n e p c) sv) = True"
| "everyday a = False"

lemma nobody_session_step: "session_step new g g' \<Longrightarrow> nobody_administers g \<Longrightarrow> nobody_administers g'"
  by (simp add: session_step_def same_accounts_def nobody_administers_def)

lemma nobody_password:
  "nobody_administers g \<Longrightarrow> nobody_administers (snd (setPasswordCAS h sv n e p c g))"
  by (auto simp: nobody_administers_def setPasswordCAS_def commit_users_def saveUsersFile_def Let_def
      split: option.splits save_outcome.splits if_splits prod.splits bool.splits)

lemma nobody_everyday:
  assumes "everyday a" and n: "nobody_administers (ax_gate w)"
  shows "nobody_administers (ax_gate (perform_access cfg a w))"
  using assms(1)
proof (cases a)
  case (Account oper sv)
  then show ?thesis using assms nobody_password by (cases oper) simp_all
next
  case (Issue sv now token pf)
  then show ?thesis using nobody_session_step [OF newSessionFor_step n] by simp
next
  case (Request sv now q)
  obtain an b g where u: "wrap (xc_env cfg) sv now q (ax_gate w) = (an, b, g)" by (metis prod.exhaust)
  have "session_step {} (ax_gate w) g" using wrap_step [of "{}" "ax_gate w" "xc_env cfg" sv now q] u by simp
  from nobody_session_step [OF this n] Request u show ?thesis by simp
next
  case (Attempt now ip ok)
  then show ?thesis using n by (simp add: nobody_administers_def recordSuccess_def recordFail_def Let_def)
qed (use n in \<open>simp_all split: option.split add: nobody_session_step [OF deleteSession_step [of "{}"]]
    nobody_session_step [OF deleteUserSessions_step [of "{}"]]\<close>)

lemma nobody_after:
  assumes "may_administer g = [(True, n)]" and "mget (g_users g) n = Some u"
    and "Validate cs = None" and "AdministerUsers \<notin> set cs"
  shows "fst (setCapabilities SaveOk n cs g) = None \<and> nobody_administers (snd (setCapabilities SaveOk n cs g))"
proof -
  let ?u = "u\<lparr>us_profile := profileCustom, us_caps := Normalize cs\<rparr>"
  obtain e g' where s: "setCapabilities SaveOk n cs g = (e, g')" by force
  then have g': "g_users g' = mput n ?u (g_users g)" "g_principals g' = g_principals g" and e: "e = None"
    using assms(2,3) by (auto simp: setCapabilities_def commit_users_def saveUsersFile_def Let_def)
  have local: "\<not> Allow (capabilitiesForProfile (us_profile v) (us_caps v) (us_role v)) AdministerUsers"
    if "mget (g_users g') k = Some v" for k v
  proof (cases "k = n")
    case True
    then show ?thesis using that g'(1) assms(4) by (auto simp: capabilitiesForProfile_def profile_names)
  next
    case False
    then have "mget (g_users g) k = Some v" using that g'(1) by simp
    with may_administerI(1) [OF this] assms(1) False show ?thesis by auto
  qed
  have "\<not> Allow (capabilitiesForProfile (pr_profile p) (pr_caps p) (pr_role p)) AdministerUsers"
    if "mget (g_principals g') k = Some p" for k p
    using may_administerI(2) [of g k p] that g'(2) assms(1) by auto
  with local s e show ?thesis by (simp add: nobody_administers_def)
qed

text \<open>
  C12. But not its capabilities. \<open>setCapabilities\<close> has no guard like \<open>setRole\<close> and \<open>deleteUser\<close>: if one account is
  the only one that may administer users, giving it an explicit list without that capability
  succeeds. After that, whoever signs in with a password, whatever sessions are issued, used and ended, and
  whichever passwords change, no request for an account route is let through, so no session can take the change back
  through the account API. What is left is outside these routes: a single sign-on that
  brings a principal with the role \<open>admin\<close>, or another file and a restart.
\<close>

theorem capabilities_of_the_last_administrator:
  assumes "may_administer (ax_gate w) = [(True, n)]" and "mget (g_users (ax_gate w)) n = Some u"
    and "Validate cs = None" and "AdministerUsers \<notin> set cs"
    and "list_all everyday as" and "under ''/api/users'' (hr_path r)"
  shows "fst (setCapabilities SaveOk n cs (ax_gate w)) = None \<and>
    \<not> (\<exists>s ck g. wrap env sv now r
        (ax_gate (fold (perform_access cfg) as (perform_access cfg (Account (SetCapabilities n cs) SaveOk) w))) = (PassAs s, ck, g))"
proof -
  note a = nobody_after [OF assms(1-4)]
  have "nobody_administers (ax_gate v) \<Longrightarrow> list_all everyday bs \<Longrightarrow>
      nobody_administers (ax_gate (fold (perform_access cfg) bs v))" for bs v
    by (induction bs arbitrary: v) (auto intro: nobody_everyday)
  with a assms(5) have "nobody_administers
      (ax_gate (fold (perform_access cfg) as (perform_access cfg (Account (SetCapabilities n cs) SaveOk) w)))"
    by simp
  from nobody_refused [OF this assms(6)] a show ?thesis by simp
qed

theorem capabilities_of_the_last_administrator_witness:
  "fst (setCapabilities SaveOk ''root'' [ViewMetadata] (ax_gate demo_start)) = None \<and>
   \<not> (\<exists>s ck g. wrap gate_env SaveOk 5 (web_request ''PUT'' ''/api/users/root'' ''t9'')
        (ax_gate (fold (perform_access demo_access_cfg)
           [SignIn ''root'' ''pw'', Request SaveOk 4 (web_request ''GET'' ''/api/apps'' ''t9'')]
           (perform_access demo_access_cfg (Account (SetCapabilities ''root'' [ViewMetadata]) SaveOk) demo_start))) =
        (PassAs s, ck, g))"
proof -
  let ?g = "ax_gate demo_start"
  have m: "may_administer ?g = [(True, ''root'')]" by code_simp
  have "mget (g_users ?g) ''root'' \<noteq> None" by code_simp
  then obtain u where u: "mget (g_users ?g) ''root'' = Some u" by blast
  have v: "Validate [ViewMetadata] = None" and n: "AdministerUsers \<notin> set [ViewMetadata]" by code_simp+
  have e: "list_all everyday [SignIn ''root'' ''pw'', Request SaveOk 4 (web_request ''GET'' ''/api/apps'' ''t9'')]" by simp
  have p: "under ''/api/users'' (hr_path (web_request ''PUT'' ''/api/users/root'' ''t9''))" by code_simp
  from capabilities_of_the_last_administrator [OF m u v n e p] show ?thesis by blast
qed

end
