(* ===== verification/MonitorStore.thy ===== *)
theory MonitorStore
  imports GoText OpJournal
begin

text \<open>
  The file store of uptime monitors, check histories and restore tests
  (\<open>internal/store/store.go\<close>, \<open>internal/store/file.go\<close>). Every operation runs under the lock of
  the store, so it is one step. A file of a monitor or a restore test is absent, cannot be read,
  cannot be decoded, or holds a value; a history is a list of lines. The outcome of every write
  is an argument. A result is committed only while the stored configuration still carries the
  stamp the result was produced under; the locale \<open>conditional_commit\<close> states what this relies
  on, and both kinds of result interpret it.
\<close>

section \<open>Data\<close>

text \<open>\<open>^[A-Za-z0-9_-]+$\<close>\<close>

definition ValidID :: "string \<Rightarrow> bool" where
  "ValidID s \<longleftrightarrow> s \<noteq> [] \<and> list_all (\<lambda>c. name_char c \<or> c = CHR ''_'' \<or> c = CHR ''-'') s"

record monitor =
  mo_id :: string
  mo_name :: string
  mo_type :: string
  mo_target :: string
  mo_interval :: duration
  mo_timeout :: duration
  mo_enabled :: bool
  mo_expected :: int
  mo_method :: string
  mo_allow_internal :: bool
  mo_reachable :: bool
  mo_app :: string
  mo_server :: string
  mo_fail_after :: int
  mo_recover_after :: int
  mo_repeat :: duration
  mo_grace :: duration
  mo_token :: string
  mo_incarnation :: "64 word"

record check_result =
  ck_monitor :: string
  ck_status :: string
  ck_code :: int
  ck_response :: duration
  ck_message :: string
  ck_at :: time
  ck_incarnation :: "64 word"
  ck_not_after :: "time option"
  ck_not_before :: "time option"

record restore_test =
  rt_incarnation :: string
  rt_id :: string
  rt_server :: string
  rt_app :: string
  rt_accessory :: string
  rt_hours :: int
  rt_enabled :: bool
  rt_last_run :: time
  rt_ok :: bool
  rt_detail :: string
  rt_metric :: string
  rt_date :: string
  rt_duration :: int

datatype 'a entry = Unreadable | Undecodable | Entry 'a

text \<open>
  A line of a history: blank, not a check result, longer than the scanner's buffer, or a result
  with the bytes the line has beyond it (fields of a later version). A file whose last append
  was cut short has an unterminated last line.
\<close>

datatype hline = Blank | Junk | Huge | Row check_result string

record history_file =
  hf_rows :: "hline list"
  hf_torn :: bool

record file_store =
  fs_monitors :: "(string, monitor entry) gomap"
  fs_tests :: "(string, restore_test entry) gomap"
  fs_history :: "(string, history_file) gomap"
  fs_clock :: "64 word"

datatype store_error = InvalidID | NotExist | ReadFailed | DecodeFailed | NoRandomness | WriteFailed

definition RetentionDays :: int where "RetentionDays = 7"

text \<open>\<open>os.ReadDir\<close> lists by file name.\<close>

definition file_order :: "(string, 'a entry) gomap \<Rightarrow> (string \<times> 'a entry) list" where
  "file_order m = sort_key (\<lambda>(mid, _). mid @ ''.json'') m"

definition entries_of :: "(string, 'a entry) gomap \<Rightarrow> 'a list" where
  "entries_of m = List.map_filter (\<lambda>(_, e). case e of Entry x \<Rightarrow> Some x | _ \<Rightarrow> None) (file_order m)"

definition read_entry :: "string \<Rightarrow> (string, 'a entry) gomap \<Rightarrow> store_error + 'a" where
  "read_entry mid m =
     (case mget m mid of
        None \<Rightarrow> Inl NotExist
      | Some Unreadable \<Rightarrow> Inl ReadFailed
      | Some Undecodable \<Rightarrow> Inl DecodeFailed
      | Some (Entry x) \<Rightarrow> Inr x)"

text \<open>\<open>atomicWrite\<close> of one entry: an error after the rename leaves the new file in place.\<close>

definition write_entry ::
    "save_outcome \<Rightarrow> string \<Rightarrow> 'a \<Rightarrow> (string, 'a entry) gomap \<Rightarrow> store_error option \<times> (string, 'a entry) gomap" where
  "write_entry sv mid x m =
     (case sv of
        SaveOk \<Rightarrow> (None, mput mid (Entry x) m)
      | SaveFail \<Rightarrow> (Some WriteFailed, m)
      | SaveUnsynced \<Rightarrow> (Some WriteFailed, mput mid (Entry x) m))"

section \<open>Monitors\<close>

definition ListMonitors :: "file_store \<Rightarrow> monitor list" where
  "ListMonitors s = entries_of (fs_monitors s)"

definition GetMonitor :: "string \<Rightarrow> file_store \<Rightarrow> store_error + monitor" where
  "GetMonitor mid s = (if \<not> ValidID mid then Inl InvalidID else read_entry mid (fs_monitors s))"

text \<open>
  The configuration is written with the next incarnation. It is also set on the caller's copy,
  and the clock moves, when the write fails.
\<close>

definition SaveMonitor ::
    "save_outcome \<Rightarrow> monitor \<Rightarrow> file_store \<Rightarrow> store_error option \<times> monitor \<times> file_store" where
  "SaveMonitor sv m s =
     (if \<not> ValidID (mo_id m) then (Some InvalidID, m, s)
      else if mget (fs_monitors s) (mo_id m) = Some Unreadable then (Some ReadFailed, m, s)
      else
        let next = fs_clock s + 1;
            next = (case mget (fs_monitors s) (mo_id m) of
              Some (Entry stored) \<Rightarrow> if next \<le> mo_incarnation stored then mo_incarnation stored + 1 else next
            | _ \<Rightarrow> next);
            m1 = m\<lparr>mo_incarnation := next\<rparr>
        in case write_entry sv (mo_id m) m1 (fs_monitors s) of
             (e, ms) \<Rightarrow> (e, m1, s\<lparr>fs_clock := next, fs_monitors := ms\<rparr>))"

text \<open>\<open>DeleteMonitor\<close>: whether each of the two removes works (an absent file is no error).\<close>

definition DeleteMonitor :: "bool \<Rightarrow> bool \<Rightarrow> string \<Rightarrow> file_store \<Rightarrow> store_error option \<times> file_store" where
  "DeleteMonitor ok1 ok2 mid s =
     (if \<not> ValidID mid then (Some InvalidID, s)
      else if mget (fs_monitors s) mid \<noteq> None \<and> \<not> ok1 then (Some WriteFailed, s)
      else
        let s1 = s\<lparr>fs_monitors := mdel mid (fs_monitors s)\<rparr>
        in if mget (fs_history s) mid \<noteq> None \<and> \<not> ok2 then (Some WriteFailed, s1)
           else (None, s1\<lparr>fs_history := mdel mid (fs_history s)\<rparr>))"

section \<open>Restore tests\<close>

definition ListRestoreTests :: "file_store \<Rightarrow> restore_test list" where
  "ListRestoreTests s = entries_of (fs_tests s)"

definition GetRestoreTest :: "string \<Rightarrow> file_store \<Rightarrow> store_error + restore_test" where
  "GetRestoreTest mid s = (if \<not> ValidID mid then Inl InvalidID else read_entry mid (fs_tests s))"

definition sameRestoreTarget :: "restore_test \<Rightarrow> restore_test \<Rightarrow> bool" where
  "sameRestoreTarget a b \<longleftrightarrow> rt_server a = rt_server b \<and> rt_app a = rt_app b \<and> rt_accessory a = rt_accessory b"

text \<open>The fields a run writes.\<close>

definition with_result :: "restore_test \<Rightarrow> restore_test \<Rightarrow> restore_test" where
  "with_result r t =
     t\<lparr>rt_last_run := rt_last_run r, rt_ok := rt_ok r, rt_detail := rt_detail r, rt_metric := rt_metric r,
       rt_date := rt_date r, rt_duration := rt_duration r\<rparr>"

definition SaveRestoreTest ::
    "string option \<Rightarrow> save_outcome \<Rightarrow> restore_test \<Rightarrow> file_store \<Rightarrow> store_error option \<times> file_store" where
  "SaveRestoreTest nonce sv t s =
     (if \<not> ValidID (rt_id t) then (Some InvalidID, s)
      else case nonce of None \<Rightarrow> (Some NoRandomness, s)
      | Some n \<Rightarrow>
        let save = (\<lambda>t. case write_entry sv (rt_id t) t (fs_tests s) of (e, ts) \<Rightarrow> (e, s\<lparr>fs_tests := ts\<rparr>));
            t1 = t\<lparr>rt_incarnation := n\<rparr>
        in case mget (fs_tests s) (rt_id t) of
             None \<Rightarrow> save t1
           | Some Unreadable \<Rightarrow> (Some ReadFailed, s)
           | Some Undecodable \<Rightarrow> (Some DecodeFailed, s)
           | Some (Entry stored) \<Rightarrow>
               if sameRestoreTarget stored t1
               then save (with_result stored
                 (if rt_incarnation stored \<noteq> [] then t1\<lparr>rt_incarnation := rt_incarnation stored\<rparr> else t1))
               else save t1)"

definition DeleteRestoreTest :: "bool \<Rightarrow> string \<Rightarrow> file_store \<Rightarrow> store_error option \<times> file_store" where
  "DeleteRestoreTest ok mid s =
     (if \<not> ValidID mid then (Some InvalidID, s)
      else if mget (fs_tests s) mid \<noteq> None \<and> \<not> ok then (Some WriteFailed, s)
      else (None, s\<lparr>fs_tests := mdel mid (fs_tests s)\<rparr>))"

text \<open>The first result says whether the verdict was applied; it is true also when the write failed.\<close>

definition SaveRestoreTestResult ::
    "save_outcome \<Rightarrow> string \<Rightarrow> restore_test \<Rightarrow> file_store \<Rightarrow> bool \<times> store_error option \<times> file_store" where
  "SaveRestoreTestResult sv mid r s =
     (if \<not> ValidID mid then (False, Some InvalidID, s)
      else case mget (fs_tests s) mid of
        None \<Rightarrow> (False, None, s)
      | Some Unreadable \<Rightarrow> (False, Some ReadFailed, s)
      | Some Undecodable \<Rightarrow> (False, Some DecodeFailed, s)
      | Some (Entry stored) \<Rightarrow>
          if rt_incarnation stored \<noteq> rt_incarnation r \<or> \<not> sameRestoreTarget stored r then (False, None, s)
          else case write_entry sv mid (with_result r stored) (fs_tests s) of
                 (e, ts) \<Rightarrow> (True, e, s\<lparr>fs_tests := ts\<rparr>))"

section \<open>Check histories\<close>

text \<open>
  The append of one line: the file cannot be opened, a prefix of the line is written (\<open>None\<close>
  when nothing is), or all of it. Text written behind an unterminated line joins it.
\<close>

datatype append_line_io = OpenFails | WritesShort "hline option" | WritesAll

definition add_line :: "hline \<Rightarrow> history_file \<Rightarrow> history_file" where
  "add_line l h =
     (if hf_torn h then h\<lparr>hf_rows := butlast (hf_rows h) @ [Junk]\<rparr> else h\<lparr>hf_rows := hf_rows h @ [l]\<rparr>)"

definition history_of :: "string \<Rightarrow> file_store \<Rightarrow> history_file" where
  "history_of mid s = (case mget (fs_history s) mid of None \<Rightarrow> \<lparr>hf_rows = [], hf_torn = False\<rparr> | Some h \<Rightarrow> h)"

definition put_history :: "string \<Rightarrow> history_file \<Rightarrow> file_store \<Rightarrow> file_store" where
  "put_history mid h s = s\<lparr>fs_history := mput mid h (fs_history s)\<rparr>"

definition SaveCheck ::
    "append_line_io \<Rightarrow> check_result \<Rightarrow> file_store \<Rightarrow> bool \<times> store_error option \<times> file_store" where
  "SaveCheck io r s =
     (let mid = ck_monitor r in
      if \<not> ValidID mid then (False, Some InvalidID, s)
      else case mget (fs_monitors s) mid of
        None \<Rightarrow> (False, None, s)
      | Some Unreadable \<Rightarrow> (False, Some ReadFailed, s)
      | Some Undecodable \<Rightarrow> (False, Some DecodeFailed, s)
      | Some (Entry stored) \<Rightarrow>
          if mo_incarnation stored \<noteq> ck_incarnation r then (False, None, s)
          else
            let h = history_of mid s
            in case io of
                 OpenFails \<Rightarrow> (False, Some WriteFailed, s)
               | WritesShort None \<Rightarrow> (False, Some WriteFailed, put_history mid h s)
               | WritesShort (Some l) \<Rightarrow>
                   (False, Some WriteFailed, put_history mid ((add_line l h)\<lparr>hf_torn := True\<rparr>) s)
               | WritesAll \<Rightarrow> (True, None, put_history mid ((add_line (Row r []) h)\<lparr>hf_torn := False\<rparr>) s))"

fun scan_checks :: "time \<Rightarrow> hline list \<Rightarrow> check_result list option" where
  "scan_checks since [] = Some []"
| "scan_checks since (Huge # ls) = None"
| "scan_checks since (Row r x # ls) =
     map_option (\<lambda>rs. if after_time (ck_at r) since then r # rs else rs) (scan_checks since ls)"
| "scan_checks since (l # ls) = scan_checks since ls"

text \<open>\<open>sort.SliceStable\<close> by descending time.\<close>

definition newest_checks :: "int \<Rightarrow> check_result list \<Rightarrow> check_result list" where
  "newest_checks limit rs = (if 0 < limit then take (nat limit) (sort_key (\<lambda>r. - ck_at r) rs) else rs)"

definition GetChecks :: "bool \<Rightarrow> string \<Rightarrow> time \<Rightarrow> int \<Rightarrow> file_store \<Rightarrow> store_error + check_result list" where
  "GetChecks readable mid since limit s =
     (if \<not> ValidID mid then Inl InvalidID
      else case mget (fs_history s) mid of
        None \<Rightarrow> Inr []
      | Some h \<Rightarrow>
          if \<not> readable then Inl ReadFailed
          else case scan_checks since (hf_rows h) of
                 None \<Rightarrow> Inl ReadFailed
               | Some rs \<Rightarrow> Inr (newest_checks limit rs))"

text \<open>
  \<open>GetStats\<close>: the counts and the mean latency of the checks that were up (a sum in an
  \<open>int64\<close>); the percentage is the quotient of the two counts.
\<close>

record uptime_stats =
  st_total :: nat
  st_up :: nat
  st_down :: nat
  st_avg :: duration

definition GetStats :: "bool \<Rightarrow> string \<Rightarrow> time \<Rightarrow> file_store \<Rightarrow> store_error + uptime_stats" where
  "GetStats readable mid since s =
     (case GetChecks readable mid since 0 s of
        Inl e \<Rightarrow> Inl e
      | Inr cs \<Rightarrow>
          let up = filter (\<lambda>c. ck_status c = ''up'') cs;
              total = fold (\<lambda>c t. i64 (t + ck_response c)) up 0
          in Inr \<lparr>st_total = length cs, st_up = length up, st_down = length cs - length up,
               st_avg = (if up = [] then 0 else sgn total * (\<bar>total\<bar> div int (length up)))\<rparr>)"

text \<open>\<open>rewriteHistoryFile\<close>: the lines it keeps, or nothing when it stops and leaves the file alone.\<close>

fun rewrite_rows :: "time \<Rightarrow> hline list \<Rightarrow> hline list option" where
  "rewrite_rows cutoff [] = Some []"
| "rewrite_rows cutoff (Blank # ls) = rewrite_rows cutoff ls"
| "rewrite_rows cutoff (Row r x # ls) =
     (if is_zero_time (ck_at r) then None
      else map_option (\<lambda>ks. if before_time (ck_at r) cutoff then ks else Row r x # ks) (rewrite_rows cutoff ls))"
| "rewrite_rows cutoff (l # ls) = None"

definition rewriteHistoryFile :: "bool \<Rightarrow> time \<Rightarrow> history_file \<Rightarrow> bool \<times> history_file" where
  "rewriteHistoryFile io_ok cutoff h =
     (case rewrite_rows cutoff (hf_rows h) of
        None \<Rightarrow> (False, h)
      | Some ks \<Rightarrow> if io_ok then (True, \<lparr>hf_rows = ks, hf_torn = False\<rparr>) else (False, h))"

definition Cleanup :: "(string \<Rightarrow> bool) \<Rightarrow> time \<Rightarrow> file_store \<Rightarrow> bool \<times> file_store" where
  "Cleanup io_ok cutoff s =
     (list_all (\<lambda>(mid, h). fst (rewriteHistoryFile (io_ok mid) cutoff h)) (fs_history s),
      s\<lparr>fs_history := map (\<lambda>(mid, h). (mid, snd (rewriteHistoryFile (io_ok mid) cutoff h))) (fs_history s)\<rparr>)"

end
