(* ===== verification/AppRoutes.thy ===== *)
theory AppRoutes
  imports AccessRoles OpCommands MonitorStore
begin

text \<open>
  The app routes \<open>/api/apps/{server}/{app}/{action...}\<close> (\<open>handleAppAction\<close> and \<open>handleAppPost\<close> in
  \<open>server.go\<close>, \<open>handleAppConfigRoutes\<close> in \<open>confighome.go\<close>, \<open>handleAppSourceRoutes\<close> in
  \<open>gitsource.go\<close>, \<open>backups.go\<close>, \<open>releases.go\<close>) and the operation routes (\<open>operations.go\<close>): which
  endpoint a request reaches, what it runs or enqueues, and with which actor. The theorems
  compare this dispatch with the route table of the gate, which classifies the same path with
  code of its own.
\<close>

section \<open>Dispatch\<close>

datatype endpoint =
  ConfigGet | ConfigPut | ConfigHistory | ConfigRestore | ConfigHome | ServerEvents
| SourceShow | SourceTimer | SourceKey | SourceHostKey | SourceRegister | SourceReset
| SourceRetry | SourceInstallTimer
| AppState | EnvValues | EnvKeys | ConfigAuthority | ReleasesList | BackupsList | SecretsList
| EnvSet | EnvUnset string | SecretsDelete string | LogRead | Drift | Stats | HealthProbe
| KVList | KVGet | KVSet | KVDelete | Accessories | DatabaseActions
| Lifecycle string | Rollback | Redeploy | SecretsSet | BackupCreate | BackupRestore
| DeployPending | RemoveApp | LockApp | UnlockApp | Maintenance string | AccessoryRun string string
| AccessoryUnsupported string | UnknownAction | NoEndpoint | InvalidPath | InvalidName | ServerNotFound

definition validAppName :: "string \<Rightarrow> bool" where
  "validAppName s \<longleftrightarrow> s \<noteq> ''.'' \<and> s \<noteq> ''..'' \<and> s \<noteq> [] \<and>
     list_all (\<lambda>c. name_char c \<or> c \<in> {CHR ''.'', CHR ''_'', CHR ''-''}) s"

definition handleAppConfigRoutes :: "string \<Rightarrow> string \<Rightarrow> endpoint option" where
  "handleAppConfigRoutes m action =
     (if action = ''config'' \<and> m = ''GET'' then Some ConfigGet
      else if action = ''config'' \<and> m = ''PUT'' then Some ConfigPut
      else if action = ''config/history'' \<and> m = ''GET'' then Some ConfigHistory
      else if action = ''config/restore'' \<and> m = ''POST'' then Some ConfigRestore
      else if action = ''config/home'' \<and> m = ''POST'' then Some ConfigHome
      else if action = ''events'' \<and> m = ''GET'' then Some ServerEvents
      else None)"

definition handleAppSourceRoutes :: "string \<Rightarrow> string \<Rightarrow> endpoint option" where
  "handleAppSourceRoutes m action =
     (if action = ''source'' \<and> m = ''GET'' then Some SourceShow
      else if action = ''source/timer'' \<and> m = ''GET'' then Some SourceTimer
      else if action = ''source/key'' \<and> m = ''POST'' then Some SourceKey
      else if action = ''source/host-key'' \<and> m = ''POST'' then Some SourceHostKey
      else if action = ''source/register'' \<and> m = ''POST'' then Some SourceRegister
      else if action = ''source/reset-watermark'' \<and> m = ''POST'' then Some SourceReset
      else if action = ''source/retry'' \<and> m = ''POST'' then Some SourceRetry
      else if action = ''source/install-timer'' \<and> m = ''POST'' then Some SourceInstallTimer
      else None)"

definition handleAppPost :: "string \<Rightarrow> endpoint" where
  "handleAppPost action =
     (if action \<in> {''stop'', ''start'', ''restart''} then Lifecycle action
      else if action = ''rollback'' then Rollback
      else if action = ''redeploy'' then Redeploy
      else if action = ''secrets'' then SecretsSet
      else if action = ''backups/create'' then BackupCreate
      else if action = ''backups/restore'' then BackupRestore
      else if action = ''deploy'' then DeployPending
      else if action = ''remove'' then RemoveApp
      else if action = ''lock'' then LockApp
      else if action = ''unlock'' then UnlockApp
      else if action \<in> {''maintenance/on'', ''maintenance/off''} then Maintenance (trim_prefix ''maintenance/'' action)
      else if prefix ''accessories/'' action then
        (let parts = split_byte CHR ''/'' (trim_prefix ''accessories/'' action)
         in if length parts = 2 then
              (if parts ! 1 \<in> {''stop'', ''start'', ''logs''} then AccessoryRun (parts ! 1) (parts ! 0)
               else AccessoryUnsupported (parts ! 1))
            else UnknownAction)
      else UnknownAction)"

definition app_switch :: "string \<Rightarrow> string \<Rightarrow> endpoint" where
  "app_switch m action =
     (if action = ''status'' \<and> m = ''GET'' then AppState
      else if action = ''env'' \<and> m = ''GET'' then EnvValues
      else if action = ''env/keys'' \<and> m = ''GET'' then EnvKeys
      else if action = ''config-authority'' \<and> m = ''GET'' then ConfigAuthority
      else if action = ''releases'' \<and> m = ''GET'' then ReleasesList
      else if action = ''backups'' \<and> m = ''GET'' then BackupsList
      else if action = ''secrets'' \<and> m = ''GET'' then SecretsList
      else if action = ''env'' \<and> m = ''POST'' then EnvSet
      else if prefix ''env/'' action \<and> m = ''DELETE'' then EnvUnset (trim_prefix ''env/'' action)
      else if prefix ''secrets/'' action \<and> m = ''DELETE'' then SecretsDelete (trim_prefix ''secrets/'' action)
      else if action = ''log'' \<and> m = ''GET'' then LogRead
      else if action = ''drift'' \<and> m = ''GET'' then Drift
      else if action = ''stats'' \<and> m = ''GET'' then Stats
      else if action = ''health'' \<and> m = ''GET'' then HealthProbe
      else if action = ''kv'' \<and> m = ''GET'' then KVList
      else if action = ''kv/value'' \<and> m = ''GET'' then KVGet
      else if action = ''kv'' \<and> m = ''POST'' then KVSet
      else if action = ''kv'' \<and> m = ''DELETE'' then KVDelete
      else if action = ''accessories'' \<and> m = ''GET'' then Accessories
      else if action = ''db-actions'' \<and> m = ''GET'' then DatabaseActions
      else if m = ''POST'' then handleAppPost action
      else NoEndpoint)"

definition handleAppAction :: "(string \<Rightarrow> bool) \<Rightarrow> string \<Rightarrow> string \<Rightarrow> endpoint" where
  "handleAppAction known m path =
     (let parts = splitn_byte 3 CHR ''/'' (trim_prefix ''/api/apps/'' path)
      in if length parts < 2 then InvalidPath
         else
           let srv = parts ! 0; app = parts ! 1; action = (if 3 \<le> length parts then parts ! 2 else [])
           in if \<not> ValidID srv \<or> \<not> validAppName app then InvalidName
              else if \<not> known srv then ServerNotFound
              else case handleAppConfigRoutes m action of Some e \<Rightarrow> e
                | None \<Rightarrow> (case handleAppSourceRoutes m action of Some e \<Rightarrow> e | None \<Rightarrow> app_switch m action))"

section \<open>What the endpoints run\<close>

record app_env =
  ae_cli :: bool
  ae_feature :: "string \<Rightarrow> bool"

record app_body =
  ab_to :: string
  ab_accessory :: string
  ab_id :: string
  ab_database :: string
  ab_no_backup :: bool
  ab_purge :: bool
  ab_redirect :: string

datatype app_reply = Refuse nat | RunCli "string list" | EnqueueRequest request | Other endpoint

definition app_request :: "kind \<Rightarrow> string \<Rightarrow> string \<Rightarrow> request" where
  "app_request k srv app =
     \<lparr>rq_kind = k, rq_server = srv, rq_app = app, rq_mode = [], rq_image = [], rq_domain = [], rq_port = 0,
      rq_template = [], rq_home = [], rq_template_version = [], rq_vars = [], rq_action = [],
      rq_purge = False, rq_redirect = [], rq_to = [], rq_accessory = [], rq_backup_id = [],
      rq_database = [], rq_no_backup = False, rq_keep = 0\<rparr>"

definition with_cli :: "app_env \<Rightarrow> app_reply \<Rightarrow> app_reply" where
  "with_cli env r = (if ae_cli env then r else Refuse 400)"

definition with_feature :: "app_env \<Rightarrow> string \<Rightarrow> app_reply \<Rightarrow> app_reply" where
  "with_feature env f r = (if \<not> ae_cli env then Refuse 400 else if ae_feature env f then r else Refuse 501)"

definition with_body :: "app_body option \<Rightarrow> (app_body \<Rightarrow> app_reply) \<Rightarrow> app_reply" where
  "with_body b f = (case b of None \<Rightarrow> Refuse 400 | Some x \<Rightarrow> f x)"

fun app_effect :: "app_env \<Rightarrow> string \<Rightarrow> string \<Rightarrow> app_body option \<Rightarrow> endpoint \<Rightarrow> app_reply" where
  "app_effect env srv app b (Lifecycle a) =
     with_cli env (EnqueueRequest ((app_request KindAppLifecycle srv app)\<lparr>rq_action := a\<rparr>))"
| "app_effect env srv app b Rollback =
     with_cli env (with_body b (\<lambda>x.
       (if ab_to x \<noteq> [] then with_feature env ''rollback_to'' else (\<lambda>r. r))
         (EnqueueRequest ((app_request KindRollback srv app)\<lparr>rq_to := ab_to x\<rparr>))))"
| "app_effect env srv app b Redeploy =
     with_feature env ''redeploy'' (EnqueueRequest (app_request KindRedeploy srv app))"
| "app_effect env srv app b BackupCreate =
     with_feature env ''backups'' (with_body b (\<lambda>x.
       EnqueueRequest ((app_request KindBackupCreate srv app)\<lparr>rq_accessory := ab_accessory x\<rparr>)))"
| "app_effect env srv app b BackupRestore =
     with_feature env ''backups'' (with_body b (\<lambda>x.
       if ab_id x = [] then Refuse 400
       else (if ab_database x \<noteq> [] \<or> ab_no_backup x then with_feature env ''backup_fleet'' else (\<lambda>r. r))
         (EnqueueRequest ((app_request KindBackupRestore srv app)
            \<lparr>rq_backup_id := ab_id x, rq_accessory := ab_accessory x, rq_database := ab_database x,
             rq_no_backup := ab_no_backup x\<rparr>))))"
| "app_effect env srv app b DeployPending =
     with_feature env ''config_home'' (EnqueueRequest ((app_request KindDeploy srv app)\<lparr>rq_mode := ''ad-hoc''\<rparr>))"
| "app_effect env srv app b RemoveApp =
     with_cli env (with_body b (\<lambda>x.
       (if ab_no_backup x then with_feature env ''backup_fleet'' else (\<lambda>r. r))
         (EnqueueRequest ((app_request KindRemove srv app)
            \<lparr>rq_purge := ab_purge x, rq_no_backup := ab_no_backup x, rq_redirect := ab_redirect x\<rparr>))))"
| "app_effect env srv app b (Maintenance a) =
     with_cli env (EnqueueRequest ((app_request KindMaintenance srv app)\<lparr>rq_action := a\<rparr>))"
| "app_effect env srv app b LockApp = with_cli env (RunCli [''lock''])"
| "app_effect env srv app b UnlockApp = with_cli env (RunCli [''unlock''])"
| "app_effect env srv app b (AccessoryRun sub name) = with_cli env (RunCli [''accessory'', sub, name])"
| "app_effect env srv app b LogRead = with_cli env (RunCli [''log'', ''--json''])"
| "app_effect env srv app b Drift = with_cli env (RunCli [''drift'', ''--json''])"
| "app_effect env srv app b Stats = with_cli env (RunCli [''stats'', ''--json''])"
| "app_effect env srv app b HealthProbe = with_cli env (RunCli [''health'', ''--json''])"
| "app_effect env srv app b Accessories = with_cli env (RunCli [''accessory'', ''list'', ''--json''])"
| "app_effect env srv app b BackupsList =
     with_feature env ''backups''
       (RunCli ([''backup'', ''list'', ''--json''] @ (if ae_feature env ''backup_fleet'' then [''--databases''] else [])))"
| "app_effect env srv app b InvalidPath = Refuse 400"
| "app_effect env srv app b InvalidName = Refuse 400"
| "app_effect env srv app b ServerNotFound = Refuse 400"
| "app_effect env srv app b NoEndpoint = Refuse 400"
| "app_effect env srv app b UnknownAction = with_cli env (Refuse 400)"
| "app_effect env srv app b (AccessoryUnsupported sub) = with_cli env (Refuse 400)"
| "app_effect env srv app b e = Other e"

end
