(* ===== verification/AppAccess.thy ===== *)
theory AppAccess
  imports AppRoutes OpLifecycle
begin

text \<open>
  The route table of the gate against the dispatch of the app routes: every endpoint is reached
  only with the capability its effect needs. And where the two disagree: a restore of a backup
  is guarded as such on its app route, but the operations API admits the same operation for
  anybody who may deploy.
\<close>

section \<open>The capability an effect needs\<close>

text \<open>
  As \<open>caps.go\<close> describes the tokens: values of secrets, changes of the deploy state, writes of
  configuration, destructive work on backup data, logs, and metadata for the rest.
\<close>

fun needed_cap :: "endpoint \<Rightarrow> string option" where
  "needed_cap EnvValues = Some RevealSecrets"
| "needed_cap KVGet = Some RevealSecrets"
| "needed_cap LogRead = Some ViewLogs"
| "needed_cap (AccessoryRun sub name) = Some (if sub = ''logs'' then ViewLogs else ExecuteDeploy)"
| "needed_cap BackupRestore = Some RestoreData"
| "needed_cap (Lifecycle a) = Some ExecuteDeploy"
| "needed_cap Rollback = Some ExecuteDeploy"
| "needed_cap Redeploy = Some ExecuteDeploy"
| "needed_cap BackupCreate = Some ExecuteDeploy"
| "needed_cap DeployPending = Some ExecuteDeploy"
| "needed_cap RemoveApp = Some ExecuteDeploy"
| "needed_cap LockApp = Some ExecuteDeploy"
| "needed_cap UnlockApp = Some ExecuteDeploy"
| "needed_cap (Maintenance a) = Some ExecuteDeploy"
| "needed_cap SourceReset = Some ExecuteDeploy"
| "needed_cap SourceRetry = Some ExecuteDeploy"
| "needed_cap SourceInstallTimer = Some ExecuteDeploy"
| "needed_cap SourceKey = Some ExecuteMutate"
| "needed_cap SourceHostKey = Some ExecuteMutate"
| "needed_cap SourceRegister = Some ExecuteMutate"
| "needed_cap ConfigPut = Some ExecuteMutate"
| "needed_cap ConfigRestore = Some ExecuteMutate"
| "needed_cap ConfigHome = Some ExecuteMutate"
| "needed_cap EnvSet = Some ExecuteMutate"
| "needed_cap (EnvUnset k) = Some ExecuteMutate"
| "needed_cap SecretsSet = Some ExecuteMutate"
| "needed_cap (SecretsDelete k) = Some ExecuteMutate"
| "needed_cap KVSet = Some ExecuteMutate"
| "needed_cap KVDelete = Some ExecuteMutate"
| "needed_cap UnknownAction = None"
| "needed_cap (AccessoryUnsupported a) = None"
| "needed_cap NoEndpoint = None"
| "needed_cap InvalidPath = None"
| "needed_cap InvalidName = None"
| "needed_cap ServerNotFound = None"
| "needed_cap e = Some ViewMetadata"

section \<open>One action, two parsers\<close>

lemma splitn_three:
  "CHR ''/'' \<notin> set srv \<Longrightarrow> CHR ''/'' \<notin> set app \<Longrightarrow>
   splitn_byte 3 CHR ''/'' (srv @ CHR ''/'' # app @ CHR ''/'' # action) = [srv, app, action]"
  using splitn_two [of "CHR ''/''" srv 1 "app @ CHR ''/'' # action"] splitn_two [of "CHR ''/''" app 0 action]
  by (simp add: numeral_3_eq_3)

lemma name_char_slash [simp]: "\<not> name_char CHR ''/''"
  by code_simp

lemma ValidID_slash: "ValidID s \<Longrightarrow> CHR ''/'' \<notin> set s \<and> s \<noteq> []"
  by (auto simp: ValidID_def list_all_iff)

lemma validAppName_slash: "validAppName s \<Longrightarrow> CHR ''/'' \<notin> set s \<and> s \<noteq> []"
  by (auto simp: validAppName_def list_all_iff)

lemma splitn_shape:
  assumes "splitn_byte 3 c s = parts"
  shows "length parts < 2 \<or> (\<exists>a b. parts = [a, b] \<and> s = a @ c # b \<and> c \<notin> set a \<and> c \<notin> set b) \<or>
    (\<exists>a b t. parts = [a, b, t] \<and> s = a @ c # b @ c # t \<and> c \<notin> set a \<and> c \<notin> set b)"
proof (cases "c \<in> set s")
  case True
  then obtain a r where a: "s = a @ c # r" "c \<notin> set a" by (metis split_list_first)
  have p: "splitn_byte 3 c s = a # splitn_byte 2 c r"
    using splitn_two [OF a(2), of 1 r] a(1) by (simp add: numeral_3_eq_3 numeral_2_eq_2)
  show ?thesis
  proof (cases "c \<in> set r")
    case True
    then obtain b t where b: "r = b @ c # t" "c \<notin> set b" by (metis split_list_first)
    have "splitn_byte 2 c r = [b, t]"
      using splitn_two [OF b(2), of 0 t] b(1) by (simp add: numeral_2_eq_2)
    with p b have "parts = [a, b, t] \<and> s = a @ c # b @ c # t" using a assms by simp
    with a b show ?thesis by blast
  next
    case False
    then have "splitn_byte 2 c r = [r]" by (simp add: numeral_2_eq_2)
    with p have "parts = [a, r] \<and> s = a @ c # r" using a assms by simp
    with a False show ?thesis by blast
  qed
next
  case False
  then have "splitn_byte 3 c s = [s]" by (simp add: numeral_3_eq_3)
  with assms show ?thesis by auto
qed

text \<open>The gate reads the same action, unless the path ends in a slash.\<close>

lemma app_action_eq:
  assumes "CHR ''/'' \<notin> set srv" "srv \<noteq> []" "CHR ''/'' \<notin> set app" "action \<noteq> []" "last action \<noteq> CHR ''/''"
  shows "app_action (''/api/apps/'' @ srv @ CHR ''/'' # app @ CHR ''/'' # action) = action"
proof -
  let ?rest = "srv @ CHR ''/'' # app @ CHR ''/'' # action"
  have "hd srv \<noteq> CHR ''/''" using assms(1,2) by (cases srv) auto
  then have t: "trim_byte CHR ''/'' ?rest = ?rest"
    by (intro trim_byte_id) (use assms in auto)
  have "split_byte CHR ''/'' ?rest = srv # app # split_byte CHR ''/'' action"
    using assms(1,3) by (simp add: split_byte_append)
  moreover have "trim_prefix ''/api/apps/'' (''/api/apps/'' @ ?rest) = ?rest" by (rule trim_prefix_append)
  moreover have "split_byte CHR ''/'' action \<noteq> []" by simp
  ultimately show ?thesis
    unfolding app_action_def Let_def
    by (simp add: t Suc_lessI del: append_Cons append_assoc)
qed

lemma split_two:
  assumes "split_byte c s = [a, b]" shows "s = a @ c # b" "c \<notin> set b"
proof -
  have j: "join_byte c (split_byte c s) = s" by simp
  then show "s = a @ c # b" using assms by simp
  have "c \<notin> set x" if "x \<in> set (split_byte c s)" for x
    using that by (induction s arbitrary: x) (auto split: list.splits if_splits)
  then show "c \<notin> set b" using assms by simp
qed

section \<open>The endpoints that are reached by an action\<close>

definition reaches :: "string \<Rightarrow> string \<Rightarrow> endpoint" where
  "reaches m action =
     (case handleAppConfigRoutes m action of Some e \<Rightarrow> e
      | None \<Rightarrow> (case handleAppSourceRoutes m action of Some e \<Rightarrow> e | None \<Rightarrow> app_switch m action))"

lemma handleAppAction_cases:
  assumes "handleAppAction known m path = e" and "prefix ''/api/apps/'' path" and "needed_cap e \<noteq> None"
  shows "\<exists>srv app. CHR ''/'' \<notin> set srv \<and> srv \<noteq> [] \<and> CHR ''/'' \<notin> set app \<and>
    (path = ''/api/apps/'' @ srv @ CHR ''/'' # app \<and> e = reaches m [] \<or>
     (\<exists>action. path = ''/api/apps/'' @ srv @ CHR ''/'' # app @ CHR ''/'' # action \<and> e = reaches m action))"
proof -
  obtain rest where path: "path = ''/api/apps/'' @ rest" using assms(2) by (auto simp: prefix_def)
  let ?parts = "splitn_byte 3 CHR ''/'' rest"
  have tp: "trim_prefix ''/api/apps/'' path = rest" unfolding path by (rule trim_prefix_append)
  have h: "handleAppAction known m path =
      (if length ?parts < 2 then InvalidPath
       else if \<not> ValidID (?parts ! 0) \<or> \<not> validAppName (?parts ! 1) then InvalidName
       else if \<not> known (?parts ! 0) then ServerNotFound
       else reaches m (if 3 \<le> length ?parts then ?parts ! 2 else []))"
    by (simp add: handleAppAction_def Let_def tp reaches_def)
  from splitn_shape [OF HOL.refl, of "CHR ''/''" rest] show ?thesis
  proof (elim disjE exE conjE)
    assume "length ?parts < 2"
    then show ?thesis using h assms(1,3) by auto
  next
    fix a b assume p: "?parts = [a, b]" "rest = a @ CHR ''/'' # b" "CHR ''/'' \<notin> set a" "CHR ''/'' \<notin> set b"
    then have "ValidID a \<and> e = reaches m []" using h assms(1,3) by (auto split: if_splits)
    then show ?thesis using p path ValidID_slash by blast
  next
    fix a b t assume p: "?parts = [a, b, t]" "rest = a @ CHR ''/'' # b @ CHR ''/'' # t"
      "CHR ''/'' \<notin> set a" "CHR ''/'' \<notin> set b"
    then have "ValidID a \<and> e = reaches m t" using h assms(1,3) by (auto split: if_splits)
    then show ?thesis using p path ValidID_slash by blast
  qed
qed

text \<open>
  The actions with an endpoint, per method; what an endpoint needs and what the table requires is
  then a computation, except for accessories and for the keys of a deletion.
\<close>

definition get_actions :: "string list" where
  "get_actions = [''config'', ''config/history'', ''events'', ''source'', ''source/timer'', ''status'', ''env'',
     ''env/keys'', ''config-authority'', ''releases'', ''backups'', ''secrets'', ''log'', ''drift'', ''stats'',
     ''health'', ''kv'', ''kv/value'', ''accessories'', ''db-actions'']"

definition post_actions :: "string list" where
  "post_actions = [''config/restore'', ''config/home'', ''source/key'', ''source/host-key'', ''source/register'',
     ''source/reset-watermark'', ''source/retry'', ''source/install-timer'', ''env'', ''kv'', ''stop'', ''start'',
     ''restart'', ''rollback'', ''redeploy'', ''secrets'', ''backups/create'', ''backups/restore'', ''deploy'',
     ''remove'', ''lock'', ''unlock'', ''maintenance/on'', ''maintenance/off'']"

definition agrees :: "string list \<Rightarrow> endpoint \<Rightarrow> bool" where
  "agrees cs e \<longleftrightarrow> (case needed_cap e of None \<Rightarrow> False | Some c \<Rightarrow> cs = [c])"

lemma get_table: "list_all (\<lambda>a. a \<noteq> [] \<and> last a \<noteq> CHR ''/'' \<and> agrees (get_capabilities a) (reaches ''GET'' a)) get_actions"
  by code_simp

lemma post_table: "list_all (\<lambda>a. a \<noteq> [] \<and> last a \<noteq> CHR ''/'' \<and> agrees (post_capabilities a) (reaches ''POST'' a)) post_actions"
  by code_simp

lemma get_none: "a \<notin> set get_actions \<Longrightarrow> reaches ''GET'' a = NoEndpoint"
  by (simp add: get_actions_def reaches_def handleAppConfigRoutes_def handleAppSourceRoutes_def app_switch_def)

lemma post_none:
  assumes "a \<notin> set post_actions" and "\<not> prefix ''accessories/'' a"
  shows "reaches ''POST'' a = UnknownAction"
  using assms by (simp add: post_actions_def reaches_def handleAppConfigRoutes_def handleAppSourceRoutes_def
      app_switch_def handleAppPost_def)

lemma other_methods:
  assumes "m \<noteq> ''GET''" and "m \<noteq> ''POST''" and "needed_cap (reaches m a) \<noteq> None"
  shows "a \<noteq> [] \<and> needed_cap (reaches m a) = Some ExecuteMutate"
  using assms by (auto simp: reaches_def handleAppConfigRoutes_def handleAppSourceRoutes_def app_switch_def
      split: if_splits)

lemma accessory_reach: "reaches ''POST'' (''accessories/'' @ t) = handleAppPost (''accessories/'' @ t)"
  by (simp add: reaches_def handleAppConfigRoutes_def handleAppSourceRoutes_def app_switch_def)

lemma accessory_agrees:
  assumes "needed_cap (reaches ''POST'' (''accessories/'' @ t)) = Some c"
  shows "t \<noteq> [] \<and> last t \<noteq> CHR ''/'' \<and> post_capabilities (''accessories/'' @ t) = [c]"
proof -
  let ?parts = "split_byte CHR ''/'' t"
  have tp: "trim_prefix ''accessories/'' (''accessories/'' @ t) = t" by (rule trim_prefix_append)
  have pc: "post_capabilities (''accessories/'' @ t) =
      (if length ?parts = 2 \<and> ?parts ! 1 = ''logs'' then [ViewLogs] else [ExecuteDeploy])"
    unfolding post_capabilities_def tp by (simp add: Let_def)
  have ha: "handleAppPost (''accessories/'' @ t) =
      (if length ?parts = 2 then
         (if ?parts ! 1 \<in> {''stop'', ''start'', ''logs''} then AccessoryRun (?parts ! 1) (?parts ! 0)
          else AccessoryUnsupported (?parts ! 1)) else UnknownAction)"
    unfolding handleAppPost_def tp by (simp add: Let_def)
  have two: "length ?parts = 2" and sub: "?parts ! 1 \<in> {''stop'', ''start'', ''logs''}"
    and c: "c = (if ?parts ! 1 = ''logs'' then ViewLogs else ExecuteDeploy)"
    using assms unfolding accessory_reach ha by (auto split: if_splits)
  obtain a b where ab: "?parts = [a, b]" using two by (metis length_0_conv length_Suc_conv numeral_2_eq_2)
  have "t = a @ CHR ''/'' # b" by (rule split_two(1) [OF ab])
  then show ?thesis using pc two c sub ab by auto
qed

text \<open>What the gate requires of a request that reaches an endpoint with an effect.\<close>

lemma reaches_agrees:
  assumes "needed_cap (reaches m a) = Some c"
  shows "a \<noteq> [] \<and> (m \<in> {''GET'', ''POST''} \<longrightarrow> last a \<noteq> CHR ''/'') \<and>
    (if m = ''GET'' then get_capabilities a else if m = ''POST'' then post_capabilities a else [ExecuteMutate]) = [c]"
proof -
  consider (get) "m = ''GET''" | (acc) t where "m = ''POST''" "a = ''accessories/'' @ t"
    | (post) "m = ''POST''" "\<not> prefix ''accessories/'' a" | (other) "m \<noteq> ''GET''" "m \<noteq> ''POST''"
    by (auto simp: prefix_def)
  then show ?thesis
  proof cases
    case get
    then have "a \<in> set get_actions" using get_none [of a] assms by (cases "a \<in> set get_actions") auto
    with get_table have "a \<noteq> [] \<and> last a \<noteq> CHR ''/'' \<and> agrees (get_capabilities a) (reaches ''GET'' a)"
      by (simp add: list_all_iff)
    then show ?thesis using get assms by (simp add: agrees_def)
  next
    case acc
    then show ?thesis using accessory_agrees [of t c] assms by simp
  next
    case post
    then have "a \<in> set post_actions" using post_none [of a] assms by (cases "a \<in> set post_actions") auto
    with post_table have "a \<noteq> [] \<and> last a \<noteq> CHR ''/'' \<and> agrees (post_capabilities a) (reaches ''POST'' a)"
      by (simp add: list_all_iff)
    then show ?thesis using post assms by (simp add: agrees_def)
  next
    case other
    then show ?thesis using other_methods [of m a] assms by auto
  qed
qed

lemma app_route_required:
  assumes "prefix ''/api/apps/'' path"
  shows "requiredCapabilities m path = appActionCapabilities m path"
proof -
  obtain r where path: "path = ''/api/apps/'' @ r" using assms by (auto simp: prefix_def)
  have "\<not> list_ex (\<lambda>p. under p path) administerCredentialsPrefixes"
    unfolding path by (simp add: administerCredentialsPrefixes_def under_def)
  moreover have "\<not> under ''/api/alerts/silences'' path" "\<not> prefix ''/api/monitors/'' path"
    "\<not> prefix ''/api/alerts/'' path" "prefix ''/api/'' path" "\<not> prefix ''/api/push/'' path"
    "path \<noteq> ''/api/auth/me''" "path \<noteq> ''/api/auth/password''" "\<not> under ''/api/users'' path"
    "\<not> under ''/api/sso'' path" "path \<noteq> ''/api/apps''"
    unfolding path by (simp_all add: under_def)
  ultimately show ?thesis using assms by (simp add: requiredCapabilities_def)
qed

lemma app_effect_guarded:
  assumes "prefix ''/api/apps/'' path" and "needed_cap (handleAppAction known m path) = Some c"
  shows "requiredCapabilities m path = [c]"
proof -
  obtain srv app where sa: "CHR ''/'' \<notin> set srv" "srv \<noteq> []" "CHR ''/'' \<notin> set app"
    "path = ''/api/apps/'' @ srv @ CHR ''/'' # app \<and> handleAppAction known m path = reaches m [] \<or>
     (\<exists>action. path = ''/api/apps/'' @ srv @ CHR ''/'' # app @ CHR ''/'' # action \<and>
        handleAppAction known m path = reaches m action)"
    using handleAppAction_cases [OF HOL.refl assms(1), of known m] assms(2) by auto
  have "handleAppAction known m path \<noteq> reaches m []"
    using reaches_agrees [of m "[]" c] assms(2) by auto
  then obtain action where a: "path = ''/api/apps/'' @ srv @ CHR ''/'' # app @ CHR ''/'' # action"
    "handleAppAction known m path = reaches m action"
    using sa(4) by blast
  from a(2) assms(2) have "needed_cap (reaches m action) = Some c" by simp
  note r = reaches_agrees [OF this]
  have "app_action path = action" if "m \<in> {''GET'', ''POST''}"
    unfolding a(1) by (rule app_action_eq) (use sa r that in auto)
  with r have "appActionCapabilities m path = [c]"
    unfolding appActionCapabilities_def by (auto split: if_splits)
  then show ?thesis by (simp add: app_route_required [OF assms(1)])
qed

text \<open>
  C7. The route table and the dispatch agree. The gate classifies an app route with its own
  parser of the path; nevertheless, whatever endpoint a request reaches, the gate required of
  it exactly the capability that the effect of this endpoint needs: values of secrets are only
  returned to holders of \<open>reveal.secrets\<close>, logs only to holders of \<open>view.logs\<close>, restores only run
  for holders of \<open>restore.data\<close>, and changes only for those who may deploy or write.
\<close>

theorem gate_guards_every_app_effect:
  assumes "prefix ''/api/apps/'' path" and "needed_cap (handleAppAction known m path) = Some c"
  shows "requiredCapabilities m path = [c]"
  by (rule app_effect_guarded [OF assms])

theorem gate_guards_every_app_effect_witness:
  "handleAppAction (\<lambda>s. s = ''web'') ''GET'' ''/api/apps/web/shop/kv/value'' = KVGet \<and>
   requiredCapabilities ''GET'' ''/api/apps/web/shop/kv/value'' = [RevealSecrets]"
proof -
  have p: "prefix ''/api/apps/'' ''/api/apps/web/shop/kv/value''" by code_simp
  have e: "handleAppAction (\<lambda>s. s = ''web'') ''GET'' ''/api/apps/web/shop/kv/value'' = KVGet" by code_simp
  then have "needed_cap (handleAppAction (\<lambda>s. s = ''web'') ''GET'' ''/api/apps/web/shop/kv/value'') = Some RevealSecrets"
    by simp
  from gate_guards_every_app_effect [OF p this] e show ?thesis by simp
qed

end
