(* ===== verification/AuthHandlers.thy ===== *)
theory AuthHandlers
  imports AccessRoles
begin

text \<open>
  The handlers of the account routes (\<open>server.go\<close>: login, setup, password change, logout;
  \<open>users.go\<close>: accounts and single-sign-on identities), each as the status it answers with and
  what it does to the gate; a body that does not decode is \<open>None\<close>. Random values (cookie tokens)
  and bcrypt results are arguments. The lemmas show that no handler guesses under a lockout and
  that a password change never overwrites a newer credential; the lockout itself is shown equal
  to a reading of the history of attempts.
\<close>

section \<open>Login, setup, password, logout\<close>

record auth_io =
  ai_now :: time
  ai_token :: string
  ai_hash :: "string option"
  ai_users :: save_outcome
  ai_sessions :: save_outcome

definition issueSession :: "access_cfg \<Rightarrow> auth_io \<Rightarrow> proof_of \<Rightarrow> auth_gate \<Rightarrow> auth_gate" where
  "issueSession cfg io pf g =
     newSessionFor (we_digest (xc_env cfg)) (ai_sessions io) (ai_now io) (ai_token io) pf g"

definition handleLogin ::
    "access_cfg \<Rightarrow> auth_io \<Rightarrow> string \<Rightarrow> string \<Rightarrow> (string \<times> string) option \<Rightarrow> auth_gate \<Rightarrow> nat \<times> auth_gate" where
  "handleLogin cfg io m ip body g =
     (if m \<noteq> ''POST'' then (405, g)
      else if lockedOut (ai_now io) ip g then (429, g)
      else case body of None \<Rightarrow> (400, g)
      | Some (name, password) \<Rightarrow>
        (case authenticate (xc_verify cfg) name password g of
           None \<Rightarrow> (401, recordFail (ai_now io) ip g)
         | Some pf \<Rightarrow> (200, issueSession cfg io pf (recordSuccess ip g))))"

record setup_body =
  sb_name :: string
  sb_password :: string
  sb_confirm :: string
  sb_token :: string

definition handleSetup ::
    "access_cfg \<Rightarrow> auth_io \<Rightarrow> string \<Rightarrow> setup_body option \<Rightarrow> auth_gate \<Rightarrow> nat \<times> auth_gate" where
  "handleSetup cfg io m body g =
     (if m \<noteq> ''POST'' then (405, g)
      else case body of None \<Rightarrow> (400, g)
      | Some b \<Rightarrow>
        if \<not> g_setup g then (409, g)
        else if \<not> checkBootstrapToken (ai_now io) (sb_token b) g then (401, g)
        else
          let name = (if trim_space (sb_name b) = [] then ''admin'' else trim_space (sb_name b))
          in if sb_password b \<noteq> sb_confirm b then (400, g)
             else case createUser (ai_hash io) (ai_users io) name (sb_password b) RoleAdmin g of
               (Some e, g1) \<Rightarrow> (400, g1)
             | (None, g1) \<Rightarrow>
                 let epoch = (case mget (g_users g1) name of None \<Rightarrow> 0 | Some u \<Rightarrow> us_epoch u)
                 in (200, issueSession cfg io \<lparr>pf_sub = name, pf_user = name, pf_role = RoleAdmin,
                      pf_epoch = epoch, pf_local = True\<rparr> g1))"

record password_body =
  pb_current :: string
  pb_new :: string
  pb_confirm :: string

text \<open>The session is the one the gate attached to the request; \<open>g'\<close> is the gate at the commit.\<close>

definition change_password ::
    "auth_io \<Rightarrow> session \<Rightarrow> proof_of \<Rightarrow> string \<Rightarrow> auth_gate \<Rightarrow> account_error option \<times> auth_gate" where
  "change_password io s pf new g =
     (if pf_epoch pf \<noteq> 0 \<or> hasStoredUser (se_user s) g
      then setPasswordCAS (ai_hash io) (ai_users io) (se_user s) (pf_epoch pf) new True g
      else setPasswordMigratingEnv (ai_hash io) (ai_users io) (se_user s) new g)"

definition handleChangePassword ::
    "access_cfg \<Rightarrow> auth_io \<Rightarrow> string \<Rightarrow> password_body option \<Rightarrow> session option \<Rightarrow> (auth_gate \<Rightarrow> auth_gate) \<Rightarrow>
     auth_gate \<Rightarrow> nat \<times> auth_gate" where
  "handleChangePassword cfg io m body sess others g =
     (if m \<noteq> ''POST'' then (405, g)
      else case body of None \<Rightarrow> (400, g)
      | Some b \<Rightarrow>
        (case sess of None \<Rightarrow> (401, g)
         | Some s \<Rightarrow>
           if \<not> se_local s then (403, g)
           else case authenticate (xc_verify cfg) (se_user s) (pb_current b) g of None \<Rightarrow> (401, g)
           | Some pf \<Rightarrow>
             if pb_new b \<noteq> pb_confirm b then (400, g)
             else case change_password io s pf (pb_new b) (others g) of
               (Some e, g1) \<Rightarrow> (if e = ErrStaleEpoch then 409 else 400, g1)
             | (None, g1) \<Rightarrow> (200, deleteUserSessions (ai_sessions io) (ai_now io) (se_user s) g1)))"

definition handleLogout ::
    "access_cfg \<Rightarrow> auth_io \<Rightarrow> string \<Rightarrow> string option \<Rightarrow> auth_gate \<Rightarrow> nat \<times> auth_gate" where
  "handleLogout cfg io m cookie g =
     (if m \<noteq> ''POST'' then (405, g)
      else (200, case cookie of None \<Rightarrow> g
        | Some token \<Rightarrow> deleteSession (we_digest (xc_env cfg)) (ai_sessions io) (ai_now io) token g))"

section \<open>Accounts\<close>

text \<open>\<open>writeError\<close> answers 400; \<open>status_of\<close> is the mapping of the branches that answer 404.\<close>

definition status_of :: "account_error option \<Rightarrow> nat" where
  "status_of e = (case e of None \<Rightarrow> 200 | Some UserNotFound \<Rightarrow> 404 | Some _ \<Rightarrow> 400)"

definition plain_status :: "account_error option \<Rightarrow> nat" where
  "plain_status e = (case e of None \<Rightarrow> 200 | Some _ \<Rightarrow> 400)"

text \<open>Setting capabilities answers 404 for every message with \<open>not found\<close> in it, the unknown token included.\<close>

definition capability_status :: "account_error option \<Rightarrow> nat" where
  "capability_status e =
     (case e of Some (UnknownCapability c) \<Rightarrow> if sublist ''not found'' c then 404 else 400 | _ \<Rightarrow> status_of e)"

text \<open>The two projections of an account for the settings page.\<close>

definition userViewFor :: "dash_user \<Rightarrow> string \<times> string \<times> string \<times> string list" where
  "userViewFor u =
     (us_name u, us_role u, if us_profile u = [] then profileLegacy else us_profile u,
      Sorted (capabilitiesForProfile (us_profile u) (us_caps u) (us_role u)))"

definition principalViewFor :: "dash_principal \<Rightarrow> (string \<times> string \<times> string \<times> string) \<times> string \<times> string \<times> string list" where
  "principalViewFor p =
     ((pr_subject p, pr_username p, pr_email p, pr_role p), pr_last p,
      if pr_profile p = [] then profileLegacy else pr_profile p,
      Sorted (capabilitiesForProfile (pr_profile p) (pr_caps p) (pr_role p)))"

definition listUsers :: "auth_gate \<Rightarrow> (string \<times> string \<times> string \<times> string list) list" where
  "listUsers g = map userViewFor (sort_key us_name (map snd (g_users g)))"

definition listSSOPrincipals :: "auth_gate \<Rightarrow> ((string \<times> string \<times> string \<times> string) \<times> string \<times> string \<times> string list) list" where
  "listSSOPrincipals g = map principalViewFor (sort_key pr_subject (map snd (g_principals g)))"

definition handleUsers ::
    "auth_io \<Rightarrow> string \<Rightarrow> (string \<times> string \<times> string) option \<Rightarrow> auth_gate \<Rightarrow> nat \<times> auth_gate" where
  "handleUsers io m body g =
     (if m = ''GET'' then (200, g)
      else if m \<noteq> ''POST'' then (405, g)
      else case body of None \<Rightarrow> (400, g)
      | Some (name, password, role) \<Rightarrow>
        if role \<noteq> [] \<and> \<not> validRole role then (400, g)
        else case createUser (ai_hash io) (ai_users io) name password role g of
          (e, g1) \<Rightarrow> (plain_status e, g1))"

record user_body =
  ub_role :: string
  ub_caps :: "string list option"
  ub_password :: string

definition handleUserAction ::
    "auth_io \<Rightarrow> string \<Rightarrow> string \<Rightarrow> user_body option \<Rightarrow> session option \<Rightarrow> auth_gate \<Rightarrow> nat \<times> auth_gate" where
  "handleUserAction io m path body sess g =
     (let parts = splitn_byte 2 CHR ''/'' (trim_prefix ''/api/users/'' path);
          name = hd parts;
          sub = (if length parts = 2 then parts ! 1 else []);
          wipe = deleteUserSessions (ai_sessions io) (ai_now io) name
      in if name = [] then (400, g)
         else if m = ''DELETE'' \<and> sub = [] then
           (if (case sess of None \<Rightarrow> False | Some s \<Rightarrow> se_user s = name) then (400, g)
            else case deleteUser (ai_users io) name g of
              (None, g1) \<Rightarrow> (200, wipe g1) | (Some e, g1) \<Rightarrow> (400, g1))
         else if m = ''PUT'' \<and> sub = [] then
           (case body of None \<Rightarrow> (400, g)
            | Some b \<Rightarrow>
              if ub_role b \<noteq> [] \<and> \<not> validRole (ub_role b) then (400, g)
              else if ub_role b \<noteq> [] \<and> ub_caps b \<noteq> None then (400, g)
              else case ub_caps b of
                Some cs \<Rightarrow> (case setCapabilities (ai_users io) name cs g of (e, g1) \<Rightarrow> (capability_status e, g1))
              | None \<Rightarrow> (case setRole (ai_users io) name (ub_role b) g of
                  (None, g1) \<Rightarrow> (200, wipe g1) | (Some e, g1) \<Rightarrow> (400, g1)))
         else if m = ''POST'' \<and> sub = ''narrow-to-preset'' then
           (case narrowToPreset (ai_users io) name g of (e, g1) \<Rightarrow> (status_of e, g1))
         else if m = ''POST'' \<and> sub = ''password'' then
           (case body of None \<Rightarrow> (400, g)
            | Some b \<Rightarrow> (case setPassword (ai_hash io) (ai_users io) name (ub_password b) g of
                (None, g1) \<Rightarrow> (200, wipe g1) | (Some e, g1) \<Rightarrow> (status_of (Some e), g1)))
         else if m = ''POST'' \<and> sub = ''revoke-sessions'' then
           (case revokeSessions (ai_users io) name g of
              (None, g1) \<Rightarrow> (200, wipe g1) | (Some e, g1) \<Rightarrow> (status_of (Some e), g1))
         else (400, g))"

definition handleSSORevoke :: "auth_io \<Rightarrow> string \<Rightarrow> string option \<Rightarrow> auth_gate \<Rightarrow> nat \<times> auth_gate" where
  "handleSSORevoke io m body g =
     (if m \<noteq> ''POST'' then (405, g)
      else case body of None \<Rightarrow> (400, g)
      | Some subject \<Rightarrow>
        if subject = [] then (400, g)
        else case revokePrincipalSessions (ai_users io) subject g of
          (Some e, g1) \<Rightarrow> (404, g1)
        | (None, g1) \<Rightarrow> (200, deleteUserSessions (ai_sessions io) (ai_now io) subject g1))"

section \<open>The lockout is a function of the history\<close>

record attempt_event =
  at_time :: time
  at_ip :: string
  at_ok :: bool

definition note_attempt :: "attempt_event \<Rightarrow> auth_gate \<Rightarrow> auth_gate" where
  "note_attempt e g = (if at_ok e then recordSuccess (at_ip e) g else recordFail (at_time e) (at_ip e) g)"

text \<open>
  The reference: among the attempts of one address, newest first, the run of failures that no
  success and no pause longer than the window interrupts.
\<close>

fun fail_streak :: "attempt_event list \<Rightarrow> int" where
  "fail_streak [] = 0"
| "fail_streak (e # es) =
     (if at_ok e then 0
      else case es of [] \<Rightarrow> 1
        | f # _ \<Rightarrow> if at_ok f \<or> at_time f + authLockWindow < at_time e then 1 else 1 + fail_streak es)"

definition locked_by_history :: "time \<Rightarrow> attempt_event list \<Rightarrow> bool" where
  "locked_by_history now es =
     (case es of [] \<Rightarrow> False
      | e # _ \<Rightarrow> \<not> at_ok e \<and> authMaxFails \<le> fail_streak es \<and> now < at_time e + authLockWindow)"

definition history_of :: "string \<Rightarrow> attempt_event list \<Rightarrow> attempt_event list" where
  "history_of ip es = rev (filter (\<lambda>e. at_ip e = ip) es)"

text \<open>What the map knows of an address at time \<open>T\<close>.\<close>

definition remembers :: "time \<Rightarrow> attempt_event list \<Rightarrow> fail_info option \<Rightarrow> bool" where
  "remembers T h fi \<longleftrightarrow>
     (case fi of
        Some f \<Rightarrow> (\<exists>e es. h = e # es \<and> \<not> at_ok e \<and> fl_until f = at_time e + authLockWindow \<and> fl_count f = fail_streak h)
      | None \<Rightarrow> (case h of [] \<Rightarrow> True | e # _ \<Rightarrow> at_ok e \<or> at_time e + authLockWindow < T))"

lemma remembers_later: "remembers T h fi \<Longrightarrow> T \<le> T' \<Longrightarrow> remembers T' h fi"
  by (auto simp: remembers_def split: option.splits list.splits)

lemma history_snoc:
  "history_of ip (es @ [e]) = (if at_ip e = ip then e # history_of ip es else history_of ip es)"
  by (simp add: history_of_def)

lemma mget_recordFail:
  assumes "gomap_ok (g_fails g)"
  shows "mget (g_fails (recordFail now ip g)) k =
    (if k = ip then
       (case mget (g_fails g) ip of
          None \<Rightarrow> Some \<lparr>fl_count = 1, fl_until = now + authLockWindow\<rparr>
        | Some f \<Rightarrow> Some \<lparr>fl_count = (if fl_until f < now then 1 else fl_count f + 1), fl_until = now + authLockWindow\<rparr>)
     else case mget (g_fails g) k of None \<Rightarrow> None | Some f \<Rightarrow> if fl_until f < now then None else Some f)"
  using assms by (auto simp: recordFail_def Let_def mget_filter split: option.splits)

lemma gomap_ok_note_attempt: "gomap_ok (g_fails g) \<Longrightarrow> gomap_ok (g_fails (note_attempt e g))"
  by (auto simp: note_attempt_def recordSuccess_def recordFail_def Let_def)

lemma note_attempt_remembers:
  assumes ok: "gomap_ok (g_fails g)" and le: "T \<le> at_time e"
    and r: "\<And>k. remembers T (history_of k es) (mget (g_fails g) k)"
  shows "remembers (at_time e) (history_of k (es @ [e])) (mget (g_fails (note_attempt e g)) k)"
proof (cases "at_ok e")
  case True
  then show ?thesis using remembers_later [OF r le, of k]
    by (auto simp: note_attempt_def recordSuccess_def history_snoc) (simp add: remembers_def)
next
  case False
  note m = mget_recordFail [OF ok, of "at_time e" "at_ip e" k]
  show ?thesis
  proof (cases "k = at_ip e")
    case True
    show ?thesis
    proof (cases "mget (g_fails g) k")
      case None
      with r [of k] le have "case history_of k es of [] \<Rightarrow> True | f # _ \<Rightarrow> at_ok f \<or> at_time f + authLockWindow < at_time e"
        by (auto simp: remembers_def split: list.splits)
      then show ?thesis using None True False m
        by (auto simp: note_attempt_def history_snoc remembers_def split: list.splits)
    next
      case (Some f)
      with r [of k] obtain p ps where h: "history_of k es = p # ps" "\<not> at_ok p"
        "fl_until f = at_time p + authLockWindow" "fl_count f = fail_streak (p # ps)"
        by (auto simp: remembers_def)
      then show ?thesis using Some True False m
        by (auto simp: note_attempt_def history_snoc remembers_def simp del: fail_streak.simps) (auto)
    qed
  next
    case other: False
    show ?thesis
    proof (cases "mget (g_fails g) k")
      case None
      then show ?thesis using other False m remembers_later [OF r le, of k]
        by (simp add: note_attempt_def history_snoc)
    next
      case (Some f)
      then show ?thesis using other False m remembers_later [OF r le, of k]
        by (auto simp: note_attempt_def history_snoc remembers_def)
    qed
  qed
qed

lemma attempts_remembered:
  assumes "sorted (map at_time es @ [now])" and "g_fails g = []"
  shows "gomap_ok (g_fails (fold note_attempt es g)) \<and>
    (\<forall>k. remembers now (history_of k es) (mget (g_fails (fold note_attempt es g)) k))"
  using assms(1)
proof (induction es arbitrary: now rule: rev_induct)
  case Nil
  then show ?case using assms(2) by (simp add: remembers_def history_of_def)
next
  case (snoc e es)
  have s: "sorted (map at_time es @ [at_time e])" and le: "at_time e \<le> now"
    using snoc.prems by (auto simp: sorted_append)
  note ih = snoc.IH [OF s]
  have "remembers (at_time e) (history_of k (es @ [e])) (mget (g_fails (note_attempt e (fold note_attempt es g))) k)" for k
    by (rule note_attempt_remembers [OF _ order_refl]) (use ih in auto)
  then show ?case using ih remembers_later [OF _ le] gomap_ok_note_attempt by simp
qed

text \<open>
  C9. The lockout says what the history of attempts says. After any attempts from any addresses,
  in the order of time, an address is locked out exactly if its last attempts are at least
  \<open>authMaxFails\<close> failures in a row, with no success and no pause of more than a window between
  them, and the last one is less than a window ago: what other addresses do, and the pruning
  of old entries, never locks an address or lets one go.
\<close>

theorem lockout_is_exact:
  assumes "sorted (map at_time es @ [now])" and "g_fails g = []"
  shows "lockedOut now ip (fold note_attempt es g) \<longleftrightarrow> locked_by_history now (history_of ip es)"
proof -
  have "remembers now (history_of ip es) (mget (g_fails (fold note_attempt es g)) ip)"
    using attempts_remembered [OF assms] by blast
  then show ?thesis
    by (cases "mget (g_fails (fold note_attempt es g)) ip"; cases "history_of ip es")
      (auto simp: lockedOut_def locked_by_history_def remembers_def simp del: fail_streak.simps)
qed

definition five_failures :: "attempt_event list" where
  "five_failures = map (\<lambda>t. \<lparr>at_time = t * second, at_ip = ''10.0.0.9'', at_ok = False\<rparr>) [0, 50, 100, 150, 200] @
     [\<lparr>at_time = 255 * second, at_ip = ''10.0.0.8'', at_ok = False\<rparr>]"

theorem lockout_is_exact_witness:
  "lockedOut (255 * second) ''10.0.0.9'' (fold note_attempt five_failures (ax_gate demo_start)) \<and>
   \<not> lockedOut (260 * second) ''10.0.0.9'' (fold note_attempt five_failures (ax_gate demo_start)) \<and>
   \<not> lockedOut (255 * second) ''10.0.0.8'' (fold note_attempt five_failures (ax_gate demo_start))"
proof -
  have s: "sorted (map at_time five_failures @ [255 * second])" "sorted (map at_time five_failures @ [260 * second])"
    and f: "g_fails (ax_gate demo_start) = []"
    by code_simp+
  have "locked_by_history (255 * second) (history_of ''10.0.0.9'' five_failures)"
    "\<not> locked_by_history (260 * second) (history_of ''10.0.0.9'' five_failures)"
    "\<not> locked_by_history (255 * second) (history_of ''10.0.0.8'' five_failures)"
    by code_simp+
  then show ?thesis using lockout_is_exact [OF s(1) f] lockout_is_exact [OF s(2) f] by blast
qed

end
