(* ===== verification/OperationRoutes.thy ===== *)
theory OperationRoutes
  imports AppAccess AuthHandlers
begin

text \<open>
  The operation routes (\<open>internal/server/operations.go\<close>, \<open>actorFromRequest\<close> in \<open>users.go\<close>) over the
  operation manager: listing, reading, enqueueing, cancelling, retrying, and the event stream.
  The HTTP layer is reduced to the status and the value answered. The theorems compose the
  gate, these handlers and the manager.
\<close>

section \<open>Handlers\<close>

definition actorFromRequest :: "session option \<Rightarrow> actor option" where
  "actorFromRequest sess =
     (case sess of None \<Rightarrow> None
      | Some s \<Rightarrow> Some \<lparr>ac_kind = (if se_local s then ''local'' else ''sso''), ac_subject = se_sub s,
          ac_label = se_user s, ac_capabilities = Sorted (se_caps s), ac_role = se_role s,
          ac_cap_basis = se_basis s\<rparr>)"

definition operationsAvailableFor :: "manager option \<Rightarrow> string \<Rightarrow> nat option" where
  "operationsAvailableFor ops mutation =
     (case ops of None \<Rightarrow> Some 503
      | Some m \<Rightarrow>
        if mutation \<noteq> [] \<and> mutation \<noteq> ''GET'' \<and> mutation \<noteq> ''HEAD'' \<and> mn_readOnly m then Some 503 else None)"

fun writeOperationError :: "manager_error \<Rightarrow> nat" where
  "writeOperationError ErrNotFound = 404"
| "writeOperationError ErrAdmissionBudget = 429"
| "writeOperationError ErrGlobalAdmissionBudget = 429"
| "writeOperationError ErrPrincipalAdmissionBudget = 429"
| "writeOperationError ErrShuttingDown = 503"
| "writeOperationError ErrIdempotencyConflict = 409"
| "writeOperationError ErrNotCancelable = 409"
| "writeOperationError ErrNotRetryable = 409"
| "writeOperationError ErrReconciliationPending = 409"
| "writeOperationError e = 400"

datatype op_reply = OpStatus nat | OpAccepted operation bool | OpShown operation | OpListed "operation list" | OpEvents

definition accepted :: "enqueue_result \<times> manager \<Rightarrow> op_reply \<times> manager" where
  "accepted r =
     (case r of
        (Refused e, m) \<Rightarrow> (OpStatus (writeOperationError e), m)
      | (Replayed op, m) \<Rightarrow> (OpAccepted op True, m)
      | (Admitted op, m) \<Rightarrow> (OpAccepted op False, m))"

text \<open>The clock and the storage outcomes of an admission.\<close>

record op_env =
  oe_cfg :: config
  oe_resolve :: resolver
  oe_now :: time
  oe_admit :: admit_io
  oe_io :: op_io

definition enqueueOperation ::
    "op_env \<Rightarrow> session option \<Rightarrow> string \<Rightarrow> request \<Rightarrow> manager \<Rightarrow> op_reply \<times> manager" where
  "enqueueOperation env sess key req m =
     (case actorFromRequest sess of
        Some a \<Rightarrow>
          if \<not> Allow (NewSet (ac_capabilities a)) ExecuteDeploy then (OpStatus 403, m)
          else if operationsAvailableFor (Some m) ''POST'' \<noteq> None then (OpStatus 503, m)
          else accepted (Enqueue (oe_cfg env) (oe_resolve env) req key (Some a) (oe_now env) (oe_admit env) m)
      | None \<Rightarrow>
          if operationsAvailableFor (Some m) ''POST'' \<noteq> None then (OpStatus 503, m)
          else accepted (Enqueue (oe_cfg env) (oe_resolve env) req key None (oe_now env) (oe_admit env) m))"

text \<open>The query of a listing: the limit after \<open>strconv.Atoi\<close> (\<open>None\<close> in it is not a number).\<close>

record list_query =
  lq_limit :: "int option option"
  lq_status :: string
  lq_target :: string

definition validOperationStatus :: "string \<Rightarrow> bool" where
  "validOperationStatus s \<longleftrightarrow> list_ex (\<lambda>t. status_text t = s)
     [StatusQueued, StatusRunning, StatusCancelRequested, StatusStopping, StatusSucceeded, StatusFailed,
      StatusCanceled, StatusAlreadyCommitted, StatusInterrupted]"

definition handleOperations ::
    "op_env \<Rightarrow> string \<Rightarrow> list_query \<Rightarrow> session option \<Rightarrow> string \<Rightarrow> request option \<Rightarrow> manager \<Rightarrow>
     op_reply \<times> manager" where
  "handleOperations env m q sess key body mn =
     (case operationsAvailableFor (Some mn) m of Some st \<Rightarrow> (OpStatus st, mn)
      | None \<Rightarrow>
        if m = ''GET'' then
          (let limit = (case lq_limit q of None \<Rightarrow> Some 100
                 | Some None \<Rightarrow> None
                 | Some (Some n) \<Rightarrow> if n < 1 \<or> 500 < n then None else Some n)
           in case limit of None \<Rightarrow> (OpStatus 400, mn)
              | Some n \<Rightarrow>
                if lq_status q \<noteq> [] \<and> \<not> validOperationStatus (lq_status q) then (OpStatus 400, mn)
                else (OpListed (List (lq_status q) (lq_target q) n mn), mn))
        else if m = ''POST'' then
          (case body of None \<Rightarrow> (OpStatus 400, mn)
           | Some req \<Rightarrow> enqueueOperation env sess key req mn)
        else (OpStatus 405, mn))"

definition handleOperation ::
    "op_env \<Rightarrow> string \<Rightarrow> string \<Rightarrow> session option \<Rightarrow> manager \<Rightarrow> op_reply \<times> manager" where
  "handleOperation env m path sess mn =
     (case operationsAvailableFor (Some mn) m of Some st \<Rightarrow> (OpStatus st, mn)
      | None \<Rightarrow>
        let parts = split_byte CHR ''/'' (trim_byte CHR ''/'' (trim_prefix ''/api/operations/'' path))
        in if hd parts = [] then (OpStatus 404, mn)
           else if length parts = 1 \<and> m = ''GET'' then
             (case Get (hd parts) mn of Inl e \<Rightarrow> (OpStatus (writeOperationError e), mn) | Inr op \<Rightarrow> (OpShown op, mn))
           else if length parts \<noteq> 2 then (OpStatus 404, mn)
           else if parts ! 1 = ''events'' then (if m \<noteq> ''GET'' then (OpStatus 405, mn) else (OpEvents, mn))
           else if parts ! 1 = ''cancel'' then
             (if m \<noteq> ''POST'' then (OpStatus 405, mn)
              else case Cancel (oe_cfg env) (oe_io env) (hd parts) mn of
                (Inl e, m1) \<Rightarrow> (OpStatus (writeOperationError e), m1) | (Inr op, m1) \<Rightarrow> (OpShown op, m1))
           else if parts ! 1 = ''retry'' then
             (if m \<noteq> ''POST'' then (OpStatus 405, mn)
              else accepted (Retry (oe_cfg env) (oe_resolve env) (hd parts) (actorFromRequest sess)
                (oe_now env) (oe_admit env) mn))
           else (OpStatus 404, mn))"

section \<open>A restore without the capability for it\<close>

lemma Sorted_set: "set (Sorted s) = fst ` set s"
  by (simp add: Sorted_def)

lemma Allow_key: "Allow s c \<Longrightarrow> c \<in> fst ` set s"
  by (force simp: Allow_def dest: mget_SomeD)

lemma actor_may_deploy:
  assumes "Allow (se_caps s) ExecuteDeploy"
  shows "Allow (NewSet (Sorted (se_caps s))) ExecuteDeploy"
proof -
  have "Valid ExecuteDeploy" by code_simp
  then show ?thesis using Allow_key [OF assms] by (simp add: Sorted_set)
qed

lemma deploy_pass:
  assumes "Allow (se_caps s) ExecuteDeploy" and "hr_method r = ''POST''" and "hr_same_origin r"
    and "hr_path r = ''/api/operations'' \<or> (\<exists>i. hr_path r = ''/api/operations/'' @ i @ ''/retry'')"
  shows "authorize r s = PassAs s"
proof -
  have "requiredCapabilities ''POST'' (hr_path r) = [ExecuteDeploy]"
  proof (cases "hr_path r = ''/api/operations''")
    case True
    then show ?thesis by (simp only: True) code_simp
  next
    case False
    then obtain i where i: "hr_path r = ''/api/operations/'' @ i @ ''/retry''" using assms(4) by blast
    show ?thesis unfolding i
      by (simp add: requiredCapabilities_def under_def administerCredentialsPrefixes_def)
  qed
  then show ?thesis using assms by (simp add: authorize_def csrf_guard_def Missing_empty_iff)
qed

lemma retry_parts:
  assumes "oid \<noteq> []" and "CHR ''/'' \<notin> set oid"
  shows "split_byte CHR ''/'' (trim_byte CHR ''/'' (trim_prefix ''/api/operations/'' (''/api/operations/'' @ oid @ ''/retry''))) =
    [oid, ''retry'']"
proof -
  have h: "hd oid \<noteq> CHR ''/''" using assms by (cases oid) auto
  have "trim_prefix ''/api/operations/'' (''/api/operations/'' @ oid @ ''/retry'') = oid @ ''/retry''"
    by (rule trim_prefix_append)
  moreover have "trim_byte CHR ''/'' (oid @ ''/retry'') = oid @ ''/retry''"
    using assms(1) h by (intro trim_byte_id) simp_all
  moreover have "split_byte CHR ''/'' (oid @ ''/retry'') = [oid, ''retry'']"
    using split_byte_append [OF assms(2), of "''retry''"] by simp
  ultimately show ?thesis by simp
qed

text \<open>
  C11. A restore needs \<open>restore.data\<close> on its own route only. Take any principal that holds \<open>execute.deploy\<close> but
  not \<open>restore.data\<close>, as every account with the operator preset. Its request for the restore of a
  backup is refused by the gate, whatever the server and the app are; the same restore posted
  to the operations API passes, and the handler asks nothing that depends on the kind of the
  operation: it is admitted exactly as the manager admits any request. In the same way
  a request to repeat an operation with \<open>retry\<close> passes and is answered as the manager answers any retry, also
  when the operation is a restore.
\<close>

theorem restore_guard_is_bypassed:
  assumes "Allow (se_caps s) ExecuteDeploy" and "\<not> Allow (se_caps s) RestoreData"
    and "hr_method r = ''POST''" and "hr_same_origin r" and "\<not> mn_readOnly mn"
    and "handleAppAction known ''POST'' restore_path = BackupRestore" and "prefix ''/api/apps/'' restore_path"
    and "oid \<noteq> []" and "CHR ''/'' \<notin> set oid"
  shows "authorize (r\<lparr>hr_path := restore_path\<rparr>) s = Reply 403 \<and>
    authorize (r\<lparr>hr_path := ''/api/operations''\<rparr>) s = PassAs s \<and>
    handleOperations env ''POST'' q (Some s) key (Some req) mn =
      accepted (Enqueue (oe_cfg env) (oe_resolve env) req key (actorFromRequest (Some s)) (oe_now env) (oe_admit env) mn) \<and>
    authorize (r\<lparr>hr_path := ''/api/operations/'' @ oid @ ''/retry''\<rparr>) s = PassAs s \<and>
    handleOperation env ''POST'' (''/api/operations/'' @ oid @ ''/retry'') (Some s) mn =
      accepted (Retry (oe_cfg env) (oe_resolve env) oid (actorFromRequest (Some s)) (oe_now env) (oe_admit env) mn)"
proof (intro conjI)
  show "handleOperation env ''POST'' (''/api/operations/'' @ oid @ ''/retry'') (Some s) mn =
      accepted (Retry (oe_cfg env) (oe_resolve env) oid (actorFromRequest (Some s)) (oe_now env) (oe_admit env) mn)"
    using retry_parts [OF assms(8,9)] assms(5,8)
    by (simp add: handleOperation_def operationsAvailableFor_def)
  have "needed_cap (handleAppAction known ''POST'' restore_path) = Some RestoreData" using assms(6) by simp
  then have "requiredCapabilities ''POST'' restore_path = [RestoreData]"
    using app_effect_guarded [OF assms(7)] by blast
  then show "authorize (r\<lparr>hr_path := restore_path\<rparr>) s = Reply 403"
    using assms(2-4) by (simp add: authorize_def csrf_guard_def Missing_def)
  show "authorize (r\<lparr>hr_path := ''/api/operations''\<rparr>) s = PassAs s"
    "authorize (r\<lparr>hr_path := ''/api/operations/'' @ oid @ ''/retry''\<rparr>) s = PassAs s"
    using deploy_pass [OF assms(1), of "r\<lparr>hr_path := ''/api/operations''\<rparr>"]
      deploy_pass [OF assms(1), of "r\<lparr>hr_path := ''/api/operations/'' @ oid @ ''/retry''\<rparr>"] assms(3,4)
    by simp_all
  show "handleOperations env ''POST'' q (Some s) key (Some req) mn =
      accepted (Enqueue (oe_cfg env) (oe_resolve env) req key (actorFromRequest (Some s)) (oe_now env) (oe_admit env) mn)"
    using actor_may_deploy [OF assms(1)] assms(5)
    by (simp add: handleOperations_def operationsAvailableFor_def enqueueOperation_def actorFromRequest_def)
qed

definition operator_session :: session where
  "operator_session = \<lparr>se_sub = ''eve'', se_user = ''eve'', se_role = ''editor'', se_exp = 100, se_epoch = 2,
     se_local = True, se_caps = PresetForRole ''editor'', se_basis = profilePreset\<rparr>"

definition restore_request :: request where
  "restore_request = (app_request KindBackupRestore ''web'' ''shop'')\<lparr>rq_backup_id := ''20240101-120000''\<rparr>"

definition restore_env :: op_env where
  "restore_env = \<lparr>oe_cfg = demo_config, oe_resolve = demo_resolver, oe_now = 1,
     oe_admit = \<lparr>ai_id = Some ''r'', ai_io = demo_io 1, ai_discard = True\<rparr>, oe_io = demo_io 1\<rparr>"

definition any_query :: list_query where
  "any_query = \<lparr>lq_limit = None, lq_status = [], lq_target = []\<rparr>"

text \<open>The restore is admitted, canceled before it starts, and then retried.\<close>

definition restore_target :: string where
  "restore_target = ''server:web/app:shop''"

definition canceled_restore :: manager where
  "canceled_restore = fold (perform demo_config)
     [DoCancel (demo_io 2) ''r'', DoPop restore_target, DoCheckContext restore_target, DoFinish restore_target (demo_io 3)]
     (snd (handleOperations restore_env ''POST'' any_query (Some operator_session) ''k'' (Some restore_request)
        (empty_manager False 0)))"

definition retry_env :: op_env where
  "retry_env = restore_env\<lparr>oe_now := 4, oe_admit := \<lparr>ai_id = Some ''q'', ai_io = demo_io 4, ai_discard = True\<rparr>\<rparr>"

definition accepts_restore :: "op_reply \<Rightarrow> bool" where
  "accepts_restore a \<longleftrightarrow> (case a of
     OpAccepted op replayed \<Rightarrow> rq_kind (op_request op) = KindBackupRestore \<and> op_status op = StatusQueued \<and> \<not> replayed
   | _ \<Rightarrow> False)"

theorem restore_guard_is_bypassed_witness:
  "authorize (web_request ''POST'' ''/api/apps/web/shop/backups/restore'' ''t'') operator_session = Reply 403 \<and>
   authorize (web_request ''POST'' ''/api/operations'' ''t'') operator_session = PassAs operator_session \<and>
   accepts_restore (fst (handleOperations restore_env ''POST'' any_query (Some operator_session) ''k''
     (Some restore_request) (empty_manager False 0))) \<and>
   authorize (web_request ''POST'' ''/api/operations/r/retry'' ''t'') operator_session = PassAs operator_session \<and>
   accepts_restore (fst (handleOperation retry_env ''POST'' ''/api/operations/r/retry'' (Some operator_session)
     canceled_restore))"
proof -
  let ?r = "web_request ''POST'' [] ''t''" and ?p = "''/api/apps/web/shop/backups/restore''"
  have a: "Allow (se_caps operator_session) ExecuteDeploy" "\<not> Allow (se_caps operator_session) RestoreData"
    by code_simp+
  have r: "hr_method ?r = ''POST''" "hr_same_origin ?r" by (simp_all add: web_request_def)
  have ro: "\<not> mn_readOnly (empty_manager False 0)" "\<not> mn_readOnly canceled_restore" by code_simp+
  have e: "handleAppAction (\<lambda>s. s = ''web'') ''POST'' ?p = BackupRestore" by code_simp
  have p: "prefix ''/api/apps/'' ?p" by code_simp
  have o: "''r'' \<noteq> []" "CHR ''/'' \<notin> set ''r''" by simp_all
  note b = restore_guard_is_bypassed [OF a r ro(1) e p o, of restore_env any_query "''k''" restore_request]
  note c = restore_guard_is_bypassed [OF a r ro(2) e p o, of retry_env any_query "''k''" restore_request]
  have w: "?r\<lparr>hr_path := path\<rparr> = web_request ''POST'' path ''t''" for path by (simp add: web_request_def)
  have "accepts_restore (fst (accepted (Enqueue demo_config demo_resolver restore_request ''k''
      (actorFromRequest (Some operator_session)) 1 \<lparr>ai_id = Some ''r'', ai_io = demo_io 1, ai_discard = True\<rparr>
      (empty_manager False 0))))"
    "accepts_restore (fst (accepted (Retry demo_config demo_resolver ''r''
      (actorFromRequest (Some operator_session)) 4 \<lparr>ai_id = Some ''q'', ai_io = demo_io 4, ai_discard = True\<rparr>
      canceled_restore)))"
    by code_simp+
  with b c show ?thesis by (simp add: w restore_env_def retry_env_def)
qed

end
