(* ===== verification/McpServer.thy ===== *)
theory McpServer
  imports McpTokens OperationRoutes
begin

text \<open>
  The MCP endpoint (\<open>internal/mcp/mcp.go\<close>), its tools (\<open>internal/mcp/tools.go\<close>) and what they run
  (\<open>internal/server/mcp.go\<close>). JSON is modelled from the decoded value on; \<open>JDec m e\<close> is a number
  written with a fraction or an exponent, of value \<open>m * 10 ^ e\<close>. The theorems say which token
  reaches which tool, and compare the tools with the buttons of the dashboard.
\<close>

section \<open>Arguments\<close>

datatype json = JNull | JBool bool | JInt int | JDec int int | JStr string | JArr "json list"
  | JObj "(string \<times> json) list"

type_synonym arguments = "(string, json) gomap"

text \<open>Of a repeated key the last one counts.\<close>

definition object_map :: "(string \<times> json) list \<Rightarrow> arguments" where
  "object_map fs = fold (\<lambda>(k, v) m. mput k v m) fs []"

definition strArg :: "arguments \<Rightarrow> string \<Rightarrow> string option" where
  "strArg args k = (case mget args k of Some (JStr v) \<Rightarrow> if v = [] then None else Some v | _ \<Rightarrow> None)"

definition in_range :: "int \<Rightarrow> int \<Rightarrow> int \<Rightarrow> int option" where
  "in_range lo hi n = (if n < lo \<or> hi < n then None else Some n)"

definition intArg :: "arguments \<Rightarrow> string \<Rightarrow> int \<Rightarrow> int \<Rightarrow> int \<Rightarrow> int option" where
  "intArg args k def lo hi =
     (case mget args k of
        None \<Rightarrow> Some def
      | Some JNull \<Rightarrow> Some def
      | Some (JInt n) \<Rightarrow> in_range lo hi n
      | Some (JDec m e) \<Rightarrow>
          if 0 \<le> e then in_range lo hi (m * 10 ^ nat e)
          else if m mod 10 ^ nat (- e) = 0 then in_range lo hi (m div 10 ^ nat (- e)) else None
      | _ \<Rightarrow> None)"

definition serverApp :: "arguments \<Rightarrow> (string \<times> string) option" where
  "serverApp args =
     (case strArg args ''server'' of None \<Rightarrow> None
      | Some srv \<Rightarrow> (case strArg args ''app'' of None \<Rightarrow> None | Some app \<Rightarrow> Some (srv, app)))"

section \<open>Tools\<close>

datatype backend_call =
  ListApps | GetApp string string | AppLogs string string int | ListServers | ListMonitorsCall
| ListEnvKeys string string | Deploy string string string string int | RollbackApp string string
| AppAction string string string | SetEnv string string string string | UnsetEnv string string string

record tool =
  tl_name :: string
  tl_props :: "(string \<times> string) list"
  tl_readOnly :: bool
  tl_destructive :: bool
  tl_cap :: string
  tl_run :: "arguments \<Rightarrow> backend_call option"

definition serverAppSchema :: "(string \<times> string) list" where
  "serverAppSchema = [(''server'', ''string''), (''app'', ''string'')]"

definition for_app :: "(string \<Rightarrow> string \<Rightarrow> backend_call) \<Rightarrow> arguments \<Rightarrow> backend_call option" where
  "for_app f args = map_option (\<lambda>(srv, app). f srv app) (serverApp args)"

definition read_tool ::
    "string \<Rightarrow> (string \<times> string) list \<Rightarrow> string \<Rightarrow> (arguments \<Rightarrow> backend_call option) \<Rightarrow> tool" where
  "read_tool name props c run =
     \<lparr>tl_name = name, tl_props = props, tl_readOnly = True, tl_destructive = False, tl_cap = c, tl_run = run\<rparr>"

definition write_tool ::
    "string \<Rightarrow> (string \<times> string) list \<Rightarrow> string \<Rightarrow> (arguments \<Rightarrow> backend_call option) \<Rightarrow> tool" where
  "write_tool name props c run =
     \<lparr>tl_name = name, tl_props = props, tl_readOnly = False, tl_destructive = True, tl_cap = c, tl_run = run\<rparr>"

definition simpleAction :: "string \<Rightarrow> string \<Rightarrow> bool \<Rightarrow> string \<Rightarrow> tool" where
  "simpleAction name verb destructive c =
     \<lparr>tl_name = name, tl_props = serverAppSchema, tl_readOnly = False, tl_destructive = destructive,
      tl_cap = c, tl_run = for_app (\<lambda>srv app. AppAction srv app verb)\<rparr>"

definition run_logs :: "arguments \<Rightarrow> backend_call option" where
  "run_logs args =
     (case serverApp args of None \<Rightarrow> None
      | Some (srv, app) \<Rightarrow> map_option (AppLogs srv app) (intArg args ''lines'' 100 1 500))"

definition run_deploy :: "arguments \<Rightarrow> backend_call option" where
  "run_deploy args =
     (case serverApp args of None \<Rightarrow> None
      | Some (srv, app) \<Rightarrow>
        (case strArg args ''image'' of None \<Rightarrow> None
         | Some img \<Rightarrow>
             let domain = (case mget args ''domain'' of Some (JStr d) \<Rightarrow> d | _ \<Rightarrow> [])
             in map_option (Deploy srv app img domain) (intArg args ''port'' 0 1 65535)))"

definition run_set_env :: "arguments \<Rightarrow> backend_call option" where
  "run_set_env args =
     (case serverApp args of None \<Rightarrow> None
      | Some (srv, app) \<Rightarrow>
        (case strArg args ''key'' of None \<Rightarrow> None
         | Some k \<Rightarrow> (case mget args ''value'' of Some (JStr v) \<Rightarrow> Some (SetEnv srv app k v) | _ \<Rightarrow> None)))"

definition run_unset_env :: "arguments \<Rightarrow> backend_call option" where
  "run_unset_env args =
     (case serverApp args of None \<Rightarrow> None
      | Some (srv, app) \<Rightarrow> map_option (UnsetEnv srv app) (strArg args ''key''))"

definition Tools :: "tool list" where
  "Tools =
     [read_tool ''teploy_list_apps'' [] ViewMetadata (\<lambda>_. Some ListApps),
      read_tool ''teploy_get_app'' serverAppSchema ViewMetadata (for_app GetApp),
      read_tool ''teploy_app_logs'' (serverAppSchema @ [(''lines'', ''integer'')]) ViewLogs run_logs,
      read_tool ''teploy_list_servers'' [] ViewMetadata (\<lambda>_. Some ListServers),
      read_tool ''teploy_list_monitors'' [] ViewMetadata (\<lambda>_. Some ListMonitorsCall),
      read_tool ''teploy_list_env_keys'' serverAppSchema ViewMetadata (for_app ListEnvKeys),
      write_tool ''teploy_deploy''
        (serverAppSchema @ [(''image'', ''string''), (''domain'', ''string''), (''port'', ''integer'')])
        ExecuteDeploy run_deploy,
      write_tool ''teploy_rollback'' serverAppSchema ExecuteDeploy (for_app RollbackApp),
      simpleAction ''teploy_restart'' ''restart'' True ExecuteDeploy,
      simpleAction ''teploy_stop'' ''stop'' True ExecuteDeploy,
      simpleAction ''teploy_start'' ''start'' False ExecuteDeploy,
      simpleAction ''teploy_lock'' ''lock'' False ExecuteDeploy,
      simpleAction ''teploy_unlock'' ''unlock'' False ExecuteDeploy,
      simpleAction ''teploy_maintenance_on'' ''maintenance on'' False ExecuteDeploy,
      simpleAction ''teploy_maintenance_off'' ''maintenance off'' False ExecuteDeploy,
      write_tool ''teploy_set_env'' (serverAppSchema @ [(''key'', ''string''), (''value'', ''string'')])
        ExecuteMutate run_set_env,
      write_tool ''teploy_unset_env'' (serverAppSchema @ [(''key'', ''string'')]) ExecuteMutate run_unset_env]"

section \<open>The endpoint\<close>

fun validateScalarType :: "string \<Rightarrow> json \<Rightarrow> bool" where
  "validateScalarType expected v =
     (if expected = ''string'' then (case v of JStr _ \<Rightarrow> True | _ \<Rightarrow> False)
      else if expected = ''integer'' then (case v of JInt n \<Rightarrow> - (2 ^ 63) \<le> n \<and> n < 2 ^ 63 | _ \<Rightarrow> False)
      else if expected = ''number'' then (case v of JInt _ \<Rightarrow> True | JDec _ _ \<Rightarrow> True | _ \<Rightarrow> False)
      else if expected = ''boolean'' then (case v of JBool _ \<Rightarrow> True | _ \<Rightarrow> False)
      else True)"

definition find_tool :: "string \<Rightarrow> tool option" where
  "find_tool name = find (\<lambda>t. tl_name t = name) Tools"

definition validateToolArguments :: "string \<Rightarrow> json option \<Rightarrow> bool" where
  "validateToolArguments name raw =
     (case find_tool name of None \<Rightarrow> True
      | Some t \<Rightarrow>
        (case raw of
           None \<Rightarrow> True
         | Some (JObj fs) \<Rightarrow>
             list_all (\<lambda>(k, v). case map_of (tl_props t) k of None \<Rightarrow> False
               | Some ty \<Rightarrow> v \<noteq> JNull \<and> validateScalarType ty v) (object_map fs)
         | Some _ \<Rightarrow> False))"

text \<open>
  A request: \<open>rp_id\<close> is \<open>None\<close> when the field is absent; \<open>rp_init\<close> and \<open>rp_call\<close> are the parameters
  decoded for \<open>initialize\<close> and \<open>tools/call\<close>, \<open>None\<close> when that fails.
\<close>

record rpc_request =
  rp_version :: string
  rp_id :: "json option"
  rp_method :: string
  rp_init :: "string option"
  rp_call :: "(string \<times> json option) option"

datatype rpc_body = Unparsed | Trailing | Parsed rpc_request

record mcp_request =
  mr_method :: string
  mr_origin :: string
  mr_same_origin :: bool
  mr_protocol :: string
  mr_auth :: string
  mr_body :: rpc_body

definition supportedProtocols :: "string list" where
  "supportedProtocols = [''2025-06-18'', ''2025-03-26'', ''2024-11-05'']"

definition latestProtocol :: string where "latestProtocol = ''2025-06-18''"

datatype mcp_answer =
  HttpError nat | RpcError int | NoContent | Negotiated string | Pong | ToolNames "string list"
| ToolFailed | ToolRuns token backend_call

fun validRPCID :: "json \<Rightarrow> bool" where
  "validRPCID (JStr s) = True"
| "validRPCID (JInt n) = True"
| "validRPCID (JDec m e) = True"
| "validRPCID v = False"

definition authenticate_bearer ::
    "(string \<Rightarrow> string) \<Rightarrow> save_outcome \<Rightarrow> time \<Rightarrow> string \<Rightarrow> token_store \<Rightarrow> token option \<times> token_store" where
  "authenticate_bearer digest sv now auth ts =
     (if \<not> prefix ''Bearer '' auth then (None, ts)
      else Verify digest sv now (trim_space (trim_prefix ''Bearer '' auth)) ts)"

definition callTool :: "string \<Rightarrow> arguments \<Rightarrow> token \<Rightarrow> mcp_answer" where
  "callTool name args tok =
     (case find_tool name of None \<Rightarrow> ToolFailed
      | Some t \<Rightarrow>
        if \<not> Allow (CapabilitySet tok) (tl_cap t) then ToolFailed
        else case tl_run t args of None \<Rightarrow> ToolFailed | Some c \<Rightarrow> ToolRuns tok c)"

definition dispatch :: "rpc_request \<Rightarrow> token \<Rightarrow> mcp_answer" where
  "dispatch req tok =
     (if rp_method req = ''initialize'' then
        (case rp_init req of None \<Rightarrow> RpcError (-32602)
         | Some v \<Rightarrow> Negotiated (if v \<in> set supportedProtocols then v else latestProtocol))
      else if rp_method req = ''ping'' then Pong
      else if rp_method req = ''tools/list'' then
        ToolNames (map tl_name (filter (\<lambda>t. Allow (CapabilitySet tok) (tl_cap t)) Tools))
      else if rp_method req = ''tools/call'' then
        (case rp_call req of None \<Rightarrow> RpcError (-32602)
         | Some (name, raw) \<Rightarrow>
             if \<not> validateToolArguments name raw then RpcError (-32602)
             else case raw of
               None \<Rightarrow> callTool name [] tok
             | Some JNull \<Rightarrow> callTool name [] tok
             | Some (JObj fs) \<Rightarrow> callTool name (object_map fs) tok
             | Some _ \<Rightarrow> RpcError (-32602))
      else RpcError (-32601))"

definition ServeHTTP ::
    "(string \<Rightarrow> string) \<Rightarrow> save_outcome \<Rightarrow> time \<Rightarrow> mcp_request \<Rightarrow> token_store \<Rightarrow> mcp_answer \<times> token_store" where
  "ServeHTTP digest sv now r ts =
     (if mr_method r \<noteq> ''POST'' then (HttpError 405, ts)
      else if mr_origin r \<noteq> [] \<and> \<not> mr_same_origin r then (HttpError 403, ts)
      else if mr_protocol r \<noteq> [] \<and> mr_protocol r \<notin> set supportedProtocols then (HttpError 400, ts)
      else case authenticate_bearer digest sv now (mr_auth r) ts of
        (None, ts1) \<Rightarrow> (HttpError 401, ts1)
      | (Some tok, ts1) \<Rightarrow>
        (case mr_body r of
           Unparsed \<Rightarrow> (RpcError (-32700), ts1)
         | Trailing \<Rightarrow> (RpcError (-32700), ts1)
         | Parsed req \<Rightarrow>
             if rp_version req \<noteq> ''2.0'' then (RpcError (-32600), ts1)
             else case rp_id req of
               None \<Rightarrow> (NoContent, ts1)
             | Some v \<Rightarrow> if validRPCID v then (dispatch req tok, ts1) else (RpcError (-32600), ts1)))"

section \<open>What the tools run\<close>

text \<open>
  \<open>me_servers\<close> is the list \<open>lookupServer\<close> reads and \<open>me_strict\<close> the answer of \<open>resolveServers\<close>;
  \<open>me_owned\<close> says which keys belong to the settings of the app, \<open>me_stdin\<close> is the probe of the CLI
  for \<open>--stdin\<close> (\<open>None\<close>: no answer) and \<open>me_legacy\<close> the operator's consent to values on the command line.
\<close>

record mcp_env =
  me_ops :: bool
  me_cli :: bool
  me_servers :: "server list"
  me_strict :: "server list option"
  me_owned :: "string \<Rightarrow> string \<Rightarrow> string \<Rightarrow> bool"
  me_stdin :: "bool option"
  me_legacy :: bool

datatype backend_effect = BackendError | Enqueues actor request | RunsCli "string list" string | Answers

definition lookupServer :: "string \<Rightarrow> server list \<Rightarrow> server option" where
  "lookupServer name srvs = find (\<lambda>v. sv_name v = name) srvs"

definition userArgs :: "string \<Rightarrow> string list" where
  "userArgs user = (if user = [] then [] else [''--user'', user])"

definition token_actor :: "token \<Rightarrow> actor" where
  "token_actor tok =
     \<lparr>ac_kind = ''mcp'', ac_subject = ''mcp-token/'' @ tk_id tok, ac_label = tk_name tok,
      ac_capabilities = (case tk_caps tok of None \<Rightarrow> Sorted OperatorDefault | Some cs \<Rightarrow> Sorted (NewSet cs)),
      ac_role = [], ac_cap_basis = (case tk_caps tok of None \<Rightarrow> ''preset'' | Some cs \<Rightarrow> ''custom'')\<rparr>"

definition enqueueMutation :: "mcp_env \<Rightarrow> token \<Rightarrow> request \<Rightarrow> backend_effect" where
  "enqueueMutation env tok req = (if me_ops env then Enqueues (token_actor tok) req else BackendError)"

definition cliAppRun :: "mcp_env \<Rightarrow> string \<Rightarrow> string \<Rightarrow> string list \<Rightarrow> backend_effect" where
  "cliAppRun env srv app parts =
     (case me_strict env of None \<Rightarrow> BackendError
      | Some srvs \<Rightarrow>
        (case lookupServer srv srvs of None \<Rightarrow> BackendError
         | Some v \<Rightarrow> RunsCli (parts @ [''--host'', sv_host v, ''--app'', app] @ userArgs (sv_user v)) []))"

definition validEnvKey :: "string \<Rightarrow> bool" where
  "validEnvKey k \<longleftrightarrow> k \<noteq> [] \<and> list_all (\<lambda>c. is_upper c \<or> is_lower c \<or> c = CHR ''_'' \<or> is_digit c) k \<and>
     \<not> is_digit (hd k)"

text \<open>A call of the CLI on a server known by name.\<close>

definition on_server :: "mcp_env \<Rightarrow> string \<Rightarrow> (server \<Rightarrow> backend_effect) \<Rightarrow> backend_effect" where
  "on_server env srv f =
     (if \<not> me_cli env then BackendError
      else case lookupServer srv (me_servers env) of None \<Rightarrow> BackendError | Some v \<Rightarrow> f v)"

definition cli_EnvSet :: "mcp_env \<Rightarrow> server \<Rightarrow> string \<Rightarrow> string \<Rightarrow> string \<Rightarrow> backend_effect" where
  "cli_EnvSet env v app k x =
     (case me_stdin env of
        None \<Rightarrow> BackendError
      | Some True \<Rightarrow>
          RunsCli ([''env'', ''set'', k, ''--stdin'', ''--host'', sv_host v, ''--app'', app] @ userArgs (sv_user v)) x
      | Some False \<Rightarrow>
          if x \<noteq> [] \<and> \<not> me_legacy env then BackendError
          else RunsCli ([''env'', ''set'', k @ ''='' @ x, ''--host'', sv_host v, ''--app'', app]
            @ userArgs (sv_user v)) [])"

fun backend :: "mcp_env \<Rightarrow> token \<Rightarrow> backend_call \<Rightarrow> backend_effect" where
  "backend env tok (Deploy srv app img domain port) =
     enqueueMutation env tok ((app_request KindDeploy srv app)
       \<lparr>rq_mode := ''ad-hoc'', rq_image := img, rq_domain := domain, rq_port := port\<rparr>)"
| "backend env tok (RollbackApp srv app) = enqueueMutation env tok (app_request KindRollback srv app)"
| "backend env tok (AppAction srv app action) =
     (if action \<in> {''stop'', ''start'', ''restart''} then
        enqueueMutation env tok ((app_request KindAppLifecycle srv app)\<lparr>rq_action := action\<rparr>)
      else on_server env srv (\<lambda>_. cliAppRun env srv app (filter (\<lambda>w. w \<noteq> []) (split_byte CHR '' '' action))))"
| "backend env tok (AppLogs srv app n) =
     on_server env srv (\<lambda>v. RunsCli ([''logs'', ''--host'', sv_host v, ''--app'', app, ''--tail'', show_int n]
       @ userArgs (sv_user v)) [])"
| "backend env tok (ListEnvKeys srv app) =
     on_server env srv (\<lambda>v. RunsCli ([''env'', ''list'', ''--host'', sv_host v, ''--app'', app, ''--reveal'']
       @ userArgs (sv_user v)) [])"
| "backend env tok (SetEnv srv app k x) =
     (if \<not> me_cli env \<or> \<not> validEnvKey k \<or> me_owned env srv app k then BackendError
      else on_server env srv (\<lambda>v. cli_EnvSet env v app k x))"
| "backend env tok (UnsetEnv srv app k) =
     (if \<not> me_cli env \<or> \<not> validEnvKey k \<or> me_owned env srv app k then BackendError
      else on_server env srv (\<lambda>v. RunsCli ([''env'', ''unset'', k, ''--host'', sv_host v, ''--app'', app]
        @ userArgs (sv_user v)) []))"
| "backend env tok ListApps = Answers"
| "backend env tok (GetApp srv app) = Answers"
| "backend env tok ListServers = Answers"
| "backend env tok ListMonitorsCall = Answers"

section \<open>Managing the tokens\<close>

record token_body =
  tb_name :: string
  tb_read_only :: bool
  tb_caps :: "string list"

datatype token_reply = TokenStatus nat | TokensShown "(string \<times> string list) list" | TokenMinted string token

definition handleMCPTokens ::
    "(string \<Rightarrow> string) \<Rightarrow> mint \<Rightarrow> save_outcome \<Rightarrow> time \<Rightarrow> string \<Rightarrow> token_body option \<Rightarrow> token_store option \<Rightarrow>
     token_reply \<times> token_store option" where
  "handleMCPTokens digest rnd sv now m body store =
     (case store of None \<Rightarrow> (TokenStatus 400, None)
      | Some ts \<Rightarrow>
        if m = ''GET'' then
          (TokensShown (map (\<lambda>t. (tk_id t, Sorted (CapabilitySet t))) (List_tokens ts)), Some ts)
        else if m = ''POST'' then
          (case body of None \<Rightarrow> (TokenStatus 400, Some ts)
           | Some b \<Rightarrow>
             (case (if tb_caps b \<noteq> []
                    then CreateWithCapabilities digest rnd sv now (trim_space (tb_name b)) (tb_caps b) ts
                    else Create_token digest rnd sv now (trim_space (tb_name b)) (tb_read_only b) ts) of
                (Inl e, ts1) \<Rightarrow> (TokenStatus 400, Some ts1)
              | (Inr (plaintext, t), ts1) \<Rightarrow> (TokenMinted plaintext t, Some ts1)))
        else (TokenStatus 405, Some ts))"

definition handleMCPTokenDelete ::
    "save_outcome \<Rightarrow> string \<Rightarrow> string \<Rightarrow> token_store option \<Rightarrow> token_reply \<times> token_store option" where
  "handleMCPTokenDelete sv m path store =
     (case store of None \<Rightarrow> (TokenStatus 400, None)
      | Some ts \<Rightarrow>
        if m \<noteq> ''DELETE'' then (TokenStatus 405, Some ts)
        else
          let tid = trim_prefix ''/api/mcp-tokens/'' path
          in if tid = [] then (TokenStatus 400, Some ts)
             else case Delete_token sv tid ts of
               (Some e, ts1) \<Rightarrow> (TokenStatus 400, Some ts1)
             | (None, ts1) \<Rightarrow> (TokenStatus 200, Some ts1))"

section \<open>Mediation\<close>

text \<open>The capability an effect needs, as the route table of the dashboard has it.\<close>

fun call_cap :: "backend_call \<Rightarrow> string" where
  "call_cap (AppLogs srv app n) = ViewLogs"
| "call_cap (Deploy srv app img domain port) = ExecuteDeploy"
| "call_cap (RollbackApp srv app) = ExecuteDeploy"
| "call_cap (AppAction srv app action) = ExecuteDeploy"
| "call_cap (SetEnv srv app k x) = ExecuteMutate"
| "call_cap (UnsetEnv srv app k) = ExecuteMutate"
| "call_cap c = ViewMetadata"

lemma find_tool_run:
  assumes "find_tool name = Some t" and "tl_run t args = Some c"
  shows "call_cap c = tl_cap t"
proof -
  have "t \<in> set Tools" using assms(1) by (auto simp: find_tool_def find_Some_iff)
  then show ?thesis using assms(2)
    by (auto simp: Tools_def read_tool_def write_tool_def simpleAction_def for_app_def run_logs_def run_deploy_def
        run_set_env_def run_unset_env_def Let_def split: option.splits json.splits if_splits)
qed

lemma callTool_runs:
  assumes "callTool name args tok = ToolRuns tok' c"
  shows "tok' = tok \<and> Allow (CapabilitySet tok) (call_cap c)"
  using assms find_tool_run by (auto simp: callTool_def split: option.splits if_splits)

lemma dispatch_runs:
  "dispatch req tok = ToolRuns tok' c \<Longrightarrow> tok' = tok \<and> Allow (CapabilitySet tok) (call_cap c)"
  using callTool_runs by (auto simp: dispatch_def split: if_splits option.splits json.splits)

lemma Verify_known:
  assumes "Verify digest sv now p s = (Some t, s')"
  shows "list_ex (\<lambda>u. tk_hash u = digest p \<and> t = u\<lparr>tk_lastUsed := now\<rparr>) (ts_tokens s)"
proof -
  have "list_ex (\<lambda>u. tk_hash u = h \<and> t = u\<lparr>tk_lastUsed := now\<rparr>) ts"
    if "mark_used h now ts = (Some t, us)" for h ts us
    using that by (induction ts arbitrary: us) (auto split: if_splits prod.splits)
  then show ?thesis using assms by (auto simp: Verify_def Let_def split: prod.splits option.splits if_splits)
qed

lemma enqueues_deploys:
  assumes "backend env tok c = Enqueues a rq"
  shows "a = token_actor tok \<and> call_cap c = ExecuteDeploy"
  using assms
  by (cases c) (auto simp: enqueueMutation_def on_server_def cliAppRun_def cli_EnvSet_def
      split: if_splits option.splits bool.splits)

lemma token_actor_grant:
  assumes "Allow (CapabilitySet tok) ExecuteDeploy"
  shows "ac_capabilities (token_actor tok) = Sorted (CapabilitySet tok)"
proof (cases "tk_caps tok")
  case None
  have "\<not> Allow ViewerDefault ExecuteDeploy" by code_simp
  then show ?thesis using assms None by (auto simp: token_actor_def CapabilitySet_def split: if_splits)
qed (simp add: token_actor_def CapabilitySet_def)

text \<open>
  C14. Every tool call is authorized, and says truthfully by whom. If a request to the MCP endpoint leads to a
  backend call, it was a POST, same-origin if it named an origin, with a bearer secret whose digest a stored
  token has, and the capabilities of this token include the one the effect of the call needs; and if the
  call enqueues an operation, the actor recorded with it is this token with exactly the capabilities it
  was checked against, also for the tokens of older versions that carry no list.
\<close>

theorem mcp_calls_are_mediated:
  assumes "ServeHTTP digest sv now r ts = (ToolRuns tok call, ts')"
  shows "mr_method r = ''POST'' \<and> (mr_origin r = [] \<or> mr_same_origin r) \<and> prefix ''Bearer '' (mr_auth r) \<and>
    list_ex (\<lambda>u. tk_hash u = digest (trim_space (trim_prefix ''Bearer '' (mr_auth r))) \<and>
      tok = u\<lparr>tk_lastUsed := now\<rparr>) (ts_tokens ts) \<and>
    Allow (CapabilitySet tok) (call_cap call) \<and>
    (\<forall>a rq. backend env tok call = Enqueues a rq \<longrightarrow>
       ac_subject a = ''mcp-token/'' @ tk_id tok \<and> ac_capabilities a = Sorted (CapabilitySet tok))"
proof -
  obtain tok0 ts1 where a: "authenticate_bearer digest sv now (mr_auth r) ts = (Some tok0, ts1)"
    and g: "mr_method r = ''POST''" "mr_origin r = [] \<or> mr_same_origin r"
    and d: "\<exists>req. dispatch req tok0 = ToolRuns tok call"
    using assms by (auto simp: ServeHTTP_def split: if_splits prod.splits option.splits rpc_body.splits)
  from d dispatch_runs have c: "tok = tok0" "Allow (CapabilitySet tok) (call_cap call)" by blast+
  from a have p: "prefix ''Bearer '' (mr_auth r)"
    and v: "Verify digest sv now (trim_space (trim_prefix ''Bearer '' (mr_auth r))) ts = (Some tok, ts1)"
    by (auto simp: authenticate_bearer_def c(1) split: if_splits)
  have "ac_subject a = ''mcp-token/'' @ tk_id tok \<and> ac_capabilities a = Sorted (CapabilitySet tok)"
    if "backend env tok call = Enqueues a rq" for a rq
    using enqueues_deploys [OF that] c(2) token_actor_grant by (auto simp: token_actor_def)
  then show ?thesis using g p Verify_known [OF v] c(2) by blast
qed

definition tool_request :: "string \<Rightarrow> string \<Rightarrow> (string \<times> json) list \<Rightarrow> mcp_request" where
  "tool_request auth name args =
     \<lparr>mr_method = ''POST'', mr_origin = [], mr_same_origin = False, mr_protocol = ''2025-06-18'', mr_auth = auth,
      mr_body = Parsed \<lparr>rp_version = ''2.0'', rp_id = Some (JInt 1), rp_method = ''tools/call'', rp_init = None,
        rp_call = Some (name, Some (JObj args))\<rparr>\<rparr>"

definition demo_mcp_env :: mcp_env where
  "demo_mcp_env = \<lparr>me_ops = True, me_cli = True, me_servers = [\<lparr>sv_name = ''web'', sv_id = [], sv_host = ''10.0.0.5'', sv_user = []\<rparr>],
     me_strict = Some [\<lparr>sv_name = ''web'', sv_id = [], sv_host = ''10.0.0.5'', sv_user = []\<rparr>],
     me_owned = (\<lambda>_ _ _. False), me_stdin = Some True, me_legacy = False\<rparr>"

theorem mcp_calls_are_mediated_witness:
  "case fst (ServeHTTP (\<lambda>x. x) SaveOk 9
       (tool_request ''Bearer tpd_a '' ''teploy_rollback'' [(''server'', JStr ''web''), (''app'', JStr ''shop'')]) two_tokens) of
     ToolRuns tok call \<Rightarrow>
       call = RollbackApp ''web'' ''shop'' \<and> Allow (CapabilitySet tok) ExecuteDeploy \<and>
       (case backend demo_mcp_env tok call of Enqueues a rq \<Rightarrow> ac_capabilities a = [ExecuteDeploy] | _ \<Rightarrow> False)
   | _ \<Rightarrow> False"
proof -
  let ?r = "tool_request ''Bearer tpd_a '' ''teploy_rollback'' [(''server'', JStr ''web''), (''app'', JStr ''shop'')]"
  let ?x = "ServeHTTP (\<lambda>x. x) SaveOk 9 ?r two_tokens"
  have "(case fst ?x of ToolRuns tok call \<Rightarrow> call = RollbackApp ''web'' ''shop'' \<and> Sorted (CapabilitySet tok) = [ExecuteDeploy] | _ \<Rightarrow> False)"
    by code_simp
  then obtain tok where x: "fst ?x = ToolRuns tok (RollbackApp ''web'' ''shop'')" "Sorted (CapabilitySet tok) = [ExecuteDeploy]"
    by (auto split: mcp_answer.splits)
  have s: "?x = (ToolRuns tok (RollbackApp ''web'' ''shop''), snd ?x)" using x(1) by (metis prod.collapse)
  have b: "backend demo_mcp_env tok (RollbackApp ''web'' ''shop'') = Enqueues (token_actor tok) (app_request KindRollback ''web'' ''shop'')"
    by (simp add: enqueueMutation_def demo_mcp_env_def)
  from mcp_calls_are_mediated [OF s, of demo_mcp_env] x b show ?thesis by (auto simp: x(1))
qed

section \<open>The tools and the buttons\<close>


definition app_path :: "string \<Rightarrow> string \<Rightarrow> string \<Rightarrow> string" where
  "app_path srv app action = ''/api/apps/'' @ srv @ CHR ''/'' # app @ CHR ''/'' # action"

definition empty_body :: app_body where
  "empty_body = \<lparr>ab_to = [], ab_accessory = [], ab_id = [], ab_database = [], ab_no_backup = False,
     ab_purge = False, ab_redirect = []\<rparr>"

lemma app_path_reaches:
  assumes "ValidID srv" and "validAppName app" and "known srv"
  shows "handleAppAction known m (app_path srv app action) = reaches m action"
proof -
  have "CHR ''/'' \<notin> set srv" "CHR ''/'' \<notin> set app" using ValidID_slash [OF assms(1)] validAppName_slash [OF assms(2)] by simp_all
  note s = splitn_three [OF this, of action]
  have "trim_prefix ''/api/apps/'' (app_path srv app action) = srv @ CHR ''/'' # app @ CHR ''/'' # action"
    unfolding app_path_def by (rule trim_prefix_append)
  then show ?thesis using assms s by (simp add: handleAppAction_def Let_def reaches_def)
qed

lemma reaches_buttons:
  "reaches ''POST'' ''rollback'' = Rollback" "reaches ''POST'' ''stop'' = Lifecycle ''stop''"
  "reaches ''POST'' ''start'' = Lifecycle ''start''" "reaches ''POST'' ''restart'' = Lifecycle ''restart''"
  "reaches ''POST'' ''lock'' = LockApp" "reaches ''POST'' ''unlock'' = UnlockApp"
  "reaches ''POST'' ''maintenance/on'' = Maintenance ''on''" "reaches ''POST'' ''maintenance/off'' = Maintenance ''off''"
  by code_simp+



section \<open>Where they differ\<close>

text \<open>
  Maintenance mode is an operation behind its button (queued, journaled, cancelable) and a direct call of the CLI
  behind the tool, whatever the state of the operation service.
\<close>

theorem maintenance_skips_the_queue:
  assumes "ValidID srv" and "validAppName app" and "known srv" and "ae_cli ae" and "a \<in> {''on'', ''off''}"
    and "me_cli env" and "lookupServer srv (me_servers env) = Some v" and "me_strict env = Some (me_servers env)"
  shows "app_effect ae srv app (Some empty_body) (handleAppAction known ''POST'' (app_path srv app (''maintenance/'' @ a))) =
      EnqueueRequest ((app_request KindMaintenance srv app)\<lparr>rq_action := a\<rparr>) \<and>
    backend env tok (AppAction srv app (''maintenance '' @ a)) =
      RunsCli ([''maintenance'', a, ''--host'', sv_host v, ''--app'', app] @ userArgs (sv_user v)) []"
proof -
  have w: "split_byte CHR '' '' ''maintenance on'' = [''maintenance'', ''on'']"
    "split_byte CHR '' '' ''maintenance off'' = [''maintenance'', ''off'']"
    by code_simp+
  show ?thesis
    using assms(4-8) unfolding app_path_reaches [OF assms(1,2), of known "''POST''", OF assms(3)]
    by (auto simp: reaches_buttons with_cli_def on_server_def cliAppRun_def w)
qed

text \<open>
  The names of apps are checked on every route of the dashboard before they reach the CLI, but not by the tools: the
  log tool passes any non-empty name on.
\<close>

theorem tools_pass_any_app_name:
  assumes "\<not> validAppName app" and "app \<noteq> []" and "CHR ''/'' \<notin> set app" and "CHR ''/'' \<notin> set srv"
    and "me_cli env" and "lookupServer srv (me_servers env) = Some v"
  shows "handleAppAction known m (app_path srv app action) = InvalidName \<and>
    backend env tok (AppLogs srv app n) =
      RunsCli ([''logs'', ''--host'', sv_host v, ''--app'', app, ''--tail'', show_int n] @ userArgs (sv_user v)) []"
proof -
  have "trim_prefix ''/api/apps/'' (app_path srv app action) = srv @ CHR ''/'' # app @ CHR ''/'' # action"
    unfolding app_path_def by (rule trim_prefix_append)
  with splitn_three [OF assms(4,3), of action] assms(1,5,6) show ?thesis
    by (simp add: handleAppAction_def Let_def on_server_def)
qed

end
