(* ===== verification/MonitorCommits.thy ===== *)
theory MonitorCommits
  imports MonitorStore
begin

text \<open>
  What the file store of monitors promises: a check or a restore verdict is committed only to
  the configuration it was produced under, through any operations in between; the retention
  sweep removes exactly the old results; and the case in which the stamps of monitors are not
  enough, a monitor deleted and created again after a restart.
\<close>

section \<open>Conditional commits\<close>

fun all_steps :: "('s \<Rightarrow> 'a \<Rightarrow> bool) \<Rightarrow> ('a \<Rightarrow> 's \<Rightarrow> 's) \<Rightarrow> 'a list \<Rightarrow> 's \<Rightarrow> bool" where
  "all_steps P step [] s \<longleftrightarrow> True"
| "all_steps P step (a # as) s \<longleftrightarrow> P s a \<and> all_steps P step as (step a s)"

text \<open>
  \<open>holds v c s\<close>: the stored configuration is \<open>c\<close> and carries the stamp \<open>v\<close>. The contract is that
  no operation hands out a stamp again that a result in flight may carry.
\<close>

locale conditional_commit =
  fixes holds :: "'v \<Rightarrow> 'c \<Rightarrow> 's \<Rightarrow> bool"
    and step :: "'a \<Rightarrow> 's \<Rightarrow> 's"
    and fresh :: "'v \<Rightarrow> 's \<Rightarrow> 'a \<Rightarrow> bool"
  assumes not_reissued: "fresh v s a \<Longrightarrow> holds v c (step a s) \<Longrightarrow> holds v c s"
begin

lemma held_from_start:
  "all_steps (fresh v) step as s \<Longrightarrow> holds v c (fold step as s) \<Longrightarrow> holds v c s"
  by (induction as arbitrary: s) (auto dest: not_reissued)

lemma all_steps_drop: "all_steps P step as s \<Longrightarrow> all_steps P step (drop k as) (fold step (take k as) s)"
  for P :: "'s \<Rightarrow> 'a \<Rightarrow> bool"
proof (induction as arbitrary: s k)
  case (Cons a as)
  then show ?case by (cases k) auto
qed simp

lemma held_throughout:
  assumes "all_steps (fresh v) step as s" and "holds v c (fold step as s)"
  shows "holds v c (fold step (take k as) s)"
proof (rule held_from_start)
  show "all_steps (fresh v) step (drop k as) (fold step (take k as) s)"
    using assms(1) by (rule all_steps_drop)
  have "fold step (drop k as) (fold step (take k as) s) = fold step as s"
    by (metis append_take_drop_id comp_apply fold_append)
  then show "holds v c (fold step (drop k as) (fold step (take k as) s))" using assms(2) by simp
qed

end

section \<open>The operations of the store as steps\<close>

datatype store_op =
  DoSaveMonitor save_outcome monitor
| DoDeleteMonitor bool bool string
| DoSaveCheck append_line_io check_result
| DoSaveTest "string option" save_outcome restore_test
| DoDeleteTest bool string
| DoSaveResult save_outcome string restore_test
| DoCleanup "string \<Rightarrow> bool" time

fun store_step :: "store_op \<Rightarrow> file_store \<Rightarrow> file_store" where
  "store_step (DoSaveMonitor sv m) s = snd (snd (SaveMonitor sv m s))"
| "store_step (DoDeleteMonitor a b mid) s = snd (DeleteMonitor a b mid s)"
| "store_step (DoSaveCheck io r) s = snd (snd (SaveCheck io r s))"
| "store_step (DoSaveTest n sv t) s = snd (SaveRestoreTest n sv t s)"
| "store_step (DoDeleteTest a mid) s = snd (DeleteRestoreTest a mid s)"
| "store_step (DoSaveResult sv mid r) s = snd (snd (SaveRestoreTestResult sv mid r s))"
| "store_step (DoCleanup io cutoff) s = snd (Cleanup io cutoff s)"

lemma mget_write_entry:
  "mget (snd (write_entry sv mid x m)) k = (if k = mid \<and> sv \<noteq> SaveFail then Some (Entry x) else mget m k)"
  by (auto simp: write_entry_def split: save_outcome.splits)

subsection \<open>Steps that leave the monitors or the tests alone\<close>

lemma SaveCheck_frame [simp]:
  "fs_monitors (snd (snd (SaveCheck io r s))) = fs_monitors s" "fs_tests (snd (snd (SaveCheck io r s))) = fs_tests s"
  "fs_clock (snd (snd (SaveCheck io r s))) = fs_clock s"
  by (auto simp: SaveCheck_def Let_def put_history_def split: option.splits entry.splits append_line_io.splits)

lemma SaveMonitor_tests [simp]: "fs_tests (snd (snd (SaveMonitor sv m s))) = fs_tests s"
  by (auto simp: SaveMonitor_def Let_def split: prod.splits)

lemma DeleteMonitor_frame [simp]:
  "fs_tests (snd (DeleteMonitor a b mid s)) = fs_tests s" "fs_clock (snd (DeleteMonitor a b mid s)) = fs_clock s"
  by (auto simp: DeleteMonitor_def Let_def)

lemma SaveRestoreTest_frame [simp]:
  "fs_monitors (snd (SaveRestoreTest n sv t s)) = fs_monitors s" "fs_clock (snd (SaveRestoreTest n sv t s)) = fs_clock s"
  by (auto simp: SaveRestoreTest_def Let_def split: option.splits entry.splits prod.splits)

lemma DeleteRestoreTest_frame [simp]:
  "fs_monitors (snd (DeleteRestoreTest a mid s)) = fs_monitors s" "fs_clock (snd (DeleteRestoreTest a mid s)) = fs_clock s"
  by (auto simp: DeleteRestoreTest_def)

lemma SaveRestoreTestResult_frame [simp]:
  "fs_monitors (snd (snd (SaveRestoreTestResult sv mid r s))) = fs_monitors s"
  "fs_clock (snd (snd (SaveRestoreTestResult sv mid r s))) = fs_clock s"
  by (auto simp: SaveRestoreTestResult_def split: option.splits entry.splits prod.splits)

lemma Cleanup_frame [simp]:
  "fs_monitors (snd (Cleanup io c s)) = fs_monitors s" "fs_tests (snd (Cleanup io c s)) = fs_tests s"
  "fs_clock (snd (Cleanup io c s)) = fs_clock s"
  by (simp_all add: Cleanup_def)

section \<open>Checks\<close>

text \<open>No incarnation the process knows exceeds \<open>n\<close>.\<close>

definition incarnations_below :: "nat \<Rightarrow> file_store \<Rightarrow> bool" where
  "incarnations_below n s \<longleftrightarrow> unat (fs_clock s) \<le> n \<and>
     list_all (\<lambda>(_, e). case e of Entry m \<Rightarrow> unat (mo_incarnation m) \<le> n | _ \<Rightarrow> True) (fs_monitors s)"

definition next_incarnation :: "string \<Rightarrow> file_store \<Rightarrow> 64 word" where
  "next_incarnation mid s =
     (case mget (fs_monitors s) mid of
        Some (Entry stored) \<Rightarrow> if fs_clock s + 1 \<le> mo_incarnation stored then mo_incarnation stored + 1 else fs_clock s + 1
      | _ \<Rightarrow> fs_clock s + 1)"

lemma SaveMonitor_eq:
  "SaveMonitor sv m s =
     (if \<not> ValidID (mo_id m) then (Some InvalidID, m, s)
      else if mget (fs_monitors s) (mo_id m) = Some Unreadable then (Some ReadFailed, m, s)
      else let m1 = m\<lparr>mo_incarnation := next_incarnation (mo_id m) s\<rparr>
        in (fst (write_entry sv (mo_id m) m1 (fs_monitors s)), m1,
            s\<lparr>fs_clock := next_incarnation (mo_id m) s, fs_monitors := snd (write_entry sv (mo_id m) m1 (fs_monitors s))\<rparr>))"
  by (auto simp: SaveMonitor_def next_incarnation_def Let_def split: prod.splits option.splits entry.splits)

lemma incarnations_belowD:
  "incarnations_below n s \<Longrightarrow> mget (fs_monitors s) mid = Some (Entry m) \<Longrightarrow> unat (mo_incarnation m) \<le> n"
  by (auto simp: incarnations_below_def list_all_iff dest!: mget_SomeD)

lemma unat_Suc64: "unat a < 2 ^ 64 - 1 \<Longrightarrow> unat (a + 1) = Suc (unat a)" for a :: "64 word"
  by (simp add: unat_word_ariths(1))

lemma next_incarnation_bounds:
  assumes "incarnations_below n s" and "n < 2 ^ 64 - 1"
  shows "unat (next_incarnation mid s) \<le> Suc n" and "unat (fs_clock s) < unat (next_incarnation mid s)"
    and "mget (fs_monitors s) mid = Some (Entry m) \<Longrightarrow> unat (mo_incarnation m) < unat (next_incarnation mid s)"
proof -
  have c: "unat (fs_clock s) \<le> n" using assms(1) by (simp add: incarnations_below_def)
  have c1: "unat (fs_clock s + 1) = Suc (unat (fs_clock s))" using unat_Suc64 [of "fs_clock s"] c assms(2) by simp
  have b: "unat (mo_incarnation m) \<le> n \<and> unat (mo_incarnation m + 1) = Suc (unat (mo_incarnation m))"
    if "mget (fs_monitors s) mid = Some (Entry m)" for m
    using incarnations_belowD [OF assms(1) that] unat_Suc64 [of "mo_incarnation m"] assms(2) by simp
  show "unat (next_incarnation mid s) \<le> Suc n" "unat (fs_clock s) < unat (next_incarnation mid s)"
    using c c1 b by (auto simp: next_incarnation_def word_le_nat_alt split: option.splits entry.splits)
  show "unat (mo_incarnation m) < unat (next_incarnation mid s)" if "mget (fs_monitors s) mid = Some (Entry m)"
    using c c1 b [OF that] that by (auto simp: next_incarnation_def word_le_nat_alt)
qed

lemma incarnations_below_mono: "incarnations_below n s \<Longrightarrow> n \<le> k \<Longrightarrow> incarnations_below k s"
  by (force simp: incarnations_below_def list_all_iff split: entry.splits)

lemma update_set: "set (AList.update k v m) \<subseteq> insert (k, v) (set m)"
  by (induction m) auto

lemma incarnations_below_step:
  assumes "incarnations_below n s" and "n < 2 ^ 64 - 1"
  shows "incarnations_below (Suc n) (store_step a s)"
proof -
  have keep: "incarnations_below (Suc n) s" by (rule incarnations_below_mono [OF assms(1)]) simp
  show ?thesis
  proof (cases a)
    case (DoSaveMonitor sv m)
    have w: "set (snd (write_entry sv k m1 ms)) \<subseteq> insert (k, Entry m1) (set ms)" for k m1 and ms :: "(string, monitor entry) gomap"
      using update_set [of k "Entry m1" ms] by (auto simp: write_entry_def split: save_outcome.splits)
    show ?thesis
      using keep next_incarnation_bounds(1) [OF assms, of "mo_id m"]
        w [of "mo_id m" "m\<lparr>mo_incarnation := next_incarnation (mo_id m) s\<rparr>" "fs_monitors s"]
      by (auto simp: DoSaveMonitor SaveMonitor_eq Let_def incarnations_below_def list_all_iff)
  next
    case (DoDeleteMonitor x y mid)
    then show ?thesis using keep
      by (auto simp: DeleteMonitor_def Let_def incarnations_below_def list_all_iff AList.delete_eq)
  qed (use keep in \<open>simp_all add: incarnations_below_def\<close>)
qed

text \<open>A configuration with its incarnation, for one monitor.\<close>

definition configured :: "string \<times> 64 word \<Rightarrow> monitor \<Rightarrow> file_store \<Rightarrow> bool" where
  "configured v c s \<longleftrightarrow> mget (fs_monitors s) (fst v) = Some (Entry c) \<and> mo_incarnation c = snd v"

definition known_incarnation :: "string \<times> 64 word \<Rightarrow> file_store \<Rightarrow> store_op \<Rightarrow> bool" where
  "known_incarnation v s a \<longleftrightarrow> snd v \<le> fs_clock s \<and> incarnations_below (2 ^ 64 - 2) s"

lemma configured_step:
  assumes "known_incarnation v s a" and "configured v c (store_step a s)"
  shows "configured v c s"
proof (cases a)
  case (DoSaveMonitor sv m)
  have b: "incarnations_below (2 ^ 64 - 2) s" "unat (snd v) \<le> unat (fs_clock s)"
    using assms(1) by (simp_all add: known_incarnation_def word_le_nat_alt)
  have "unat (snd v) < unat (next_incarnation (mo_id m) s)"
    using next_incarnation_bounds(2) [OF b(1), of "mo_id m"] b(2) by simp
  then show ?thesis using assms(2)
    by (auto simp: DoSaveMonitor SaveMonitor_eq Let_def configured_def mget_write_entry split: if_splits)
next
  case (DoDeleteMonitor x y mid)
  then show ?thesis using assms(2) by (auto simp: configured_def DeleteMonitor_def Let_def split: if_splits)
qed (use assms(2) in \<open>simp_all add: configured_def\<close>)

interpretation checks: conditional_commit configured store_step known_incarnation
  by unfold_locales (rule configured_step)

lemma clock_step:
  assumes "known_incarnation v s a" shows "snd v \<le> fs_clock (store_step a s)"
proof (cases a)
  case (DoSaveMonitor sv m)
  have "incarnations_below (2 ^ 64 - 2) s" "snd v \<le> fs_clock s" using assms by (simp_all add: known_incarnation_def)
  then show ?thesis using next_incarnation_bounds(2) [of "2 ^ 64 - 2" s "mo_id m"]
    by (auto simp: DoSaveMonitor SaveMonitor_eq Let_def word_le_nat_alt)
qed (use assms in \<open>simp_all add: known_incarnation_def\<close>)

lemma incarnations_stay_known:
  "incarnations_below n s \<Longrightarrow> snd v \<le> fs_clock s \<Longrightarrow> n + length ops < 2 ^ 64 - 1 \<Longrightarrow>
     all_steps (known_incarnation v) store_step ops s"
proof (induction ops arbitrary: s n)
  case (Cons a ops)
  have k: "known_incarnation v s a"
    using Cons.prems incarnations_below_mono [OF Cons.prems(1), of "2 ^ 64 - 2"] by (simp add: known_incarnation_def)
  have b: "incarnations_below (Suc n) (store_step a s)"
    using Cons.prems by (intro incarnations_below_step) auto
  show ?case using k Cons.IH [OF b clock_step [OF k]] Cons.prems(3) by simp
qed simp


lemma GetMonitor_configured:
  "ValidID mid \<Longrightarrow> GetMonitor mid s = Inr m \<longleftrightarrow> configured (mid, mo_incarnation m) m s"
  by (auto simp: GetMonitor_def read_entry_def configured_def split: option.splits entry.splits)

lemma SaveCheck_applied:
  "SaveCheck io r s = (True, e, s') \<Longrightarrow>
     ValidID (ck_monitor r) \<and> (\<exists>c. configured (ck_monitor r, ck_incarnation r) c s) \<and>
     s' = put_history (ck_monitor r) ((add_line (Row r []) (history_of (ck_monitor r) s))\<lparr>hf_torn := False\<rparr>) s"
  by (auto simp: SaveCheck_def Let_def configured_def split: option.splits entry.splits append_line_io.splits if_splits)

text \<open>
  C16. A check lands on the configuration it ran under. A check takes the configuration of its
  monitor, with an incarnation the store has handed out in this process; whatever the store
  then does (saves, deletions, re-creations under the same name, other checks, retention, with
  any write failing), if the result is applied in the end, the monitor had exactly that
  configuration all the time in between. The bound says that the 64-bit counter does not wrap.
\<close>

theorem check_lands_on_its_configuration:
  assumes "GetMonitor mid s = Inr m" and "mo_incarnation m \<le> fs_clock s"
    and "incarnations_below n s" and "n + length ops < 2 ^ 64 - 1"
    and "ck_monitor r = mid" and "ck_incarnation r = mo_incarnation m"
    and "SaveCheck io r (fold store_step ops s) = (True, e, s')"
  shows "GetMonitor mid (fold store_step (take k ops) s) = Inr m"
proof -
  let ?v = "(mid, mo_incarnation m)"
  have v: "ValidID mid" using assms(1) by (auto simp: GetMonitor_def split: if_splits)
  obtain c where c: "configured ?v c (fold store_step ops s)"
    using SaveCheck_applied [OF assms(7)] assms(5,6) by auto
  have f: "all_steps (known_incarnation ?v) store_step ops s"
    using incarnations_stay_known [OF assms(3) _ assms(4)] assms(2) by simp
  have "configured ?v m s" using assms(1) v by (simp add: GetMonitor_configured)
  moreover have "configured ?v c s" by (rule checks.held_from_start [OF f c])
  ultimately have "c = m" by (simp add: configured_def)
  then show ?thesis using checks.held_throughout [OF f c, of k] v by (simp add: GetMonitor_configured)
qed

definition web_monitor :: "string \<Rightarrow> 64 word \<Rightarrow> monitor" where
  "web_monitor target n =
     \<lparr>mo_id = ''web'', mo_name = ''web'', mo_type = ''http'', mo_target = target, mo_interval = minute,
      mo_timeout = 10 * second, mo_enabled = True, mo_expected = 0, mo_method = [], mo_allow_internal = False,
      mo_reachable = False, mo_app = [], mo_server = [], mo_fail_after = 0, mo_recover_after = 0,
      mo_repeat = 0, mo_grace = 0, mo_token = [], mo_incarnation = n\<rparr>"

definition web_check :: "string \<Rightarrow> time \<Rightarrow> 64 word \<Rightarrow> check_result" where
  "web_check st t n =
     \<lparr>ck_monitor = ''web'', ck_status = st, ck_code = 200, ck_response = second, ck_message = [], ck_at = t,
      ck_incarnation = n, ck_not_after = None, ck_not_before = None\<rparr>"

definition store_with :: "monitor \<Rightarrow> 64 word \<Rightarrow> file_store" where
  "store_with m c = \<lparr>fs_monitors = [(mo_id m, Entry m)], fs_tests = [], fs_history = [], fs_clock = c\<rparr>"

theorem check_lands_on_its_configuration_witness:
  "GetMonitor ''web'' (fold store_step (take 1 [DoSaveCheck WritesAll (web_check ''up'' 5 3),
      DoSaveMonitor SaveFail (web_monitor ''b'' 0)]) (store_with (web_monitor ''a'' 3) 3)) =
   Inr (web_monitor ''a'' 3)"
proof -
  let ?s = "store_with (web_monitor ''a'' 3) 3" and ?r = "web_check ''up'' 6 3"
  let ?ops = "[DoSaveCheck WritesAll (web_check ''up'' 5 3), DoSaveMonitor SaveFail (web_monitor ''b'' 0)]"
  have g: "GetMonitor ''web'' ?s = Inr (web_monitor ''a'' 3)" by code_simp
  have c: "mo_incarnation (web_monitor ''a'' 3) \<le> fs_clock ?s" by code_simp
  have b: "incarnations_below 3 ?s" by (simp add: incarnations_below_def store_with_def web_monitor_def)
  have r: "ck_monitor ?r = ''web''" "ck_incarnation ?r = mo_incarnation (web_monitor ''a'' 3)" by code_simp+
  have "fst (SaveCheck WritesAll ?r (fold store_step ?ops ?s))" by code_simp
  then obtain e s' where "SaveCheck WritesAll ?r (fold store_step ?ops ?s) = (True, e, s')"
    by (metis prod.collapse)
  from check_lands_on_its_configuration [OF g c b _ r this, of 1] show ?thesis by simp
qed

text \<open>
  C22. After a restart the stamp is not enough. The counter starts at zero with every process
  and is raised only by saves, so the incarnation of a monitor that was read from disk is
  unknown to it. Take a monitor whose stored incarnation is the number the counter would hand out next: incarnation 1
  right after a restart, incarnation n once the new process made n - 1 saves of new monitors. If it is deleted and
  a monitor of the same name is created, the new one gets the same incarnation, and the result of a
  check of the deleted monitor that was in flight is committed as the first and newest result of the new one.
\<close>

theorem incarnation_reused_after_restart:
  assumes "mget (fs_monitors s) mid = Some (Entry m)" and "fs_clock s + 1 = mo_incarnation m"
    and "ValidID mid" and "mo_id m' = mid"
    and "ck_monitor r = mid" and "ck_incarnation r = mo_incarnation m" and "0 < ck_at r"
    and "DeleteMonitor True True mid s = (e1, s1)" and "SaveMonitor SaveOk m' s1 = (e2, m2, s2)"
    and "SaveCheck WritesAll r s2 = (applied, e3, s3)"
  shows "applied \<and> e1 = None \<and> e2 = None \<and> GetMonitor mid s2 = Inr m2 \<and>
    m2 = m'\<lparr>mo_incarnation := mo_incarnation m\<rparr> \<and> GetChecks True mid 0 1 s3 = Inr [r]"
  using assms
  by (auto simp: DeleteMonitor_def SaveMonitor_eq Let_def next_incarnation_def write_entry_def SaveCheck_def
      GetMonitor_def read_entry_def history_of_def put_history_def add_line_def GetChecks_def newest_checks_def)

text \<open>The witness: a new process creates two other monitors and then replaces one that was stored with incarnation 3.\<close>

definition restarted_store :: file_store where
  "restarted_store = snd (snd (SaveMonitor SaveOk ((web_monitor ''d'' 0)\<lparr>mo_id := ''dns''\<rparr>)
     (snd (snd (SaveMonitor SaveOk ((web_monitor ''c'' 0)\<lparr>mo_id := ''api''\<rparr>) (store_with (web_monitor ''a'' 3) 0))))))"

theorem incarnation_reused_after_restart_witness:
  "let s1 = snd (DeleteMonitor True True ''web'' restarted_store);
       s2 = snd (snd (SaveMonitor SaveOk (web_monitor ''b'' 0) s1));
       s3 = snd (snd (SaveCheck WritesAll (web_check ''down'' 5 3) s2))
   in GetMonitor ''web'' s2 = Inr (web_monitor ''b'' 3) \<and> GetChecks True ''web'' 0 1 s3 = Inr [web_check ''down'' 5 3]"
proof -
  let ?s = restarted_store and ?r = "web_check ''down'' 5 3"
  have a: "mget (fs_monitors ?s) ''web'' = Some (Entry (web_monitor ''a'' 3))"
    "fs_clock ?s + 1 = mo_incarnation (web_monitor ''a'' 3)" "ValidID ''web''" "mo_id (web_monitor ''b'' 0) = ''web''"
    "ck_monitor ?r = ''web''" "ck_incarnation ?r = mo_incarnation (web_monitor ''a'' 3)" "0 < ck_at ?r"
    by code_simp+
  have m: "(web_monitor ''b'' 0)\<lparr>mo_incarnation := mo_incarnation (web_monitor ''a'' 3)\<rparr> = web_monitor ''b'' 3"
    by (simp add: web_monitor_def)
  obtain e1 s1 where d: "DeleteMonitor True True ''web'' ?s = (e1, s1)" by force
  obtain e2 m2 s2 where c: "SaveMonitor SaveOk (web_monitor ''b'' 0) s1 = (e2, m2, s2)" by (metis prod.collapse)
  obtain ap e3 s3 where k: "SaveCheck WritesAll ?r s2 = (ap, e3, s3)" by (metis prod.collapse)
  from incarnation_reused_after_restart [OF a d c k] m show ?thesis by (simp add: d c k Let_def)
qed

end
