(* ===== verification/MonitorResults.thy ===== *)
theory MonitorResults
  imports MonitorCommits
begin

text \<open>
  Restore verdicts and the retention of check histories in the file store of monitors. A
  verdict is committed under the nonce the store gave to the target of the test, the second
  interpretation of \<open>conditional_commit\<close>.
\<close>

section \<open>Restore verdicts\<close>

definition aimed :: "string \<times> string \<Rightarrow> string \<times> string \<times> string \<Rightarrow> file_store \<Rightarrow> bool" where
  "aimed v c s \<longleftrightarrow> (\<exists>t. mget (fs_tests s) (fst v) = Some (Entry t) \<and> rt_incarnation t = snd v \<and>
     c = (rt_server t, rt_app t, rt_accessory t))"

definition other_nonce :: "string \<times> string \<Rightarrow> file_store \<Rightarrow> store_op \<Rightarrow> bool" where
  "other_nonce v s a \<longleftrightarrow> (case a of DoSaveTest n sv t \<Rightarrow> n \<noteq> Some (snd v) | _ \<Rightarrow> True)"

lemma with_result_id [simp]: "rt_id (with_result r t) = rt_id t"
  by (simp add: with_result_def)

text \<open>What a save writes when it writes.\<close>

definition saved_test :: "string \<Rightarrow> restore_test \<Rightarrow> file_store \<Rightarrow> restore_test" where
  "saved_test n t s =
     (case mget (fs_tests s) (rt_id t) of
        Some (Entry stored) \<Rightarrow>
          if sameRestoreTarget stored t
          then with_result stored (t\<lparr>rt_incarnation := if rt_incarnation stored \<noteq> [] then rt_incarnation stored else n\<rparr>)
          else t\<lparr>rt_incarnation := n\<rparr>
      | _ \<Rightarrow> t\<lparr>rt_incarnation := n\<rparr>)"

lemma SaveRestoreTest_cases:
  assumes "SaveRestoreTest n sv t s = (e, s')"
  shows "s' = s \<or> (\<exists>k. n = Some k \<and> s' = s\<lparr>fs_tests := snd (write_entry sv (rt_id t) (saved_test k t s) (fs_tests s))\<rparr>)"
proof (cases "n = None \<or> \<not> ValidID (rt_id t)")
  case True
  then show ?thesis using assms by (auto simp: SaveRestoreTest_def split: if_splits)
next
  case False
  then obtain k where k: "n = Some k" "ValidID (rt_id t)" by auto
  have same: "sameRestoreTarget stored (t\<lparr>rt_incarnation := k\<rparr>) = sameRestoreTarget stored t" for stored
    by (simp add: sameRestoreTarget_def)
  show ?thesis
    using assms k unfolding SaveRestoreTest_def saved_test_def Let_def
    by (simp add: same split: option.splits entry.splits prod.splits if_splits) auto
qed

lemma saved_test_target: "sameRestoreTarget (saved_test n t s) t"
  by (simp add: saved_test_def with_result_def sameRestoreTarget_def split: option.splits entry.splits)

lemma saved_test_nonce:
  "rt_incarnation (saved_test n t s) = n \<or>
     (\<exists>old. mget (fs_tests s) (rt_id t) = Some (Entry old) \<and> sameRestoreTarget old t \<and>
        rt_incarnation (saved_test n t s) = rt_incarnation old)"
  by (simp add: saved_test_def with_result_def split: option.splits entry.splits)

lemma SaveRestoreTestResult_cases:
  "SaveRestoreTestResult sv mid r s = (ap, e, s') \<Longrightarrow>
     \<not> ap \<and> s' = s \<or>
     ap \<and> ValidID mid \<and> (\<exists>c. mget (fs_tests s) mid = Some (Entry c) \<and> rt_incarnation c = rt_incarnation r \<and> sameRestoreTarget c r \<and>
       e = fst (write_entry sv mid (with_result r c) (fs_tests s)) \<and>
       s' = s\<lparr>fs_tests := snd (write_entry sv mid (with_result r c) (fs_tests s))\<rparr>)"
  by (auto simp: SaveRestoreTestResult_def split: option.splits entry.splits prod.splits if_splits)

lemma aimed_step:
  assumes "other_nonce v s a" and "aimed v c (store_step a s)"
  shows "aimed v c s"
proof (cases a)
  case (DoSaveTest n sv t)
  obtain e s' where w: "SaveRestoreTest n sv t s = (e, s')" by force
  from SaveRestoreTest_cases [OF w] show ?thesis
  proof
    assume "s' = s" then show ?thesis using assms(2) by (simp add: DoSaveTest w)
  next
    assume "\<exists>k. n = Some k \<and> s' = s\<lparr>fs_tests := snd (write_entry sv (rt_id t) (saved_test k t s) (fs_tests s))\<rparr>"
    then obtain k where k: "n = Some k" "s' = s\<lparr>fs_tests := snd (write_entry sv (rt_id t) (saved_test k t s) (fs_tests s))\<rparr>"
      by blast
    have "k \<noteq> snd v" using assms(1) k(1) by (simp add: DoSaveTest other_nonce_def)
    then show ?thesis
      using assms(2) k(2) saved_test_target [of k t s] saved_test_nonce [of k t s]
      by (auto simp: DoSaveTest w aimed_def mget_write_entry sameRestoreTarget_def split: if_splits)
  qed
next
  case (DoDeleteTest b mid)
  then show ?thesis using assms(2) by (auto simp: aimed_def DeleteRestoreTest_def split: if_splits)
next
  case (DoSaveResult sv mid r)
  obtain ap e s' where w: "SaveRestoreTestResult sv mid r s = (ap, e, s')" by (metis prod.collapse)
  from SaveRestoreTestResult_cases [OF w] assms(2) show ?thesis
    by (auto simp: DoSaveResult w aimed_def mget_write_entry with_result_def split: if_splits)
qed (use assms(2) in \<open>simp_all add: aimed_def\<close>)

interpretation verdicts: conditional_commit aimed store_step other_nonce
  by unfold_locales (rule aimed_step)

lemma other_nonces:
  "list_all (\<lambda>a. case a of DoSaveTest n sv t \<Rightarrow> n \<noteq> Some (snd v) | _ \<Rightarrow> True) ops \<Longrightarrow>
     all_steps (other_nonce v) store_step ops s"
  by (induction ops arbitrary: s) (auto simp: other_nonce_def)

text \<open>
  C20. A verdict belongs to the target it was reached on. A restore test runs under the
  configuration it read; saves that keep the target may come in between, and other verdicts.
  If the store applies the verdict in the end, then the test was never deleted and never aimed
  elsewhere in between, not even to come back, and the verdict changes nothing of the
  configuration of that moment. The hypothesis on the operations is that no fresh 128-bit
  nonce equals the one of the run.
\<close>

theorem verdict_belongs_to_its_target:
  assumes "GetRestoreTest mid s = Inr t"
    and "list_all (\<lambda>a. case a of DoSaveTest n sv t' \<Rightarrow> n \<noteq> Some (rt_incarnation t) | _ \<Rightarrow> True) ops"
    and "rt_incarnation r = rt_incarnation t"
    and "SaveRestoreTestResult sv mid r (fold store_step ops s) = (True, e, s')"
  shows "(\<exists>c. GetRestoreTest mid (fold store_step (take k ops) s) = Inr c \<and> sameRestoreTarget c t \<and>
      rt_incarnation c = rt_incarnation t) \<and>
    (\<exists>c. GetRestoreTest mid (fold store_step ops s) = Inr c \<and>
      (e = None \<longrightarrow> GetRestoreTest mid s' = Inr (with_result r c)))"
proof -
  let ?v = "(mid, rt_incarnation t)"
  have v: "ValidID mid" using assms(1) by (auto simp: GetRestoreTest_def split: if_splits)
  have t: "mget (fs_tests s) mid = Some (Entry t)"
    using assms(1) v by (auto simp: GetRestoreTest_def read_entry_def split: option.splits entry.splits)
  obtain c where c: "mget (fs_tests (fold store_step ops s)) mid = Some (Entry c)" "rt_incarnation c = rt_incarnation t"
    "e = fst (write_entry sv mid (with_result r c) (fs_tests (fold store_step ops s)))"
    "s' = (fold store_step ops s)\<lparr>fs_tests := snd (write_entry sv mid (with_result r c) (fs_tests (fold store_step ops s)))\<rparr>"
    using SaveRestoreTestResult_cases [OF assms(4)] assms(3) by auto
  have f: "all_steps (other_nonce ?v) store_step ops s" using assms(2) by (intro other_nonces) (simp only: snd_conv)
  let ?c = "(rt_server c, rt_app c, rt_accessory c)"
  have a: "aimed ?v ?c (fold store_step ops s)" using c(1,2) by (auto simp: aimed_def)
  have start: "?c = (rt_server t, rt_app t, rt_accessory t)"
    using verdicts.held_from_start [OF f a] t by (auto simp: aimed_def)
  have "aimed ?v ?c (fold store_step (take k ops) s)" by (rule verdicts.held_throughout [OF f a])
  then show ?thesis using start v c
    by (auto simp: aimed_def GetRestoreTest_def read_entry_def sameRestoreTarget_def write_entry_def
        split: save_outcome.splits)
qed

definition shop_test :: "string \<Rightarrow> string \<Rightarrow> int \<Rightarrow> bool \<Rightarrow> restore_test" where
  "shop_test n acc hours ok =
     \<lparr>rt_incarnation = n, rt_id = ''t1'', rt_server = ''s'', rt_app = ''shop'', rt_accessory = acc, rt_hours = hours,
      rt_enabled = True, rt_last_run = 0, rt_ok = ok, rt_detail = [], rt_metric = [], rt_date = [], rt_duration = 0\<rparr>"

definition tests_only :: "restore_test \<Rightarrow> file_store" where
  "tests_only t = \<lparr>fs_monitors = [], fs_tests = [(rt_id t, Entry t)], fs_history = [], fs_clock = 0\<rparr>"

theorem verdict_belongs_to_its_target_witness:
  "\<exists>c. GetRestoreTest ''t1'' (fold store_step [DoSaveTest (Some ''q'') SaveOk (shop_test [] ''db'' 48 False)]
      (tests_only (shop_test ''n'' ''db'' 24 False))) = Inr c \<and> rt_incarnation c = ''n'' \<and> rt_hours c = 48"
proof -
  let ?s = "tests_only (shop_test ''n'' ''db'' 24 False)" and ?r = "shop_test ''n'' ''db'' 24 True"
  let ?ops = "[DoSaveTest (Some ''q'') SaveOk (shop_test [] ''db'' 48 False)]"
  have g: "GetRestoreTest ''t1'' ?s = Inr (shop_test ''n'' ''db'' 24 False)" by code_simp
  have n: "list_all (\<lambda>a. case a of DoSaveTest n sv t' \<Rightarrow> n \<noteq> Some (rt_incarnation (shop_test ''n'' ''db'' 24 False)) | _ \<Rightarrow> True) ?ops"
    by (simp add: shop_test_def)
  have r: "rt_incarnation ?r = rt_incarnation (shop_test ''n'' ''db'' 24 False)" by (simp add: shop_test_def)
  have "fst (SaveRestoreTestResult SaveOk ''t1'' ?r (fold store_step ?ops ?s))" by code_simp
  then obtain e s' where w: "SaveRestoreTestResult SaveOk ''t1'' ?r (fold store_step ?ops ?s) = (True, e, s')"
    by (metis prod.collapse)
  have h: "case GetRestoreTest ''t1'' (fold store_step ?ops ?s) of Inr c \<Rightarrow> rt_hours c = 48 | _ \<Rightarrow> False" by code_simp
  from verdict_belongs_to_its_target [OF g n r w, of 1] h show ?thesis
    by (auto simp: shop_test_def)
qed

section \<open>Retention\<close>

text \<open>The lines the sweep keeps, and the lines it accepts at all.\<close>

definition retained :: "time \<Rightarrow> hline \<Rightarrow> bool" where
  "retained cutoff l = (case l of Row r x \<Rightarrow> cutoff \<le> ck_at r | _ \<Rightarrow> False)"

definition rewritable :: "hline \<Rightarrow> bool" where
  "rewritable l = (case l of Blank \<Rightarrow> True | Row r x \<Rightarrow> ck_at r \<noteq> 0 | _ \<Rightarrow> False)"

lemma line_simps [simp]:
  "\<not> retained cutoff Blank" "\<not> retained cutoff Junk" "\<not> retained cutoff Huge"
  "retained cutoff (Row r x) \<longleftrightarrow> cutoff \<le> ck_at r"
  "rewritable Blank" "\<not> rewritable Junk" "\<not> rewritable Huge" "rewritable (Row r x) \<longleftrightarrow> ck_at r \<noteq> 0"
  by (simp_all add: retained_def rewritable_def)

lemma rewrite_rows_eq:
  "rewrite_rows cutoff ls = (if list_all rewritable ls then Some (filter (retained cutoff) ls) else None)"
  by (induction ls rule: rewrite_rows.induct) auto

lemma rewriteHistoryFile_eq:
  "rewriteHistoryFile ok cutoff h =
     (if ok \<and> list_all rewritable (hf_rows h) then (True, \<lparr>hf_rows = filter (retained cutoff) (hf_rows h), hf_torn = False\<rparr>)
      else (False, h))"
  by (auto simp: rewriteHistoryFile_def rewrite_rows_eq)

lemma map_of_map_key: "map_of (map (\<lambda>(k, v). (k, f k v)) m) k = map_option (f k) (map_of m k)"
  by (induction m) auto

lemma scan_checks_retained:
  "list_all rewritable ls \<Longrightarrow> cutoff \<le> since \<Longrightarrow> scan_checks since (filter (retained cutoff) ls) = scan_checks since ls"
  by (induction ls rule: scan_checks.induct) (auto simp: option.map_ident)

text \<open>
  C21. The retention sweep removes the old results and nothing else. A history whose lines are
  all results with a time (or blank) is replaced by exactly its results from the cutoff on, in
  order and with the bytes they had; any other history, and one whose rewriting failed, is left
  as it is. No reader that asks for results since the cutoff or later sees a difference.
\<close>

theorem cleanup_is_exact:
  "mget (fs_history (snd (Cleanup io cutoff s))) mid =
      map_option (\<lambda>h. if io mid \<and> list_all rewritable (hf_rows h)
        then \<lparr>hf_rows = filter (retained cutoff) (hf_rows h), hf_torn = False\<rparr> else h) (mget (fs_history s) mid) \<and>
    (cutoff \<le> since \<longrightarrow>
      GetChecks readable mid since limit (snd (Cleanup io cutoff s)) = GetChecks readable mid since limit s)"
proof (intro conjI impI)
  show h: "mget (fs_history (snd (Cleanup io cutoff s))) mid =
      map_option (\<lambda>h. if io mid \<and> list_all rewritable (hf_rows h)
        then \<lparr>hf_rows = filter (retained cutoff) (hf_rows h), hf_torn = False\<rparr> else h) (mget (fs_history s) mid)"
    by (auto simp: Cleanup_def map_of_map_key rewriteHistoryFile_eq intro!: option.map_cong)
  assume c: "cutoff \<le> since"
  show "GetChecks readable mid since limit (snd (Cleanup io cutoff s)) = GetChecks readable mid since limit s"
    by (cases "mget (fs_history s) mid") (auto simp: GetChecks_def h scan_checks_retained [OF _ c])
qed

theorem cleanup_is_exact_witness:
  "GetChecks True ''web'' 10 0 (snd (Cleanup (\<lambda>_. True) 10
     (snd (snd (SaveCheck WritesAll (web_check ''up'' 12 3) (snd (snd (SaveCheck WritesAll (web_check ''up'' 5 3)
       (store_with (web_monitor ''a'' 3) 3))))))))) = Inr [web_check ''up'' 12 3]"
proof -
  let ?s = "snd (snd (SaveCheck WritesAll (web_check ''up'' 12 3) (snd (snd (SaveCheck WritesAll (web_check ''up'' 5 3)
       (store_with (web_monitor ''a'' 3) 3))))))"
  have "GetChecks True ''web'' 10 0 ?s = Inr [web_check ''up'' 12 3]" by code_simp
  then show ?thesis using cleanup_is_exact [of "\<lambda>_. True" 10 ?s "''web''" 10 True 0] by simp
qed

section \<open>What a short write costs\<close>

text \<open>
  \<open>SaveCheck\<close> does not end an unterminated line before it appends: after a short write the
  next check is reported as applied, but no reader sees it, and the sweep refuses the file.
\<close>

lemma check_after_short_write_is_lost:
  assumes "ValidID mid" and "mget (fs_monitors s) mid = Some (Entry m)" and "mget (fs_history s) mid = Some h"
    and "hf_torn h" and "hf_rows h = rows @ [l]"
    and "ck_monitor r = mid" and "ck_incarnation r = mo_incarnation m"
    and "SaveCheck WritesAll r s = (applied, e, s')"
  shows "applied \<and> mget (fs_history s') mid = Some \<lparr>hf_rows = rows @ [Junk], hf_torn = False\<rparr> \<and>
    fst (rewriteHistoryFile ok cutoff \<lparr>hf_rows = rows @ [Junk], hf_torn = False\<rparr>) = False"
  using assms by (auto simp: SaveCheck_def Let_def history_of_def put_history_def add_line_def rewriteHistoryFile_eq)

end
