(* ===== verification/MonitorRunner.thy ===== *)
theory MonitorRunner
  imports MonitorResults IncidentPolicy
begin

text \<open>
  The uptime runner (\<open>internal/monitor/monitor.go\<close>): one scheduler per enabled monitor, checks in
  flight, push monitors, and what a committed check feeds into the incident tracker. The
  goroutines are lists of the state: \<open>mg_starts\<close> are calls of \<open>startMonitor\<close> between their read
  of the history and their critical section, \<open>mg_schedulers\<close> every scheduler with the
  configuration and the generation it captured, and \<open>mg_flights\<close> the checks between two critical
  sections. A scheduler is never removed: one that has been stopped may still be about to
  start a check. The result of a probe is an input.
\<close>

section \<open>Policy, rule and verdicts\<close>

definition DefaultFailAfter :: int where "DefaultFailAfter = 3"
definition DefaultRecoverAfter :: int where "DefaultRecoverAfter = 2"
definition DefaultPushFailAfter :: int where "DefaultPushFailAfter = 1"
definition DefaultPushRecoverAfter :: int where "DefaultPushRecoverAfter = 1"

definition PolicyFor :: "monitor \<Rightarrow> policy" where
  "PolicyFor m =
     \<lparr>po_failAfter = (if mo_fail_after m \<le> 0
        then (if mo_type m = ''push'' then DefaultPushFailAfter else DefaultFailAfter) else mo_fail_after m),
      po_recoverAfter = (if mo_recover_after m \<le> 0
        then (if mo_type m = ''push'' then DefaultPushRecoverAfter else DefaultRecoverAfter) else mo_recover_after m),
      po_repeatEvery = mo_repeat m, po_autoResolveAfter = 0\<rparr>"

definition RuleKey :: "string \<Rightarrow> string" where
  "RuleKey mid = ''monitor:'' @ mid"

definition RuleFor :: "monitor \<Rightarrow> rule" where
  "RuleFor m =
     \<lparr>ru_key = RuleKey (mo_id m),
      ru_source = (if mo_type m = ''push'' then SourceHeartbeat else SourceMonitor),
      ru_source_text = (if mo_type m = ''push'' then ''heartbeat'' else ''monitor''),
      ru_id = mo_id m, ru_name = mo_name m, ru_app = mo_app m, ru_server = mo_server m,
      ru_target = (if mo_type m = ''push'' then ''push heartbeat'' else mo_target m),
      ru_severity = SeverityCritical, ru_path = ''/monitors/'' @ mo_id m, ru_policy = PolicyFor m,
      ru_noHold = False, ru_excludeChannels = []\<rparr>"

text \<open>
  \<open>checkHTTP\<close> and \<open>checkTCP\<close>: the request cannot be built, the transport fails, or a response
  with its status comes back; \<open>cert\<close> are the dates of the certificate that was seen.
\<close>

datatype probe =
  BadRequest string
| NoResponse string "(time \<times> time) option" duration
| Responded int "(time \<times> time) option" duration
| Dialled duration

definition base_result :: "monitor \<Rightarrow> time \<Rightarrow> check_result" where
  "base_result m now =
     \<lparr>ck_monitor = mo_id m, ck_status = [], ck_code = 0, ck_response = 0, ck_message = [], ck_at = now,
      ck_incarnation = 0, ck_not_after = None, ck_not_before = None\<rparr>"

definition recordCert :: "(time \<times> time) option \<Rightarrow> check_result \<Rightarrow> check_result" where
  "recordCert cert r = r\<lparr>ck_not_before := map_option fst cert, ck_not_after := map_option snd cert\<rparr>"

definition checkHTTP :: "monitor \<Rightarrow> time \<Rightarrow> probe \<Rightarrow> check_result" where
  "checkHTTP m now p =
     (let r = base_result m now in
      case p of
        BadRequest e \<Rightarrow> r\<lparr>ck_status := ''down'', ck_message := e\<rparr>
      | NoResponse e cert d \<Rightarrow>
          recordCert cert (r\<lparr>ck_response := d, ck_status := ''down'', ck_message := e\<rparr>)
      | Responded code cert d \<Rightarrow>
          let r1 = recordCert cert (r\<lparr>ck_response := d, ck_code := code\<rparr>)
          in if 0 < mo_expected m then
               (if code = mo_expected m then r1\<lparr>ck_status := ''up''\<rparr>
                else r1\<lparr>ck_status := ''down'',
                  ck_message := ''expected '' @ show_int (mo_expected m) @ '', got '' @ show_int code\<rparr>)
             else if mo_reachable m \<and> code < 500 then r1\<lparr>ck_status := ''up''\<rparr>
             else if 200 \<le> code \<and> code < 400 then r1\<lparr>ck_status := ''up''\<rparr>
             else r1\<lparr>ck_status := ''down'', ck_message := ''unexpected status '' @ show_int code\<rparr>
      | Dialled d \<Rightarrow> r)"

definition checkTCP :: "monitor \<Rightarrow> time \<Rightarrow> probe \<Rightarrow> check_result" where
  "checkTCP m now p =
     (let r = base_result m now in
      case p of
        NoResponse e cert d \<Rightarrow> r\<lparr>ck_response := d, ck_status := ''down'', ck_message := e\<rparr>
      | Dialled d \<Rightarrow> r\<lparr>ck_response := d, ck_status := ''up''\<rparr>
      | _ \<Rightarrow> r)"

definition run_probe :: "monitor \<Rightarrow> time \<Rightarrow> probe \<Rightarrow> check_result" where
  "run_probe m now p =
     (if mo_type m = ''http'' then checkHTTP m now p
      else if mo_type m = ''tcp'' \<or> mo_type m = ''ping'' then checkTCP m now p
      else (base_result m now)\<lparr>ck_status := ''down'', ck_message := ''unknown monitor type: '' @ mo_type m\<rparr>)"

text \<open>\<open>pushVerdict\<close>; \<open>why\<close> is the text of the message, which quotes rounded durations.\<close>

definition pushVerdict :: "string \<Rightarrow> monitor \<Rightarrow> time \<Rightarrow> time \<Rightarrow> check_result" where
  "pushVerdict why m prev now =
     (if \<not> is_zero_time prev \<and> i64 (mo_interval m + mo_grace m) < time_sub now prev
      then (base_result m now)\<lparr>ck_status := ''down'', ck_message := why\<rparr>
      else (base_result m now)\<lparr>ck_status := ''up''\<rparr>)"

definition initialDelay :: "time \<Rightarrow> duration \<Rightarrow> time \<Rightarrow> duration" where
  "initialDelay anchor interval now =
     (if is_zero_time anchor \<or> interval \<le> 0 then 0
      else if after_time (anchor + interval) now then time_sub (anchor + interval) now else 0)"

section \<open>State\<close>

record monitor_runner =
  mr_generations :: "(string, 64 word) gomap"
  mr_running :: "string list"
  mr_lastStat :: "(string, string) gomap"
  mr_lastResult :: "(string, check_result) gomap"
  mr_lastPing :: "(string, time) gomap"
  mr_push :: "(string, monitor \<times> 64 word) gomap"
  mr_stopped :: bool

text \<open>
  \<open>mg_sent\<close> is what the tracker has handed to the alerter. A check in flight: probing; stamped; saved and applied; published (a ping has one section more).
\<close>

datatype phase = Probing | Stamped | Saved | Published

record flight =
  fg_monitor :: monitor
  fg_gen :: "64 word"
  fg_result :: check_result
  fg_phase :: phase
  fg_ping :: bool

record monitoring =
  mg_runner :: monitor_runner
  mg_store :: file_store
  mg_tracker :: "tracker option"
  mg_sent :: "outgoing list"
  mg_starts :: "(monitor \<times> check_result list) list"
  mg_schedulers :: "(monitor \<times> 64 word) list"
  mg_flights :: "flight list"

definition generation :: "string \<Rightarrow> monitor_runner \<Rightarrow> 64 word" where
  "generation mid r = (case mget (mr_generations r) mid of None \<Rightarrow> 0 | Some g \<Rightarrow> g)"

definition teardownLocked :: "string \<Rightarrow> monitor_runner \<Rightarrow> monitor_runner" where
  "teardownLocked mid r =
     r\<lparr>mr_generations := mput mid (generation mid r + 1) (mr_generations r),
       mr_push := filter (\<lambda>(t, e). mo_id (fst e) \<noteq> mid) (mr_push r),
       mr_running := removeAll mid (mr_running r)\<rparr>"

text \<open>A call of the tracker, if one is attached.\<close>

definition feed :: "(tracker \<Rightarrow> outgoing list \<times> tracker) \<Rightarrow> monitoring \<Rightarrow> monitoring" where
  "feed f g =
     (case mg_tracker g of None \<Rightarrow> g
      | Some t \<Rightarrow> (case f t of (out, t') \<Rightarrow> g\<lparr>mg_tracker := Some t', mg_sent := mg_sent g @ out\<rparr>))"

section \<open>Starting a monitor\<close>

text \<open>How many results of the history \<open>startMonitor\<close> reads.\<close>

definition seed_length :: "policy \<Rightarrow> int" where
  "seed_length p = (let n = max (po_failAfter p) (po_recoverAfter p) + 1 in if 50 < n then 50 else n)"

definition seed_history :: "bool \<Rightarrow> monitor \<Rightarrow> file_store \<Rightarrow> check_result list" where
  "seed_history readable m s =
     (case GetChecks readable (mo_id m) 0 (seed_length (PolicyFor m)) s of Inl e \<Rightarrow> [] | Inr cs \<Rightarrow> cs)"

definition start_begin :: "bool \<Rightarrow> monitor \<Rightarrow> monitoring \<Rightarrow> monitoring" where
  "start_begin readable m g =
     (if mr_stopped (mg_runner g) then g
      else g\<lparr>mg_starts := mg_starts g @ [(m, seed_history readable m (mg_store g))]\<rparr>)"

definition samples_of :: "check_result list \<Rightarrow> sample list" where
  "samples_of cs = map (\<lambda>c. \<lparr>sm_ok = (ck_status c = ''up''), sm_at = ck_at c\<rparr>) cs"

definition seed_tracker :: "tracker_env \<Rightarrow> monitor \<Rightarrow> check_result list \<Rightarrow> tracker \<Rightarrow> tracker" where
  "seed_tracker env m cs t =
     (let t1 = Seed (RuleFor m) (samples_of cs) t;
          fails = fst (Counts (RuleKey (mo_id m)) t1)
      in if tk_adopting t1 \<and> 0 < fails
         then AdoptOpen env (RuleFor m) (ck_at (cs ! (nat fails - 1))) fails
           (case cs of [] \<Rightarrow> [] | c # _ \<Rightarrow> ck_message c) t1
         else t1)"

definition newest_ping :: "check_result list \<Rightarrow> time" where
  "newest_ping cs = (case filter (\<lambda>c. ck_status c = ''up'') cs of [] \<Rightarrow> 0 | c # _ \<Rightarrow> ck_at c)"

definition start_runner :: "time \<Rightarrow> monitor \<Rightarrow> check_result list \<Rightarrow> monitor_runner \<Rightarrow> monitor_runner" where
  "start_runner now m cs r0 =
     (let mid = mo_id m;
          r = teardownLocked mid r0;
          seed = (case cs of [] \<Rightarrow> [] | c # _ \<Rightarrow> ck_status c);
          r = (if seed \<noteq> [] then r\<lparr>mr_lastStat := mput mid seed (mr_lastStat r)\<rparr> else r);
          r = (case cs of [] \<Rightarrow> r
               | c # _ \<Rightarrow>
                   if (case mget (mr_lastResult r) mid of None \<Rightarrow> True | Some cur \<Rightarrow> after_time (ck_at c) (ck_at cur))
                   then r\<lparr>mr_lastResult := mput mid c (mr_lastResult r)\<rparr> else r);
          r = r\<lparr>mr_running := mr_running r @ [mid]\<rparr>
      in if mo_type m \<noteq> ''push'' then r
         else
           let ping = newest_ping cs;
               r = (case mget (mr_lastPing r) mid of
                      None \<Rightarrow> r\<lparr>mr_lastPing := mput mid (if is_zero_time ping then now else ping) (mr_lastPing r)\<rparr>
                    | Some prev \<Rightarrow>
                        if \<not> is_zero_time ping \<and> before_time prev ping
                        then r\<lparr>mr_lastPing := mput mid ping (mr_lastPing r)\<rparr> else r)
           in if mo_token m \<noteq> [] then r\<lparr>mr_push := mput (mo_token m) (m, generation mid r) (mr_push r)\<rparr> else r)"

definition start_finish :: "tracker_env \<Rightarrow> nat \<Rightarrow> monitoring \<Rightarrow> monitoring" where
  "start_finish env i g =
     (case mg_starts g ! i of (m, cs) \<Rightarrow>
       let g1 = g\<lparr>mg_starts := take i (mg_starts g) @ drop (Suc i) (mg_starts g)\<rparr>
       in if mr_stopped (mg_runner g) then g1
          else
            let r = start_runner (te_now env) m cs (mg_runner g)
            in feed (\<lambda>t. ([], seed_tracker env m cs t)) (g1\<lparr>mg_runner := r,
                  mg_schedulers := mg_schedulers g @ [(m, generation (mo_id m) r)]\<rparr>))"

section \<open>Checks\<close>

definition check_begin :: "nat \<Rightarrow> monitoring \<Rightarrow> monitoring" where
  "check_begin i g =
     (case mg_schedulers g ! i of (m, gen) \<Rightarrow>
       if mo_type m = ''push'' \<or> generation (mo_id m) (mg_runner g) \<noteq> gen then g
       else g\<lparr>mg_flights := mg_flights g @ [\<lparr>fg_monitor = m, fg_gen = gen, fg_result = base_result m 0,
              fg_phase = Probing, fg_ping = False\<rparr>]\<rparr>)"

text \<open>A push scheduler that finds its deadline passed; \<open>commit\<close> begins like a check.\<close>

definition miss_begin :: "string \<Rightarrow> time \<Rightarrow> nat \<Rightarrow> monitoring \<Rightarrow> monitoring" where
  "miss_begin why now i g =
     (case mg_schedulers g ! i of (m, gen) \<Rightarrow>
       let prev = (case mget (mr_lastPing (mg_runner g)) (mo_id m) of None \<Rightarrow> 0 | Some t \<Rightarrow> t);
           res = pushVerdict why m prev now
       in if mo_type m \<noteq> ''push'' \<or> ck_status res \<noteq> ''down'' then g
          else g\<lparr>mg_flights := mg_flights g @ [\<lparr>fg_monitor = m, fg_gen = gen, fg_result = res,
                 fg_phase = Probing, fg_ping = False\<rparr>]\<rparr>)"

text \<open>\<open>Ping\<close>: the token is looked up under the lock; an unknown one is an error.\<close>

definition HasPushToken :: "string \<Rightarrow> monitor_runner \<Rightarrow> bool" where
  "HasPushToken token r \<longleftrightarrow> mget (mr_push r) token \<noteq> None"

definition ping_result :: "monitor \<Rightarrow> bool \<Rightarrow> string \<Rightarrow> time \<Rightarrow> check_result" where
  "ping_result m ok message now =
     (base_result m now)\<lparr>ck_status := (if ok then ''up'' else ''down''),
       ck_message := (if \<not> ok \<and> message = [] then ''job reported failure'' else message)\<rparr>"

definition ping_begin :: "string \<Rightarrow> bool \<Rightarrow> string \<Rightarrow> time \<Rightarrow> monitoring \<Rightarrow> bool \<times> monitoring" where
  "ping_begin token ok message now g =
     (case mget (mr_push (mg_runner g)) token of
        None \<Rightarrow> (False, g)
      | Some (m, gen) \<Rightarrow>
          (True, g\<lparr>mg_flights := mg_flights g @ [\<lparr>fg_monitor = m, fg_gen = gen,
             fg_result = ping_result m ok message now, fg_phase = Probing, fg_ping = ok\<rparr>]\<rparr>))"

definition drop_flight :: "nat \<Rightarrow> monitoring \<Rightarrow> monitoring" where
  "drop_flight j g = g\<lparr>mg_flights := take j (mg_flights g) @ drop (Suc j) (mg_flights g)\<rparr>"

definition put_flight :: "nat \<Rightarrow> flight \<Rightarrow> monitoring \<Rightarrow> monitoring" where
  "put_flight j f g = g\<lparr>mg_flights := (mg_flights g)[j := f]\<rparr>"

definition current_flight :: "flight \<Rightarrow> monitor_runner \<Rightarrow> bool" where
  "current_flight f r \<longleftrightarrow> generation (mo_id (fg_monitor f)) r = fg_gen f"

text \<open>The probe returns (\<open>None\<close> for a ping or a miss): the result is stamped, a stale check ends.\<close>

definition check_probed :: "(time \<times> probe) option \<Rightarrow> nat \<Rightarrow> monitoring \<Rightarrow> monitoring" where
  "check_probed p j g =
     (let f = mg_flights g ! j; m = fg_monitor f;
          res = (case p of Some (now, p) \<Rightarrow> run_probe m now p | None \<Rightarrow> fg_result f)
      in if current_flight f (mg_runner g)
         then put_flight j (f\<lparr>fg_result := res\<lparr>ck_incarnation := mo_incarnation m\<rparr>, fg_phase := Stamped\<rparr>) g
         else drop_flight j g)"

definition check_save :: "append_line_io \<Rightarrow> nat \<Rightarrow> monitoring \<Rightarrow> monitoring" where
  "check_save io j g =
     (let f = mg_flights g ! j
      in case SaveCheck io (fg_result f) (mg_store g) of
           (applied, e, s) \<Rightarrow>
             let g1 = g\<lparr>mg_store := s\<rparr>
             in if applied then put_flight j (f\<lparr>fg_phase := Saved\<rparr>) g1 else drop_flight j g1)"

definition check_publish :: "tracker_env \<Rightarrow> nat \<Rightarrow> monitoring \<Rightarrow> monitoring" where
  "check_publish env j g =
     (let f = mg_flights g ! j; m = fg_monitor f; res = fg_result f; r = mg_runner g
      in if \<not> current_flight f r then drop_flight j g
         else
           let r1 = r\<lparr>mr_lastStat := mput (mo_id m) (ck_status res) (mr_lastStat r),
                      mr_lastResult := mput (mo_id m) res (mr_lastResult r)\<rparr>;
               g1 = feed (Observe env (RuleFor m) (ck_status res = ''up'') (ck_at res) (ck_message res))
                 (g\<lparr>mg_runner := r1\<rparr>)
           in if fg_ping f then put_flight j (f\<lparr>fg_phase := Published\<rparr>) g1 else drop_flight j g1)"

definition ping_note :: "nat \<Rightarrow> monitoring \<Rightarrow> monitoring" where
  "ping_note j g =
     (let f = mg_flights g ! j; r = mg_runner g; g1 = drop_flight j g
      in if current_flight f r
         then g1\<lparr>mg_runner := r\<lparr>mr_lastPing := mput (mo_id (fg_monitor f)) (ck_at (fg_result f)) (mr_lastPing r)\<rparr>\<rparr>
         else g1)"

section \<open>Ending a monitor\<close>

definition retireLocked :: "tracker_env \<Rightarrow> string \<Rightarrow> string \<Rightarrow> monitoring \<Rightarrow> monitoring" where
  "retireLocked env mid why = feed (Retire env (RuleKey mid) why)"

definition Remove_monitor :: "tracker_env \<Rightarrow> string \<Rightarrow> monitoring \<Rightarrow> monitoring" where
  "Remove_monitor env mid g =
     (let r = teardownLocked mid (mg_runner g)
      in retireLocked env mid ''monitor removed''
           (g\<lparr>mg_runner := r\<lparr>mr_lastStat := mdel mid (mr_lastStat r), mr_lastPing := mdel mid (mr_lastPing r),
             mr_lastResult := mdel mid (mr_lastResult r)\<rparr>\<rparr>))"

definition disable_monitor :: "tracker_env \<Rightarrow> string \<Rightarrow> monitoring \<Rightarrow> monitoring" where
  "disable_monitor env mid g =
     retireLocked env mid ''monitor disabled'' (g\<lparr>mg_runner := teardownLocked mid (mg_runner g)\<rparr>)"

definition stopMonitor :: "string \<Rightarrow> monitoring \<Rightarrow> monitoring" where
  "stopMonitor mid g = g\<lparr>mg_runner := teardownLocked mid (mg_runner g)\<rparr>"

definition Stop_runner :: "monitoring \<Rightarrow> monitoring" where
  "Stop_runner g = g\<lparr>mg_runner := (mg_runner g)\<lparr>mr_stopped := True, mr_running := []\<rparr>\<rparr>"

definition LastResult :: "string \<Rightarrow> monitor_runner \<Rightarrow> check_result option" where
  "LastResult mid r = mget (mr_lastResult r) mid"

text \<open>\<open>CheckNow\<close>: one check whose result is neither saved nor published.\<close>

definition CheckNow :: "string \<Rightarrow> time \<Rightarrow> probe \<Rightarrow> monitor \<Rightarrow> monitor_runner \<Rightarrow> check_result" where
  "CheckNow why now p m r =
     (if mo_type m = ''push''
      then pushVerdict why m (case mget (mr_lastPing r) (mo_id m) of None \<Rightarrow> 0 | Some t \<Rightarrow> t) now
      else run_probe m now p)"

section \<open>Steps\<close>

text \<open>Every critical section is a step; \<open>Reload\<close> of an enabled monitor is the three first.\<close>

datatype monitor_step =
  StopMonitor string
| StartBegin bool monitor
| StartFinish tracker_env nat
| DisableMonitor tracker_env string
| RemoveMonitor tracker_env string
| CheckBegin nat
| MissBegin string time nat
| PingBegin string bool string time
| CheckProbed "(time \<times> probe) option" nat
| CheckSave append_line_io nat
| CheckPublish tracker_env nat
| PingNote nat
| StoreStep store_op
| StopAll

text \<open>Whether a step can be taken: the goroutine it belongs to exists and is at that point.\<close>

definition at_phase :: "phase \<Rightarrow> nat \<Rightarrow> monitoring \<Rightarrow> bool" where
  "at_phase p j g \<longleftrightarrow> j < length (mg_flights g) \<and> fg_phase (mg_flights g ! j) = p"

fun monitor_enabled :: "monitor_step \<Rightarrow> monitoring \<Rightarrow> bool" where
  "monitor_enabled (StartFinish env i) g \<longleftrightarrow> i < length (mg_starts g)"
| "monitor_enabled (CheckBegin i) g \<longleftrightarrow> i < length (mg_schedulers g)"
| "monitor_enabled (MissBegin why now i) g \<longleftrightarrow> i < length (mg_schedulers g)"
| "monitor_enabled (CheckProbed p j) g \<longleftrightarrow> at_phase Probing j g"
| "monitor_enabled (CheckSave io j) g \<longleftrightarrow> at_phase Stamped j g"
| "monitor_enabled (CheckPublish env j) g \<longleftrightarrow> at_phase Saved j g"
| "monitor_enabled (PingNote j) g \<longleftrightarrow> at_phase Published j g"
| "monitor_enabled _ g \<longleftrightarrow> True"

fun monitor_do :: "monitor_step \<Rightarrow> monitoring \<Rightarrow> monitoring" where
  "monitor_do (StopMonitor mid) g = stopMonitor mid g"
| "monitor_do (StartBegin rd m) g = start_begin rd m g"
| "monitor_do (StartFinish env i) g = start_finish env i g"
| "monitor_do (DisableMonitor env mid) g = disable_monitor env mid g"
| "monitor_do (RemoveMonitor env mid) g = Remove_monitor env mid g"
| "monitor_do (CheckBegin i) g = check_begin i g"
| "monitor_do (MissBegin why now i) g = miss_begin why now i g"
| "monitor_do (PingBegin t ok msg now) g = snd (ping_begin t ok msg now g)"
| "monitor_do (CheckProbed p j) g = check_probed p j g"
| "monitor_do (CheckSave io j) g = check_save io j g"
| "monitor_do (CheckPublish env j) g = check_publish env j g"
| "monitor_do (PingNote j) g = ping_note j g"
| "monitor_do (StoreStep a) g = g\<lparr>mg_store := store_step a (mg_store g)\<rparr>"
| "monitor_do StopAll g = Stop_runner g"

definition monitor_next :: "monitor_step \<Rightarrow> monitoring \<Rightarrow> monitoring" where
  "monitor_next a g = (if monitor_enabled a g then monitor_do a g else g)"

end
