(* ===== verification/MonitorSafety.thy ===== *)
theory MonitorSafety
  imports MonitorRunner
begin

text \<open>
  What the uptime runner guarantees over every interleaving of its goroutines with the
  operations on monitors: a check that is published was made under the configuration that is
  running, and a removed monitor stays silent. Both rest on the generations.
\<close>

section \<open>Generations and captured configurations\<close>

definition captured :: "monitoring \<Rightarrow> (monitor \<times> 64 word) list" where
  "captured g = mg_schedulers g @ map (\<lambda>f. (fg_monitor f, fg_gen f)) (mg_flights g) @ map snd (mr_push (mg_runner g))"

text \<open>The monitor whose generation a step raises.\<close>

fun raises :: "monitor_step \<Rightarrow> monitoring \<Rightarrow> string option" where
  "raises (StopMonitor mid) g = Some mid"
| "raises (DisableMonitor env mid) g = Some mid"
| "raises (RemoveMonitor env mid) g = Some mid"
| "raises (StartFinish env i) g =
     (if i < length (mg_starts g) \<and> \<not> mr_stopped (mg_runner g) then Some (mo_id (fst (mg_starts g ! i))) else None)"
| "raises _ g = None"

lemma feed_frame [simp]:
  "mg_runner (feed f g) = mg_runner g" "mg_store (feed f g) = mg_store g" "mg_starts (feed f g) = mg_starts g"
  "mg_schedulers (feed f g) = mg_schedulers g" "mg_flights (feed f g) = mg_flights g"
  by (simp_all add: feed_def split: option.split prod.split)

lemma flight_frame [simp]:
  "mg_runner (drop_flight j g) = mg_runner g" "mg_runner (put_flight j f g) = mg_runner g"
  "mg_starts (drop_flight j g) = mg_starts g" "mg_starts (put_flight j f g) = mg_starts g"
  "mg_schedulers (drop_flight j g) = mg_schedulers g" "mg_schedulers (put_flight j f g) = mg_schedulers g"
  "mg_tracker (drop_flight j g) = mg_tracker g" "mg_tracker (put_flight j f g) = mg_tracker g"
  by (simp_all add: drop_flight_def put_flight_def)

lemma teardown_simps [simp]:
  "mr_lastStat (teardownLocked mid r) = mr_lastStat r" "mr_lastResult (teardownLocked mid r) = mr_lastResult r"
  "mr_lastPing (teardownLocked mid r) = mr_lastPing r" "mr_stopped (teardownLocked mid r) = mr_stopped r"
  "mr_running (teardownLocked mid r) = removeAll mid (mr_running r)"
  "mr_push (teardownLocked mid r) = filter (\<lambda>(t, e). mo_id (fst e) \<noteq> mid) (mr_push r)"
  "mr_generations (teardownLocked mid r) = mput mid (generation mid r + 1) (mr_generations r)"
  by (simp_all add: teardownLocked_def)

lemma start_runner_simps [simp]:
  "mr_generations (start_runner now m cs r) = mput (mo_id m) (generation (mo_id m) r + 1) (mr_generations r)"
  "mr_stopped (start_runner now m cs r) = mr_stopped r"
  "mr_running (start_runner now m cs r) = removeAll (mo_id m) (mr_running r) @ [mo_id m]"
  by (simp_all add: start_runner_def Let_def split: list.split option.split)

lemma generation_put: "generation k (r\<lparr>mr_generations := mput j x ms\<rparr>) = (if k = j then x else generation k (r\<lparr>mr_generations := ms\<rparr>))"
  by (simp add: generation_def)

lemma generation_cong: "mr_generations r = mr_generations r' \<Longrightarrow> generation k r = generation k r'"
  by (simp add: generation_def)

lemma generation_teardown: "mr_generations r' = mput mid (generation mid r + 1) (mr_generations r) \<Longrightarrow>
    generation k r' = (if k = mid then generation k r + 1 else generation k r)"
  by (simp add: generation_def)

lemma start_runner_push:
  "e \<in> set (mr_push (start_runner now m cs r)) \<Longrightarrow>
     e \<in> set (mr_push r) \<and> mo_id (fst (snd e)) \<noteq> mo_id m \<or> e = (mo_token m, m, generation (mo_id m) r + 1)"
proof -
  have g: "generation (mo_id m) (r'\<lparr>mr_lastPing := x\<rparr>) = generation (mo_id m) r'" for r' x by (simp add: generation_def)
  have p: "e \<in> set (AList.update k v xs) \<Longrightarrow> e = (k, v) \<or> e \<in> set xs" for k v and xs :: "(string \<times> monitor \<times> 64 word) list"
    using update_set [of k v xs] by auto
  assume "e \<in> set (mr_push (start_runner now m cs r))"
  then show ?thesis
    by (auto simp: start_runner_def Let_def generation_def split: list.splits option.splits if_splits dest!: p)
qed

lemmas step_defs = monitor_next_def stopMonitor_def start_begin_def start_finish_def disable_monitor_def
      retireLocked_def Remove_monitor_def check_begin_def miss_begin_def ping_begin_def check_probed_def check_save_def
      check_publish_def ping_note_def Stop_runner_def Let_def

lemma runner_generations:
  "mr_generations (mg_runner (monitor_next a g)) =
     (case raises a g of None \<Rightarrow> mr_generations (mg_runner g)
      | Some mid \<Rightarrow> mput mid (generation mid (mg_runner g) + 1) (mr_generations (mg_runner g)))"
  by (cases a) (auto simp: step_defs split: prod.splits option.splits if_splits)

lemma generation_step:
  "generation k (mg_runner (monitor_next a g)) =
     (if raises a g = Some k then generation k (mg_runner g) + 1 else generation k (mg_runner g))"
  using runner_generations [of a g] by (auto simp: generation_def split: option.splits)

lemma stopped_step: "mr_stopped (mg_runner g) \<Longrightarrow> mr_stopped (mg_runner (monitor_next a g))"
  by (cases a) (auto simp: step_defs split: prod.splits option.splits if_splits)

lemma running_step:
  "k \<in> set (mr_running (mg_runner g)) \<Longrightarrow> raises a g \<noteq> Some k \<Longrightarrow>
     k \<in> set (mr_running (mg_runner (monitor_next a g))) \<or> mr_stopped (mg_runner (monitor_next a g))"
  by (cases a) (auto simp: step_defs split: prod.splits option.splits if_splits)


lemma starts_step:
  "p \<in> set (mg_starts (monitor_next a g)) \<Longrightarrow>
     p \<in> set (mg_starts g) \<or> (\<exists>rd m. a = StartBegin rd m \<and> fst p = m)"
  by (cases a) (auto simp: step_defs split: prod.splits option.splits if_splits dest: in_set_takeD in_set_dropD)

text \<open>Which configurations a step adds to the captured ones: those of a start.\<close>

definition started :: "monitor_step \<Rightarrow> monitoring \<Rightarrow> monitor \<times> 64 word \<Rightarrow> bool" where
  "started a g c \<longleftrightarrow> raises a g = Some (mo_id (fst c)) \<and> snd c = generation (mo_id (fst c)) (mg_runner g) + 1 \<and>
     (\<exists>env i. a = StartFinish env i \<and> fst c = fst (mg_starts g ! i) \<and> i < length (mg_starts g))"

lemma captured_start_finish:
  assumes "c \<in> set (captured (start_finish env i g))" and "i < length (mg_starts g)"
  shows "c \<in> set (captured g) \<or> started (StartFinish env i) g c"
proof -
  obtain m cs where m: "mg_starts g ! i = (m, cs)" by force
  show ?thesis
  proof (cases "mr_stopped (mg_runner g)")
    case True
    then show ?thesis using assms m by (auto simp: start_finish_def captured_def Let_def)
  next
    case False
    let ?r = "start_runner (te_now env) m cs (mg_runner g)"
    have gen: "generation (mo_id m) ?r = generation (mo_id m) (mg_runner g) + 1" by (simp add: generation_def)
    have "c \<in> set (mg_schedulers g) \<or> c = (m, generation (mo_id m) ?r) \<or>
        c \<in> (\<lambda>f. (fg_monitor f, fg_gen f)) ` set (mg_flights g) \<or> c \<in> snd ` set (mr_push ?r)"
      using assms(1) m False by (auto simp: start_finish_def captured_def Let_def)
    then show ?thesis
      using m False assms(2) by (auto simp: captured_def started_def gen dest!: start_runner_push)
  qed
qed

lemma flights_drop: "f \<in> set (mg_flights (drop_flight j g)) \<Longrightarrow> f \<in> set (mg_flights g)"
  by (auto simp: drop_flight_def dest: in_set_takeD in_set_dropD)

lemma flights_put: "f \<in> set (mg_flights (put_flight j f' g)) \<Longrightarrow> f = f' \<or> f \<in> set (mg_flights g)"
  using set_update_subset_insert [of "mg_flights g" j f'] by (auto simp: put_flight_def)

definition flight_ok :: "flight \<Rightarrow> bool" where
  "flight_ok f \<longleftrightarrow> ck_monitor (fg_result f) = mo_id (fg_monitor f) \<and>
     (fg_phase f \<noteq> Probing \<longrightarrow> ck_incarnation (fg_result f) = mo_incarnation (fg_monitor f))"

lemma base_result_monitor [simp]: "ck_monitor (base_result m now) = mo_id m"
  by (simp add: base_result_def)

lemma run_probe_monitor [simp]: "ck_monitor (run_probe m now p) = mo_id m"
  by (auto simp: run_probe_def checkHTTP_def checkTCP_def recordCert_def Let_def split: probe.split)

lemma pushVerdict_monitor [simp]: "ck_monitor (pushVerdict why m prev now) = mo_id m"
  by (simp add: pushVerdict_def)

lemma ping_result_monitor [simp]: "ck_monitor (ping_result m ok msg now) = mo_id m"
  by (simp add: ping_result_def)

text \<open>A flight after a step belongs to a configuration captured before it, and stays well-formed.\<close>

definition flights_kept :: "monitoring \<Rightarrow> monitoring \<Rightarrow> bool" where
  "flights_kept g g' \<longleftrightarrow> (\<forall>f \<in> set (mg_flights g'). (fg_monitor f, fg_gen f) \<in> set (captured g) \<and>
     (list_all flight_ok (mg_flights g) \<longrightarrow> flight_ok f))"

lemma flights_keptI:
  "(\<And>f. f \<in> set (mg_flights g') \<Longrightarrow> f \<in> set (mg_flights g) \<or>
      (fg_monitor f, fg_gen f) \<in> set (captured g) \<and> (list_all flight_ok (mg_flights g) \<longrightarrow> flight_ok f)) \<Longrightarrow> flights_kept g g'"
  by (fastforce simp: flights_kept_def captured_def list_all_iff)

lemma nth_captured: "j < length (mg_flights g) \<Longrightarrow>
    (fg_monitor (mg_flights g ! j), fg_gen (mg_flights g ! j)) \<in> set (captured g) \<and>
    (list_all flight_ok (mg_flights g) \<longrightarrow> flight_ok (mg_flights g ! j))"
  by (auto simp: captured_def list_all_iff)

lemma drop_flight_eq: "mg_flights g1 = mg_flights g \<Longrightarrow> f \<in> set (mg_flights (drop_flight j g1)) \<Longrightarrow> f \<in> set (mg_flights g)"
  by (metis flights_drop)

lemma put_flight_eq: "mg_flights g1 = mg_flights g \<Longrightarrow> f \<in> set (mg_flights (put_flight j f' g1)) \<Longrightarrow> f = f' \<or> f \<in> set (mg_flights g)"
  by (metis flights_put)

lemma flights_put_kept:
  assumes "j < length (mg_flights g)" and "mg_flights g1 = mg_flights g"
    and "fg_monitor f' = fg_monitor (mg_flights g ! j)" "fg_gen f' = fg_gen (mg_flights g ! j)"
    and "flight_ok (mg_flights g ! j) \<Longrightarrow> flight_ok f'"
  shows "flights_kept g (put_flight j f' g1)"
  by (rule flights_keptI) (use nth_captured [OF assms(1)] assms in \<open>auto dest!: put_flight_eq [OF assms(2)]\<close>)

lemma flights_drop_kept: "mg_flights g1 = mg_flights g \<Longrightarrow> flights_kept g (drop_flight j g1)"
  by (rule flights_keptI) (auto dest: drop_flight_eq)

lemma flights_same_kept: "mg_flights g1 = mg_flights g \<Longrightarrow> flights_kept g g1"
  by (rule flights_keptI) auto

lemma flights_step: "flights_kept g (monitor_next a g)"
proof (cases "monitor_enabled a g")
  case en: True
  show ?thesis
  proof (cases a)
    case (CheckBegin i)
    show ?thesis by (rule flights_keptI)
      (use en in \<open>auto simp: CheckBegin step_defs captured_def flight_ok_def split: prod.splits if_splits
          intro: nth_mem [of i "mg_schedulers g"] dest: nth_mem\<close>)
  next
    case (MissBegin why now i)
    show ?thesis by (rule flights_keptI)
      (use en in \<open>auto simp: MissBegin step_defs captured_def flight_ok_def split: prod.splits if_splits option.splits
          dest: nth_mem\<close>)
  next
    case (PingBegin t ok msg now)
    show ?thesis by (rule flights_keptI)
      (auto simp: PingBegin step_defs captured_def flight_ok_def split: option.splits dest!: mget_SomeD;
        force)
  next
    case (CheckProbed p j)
    have j: "j < length (mg_flights g)" using en by (simp add: CheckProbed at_phase_def)
    show ?thesis using en
      by (auto simp: CheckProbed monitor_next_def check_probed_def Let_def flight_ok_def
          intro!: flights_put_kept [OF j] flights_drop_kept split: option.splits prod.splits)
  next
    case (CheckSave io j)
    have j: "j < length (mg_flights g)" and ph: "fg_phase (mg_flights g ! j) = Stamped"
      using en by (simp_all add: CheckSave at_phase_def)
    show ?thesis using en ph
      by (auto simp: CheckSave monitor_next_def check_save_def Let_def flight_ok_def
          intro!: flights_put_kept [OF j] flights_drop_kept split: prod.splits)
  next
    case (CheckPublish env j)
    have j: "j < length (mg_flights g)" and ph: "fg_phase (mg_flights g ! j) = Saved"
      using en by (simp_all add: CheckPublish at_phase_def)
    show ?thesis using en ph
      by (auto simp: CheckPublish monitor_next_def check_publish_def Let_def flight_ok_def
          intro!: flights_put_kept [OF j] flights_drop_kept)
  next
    case (PingNote j)
    show ?thesis using en
      by (auto simp: PingNote monitor_next_def ping_note_def Let_def drop_flight_def
          intro!: flights_keptI dest: in_set_takeD in_set_dropD)
  qed (auto simp: step_defs intro!: flights_same_kept split: prod.splits)
qed (auto simp: monitor_next_def intro!: flights_same_kept)

lemma captured_step:
  assumes "c \<in> set (captured (monitor_next a g))"
  shows "c \<in> set (captured g) \<or> started a g c"
proof (cases "c \<in> (\<lambda>f. (fg_monitor f, fg_gen f)) ` set (mg_flights (monitor_next a g))")
  case True
  then show ?thesis using flights_step [of g a] by (auto simp: flights_kept_def)
next
  case False
  show ?thesis
  proof (cases "\<exists>env i. a = StartFinish env i \<and> i < length (mg_starts g)")
    case True
    then obtain env i where "a = StartFinish env i" "i < length (mg_starts g)" by blast
    then show ?thesis using captured_start_finish [of c env i g] assms by (simp add: monitor_next_def)
  next
    case no: False
    have "mg_schedulers (monitor_next a g) = mg_schedulers g"
      using no by (cases a) (auto simp: step_defs split: prod.splits option.splits)
    moreover have "set (mr_push (mg_runner (monitor_next a g))) \<subseteq> set (mr_push (mg_runner g))"
      using no by (cases a) (auto simp: step_defs split: prod.splits option.splits)
    ultimately show ?thesis using assms False by (auto simp: captured_def)
  qed
qed

section \<open>The invariant\<close>

definition generations_below :: "nat \<Rightarrow> monitor_runner \<Rightarrow> bool" where
  "generations_below n r \<longleftrightarrow> list_all (\<lambda>(k, x). unat x \<le> n) (mr_generations r)"

lemma generation_below: "generations_below n r \<Longrightarrow> unat (generation k r) \<le> n"
  by (auto simp: generations_below_def generation_def list_all_iff split: option.split dest!: mget_SomeD)

lemma generations_below_step:
  assumes "generations_below n (mg_runner g)" and "n < 2 ^ 64 - 1"
  shows "generations_below (Suc n) (mg_runner (monitor_next a g))"
proof -
  have w: "unat (generation k (mg_runner g) + 1) \<le> Suc n" for k
    using unat_Suc64 [of "generation k (mg_runner g)"] generation_below [OF assms(1), of k] assms(2) by simp
  show ?thesis
    using assms(1) w update_set
    by (fastforce simp: generations_below_def runner_generations list_all_iff split: option.split)
qed

lemma generation_raised:
  "generations_below n (mg_runner g) \<Longrightarrow> n < 2 ^ 64 - 1 \<Longrightarrow>
     generation k (mg_runner g) < generation k (mg_runner g) + 1"
  using unat_Suc64 [of "generation k (mg_runner g)"] generation_below [of n "mg_runner g" k]
  by (simp add: word_less_nat_alt)

text \<open>
  No captured generation is ahead of the live one; those of one generation of one monitor are
  one configuration; and at the live generation the monitor is scheduled, until the shutdown.
\<close>

definition monitoring_ok :: "monitoring \<Rightarrow> bool" where
  "monitoring_ok g \<longleftrightarrow>
     list_all (\<lambda>c. snd c \<le> generation (mo_id (fst c)) (mg_runner g)) (captured g) \<and>
     list_all (\<lambda>c. list_all (\<lambda>d. mo_id (fst c) = mo_id (fst d) \<and> snd c = snd d \<longrightarrow> fst c = fst d) (captured g)) (captured g) \<and>
     list_all (\<lambda>c. snd c = generation (mo_id (fst c)) (mg_runner g) \<longrightarrow>
       mo_id (fst c) \<in> set (mr_running (mg_runner g)) \<or> mr_stopped (mg_runner g)) (captured g) \<and>
     list_all flight_ok (mg_flights g)"

lemma monitoring_okD:
  assumes "monitoring_ok g"
  shows "c \<in> set (captured g) \<Longrightarrow> snd c \<le> generation (mo_id (fst c)) (mg_runner g)"
    and "c \<in> set (captured g) \<Longrightarrow> d \<in> set (captured g) \<Longrightarrow> mo_id (fst c) = mo_id (fst d) \<Longrightarrow> snd c = snd d \<Longrightarrow> fst c = fst d"
    and "c \<in> set (captured g) \<Longrightarrow> snd c = generation (mo_id (fst c)) (mg_runner g) \<Longrightarrow>
       mo_id (fst c) \<in> set (mr_running (mg_runner g)) \<or> mr_stopped (mg_runner g)"
    and "f \<in> set (mg_flights g) \<Longrightarrow> flight_ok f"
  using assms by (auto simp: monitoring_ok_def list_all_iff)

lemma started_running:
  "started a g c \<Longrightarrow> mo_id (fst c) \<in> set (mr_running (mg_runner (monitor_next a g)))"
  by (auto simp: started_def step_defs split: prod.splits if_splits)

lemma monitoring_ok_step:
  assumes ok: "monitoring_ok g" and b: "generations_below n (mg_runner g)" "n < 2 ^ 64 - 1"
  shows "monitoring_ok (monitor_next a g)"
proof -
  let ?g = "monitor_next a g"
  have up: "generation k (mg_runner g) \<le> generation k (mg_runner ?g)" for k
    using generation_raised [OF b, of k] by (simp add: generation_step less_imp_le)
  have new: "snd c = generation (mo_id (fst c)) (mg_runner ?g) \<and> generation (mo_id (fst c)) (mg_runner g) < snd c"
    if "started a g c" for c
    using that generation_raised [OF b, of "mo_id (fst c)"] by (simp add: started_def generation_step)
  have one: "snd c \<le> generation (mo_id (fst c)) (mg_runner ?g)" if "c \<in> set (captured ?g)" for c
    using captured_step [OF that] monitoring_okD(1) [OF ok, of c] up [of "mo_id (fst c)"] new [of c] by auto
  have two: "fst c = fst d"
    if c: "c \<in> set (captured ?g)" and d: "d \<in> set (captured ?g)" and e: "mo_id (fst c) = mo_id (fst d)" "snd c = snd d" for c d
    using captured_step [OF c] captured_step [OF d]
  proof (elim disjE)
    assume "started a g c" "started a g d" then show ?thesis by (auto simp: started_def)
  next
    assume "c \<in> set (captured g)" "started a g d"
    then show ?thesis using monitoring_okD(1) [OF ok, of c] new [of d] e by (metis leD)
  next
    assume "started a g c" "d \<in> set (captured g)"
    then show ?thesis using monitoring_okD(1) [OF ok, of d] new [of c] e by (metis leD)
  qed (use monitoring_okD(2) [OF ok] e in blast)
  have three: "mo_id (fst c) \<in> set (mr_running (mg_runner ?g)) \<or> mr_stopped (mg_runner ?g)"
    if c: "c \<in> set (captured ?g)" and e: "snd c = generation (mo_id (fst c)) (mg_runner ?g)" for c
    using captured_step [OF c]
  proof
    assume old: "c \<in> set (captured g)"
    have nr: "raises a g \<noteq> Some (mo_id (fst c))"
      using monitoring_okD(1) [OF ok old] e generation_raised [OF b, of "mo_id (fst c)"] by (auto simp: generation_step)
    then have "snd c = generation (mo_id (fst c)) (mg_runner g)" using e by (simp add: generation_step)
    then show ?thesis
      using monitoring_okD(3) [OF ok old] running_step [OF _ nr] stopped_step [of g a] by blast
  qed (use started_running in blast)
  have four: "flight_ok f" if "f \<in> set (mg_flights ?g)" for f
    using flights_step [of g a] that monitoring_okD(4) [OF ok] by (simp add: flights_kept_def list_all_iff)
  show ?thesis using one two three four unfolding monitoring_ok_def list_all_iff by blast
qed

definition fresh_monitoring :: "file_store \<Rightarrow> tracker option \<Rightarrow> monitoring" where
  "fresh_monitoring s t =
     \<lparr>mg_runner = \<lparr>mr_generations = [], mr_running = [], mr_lastStat = [], mr_lastResult = [], mr_lastPing = [],
        mr_push = [], mr_stopped = False\<rparr>,
      mg_store = s, mg_tracker = t, mg_sent = [], mg_starts = [], mg_schedulers = [], mg_flights = []\<rparr>"

definition monitor_run :: "monitor_step list \<Rightarrow> monitoring \<Rightarrow> monitoring" where
  "monitor_run as g = fold monitor_next as g"

lemma monitor_run_ok:
  "monitoring_ok g \<Longrightarrow> generations_below n (mg_runner g) \<Longrightarrow> n + length as < 2 ^ 64 \<Longrightarrow>
     monitoring_ok (monitor_run as g) \<and> generations_below (n + length as) (mg_runner (monitor_run as g))"
proof (induction as arbitrary: g n)
  case (Cons a as)
  have n: "n < 2 ^ 64 - 1" using Cons.prems(3) by simp
  show ?case
    using Cons.IH [OF monitoring_ok_step [OF Cons.prems(1,2) n, of a] generations_below_step [OF Cons.prems(2) n, of a]]
      Cons.prems(3)
    by (simp add: monitor_run_def)
qed (simp add: monitor_run_def)

lemma fresh_ok: "monitoring_ok (fresh_monitoring s t) \<and> generations_below 0 (mg_runner (fresh_monitoring s t))"
  by (simp add: monitoring_ok_def captured_def fresh_monitoring_def generations_below_def)

text \<open>
  C17. What is published is current. Whatever monitors are started, edited, disabled and removed,
  in whatever order the goroutines take their critical sections, with checks, pings and store
  operations in between and any write failing: when a committed check passes the last test of
  \<open>runCheck\<close> or \<open>commit\<close> and is about to feed the status and the incident tracker, its
  configuration is the one of every scheduler that runs at the live generation of this monitor,
  the monitor is scheduled (unless the runner has been stopped), and the result names this
  monitor and this configuration. The bound on the steps keeps the 64-bit generations from
  wrapping.
\<close>

theorem published_checks_are_current:
  assumes "length steps < 2 ^ 64 - 1" and "g = monitor_run steps (fresh_monitoring s t)"
    and "at_phase Saved j g" and "f = mg_flights g ! j" and "current_flight f (mg_runner g)"
  shows "list_all (\<lambda>(m, gen). mo_id m = mo_id (fg_monitor f) \<and> gen = generation (mo_id m) (mg_runner g) \<longrightarrow>
      m = fg_monitor f) (mg_schedulers g) \<and>
    (mo_id (fg_monitor f) \<in> set (mr_running (mg_runner g)) \<or> mr_stopped (mg_runner g)) \<and>
    ck_monitor (fg_result f) = mo_id (fg_monitor f) \<and> ck_incarnation (fg_result f) = mo_incarnation (fg_monitor f)"
proof -
  have ok: "monitoring_ok g"
    using monitor_run_ok [of "fresh_monitoring s t" 0 steps] fresh_ok assms(1,2) by simp
  have f: "f \<in> set (mg_flights g)" "fg_phase f = Saved" using assms(3,4) by (auto simp: at_phase_def)
  have c: "(fg_monitor f, fg_gen f) \<in> set (captured g)" using f(1) by (auto simp: captured_def)
  have gen: "fg_gen f = generation (mo_id (fg_monitor f)) (mg_runner g)" using assms(5) by (simp add: current_flight_def)
  have sched: "m = fg_monitor f"
    if "(m, gen) \<in> set (mg_schedulers g)" "mo_id m = mo_id (fg_monitor f)" "gen = generation (mo_id m) (mg_runner g)" for m gen
  proof -
    have "(m, gen) \<in> set (captured g)" using that(1) by (simp add: captured_def)
    moreover have "gen = fg_gen f" using that(2,3) gen by metis
    ultimately show ?thesis using monitoring_okD(2) [OF ok _ c] that(2) by fastforce
  qed
  have "list_all (\<lambda>(m, gen). mo_id m = mo_id (fg_monitor f) \<and> gen = generation (mo_id m) (mg_runner g) \<longrightarrow>
      m = fg_monitor f) (mg_schedulers g)"
    unfolding list_all_iff using sched by blast
  then show ?thesis
    using monitoring_okD(3) [OF ok c] monitoring_okD(4) [OF ok f(1)] f(2) gen by (simp add: flight_ok_def)
qed

definition quiet_env :: "time \<Rightarrow> tracker_env" where
  "quiet_env now = \<lparr>te_now = now, te_channels = True, te_silenced = \<lambda>_ _. None, te_hold = \<lambda>_ _. None,
     te_publicURL = None, te_newID = \<lambda>k. ''i'' @ k, te_dir = True, te_saved = True\<rparr>"

definition edit_script :: "monitor_step list" where
  "edit_script = [StartBegin True (web_monitor ''a'' 3), StartFinish (quiet_env 1) 0, CheckBegin 0,
     StoreStep (DoSaveMonitor SaveOk (web_monitor ''b'' 0)), StopMonitor ''web'',
     StartBegin True (web_monitor ''b'' 4), StartFinish (quiet_env 2) 0, CheckBegin 1,
     CheckProbed (Some (3, Responded 200 None 1)) 1, CheckSave WritesAll 1]"

theorem published_checks_are_current_witness:
  "let g = monitor_run edit_script (fresh_monitoring (store_with (web_monitor ''a'' 3) 3) (Some (New_tracker None)))
   in mg_schedulers g = [(web_monitor ''a'' 3, 1), (web_monitor ''b'' 4, 3)] \<and>
      fg_monitor (mg_flights g ! 1) = web_monitor ''b'' 4 \<and> ck_incarnation (fg_result (mg_flights g ! 1)) = 4"
proof -
  let ?g = "monitor_run edit_script (fresh_monitoring (store_with (web_monitor ''a'' 3) 3) (Some (New_tracker None)))"
  have n: "length edit_script < 2 ^ 64 - 1" by (simp add: edit_script_def)
  have p: "at_phase Saved 1 ?g" and c: "current_flight (mg_flights ?g ! 1) (mg_runner ?g)"
    and s: "mg_schedulers ?g = [(web_monitor ''a'' 3, 1), (web_monitor ''b'' 4, 3)]"
    and gen: "generation ''web'' (mg_runner ?g) = 3" and i: "mo_id (fg_monitor (mg_flights ?g ! 1)) = ''web''"
    by code_simp+
  have w: "mo_id (web_monitor t n) = ''web''" "mo_incarnation (web_monitor t n) = n" for t n by (simp_all add: web_monitor_def)
  from published_checks_are_current [OF n HOL.refl p HOL.refl c]
  have "fg_monitor (mg_flights ?g ! 1) = web_monitor ''b'' 4 \<and>
      ck_incarnation (fg_result (mg_flights ?g ! 1)) = mo_incarnation (fg_monitor (mg_flights ?g ! 1))"
    unfolding s i by (simp add: gen w)
  then show ?thesis using s w by (simp add: Let_def)
qed

end
