(* ===== verification/MonitorRemoval.thy ===== *)
theory MonitorRemoval
  imports MonitorSafety IncidentTraces "HOL-Library.Multiset"
begin

text \<open>
  A removed monitor stays silent, and a restart resumes the count of failures: the runner, the
  store and the incident tracker together.
\<close>

section \<open>Tracker calls change one rule\<close>

lemma Observe_other_state: "k \<noteq> rule_key rule \<Longrightarrow>
    mget (tk_states (snd (Observe env rule ok at msg t))) k = mget (tk_states t) k"
  using Observe_states [of env rule ok at msg t] by auto

lemma open_incident_other: "open_incident env key rule s at fails msg t = (out, t') \<Longrightarrow> k \<noteq> key \<Longrightarrow>
    mget (tk_incidents t') k = mget (tk_incidents t) k"
  by (auto simp: open_incident_def Let_def split: if_splits)

lemma Observe_other_incident: "k \<noteq> rule_key rule \<Longrightarrow>
    mget (tk_incidents (snd (Observe env rule ok at msg t))) k = mget (tk_incidents t) k"
  by (auto simp: Observe_def Let_def dest: open_incident_other split: option.splits prod.splits)

lemma Seed_other:
  "k \<noteq> rule_key rule \<Longrightarrow> mget (tk_states (Seed rule hist t)) k = mget (tk_states t) k"
  "tk_incidents (Seed rule hist t) = tk_incidents t" "tk_adopting (Seed rule hist t) = tk_adopting t"
  by (simp_all add: Seed_def Let_def)

lemma AdoptOpen_other:
  "tk_states (AdoptOpen env rule s fails msg t) = tk_states t"
  "k \<noteq> rule_key rule \<Longrightarrow> mget (tk_incidents (AdoptOpen env rule s fails msg t)) k = mget (tk_incidents t) k"
  by (simp_all add: AdoptOpen_def Let_def)

lemma Retire_gone:
  "mget (tk_states (snd (Retire env key msg t))) k = (if k = key then None else mget (tk_states t) k)"
  "mget (tk_incidents (snd (Retire env key msg t))) k = (if k = key then None else mget (tk_incidents t) k)"
  by (auto simp: Retire_def Let_def split: option.splits)

lemma RuleFor_key [simp]: "rule_key (RuleFor m) = RuleKey (mo_id m)"
  by (simp add: rule_key_def RuleFor_def RuleKey_def)

lemma RuleKey_inj [simp]: "RuleKey a = RuleKey b \<longleftrightarrow> a = b"
  by (simp add: RuleKey_def)

lemma seed_tracker_other:
  "mid \<noteq> mo_id m \<Longrightarrow> mget (tk_states (seed_tracker env m cs t)) (RuleKey mid) = mget (tk_states t) (RuleKey mid)"
  "mid \<noteq> mo_id m \<Longrightarrow> mget (tk_incidents (seed_tracker env m cs t)) (RuleKey mid) = mget (tk_incidents t) (RuleKey mid)"
  by (simp_all add: seed_tracker_def Let_def Seed_other AdoptOpen_other)

section \<open>Silence\<close>

text \<open>Nothing of a monitor is left: no status, no result, no token, no rule, no incident.\<close>

definition forgotten :: "string \<Rightarrow> monitoring \<Rightarrow> bool" where
  "forgotten mid g \<longleftrightarrow>
     mget (mr_lastStat (mg_runner g)) mid = None \<and> LastResult mid (mg_runner g) = None \<and>
     mget (mr_lastPing (mg_runner g)) mid = None \<and>
     list_all (\<lambda>(token, m, gen). mo_id m \<noteq> mid) (mr_push (mg_runner g)) \<and>
     (case mg_tracker g of None \<Rightarrow> True
      | Some t \<Rightarrow> mget (tk_states t) (RuleKey mid) = None \<and> mget (tk_incidents t) (RuleKey mid) = None)"

text \<open>And what could still act for it has an old generation.\<close>

definition outdated :: "string \<Rightarrow> monitoring \<Rightarrow> bool" where
  "outdated mid g \<longleftrightarrow> list_all (\<lambda>c. mo_id (fst c) = mid \<longrightarrow> snd c < generation mid (mg_runner g)) (captured g) \<and>
     list_all (\<lambda>p. mo_id (fst p) \<noteq> mid) (mg_starts g)"

definition starts_monitor :: "string \<Rightarrow> monitor_step \<Rightarrow> bool" where
  "starts_monitor mid a \<longleftrightarrow> (case a of StartBegin rd m \<Rightarrow> mo_id m = mid | _ \<Rightarrow> False)"

lemma feed_forgotten:
  assumes "forgotten mid g"
    and "\<And>t. mget (tk_states (snd (f t))) (RuleKey mid) = mget (tk_states t) (RuleKey mid) \<or> mget (tk_states (snd (f t))) (RuleKey mid) = None"
    and "\<And>t. mget (tk_incidents (snd (f t))) (RuleKey mid) = mget (tk_incidents t) (RuleKey mid) \<or> mget (tk_incidents (snd (f t))) (RuleKey mid) = None"
  shows "forgotten mid (feed f g)"
proof (cases "mg_tracker g")
  case (Some t)
  then show ?thesis using assms(1) assms(2,3) [of t] by (auto simp: forgotten_def feed_def split: prod.split)
qed (use assms(1) in \<open>simp add: feed_def\<close>)

lemma retire_forgotten:
  assumes "forgotten mid g" shows "forgotten mid (retireLocked env k why g)"
  unfolding retireLocked_def by (rule feed_forgotten [OF assms]) (auto simp: Retire_gone)

lemma forgotten_runner:
  assumes "forgotten mid g" and "mg_tracker g' = mg_tracker g"
    and "mr_lastStat (mg_runner g') = mr_lastStat (mg_runner g)" "mr_lastResult (mg_runner g') = mr_lastResult (mg_runner g)"
    and "mr_lastPing (mg_runner g') = mr_lastPing (mg_runner g)"
    and "set (mr_push (mg_runner g')) \<subseteq> set (mr_push (mg_runner g))"
  shows "forgotten mid g'"
  using assms by (auto simp: forgotten_def LastResult_def list_all_iff)

lemma start_runner_other:
  assumes "mo_id m \<noteq> mid"
  shows "mget (mr_lastStat (start_runner now m cs r)) mid = mget (mr_lastStat r) mid"
    and "mget (mr_lastResult (start_runner now m cs r)) mid = mget (mr_lastResult r) mid"
    and "mget (mr_lastPing (start_runner now m cs r)) mid = mget (mr_lastPing r) mid"
  using assms by (auto simp: start_runner_def Let_def split: list.split option.split)

lemma forgotten_start:
  assumes "forgotten mid g" and "i < length (mg_starts g)" and "mo_id (fst (mg_starts g ! i)) \<noteq> mid"
  shows "forgotten mid (start_finish env i g)"
proof -
  obtain m cs where m: "mg_starts g ! i = (m, cs)" by force
  have n: "mo_id m \<noteq> mid" using assms(3) m by simp
  show ?thesis
  proof (cases "mr_stopped (mg_runner g)")
    case True
    then show ?thesis using assms(1) m by (simp add: start_finish_def Let_def forgotten_def)
  next
    case False
    let ?r = "start_runner (te_now env) m cs (mg_runner g)"
    let ?g1 = "g\<lparr>mg_starts := take i (mg_starts g) @ drop (Suc i) (mg_starts g), mg_runner := ?r,
       mg_schedulers := mg_schedulers g @ [(m, generation (mo_id m) ?r)]\<rparr>"
    have "list_all (\<lambda>(token, m, gen). mo_id m \<noteq> mid) (mr_push ?r)"
      using assms(1) n by (fastforce simp: forgotten_def list_all_iff dest: start_runner_push)
    then have "forgotten mid ?g1"
      using assms(1) start_runner_other [OF n] by (simp add: forgotten_def LastResult_def)
    then have "forgotten mid (feed (\<lambda>t. ([], seed_tracker env m cs t)) ?g1)"
      by (rule feed_forgotten) (use seed_tracker_other n in auto)
    then show ?thesis using m False by (simp add: start_finish_def Let_def)
  qed
qed

lemma forgotten_publish:
  assumes "forgotten mid g" and "outdated mid g" and "j < length (mg_flights g)"
  shows "forgotten mid (check_publish env j g)" and "forgotten mid (ping_note j g)"
proof -
  let ?f = "mg_flights g ! j"
  have c: "(fg_monitor ?f, fg_gen ?f) \<in> set (captured g)" using assms(3) by (auto simp: captured_def)
  have other: "mo_id (fg_monitor ?f) \<noteq> mid" if "current_flight ?f (mg_runner g)"
    using assms(2) c that by (auto simp: outdated_def list_all_iff current_flight_def)
  let ?m = "fg_monitor ?f" and ?res = "fg_result ?f"
  let ?g1 = "g\<lparr>mg_runner := (mg_runner g)\<lparr>mr_lastStat := mput (mo_id ?m) (ck_status ?res) (mr_lastStat (mg_runner g)),
     mr_lastResult := mput (mo_id ?m) ?res (mr_lastResult (mg_runner g))\<rparr>\<rparr>"
  have put: "forgotten mid (put_flight i f g') = forgotten mid g'" "forgotten mid (drop_flight i g') = forgotten mid g'" for i f g'
    by (simp_all add: forgotten_def)
  show "forgotten mid (check_publish env j g)"
  proof (cases "current_flight ?f (mg_runner g)")
    case True
    have g1: "forgotten mid ?g1" using assms(1) other [OF True] by (simp add: forgotten_def LastResult_def)
    have "forgotten mid (feed (Observe env (RuleFor ?m) (ck_status ?res = ''up'') (ck_at ?res) (ck_message ?res)) ?g1)"
      by (rule feed_forgotten [OF g1]) (use other [OF True] in \<open>auto simp: Observe_other_state Observe_other_incident\<close>)
    then show ?thesis using True by (simp add: check_publish_def Let_def put)
  qed (use assms(1) in \<open>simp add: check_publish_def Let_def put\<close>)
  show "forgotten mid (ping_note j g)"
  proof (cases "current_flight ?f (mg_runner g)")
    case True
    then show ?thesis using assms(1) other [OF True] by (simp add: ping_note_def Let_def forgotten_def LastResult_def)
  qed (use assms(1) in \<open>simp add: ping_note_def Let_def put\<close>)
qed

lemma forgotten_step:
  assumes f: "forgotten mid g" and o: "outdated mid g" and "\<not> starts_monitor mid a"
  shows "forgotten mid (monitor_next a g)"
proof (cases "monitor_enabled a g")
  case en: True
  have td: "forgotten mid (g\<lparr>mg_runner := teardownLocked k (mg_runner g)\<rparr>)" for k
    by (rule forgotten_runner [OF f]) auto
  show ?thesis
  proof (cases a)
    case (StartFinish env i)
    have i: "i < length (mg_starts g)" using en StartFinish by simp
    then have "mo_id (fst (mg_starts g ! i)) \<noteq> mid" using o by (simp add: outdated_def list_all_iff)
    then show ?thesis using forgotten_start [OF f i] i by (simp add: StartFinish monitor_next_def)
  next
    case (StopMonitor k)
    then show ?thesis using td by (simp add: monitor_next_def stopMonitor_def)
  next
    case (DisableMonitor env k)
    then show ?thesis using retire_forgotten [OF td] by (simp add: monitor_next_def disable_monitor_def)
  next
    case (RemoveMonitor env k)
    let ?r = "teardownLocked k (mg_runner g)"
    have "forgotten mid (g\<lparr>mg_runner := ?r\<lparr>mr_lastStat := mdel k (mr_lastStat ?r), mr_lastPing := mdel k (mr_lastPing ?r),
        mr_lastResult := mdel k (mr_lastResult ?r)\<rparr>\<rparr>)"
      using td [of k] by (simp add: forgotten_def LastResult_def)
    then show ?thesis using retire_forgotten
      by (simp add: RemoveMonitor monitor_next_def Remove_monitor_def Let_def)
  next
    case (CheckPublish env j)
    then show ?thesis using en forgotten_publish(1) [OF f o] by (simp add: monitor_next_def at_phase_def)
  next
    case (PingNote j)
    then show ?thesis using en forgotten_publish(2) [OF f o] by (simp add: monitor_next_def at_phase_def)
  qed (use f en in \<open>auto simp: step_defs forgotten_def LastResult_def split: prod.splits option.splits if_splits\<close>)
qed (use f in \<open>simp add: monitor_next_def\<close>)

lemma outdated_step:
  assumes o: "outdated mid g" and "\<not> starts_monitor mid a" and b: "generations_below n (mg_runner g)" "n < 2 ^ 64 - 1"
  shows "outdated mid (monitor_next a g)"
proof -
  let ?g = "monitor_next a g"
  have up: "generation mid (mg_runner g) \<le> generation mid (mg_runner ?g)"
    using generation_raised [OF b, of mid] by (simp add: generation_step less_imp_le)
  have "snd c < generation mid (mg_runner ?g)" if c: "c \<in> set (captured ?g)" "mo_id (fst c) = mid" for c
    using captured_step [OF c(1)]
  proof
    assume "c \<in> set (captured g)"
    then have "snd c < generation mid (mg_runner g)" using o c(2) by (auto simp: outdated_def list_all_iff)
    then show ?thesis using up by (rule less_le_trans)
  next
    assume "started a g c"
    then show ?thesis using o c(2) by (auto simp: started_def outdated_def list_all_iff)
  qed
  moreover have "mo_id (fst p) \<noteq> mid" if "p \<in> set (mg_starts ?g)" for p
    using starts_step [OF that] o assms(2) by (auto simp: outdated_def list_all_iff starts_monitor_def)
  ultimately show ?thesis by (auto simp: outdated_def list_all_iff)
qed

lemma silent_run:
  "forgotten mid g \<Longrightarrow> outdated mid g \<Longrightarrow> list_all (\<lambda>a. \<not> starts_monitor mid a) steps \<Longrightarrow>
     generations_below n (mg_runner g) \<Longrightarrow> n + length steps < 2 ^ 64 \<Longrightarrow> forgotten mid (monitor_run steps g)"
proof (induction steps arbitrary: g n)
  case (Cons a steps)
  have a: "\<not> starts_monitor mid a" and n: "n < 2 ^ 64 - 1" using Cons.prems(3,5) by simp_all
  show ?case
    using Cons.IH [OF forgotten_step [OF Cons.prems(1,2) a] outdated_step [OF Cons.prems(2) a Cons.prems(4) n] _
        generations_below_step [OF Cons.prems(4) n, of a]] Cons.prems(3,5)
    by (simp add: monitor_run_def)
qed (simp add: monitor_run_def)

lemma after_removal:
  assumes "monitoring_ok g" and b: "generations_below n (mg_runner g)" "n < 2 ^ 64 - 1"
    and "list_all (\<lambda>p. mo_id (fst p) \<noteq> mid) (mg_starts g)"
  shows "forgotten mid (Remove_monitor env mid g) \<and> outdated mid (Remove_monitor env mid g)"
proof
  show "forgotten mid (Remove_monitor env mid g)"
  proof (cases "mg_tracker g")
    case None
    then show ?thesis
      by (auto simp: forgotten_def Remove_monitor_def retireLocked_def feed_def LastResult_def Let_def list_all_iff)
  next
    case (Some t)
    obtain out t' where r: "Retire env (RuleKey mid) ''monitor removed'' t = (out, t')" by force
    have "mget (tk_states t') (RuleKey mid) = None" "mget (tk_incidents t') (RuleKey mid) = None"
      using Retire_gone [of env "RuleKey mid" "''monitor removed''" t "RuleKey mid"] by (simp_all add: r)
    then show ?thesis using Some r
      by (auto simp: forgotten_def Remove_monitor_def retireLocked_def feed_def LastResult_def Let_def list_all_iff)
  qed
  have r: "monitor_next (RemoveMonitor env mid) g = Remove_monitor env mid g" by (simp add: monitor_next_def)
  have gen: "generation mid (mg_runner (Remove_monitor env mid g)) = generation mid (mg_runner g) + 1"
    using generation_step [of mid "RemoveMonitor env mid" g] by (simp add: r)
  have starts: "mg_starts (Remove_monitor env mid g) = mg_starts g"
    by (simp add: Remove_monitor_def retireLocked_def Let_def)
  have "snd c < generation mid (mg_runner g) + 1" if c: "c \<in> set (captured (Remove_monitor env mid g))" "mo_id (fst c) = mid" for c
    using captured_step [of c "RemoveMonitor env mid" g] c monitoring_okD(1) [OF assms(1), of c] generation_raised [OF b, of mid]
    by (auto simp: r started_def)
  then show "outdated mid (Remove_monitor env mid g)"
    using assms(4) starts unfolding outdated_def gen list_all_iff by auto
qed

text \<open>
  C18. A removed monitor stays silent. However many checks and pings of a monitor are in flight
  when it is removed, and however late its stopped scheduler still acts, until a monitor of
  that name is started again the runner has no status, result, ping or token of it, and the
  tracker has no rule and no incident: no stale check opens one that nothing would close.
  (No start of it may be halfway, between its read of the history and its critical section:
  such a start comes after the removal and does schedule the removed monitor.)
\<close>

theorem removed_monitor_stays_silent:
  assumes "g = monitor_run before (fresh_monitoring s t)"
    and "list_all (\<lambda>p. mo_id (fst p) \<noteq> mid) (mg_starts g)"
    and "list_all (\<lambda>a. \<not> starts_monitor mid a) after"
    and "length before + length after < 2 ^ 64 - 2"
  shows "forgotten mid (monitor_run after (Remove_monitor env mid g))"
proof -
  have ok: "monitoring_ok g" "generations_below (length before) (mg_runner g)"
    using monitor_run_ok [of "fresh_monitoring s t" 0 before] fresh_ok assms(1,4) by simp_all
  have n: "length before < 2 ^ 64 - 1" using assms(4) by simp
  have r: "monitor_next (RemoveMonitor env mid) g = Remove_monitor env mid g" by (simp add: monitor_next_def)
  have b: "generations_below (Suc (length before)) (mg_runner (Remove_monitor env mid g))"
    using generations_below_step [OF ok(2) n, of "RemoveMonitor env mid"] by (simp add: r)
  show ?thesis
    using silent_run [OF _ _ assms(3) b] after_removal [OF ok n assms(2)] assms(4) by simp
qed

definition removal_script :: "monitor_step list" where
  "removal_script = [StartBegin True (web_monitor ''a'' 3), StartFinish (quiet_env 1) 0, CheckBegin 0,
     CheckProbed (Some (2, Responded 500 None 1)) 0, CheckSave WritesAll 0]"

theorem removed_monitor_stays_silent_witness:
  "forgotten ''web'' (monitor_run [CheckPublish (quiet_env 4) 0, CheckBegin 0] (Remove_monitor (quiet_env 3) ''web''
     (monitor_run removal_script (fresh_monitoring (store_with (web_monitor ''a'' 3) 3) (Some (New_tracker None))))))"
proof -
  let ?g = "monitor_run removal_script (fresh_monitoring (store_with (web_monitor ''a'' 3) 3) (Some (New_tracker None)))"
  have s: "mg_starts ?g = []" by code_simp
  show ?thesis
    by (rule removed_monitor_stays_silent [OF HOL.refl]) (simp_all add: s starts_monitor_def, simp add: removal_script_def)
qed

section \<open>Restarts\<close>

lemma takeWhile_take: "takeWhile P (take n xs) = take n (takeWhile P xs)"
proof (induction xs arbitrary: n)
  case (Cons x xs)
  then show ?case by (cases n) auto
qed simp

lemma streak_take:
  assumes "0 < n"
  shows "fst (streak (take n hist)) = min (fst (streak hist)) (int n)"
    and "fst (snd (streak (take n hist))) = min (fst (snd (streak hist))) (int n)"
    and "fst (streak hist) + fst (snd (streak hist)) \<le> int n \<Longrightarrow> streak (take n hist) = streak hist"
proof -
  obtain k where n: "n = Suc k" using assms gr0_implies_Suc by blast
  have "fst (streak (take n hist)) = min (fst (streak hist)) (int n) \<and>
    fst (snd (streak (take n hist))) = min (fst (snd (streak hist))) (int n) \<and>
    (fst (streak hist) + fst (snd (streak hist)) \<le> int n \<longrightarrow> streak (take n hist) = streak hist)"
  proof (cases hist)
    case (Cons a l)
    let ?run = "takeWhile (\<lambda>x. sm_ok x = sm_ok a) hist"
    have full: "streak hist = (if sm_ok a then (0, int (length ?run), 0) else (int (length ?run), 0, sm_at (last ?run)))"
      by (simp add: streak_def Cons Let_def)
    have cut: "streak (take n hist) =
        (if sm_ok a then (0, int (length (take n ?run)), 0) else (int (length (take n ?run)), 0, sm_at (last (take n ?run))))"
      by (simp add: streak_def Cons n Let_def takeWhile_take)
    show ?thesis by (simp add: full cut of_nat_min)
  qed (simp add: streak_def)
  then show "fst (streak (take n hist)) = min (fst (streak hist)) (int n)"
    "fst (snd (streak (take n hist))) = min (fst (snd (streak hist))) (int n)"
    "fst (streak hist) + fst (snd (streak hist)) \<le> int n \<Longrightarrow> streak (take n hist) = streak hist"
    by blast+
qed

lemma newest_of_ascending:
  assumes "sorted_wrt (<) (map ck_at rs)" and "0 < limit"
  shows "newest_checks limit rs = take (nat limit) (rev rs)"
proof -
  have d: "distinct (map ck_at rs)" using assms(1) by (simp add: strict_sorted_iff)
  have "sort_key (\<lambda>r. - ck_at r) rs = rev rs"
  proof (rule sort_key_inj_key_eq)
    show "inj_on (\<lambda>r. - ck_at r) (set rs)" using d by (auto simp: distinct_map inj_on_def)
    have "sorted (map ck_at rs)" using assms(1) by (simp add: strict_sorted_imp_sorted)
    then show "sorted (map (\<lambda>r. - ck_at r) (rev rs))"
      by (simp add: sorted_wrt_map sorted_wrt_rev)
  qed simp
  then show ?thesis using assms(2) by (simp add: newest_checks_def)
qed

lemma scan_rows: "list_all (\<lambda>r. 0 < ck_at r) rs \<Longrightarrow> scan_checks 0 (map (\<lambda>r. Row r []) rs) = Some rs"
  by (induction rs) auto

lemma seed_length_pos: "0 < seed_length (PolicyFor m)"
  by (auto simp: seed_length_def PolicyFor_def Let_def DefaultFailAfter_def DefaultPushFailAfter_def)

lemma streak_AdoptOpen: "streak_of k (AdoptOpen env rule s fails msg t) = streak_of k t"
  by (simp add: streak_of_def get_state_def AdoptOpen_other)

lemma streak_seed_tracker: "streak_of (RuleKey (mo_id m)) (seed_tracker env m cs t) = streak (samples_of cs)"
  using streak_Seed [of "RuleFor m"] by (simp add: seed_tracker_def Let_def streak_AdoptOpen)

text \<open>
  C19. A restart resumes the count. All committed checks of a monitor are in its history, in
  order. When the process starts again and schedules the monitor, the incident tracker counts
  its failures and passes in a row as the tracker that observed every one of these checks (from
  a rule without a streak, whatever holds and silences it met), capped at the number of results
  the start reads, one more than either threshold; below the cap the time of the first failure
  is the same too. So an outage that spans a restart opens its incident at the same check.
\<close>

theorem restart_resumes_the_count:
  assumes "ValidID (mo_id m)" and "mget (fs_history s) (mo_id m) = Some h" and "hf_rows h = map (\<lambda>r. Row r []) rs"
    and "sorted_wrt (<) (map ck_at rs)" and "list_all (\<lambda>r. 0 < ck_at r) rs"
    and "map ob_sample obs = samples_of rs" and "streak_of (RuleKey (mo_id m)) t0 = (0, 0, 0)"
    and "mg_tracker (monitor_run [StartBegin True m, StartFinish env 0] (fresh_monitoring s (Some t))) = Some t'"
    and "streak_of (RuleKey (mo_id m)) (observe_run (RuleFor m) obs t0) = (fails, passes, since)"
  shows "fst (streak_of (RuleKey (mo_id m)) t') = min fails (seed_length (PolicyFor m)) \<and>
    fst (snd (streak_of (RuleKey (mo_id m)) t')) = min passes (seed_length (PolicyFor m)) \<and>
    (fails + passes \<le> seed_length (PolicyFor m) \<longrightarrow> streak_of (RuleKey (mo_id m)) t' = (fails, passes, since))"
proof -
  let ?n = "nat (seed_length (PolicyFor m))"
  have h: "seed_history True m s = take ?n (rev rs)"
    using assms(1-3) scan_rows [OF assms(5)] newest_of_ascending [OF assms(4) seed_length_pos]
    by (simp add: seed_history_def GetChecks_def)
  have "t' = seed_tracker env m (take ?n (rev rs)) t"
    using assms(8) by (simp add: monitor_run_def monitor_next_def start_begin_def start_finish_def fresh_monitoring_def h
        feed_def Let_def)
  then have t': "streak_of (RuleKey (mo_id m)) t' = streak (take ?n (samples_of (rev rs)))"
    by (simp add: streak_seed_tracker samples_of_def take_map)
  have "streak_of (RuleKey (mo_id m)) (observe_run (RuleFor m) obs t0) = fold streak_step (map ob_sample obs) (0, 0, 0)"
    using streak_run [of "RuleFor m" obs t0] assms(7) by (simp add: fold_map)
  also have "\<dots> = streak (samples_of (rev rs))"
    using streak_replay [of "samples_of (rev rs)"] assms(6) by (simp add: samples_of_def rev_map)
  finally have full: "streak (samples_of (rev rs)) = (fails, passes, since)" using assms(9) by simp
  show ?thesis
    using streak_take [of ?n "samples_of (rev rs)"] seed_length_pos [of m] by (simp add: t' full)
qed

definition down_store :: file_store where
  "down_store = (store_with (web_monitor ''a'' 3) 3)\<lparr>fs_history := [(''web'',
     \<lparr>hf_rows = map (\<lambda>r. Row r []) [web_check ''up'' 10 3, web_check ''down'' 20 3, web_check ''down'' 30 3],
      hf_torn = False\<rparr>)]\<rparr>"

theorem restart_resumes_the_count_witness:
  "case mg_tracker (monitor_run [StartBegin True (web_monitor ''a'' 3), StartFinish (quiet_env 40) 0]
     (fresh_monitoring down_store (Some (New_tracker (Some (Some [])))))) of
     Some t' \<Rightarrow> streak_of (RuleKey ''web'') t' = (2, 0, 20) | None \<Rightarrow> False"
proof -
  let ?m = "web_monitor ''a'' 3" and ?t = "New_tracker (Some (Some []))"
  let ?rs = "[web_check ''up'' 10 3, web_check ''down'' 20 3, web_check ''down'' 30 3]"
  let ?obs = "[pass_at 10, fail_at 20, fail_at 30]"
  have v: "ValidID (mo_id ?m)" by code_simp
  have h: "mget (fs_history down_store) (mo_id ?m) = Some \<lparr>hf_rows = map (\<lambda>r. Row r []) ?rs, hf_torn = False\<rparr>"
    by (simp add: down_store_def web_monitor_def)
  have r: "hf_rows \<lparr>hf_rows = map (\<lambda>r. Row r []) ?rs, hf_torn = False\<rparr> = map (\<lambda>r. Row r []) ?rs" by simp
  have s: "sorted_wrt (<) (map ck_at ?rs)" "list_all (\<lambda>r. 0 < ck_at r) ?rs" by (simp_all add: web_check_def)
  have o: "map ob_sample ?obs = samples_of ?rs" by (simp add: samples_of_def web_check_def pass_at_def fail_at_def)
  have z: "streak_of (RuleKey (mo_id ?m)) (New_tracker None) = (0, 0, 0)"
    by (simp add: streak_of_def get_state_def New_tracker_def zero_state_def)
  have c: "streak_of (RuleKey (mo_id ?m)) (observe_run (RuleFor ?m) ?obs (New_tracker None)) = (2, 0, 20)"
    using streak_run [of "RuleFor ?m" ?obs "New_tracker None"] z by (simp add: pass_at_def fail_at_def)
  have n: "2 + 0 \<le> seed_length (PolicyFor ?m)" by code_simp
  obtain t' where t': "mg_tracker (monitor_run [StartBegin True ?m, StartFinish (quiet_env 40) 0]
      (fresh_monitoring down_store (Some ?t))) = Some t'"
    by (auto simp: monitor_run_def monitor_next_def start_begin_def start_finish_def fresh_monitoring_def feed_def Let_def)
  have w: "mo_id ?m = ''web''" by (simp add: web_monitor_def)
  from restart_resumes_the_count [OF v h r s o z t' c] n t' show ?thesis by (simp add: w)
qed

end
