(* ===== verification/Spec2Isabelle.thy ===== *)
theory Spec2Isabelle
  imports OpCommands OpHistory OpBudgets OpTargets OpProgress OpDurability AlertPath OutboxRestart McpServer MonitorRemoval
begin

text \<open>
  Teploy Dash is the dashboard of a fleet of servers: a Go program that runs the \<open>teploy\<close> CLI for its
  users, watches monitors and backups, and sends alerts. This development models the parts that
  decide something: who may do what, what is executed and recorded, what is observed and told.
  It was translated from the sources by hand, definition by definition; \<open>PROJECT.json\<close> maps
  every definition to its lines.

  \<^bold>\<open>How the parts interact.\<close> A request passes the gate (\<open>wrap\<close>), which finds the session of its
  cookie, revalidates it against the account, and compares the account's capabilities with the
  route table. Behind it the handlers of the app routes and of the operations API turn the request
  into an operation and hand it to the operation manager. The manager admits it within budgets,
  writes its record, queues it at its target, and a worker runs the CLI command, with
  cancellation, reconciliation and retention. The uptime runner probes monitors, commits the
  results to the file store and feeds the incident tracker, which decides when to open, repeat and
  recover an incident; its events go to the alert outbox, which delivers them per channel and
  survives restarts. Agents come in beside the gate: the MCP endpoint checks a bearer token and its
  capabilities itself, and its tools hand the same operations to the same manager.

  \<^bold>\<open>Theories.\<close>

  \<^item> Shared: \<open>Prelude\<close> (time, Go maps as association lists, strings, \<open>int64\<close>), \<open>GoText\<close> (string
    functions of the standard library).
  \<^item> Operations (\<open>internal/operation\<close>): \<open>OpTypes\<close> (\<open>types.go\<close>), \<open>OpBuild\<close>, \<open>OpRedact\<close>, \<open>OpCommands\<close>
    (\<open>build.go\<close>: the argument vector of every kind, the secrets taken out of texts), \<open>OpJournal\<close>,
    \<open>OpHistory\<close> (\<open>store.go\<close>: the event journals), \<open>OpManager\<close>, \<open>OpAdmission\<close>, \<open>OpWorker\<close>, \<open>OpService\<close>
    (\<open>manager.go\<close>: state and events; \<open>Enqueue\<close>, \<open>Cancel\<close>, \<open>Retry\<close> and the reads; the workers as
    program counters with one step per critical section; start, recovery, retention, shutdown).
    The lemmas: \<open>OpFrame\<close>, \<open>OpEffect\<close> (what each call changes), \<open>OpInvariant\<close>, \<open>OpReach\<close> (the invariant
    over all reachable states), and the properties in \<open>OpLifecycle\<close>, \<open>OpBudgets\<close>, \<open>OpRecovery\<close>,
    \<open>OpRetention\<close>, \<open>OpTargets\<close>, \<open>OpProgress\<close>, \<open>OpDurability\<close>.
  \<^item> Alerts: \<open>Alerts\<close> (\<open>internal/alert/alert.go\<close>, \<open>config.go\<close>), \<open>Incidents\<close> (\<open>internal/incident\<close>) with
    \<open>IncidentTraces\<close> and \<open>IncidentPolicy\<close>, \<open>Outbox\<close> (\<open>internal/outbox\<close>, \<open>internal/durable\<close>) with
    \<open>OutboxRuns\<close>, \<open>OutboxSafety\<close>, \<open>OutboxLegs\<close>, \<open>OutboxOrder\<close>, \<open>OutboxRestart\<close>, and \<open>AlertPath\<close>, the
    tracker and the outbox composed.
  \<^item> Access: \<open>Caps\<close>, \<open>CapsLaws\<close> (\<open>internal/caps\<close>, \<open>server/caps.go\<close>), \<open>Accounts\<close> (\<open>server/users.go\<close>),
    \<open>AuthGate\<close> (\<open>authGate\<close> in \<open>server/server.go\<close>, \<open>sessions.go\<close>, \<open>stream_auth.go\<close>), \<open>AuthHandlers\<close> (login,
    setup, password, logout, account administration), \<open>AccessSystem\<close> (all of these and restarts as
    one step system) with \<open>AccessSafety\<close>, \<open>AccessRevocation\<close>, \<open>AccessControl\<close>, \<open>AccessRoles\<close>;
    \<open>AppRoutes\<close> and \<open>AppAccess\<close> (the dispatch of app requests against the route table),
    \<open>OperationRoutes\<close> (\<open>server/operations.go\<close> between the gate and the manager).
  \<^item> MCP: \<open>McpTokens\<close> (\<open>internal/mcp/tokens.go\<close>: the bearer tokens and their file) and \<open>McpServer\<close>
    (\<open>internal/mcp/mcp.go\<close>, \<open>tools.go\<close>, \<open>server/mcp.go\<close>: the endpoint, its tools, and the operation or CLI
    command each runs, compared with the routes of the dashboard).
  \<^item> Monitoring: \<open>MonitorStore\<close> (\<open>internal/store/file.go\<close>) with \<open>MonitorCommits\<close> and \<open>MonitorResults\<close>,
    \<open>MonitorRunner\<close> (\<open>internal/monitor/monitor.go\<close>) over the store and the tracker, with
    \<open>MonitorSafety\<close> and \<open>MonitorRemoval\<close>.

  \<^bold>\<open>Conventions.\<close> State is passed explicitly, one record per Go struct with its fields; a function
  that holds a mutex is one step, and code that releases it in between is several steps whose
  local state is part of the model, so that a theorem over all runs is a theorem over all
  interleavings. A map is an association list, and a theorem holds for every order of it, hence
  for every order of a Go \<open>range\<close>. The outcome of every write is an argument (\<open>save_outcome\<close> and
  the \<open>io\<close> records): done, failed with nothing changed, or failed after the rename; appends may be
  cut short. A crash is the loss of everything but the files, at any step. Times are
  integers in nanoseconds, counters that wrap are \<open>64 word\<close>; the theorems that need a counter not
  to wrap bound the number of steps.

  \<^bold>\<open>Locales.\<close> A contract between parts is a locale, interpreted on the model: the alerter that the
  tracker sends through and the outbox implements (\<open>AlertPath\<close>), the commit of a result under the
  stamp of its configuration (\<open>MonitorCommits\<close>, for checks and for restore verdicts), and the event
  log that a journal with compaction implements (\<open>OpHistory\<close>).

  \<^bold>\<open>Parameters.\<close> Code that is not in the repository is an argument: SHA-256 (\<open>digest\<close>), bcrypt (its
  verdict and its hash), random identifiers and tokens, JSON (its encoded lengths where a bound
  depends on them), URL parsing, the network, the CLI and its receipts, the clock. Their
  hypotheses are stated where they are used: fresh identifiers, injective digests on the tokens in
  play.

  \<^bold>\<open>Recursion.\<close> Every loop is a structural recursion, a \<open>fold\<close>, or a \<open>function\<close> with a measure; no
  definition uses fuel. That the workers of the operation manager end is a theorem
  (\<open>OpProgress\<close>), with a measure over their program counters.

  \<^bold>\<open>Approximations.\<close> Where code does a little more between two critical sections than the model has steps:
  the gate (\<open>wrap\<close>) is one step, though the look-up of the session, its check against the account and its
  renewal lock separately; \<open>Cancel\<close> includes the call of the job's cancel function, \<open>finishReconciled\<close> the
  closing of the journal, both of which come right after the unlock; \<open>run_read_flag\<close> reads the flag of the shutdown
  once, \<open>run_check_context\<close> the context and its reason together; one attempt of the outbox sends all its legs
  in one step (there is one worker, which holds no lock then). Of the failures of files, an unreadable
  directory in \<open>sweepRetention\<close> and a data directory that cannot be created or a journal that cannot be
  replaced when the outbox starts are left out. A record that is written and read is itself: JSON is not modelled.

  \<^bold>\<open>Not modelled.\<close> Rendering and transport: HTTP encoding of replies, HTML and the front end, the
  senders of the alert channels (\<open>internal/alert/senders.go\<close>), the decoding of JSON (requests start from
  the decoded value) and the texts of the MCP answers. Wrappers of the
  outside world: \<open>internal/ssh\<close>, \<open>internal/remote\<close>, \<open>internal/cli\<close>, \<open>internal/b2\<close>, \<open>internal/s3probe\<close>, the
  second store backend (\<open>internal/store/nucleus.go\<close>, SQL). The parts of \<open>internal/server\<close> that
  assemble views from CLI output (fleet, domains, cleanup, observe, backup setup and policy): their
  behaviour is what the remote commands answer. \<open>PROJECT.json\<close> lists each with its reason.
\<close>

end
